(* ===== verification/Prelude.thy ===== *)
theory Prelude
  imports Main "HOL-Library.Sublist"
begin

text \<open>
  The prelude of the development: Python exceptions as values, the state-and-exception
  programs in which the database code is written, SQL row lists, and the part of Python's
  \<open>str\<close> and \<open>int\<close> the sources use.

  A Python \<open>str\<close> is a \<open>string\<close> over an alphabet of 256 code points: U+0000 to U+00FF
  (Latin-1), where unassigned control characters stand for the code points beyond it that the
  sources insert themselves or that normalisation yields: 0x81 is U+2026, the ellipsis; 0x82 and
  0x83 are the brackets U+27E6 and U+27E7; 0x84 is the arrow U+2192; 0x86 and 0x87 are the dashes
  U+2013 and U+2014; 0x88 to 0x8B are the combining marks U+0308, U+0304, U+0301 and U+0327; 0x8C
  is U+2044, the fraction slash; and 0x8D is U+2060, the word joiner. Every classification (\<open>isspace\<close>, \<open>isdigit\<close>, \<open>lower\<close>) is the one of
  CPython on this alphabet.
\<close>

named_theorems prog_simps "unfolding of the state-and-exception programs"
named_theorems frame_simps "fields an operation leaves alone"
named_theorems obeys_intros "introduction rules for obeys"

subsection \<open>Exceptions\<close>

datatype pyexc =
    ValueError string
  | TypeError string
  | KeyError string
  | LookupError string
  | RuntimeError string
  | OSError string
  | TimeoutError
  | CancelledError
  | IdempotencyConflictError string
  | InvalidLifecycleTransition string
  | PermanentTaskError string
  | HTTPException int string "(string \<times> string) list"
  | JuditRequestError string bool string "int option"
  | AttachmentProcessingError string string
  | DatabaseError string

type_synonym 'a res = "pyexc + 'a"

text \<open>The subclass tests of the \<open>except\<close> clauses.\<close>

fun is_value_error :: "pyexc \<Rightarrow> bool" where
  "is_value_error (ValueError _) = True"
| "is_value_error (IdempotencyConflictError _) = True"
| "is_value_error (InvalidLifecycleTransition _) = True"
| "is_value_error (AttachmentProcessingError _ _) = True"
| "is_value_error _ = False"

fun is_type_error :: "pyexc \<Rightarrow> bool" where
  "is_type_error (TypeError _) = True"
| "is_type_error _ = False"

fun is_key_error :: "pyexc \<Rightarrow> bool" where
  "is_key_error (KeyError _) = True"
| "is_key_error _ = False"

fun is_lookup_error :: "pyexc \<Rightarrow> bool" where
  "is_lookup_error (LookupError _) = True"
| "is_lookup_error (KeyError _) = True"
| "is_lookup_error _ = False"

fun is_permanent :: "pyexc \<Rightarrow> bool" where
  "is_permanent (PermanentTaskError _) = True"
| "is_permanent _ = False"

definition res_bind :: "'a res \<Rightarrow> ('a \<Rightarrow> 'b res) \<Rightarrow> 'b res" where
  "res_bind r f = (case r of Inl e \<Rightarrow> Inl e | Inr x \<Rightarrow> f x)"

lemma res_bind_simps [simp]:
  "res_bind (Inl e) f = Inl e"
  "res_bind (Inr x) f = f x"
  by (simp_all add: res_bind_def)

lemma res_bind_eq_Inr [simp]:
  "res_bind r f = Inr y \<longleftrightarrow> (\<exists>x. r = Inr x \<and> f x = Inr y)"
  by (cases r) simp_all

subsection \<open>Programs: state in, state and outcome out\<close>

type_synonym ('s, 'a) prog = "'s \<Rightarrow> 's \<times> 'a res"

definition ret :: "'a \<Rightarrow> ('s, 'a) prog" where
  "ret x = (\<lambda>s. (s, Inr x))"

definition raise :: "pyexc \<Rightarrow> ('s, 'a) prog" where
  "raise e = (\<lambda>s. (s, Inl e))"

definition lift_res :: "'a res \<Rightarrow> ('s, 'a) prog" where
  "lift_res r = (\<lambda>s. (s, r))"

definition query :: "('s \<Rightarrow> 'a) \<Rightarrow> ('s, 'a) prog" where
  "query f = (\<lambda>s. (s, Inr (f s)))"

definition modify :: "('s \<Rightarrow> 's) \<Rightarrow> ('s, unit) prog" where
  "modify f = (\<lambda>s. (f s, Inr ()))"

definition bind :: "('s, 'a) prog \<Rightarrow> ('a \<Rightarrow> ('s, 'b) prog) \<Rightarrow> ('s, 'b) prog" where
  "bind m f = (\<lambda>s. case m s of (s', Inl e) \<Rightarrow> (s', Inl e) | (s', Inr x) \<Rightarrow> f x s')"

definition then_do :: "('s, 'a) prog \<Rightarrow> ('s, 'b) prog \<Rightarrow> ('s, 'b) prog" where
  "then_do m n = bind m (\<lambda>_. n)"

text \<open>\<open>async with conn.transaction()\<close>: an exception rolls the state back.\<close>

definition transaction :: "('s, 'a) prog \<Rightarrow> ('s, 'a) prog" where
  "transaction m = (\<lambda>s. case m s of (s', Inl e) \<Rightarrow> (s, Inl e) | (s', Inr x) \<Rightarrow> (s', Inr x))"

text \<open>\<open>try: m except P as e: h e\<close>: the state reached when \<open>m\<close> raised is kept.\<close>

definition try_except ::
  "('s, 'a) prog \<Rightarrow> (pyexc \<Rightarrow> bool) \<Rightarrow> (pyexc \<Rightarrow> ('s, 'a) prog) \<Rightarrow> ('s, 'a) prog" where
  "try_except m p h =
     (\<lambda>s. case m s of (s', Inl e) \<Rightarrow> (if p e then h e s' else (s', Inl e))
                   | (s', Inr x) \<Rightarrow> (s', Inr x))"

fun for_each :: "('a \<Rightarrow> ('s, unit) prog) \<Rightarrow> 'a list \<Rightarrow> ('s, unit) prog" where
  "for_each f [] = ret ()"
| "for_each f (x # xs) = then_do (f x) (for_each f xs)"

declare ret_def [prog_simps] raise_def [prog_simps] lift_res_def [prog_simps]
declare query_def [prog_simps] modify_def [prog_simps] bind_def [prog_simps]
declare then_do_def [prog_simps]

subsection \<open>Running programs\<close>

lemma run_simps:
  "bind (query f) g d = g (f d) d"
  "bind (modify h) k d = k () (h d)"
  "then_do (modify h) n d = n (h d)"
  "bind (ret x) g d = g x d"
  "then_do (ret x) n d = n d"
  "bind (lift_res (Inr x)) g d = g x d"
  "transaction m d = (d', Inr y) \<longleftrightarrow> m d = (d', Inr y)"
  by (auto simp: prog_simps transaction_def split: prod.split sum.split)

lemma ret_run: "ret x s = (s, Inr x)"
  by (simp add: ret_def)

subsection \<open>Relations every program obeys\<close>

text \<open>
  \<open>obeys R m\<close>: whatever \<open>m\<close> does, also when it raises half-way, the state it leaves is
  \<open>R\<close>-related to the one it started from. With \<open>R s t = (I s \<longrightarrow> I t)\<close> this is the
  preservation of the invariant \<open>I\<close>.
\<close>

definition obeys :: "('s \<Rightarrow> 's \<Rightarrow> bool) \<Rightarrow> ('s, 'a) prog \<Rightarrow> bool" where
  "obeys R m \<longleftrightarrow> (\<forall>s. R s (fst (m s)))"

lemma obeysI: "(\<And>s. R s (fst (m s))) \<Longrightarrow> obeys R m"
  by (simp add: obeys_def)

lemma obeysD: "obeys R m \<Longrightarrow> R s (fst (m s))"
  by (simp add: obeys_def)

lemma obeysD': "obeys R m \<Longrightarrow> m s = (s', r) \<Longrightarrow> R s s'"
  by (metis fst_conv obeys_def)

locale step_order =
  fixes R :: "'s \<Rightarrow> 's \<Rightarrow> bool"
  assumes R_refl: "R s s"
    and R_trans: "R s t \<Longrightarrow> R t u \<Longrightarrow> R s u"
begin

lemma resp_ret: "obeys R (ret x)"
  by (simp add: obeys_def ret_def R_refl)

lemma resp_raise: "obeys R (raise e)"
  by (simp add: obeys_def raise_def R_refl)

lemma resp_lift: "obeys R (lift_res r)"
  by (simp add: obeys_def lift_res_def R_refl)

lemma resp_query: "obeys R (query f)"
  by (simp add: obeys_def query_def R_refl)

lemma resp_modify: "(\<And>s. R s (f s)) \<Longrightarrow> obeys R (modify f)"
  by (simp add: obeys_def modify_def)

lemma resp_bind:
  assumes "obeys R m" and "\<And>x. obeys R (f x)"
  shows "obeys R (bind m f)"
proof (rule obeysI)
  fix s
  obtain s' r where m: "m s = (s', r)" by (cases "m s")
  with assms(1) have "R s s'" by (metis obeysD')
  with m assms(2) show "R s (fst (bind m f s))"
    by (cases r) (auto simp: bind_def intro: R_trans dest: obeysD)
qed

lemma resp_then: "obeys R m \<Longrightarrow> obeys R n \<Longrightarrow> obeys R (then_do m n)"
  by (simp add: then_do_def resp_bind)

lemma resp_transaction: "obeys R m \<Longrightarrow> obeys R (transaction m)"
  by (auto simp: obeys_def transaction_def R_refl split: prod.split sum.split)
    (metis fst_conv)

lemma resp_try:
  assumes "obeys R m" and "\<And>e. obeys R (h e)"
  shows "obeys R (try_except m p h)"
proof (rule obeysI)
  fix s
  obtain s' r where m: "m s = (s', r)" by (cases "m s")
  with assms(1) have "R s s'" by (metis obeysD')
  with m assms(2) show "R s (fst (try_except m p h s))"
    by (cases r) (auto simp: try_except_def intro: R_trans dest: obeysD)
qed

lemma resp_for_each: "(\<And>x. obeys R (f x)) \<Longrightarrow> obeys R (for_each f xs)"
  by (induction xs) (simp_all add: resp_ret resp_then)

lemma resp_option:
  "obeys R n \<Longrightarrow> (\<And>x. obeys R (f x)) \<Longrightarrow> obeys R (case v of None \<Rightarrow> n | Some x \<Rightarrow> f x)"
  by (cases v) simp_all

lemma resp_sum:
  "(\<And>e. obeys R (g e)) \<Longrightarrow> (\<And>x. obeys R (f x)) \<Longrightarrow>
   obeys R (case v of Inl e \<Rightarrow> g e | Inr x \<Rightarrow> f x)"
  by (cases v) simp_all

lemma resp_if: "obeys R m \<Longrightarrow> obeys R n \<Longrightarrow> obeys R (if c then m else n)"
  by simp

lemmas resp_rules = resp_ret resp_raise resp_lift resp_query resp_bind resp_then
  resp_transaction resp_try resp_for_each resp_option resp_sum resp_if

end

text \<open>The instance used for invariants.\<close>

definition keeps :: "('s \<Rightarrow> bool) \<Rightarrow> 's \<Rightarrow> 's \<Rightarrow> bool" where
  "keeps I s t \<longleftrightarrow> (I s \<longrightarrow> I t)"

interpretation keeps: step_order "keeps I" for I
  by unfold_locales (auto simp: keeps_def)

lemma keeps_run: "obeys (keeps I) m \<Longrightarrow> I s \<Longrightarrow> I (fst (m s))"
  by (simp add: obeys_def keeps_def)

end
