(* ===== verification/PyStr.thy ===== *)
theory PyStr
  imports Prelude
begin

text \<open>
  Python's \<open>str\<close> and \<open>int\<close> operations as the sources use them, on Latin-1 text:
  character classes, stripping, splitting, case folding, decimal rendering and parsing.
\<close>

subsection \<open>Character classes\<close>

abbreviation ord :: "char \<Rightarrow> nat" where
  "ord \<equiv> of_char"

definition isspace_c :: "char \<Rightarrow> bool" where
  "isspace_c c \<longleftrightarrow> (9 \<le> ord c \<and> ord c \<le> 13) \<or> (28 \<le> ord c \<and> ord c \<le> 32)
     \<or> ord c = 133 \<or> ord c = 160"

text \<open>\<open>\d\<close> of a regular expression and the digits of \<open>int()\<close>: category Nd.\<close>

definition isdecimal_c :: "char \<Rightarrow> bool" where
  "isdecimal_c c \<longleftrightarrow> 48 \<le> ord c \<and> ord c \<le> 57"

text \<open>\<open>str.isdigit\<close> also accepts the superscripts two, three and one.\<close>

definition isdigit_c :: "char \<Rightarrow> bool" where
  "isdigit_c c \<longleftrightarrow> isdecimal_c c \<or> ord c = 178 \<or> ord c = 179 \<or> ord c = 185"

definition lower_c :: "char \<Rightarrow> char" where
  "lower_c c = (if (65 \<le> ord c \<and> ord c \<le> 90) \<or> (192 \<le> ord c \<and> ord c \<le> 222 \<and> ord c \<noteq> 215)
                then char_of (ord c + 32) else c)"

text \<open>
  The upper-case forms of code points 181 and 255 lie beyond Latin-1 and are left alone;
  code point 223 becomes two letters.
\<close>

definition upper_c :: "char \<Rightarrow> string" where
  "upper_c c = (if (97 \<le> ord c \<and> ord c \<le> 122) \<or> (224 \<le> ord c \<and> ord c \<le> 254 \<and> ord c \<noteq> 247)
                then [char_of (ord c - 32)] else if ord c = 223 then ''SS'' else [c])"

definition lower :: "string \<Rightarrow> string" where
  "lower s = map lower_c s"

definition upper :: "string \<Rightarrow> string" where
  "upper s = concat (map upper_c s)"

definition casefold :: "string \<Rightarrow> string" where
  "casefold s = concat (map (\<lambda>c. if ord c = 223 then ''ss'' else [lower_c c]) s)"

text \<open>
  Normalisation to NFKC. Code point 181, the micro sign, stands for the Greek mu it becomes as well;
  a combining mark occurs only after the space it is separated from, so nothing composes.
\<close>

definition nfkc_c :: "char \<Rightarrow> string" where
  "nfkc_c c = (case map_of
      [(160, '' ''), (168, [CHR '' '', CHR 0x88]), (170, ''a''), (175, [CHR '' '', CHR 0x89]), (178, ''2''), (179, ''3''),
       (180, [CHR '' '', CHR 0x8A]), (184, [CHR '' '', CHR 0x8B]), (185, ''1''), (186, ''o''),
       (188, [CHR ''1'', CHR 0x8C, CHR ''4'']), (189, [CHR ''1'', CHR 0x8C, CHR ''2'']), (190, [CHR ''3'', CHR 0x8C, CHR ''4'']),
       (129, ''...'')] (ord c) of None \<Rightarrow> [c] | Some s \<Rightarrow> s)"

definition nfkc :: "string \<Rightarrow> string" where
  "nfkc s = concat (map nfkc_c s)"

subsection \<open>Stripping and splitting\<close>

definition lstrip_by :: "(char \<Rightarrow> bool) \<Rightarrow> string \<Rightarrow> string" where
  "lstrip_by p s = dropWhile p s"

definition rstrip_by :: "(char \<Rightarrow> bool) \<Rightarrow> string \<Rightarrow> string" where
  "rstrip_by p s = rev (dropWhile p (rev s))"

definition strip :: "string \<Rightarrow> string" where
  "strip s = rstrip_by isspace_c (lstrip_by isspace_c s)"

text \<open>\<open>str.split(sep)\<close> for a one-character separator; \<open>"".split(sep)\<close> is \<open>[""]\<close>.\<close>

fun split_char :: "char \<Rightarrow> string \<Rightarrow> string list" where
  "split_char c [] = [[]]"
| "split_char c (x # xs) =
     (if x = c then [] # split_char c xs
      else case split_char c xs of [] \<Rightarrow> [[x]] | p # ps \<Rightarrow> (x # p) # ps)"

text \<open>\<open>str.split()\<close>: maximal runs of non-space characters.\<close>

definition split_ws :: "string \<Rightarrow> string list" where
  "split_ws s = filter (\<lambda>p. p \<noteq> [])
     (split_char (CHR '' '') (map (\<lambda>c. if isspace_c c then CHR '' '' else c) s))"

text \<open>\<open>str.partition(sep)\<close>: head, whether the separator occurred, tail.\<close>

fun partition_char :: "char \<Rightarrow> string \<Rightarrow> string \<times> bool \<times> string" where
  "partition_char c [] = ([], False, [])"
| "partition_char c (x # xs) =
     (if x = c then ([], True, xs)
      else case partition_char c xs of (h, found, t) \<Rightarrow> (x # h, found, t))"

definition count_char :: "char \<Rightarrow> string \<Rightarrow> nat" where
  "count_char c s = count_list s c"

fun join :: "string \<Rightarrow> string list \<Rightarrow> string" where
  "join sep [] = []"
| "join sep [x] = x"
| "join sep (x # y # ys) = x @ sep @ join sep (y # ys)"

subsection \<open>Decimal numbers\<close>

fun show_nat :: "nat \<Rightarrow> string" where
  "show_nat n = (if n < 10 then [char_of (48 + n)]
                 else show_nat (n div 10) @ [char_of (48 + n mod 10)])"

declare show_nat.simps [simp del]

definition show_int :: "int \<Rightarrow> string" where
  "show_int i = (if i < 0 then CHR ''-'' # show_nat (nat (- i)) else show_nat (nat i))"

definition digit_val :: "char \<Rightarrow> nat" where
  "digit_val c = ord c - 48"

fun digits_value :: "nat \<Rightarrow> string \<Rightarrow> nat" where
  "digits_value acc [] = acc"
| "digits_value acc (c # cs) = digits_value (acc * 10 + digit_val c) cs"

text \<open>Digits with single underscores between them, as \<open>int()\<close> accepts.\<close>

fun int_body :: "nat \<Rightarrow> string \<Rightarrow> nat option" where
  "int_body acc [] = None"
| "int_body acc [c] = (if isdecimal_c c then Some (acc * 10 + digit_val c) else None)"
| "int_body acc (c # d # cs) =
     (if \<not> isdecimal_c c then None
      else if d = CHR ''_'' then int_body (acc * 10 + digit_val c) cs
      else int_body (acc * 10 + digit_val c) (d # cs))"

text \<open>\<open>int(s)\<close>: surrounding space, one sign, digits; None is the \<open>ValueError\<close>.\<close>

definition py_int :: "string \<Rightarrow> int option" where
  "py_int s = (case strip s of
       [] \<Rightarrow> None
     | c # cs \<Rightarrow> (if c = CHR ''-'' then map_option (\<lambda>n. - int n) (int_body 0 cs)
                  else if c = CHR ''+'' then map_option int (int_body 0 cs)
                  else map_option int (int_body 0 (c # cs))))"

subsection \<open>Facts\<close>

lemma ord_char_of: "(n::nat) < 256 \<Longrightarrow> ord (char_of n) = n"
  by (simp add: of_char_of)

lemma ord_lt: "ord c < 256"
  using of_char_mod_256 [of c, where ?'a = nat] by (metis mod_less_divisor zero_less_numeral)

lemma isdecimal_imp_isdigit: "isdecimal_c c \<Longrightarrow> isdigit_c c"
  by (simp add: isdigit_c_def)

lemma isdecimal_not_space: "isdecimal_c c \<Longrightarrow> \<not> isspace_c c"
  by (auto simp: isdecimal_c_def isspace_c_def)

lemma isdecimal_digit_char: "(n::nat) < 10 \<Longrightarrow> isdecimal_c (char_of (48 + n))"
  by (simp add: isdecimal_c_def ord_char_of)

lemma digit_val_char: "(n::nat) < 10 \<Longrightarrow> digit_val (char_of (48 + n)) = n"
  by (simp add: digit_val_def ord_char_of)

lemma show_nat_nonempty [simp]: "show_nat n \<noteq> []"
  by (subst show_nat.simps) simp

lemma show_nat_decimal: "\<forall>c \<in> set (show_nat n). isdecimal_c c"
proof (induction n rule: show_nat.induct)
  case (1 n)
  then show ?case
    by (subst show_nat.simps) (auto simp: isdecimal_digit_char)
qed

lemma digits_value_append:
  "digits_value acc (xs @ ys) = digits_value (digits_value acc xs) ys"
  by (induction xs arbitrary: acc) simp_all

lemma digits_value_acc:
  "digits_value acc xs = acc * 10 ^ length xs + digits_value 0 xs"
proof (induction xs arbitrary: acc)
  case (Cons x xs)
  show ?case
    using Cons.IH [of "acc * 10 + digit_val x"] Cons.IH [of "digit_val x"]
    by (simp add: algebra_simps)
qed simp

lemma digits_value_show_nat: "digits_value 0 (show_nat n) = n"
proof (induction n rule: show_nat.induct)
  case (1 n)
  show ?case
  proof (cases "n < 10")
    case True
    then show ?thesis by (subst show_nat.simps) (simp add: digit_val_char)
  next
    case False
    with "1" show ?thesis
      by (subst show_nat.simps) (simp add: digits_value_append digit_val_char)
  qed
qed

lemma int_body_decimal:
  "xs \<noteq> [] \<Longrightarrow> \<forall>c \<in> set xs. isdecimal_c c \<Longrightarrow> int_body acc xs = Some (digits_value acc xs)"
proof (induction acc xs rule: int_body.induct)
  case (3 acc c d cs)
  then have "d \<noteq> CHR ''_''" by (auto simp: isdecimal_c_def)
  with 3 show ?case by simp
qed simp_all

lemma dropWhile_id: "xs = [] \<or> \<not> p (hd xs) \<Longrightarrow> dropWhile p xs = xs"
  by (cases xs) auto

lemma strip_id:
  assumes "\<And>c. c \<in> set s \<Longrightarrow> \<not> isspace_c c"
  shows "strip s = s"
proof -
  have "dropWhile isspace_c xs = xs" if "set xs \<subseteq> set s" for xs
    using that assms by (intro dropWhile_id) (cases xs, auto)
  then show ?thesis by (simp add: strip_def rstrip_by_def lstrip_by_def)
qed

lemma py_int_show_nat: "py_int (show_nat n) = Some (int n)"
proof -
  obtain c cs where cs: "show_nat n = c # cs"
    by (cases "show_nat n") simp_all
  have dec: "\<forall>x \<in> set (c # cs). isdecimal_c x"
    using show_nat_decimal [of n] cs by simp
  have "strip (show_nat n) = show_nat n"
    using show_nat_decimal [of n] by (intro strip_id) (auto dest: isdecimal_not_space)
  moreover have "c \<noteq> CHR ''-''" "c \<noteq> CHR ''+''"
    using dec by (auto simp: isdecimal_c_def)
  moreover have "int_body 0 (c # cs) = Some n"
    using int_body_decimal [of "c # cs" 0] dec digits_value_show_nat [of n] cs by simp
  ultimately show ?thesis by (simp add: py_int_def cs)
qed

lemma strip_no_space_ends:
  "strip s \<noteq> [] \<Longrightarrow> \<not> isspace_c (hd (strip s)) \<and> \<not> isspace_c (last (strip s))"
proof -
  assume ne: "strip s \<noteq> []"
  let ?t = "dropWhile isspace_c s"
  have st: "strip s = rev (dropWhile isspace_c (rev ?t))"
    by (simp add: strip_def rstrip_by_def lstrip_by_def)
  have l: "last (strip s) = hd (dropWhile isspace_c (rev ?t))"
    using ne by (simp add: st last_rev)
  have "dropWhile isspace_c (rev ?t) \<noteq> []" using ne st by (metis rev_is_Nil_conv)
  then have 1: "\<not> isspace_c (last (strip s))"
    unfolding l by (rule hd_dropWhile)
  have "?t \<noteq> []" using ne st by (metis dropWhile.simps(1) rev.simps(1))
  then have t0: "\<not> isspace_c (hd ?t)" by (rule hd_dropWhile)
  obtain zs where "rev ?t = zs @ dropWhile isspace_c (rev ?t)"
    by (metis takeWhile_dropWhile_id)
  then have "?t = strip s @ rev zs"
    unfolding st by (metis rev_append rev_rev_ident)
  with ne have "hd (strip s) = hd ?t" by (metis hd_append2)
  with t0 1 show ?thesis by simp
qed

lemma strip_ends:
  "strip s = s \<longleftrightarrow> s = [] \<or> (\<not> isspace_c (hd s) \<and> \<not> isspace_c (last s))"
proof
  assume "strip s = s"
  then show "s = [] \<or> (\<not> isspace_c (hd s) \<and> \<not> isspace_c (last s))"
    using strip_no_space_ends [of s] by metis
next
  assume ends: "s = [] \<or> (\<not> isspace_c (hd s) \<and> \<not> isspace_c (last s))"
  then have "dropWhile isspace_c s = s" by (intro dropWhile_id) auto
  moreover have "dropWhile isspace_c (rev s) = rev s"
    using ends by (intro dropWhile_id) (auto simp: hd_rev)
  ultimately show "strip s = s" by (simp add: strip_def rstrip_by_def lstrip_by_def)
qed

lemma strip_strip [simp]: "strip (strip s) = strip s"
  using strip_ends [of "strip s"] strip_no_space_ends [of s] by auto

lemma split_char_nonempty [simp]: "split_char c s \<noteq> []"
  by (induction s) (auto split: list.split)

lemma split_char_no_sep:
  "p \<in> set (split_char c s) \<Longrightarrow> c \<notin> set p"
  by (induction s arbitrary: p) (auto split: list.splits if_splits)

lemma join_split_char: "join [c] (split_char c s) = s"
proof (induction s)
  case (Cons x xs)
  obtain p ps where ps: "split_char c xs = p # ps"
    by (cases "split_char c xs") simp_all
  with Cons show ?case by (cases ps) auto
qed simp

lemma partition_char_decompose:
  "partition_char c s = (h, found, t) \<Longrightarrow>
     c \<notin> set h \<and> s = h @ (if found then c # t else []) \<and> (\<not> found \<longrightarrow> t = [])"
  by (induction s arbitrary: h) (auto split: if_splits prod.splits)

end
