(* ===== verification/Json.thy ===== *)
theory Json
  imports PyStr Complex_Main
begin

text \<open>
  JSON documents and dynamic Python values, and \<open>app/json_utils.py\<close>: strict decoding that
  refuses duplicate keys and the non-standard numbers. The syntax analysis of \<open>json.loads\<close>
  is the parameter \<open>parse\<close>: it returns the document as written (duplicate keys in place,
  \<open>NaN\<close> and \<open>Infinity\<close> as floats), None for text that is no JSON; the hooks the
  sources install are definitions.
\<close>

subsection \<open>Values\<close>

datatype pyfloat = Finite rat | PosInf | NegInf | NaN

datatype json =
    JNull
  | JBool bool
  | JInt int
  | JFloat pyfloat
  | JStr string
  | JArr "json list"
  | JObj "(string \<times> json) list"

type_synonym pydict = "(json \<times> json) list"

fun is_obj :: "json \<Rightarrow> bool" where
  "is_obj (JObj _) = True"
| "is_obj _ = False"

fun is_arr :: "json \<Rightarrow> bool" where
  "is_arr (JArr _) = True"
| "is_arr _ = False"

fun is_str :: "json \<Rightarrow> bool" where
  "is_str (JStr _) = True"
| "is_str _ = False"

text \<open>\<open>d.get(k)\<close> on a dict with string keys, \<open>None\<close> when the key is missing.\<close>

definition obj_get :: "(string \<times> json) list \<Rightarrow> string \<Rightarrow> json" where
  "obj_get kvs k = (case map_of kvs k of None \<Rightarrow> JNull | Some v \<Rightarrow> v)"

text \<open>\<open>v if isinstance(v, dict) else {}\<close> and its list counterpart.\<close>

fun as_obj :: "json \<Rightarrow> (string \<times> json) list" where
  "as_obj (JObj kvs) = kvs"
| "as_obj _ = []"

fun as_arr :: "json \<Rightarrow> json list" where
  "as_arr (JArr xs) = xs"
| "as_arr _ = []"

fun truthy :: "json \<Rightarrow> bool" where
  "truthy JNull = False"
| "truthy (JBool b) = b"
| "truthy (JInt i) = (i \<noteq> 0)"
| "truthy (JFloat f) = (f \<noteq> Finite 0)"
| "truthy (JStr s) = (s \<noteq> [])"
| "truthy (JArr xs) = (xs \<noteq> [])"
| "truthy (JObj kvs) = (kvs \<noteq> [])"

definition py_or :: "json \<Rightarrow> json \<Rightarrow> json" where
  "py_or a b = (if truthy a then a else b)"

text \<open>
  \<open>str(v)\<close>. The rendering of floats and containers is Python's \<open>repr\<close>, the parameter
  \<open>rp\<close>.
\<close>

fun py_str :: "(json \<Rightarrow> string) \<Rightarrow> json \<Rightarrow> string" where
  "py_str rp JNull = ''None''"
| "py_str rp (JBool b) = (if b then ''True'' else ''False'')"
| "py_str rp (JInt i) = show_int i"
| "py_str rp (JStr s) = s"
| "py_str rp v = rp v"

text \<open>No float of the value is infinite or NaN.\<close>

fun finite_json :: "json \<Rightarrow> bool" where
  "finite_json (JFloat f) = (case f of Finite _ \<Rightarrow> True | _ \<Rightarrow> False)"
| "finite_json (JArr xs) = (\<forall>x \<in> set xs. finite_json x)"
| "finite_json (JObj kvs) = (\<forall>kv \<in> set kvs. finite_json (snd kv))"
| "finite_json _ = True"

text \<open>No object of the value repeats a key.\<close>

fun unique_keys :: "json \<Rightarrow> bool" where
  "unique_keys (JArr xs) = (\<forall>x \<in> set xs. unique_keys x)"
| "unique_keys (JObj kvs) = (distinct (map fst kvs) \<and> (\<forall>kv \<in> set kvs. unique_keys (snd kv)))"
| "unique_keys _ = True"

subsection \<open>Strict loading\<close>

fun reject_duplicate_pairs ::
  "(string \<times> json) list \<Rightarrow> (string \<times> json) list \<Rightarrow> (string \<times> json) list res" where
  "reject_duplicate_pairs result [] = Inr result"
| "reject_duplicate_pairs result ((k, v) # kvs) =
     (if k \<in> set (map fst result) then Inl (ValueError ''JSON object contains duplicate key'')
      else reject_duplicate_pairs (result @ [(k, v)]) kvs)"

definition reject_non_standard_constant :: "pyfloat \<Rightarrow> json res" where
  "reject_non_standard_constant f =
     (case f of Finite q \<Rightarrow> Inr (JFloat f)
      | PosInf \<Rightarrow> Inl (ValueError ''JSON contains non-standard numeric constant: Infinity'')
      | NegInf \<Rightarrow> Inl (ValueError ''JSON contains non-standard numeric constant: -Infinity'')
      | NaN \<Rightarrow> Inl (ValueError ''JSON contains non-standard numeric constant: NaN''))"

text \<open>The hooks run bottom-up, in document order.\<close>

fun strict_value :: "json \<Rightarrow> json res"
and strict_list :: "json list \<Rightarrow> json list res"
and strict_pairs :: "(string \<times> json) list \<Rightarrow> (string \<times> json) list res" where
  "strict_value (JFloat f) = reject_non_standard_constant f"
| "strict_value (JArr xs) = res_bind (strict_list xs) (\<lambda>ys. Inr (JArr ys))"
| "strict_value (JObj kvs) =
     res_bind (strict_pairs kvs) (\<lambda>ps. res_bind (reject_duplicate_pairs [] ps) (\<lambda>d. Inr (JObj d)))"
| "strict_value v = Inr v"
| "strict_list [] = Inr []"
| "strict_list (x # xs) =
     res_bind (strict_value x) (\<lambda>y. res_bind (strict_list xs) (\<lambda>ys. Inr (y # ys)))"
| "strict_pairs [] = Inr []"
| "strict_pairs ((k, v) # kvs) =
     res_bind (strict_value v) (\<lambda>w. res_bind (strict_pairs kvs) (\<lambda>ps. Inr ((k, w) # ps)))"

definition loads_strict_json :: "(string \<Rightarrow> json option) \<Rightarrow> string \<Rightarrow> json res" where
  "loads_strict_json parse s =
     (case parse s of None \<Rightarrow> Inl (ValueError ''invalid JSON'') | Some doc \<Rightarrow> strict_value doc)"

definition decode_json_value :: "(string \<Rightarrow> json option) \<Rightarrow> json \<Rightarrow> json res" where
  "decode_json_value parse v = (case v of JStr s \<Rightarrow> loads_strict_json parse s | _ \<Rightarrow> Inr v)"

subsection \<open>Decoding objects and lists\<close>

text \<open>Python's \<open>dict(v)\<close>: keys compare with the numeric equality of \<open>int\<close>, \<open>bool\<close>.\<close>

fun norm_key :: "json \<Rightarrow> json" where
  "norm_key (JBool b) = JInt (if b then 1 else 0)"
| "norm_key k = k"

fun hashable :: "json \<Rightarrow> bool" where
  "hashable (JArr _) = False"
| "hashable (JObj _) = False"
| "hashable _ = True"

fun dict_put :: "json \<Rightarrow> json \<Rightarrow> pydict \<Rightarrow> pydict" where
  "dict_put k v [] = [(k, v)]"
| "dict_put k v ((k', v') # d) =
     (if norm_key k = norm_key k' then (k', v) # d else (k', v') # dict_put k v d)"

text \<open>The elements of an iterable value; None when it is not iterable (\<open>TypeError\<close>).\<close>

fun py_iter :: "json \<Rightarrow> json list option" where
  "py_iter (JArr xs) = Some xs"
| "py_iter (JObj kvs) = Some (map (\<lambda>kv. JStr (fst kv)) kvs)"
| "py_iter (JStr s) = Some (map (\<lambda>c. JStr [c]) s)"
| "py_iter _ = None"

fun dict_of_items :: "pydict \<Rightarrow> json list \<Rightarrow> pydict option" where
  "dict_of_items d [] = Some d"
| "dict_of_items d (x # xs) =
     (case py_iter x of
        Some [k, v] \<Rightarrow> (if hashable k then dict_of_items (dict_put k v d) xs else None)
      | _ \<Rightarrow> None)"

definition py_dict :: "json \<Rightarrow> pydict option" where
  "py_dict v = (case v of
       JObj kvs \<Rightarrow> Some (map (\<lambda>(k, w). (JStr k, w)) kvs)
     | _ \<Rightarrow> (case py_iter v of None \<Rightarrow> None | Some xs \<Rightarrow> dict_of_items [] xs))"

definition decode_json_object ::
  "(string \<Rightarrow> json option) \<Rightarrow> string \<Rightarrow> json \<Rightarrow> pydict res" where
  "decode_json_object parse label v =
     (if v = JNull then Inr []
      else res_bind (decode_json_value parse v) (\<lambda>decoded.
        case py_dict decoded of
          Some d \<Rightarrow> Inr d
        | None \<Rightarrow> Inl (ValueError (label @ '' must be a JSON object''))))"

definition decode_json_list ::
  "(string \<Rightarrow> json option) \<Rightarrow> string \<Rightarrow> json \<Rightarrow> json list res" where
  "decode_json_list parse label v =
     (if v = JNull then Inr []
      else res_bind (decode_json_value parse v) (\<lambda>decoded.
        case decoded of
          JArr xs \<Rightarrow> Inr xs
        | _ \<Rightarrow> Inl (ValueError (label @ '' must be a JSON array''))))"

definition dict_get :: "pydict \<Rightarrow> string \<Rightarrow> json option" where
  "dict_get d k = map_of d (JStr k)"

subsection \<open>Facts\<close>

lemma reject_duplicate_pairs_ok:
  "reject_duplicate_pairs acc kvs = Inr d \<Longrightarrow> distinct (map fst acc) \<Longrightarrow>
     d = acc @ kvs \<and> distinct (map fst d)"
proof (induction acc kvs rule: reject_duplicate_pairs.induct)
  case (2 acc k v kvs)
  from "2.prems"(1) have k: "k \<notin> set (map fst acc)"
    and r: "reject_duplicate_pairs (acc @ [(k, v)]) kvs = Inr d"
    by (simp_all split: if_splits)
  from k "2.prems"(2) have "distinct (map fst (acc @ [(k, v)]))" by simp
  from "2.IH" [OF k r this] show ?case by (metis append_Cons append_Nil append_assoc)
qed simp

lemma reject_duplicate_pairs_complete:
  "distinct (map fst (acc @ kvs)) \<Longrightarrow> reject_duplicate_pairs acc kvs = Inr (acc @ kvs)"
  by (induction acc kvs rule: reject_duplicate_pairs.induct) auto

lemma strict_sound:
  "strict_value v = Inr w \<Longrightarrow> w = v \<and> unique_keys w \<and> finite_json w"
  "strict_list xs = Inr ys \<Longrightarrow> ys = xs \<and> (\<forall>y \<in> set ys. unique_keys y \<and> finite_json y)"
  "strict_pairs kvs = Inr ps \<Longrightarrow>
     ps = kvs \<and> (\<forall>p \<in> set ps. unique_keys (snd p) \<and> finite_json (snd p))"
proof (induction v and xs and kvs arbitrary: w and ys and ps
    rule: strict_value_strict_list_strict_pairs.induct)
  case (1 f)
  then show ?case
    by (auto simp: reject_non_standard_constant_def split: pyfloat.splits)
next
  case (3 kvs)
  from "3.prems" obtain ps d where d: "strict_pairs kvs = Inr ps"
      "reject_duplicate_pairs [] ps = Inr d" "w = JObj d"
    by auto
  with "3.IH" reject_duplicate_pairs_ok [OF d(2)] show ?case by auto
next
  case (8 k v kvs)
  from "8.prems" obtain w qs where "strict_value v = Inr w" "strict_pairs kvs = Inr qs"
      "ps = (k, w) # qs"
    by auto
  with "8.IH" show ?case by auto
qed auto

lemma strict_complete:
  "unique_keys v \<Longrightarrow> finite_json v \<Longrightarrow> strict_value v = Inr v"
  "(\<forall>x \<in> set xs. unique_keys x \<and> finite_json x) \<Longrightarrow> strict_list xs = Inr xs"
  "(\<forall>p \<in> set kvs. unique_keys (snd p) \<and> finite_json (snd p)) \<Longrightarrow> strict_pairs kvs = Inr kvs"
proof (induction v and xs and kvs rule: strict_value_strict_list_strict_pairs.induct)
  case (1 f)
  then show ?case
    by (auto simp: reject_non_standard_constant_def split: pyfloat.splits)
next
  case (3 kvs)
  then show ?case
    using reject_duplicate_pairs_complete [of "[]" kvs] by simp
qed auto

end
