(* ===== verification/Schema.thy ===== *)
theory Schema
  imports Json
begin

text \<open>
  The PostgreSQL tables the modelled code reads and writes (\<open>sql/*.sql\<close>): one record per row
  type, one list per table. The order of a list stands for the physical order of the rows; it
  decides the ties an \<open>ORDER BY\<close> leaves open, so a theorem for every list covers every tie.
  A UUID is a number below \<open>2^128\<close>, a timestamp a number of microseconds. \<open>gen_random_uuid()\<close>
  and \<open>NOW()\<close> are arguments of the operations.
\<close>

type_synonym uuid = nat
type_synonym timestamp = int

abbreviation seconds :: "int \<Rightarrow> int" where
  "seconds n \<equiv> n * 1000000"

subsection \<open>jobs\<close>

datatype job_status = Pending | Processing | Completed | Dead

record job =
  j_id :: uuid
  j_task :: string
  j_payload :: json
  j_status :: job_status
  j_priority :: int
  j_run_at :: timestamp
  j_attempts :: int
  j_max_attempts :: int
  j_worker :: "uuid option"
  j_heartbeat :: "timestamp option"
  j_result :: "json option"
  j_error_log :: "string option"
  j_key :: "string option"
  j_created :: timestamp
  j_updated :: timestamp

subsection \<open>public_summary_requests\<close>

datatype public_status = Queued | Fetching | Indexing | Generating | Validating
  | SummaryCompleted | Failed | SourceUnavailable | SecrecyBlocked | ValidationFailed

record summary_request =
  r_id :: uuid
  r_tenant :: uuid
  r_code :: string
  r_key :: string
  r_fingerprint :: string
  r_format :: string
  r_status :: public_status
  r_tjr :: "uuid option"
  r_process :: "uuid option"
  r_version :: "uuid option"
  r_summary :: "uuid option"
  r_source_updated :: "timestamp option"
  r_flags :: "(string \<times> json) list"
  r_error :: "string option"
  r_completed_at :: "timestamp option"
  r_updated :: timestamp

subsection \<open>tenant_judit_requests\<close>

datatype acquisition_status = AProcessing | ACompleted | AFailedRetryable | AFailedAmbiguous

record acquisition =
  a_id :: uuid
  a_tenant :: uuid
  a_code :: string
  a_request :: "string option"
  a_status :: acquisition_status
  a_attempt :: int
  a_completed_at :: "timestamp option"

subsection \<open>judit_trackings and judit_tracking_refreshes\<close>

datatype tracking_status = Creating | Active | Deleting | Deleted | TrackingFailed

record tracking =
  t_id :: uuid
  t_tenant :: uuid
  t_code :: string
  t_provider :: "string option"
  t_status :: tracking_status
  t_recurrence :: int
  t_attempt :: int
  t_last_event :: "timestamp option"
  t_last_reconciled :: "timestamp option"
  t_created :: timestamp
  t_updated :: timestamp

datatype refresh_status = RPending | RProcessing | RCompleted | RFailedRetryable | RFailedAmbiguous

record refresh =
  f_id :: uuid
  f_tracking :: uuid
  f_request :: "string option"
  f_status :: refresh_status
  f_reason :: string
  f_completed_at :: "timestamp option"

subsection \<open>processes, process_versions, process_steps\<close>

record process_row =
  p_id :: uuid
  p_code :: string
  p_current :: "uuid option"
  p_court :: json
  p_class :: json
  p_subjects :: json
  p_parties :: json
  p_representatives :: json
  p_secrecy :: int
  p_header :: json
  p_updated :: timestamp

record version_row =
  v_id :: uuid
  v_process :: uuid
  v_source_request :: "string option"
  v_cached :: bool
  v_payload :: json
  v_request :: "string option"
  v_response :: "string option"
  v_callback :: "string option"
  v_finalized :: bool
  v_finalized_at :: "timestamp option"
  v_fingerprint :: "string option"
  v_schema_version :: "int option"
  v_equivalent :: "uuid option"
  v_created :: timestamp

record step_row =
  s_id :: uuid
  s_version :: uuid
  s_process :: uuid
  s_number :: int
  s_occurred :: "timestamp option"
  s_title :: json
  s_text :: string
  s_metadata :: json

subsection \<open>process_attachments, attachment_chunks\<close>

datatype attachment_status = APending | AReady | AUnavailable | ACorrupt | AUnreadable

record attachment_row =
  at_id :: uuid
  at_process :: uuid
  at_version :: uuid
  at_source :: string
  at_status :: attachment_status
  at_content_type :: "string option"
  at_byte_size :: "int option"
  at_sha256 :: "string option"
  at_error :: "string option"
  at_name :: "string option"
  at_date :: "timestamp option"
  at_provider_status :: "string option"
  at_updated :: timestamp

record chunk_row =
  ch_id :: uuid
  ch_attachment :: uuid
  ch_process :: uuid
  ch_version :: uuid
  ch_index :: nat
  ch_text :: "nat list"
  ch_page_start :: "int option"
  ch_page_end :: "int option"
  ch_char_start :: "int option"
  ch_char_end :: "int option"
  ch_sha256 :: string

subsection \<open>process_summaries and the evidence of their claims\<close>

record summary_row =
  sm_id :: uuid
  sm_process :: uuid
  sm_version :: uuid
  sm_structured :: json
  sm_model :: string
  sm_prompt :: string
  sm_passed :: bool
  sm_errors :: "string list"
  sm_markdown :: string
  sm_generation_ms :: int
  sm_usage :: json
  sm_cache_hit :: "bool option"
  sm_cost :: "rat option"
  sm_flags :: "string list"
  sm_created :: timestamp

record material_claim_row =
  cl_id :: uuid
  cl_summary :: uuid
  cl_process :: uuid
  cl_version :: uuid
  cl_claim :: string
  cl_class :: string
  cl_text :: string
  cl_status :: string
  cl_reason :: "string option"

record claim_source_row =
  cs_row :: uuid
  cs_summary :: uuid
  cs_process :: uuid
  cs_version :: uuid
  cs_ref :: string
  cs_kind :: string
  cs_step :: "uuid option"
  cs_chunk :: "uuid option"
  cs_order :: nat
  cs_status :: string
  cs_reason :: "string option"
  cs_sha256 :: "string option"
  cs_page_start :: "int option"
  cs_page_end :: "int option"
  cs_char_start :: "int option"
  cs_char_end :: "int option"

text \<open>
  Rows of \<open>process_summary_sources\<close>, \<open>process_summary_attachment_sources\<close> and
  \<open>process_summary_glossary_sources\<close>: what a summary was written from.
\<close>

record used_row =
  u_summary :: uuid
  u_process :: uuid
  u_version :: uuid
  u_source :: uuid
  u_order :: int
  u_flags :: "string list"

record used_step = used_row +
  us_number :: int
  us_occurred :: "timestamp option"
  us_sha256 :: "string option"

record used_chunk = used_row +
  uc_attachment :: uuid
  uc_source :: string
  uc_page_start :: "int option"
  uc_page_end :: "int option"
  uc_char_start :: "int option"
  uc_char_end :: "int option"
  uc_sha256 :: string

record glossary_row =
  gl_summary :: uuid
  gl_process :: uuid
  gl_version :: uuid
  gl_kind :: string
  gl_code :: string
  gl_tpu_version :: string
  gl_publisher :: string
  gl_source :: string
  gl_ref :: string
  gl_sha256 :: string
  gl_order :: int

subsection \<open>access\_log\<close>

record access_row =
  al_tenant :: uuid
  al_process :: "uuid option"
  al_code :: string
  al_action :: string
  al_metadata :: json
  al_key :: "uuid option"
  al_fingerprint :: "string option"

subsection \<open>api\_keys, api\_key\_rate\_limits\<close>

record api_key =
  k_id :: uuid
  k_tenant :: uuid
  k_hash :: string
  k_fingerprint :: string
  k_environment :: string
  k_portfolio :: bool
  k_limit :: int
  k_expires :: "timestamp option"
  k_revoked :: "timestamp option"
  k_last_used :: "timestamp option"

record rate_window =
  w_key :: uuid
  w_started :: timestamp
  w_count :: int

subsection \<open>judit_deliveries, judit_request_completions\<close>

record delivery =
  dl_callback :: string
  dl_request :: "string option"
  dl_type :: string
  dl_payload :: json
  dl_received :: timestamp

record completion =
  cp_request :: string
  cp_completed :: timestamp

subsection \<open>process_datajud_field_provenance\<close>

record provenance_row =
  pr_process :: uuid
  pr_version :: uuid
  pr_field :: string
  pr_source :: string
  pr_value :: json
  pr_conflict :: bool
  pr_ref :: "string option"

subsection \<open>The database\<close>

record db =
  jobs :: "job list"
  requests :: "summary_request list"
  acquisitions :: "acquisition list"
  trackings :: "tracking list"
  refreshes :: "refresh list"
  processes :: "process_row list"
  versions :: "version_row list"
  steps :: "step_row list"
  attachments :: "attachment_row list"
  chunks :: "chunk_row list"
  tenant_processes :: "(uuid \<times> uuid) list"
  summaries :: "summary_row list"
  claim_rows :: "material_claim_row list"
  claim_sources :: "claim_source_row list"
  claim_excerpts :: "(uuid \<times> string \<times> string) list"
  used_steps :: "used_step list"
  used_chunks :: "used_chunk list"
  used_glossary :: "glossary_row list"
  access_log :: "access_row list"
  api_keys :: "api_key list"
  cnj_scopes :: "(uuid \<times> string) list"
  rate_windows :: "rate_window list"
  deliveries :: "delivery list"
  completions :: "completion list"
  provenance_rows :: "provenance_row list"

definition empty_db :: db where
  "empty_db = \<lparr>jobs = [], requests = [], acquisitions = [], trackings = [], refreshes = [],
     processes = [], versions = [], steps = [], attachments = [], chunks = [],
     tenant_processes = [], summaries = [], claim_rows = [], claim_sources = [],
     claim_excerpts = [], used_steps = [], used_chunks = [], used_glossary = [], access_log = [],
     api_keys = [], cnj_scopes = [], rate_windows = [], deliveries = [], completions = [],
     provenance_rows = []\<rparr>"

subsection \<open>UPDATE ... WHERE and lookups\<close>

definition update_where :: "('r \<Rightarrow> bool) \<Rightarrow> ('r \<Rightarrow> 'r) \<Rightarrow> 'r list \<Rightarrow> 'r list" where
  "update_where p f t = map (\<lambda>r. if p r then f r else r) t"

definition row_by :: "('r \<Rightarrow> 'k) \<Rightarrow> 'k \<Rightarrow> 'r list \<Rightarrow> 'r option" where
  "row_by key k t = find (\<lambda>r. key r = k) t"

text \<open>SQL \<open>COALESCE(a, b)\<close> on nullable values.\<close>

definition coalesce :: "'a option \<Rightarrow> 'a option \<Rightarrow> 'a option" where
  "coalesce a b = (case a of None \<Rightarrow> b | Some x \<Rightarrow> Some x)"

text \<open>SQL \<open>RIGHT(s, n)\<close> for positive \<open>n\<close>.\<close>

definition sql_right :: "nat \<Rightarrow> string \<Rightarrow> string" where
  "sql_right n s = drop (length s - n) s"

text \<open>\<open>jsonb || jsonb\<close> on two objects: the right one wins.\<close>

definition jsonb_merge ::
  "(string \<times> json) list \<Rightarrow> (string \<times> json) list \<Rightarrow> (string \<times> json) list" where
  "jsonb_merge a b = filter (\<lambda>kv. fst kv \<notin> set (map fst b)) a @ b"

lemma length_sql_right: "length (sql_right n s) \<le> n"
  by (simp add: sql_right_def)

lemma sql_right_short: "length s \<le> n \<Longrightarrow> sql_right n s = s"
  by (simp add: sql_right_def)

lemma update_where_Nil [simp]: "update_where p f [] = []"
  by (simp add: update_where_def)

lemma update_where_Cons [simp]:
  "update_where p f (r # t) = (if p r then f r else r) # update_where p f t"
  by (simp add: update_where_def)

lemma length_update_where [simp]: "length (update_where p f t) = length t"
  by (simp add: update_where_def)

lemma set_update_where:
  "set (update_where p f t) = f ` {r \<in> set t. p r} \<union> {r \<in> set t. \<not> p r}"
  by (auto simp: update_where_def image_iff)

lemma in_update_whereE:
  assumes "r \<in> set (update_where p f t)"
  obtains r0 where "r0 \<in> set t" "p r0" "r = f r0" | "r \<in> set t" "\<not> p r"
  using assms by (auto simp: set_update_where)

lemma update_where_none: "(\<And>r. r \<in> set t \<Longrightarrow> \<not> p r) \<Longrightarrow> update_where p f t = t"
  by (induction t) simp_all

lemma row_by_Some: "row_by key k t = Some r \<Longrightarrow> r \<in> set t \<and> key r = k"
  by (auto simp: row_by_def find_Some_iff)

lemma row_by_None: "row_by key k t = None \<longleftrightarrow> k \<notin> key ` set t"
  by (auto simp: row_by_def find_None_iff)

lemma row_by_in:
  "distinct (map key t) \<Longrightarrow> r \<in> set t \<Longrightarrow> row_by key (key r) t = Some r"
  by (induction t) (auto simp: row_by_def)

lemma row_by_append:
  "row_by key k (t @ u) = (case row_by key k t of None \<Rightarrow> row_by key k u | Some r \<Rightarrow> Some r)"
  by (induction t) (simp_all add: row_by_def)

text \<open>
  The interface of a keyed table under an update that leaves the key alone: the keys and their
  distinctness survive, and a lookup sees exactly the updated row.
\<close>

locale keyed_update =
  fixes key :: "'r \<Rightarrow> 'k"
    and upd :: "'r \<Rightarrow> 'r"
  assumes key_upd: "key (upd r) = key r"
begin

lemma keys_update: "map key (update_where p upd t) = map key t"
  by (induction t) (simp_all add: key_upd)

lemma distinct_update: "distinct (map key (update_where p upd t)) = distinct (map key t)"
  by (simp add: keys_update)

lemma key_image: "key ` set (update_where p upd t) = key ` set t"
  by (simp only: keys_update flip: set_map)

lemma row_by_update:
  "row_by key k (update_where p upd t) =
     map_option (\<lambda>r. if p r then upd r else r) (row_by key k t)"
  by (induction t) (simp_all add: row_by_def key_upd)

end

end
