(* ===== verification/SummaryOutput.thy ===== *)
theory SummaryOutput
  imports Schema
begin

text \<open>
  \<open>app/summary_output.py\<close> and \<open>app/summary_contract.py\<close>: the structured summary a provider
  returns, its normalisation, the canonical stored document and the rendered text. \<open>rp\<close> is
  Python's \<open>repr\<close> of floats and containers, \<open>parse\<close> the syntax analysis of \<open>json.loads\<close>.
\<close>

subsection \<open>Python equality of JSON values\<close>

text \<open>\<open>True == 1 == 1.0\<close>; dicts compare as maps, lists element by element; NaN equals nothing.\<close>

fun num_val :: "json \<Rightarrow> pyfloat option" where
  "num_val (JBool b) = Some (Finite (if b then 1 else 0))"
| "num_val (JInt i) = Some (Finite (of_int i))"
| "num_val (JFloat f) = (if f = NaN then None else Some f)"
| "num_val _ = None"

function py_eq :: "json \<Rightarrow> json \<Rightarrow> bool" where
  "py_eq JNull y = (y = JNull)"
| "py_eq (JStr s) y = (y = JStr s)"
| "py_eq (JArr xs) y = (case y of
     JArr ys \<Rightarrow> length xs = length ys \<and> (\<forall>p \<in> set (zip xs ys). py_eq (fst p) (snd p)) | _ \<Rightarrow> False)"
| "py_eq (JObj kvs) y = (case y of
     JObj ws \<Rightarrow> length kvs = length ws \<and>
       (\<forall>kv \<in> set kvs. case map_of ws (fst kv) of None \<Rightarrow> False | Some w \<Rightarrow> py_eq (snd kv) w)
   | _ \<Rightarrow> False)"
| "py_eq (JBool b) y = (num_val y = num_val (JBool b))"
| "py_eq (JInt i) y = (num_val y = num_val (JInt i))"
| "py_eq (JFloat f) y = (f \<noteq> NaN \<and> num_val y = Some f)"
  by pat_completeness auto

lemma size_zip_fst: "p \<in> set (zip xs ys) \<Longrightarrow> size (fst p) < Suc (size_list size xs)"
  by (metis fst_conv less_Suc_eq_le order_refl prod.exhaust_sel set_zip_leftD size_list_estimation')

lemma size_snd_pair:
  "(k, v) \<in> set kvs \<Longrightarrow> size v < Suc (size_list (size_prod (\<lambda>_. 0) size) kvs)"
  by (induction kvs) auto

termination py_eq
  by (relation "measure (\<lambda>(x, _). size x)") (auto dest: size_zip_fst size_snd_pair intro: less_SucI)

subsection \<open>Constants\<close>

definition a_acute :: char where "a_acute = CHR 0xE1"
definition a_tilde :: char where "a_tilde = CHR 0xE3"
definition c_cedilla :: char where "c_cedilla = CHR 0xE7"
definition o_tilde :: char where "o_tilde = CHR 0xF5"
definition word_joiner :: char where "word_joiner = CHR 0x8D"
definition newline :: char where "newline = CHR 0x0A"

definition header_fields :: "(string \<times> string) list" where
  "header_fields =
     [(''instance'', ''Inst'' @ CHR 0xE2 # ''ncia''), (''area'', CHR 0xC1 # ''rea''),
      (''justice_description'', ''Justi'' @ c_cedilla # ''a''), (''county'', ''Comarca''),
      (''state'', ''Estado''), (''city'', ''Cidade''), (''amount'', ''Valor'')]"

definition movements_title :: string where
  "movements_title = ''Movimenta'' @ [c_cedilla, o_tilde] @ ''es''"

definition attention_title :: string where
  "attention_title = ''Pontos de aten'' @ [c_cedilla, a_tilde] @ ''o''"

definition conditional_summary_fields :: "(string \<times> string) list" where
  "conditional_summary_fields =
     [(''decisions'', ''Decis'' @ o_tilde # ''es''), (''deadlines'', ''Prazos em curso''),
      (''related_processes'', ''Processos relacionados''), (''attachments'', ''Anexos'')]"

definition required_keys :: "string list" where
  "required_keys = [''synthesis'', ''timeline'', ''current_status'', ''attention'', ''decisions'',
     ''deadlines'', ''related_processes'', ''attachments'', ''claims'']"

definition document_keys :: "string list" where
  "document_keys = [''schema_version'', ''process'', ''summary'']"

definition process_keys :: "string list" where
  "process_keys = [''cnj'', ''class_name'', ''court'', ''header'', ''parties'']"

definition party_keys :: "string list" where
  "party_keys = [''name'', ''side'', ''person_type'', ''masked_person_id'']"

definition max_synthesis_chars :: nat where "max_synthesis_chars = 6000"
definition max_status_chars :: nat where "max_status_chars = 4000"
definition max_item_chars :: nat where "max_item_chars = 2000"

definition max_items :: "string \<Rightarrow> nat" where
  "max_items key = (if key = ''timeline'' then 24 else if key = ''decisions'' then 16 else 12)"

subsection \<open>Normalisation of text\<close>

text \<open>\<open>re.sub(r"\s+", " ", s)\<close>; the flag says that the previous character was replaced.\<close>

fun collapse_ws :: "bool \<Rightarrow> string \<Rightarrow> string" where
  "collapse_ws run [] = []"
| "collapse_ws run (c # cs) =
     (if isspace_c c then (if run then collapse_ws True cs else CHR '' '' # collapse_ws True cs)
      else c # collapse_ws False cs)"

definition inline_text :: "string \<Rightarrow> string" where
  "inline_text s = strip (collapse_ws False s)"

definition inline :: "(json \<Rightarrow> string) \<Rightarrow> json \<Rightarrow> string" where
  "inline rp v = inline_text (py_str rp (py_or v (JStr [])))"

definition marker_start :: "string \<Rightarrow> bool" where
  "marker_start t \<longleftrightarrow> (\<exists>p \<in> set [''#'', ''<'', ''`'', ''- '', ''* '']. prefix p t)"

definition prose_text :: "string \<Rightarrow> string" where
  "prose_text t = (if marker_start t then word_joiner # t else t)"

definition prose_line :: "(json \<Rightarrow> string) \<Rightarrow> json \<Rightarrow> string" where
  "prose_line rp v = prose_text (inline rp v)"

subsection \<open>parse\_structured\_summary\<close>

definition string_list ::
  "(json \<Rightarrow> string) \<Rightarrow> string \<Rightarrow> bool \<Rightarrow> json \<Rightarrow> json res" where
  "string_list rp key require_nonempty v =
     (case v of
        JArr xs \<Rightarrow>
          (if \<not> list_all is_str xs
           then Inl (ValueError (''structured summary field must be a string array: '' @ key))
           else if max_items key < length xs
           then Inl (ValueError (''structured summary field has too many items: '' @ key))
           else let rendered = map (prose_line rp) (filter (\<lambda>x. inline rp x \<noteq> []) xs) in
             if \<exists>x \<in> set rendered. max_item_chars < length x
             then Inl (ValueError (''structured summary item is too long: '' @ key))
             else if require_nonempty \<and> rendered = []
             then Inl (ValueError (''structured summary field must not be empty: '' @ key))
             else Inr (JArr (map JStr rendered)))
      | _ \<Rightarrow> Inl (ValueError (''structured summary field must be a string array: '' @ key)))"

definition claim_keys :: "string list" where
  "claim_keys = [''claim_id'', ''text'', ''evidence_refs'']"

definition parse_claim :: "(json \<Rightarrow> string) \<Rightarrow> json \<Rightarrow> json res" where
  "parse_claim rp item =
     (if \<not> is_obj item \<or> set (map fst (as_obj item)) \<noteq> set claim_keys
      then Inl (ValueError ''structured summary claim keys do not match the contract'')
      else let claim_id = inline rp (obj_get (as_obj item) ''claim_id'');
               txt = obj_get (as_obj item) ''text'';
               refs = obj_get (as_obj item) ''evidence_refs'';
               rendered = map (inline rp) (as_arr refs)
        in if claim_id = [] \<or> 64 < length claim_id
           then Inl (ValueError ''structured summary claim_id is invalid'')
           else case txt of
             JStr t \<Rightarrow>
               (if inline rp txt = []
                then Inl (ValueError ''structured summary claim text must be non-empty'')
                else if max_synthesis_chars < length t
                then Inl (ValueError ''structured summary claim text is too long'')
                else if \<not> is_arr refs \<or> as_arr refs = [] \<or> 32 < length (as_arr refs)
                  \<or> (\<exists>r \<in> set (as_arr refs). \<not> is_str r \<or> inline rp r = [])
                then Inl (ValueError ''structured summary claim evidence_refs are invalid'')
                else if \<not> distinct rendered
                then Inl (ValueError ''structured summary claim evidence_refs must be unique'')
                else Inr (JObj [(''claim_id'', JStr claim_id), (''text'', JStr (prose_line rp txt)),
                                (''evidence_refs'', JArr (map JStr rendered))]))
           | _ \<Rightarrow> Inl (ValueError ''structured summary claim text must be non-empty''))"

fun parse_claim_list :: "(json \<Rightarrow> string) \<Rightarrow> json list \<Rightarrow> json list res" where
  "parse_claim_list rp [] = Inr []"
| "parse_claim_list rp (x # xs) =
     res_bind (parse_claim rp x) (\<lambda>y. res_bind (parse_claim_list rp xs) (\<lambda>ys. Inr (y # ys)))"

definition parse_claims :: "(json \<Rightarrow> string) \<Rightarrow> json \<Rightarrow> json res" where
  "parse_claims rp v =
     (case v of
        JArr xs \<Rightarrow>
          (if 96 < length xs
           then Inl (ValueError ''structured summary claims must be a bounded array'')
           else res_bind (parse_claim_list rp xs) (\<lambda>ys. Inr (JArr ys)))
      | _ \<Rightarrow> Inl (ValueError ''structured summary claims must be a bounded array''))"

definition parse_prose ::
  "(json \<Rightarrow> string) \<Rightarrow> string \<Rightarrow> nat \<Rightarrow> json \<Rightarrow> unit res" where
  "parse_prose rp key limit v =
     (case v of
        JStr s \<Rightarrow>
          (if inline rp v = []
           then Inl (ValueError (''structured summary '' @ key @ '' must be a non-empty string''))
           else if limit < length s
           then Inl (ValueError (''structured summary '' @ key @ '' is too long''))
           else Inr ())
      | _ \<Rightarrow> Inl (ValueError (''structured summary '' @ key @ '' must be a non-empty string'')))"

text \<open>\<open>parse_structured_summary\<close> after the decoding of its text.\<close>

definition structured_summary_of ::
  "(json \<Rightarrow> string) \<Rightarrow> json \<Rightarrow> (string \<times> json) list res" where
  "structured_summary_of rp payload =
     (if \<not> is_obj payload
      then Inl (ValueError ''provider structured summary must be a JSON object'')
      else let p = as_obj payload; keys = set (map fst p) in
        if \<not> (set required_keys - {''claims''} \<subseteq> keys) \<or> \<not> (keys \<subseteq> set required_keys)
        then Inl (ValueError ''provider structured summary keys do not match the contract'')
        else
          res_bind (parse_prose rp ''synthesis'' max_synthesis_chars (obj_get p ''synthesis'')) (\<lambda>_.
          res_bind (parse_prose rp ''current_status'' max_status_chars (obj_get p ''current_status'')) (\<lambda>_.
          res_bind (string_list rp ''timeline'' False (obj_get p ''timeline'')) (\<lambda>timeline.
          res_bind (string_list rp ''attention'' True (obj_get p ''attention'')) (\<lambda>attention.
          res_bind (string_list rp ''decisions'' False (obj_get p ''decisions'')) (\<lambda>decisions.
          res_bind (string_list rp ''deadlines'' False (obj_get p ''deadlines'')) (\<lambda>deadlines.
          res_bind (string_list rp ''related_processes'' False (obj_get p ''related_processes'')) (\<lambda>related.
          res_bind (string_list rp ''attachments'' False (obj_get p ''attachments'')) (\<lambda>atts.
          res_bind (parse_claims rp (if ''claims'' \<in> keys then obj_get p ''claims'' else JArr [])) (\<lambda>claims.
          Inr [(''synthesis'', JStr (prose_line rp (obj_get p ''synthesis''))),
               (''timeline'', timeline),
               (''current_status'', JStr (prose_line rp (obj_get p ''current_status''))),
               (''attention'', attention), (''decisions'', decisions), (''deadlines'', deadlines),
               (''related_processes'', related), (''attachments'', atts),
               (''claims'', claims)]))))))))))"

definition parse_structured_summary ::
  "(json \<Rightarrow> string) \<Rightarrow> (string \<Rightarrow> json option) \<Rightarrow> string \<Rightarrow> (string \<times> json) list res" where
  "parse_structured_summary rp parse raw =
     (case loads_strict_json parse raw of
        Inl _ \<Rightarrow> Inl (ValueError ''provider structured summary is not valid JSON'')
      | Inr payload \<Rightarrow> structured_summary_of rp payload)"

subsection \<open>The canonical document\<close>

text \<open>
  \<open>json.loads\<close> analyses the text \<open>json.dumps\<close> renders back to the value, so loading a
  rendered value strictly runs the hooks of the strict loader on the value.
\<close>

definition reload_strict :: "json \<Rightarrow> json res" where
  "reload_strict v = strict_value v"

definition canonical_party :: "json \<Rightarrow> bool" where
  "canonical_party party \<longleftrightarrow> is_obj party \<and> set (map fst (as_obj party)) \<subseteq> set party_keys \<and>
     list_all (\<lambda>kv. is_str (snd kv)) (as_obj party)"

definition canonical_process :: "json \<Rightarrow> bool" where
  "canonical_process p \<longleftrightarrow> is_obj p \<and> set (map fst (as_obj p)) = set process_keys \<and>
     is_str (obj_get (as_obj p) ''cnj'') \<and>
     (obj_get (as_obj p) ''class_name'' = JNull \<or> is_str (obj_get (as_obj p) ''class_name'')) \<and>
     (obj_get (as_obj p) ''court'' = JNull \<or> is_str (obj_get (as_obj p) ''court'')) \<and>
     is_obj (obj_get (as_obj p) ''header'') \<and>
     set (map fst (as_obj (obj_get (as_obj p) ''header''))) \<subseteq> set (map fst header_fields) \<and>
     list_all (\<lambda>kv. \<not> is_obj (snd kv) \<and> \<not> is_arr (snd kv)) (as_obj (obj_get (as_obj p) ''header'')) \<and>
     is_arr (obj_get (as_obj p) ''parties'') \<and>
     list_all canonical_party (as_arr (obj_get (as_obj p) ''parties''))"

definition canonical_summary :: "(json \<Rightarrow> string) \<Rightarrow> json \<Rightarrow> bool" where
  "canonical_summary rp summary \<longleftrightarrow> is_obj summary \<and>
     set (map fst (as_obj summary)) = set required_keys \<and>
     (case res_bind (reload_strict summary) (structured_summary_of rp) of
        Inl _ \<Rightarrow> False
      | Inr normalized \<Rightarrow> py_eq (JObj normalized) summary)"

definition structured_summary_document_is_canonical :: "(json \<Rightarrow> string) \<Rightarrow> json \<Rightarrow> bool" where
  "structured_summary_document_is_canonical rp v \<longleftrightarrow> is_obj v \<and>
     set (map fst (as_obj v)) = set document_keys \<and>
     py_eq (obj_get (as_obj v) ''schema_version'') (JInt 2) \<and>
     canonical_process (obj_get (as_obj v) ''process'') \<and>
     canonical_summary rp (obj_get (as_obj v) ''summary'')"

definition structured_party :: "json \<Rightarrow> json" where
  "structured_party item = JObj (map (\<lambda>k. (k, obj_get (as_obj item) k))
     (filter (\<lambda>k. obj_get (as_obj item) k \<noteq> JNull) party_keys))"

definition structured_summary_process :: "(json \<Rightarrow> string) \<Rightarrow> (string \<times> json) list \<Rightarrow> json" where
  "structured_summary_process rp ctx =
     (let header = as_obj (obj_get ctx ''header'');
          name = (\<lambda>k. let s = inline rp (obj_get ctx k) in if s = [] then JNull else JStr s)
      in JObj [(''cnj'', JStr (inline rp (obj_get ctx ''code''))),
               (''class_name'', name ''class_name''), (''court'', name ''court''),
               (''header'', JObj (map (\<lambda>k. (k, obj_get header k))
                  (filter (\<lambda>k. obj_get header k \<noteq> JNull) (map fst header_fields)))),
               (''parties'', JArr (map structured_party
                  (filter is_obj (as_arr (obj_get ctx ''parties'')))))])"

definition structured_summary_document_matches_process ::
  "(json \<Rightarrow> string) \<Rightarrow> json \<Rightarrow> (string \<times> json) list \<Rightarrow> bool" where
  "structured_summary_document_matches_process rp v ctx \<longleftrightarrow>
     structured_summary_document_is_canonical rp v \<and>
     py_eq (obj_get (as_obj v) ''process'') (structured_summary_process rp ctx)"

text \<open>The payload is one \<open>parse_structured_summary\<close> returned, so \<open>payload[key]\<close> is present.\<close>

definition structured_summary_document ::
  "(json \<Rightarrow> string) \<Rightarrow> (string \<times> json) list \<Rightarrow> (string \<times> json) list \<Rightarrow> json" where
  "structured_summary_document rp payload ctx =
     JObj [(''schema_version'', JInt 2), (''process'', structured_summary_process rp ctx),
       (''summary'', JObj (map (\<lambda>k. (k,
          if k = ''synthesis'' \<or> k = ''current_status'' then obj_get payload k
          else JArr (as_arr (obj_get payload k)))) required_keys))]"

subsection \<open>Rendering\<close>

definition subject_names :: "(json \<Rightarrow> string) \<Rightarrow> (string \<times> json) list \<Rightarrow> string list" where
  "subject_names rp ctx = filter (\<lambda>n. n \<noteq> []) (map (\<lambda>item.
     inline rp (if is_obj item then py_or (py_or (obj_get (as_obj item) ''name'')
         (obj_get (as_obj item) ''label'')) (obj_get (as_obj item) ''description'') else item))
     (as_arr (obj_get ctx ''subjects'')))"

definition bullet :: "string \<Rightarrow> string" where
  "bullet s = ''- '' @ s"

definition heading2 :: "string \<Rightarrow> string" where
  "heading2 s = ''## '' @ s"

definition not_informed :: string where
  "not_informed = ''N'' @ a_tilde # ''o informado.''"

definition no_movement :: string where
  "no_movement = ''Nenhuma movimenta'' @ [c_cedilla, a_tilde] @ ''o relevante selecionada.''"

definition item_strings :: "(string \<times> json) list \<Rightarrow> string \<Rightarrow> string list" where
  "item_strings payload key = map (\<lambda>v. case v of JStr s \<Rightarrow> s | _ \<Rightarrow> []) (as_arr (obj_get payload key))"

definition text_of :: "(string \<times> json) list \<Rightarrow> string \<Rightarrow> string" where
  "text_of payload key = (case obj_get payload key of JStr s \<Rightarrow> s | _ \<Rightarrow> [])"

definition append_list :: "string \<Rightarrow> string list \<Rightarrow> string list" where
  "append_list title items =
     (if items = [] then [] else [[], heading2 title] @ map bullet items)"

definition labelled_line :: "(json \<Rightarrow> string) \<Rightarrow> string \<Rightarrow> json \<Rightarrow> string list" where
  "labelled_line rp label v = (let s = inline rp v in
     if s = [] then [] else [bullet (label @ '': '' @ s)])"

definition rendered_lines ::
  "(json \<Rightarrow> string) \<Rightarrow> (string \<times> json) list \<Rightarrow> (string \<times> json) list \<Rightarrow> string list" where
  "rendered_lines rp payload ctx =
     (let class_name = inline rp (obj_get ctx ''class_name'');
          header = as_obj (obj_get ctx ''header'');
          party_names = filter (\<lambda>n. n \<noteq> []) (map (\<lambda>item. inline rp
             (py_or (obj_get (as_obj item) ''name'') (obj_get (as_obj item) ''nome'')))
             (filter is_obj (as_arr (obj_get ctx ''parties''))));
          subjects = subject_names rp ctx;
          timeline = item_strings payload ''timeline''
      in [''# Resumo do processo'', [], ''<ProcessHeader className=\"process-header\">'',
          bullet (''Processo: '' @ inline rp (obj_get ctx ''code''))]
         @ labelled_line rp ''Classe'' (obj_get ctx ''class_name'')
         @ labelled_line rp ''Tribunal'' (obj_get ctx ''court'')
         @ concat (map (\<lambda>(k, label). labelled_line rp label (obj_get header k)) header_fields)
         @ [''</ProcessHeader>'', [], text_of payload ''synthesis'', [], heading2 ''Partes'']
         @ (if party_names = [] then [not_informed] else map bullet party_names)
         @ [[], heading2 ''Classe'', if class_name = [] then not_informed else class_name,
            [], heading2 ''Assuntos'']
         @ (if subjects = [] then [not_informed] else map bullet subjects)
         @ [[], heading2 movements_title]
         @ (if timeline = [] then [no_movement] else map bullet timeline)
         @ [[], ''Estado atual: '' @ text_of payload ''current_status'', [], heading2 attention_title]
         @ map bullet (item_strings payload ''attention'')
         @ concat (map (\<lambda>(k, title). append_list title (item_strings payload k))
             conditional_summary_fields))"

definition render_structured_summary ::
  "(json \<Rightarrow> string) \<Rightarrow> (string \<times> json) list \<Rightarrow> (string \<times> json) list \<Rightarrow> string" where
  "render_structured_summary rp payload ctx = strip (join [newline] (rendered_lines rp payload ctx))"


subsection \<open>Normalised text\<close>

definition spaced :: "string \<Rightarrow> bool" where
  "spaced s \<longleftrightarrow> successively (\<lambda>a b. \<not> (isspace_c a \<and> isspace_c b)) s \<and>
     (\<forall>c \<in> set s. isspace_c c \<longrightarrow> c = CHR '' '')"

lemma isspace_blank: "isspace_c (CHR '' '')"
  by (simp add: isspace_c_def)

lemma spaced_collapse:
  "spaced (collapse_ws r s) \<and>
   (r \<longrightarrow> collapse_ws r s = [] \<or> \<not> isspace_c (hd (collapse_ws r s)))"
  by (induction r s rule: collapse_ws.induct)
    (auto simp: spaced_def successively_Cons isspace_blank)

lemma collapse_spaced:
  "spaced s \<Longrightarrow> (r \<Longrightarrow> s = [] \<or> \<not> isspace_c (hd s)) \<Longrightarrow> collapse_ws r s = s"
proof (induction r s rule: collapse_ws.induct)
  case (2 r c cs)
  then show ?case
    by (cases cs) (auto simp: spaced_def successively_Cons)
qed simp

lemma spaced_appendD: "spaced (xs @ ys) \<Longrightarrow> spaced xs \<and> spaced ys"
  by (auto simp: spaced_def successively_append_iff)

lemma spaced_dropWhile: "spaced s \<Longrightarrow> spaced (dropWhile p s)"
  by (metis spaced_appendD takeWhile_dropWhile_id)

lemma spaced_rev: "spaced (rev s) = spaced s"
  by (auto simp: spaced_def elim: successively_mono)

lemma spaced_strip: "spaced s \<Longrightarrow> spaced (strip s)"
  by (simp add: strip_def rstrip_by_def lstrip_by_def spaced_rev spaced_dropWhile)

definition tidy :: "string \<Rightarrow> bool" where
  "tidy s \<longleftrightarrow> spaced s \<and> strip s = s"

lemma tidy_inline_text: "tidy (inline_text s)"
  by (simp add: tidy_def inline_text_def spaced_strip spaced_collapse)

lemma inline_text_tidy: "tidy s \<Longrightarrow> inline_text s = s"
  by (simp add: tidy_def inline_text_def collapse_spaced)

lemma inline_text_idem [simp]: "inline_text (inline_text s) = inline_text s"
  by (simp add: inline_text_tidy tidy_inline_text)

lemma tidy_no_newline: "tidy s \<Longrightarrow> newline \<notin> set s"
  by (auto simp: tidy_def spaced_def isspace_c_def newline_def)

lemma inline_JStr [simp]: "inline rp (JStr t) = inline_text t"
  by (simp add: inline_def py_or_def)

lemma tidy_inline: "tidy (inline rp v)"
  by (simp add: inline_def tidy_inline_text)

lemma prose_text_markers: "\<not> marker_start (prose_text t)"
  by (auto simp: prose_text_def marker_start_def word_joiner_def)

lemma tidy_prose_text:
  assumes "tidy t"
  shows "tidy (prose_text t)"
proof (cases "marker_start t")
  case True
  then have "t \<noteq> []" by (auto simp: marker_start_def)
  moreover have "\<not> isspace_c word_joiner" by (simp add: isspace_c_def word_joiner_def)
  ultimately show ?thesis
    using assms strip_ends [of t] strip_ends [of "word_joiner # t"]
    by (auto simp: prose_text_def tidy_def spaced_def successively_Cons)
qed (use assms in \<open>simp add: prose_text_def\<close>)

lemma tidy_prose_line: "tidy (prose_line rp v)"
  by (simp add: prose_line_def tidy_prose_text tidy_inline)

lemma prose_line_again [simp]: "prose_line rp (JStr (prose_line rp v)) = prose_line rp v"
proof -
  have "inline_text (prose_line rp v) = prose_line rp v"
    by (rule inline_text_tidy [OF tidy_prose_line])
  moreover have "\<not> marker_start (prose_line rp v)"
    by (simp add: prose_line_def prose_text_markers)
  ultimately show ?thesis by (simp add: prose_line_def prose_text_def)
qed

lemma prose_line_eq_Nil: "prose_line rp v = [] \<longleftrightarrow> inline rp v = []"
  by (auto simp: prose_line_def prose_text_def marker_start_def)

lemma inline_prose_line [simp]: "inline_text (prose_line rp v) = prose_line rp v"
  by (rule inline_text_tidy [OF tidy_prose_line])

subsection \<open>Normalising twice\<close>

lemma string_list_cases:
  assumes "string_list rp key ne v = Inr w"
  obtains xs where "v = JArr xs" "length xs \<le> max_items key"
    "w = JArr (map JStr (map (prose_line rp) (filter (\<lambda>x. inline rp x \<noteq> []) xs)))"
    "\<forall>x \<in> set xs. inline rp x \<noteq> [] \<longrightarrow> length (prose_line rp x) \<le> max_item_chars"
    "ne \<longrightarrow> (\<exists>x \<in> set xs. inline rp x \<noteq> [])"
proof (cases v)
  case (JArr xs)
  from that [OF this] assms show ?thesis
    by (auto simp: string_list_def JArr Let_def not_less filter_empty_conv split: if_splits)
qed (use assms in \<open>auto simp: string_list_def\<close>)

lemma string_list_again:
  assumes "string_list rp key ne v = Inr w"
  shows "string_list rp key ne w = Inr w"
proof -
  from assms obtain xs where xs: "length xs \<le> max_items key"
    "w = JArr (map JStr (map (prose_line rp) (filter (\<lambda>x. inline rp x \<noteq> []) xs)))"
    "\<forall>x \<in> set xs. inline rp x \<noteq> [] \<longrightarrow> length (prose_line rp x) \<le> max_item_chars"
    "ne \<longrightarrow> (\<exists>x \<in> set xs. inline rp x \<noteq> [])"
    by (rule string_list_cases)
  let ?ys = "map (prose_line rp) (filter (\<lambda>x. inline rp x \<noteq> []) xs)"
  have keep: "filter (\<lambda>x. inline rp x \<noteq> []) (map JStr ?ys) = map JStr ?ys"
    by (auto simp: filter_id_conv prose_line_eq_Nil)
  have same: "map (prose_line rp) (map JStr ?ys) = ?ys" by simp
  have "length (map JStr ?ys) \<le> max_items key"
    using xs(1) length_filter_le [of "\<lambda>x. inline rp x \<noteq> []" xs] by (simp del: length_filter_le)
  moreover have "list_all is_str (map JStr ?ys)" by (simp add: list_all_iff)
  moreover have "\<not> (\<exists>x \<in> set ?ys. max_item_chars < length x)" using xs(3) by auto
  moreover have "ne \<longrightarrow> ?ys \<noteq> []" using xs(4) by (auto simp: filter_empty_conv)
  ultimately show ?thesis
    unfolding xs(2) string_list_def json.case Let_def keep same by auto
qed

lemma parse_claim_cases:
  assumes "parse_claim rp x = Inr y"
  obtains cid t refs where "y = JObj [(''claim_id'', JStr cid), (''text'', JStr t),
      (''evidence_refs'', JArr (map JStr refs))]"
    "tidy cid" "cid \<noteq> []" "length cid \<le> 64" "\<exists>v. t = prose_line rp v" "t \<noteq> []"
    "refs \<noteq> []" "length refs \<le> 32" "\<forall>r \<in> set refs. tidy r \<and> r \<noteq> []" "distinct refs"
proof -
  let ?o = "as_obj x" and ?rs = "as_arr (obj_get (as_obj x) ''evidence_refs'')"
  obtain s where s: "obj_get ?o ''text'' = JStr s"
    using assms by (auto simp: parse_claim_def Let_def split: if_splits json.splits)
  have "y = JObj [(''claim_id'', JStr (inline rp (obj_get ?o ''claim_id''))),
      (''text'', JStr (prose_line rp (JStr s))),
      (''evidence_refs'', JArr (map JStr (map (inline rp) ?rs)))]"
    and "inline rp (obj_get ?o ''claim_id'') \<noteq> []" "length (inline rp (obj_get ?o ''claim_id'')) \<le> 64"
    and "inline rp (JStr s) \<noteq> []" "?rs \<noteq> []" "length ?rs \<le> 32" "\<forall>r \<in> set ?rs. inline rp r \<noteq> []"
    and "distinct (map (inline rp) ?rs)"
    using assms s by (auto simp: parse_claim_def Let_def not_less split: if_splits)
  with that [of "inline rp (obj_get ?o ''claim_id'')" "prose_line rp (JStr s)" "map (inline rp) ?rs"]
  show ?thesis
    by (simp add: tidy_inline prose_line_eq_Nil) blast
qed

lemma parse_claim_again:
  assumes "parse_claim rp x = Inr y" "length (text_of (as_obj y) ''text'') \<le> max_synthesis_chars"
  shows "parse_claim rp y = Inr y"
proof -
  from assms(1) obtain cid t refs where y: "y = JObj [(''claim_id'', JStr cid), (''text'', JStr t),
      (''evidence_refs'', JArr (map JStr refs))]"
    "tidy cid" "cid \<noteq> []" "length cid \<le> 64" "\<exists>v. t = prose_line rp v" "t \<noteq> []"
    "refs \<noteq> []" "length refs \<le> 32" "\<forall>r \<in> set refs. tidy r \<and> r \<noteq> []" "distinct refs"
    by (rule parse_claim_cases)
  from y(5) obtain v where t: "t = prose_line rp v" ..
  have refs: "map (inline rp) (map JStr refs) = refs"
    using y(9) by (auto simp: inline_text_tidy intro!: map_idI)
  have "length t \<le> max_synthesis_chars"
    using assms(2) by (simp add: y(1) text_of_def obj_get_def)
  moreover have "\<not> (\<exists>r \<in> set (map JStr refs). \<not> is_str r \<or> inline rp r = [])"
    using y(9) by (auto simp: inline_text_tidy)
  ultimately show ?thesis
    using y t refs
    by (simp add: parse_claim_def Let_def claim_keys_def obj_get_def inline_text_tidy
        insert_commute del: map_map)
qed

lemma parse_claim_list_again:
  assumes "parse_claim_list rp xs = Inr ys"
    "\<And>y. y \<in> set ys \<Longrightarrow> length (text_of (as_obj y) ''text'') \<le> max_synthesis_chars"
  shows "parse_claim_list rp ys = Inr ys \<and> length ys = length xs"
  using assms
proof (induction xs arbitrary: ys)
  case (Cons x xs)
  from Cons.prems(1) obtain y zs where y: "parse_claim rp x = Inr y"
    "parse_claim_list rp xs = Inr zs" "ys = y # zs"
    by auto
  with Cons.IH [OF y(2)] Cons.prems(2) parse_claim_again [OF y(1)] show ?case by simp
qed simp

lemma parse_claims_cases:
  assumes "parse_claims rp v = Inr w"
  obtains xs ys where "v = JArr xs" "length xs \<le> 96" "parse_claim_list rp xs = Inr ys" "w = JArr ys"
  using assms by (auto simp: parse_claims_def not_less split: json.splits if_splits)

lemma parse_claims_again:
  assumes "parse_claims rp v = Inr w"
    "\<And>y. y \<in> set (as_arr w) \<Longrightarrow> length (text_of (as_obj y) ''text'') \<le> max_synthesis_chars"
  shows "parse_claims rp w = Inr w"
proof -
  from assms(1) obtain xs ys where xs: "length xs \<le> 96" "parse_claim_list rp xs = Inr ys"
      "w = JArr ys"
    by (rule parse_claims_cases)
  with parse_claim_list_again [OF xs(2)] assms(2) show ?thesis by (simp add: parse_claims_def)
qed

lemma parse_prose_again:
  assumes "parse_prose rp key limit v = Inr ()" "length (prose_line rp v) \<le> limit"
  shows "parse_prose rp key limit (JStr (prose_line rp v)) = Inr ()"
proof -
  have "inline rp v \<noteq> []"
    using assms(1) by (auto simp: parse_prose_def split: json.splits if_splits)
  with assms(2) show ?thesis by (simp add: parse_prose_def prose_line_eq_Nil)
qed

text \<open>The accepted payloads in one formula.\<close>

definition payload_of :: "string \<Rightarrow> json \<Rightarrow> string \<Rightarrow> json \<Rightarrow> json \<Rightarrow> json \<Rightarrow> json \<Rightarrow> json \<Rightarrow> json \<Rightarrow>
    (string \<times> json) list" where
  "payload_of s tml c att de dl rel atts cls =
     [(''synthesis'', JStr s), (''timeline'', tml), (''current_status'', JStr c), (''attention'', att),
      (''decisions'', de), (''deadlines'', dl), (''related_processes'', rel), (''attachments'', atts),
      (''claims'', cls)]"

lemma payload_keys: "map fst (payload_of s tml c att de dl rel atts cls) = required_keys"
  by (simp add: payload_of_def required_keys_def)

lemma payload_get:
  "obj_get (payload_of s tml c att de dl rel atts cls) ''synthesis'' = JStr s"
  "obj_get (payload_of s tml c att de dl rel atts cls) ''timeline'' = tml"
  "obj_get (payload_of s tml c att de dl rel atts cls) ''current_status'' = JStr c"
  "obj_get (payload_of s tml c att de dl rel atts cls) ''attention'' = att"
  "obj_get (payload_of s tml c att de dl rel atts cls) ''decisions'' = de"
  "obj_get (payload_of s tml c att de dl rel atts cls) ''deadlines'' = dl"
  "obj_get (payload_of s tml c att de dl rel atts cls) ''related_processes'' = rel"
  "obj_get (payload_of s tml c att de dl rel atts cls) ''attachments'' = atts"
  "obj_get (payload_of s tml c att de dl rel atts cls) ''claims'' = cls"
  by (simp_all add: payload_of_def obj_get_def)

lemma structured_summary_of_cases:
  assumes "structured_summary_of rp v = Inr p"
  obtains s c tml att de dl rel atts cls
    where "p = payload_of (prose_line rp s) tml (prose_line rp c) att de dl rel atts cls"
    "parse_prose rp ''synthesis'' max_synthesis_chars s = Inr ()"
    "parse_prose rp ''current_status'' max_status_chars c = Inr ()"
    "\<exists>x. string_list rp ''timeline'' False x = Inr tml"
    "\<exists>x. string_list rp ''attention'' True x = Inr att"
    "\<exists>x. string_list rp ''decisions'' False x = Inr de"
    "\<exists>x. string_list rp ''deadlines'' False x = Inr dl"
    "\<exists>x. string_list rp ''related_processes'' False x = Inr rel"
    "\<exists>x. string_list rp ''attachments'' False x = Inr atts"
    "\<exists>x. parse_claims rp x = Inr cls"
proof -
  let ?g = "obj_get (as_obj v)"
  from assms obtain tml att de dl rel atts cls where
    "parse_prose rp ''synthesis'' max_synthesis_chars (?g ''synthesis'') = Inr ()"
    "parse_prose rp ''current_status'' max_status_chars (?g ''current_status'') = Inr ()"
    "string_list rp ''timeline'' False (?g ''timeline'') = Inr tml"
    "string_list rp ''attention'' True (?g ''attention'') = Inr att"
    "string_list rp ''decisions'' False (?g ''decisions'') = Inr de"
    "string_list rp ''deadlines'' False (?g ''deadlines'') = Inr dl"
    "string_list rp ''related_processes'' False (?g ''related_processes'') = Inr rel"
    "string_list rp ''attachments'' False (?g ''attachments'') = Inr atts"
    "\<exists>x. parse_claims rp x = Inr cls"
    "p = payload_of (prose_line rp (?g ''synthesis'')) tml (prose_line rp (?g ''current_status''))
       att de dl rel atts cls"
    unfolding structured_summary_of_def Let_def payload_of_def
    by (simp only: res_bind_eq_Inr sum.distinct sum.inject split: if_split_asm)
      (elim exE conjE, simp only: unit_all_eq1, metis old.unit.exhaust)+
  with that show ?thesis by blast
qed

lemma structured_summary_of_payload:
  assumes "parse_prose rp ''synthesis'' max_synthesis_chars (JStr s) = Inr ()"
    "parse_prose rp ''current_status'' max_status_chars (JStr c) = Inr ()"
    "string_list rp ''timeline'' False tml = Inr tml"
    "string_list rp ''attention'' True att = Inr att"
    "string_list rp ''decisions'' False de = Inr de"
    "string_list rp ''deadlines'' False dl = Inr dl"
    "string_list rp ''related_processes'' False rel = Inr rel"
    "string_list rp ''attachments'' False atts = Inr atts"
    "parse_claims rp cls = Inr cls"
    "prose_line rp (JStr s) = s" "prose_line rp (JStr c) = c"
  shows "structured_summary_of rp (JObj (payload_of s tml c att de dl rel atts cls)) =
    Inr (payload_of s tml c att de dl rel atts cls)"
proof -
  have keys: "map fst (as_obj (JObj (payload_of s tml c att de dl rel atts cls))) = required_keys"
    by (simp add: payload_keys)
  have c: "''claims'' \<in> set required_keys" by (simp add: required_keys_def)
  show ?thesis
    unfolding structured_summary_of_def Let_def keys
    by (simp add: payload_get assms c) (simp add: payload_of_def)
qed

definition room_for_guards :: "(string \<times> json) list \<Rightarrow> bool" where
  "room_for_guards p \<longleftrightarrow> length (text_of p ''synthesis'') \<le> max_synthesis_chars \<and>
     length (text_of p ''current_status'') \<le> max_status_chars \<and>
     (\<forall>y \<in> set (as_arr (obj_get p ''claims'')).
        length (text_of (as_obj y) ''text'') \<le> max_synthesis_chars)"

lemma structured_summary_again:
  assumes "structured_summary_of rp v = Inr p" "room_for_guards p"
  shows "structured_summary_of rp (JObj p) = Inr p"
  using assms(1)
proof (rule structured_summary_of_cases)
  fix s c tml att de dl rel atts cls
  assume p: "p = payload_of (prose_line rp s) tml (prose_line rp c) att de dl rel atts cls"
    and prose: "parse_prose rp ''synthesis'' max_synthesis_chars s = Inr ()"
      "parse_prose rp ''current_status'' max_status_chars c = Inr ()"
    and lists: "\<exists>x. string_list rp ''timeline'' False x = Inr tml"
      "\<exists>x. string_list rp ''attention'' True x = Inr att"
      "\<exists>x. string_list rp ''decisions'' False x = Inr de"
      "\<exists>x. string_list rp ''deadlines'' False x = Inr dl"
      "\<exists>x. string_list rp ''related_processes'' False x = Inr rel"
      "\<exists>x. string_list rp ''attachments'' False x = Inr atts"
    and claims: "\<exists>x. parse_claims rp x = Inr cls"
  have room: "length (prose_line rp s) \<le> max_synthesis_chars"
      "length (prose_line rp c) \<le> max_status_chars"
      "\<And>y. y \<in> set (as_arr cls) \<Longrightarrow> length (text_of (as_obj y) ''text'') \<le> max_synthesis_chars"
    using assms(2) by (auto simp: room_for_guards_def p text_of_def payload_get)
  show ?thesis
    unfolding p
    using prose lists claims
    by (intro structured_summary_of_payload parse_prose_again room prose_line_again)
      (auto intro: string_list_again parse_claims_again room)
qed

subsection \<open>Documents built from accepted payloads\<close>

lemma string_list_arr:
  assumes "\<exists>x. string_list rp key ne x = Inr w"
  shows "\<exists>ts. w = JArr (map JStr ts) \<and> (\<forall>t \<in> set ts. tidy t \<and> \<not> marker_start t)"
proof -
  from assms obtain x where "string_list rp key ne x = Inr w" ..
  then obtain xs where
    w: "w = JArr (map JStr (map (prose_line rp) (filter (\<lambda>x. inline rp x \<noteq> []) xs)))"
    by (rule string_list_cases)
  have "\<forall>t \<in> set (map (prose_line rp) ys). tidy t \<and> \<not> marker_start t" for ys
    by (auto simp: tidy_prose_line) (simp add: prose_line_def prose_text_markers)
  with w show ?thesis by blast
qed

lemma parse_claims_arr: "\<exists>x. parse_claims rp x = Inr w \<Longrightarrow> JArr (as_arr w) = w"
  by (metis parse_claims_cases as_arr.simps(1))

lemma string_list_is_arr: "\<exists>x. string_list rp key ne x = Inr w \<Longrightarrow> JArr (as_arr w) = w"
  using string_list_arr [of rp key ne w] by auto

lemma document_summary:
  assumes "structured_summary_of rp v = Inr p"
  shows "map (\<lambda>k. (k, if k = ''synthesis'' \<or> k = ''current_status'' then obj_get p k
      else JArr (as_arr (obj_get p k)))) required_keys = p"
  using assms
proof (rule structured_summary_of_cases)
  fix s c tml att de dl rel atts cls
  assume p: "p = payload_of (prose_line rp s) tml (prose_line rp c) att de dl rel atts cls"
    and lists: "\<exists>x. string_list rp ''timeline'' False x = Inr tml"
      "\<exists>x. string_list rp ''attention'' True x = Inr att"
      "\<exists>x. string_list rp ''decisions'' False x = Inr de"
      "\<exists>x. string_list rp ''deadlines'' False x = Inr dl"
      "\<exists>x. string_list rp ''related_processes'' False x = Inr rel"
      "\<exists>x. string_list rp ''attachments'' False x = Inr atts"
    and claims: "\<exists>x. parse_claims rp x = Inr cls"
  from lists claims have "JArr (as_arr tml) = tml" "JArr (as_arr att) = att"
    "JArr (as_arr de) = de" "JArr (as_arr dl) = dl" "JArr (as_arr rel) = rel"
    "JArr (as_arr atts) = atts" "JArr (as_arr cls) = cls"
    by (blast intro: string_list_is_arr parse_claims_arr)+
  then show ?thesis
    unfolding p by (simp add: required_keys_def payload_get) (simp add: payload_of_def)
qed

lemma py_eq_refl: "unique_keys v \<Longrightarrow> finite_json v \<Longrightarrow> py_eq v v"
proof (induction v)
  case (JFloat f)
  then show ?case by (cases f) simp_all
next
  case (JArr xs)
  then show ?case by (auto simp: in_set_zip)
next
  case (JObj kvs)
  have "map_of kvs (fst kv) = Some (snd kv)" if "kv \<in> set kvs" for kv
    using that JObj.prems(1) by (intro map_of_is_SomeI) simp_all
  moreover have "py_eq (snd kv) (snd kv)" if "kv \<in> set kvs" for kv
    using that JObj.prems by (intro JObj.IH [OF that]) (auto simp: prod_set_defs)
  ultimately show ?case by simp
qed simp_all

definition plain_json :: "json \<Rightarrow> bool" where
  "plain_json v \<longleftrightarrow> unique_keys v \<and> finite_json v"

lemma plain_json_simps [simp]:
  "plain_json JNull" "plain_json (JStr s)" "plain_json (JInt i)"
  "plain_json (JArr xs) \<longleftrightarrow> (\<forall>x \<in> set xs. plain_json x)"
  "plain_json (JObj kvs) \<longleftrightarrow> distinct (map fst kvs) \<and> (\<forall>kv \<in> set kvs. plain_json (snd kv))"
  by (auto simp: plain_json_def)

lemma parse_claim_plain: "parse_claim rp x = Inr y \<Longrightarrow> plain_json y"
  by (auto elim!: parse_claim_cases)

lemma parse_claim_list_plain:
  "parse_claim_list rp xs = Inr ys \<Longrightarrow> \<forall>y \<in> set ys. plain_json y"
  by (induction xs arbitrary: ys) (auto dest: parse_claim_plain)

lemma parse_claims_plain: "\<exists>x. parse_claims rp x = Inr w \<Longrightarrow> plain_json w"
  by (metis parse_claims_cases parse_claim_list_plain plain_json_simps(4))

lemma string_list_plain: "\<exists>x. string_list rp key ne x = Inr w \<Longrightarrow> plain_json w"
  using string_list_arr [of rp key ne w] by auto

lemma distinct_required_keys: "distinct required_keys"
  by (simp add: required_keys_def)

lemma payload_plain:
  assumes "structured_summary_of rp v = Inr p"
  shows "plain_json (JObj p) \<and> map fst p = required_keys"
  using assms
proof (rule structured_summary_of_cases)
  fix s c tml att de dl rel atts cls
  assume p: "p = payload_of (prose_line rp s) tml (prose_line rp c) att de dl rel atts cls"
    and lists: "\<exists>x. string_list rp ''timeline'' False x = Inr tml"
      "\<exists>x. string_list rp ''attention'' True x = Inr att"
      "\<exists>x. string_list rp ''decisions'' False x = Inr de"
      "\<exists>x. string_list rp ''deadlines'' False x = Inr dl"
      "\<exists>x. string_list rp ''related_processes'' False x = Inr rel"
      "\<exists>x. string_list rp ''attachments'' False x = Inr atts"
    and claims: "\<exists>x. parse_claims rp x = Inr cls"
  from lists claims have "plain_json tml" "plain_json att" "plain_json de" "plain_json dl"
    "plain_json rel" "plain_json atts" "plain_json cls"
    by (blast intro: string_list_plain parse_claims_plain)+
  then show ?thesis
    by (simp add: p payload_keys distinct_required_keys) (simp add: payload_of_def)
qed

text \<open>What the canonical form asks of a context: the fields of the header the document keeps are neither objects
  nor lists (nor NaN, which equals nothing), the fields of a party are texts where they are present.\<close>

definition scalar :: "json \<Rightarrow> bool" where
  "scalar v \<longleftrightarrow> \<not> is_obj v \<and> \<not> is_arr v \<and> py_eq v v"

definition context_ok :: "(string \<times> json) list \<Rightarrow> bool" where
  "context_ok ctx \<longleftrightarrow>
     (\<forall>k \<in> set (map fst header_fields). scalar (obj_get (as_obj (obj_get ctx ''header'')) k)) \<and>
     (\<forall>party \<in> set (filter is_obj (as_arr (obj_get ctx ''parties''))). \<forall>k \<in> set party_keys.
        obj_get (as_obj party) k = JNull \<or> is_str (obj_get (as_obj party) k))"

lemma py_eq_object:
  assumes "distinct (map fst kvs)"
  shows "py_eq (JObj kvs) (JObj kvs) \<longleftrightarrow> (\<forall>kv \<in> set kvs. py_eq (snd kv) (snd kv))"
proof -
  have "map_of kvs (fst kv) = Some (snd kv)" if "kv \<in> set kvs" for kv
    using assms that by (intro map_of_is_SomeI) simp_all
  then show ?thesis by simp
qed

lemma py_eq_array: "(\<forall>x \<in> set xs. py_eq x x) \<Longrightarrow> py_eq (JArr xs) (JArr xs)"
  by (auto simp: in_set_zip)

lemma is_str_plain: "is_str v \<Longrightarrow> plain_json v"
  by (cases v) simp_all

lemma py_eq_text: "is_str v \<Longrightarrow> py_eq v v"
  by (cases v) simp_all

lemma kept_fields: "distinct ks \<Longrightarrow> distinct (map fst (map (\<lambda>k. (k, g k)) (filter p ks)))"
  by (simp add: o_def)

lemma structured_process_ok:
  "canonical_process (structured_summary_process rp ctx) \<and>
     py_eq (structured_summary_process rp ctx) (structured_summary_process rp ctx) \<longleftrightarrow> context_ok ctx"
proof -
  let ?h = "as_obj (obj_get ctx ''header'')" and ?proc = "structured_summary_process rp ctx"
  let ?header = "map (\<lambda>k. (k, obj_get ?h k)) (filter (\<lambda>k. obj_get ?h k \<noteq> JNull) (map fst header_fields))"
  let ?parties = "map structured_party (filter is_obj (as_arr (obj_get ctx ''parties'')))"
  have keys: "distinct (map fst header_fields)" "distinct party_keys"
    by (simp_all add: header_fields_def c_cedilla_def party_keys_def)
  have party: "canonical_party (structured_party x) \<longleftrightarrow>
      (\<forall>k \<in> set party_keys. obj_get (as_obj x) k = JNull \<or> is_str (obj_get (as_obj x) k))" for x
    by (auto simp: canonical_party_def structured_party_def list_all_iff)
  have same_party: "py_eq (structured_party x) (structured_party x)" if "canonical_party (structured_party x)" for x
    using that unfolding structured_party_def py_eq_object [OF kept_fields [OF keys(2)]]
    by (auto simp: canonical_party_def list_all_iff py_eq_text)
  have canonical: "canonical_process ?proc \<longleftrightarrow>
      (\<forall>k \<in> set (map fst header_fields). \<not> is_obj (obj_get ?h k) \<and> \<not> is_arr (obj_get ?h k)) \<and>
      (\<forall>x \<in> set (filter is_obj (as_arr (obj_get ctx ''parties''))). canonical_party (structured_party x))"
    by (auto simp: canonical_process_def structured_summary_process_def Let_def process_keys_def
        obj_get_def [of "_ # _"] list_all_iff)
  have same_header: "py_eq (JObj ?header) (JObj ?header) \<longleftrightarrow> (\<forall>k \<in> set (map fst header_fields). py_eq (obj_get ?h k) (obj_get ?h k))"
    unfolding py_eq_object [OF kept_fields [OF keys(1)]] by auto
  have same: "py_eq ?proc ?proc \<longleftrightarrow> py_eq (JObj ?header) (JObj ?header) \<and> py_eq (JArr ?parties) (JArr ?parties)"
    unfolding structured_summary_process_def Let_def by (subst py_eq_object) simp_all
  show ?thesis
  proof
    assume "canonical_process ?proc \<and> py_eq ?proc ?proc"
    then show "context_ok ctx" unfolding canonical same same_header by (simp add: context_ok_def scalar_def party)
  next
    assume ok: "context_ok ctx"
    then have "canonical_process ?proc" unfolding canonical by (simp add: context_ok_def scalar_def party)
    moreover have "py_eq (JArr ?parties) (JArr ?parties)"
      using calculation unfolding canonical by (intro py_eq_array) (auto intro: same_party)
    moreover have "py_eq (JObj ?header) (JObj ?header)"
      unfolding same_header using ok by (simp add: context_ok_def scalar_def)
    ultimately show "canonical_process ?proc \<and> py_eq ?proc ?proc" unfolding same by blast
  qed
qed

lemma canonical_summary_payload:
  assumes "structured_summary_of rp v = Inr p" "room_for_guards p"
  shows "canonical_summary rp (JObj p)"
proof -
  have "reload_strict (JObj p) = Inr (JObj p)"
    using payload_plain [OF assms(1)] unfolding reload_strict_def plain_json_def
    by (blast intro: strict_complete(1))
  moreover have "py_eq (JObj p) (JObj p)"
    using payload_plain [OF assms(1)] unfolding plain_json_def by (intro py_eq_refl) blast+
  ultimately show ?thesis
    using structured_summary_again [OF assms] payload_plain [OF assms(1)]
    by (simp add: canonical_summary_def)
qed

subsection \<open>Lines of the rendered text\<close>

lemma split_char_app: "c \<notin> set x \<Longrightarrow> split_char c (x @ c # y) = x # split_char c y"
  by (induction x) auto

lemma split_char_single: "c \<notin> set x \<Longrightarrow> split_char c x = [x]"
  by (induction x) auto

lemma split_char_join:
  "ls \<noteq> [] \<Longrightarrow> \<forall>l \<in> set ls. c \<notin> set l \<Longrightarrow> split_char c (join [c] ls) = ls"
  by (induction "[c]" ls rule: join.induct) (simp_all add: split_char_app split_char_single)

lemma join_ends:
  assumes "ls \<noteq> []" "hd ls \<noteq> []" "last ls \<noteq> []"
  shows "hd (join sep ls) = hd (hd ls) \<and> last (join sep ls) = last (last ls) \<and> join sep ls \<noteq> []"
  using assms
proof (induction sep ls rule: join.induct)
  case (3 sep x y ys)
  have "join sep (y # ys) \<noteq> [] \<and> last (join sep (y # ys)) = last (last (y # ys))"
    using 3(3,4)
  proof (induction sep "y # ys" arbitrary: y ys rule: join.induct)
    case (3 sep a b zs)
    then show ?case by auto
  qed simp
  with 3(3) show ?case by simp
qed simp_all

lemma last_concat:
  assumes "\<And>l. l \<in> set lls \<Longrightarrow> l \<noteq> [] \<Longrightarrow> P (last l)" "concat lls \<noteq> []"
  shows "P (last (concat lls))"
  using assms
proof (induction lls rule: rev_induct)
  case (snoc l lls)
  then show ?case by (cases "l = []") auto
qed simp

text \<open>A line of the text: no line break inside, and not one that opens a heading.\<close>

definition body_line :: "string \<Rightarrow> bool" where
  "body_line l \<longleftrightarrow> newline \<notin> set l \<and> \<not> prefix ''#'' l"

definition solid :: "string \<Rightarrow> bool" where
  "solid l \<longleftrightarrow> l \<noteq> [] \<and> \<not> isspace_c (last l)"

lemma body_bullet: "newline \<notin> set l \<Longrightarrow> body_line (bullet l)"
  by (simp add: body_line_def bullet_def newline_def)

lemma tidy_prose: "tidy t \<Longrightarrow> \<not> marker_start t \<Longrightarrow> body_line t"
  by (auto simp: body_line_def tidy_no_newline marker_start_def)

lemma body_labelled: "newline \<notin> set label \<Longrightarrow> l \<in> set (labelled_line rp label v) \<Longrightarrow> body_line l"
  using tidy_no_newline [OF tidy_inline [of rp v]]
  by (auto simp: labelled_line_def Let_def body_line_def bullet_def newline_def split: if_splits)

lemma solid_bullet: "tidy t \<Longrightarrow> t \<noteq> [] \<Longrightarrow> solid (bullet t)"
  using strip_ends [of t] by (simp add: solid_def bullet_def tidy_def)

lemma filter_headings: "\<forall>l \<in> set ls. body_line l \<Longrightarrow> filter (prefix ''#'') ls = []"
  by (auto simp: filter_empty_conv body_line_def)

text \<open>The items of an accepted payload are non-empty tidy lines.\<close>

lemma item_strings_ok:
  assumes "\<exists>x. string_list rp key ne x = Inr w" "obj_get p k = w"
  shows "\<forall>t \<in> set (item_strings p k). tidy t \<and> t \<noteq> []"
proof -
  from assms(1) obtain x where "string_list rp key ne x = Inr w" ..
  then obtain xs where
    "w = JArr (map JStr (map (prose_line rp) (filter (\<lambda>x. inline rp x \<noteq> []) xs)))"
    by (rule string_list_cases)
  then have "item_strings p k = map (prose_line rp) (filter (\<lambda>x. inline rp x \<noteq> []) xs)"
    using assms(2) by (simp add: item_strings_def o_def)
  then show ?thesis by (auto simp: tidy_prose_line prose_line_eq_Nil)
qed

lemma item_strings_nonempty:
  assumes "string_list rp key True x = Inr w" "obj_get p k = w"
  shows "item_strings p k \<noteq> []"
proof -
  from assms(1) obtain xs where
    "w = JArr (map JStr (map (prose_line rp) (filter (\<lambda>x. inline rp x \<noteq> []) xs)))"
    "\<exists>x \<in> set xs. inline rp x \<noteq> []"
    by (rule string_list_cases) blast
  with assms(2) show ?thesis by (auto simp: item_strings_def filter_empty_conv)
qed

lemma payload_items:
  assumes "structured_summary_of rp v = Inr p"
  shows "\<forall>k \<in> set (map fst conditional_summary_fields) \<union> {''timeline'', ''attention''}.
      \<forall>t \<in> set (item_strings p k). tidy t \<and> t \<noteq> []"
    and "item_strings p ''attention'' \<noteq> []"
    and "body_line (text_of p ''synthesis'')" "body_line (''Estado atual: '' @ text_of p ''current_status'')"
proof -
  from assms obtain s c tml att de dl rel atts cls where
    p: "p = payload_of (prose_line rp s) tml (prose_line rp c) att de dl rel atts cls"
    and lists: "\<exists>x. string_list rp ''timeline'' False x = Inr tml"
      "\<exists>x. string_list rp ''attention'' True x = Inr att"
      "\<exists>x. string_list rp ''decisions'' False x = Inr de"
      "\<exists>x. string_list rp ''deadlines'' False x = Inr dl"
      "\<exists>x. string_list rp ''related_processes'' False x = Inr rel"
      "\<exists>x. string_list rp ''attachments'' False x = Inr atts"
    by (rule structured_summary_of_cases)
  show "\<forall>k \<in> set (map fst conditional_summary_fields) \<union> {''timeline'', ''attention''}.
      \<forall>t \<in> set (item_strings p k). tidy t \<and> t \<noteq> []"
    using item_strings_ok [OF lists(1) payload_get(2)] item_strings_ok [OF lists(2) payload_get(4)]
      item_strings_ok [OF lists(3) payload_get(5)] item_strings_ok [OF lists(4) payload_get(6)]
      item_strings_ok [OF lists(5) payload_get(7)] item_strings_ok [OF lists(6) payload_get(8)]
    unfolding p by (simp add: conditional_summary_fields_def)
  show "item_strings p ''attention'' \<noteq> []"
    using item_strings_nonempty [OF _ payload_get(4)] lists(2) unfolding p by blast
  show "body_line (text_of p ''synthesis'')"
    using tidy_prose [OF tidy_prose_line [of rp s]]
    by (simp add: p text_of_def payload_get prose_line_def prose_text_markers)
  show "body_line (''Estado atual: '' @ text_of p ''current_status'')"
    using tidy_no_newline [OF tidy_prose_line [of rp c]]
    by (simp add: p text_of_def payload_get body_line_def newline_def)
qed

lemma inline_no_newline: "newline \<notin> set (inline rp v)"
  by (rule tidy_no_newline [OF tidy_inline])

lemma template_lines:
  "body_line []" "body_line ''<ProcessHeader className=\"process-header\">''" "body_line ''</ProcessHeader>''"
  "body_line not_informed" "body_line no_movement"
  "newline \<notin> set movements_title" "newline \<notin> set attention_title"
  "\<forall>kt \<in> set header_fields. newline \<notin> set (snd kt)"
  "\<forall>kt \<in> set conditional_summary_fields. newline \<notin> set (snd kt)"
  by (simp_all add: body_line_def newline_def not_informed_def no_movement_def movements_title_def
      attention_title_def header_fields_def conditional_summary_fields_def c_cedilla_def o_tilde_def
      a_tilde_def)

lemma body_bullets: "\<forall>t \<in> set ts. newline \<notin> set t \<Longrightarrow> \<forall>l \<in> set (map bullet ts). body_line l"
  by (simp add: body_bullet)

text \<open>The parts of the text between two headings hold body lines only.\<close>

lemma rendered_parts:
  assumes "structured_summary_of rp v = Inr p" "\<not> prefix ''#'' (inline rp (obj_get ctx ''class_name''))"
  obtains a b c e f where "rendered_lines rp p ctx = ''# Resumo do processo'' # a @ [heading2 ''Partes'']
      @ b @ [heading2 ''Classe''] @ c @ [heading2 ''Assuntos''] @ e @ [heading2 movements_title]
      @ f @ [heading2 attention_title] @ map bullet (item_strings p ''attention'')
      @ concat (map (\<lambda>(k, title). append_list title (item_strings p k)) conditional_summary_fields)"
    "\<forall>l \<in> set a \<union> set b \<union> set c \<union> set e \<union> set f. body_line l"
proof -
  let ?cls = "inline rp (obj_get ctx ''class_name'')"
  let ?header = "as_obj (obj_get ctx ''header'')"
  let ?parties = "filter (\<lambda>n. n \<noteq> []) (map (\<lambda>item. inline rp
      (py_or (obj_get (as_obj item) ''name'') (obj_get (as_obj item) ''nome'')))
      (filter is_obj (as_arr (obj_get ctx ''parties''))))"
  let ?a = "[[], ''<ProcessHeader className=\"process-header\">'',
      bullet (''Processo: '' @ inline rp (obj_get ctx ''code''))]
      @ labelled_line rp ''Classe'' (obj_get ctx ''class_name'')
      @ labelled_line rp ''Tribunal'' (obj_get ctx ''court'')
      @ concat (map (\<lambda>(k, label). labelled_line rp label (obj_get ?header k)) header_fields)
      @ [''</ProcessHeader>'', [], text_of p ''synthesis'', []]"
  let ?b = "(if ?parties = [] then [not_informed] else map bullet ?parties) @ [[]]"
  let ?c = "[if ?cls = [] then not_informed else ?cls, []]"
  let ?e = "(if subject_names rp ctx = [] then [not_informed] else map bullet (subject_names rp ctx)) @ [[]]"
  let ?f = "(if item_strings p ''timeline'' = [] then [no_movement]
      else map bullet (item_strings p ''timeline'')) @ [[], ''Estado atual: '' @ text_of p ''current_status'', []]"
  note items = payload_items [OF assms(1)]
  have "body_line (bullet (''Processo: '' @ inline rp (obj_get ctx ''code'')))"
    using inline_no_newline [of rp "obj_get ctx ''code''"] by (intro body_bullet) (simp add: newline_def)
  moreover have "\<forall>l \<in> set (labelled_line rp ''Classe'' (obj_get ctx ''class_name'')
      @ labelled_line rp ''Tribunal'' (obj_get ctx ''court'')). body_line l"
    by (auto dest!: body_labelled [rotated] simp: newline_def)
  moreover have "\<forall>l \<in> set (concat (map (\<lambda>(k, label). labelled_line rp label (obj_get ?header k))
      header_fields)). body_line l"
    using template_lines(8) by clarsimp (metis body_labelled snd_conv)
  ultimately have a: "\<forall>l \<in> set ?a. body_line l"
    using template_lines(1-3) items(3) by (simp del: set_concat add: ball_Un)
  have b: "\<forall>l \<in> set ?b. body_line l" and e: "\<forall>l \<in> set ?e. body_line l"
    using template_lines(1,4) by (auto simp: subject_names_def body_bullet inline_no_newline)
  have c: "\<forall>l \<in> set ?c. body_line l"
    using template_lines(1,4) assms(2) inline_no_newline by (simp add: body_line_def)
  have f: "\<forall>l \<in> set ?f. body_line l"
    using items(1,4) template_lines(1,5) by (auto simp: body_bullet tidy_no_newline)
  show thesis
    by (rule that [of ?a ?b ?c ?e ?f], simp only: rendered_lines_def Let_def append.simps append_assoc)
      (use a b c e f in blast)
qed

lemma headings_of_list:
  assumes "\<forall>t \<in> set ts. newline \<notin> set t"
  shows "filter (prefix ''#'') (append_list title ts) = (if ts = [] then [] else [heading2 title])"
  using filter_headings [OF body_bullets [OF assms]]
  by (simp add: append_list_def heading2_def)

lemma rendered_lines_ok:
  assumes "structured_summary_of rp v = Inr p" "\<not> prefix ''#'' (inline rp (obj_get ctx ''class_name''))"
  shows "(\<forall>l \<in> set (rendered_lines rp p ctx). newline \<notin> set l) \<and> rendered_lines rp p ctx \<noteq> [] \<and>
    hd (rendered_lines rp p ctx) = ''# Resumo do processo'' \<and> solid (last (rendered_lines rp p ctx)) \<and>
    filter (prefix ''#'') (rendered_lines rp p ctx) =
    [''# Resumo do processo'', ''## Partes'', ''## Classe'', ''## Assuntos'',
     ''## '' @ movements_title, ''## '' @ attention_title]
    @ map (\<lambda>kt. ''## '' @ snd kt)
        (filter (\<lambda>kt. item_strings p (fst kt) \<noteq> []) conditional_summary_fields)"
proof -
  from assms obtain a b c e f where ls: "rendered_lines rp p ctx = ''# Resumo do processo'' # a
      @ [heading2 ''Partes'']
      @ b @ [heading2 ''Classe''] @ c @ [heading2 ''Assuntos''] @ e @ [heading2 movements_title]
      @ f @ [heading2 attention_title] @ map bullet (item_strings p ''attention'')
      @ concat (map (\<lambda>(k, title). append_list title (item_strings p k)) conditional_summary_fields)"
    and body: "\<forall>l \<in> set a \<union> set b \<union> set c \<union> set e \<union> set f. body_line l"
    by (rule rendered_parts)
  note items = payload_items [OF assms(1)]
  let ?cond = "concat (map (\<lambda>(k, title). append_list title (item_strings p k)) conditional_summary_fields)"
  have tidy: "\<forall>t \<in> set (item_strings p k). tidy t \<and> t \<noteq> []"
    if "k \<in> set (map fst conditional_summary_fields) \<union> {''timeline'', ''attention''}" for k
    using items(1) that by blast
  have att: "\<forall>l \<in> set (map bullet (item_strings p ''attention'')). body_line l \<and> solid l"
    using tidy [of "''attention''"] by (simp add: body_bullet tidy_no_newline solid_bullet)
  have cond: "newline \<notin> set l" if "l \<in> set ?cond" for l
  proof -
    from that obtain k title where k: "(k, title) \<in> set conditional_summary_fields"
        "l \<in> set (append_list title (item_strings p k))" by auto
    then have "newline \<notin> set title" "\<forall>t \<in> set (item_strings p k). newline \<notin> set t"
      using template_lines(9) tidy [of k] tidy_no_newline by force+
    with k(2) show ?thesis
      by (auto simp: append_list_def heading2_def bullet_def newline_def split: if_splits)
  qed
  have last_cond: "solid (last ?cond)" if "?cond \<noteq> []"
    using that
  proof (rule last_concat [rotated])
    fix l assume "l \<in> set (map (\<lambda>(k, title). append_list title (item_strings p k)) conditional_summary_fields)"
      "l \<noteq> []"
    then obtain k title where k: "k \<in> set (map fst conditional_summary_fields)"
        "l = append_list title (item_strings p k)" by force
    then have "item_strings p k \<noteq> []" using \<open>l \<noteq> []\<close> by (auto simp: append_list_def)
    with k tidy [of k] show "solid (last l)"
      by (simp add: append_list_def last_map solid_bullet)
  qed
  have "filter (prefix ''#'') ?cond = map (\<lambda>kt. ''## '' @ snd kt)
      (filter (\<lambda>kt. item_strings p (fst kt) \<noteq> []) conditional_summary_fields)"
  proof -
    have "filter (prefix ''#'') (append_list title (item_strings p k)) =
        (if item_strings p k = [] then [] else [heading2 title])"
      if "k \<in> set (map fst conditional_summary_fields)" for k title
      using that tidy [of k] tidy_no_newline by (intro headings_of_list) blast
    then show ?thesis by (simp add: conditional_summary_fields_def heading2_def)
  qed
  moreover have "filter (prefix ''#'') x = []" if "x \<in> {a, b, c, e, f}" for x
    using that body by (intro filter_headings) auto
  ultimately have "filter (prefix ''#'') (rendered_lines rp p ctx) =
    [''# Resumo do processo'', ''## Partes'', ''## Classe'', ''## Assuntos'',
     ''## '' @ movements_title, ''## '' @ attention_title]
    @ map (\<lambda>kt. ''## '' @ snd kt)
        (filter (\<lambda>kt. item_strings p (fst kt) \<noteq> []) conditional_summary_fields)"
    using att filter_headings [of "map bullet (item_strings p ''attention'')"]
    by (simp add: ls heading2_def)
  moreover have "\<forall>l \<in> set (rendered_lines rp p ctx). newline \<notin> set l"
  proof -
    have "\<forall>l \<in> set ?cond. newline \<notin> set l" using cond by blast
    with body att template_lines(6,7) show ?thesis
      by (simp add: ls body_line_def heading2_def ball_Un del: set_concat) (simp add: newline_def)
  qed
  moreover have "solid (last (rendered_lines rp p ctx))"
  proof (cases "?cond = []")
    case True
    with att items(2) show ?thesis by (simp add: ls last_map)
  next
    case False
    with last_cond items(2) show ?thesis by (simp add: ls del: concat_eq_Nil_conv)
  qed
  ultimately show ?thesis by (simp add: ls)
qed

lemma document_matches_iff:
  assumes "structured_summary_of rp v = Inr p" "room_for_guards p"
  shows "structured_summary_document_matches_process rp (structured_summary_document rp p ctx) ctx \<longleftrightarrow> context_ok ctx"
proof -
  have doc: "structured_summary_document rp p ctx =
      JObj [(''schema_version'', JInt 2), (''process'', structured_summary_process rp ctx), (''summary'', JObj p)]"
    unfolding structured_summary_document_def document_summary [OF assms(1)] ..
  show ?thesis
    using structured_process_ok [of rp ctx] canonical_summary_payload [OF assms]
    by (simp add: doc structured_summary_document_matches_process_def structured_summary_document_is_canonical_def
        document_keys_def obj_get_def)
qed

lemmas document_matches = document_matches_iff [THEN iffD2]

subsection \<open>Properties\<close>


definition sample_summary :: json where
  "sample_summary = JObj (payload_of ''s'' (JArr [JStr ''t'']) ''c'' (JArr [JStr ''a'']) (JArr [])
     (JArr [JStr ''d'']) (JArr []) (JArr [])
     (JArr [JObj [(''claim_id'', JStr ''synthesis''), (''text'', JStr ''s''),
                  (''evidence_refs'', JArr [JStr ''p-0''])]]))"

definition no_repr :: "json \<Rightarrow> string" where
  "no_repr v = []"

lemma sample_parsed:
  "parse_structured_summary no_repr (\<lambda>_. Some sample_summary) [] = Inr (as_obj sample_summary)"
  by code_simp

lemma sample_room: "room_for_guards (as_obj sample_summary)"
  by code_simp


text \<open>Heading safety. Whatever text the provider returns, the lines of the rendered summary
  that start a heading are exactly those of the template: the title, the five fixed sections and
  the conditional sections that have items. The class name of the process is the one text the
  template prints unguarded, hence the hypothesis on it.\<close>

theorem rendered_headings:
  assumes "parse_structured_summary rp parse raw = Inr p"
    and "\<not> prefix ''#'' (inline rp (obj_get ctx ''class_name''))"
  shows "filter (prefix ''#'') (split_char newline (render_structured_summary rp p ctx)) =
    [''# Resumo do processo'', ''## Partes'', ''## Classe'', ''## Assuntos'',
     ''## '' @ movements_title, ''## '' @ attention_title]
    @ map (\<lambda>kt. ''## '' @ snd kt)
        (filter (\<lambda>kt. item_strings p (fst kt) \<noteq> []) conditional_summary_fields)"
proof -
  from assms(1) obtain v where v: "structured_summary_of rp v = Inr p"
    by (auto simp: parse_structured_summary_def split: sum.splits)
  note items = payload_items [OF v]
  let ?ls = "rendered_lines rp p ctx"
  have lines: "\<forall>l \<in> set ?ls. newline \<notin> set l" and ends: "?ls \<noteq> []" "hd ?ls = ''# Resumo do processo''"
    "solid (last ?ls)" and heads: "filter (prefix ''#'') ?ls =
    [''# Resumo do processo'', ''## Partes'', ''## Classe'', ''## Assuntos'',
     ''## '' @ movements_title, ''## '' @ attention_title]
    @ map (\<lambda>kt. ''## '' @ snd kt)
        (filter (\<lambda>kt. item_strings p (fst kt) \<noteq> []) conditional_summary_fields)"
    using rendered_lines_ok [OF v assms(2)] by blast+
  have "split_char newline (join [newline] ?ls) = ?ls"
    using lines ends(1) by (intro split_char_join) auto
  moreover have "strip (join [newline] ?ls) = join [newline] ?ls"
    using join_ends [of ?ls "[newline]"] ends by (simp add: strip_ends solid_def isspace_c_def)
  ultimately show ?thesis by (simp add: render_structured_summary_def heads)
qed

theorem rendered_headings_witness:
  "filter (prefix ''#'') (split_char newline (render_structured_summary no_repr
      (as_obj sample_summary) [(''code'', JStr ''1'')])) =
    [''# Resumo do processo'', ''## Partes'', ''## Classe'', ''## Assuntos'',
     ''## '' @ movements_title, ''## '' @ attention_title, ''## Prazos em curso'']"
proof -
  have "\<not> prefix ''#'' (inline no_repr (obj_get [(''code'', JStr ''1'')] ''class_name''))" by code_simp
  moreover have "map (\<lambda>kt. ''## '' @ snd kt)
      (filter (\<lambda>kt. item_strings (as_obj sample_summary) (fst kt) \<noteq> []) conditional_summary_fields) =
      [''## Prazos em curso'']" by code_simp
  ultimately show ?thesis using rendered_headings [OF sample_parsed] by simp
qed

text \<open>Without the hypothesis a class name forges a section heading.\<close>

theorem class_name_forges_heading:
  "filter (prefix ''## Partes'') (split_char newline (render_structured_summary no_repr
      (as_obj sample_summary) [(''class_name'', JStr ''## Partes'')])) = [''## Partes'', ''## Partes'']"
  by code_simp

text \<open>
  The proviso of the round trip is needed: a synthesis of 6000 characters that starts with a
  marker is accepted, and the document built from it is refused.
\<close>

lemma tidy_no_space: "\<forall>c \<in> set s. \<not> isspace_c c \<Longrightarrow> tidy s"
proof -
  assume a: "\<forall>c \<in> set s. \<not> isspace_c c"
  then have "successively (\<lambda>a b. \<not> (isspace_c a \<and> isspace_c b)) s"
    by (induction s) (auto simp: successively_Cons)
  with a show "tidy s" by (auto simp: tidy_def spaced_def intro: strip_id)
qed

definition long_text :: string where
  "long_text = CHR ''#'' # replicate 5999 (CHR ''a'')"

definition long_summary :: "string \<Rightarrow> json" where
  "long_summary s = JObj (payload_of s (JArr []) ''c'' (JArr [JStr ''a'']) (JArr []) (JArr []) (JArr [])
     (JArr []) (JArr []))"

theorem guard_overflows_limit:
  "\<exists>p. structured_summary_of no_repr (long_summary long_text) = Inr p \<and>
    \<not> structured_summary_document_is_canonical no_repr (structured_summary_document no_repr p ctx)"
proof -
  let ?g = "word_joiner # long_text"
  have tidy: "tidy long_text"
    by (rule tidy_no_space) (auto simp: long_text_def isspace_c_def)
  have prose: "prose_line no_repr (JStr long_text) = ?g"
    by (simp add: prose_line_def inline_text_tidy [OF tidy] prose_text_def)
      (simp add: marker_start_def long_text_def)
  have len: "length long_text = 6000" by (simp add: long_text_def)
  have c: "inline_text ''c'' = ''c''" "inline_text ''a'' = ''a''"
    by (simp_all add: inline_text_tidy tidy_no_space isspace_c_def)
  have prose_c: "prose_line no_repr (JStr ''c'') = ''c''" "prose_line no_repr (JStr ''a'') = ''a''"
    by (simp_all add: prose_line_def c prose_text_def marker_start_def)
  let ?p = "payload_of ?g (JArr []) ''c'' (JArr [JStr ''a'']) (JArr []) (JArr []) (JArr []) (JArr []) (JArr [])"
  have keys: "map fst (as_obj (long_summary s)) = required_keys" for s
    by (simp add: long_summary_def payload_keys)
  have run: "structured_summary_of no_repr (long_summary s) =
      (if length s \<le> 6000 then Inr (payload_of (prose_line no_repr (JStr s)) (JArr []) ''c''
         (JArr [JStr ''a'']) (JArr []) (JArr []) (JArr []) (JArr []) (JArr []))
       else Inl (ValueError (''structured summary synthesis is too long'')))"
    if "inline_text s \<noteq> []" for s
    using that unfolding structured_summary_of_def Let_def keys
    by (simp add: long_summary_def payload_get c prose_c required_keys_def parse_prose_def
        max_synthesis_chars_def max_status_chars_def string_list_def max_items_def max_item_chars_def
        parse_claims_def)
      (simp add: payload_of_def)
  have "long_text \<noteq> []" by (simp add: long_text_def)
  then have acc: "structured_summary_of no_repr (long_summary long_text) = Inr ?p"
    using run [of long_text] len by (simp add: prose inline_text_tidy [OF tidy])
  have "inline_text ?g = ?g"
    using inline_prose_line [of no_repr "JStr long_text"] by (simp add: prose)
  then have "structured_summary_of no_repr (long_summary ?g) =
      Inl (ValueError (''structured summary synthesis is too long''))"
    using run [of ?g] len by simp
  then have "\<not> canonical_summary no_repr (long_summary ?g)"
    by (auto simp: canonical_summary_def reload_strict_def split: sum.splits
        dest: strict_sound(1))
  moreover have "obj_get (as_obj (structured_summary_document no_repr ?p ctx)) ''summary'' = long_summary ?g"
    unfolding structured_summary_document_def document_summary [OF acc]
    by (simp add: obj_get_def long_summary_def)
  ultimately show ?thesis
    using acc by (auto simp: structured_summary_document_is_canonical_def)
qed

end
