(* ===== verification/Uuid.thy ===== *)
theory Uuid
  imports Schema
begin

text \<open>
  \<open>UUID(text)\<close> and \<open>str(uuid)\<close> of Python's \<open>uuid\<close> module, the form in which job payloads carry
  identifiers, and their round trip.
\<close>

definition hex_val :: "char \<Rightarrow> nat option" where
  "hex_val c = (if 48 \<le> ord c \<and> ord c \<le> 57 then Some (ord c - 48)
     else if 97 \<le> ord c \<and> ord c \<le> 102 then Some (ord c - 87)
     else if 65 \<le> ord c \<and> ord c \<le> 70 then Some (ord c - 55) else None)"

definition hex_char :: "nat \<Rightarrow> char" where
  "hex_char d = char_of (if d < 10 then 48 + d else 87 + d)"

text \<open>The digits of \<open>int(text, 16)\<close>, single underscores between them allowed.\<close>

fun hex_body :: "nat \<Rightarrow> string \<Rightarrow> nat option" where
  "hex_body acc [] = None"
| "hex_body acc [c] = map_option (\<lambda>d. acc * 16 + d) (hex_val c)"
| "hex_body acc (c # d # cs) = (case hex_val c of
       None \<Rightarrow> None
     | Some v \<Rightarrow> (if d = CHR ''_'' then hex_body (acc * 16 + v) cs
                 else hex_body (acc * 16 + v) (d # cs)))"

definition hex_prefixed :: "string \<Rightarrow> string" where
  "hex_prefixed s = (if prefix ''0x_'' s \<or> prefix ''0X_'' s then drop 3 s
     else if prefix ''0x'' s \<or> prefix ''0X'' s then drop 2 s else s)"

definition py_int16 :: "string \<Rightarrow> int option" where
  "py_int16 s = (case strip s of
       [] \<Rightarrow> None
     | c # cs \<Rightarrow> (if c = CHR ''-'' then map_option (\<lambda>n. - int n) (hex_body 0 (hex_prefixed cs))
                  else if c = CHR ''+'' then map_option int (hex_body 0 (hex_prefixed cs))
                  else map_option int (hex_body 0 (hex_prefixed (c # cs)))))"

text \<open>\<open>s.replace(sub, "")\<close> for a non-empty \<open>sub\<close>.\<close>

fun remove_all :: "string \<Rightarrow> string \<Rightarrow> string" where
  "remove_all sub [] = []"
| "remove_all sub (c # cs) =
     (if prefix sub (c # cs) then remove_all sub (drop (length sub - 1) cs)
      else c # remove_all sub cs)"

definition strip_braces :: "string \<Rightarrow> string" where
  "strip_braces s = rstrip_by (\<lambda>c. c = CHR ''{'' \<or> c = CHR ''}'')
     (lstrip_by (\<lambda>c. c = CHR ''{'' \<or> c = CHR ''}'') s)"

definition parse_uuid :: "string \<Rightarrow> uuid option" where
  "parse_uuid s =
     (let h = filter (\<lambda>c. c \<noteq> CHR ''-'') (strip_braces (remove_all ''uuid:'' (remove_all ''urn:'' s)))
      in if length h \<noteq> 32 then None
         else case py_int16 h of
             None \<Rightarrow> None
           | Some i \<Rightarrow> (if 0 \<le> i \<and> i < 2 ^ 128 then Some (nat i) else None))"

fun hex_pad :: "nat \<Rightarrow> nat \<Rightarrow> string" where
  "hex_pad 0 n = []"
| "hex_pad (Suc k) n = hex_pad k (n div 16) @ [hex_char (n mod 16)]"

definition uuid_hex :: "uuid \<Rightarrow> string" where
  "uuid_hex u = hex_pad 32 u"

definition uuid_str :: "uuid \<Rightarrow> string" where
  "uuid_str u = (let h = uuid_hex u in
     take 8 h @ ''-'' @ take 4 (drop 8 h) @ ''-'' @ take 4 (drop 12 h) @ ''-''
     @ take 4 (drop 16 h) @ ''-'' @ drop 20 h)"

subsection \<open>Facts\<close>

definition hexdigit :: "char \<Rightarrow> bool" where
  "hexdigit c \<longleftrightarrow> (48 \<le> ord c \<and> ord c \<le> 57) \<or> (97 \<le> ord c \<and> ord c \<le> 102)"

lemma hexdigit_char: "d < 16 \<Longrightarrow> hexdigit (hex_char d)"
  by (auto simp: hexdigit_def hex_char_def ord_char_of)

lemma hex_val_char: "d < 16 \<Longrightarrow> hex_val (hex_char d) = Some d"
  by (auto simp: hex_val_def hex_char_def ord_char_of)

lemma hexdigit_not:
  assumes "hexdigit c"
  shows "\<not> isspace_c c" "c \<noteq> CHR ''-''" "c \<noteq> CHR ''+''" "c \<noteq> CHR ''_''" "c \<noteq> CHR ''{''"
    "c \<noteq> CHR ''}''" "c \<noteq> CHR ''u''" "c \<noteq> CHR ''x''" "c \<noteq> CHR ''X''" "c \<noteq> CHR ''r''"
  using assms by (auto simp: hexdigit_def isspace_c_def)

lemma length_hex_pad [simp]: "length (hex_pad k n) = k"
  by (induction k arbitrary: n) simp_all

lemma hex_pad_digits: "\<forall>c \<in> set (hex_pad k n). hexdigit c"
  by (induction k arbitrary: n) (auto simp: hexdigit_char)

lemma hex_val_hexdigit: "hexdigit c \<Longrightarrow> \<exists>v. hex_val c = Some v"
  by (auto simp: hexdigit_def hex_val_def)

lemma hex_body_append:
  assumes "\<forall>c \<in> set xs. hexdigit c" "hex_val d = Some v" "hexdigit d"
  shows "hex_body acc (xs @ [d]) =
    (if xs = [] then Some (acc * 16 + v) else map_option (\<lambda>n. n * 16 + v) (hex_body acc xs))"
  using assms
proof (induction acc xs rule: hex_body.induct)
  case (3 acc c e cs)
  then obtain w where "hex_val c = Some w" using hex_val_hexdigit by fastforce
  with 3 show ?case by (auto dest: hexdigit_not(4))
next
  case (2 acc c)
  then obtain w where "hex_val c = Some w" using hex_val_hexdigit by fastforce
  with 2 show ?case by (auto dest: hexdigit_not(4))
qed simp

lemma hex_body_pad: "n < 16 ^ Suc k \<Longrightarrow> hex_body 0 (hex_pad (Suc k) n) = Some n"
proof (induction k arbitrary: n)
  case 0
  then show ?case by (simp add: hex_val_char)
next
  case (Suc k)
  have "n div 16 < 16 ^ Suc k" using Suc.prems by (simp add: less_mult_imp_div_less)
  from Suc.IH [OF this] show ?case
    using hex_body_append [of "hex_pad (Suc k) (n div 16)" "hex_char (n mod 16)" "n mod 16" 0]
      hex_pad_digits [of "Suc k" "n div 16"]
    by (simp add: hex_val_char hexdigit_char del: hex_body.simps)
qed

lemma remove_all_absent: "sub \<noteq> [] \<Longrightarrow> hd sub \<notin> set s \<Longrightarrow> remove_all sub s = s"
proof (induction sub s rule: remove_all.induct)
  case (2 sub c cs)
  then have "\<not> prefix sub (c # cs)" by (cases sub) auto
  with 2 show ?case by auto
qed simp

lemma stripped_id: "\<forall>c \<in> set s. \<not> p c \<Longrightarrow> rstrip_by p (lstrip_by p s) = s"
proof -
  assume a: "\<forall>c \<in> set s. \<not> p c"
  have "dropWhile p s = s" using a by (intro dropWhile_id) (cases s, auto)
  moreover have "dropWhile p (rev s) = rev s"
    using a by (intro dropWhile_id) (cases s rule: rev_cases, auto)
  ultimately show ?thesis by (simp add: rstrip_by_def lstrip_by_def)
qed

lemma py_int16_pad:
  assumes "n < 16 ^ Suc (Suc k)"
  shows "py_int16 (hex_pad (Suc (Suc k)) n) = Some (int n)"
proof -
  let ?h = "hex_pad (Suc (Suc k)) n"
  have digits: "\<forall>c \<in> set ?h. hexdigit c" by (rule hex_pad_digits)
  obtain c d cs where h: "?h = c # d # cs"
    using length_hex_pad [of "Suc (Suc k)" n]
    by (metis length_Suc_conv)
  have "strip ?h = ?h" using digits by (intro strip_id) (auto dest: hexdigit_not)
  moreover have "hex_prefixed ?h = ?h" "c \<noteq> CHR ''-''" "c \<noteq> CHR ''+''"
    using digits unfolding h by (auto simp: hex_prefixed_def dest: hexdigit_not)
  moreover have "hex_body 0 ?h = Some n" using assms by (rule hex_body_pad)
  ultimately show ?thesis by (simp add: py_int16_def h del: hex_pad.simps hex_body.simps)
qed

lemma set_uuid_str: "set (uuid_str u) \<subseteq> set (uuid_hex u) \<union> {CHR ''-''}"
  by (auto simp: uuid_str_def Let_def dest: in_set_takeD in_set_dropD)

lemma filter_uuid_str: "filter (\<lambda>c. c \<noteq> CHR ''-'') (uuid_str u) = uuid_hex u"
proof -
  have "\<forall>c \<in> set (uuid_hex u). c \<noteq> CHR ''-''"
    using hex_pad_digits [of 32 u] by (auto simp: uuid_hex_def dest: hexdigit_not)
  then have f: "filter (\<lambda>c. c \<noteq> CHR ''-'') xs = xs" if "set xs \<subseteq> set (uuid_hex u)" for xs
    using that by (auto simp: filter_id_conv)
  let ?h = "uuid_hex u"
  have parts: "?h = take 8 ?h @ drop 8 ?h" "drop 8 ?h = take 4 (drop 8 ?h) @ drop 12 ?h"
    "drop 12 ?h = take 4 (drop 12 ?h) @ drop 16 ?h" "drop 16 ?h = take 4 (drop 16 ?h) @ drop 20 ?h"
    using append_take_drop_id [of 4 "drop 8 ?h"] append_take_drop_id [of 4 "drop 12 ?h"]
      append_take_drop_id [of 4 "drop 16 ?h"]
    by (simp_all add: drop_drop)
  have sub: "set (take n (drop m ?h)) \<subseteq> set ?h" "set (drop m ?h) \<subseteq> set ?h"
      "set (take n ?h) \<subseteq> set ?h" for n m
    by (auto dest: in_set_takeD in_set_dropD)
  have "filter (\<lambda>c. c \<noteq> CHR ''-'') (uuid_str u) =
      take 8 ?h @ take 4 (drop 8 ?h) @ take 4 (drop 12 ?h) @ take 4 (drop 16 ?h) @ drop 20 ?h"
    by (simp add: uuid_str_def Let_def f [OF sub(1)] f [OF sub(2)] f [OF sub(3)])
  then show ?thesis using parts by simp
qed

lemma parse_uuid_str:
  assumes "u < 2 ^ 128"
  shows "parse_uuid (uuid_str u) = Some u"
proof -
  have d: "\<forall>c \<in> set (uuid_str u). hexdigit c \<or> c = CHR ''-''"
    using set_uuid_str [of u] hex_pad_digits [of 32 u] by (auto simp: uuid_hex_def)
  then have nou: "CHR ''u'' \<notin> set (uuid_str u)" by (auto dest: hexdigit_not)
  have br: "strip_braces (uuid_str u) = uuid_str u"
    unfolding strip_braces_def using d by (intro stripped_id) (auto dest: hexdigit_not)
  have "(16::nat) ^ Suc (Suc 30) = 2 ^ 128" by simp
  then have "py_int16 (hex_pad (Suc (Suc 30)) u) = Some (int u)"
    using assms by (intro py_int16_pad) simp
  then have p: "py_int16 (uuid_hex u) = Some (int u)"
    by (simp add: uuid_hex_def numeral_eq_Suc del: hex_pad.simps)
  have "int u < 2 ^ 128" using assms by (metis of_nat_less_iff of_nat_numeral of_nat_power)
  then show ?thesis
    using nou p by (simp add: parse_uuid_def remove_all_absent br filter_uuid_str Let_def uuid_hex_def)
qed

end
