(* ===== verification/ClaimEvidence.thy ===== *)
theory ClaimEvidence
  imports SummaryOutput Uuid "HOL-Library.List_Lexorder"
begin

text \<open>
  \<open>app/claim_evidence.py\<close> and \<open>app/summary_policy.py\<close>: which material claims a summary makes,
  the validation of their provenance, the gate that decides whether a stored summary may be
  published, and the storage of the evidence. Texts sort by code points.
\<close>

subsection \<open>The patterns\<close>

definition evidence_ref_ok :: "string \<Rightarrow> bool" where
  "evidence_ref_ok s = (case s of
     k # h # ds \<Rightarrow> k \<in> set ''pma'' \<and> h = CHR ''-'' \<and> length ds = 32 \<and> list_all hexdigit ds
   | _ \<Rightarrow> False)"

definition sha256_ok :: "string \<Rightarrow> bool" where
  "sha256_ok s \<longleftrightarrow> length s = 64 \<and> list_all hexdigit s"

definition material_list_fields :: "string list" where
  "material_list_fields = [''timeline'', ''attention'', ''decisions'', ''deadlines'',
     ''related_processes'', ''attachments'']"

definition claim_id_ok :: "string \<Rightarrow> bool" where
  "claim_id_ok s = (s = ''synthesis'' \<or> s = ''current_status'' \<or>
     (case partition_char (CHR '':'') s of (h, found, t) \<Rightarrow>
        found \<and> h \<in> set material_list_fields \<and> t \<noteq> [] \<and> list_all isdecimal_c t))"

subsection \<open>Claims and sources\<close>

datatype source_kind = ProcessSource | MovementSource | AttachmentSource

fun kind_name :: "source_kind \<Rightarrow> string" where
  "kind_name ProcessSource = ''process''"
| "kind_name MovementSource = ''movement''"
| "kind_name AttachmentSource = ''attachment''"

record evidence_source =
  es_ref :: string
  es_kind :: source_kind
  es_step :: "uuid option"
  es_chunk :: "uuid option"

record material_claim =
  mc_id :: string
  mc_class :: string
  mc_text :: string
  mc_refs :: "string list"

definition process_evidence_ref :: "uuid \<Rightarrow> string" where
  "process_evidence_ref u = ''p-'' @ uuid_hex u"

definition movement_evidence_ref :: "uuid \<Rightarrow> string" where
  "movement_evidence_ref u = ''m-'' @ uuid_hex u"

definition attachment_evidence_ref :: "uuid \<Rightarrow> string" where
  "attachment_evidence_ref u = ''a-'' @ uuid_hex u"

text \<open>None is the \<open>KeyError\<close> of an unknown prefix.\<close>

definition claim_class :: "string \<Rightarrow> string option" where
  "claim_class cid = map_of
     [(''synthesis'', ''synthesis''), (''current_status'', ''current_status''),
      (''timeline'', ''procedural_event''), (''attention'', ''attention''),
      (''decisions'', ''decision''), (''deadlines'', ''deadline''),
      (''related_processes'', ''related_process''), (''attachments'', ''attachment'')]
     (fst (partition_char (CHR '':'') cid))"

definition text_or_empty :: "(json \<Rightarrow> string) \<Rightarrow> json \<Rightarrow> string" where
  "text_or_empty rp v = py_str rp (py_or v (JStr []))"

definition field_claims :: "(json \<Rightarrow> string) \<Rightarrow> (string \<times> json) list \<Rightarrow> string \<Rightarrow> (string \<times> string) list" where
  "field_claims rp payload field = map (\<lambda>(i, item). (field @ CHR '':'' # show_nat i, py_str rp item))
     (enumerate 0 (as_arr (obj_get payload field)))"

definition expected_material_claims ::
  "(json \<Rightarrow> string) \<Rightarrow> (string \<times> json) list \<Rightarrow> (string \<times> string) list" where
  "expected_material_claims rp payload =
     [(''synthesis'', text_or_empty rp (obj_get payload ''synthesis'')),
      (''current_status'', text_or_empty rp (obj_get payload ''current_status''))]
     @ concat (map (field_claims rp payload) material_list_fields)"

definition build_material_claims ::
  "(json \<Rightarrow> string) \<Rightarrow> (string \<times> json) list \<Rightarrow> string list \<Rightarrow> json list" where
  "build_material_claims rp payload refs = map (\<lambda>(cid, txt).
     JObj [(''claim_id'', JStr cid), (''text'', JStr txt), (''evidence_refs'', JArr (map JStr refs))])
     (expected_material_claims rp payload)"

text \<open>
  The generation context: the process reference, the selected movements and the attachment
  chunks. A source is no dict, or a dict with its reference and, when it is a \<open>UUID\<close>, its row.
\<close>

datatype source_item = NotADict | SourceItem json "uuid option"

record evidence_context =
  ec_process_ref :: json
  ec_selected :: "source_item list"
  ec_attachments :: "source_item list"

fun put_source :: "string \<Rightarrow> evidence_source \<Rightarrow> (string \<times> evidence_source) list \<Rightarrow>
    (string \<times> evidence_source) list" where
  "put_source r s [] = [(r, s)]"
| "put_source r s ((r', s') # c) = (if r = r' then (r, s) # c else (r', s') # put_source r s c)"

definition movement_source :: "string \<Rightarrow> uuid \<Rightarrow> evidence_source" where
  "movement_source ref u = \<lparr>es_ref = ref, es_kind = MovementSource, es_step = Some u, es_chunk = None\<rparr>"

definition attachment_source :: "string \<Rightarrow> uuid \<Rightarrow> evidence_source" where
  "attachment_source ref u = \<lparr>es_ref = ref, es_kind = AttachmentSource, es_step = None, es_chunk = Some u\<rparr>"

definition add_item :: "(json \<Rightarrow> string) \<Rightarrow> (string \<Rightarrow> uuid \<Rightarrow> evidence_source) \<Rightarrow> source_item \<Rightarrow>
    (string \<times> evidence_source) list \<Rightarrow> (string \<times> evidence_source) list" where
  "add_item rp mk item catalog = (case item of
     NotADict \<Rightarrow> catalog
   | SourceItem ref row \<Rightarrow> (let r = text_or_empty rp ref in
       case row of Some u \<Rightarrow> (if evidence_ref_ok r then put_source r (mk r u) catalog else catalog)
       | None \<Rightarrow> catalog))"

definition evidence_catalog ::
  "(json \<Rightarrow> string) \<Rightarrow> evidence_context \<Rightarrow> (string \<times> evidence_source) list" where
  "evidence_catalog rp ctx =
     (let process_ref = text_or_empty rp (ec_process_ref ctx);
          c0 = (if evidence_ref_ok process_ref
                then [(process_ref, \<lparr>es_ref = process_ref, es_kind = ProcessSource, es_step = None,
                         es_chunk = None\<rparr>)] else [])
      in fold (add_item rp attachment_source) (ec_attachments ctx)
           (fold (add_item rp movement_source) (ec_selected ctx) c0))"

subsection \<open>validate\_claim\_evidence\<close>

definition or_empty_mark :: "string \<Rightarrow> string" where
  "or_empty_mark s = (if s = [] then ''<empty>'' else s)"

fun check_refs :: "(json \<Rightarrow> string) \<Rightarrow> string \<Rightarrow> string list \<Rightarrow> string list \<Rightarrow> json list \<Rightarrow>
    string list \<times> string list" where
  "check_refs rp cid known seen [] = ([], [])"
| "check_refs rp cid known seen (v # vs) =
     (let ref = strip (text_or_empty rp v) in
      if ref \<in> set seen then
        (case check_refs rp cid known seen vs of (rendered, errors) \<Rightarrow>
           (rendered, (''duplicate evidence ref for '' @ cid @ '': '' @ ref) # errors))
      else case check_refs rp cid known (ref # seen) vs of (rendered, errors) \<Rightarrow>
        (if \<not> evidence_ref_ok ref
         then (rendered, (''invalid evidence ref for '' @ cid @ '': '' @ or_empty_mark ref) # errors)
         else if ref \<notin> set known
         then (rendered, (''unknown evidence ref for '' @ cid @ '': '' @ ref) # errors)
         else (ref # rendered, errors)))"

text \<open>One claim object: the error lines, and the material claim when it is kept.\<close>

definition check_claim :: "(json \<Rightarrow> string) \<Rightarrow> (string \<times> string) list \<Rightarrow> string list \<Rightarrow> string \<Rightarrow>
    (string \<times> json) list \<Rightarrow> material_claim \<times> string list" where
  "check_claim rp expected known cid raw =
     (let txt = strip (text_or_empty rp (obj_get raw ''text''));
          refs = obj_get raw ''evidence_refs'';
          text_errors = (if map_of expected cid = Some txt then []
             else [''claim text does not match structured field: '' @ cid]);
          missing = \<not> is_arr refs \<or> as_arr refs = [];
          ref_errors = (if missing then [''material claim lacks evidence_refs: '' @ cid] else []);
          checked = check_refs rp cid known [] (if missing then [] else as_arr refs)
      in (\<lparr>mc_id = cid, mc_class = (case claim_class cid of None \<Rightarrow> [] | Some k \<Rightarrow> k), mc_text = txt,
            mc_refs = fst checked\<rparr>,
          text_errors @ ref_errors @ snd checked))"

fun check_claims :: "(json \<Rightarrow> string) \<Rightarrow> (string \<times> string) list \<Rightarrow> string list \<Rightarrow> string list \<Rightarrow>
    json list \<Rightarrow> material_claim list \<times> string list \<times> string list" where
  "check_claims rp expected known seen [] = ([], [], seen)"
| "check_claims rp expected known seen (x # xs) =
     (let cid = strip (text_or_empty rp (obj_get (as_obj x) ''claim_id'')) in
      if \<not> is_obj x then
        (case check_claims rp expected known seen xs of (cs, es, sn) \<Rightarrow>
           (cs, ''structured summary claim must be an object'' # es, sn))
      else if \<not> claim_id_ok cid then
        (case check_claims rp expected known seen xs of (cs, es, sn) \<Rightarrow>
           (cs, (''invalid claim_id: '' @ or_empty_mark cid) # es, sn))
      else if cid \<in> set seen then
        (case check_claims rp expected known seen xs of (cs, es, sn) \<Rightarrow>
           (cs, (''duplicate claim_id: '' @ cid) # es, sn))
      else case check_claims rp expected known (cid # seen) xs of (cs, es, sn) \<Rightarrow>
        (if cid \<notin> set (map fst expected)
         then (cs, (''unexpected material claim: '' @ cid) # es, sn)
         else case check_claim rp expected known cid (as_obj x) of (c, errs) \<Rightarrow> (c # cs, errs @ es, sn)))"

definition validate_claim_evidence :: "(json \<Rightarrow> string) \<Rightarrow> (string \<times> json) list \<Rightarrow> evidence_context \<Rightarrow>
    material_claim list \<times> string list" where
  "validate_claim_evidence rp payload ctx =
     (let expected = expected_material_claims rp payload; raw = obj_get payload ''claims'' in
      if \<not> is_arr raw then ([], [''structured summary must include claims''])
      else case check_claims rp expected (map fst (evidence_catalog rp ctx)) [] (as_arr raw) of
        (cs, es, seen) \<Rightarrow> (cs, es @ map (\<lambda>cid. ''missing material claim provenance: '' @ cid)
          (filter (\<lambda>cid. cid \<notin> set seen) (map fst expected))))"

subsection \<open>Completeness of stored evidence\<close>

definition refs_ok :: "json \<Rightarrow> bool" where
  "refs_ok refs \<longleftrightarrow> is_arr refs \<and> as_arr refs \<noteq> [] \<and>
     list_all (\<lambda>r. case r of JStr s \<Rightarrow> evidence_ref_ok s | _ \<Rightarrow> False) (as_arr refs) \<and>
     distinct (as_arr refs)"

fun declared_refs :: "(json \<Rightarrow> string) \<Rightarrow> (string \<times> string) list \<Rightarrow> (string \<times> json list) list \<Rightarrow>
    json list \<Rightarrow> (string \<times> json list) list option" where
  "declared_refs rp expected declared [] = Some declared"
| "declared_refs rp expected declared (x # xs) =
     (let cid = strip (text_or_empty rp (obj_get (as_obj x) ''claim_id''));
          txt = strip (text_or_empty rp (obj_get (as_obj x) ''text''));
          refs = obj_get (as_obj x) ''evidence_refs''
      in if \<not> is_obj x \<or> cid \<notin> set (map fst expected) \<or> cid \<in> set (map fst declared)
            \<or> map_of expected cid \<noteq> Some txt \<or> \<not> refs_ok refs
         then None
         else declared_refs rp expected (declared @ [(cid, as_arr refs)]) xs)"

definition declared_claim_evidence_refs :: "(json \<Rightarrow> string) \<Rightarrow> (string \<times> json) list \<Rightarrow>
    (string \<times> string) list \<Rightarrow> (string \<times> json list) list option" where
  "declared_claim_evidence_refs rp summary expected =
     (if \<not> is_arr (obj_get summary ''claims'') then None
      else case declared_refs rp expected [] (as_arr (obj_get summary ''claims'')) of
        None \<Rightarrow> None
      | Some d \<Rightarrow> (if set (map fst d) = set (map fst expected) then Some d else None))"

fun observed_ok :: "(json \<Rightarrow> string) \<Rightarrow> (string \<times> string) list \<Rightarrow> (string \<times> json list) list \<Rightarrow>
    string list \<Rightarrow> json list \<Rightarrow> string list option" where
  "observed_ok rp expected declared seen [] = Some seen"
| "observed_ok rp expected declared seen (x # xs) =
     (let cid = strip (text_or_empty rp (obj_get (as_obj x) ''claim_id''));
          txt = strip (text_or_empty rp (obj_get (as_obj x) ''text''));
          refs = obj_get (as_obj x) ''evidence_refs'';
          cls = obj_get (as_obj x) ''claim_class''
      in if \<not> is_obj x \<or> cid \<notin> set (map fst expected) \<or> cid \<in> set seen
            \<or> map_of expected cid \<noteq> Some txt
            \<or> (cls \<noteq> JNull \<and> claim_class cid \<noteq> Some (py_str rp cls))
            \<or> \<not> refs_ok refs \<or> map_of declared cid \<noteq> Some (as_arr refs)
         then None
         else observed_ok rp expected declared (cid # seen) xs)"

definition claim_evidence_is_complete :: "(json \<Rightarrow> string) \<Rightarrow> json \<Rightarrow> json list \<Rightarrow> bool" where
  "claim_evidence_is_complete rp structured evidence \<longleftrightarrow>
     structured_summary_document_is_canonical rp structured \<and>
     (let summary = as_obj (obj_get (as_obj structured) ''summary'');
          expected = expected_material_claims rp summary
      in case declared_claim_evidence_refs rp summary expected of
           None \<Rightarrow> False
         | Some declared \<Rightarrow> (case observed_ok rp expected declared [] evidence of
             None \<Rightarrow> False
           | Some seen \<Rightarrow> set seen = set (map fst expected)))"

subsection \<open>Verification metadata\<close>

definition verification_statuses :: "string list" where
  "verification_statuses = [''supported'', ''contradicted'', ''insufficient'', ''not_evaluated'']"

definition is_evaluated_status :: "json \<Rightarrow> bool" where
  "is_evaluated_status v \<longleftrightarrow> v \<noteq> JNull \<and> v \<noteq> JStr ''not_evaluated''"

definition valid_verification_reason :: "json \<Rightarrow> bool" where
  "valid_verification_reason v = (case v of JStr s \<Rightarrow> strip s \<noteq> [] | _ \<Rightarrow> False)"

definition valid_excerpt_sha256 :: "json \<Rightarrow> bool" where
  "valid_excerpt_sha256 v = (case v of JStr s \<Rightarrow> sha256_ok s | _ \<Rightarrow> False)"

text \<open>Whether the status is acceptable; a list or a dict has no hash (\<open>TypeError\<close>).\<close>

definition status_acceptable :: "json \<Rightarrow> bool res" where
  "status_acceptable v =
     (if v = JNull then Inr True
      else if \<not> hashable v then Inl (TypeError ''unhashable type'')
      else Inr (\<exists>s \<in> set verification_statuses. v = JStr s \<and> s \<noteq> ''contradicted''))"

definition claim_verification_metadata :: "(string \<times> json) list \<Rightarrow> (bool \<times> bool) res" where
  "claim_verification_metadata item =
     (let status = obj_get item ''verification_status'' in
      res_bind (status_acceptable status) (\<lambda>ok.
        if \<not> ok then Inr (False, False)
        else if is_evaluated_status status
          \<and> \<not> valid_verification_reason (obj_get item ''verification_reason'')
        then Inr (False, False)
        else Inr (True, is_evaluated_status status)))"

definition source_verification_metadata :: "(string \<times> json) list \<Rightarrow> (bool \<times> bool) res" where
  "source_verification_metadata source =
     (let status = obj_get source ''verification_status'';
          digest = obj_get source ''evidence_excerpt_sha256''
      in res_bind (status_acceptable status) (\<lambda>ok.
        if \<not> ok then Inr (False, False)
        else if digest \<noteq> JNull \<and> \<not> valid_excerpt_sha256 digest then Inr (False, False)
        else if is_evaluated_status status \<and>
          (\<not> valid_verification_reason (obj_get source ''verification_reason'') \<or>
           \<not> valid_excerpt_sha256 digest)
        then Inr (False, False)
        else Inr (True, is_evaluated_status status)))"

subsection \<open>The publication gate\<close>

text \<open>The loop over the sources of a claim: None is a refusal, Some tells whether an evaluated one was seen.\<close>

fun sources_ok :: "json list \<Rightarrow> bool \<Rightarrow> bool option res" where
  "sources_ok [] seen = Inr (Some seen)"
| "sources_ok (s # ss) seen =
     (if \<not> is_obj s then Inr None
      else res_bind (source_verification_metadata (as_obj s)) (\<lambda>(valid, evaluated).
        if \<not> valid then Inr None else sources_ok ss (seen \<or> evaluated)))"

fun items_publishable :: "json list \<Rightarrow> bool res" where
  "items_publishable [] = Inr True"
| "items_publishable (x # xs) =
     res_bind (claim_verification_metadata (as_obj x)) (\<lambda>(valid, evaluated).
       let sources = obj_get (as_obj x) ''sources'' in
       if \<not> valid then Inr False
       else if sources = JNull then (if evaluated then Inr False else items_publishable xs)
       else if \<not> is_arr sources then Inr False
       else res_bind (sources_ok (as_arr sources) False) (\<lambda>r.
         case r of None \<Rightarrow> Inr False
         | Some seen \<Rightarrow> (if evaluated \<and> \<not> seen then Inr False else items_publishable xs)))"

text \<open>The string-keyed part of a decoded object, the only one later lookups can see.\<close>

definition obj_of_pydict :: "pydict \<Rightarrow> (string \<times> json) list" where
  "obj_of_pydict d = concat (map (\<lambda>(k, v). case k of JStr s \<Rightarrow> [(s, v)] | _ \<Rightarrow> []) d)"

text \<open>A decoded document; one with a key that is no string has not the keys of a document.\<close>

definition document_of_pydict :: "pydict \<Rightarrow> json" where
  "document_of_pydict d = (if list_all (\<lambda>kv. is_str (fst kv)) d then JObj (obj_of_pydict d) else JNull)"

definition publication_context ::
  "(string \<Rightarrow> json option) \<Rightarrow> process_row \<Rightarrow> (string \<times> json) list res" where
  "publication_context parse p =
     res_bind (decode_json_object parse ''summary process header'' (p_header p)) (\<lambda>header.
     res_bind (decode_json_list parse ''summary process parties'' (p_parties p)) (\<lambda>parties.
       Inr [(''code'', JStr (p_code p)), (''class_name'', p_class p), (''court'', p_court p),
            (''header'', JObj (obj_of_pydict header)), (''parties'', JArr parties)]))"

definition claim_evidence_is_publishable :: "(json \<Rightarrow> string) \<Rightarrow> (string \<Rightarrow> json option) \<Rightarrow> json \<Rightarrow>
    json list \<Rightarrow> process_row \<Rightarrow> bool res" where
  "claim_evidence_is_publishable rp parse structured evidence p =
     (case publication_context parse p of
        Inl _ \<Rightarrow> Inr False
      | Inr ctx \<Rightarrow>
          (if \<not> claim_evidence_is_complete rp structured evidence then Inr False
           else if \<not> structured_summary_document_matches_process rp structured ctx then Inr False
           else items_publishable evidence))"

subsection \<open>Facts about validation\<close>

lemma check_refs_ok:
  "check_refs rp cid known seen vs = (r, []) \<Longrightarrow>
     distinct r \<and> set r \<inter> set seen = {} \<and> length r = length vs \<and>
     (\<forall>x \<in> set r. evidence_ref_ok x \<and> x \<in> set known)"
proof (induction rp cid known seen vs arbitrary: r rule: check_refs.induct)
  case (2 rp cid known seen v vs)
  let ?ref = "strip (text_or_empty rp v)"
  from "2.prems" obtain r' where r': "?ref \<notin> set seen" "evidence_ref_ok ?ref" "?ref \<in> set known"
      "check_refs rp cid known (?ref # seen) vs = (r', [])" "r = ?ref # r'"
    by (auto simp: Let_def split: if_splits prod.splits)
  from "2.IH"(2) [OF refl r'(1) r'(4)] r' show ?case by auto
qed simp

definition claim_sound :: "(string \<times> string) list \<Rightarrow> string list \<Rightarrow> material_claim \<Rightarrow> bool" where
  "claim_sound expected known c \<longleftrightarrow>
     map_of expected (mc_id c) = Some (mc_text c) \<and> mc_refs c \<noteq> [] \<and> distinct (mc_refs c) \<and>
     (\<forall>r \<in> set (mc_refs c). evidence_ref_ok r \<and> r \<in> set known) \<and>
     claim_class (mc_id c) = Some (mc_class c)"

lemma claim_class_ok: "claim_id_ok cid \<Longrightarrow> \<exists>k. claim_class cid = Some k"
  by (auto simp: claim_id_ok_def claim_class_def material_list_fields_def split: prod.splits)

lemma check_claim_sound:
  assumes "check_claim rp expected known cid raw = (c, [])" "claim_id_ok cid"
  shows "claim_sound expected known c \<and> mc_id c = cid"
proof -
  let ?refs = "as_arr (obj_get raw ''evidence_refs'')"
  from assms(1) have c: "map_of expected cid = Some (mc_text c)" "?refs \<noteq> []" "mc_id c = cid"
      "check_refs rp cid known [] ?refs = (mc_refs c, [])"
      "mc_class c = (case claim_class cid of None \<Rightarrow> [] | Some k \<Rightarrow> k)"
    by (auto simp: check_claim_def Let_def prod_eq_iff split: if_splits)
  with check_refs_ok [OF c(4)] claim_class_ok [OF assms(2)] show ?thesis
    by (auto simp: claim_sound_def)
qed

lemma check_claims_sound:
  "check_claims rp expected known seen xs = (cs, [], sn) \<Longrightarrow>
     set sn = set seen \<union> mc_id ` set cs \<and> distinct (map mc_id cs) \<and>
     (\<forall>c \<in> set cs. mc_id c \<notin> set seen \<and> claim_sound expected known c)"
proof (induction rp expected known seen xs arbitrary: cs rule: check_claims.induct)
  case (2 rp expected known seen x xs)
  let ?cid = "strip (text_or_empty rp (obj_get (as_obj x) ''claim_id''))"
  from "2.prems" obtain c cs' where c: "is_obj x" "claim_id_ok ?cid" "?cid \<notin> set seen"
      "check_claims rp expected known (?cid # seen) xs = (cs', [], sn)"
      "check_claim rp expected known ?cid (as_obj x) = (c, [])" "cs = c # cs'"
    by (auto simp: Let_def split: if_splits prod.splits)
  note sound = check_claim_sound [OF c(5,2)]
  have "set sn = set (?cid # seen) \<union> mc_id ` set cs' \<and> distinct (map mc_id cs') \<and>
     (\<forall>c \<in> set cs'. mc_id c \<notin> set (?cid # seen) \<and> claim_sound expected known c)"
    using "2.IH"(4) c by (simp add: Let_def)
  with sound c(3) show ?case by (auto simp: c(6))
qed simp

lemma evidence_ref_no_space: "evidence_ref_ok r \<Longrightarrow> strip r = r \<and> r \<noteq> []"
proof -
  assume ok: "evidence_ref_ok r"
  then have "\<forall>c \<in> set r. \<not> isspace_c c"
    by (auto simp: evidence_ref_ok_def list_all_iff isspace_c_def hexdigit_def split: list.splits)
  then show ?thesis using ok by (auto simp: evidence_ref_ok_def intro: strip_id)
qed

lemma check_refs_known:
  assumes "\<forall>r \<in> set refs. evidence_ref_ok r \<and> r \<in> set known" "distinct refs" "set refs \<inter> set seen = {}"
  shows "check_refs rp cid known seen (map JStr refs) = (refs, [])"
  using assms
proof (induction refs arbitrary: seen)
  case (Cons r refs)
  have "strip (text_or_empty rp (JStr r)) = r"
    using Cons.prems(1) evidence_ref_no_space [of r] by (simp add: text_or_empty_def py_or_def)
  moreover have "check_refs rp cid known (r # seen) (map JStr refs) = (refs, [])"
    using Cons.prems by (intro Cons.IH) auto
  ultimately show ?case using Cons.prems by (simp add: Let_def)
qed simp

subsection \<open>The expected claims\<close>

lemma show_nat_decimals: "list_all isdecimal_c (show_nat n)"
  using show_nat_decimal by (auto simp: list_all_iff)

lemma show_nat_inj: "show_nat a = show_nat b \<longleftrightarrow> a = b"
  by (metis digits_value_show_nat)

lemma partition_field:
  "CHR '':'' \<notin> set h \<Longrightarrow> partition_char (CHR '':'') (h @ CHR '':'' # t) = (h, True, t)"
  by (induction h) auto

lemma field_no_colon: "f \<in> set material_list_fields \<Longrightarrow> CHR '':'' \<notin> set f"
  by (auto simp: material_list_fields_def)

lemma field_id_ok:
  "f \<in> set material_list_fields \<Longrightarrow> claim_id_ok (f @ CHR '':'' # show_nat i)"
  by (auto simp: claim_id_ok_def partition_field field_no_colon show_nat_decimals)

lemma expected_ids_ok:
  "(cid, txt) \<in> set (expected_material_claims rp payload) \<Longrightarrow> claim_id_ok cid"
  by (auto simp: expected_material_claims_def field_claims_def field_id_ok)
    (auto simp: claim_id_ok_def)

lemma claim_id_stripped: "claim_id_ok cid \<Longrightarrow> strip cid = cid \<and> cid \<noteq> []"
proof -
  assume ok: "claim_id_ok cid"
  then have "cid \<noteq> []" by (auto simp: claim_id_ok_def)
  moreover have "\<forall>c \<in> set cid. \<not> isspace_c c"
  proof (cases "cid = ''synthesis'' \<or> cid = ''current_status''")
    case True
    then show ?thesis by (auto simp: isspace_c_def)
  next
    case False
    with ok obtain h t where h: "partition_char (CHR '':'') cid = (h, True, t)"
        "h \<in> set material_list_fields" "list_all isdecimal_c t"
      by (auto simp: claim_id_ok_def split: prod.splits)
    then have "cid = h @ CHR '':'' # t" using partition_char_decompose [of "CHR '':''" cid h True t] by simp
    moreover have "\<forall>c \<in> set h. \<not> isspace_c c"
      using h(2) by (auto simp: material_list_fields_def isspace_c_def)
    moreover have "\<forall>c \<in> set t. \<not> isspace_c c"
      using h(3) isdecimal_not_space by (auto simp: list_all_iff)
    ultimately show ?thesis by (auto simp: isspace_c_def)
  qed
  ultimately show ?thesis using strip_id by blast
qed

lemma field_ids_inj:
  assumes "f @ CHR '':'' # show_nat i = g @ CHR '':'' # show_nat j"
    "f \<in> set material_list_fields" "g \<in> set material_list_fields"
  shows "f = g \<and> i = j"
  using arg_cong [OF assms(1), of "partition_char (CHR '':'')"] assms(2,3)
  by (simp add: partition_field field_no_colon show_nat_inj)

lemma fst_field_claims:
  "map fst (field_claims rp payload f) =
     map (\<lambda>i. f @ CHR '':'' # show_nat i) [0..<length (as_arr (obj_get payload f))]"
  by (rule nth_equalityI) (simp_all add: field_claims_def nth_enumerate_eq)

lemma distinct_field_claims:
  assumes "f \<in> set material_list_fields"
  shows "distinct (map fst (field_claims rp payload f))"
  using field_ids_inj [of f _ f] assms
  by (auto simp: fst_field_claims distinct_map inj_on_def)

lemma distinct_expected: "distinct (map fst (expected_material_claims rp payload))"
proof -
  have "distinct (concat (map (\<lambda>f. map fst (field_claims rp payload f)) fs))"
    if "set fs \<subseteq> set material_list_fields" "distinct fs" for fs
    using that
  proof (induction fs)
    case (Cons f fs)
    have "set (map fst (field_claims rp payload f)) \<inter>
        (\<Union>g \<in> set fs. set (map fst (field_claims rp payload g))) = {}"
      using Cons.prems field_ids_inj [of f _ _ _] unfolding fst_field_claims
      by (auto simp: subset_iff)
    with Cons distinct_field_claims [of f rp payload] show ?case by simp
  qed simp
  from this [of material_list_fields]
  have dist: "distinct (map fst (concat (map (field_claims rp payload) material_list_fields)))"
    by (simp add: map_concat o_def material_list_fields_def)
  have "CHR '':'' \<in> set t" if "t \<in> fst ` set (field_claims rp payload f)" for t f
    using that by (auto simp: field_claims_def)
  then have "''synthesis'' \<notin> fst ` set (field_claims rp payload f)"
      "''current_status'' \<notin> fst ` set (field_claims rp payload f)" for f
    by fastforce+
  with dist show ?thesis
    unfolding expected_material_claims_def by (simp add: image_Un image_UN)
qed

lemma expected_ignores_claims:
  "expected_material_claims rp ((''claims'', v) # payload) = expected_material_claims rp payload"
  by (simp add: expected_material_claims_def material_list_fields_def field_claims_def obj_get_def)

lemma obj_get_append_other: "k \<noteq> k' \<Longrightarrow> obj_get (d @ [(k', v)]) k = obj_get d k"
  by (simp add: obj_get_def map_add_def split: option.split)

lemma obj_get_append_new: "k \<notin> fst ` set d \<Longrightarrow> obj_get (d @ [(k, v)]) k = v"
  by (induction d) (auto simp: obj_get_def)

lemma expected_ignores_claims_end:
  "''claims'' \<notin> fst ` set payload \<Longrightarrow>
   expected_material_claims rp (payload @ [(''claims'', v)]) = expected_material_claims rp payload \<and>
   obj_get (payload @ [(''claims'', v)]) ''claims'' = v"
  by (simp add: expected_material_claims_def material_list_fields_def field_claims_def
      obj_get_append_other obj_get_append_new)

lemma check_claims_built:
  assumes "refs \<noteq> []" "distinct refs" "\<forall>r \<in> set refs. evidence_ref_ok r \<and> r \<in> set known"
    "\<forall>(cid, tx) \<in> set ex. claim_id_ok cid \<and> strip cid = cid \<and> cid \<noteq> [] \<and> map_of expected cid = Some tx
       \<and> strip tx = tx"
    "distinct (map fst ex)" "fst ` set ex \<inter> set seen = {}"
  shows "\<exists>cs. check_claims rp expected known seen (map (\<lambda>(cid, tx).
     JObj [(''claim_id'', JStr cid), (''text'', JStr tx), (''evidence_refs'', JArr (map JStr refs))]) ex) =
     (cs, [], rev (map fst ex) @ seen) \<and> map mc_id cs = map fst ex \<and> map mc_text cs = map snd ex \<and>
     (\<forall>c \<in> set cs. mc_refs c = refs)"
  using assms(4-6)
proof (induction ex arbitrary: seen)
  case (Cons e ex)
  obtain cid tx where e: "e = (cid, tx)" by (cases e)
  with Cons.prems have ok: "claim_id_ok cid" "strip cid = cid" "cid \<noteq> []" "map_of expected cid = Some tx"
      "strip tx = tx" "cid \<notin> set seen"
    by auto
  let ?raw = "[(''claim_id'', JStr cid), (''text'', JStr tx), (''evidence_refs'', JArr (map JStr refs))]"
  have get: "obj_get ?raw ''claim_id'' = JStr cid" "obj_get ?raw ''text'' = JStr tx"
      "obj_get ?raw ''evidence_refs'' = JArr (map JStr refs)"
    by (simp_all add: obj_get_def)
  have str: "text_or_empty rp (JStr t) = t" for t by (simp add: text_or_empty_def py_or_def)
  have claim: "check_claim rp expected known cid ?raw = (\<lparr>mc_id = cid,
      mc_class = (case claim_class cid of None \<Rightarrow> [] | Some k \<Rightarrow> k), mc_text = tx, mc_refs = refs\<rparr>, [])"
    using check_refs_known [OF assms(3,2), of "[]" rp cid] ok assms(1)
    by (simp add: check_claim_def get str Let_def)
  have known: "cid \<in> set (map fst expected)" using ok(4) by (metis map_of_eq_None_iff option.distinct(1) set_map)
  have "\<exists>cs. check_claims rp expected known (cid # seen) (map (\<lambda>(cid, tx).
     JObj [(''claim_id'', JStr cid), (''text'', JStr tx), (''evidence_refs'', JArr (map JStr refs))]) ex) =
     (cs, [], rev (map fst ex) @ cid # seen) \<and> map mc_id cs = map fst ex \<and> map mc_text cs = map snd ex \<and>
     (\<forall>c \<in> set cs. mc_refs c = refs)"
    using Cons.prems e by (intro Cons.IH) auto
  then show ?case
    using claim known ok(1,2,6) by (auto simp: e get str Let_def split: prod.splits)
qed simp

subsection \<open>Facts about the gate\<close>

lemma observed_sound:
  "observed_ok rp expected declared seen xs = Some sn \<Longrightarrow>
     (\<forall>x \<in> set xs. is_obj x \<and> refs_ok (obj_get (as_obj x) ''evidence_refs'') \<and>
       map_of expected (strip (text_or_empty rp (obj_get (as_obj x) ''claim_id''))) =
         Some (strip (text_or_empty rp (obj_get (as_obj x) ''text''))) \<and>
       map_of declared (strip (text_or_empty rp (obj_get (as_obj x) ''claim_id''))) =
         Some (as_arr (obj_get (as_obj x) ''evidence_refs''))) \<and>
     set sn = set seen \<union> (\<lambda>x. strip (text_or_empty rp (obj_get (as_obj x) ''claim_id''))) ` set xs \<and>
     distinct (map (\<lambda>x. strip (text_or_empty rp (obj_get (as_obj x) ''claim_id''))) xs) \<and>
     (\<forall>x \<in> set xs. strip (text_or_empty rp (obj_get (as_obj x) ''claim_id'')) \<notin> set seen)"
proof (induction xs arbitrary: seen)
  case (Cons x xs)
  let ?cid = "strip (text_or_empty rp (obj_get (as_obj x) ''claim_id''))"
  from Cons.prems have step: "observed_ok rp expected declared (?cid # seen) xs = Some sn"
      "is_obj x" "?cid \<notin> set seen" "refs_ok (obj_get (as_obj x) ''evidence_refs'')"
      "map_of expected ?cid = Some (strip (text_or_empty rp (obj_get (as_obj x) ''text'')))"
      "map_of declared ?cid = Some (as_arr (obj_get (as_obj x) ''evidence_refs''))"
    by (auto simp: Let_def split: if_splits)
  with Cons.IH [OF step(1)] step show ?case by auto
qed simp

text \<open>The references a document declares, one entry per claim.\<close>

lemma declared_refs_sound:
  "declared_refs rp expected declared xs = Some out \<Longrightarrow>
     out = declared @ map (\<lambda>x. (strip (text_or_empty rp (obj_get (as_obj x) ''claim_id'')),
       as_arr (obj_get (as_obj x) ''evidence_refs''))) xs \<and>
     distinct (map (\<lambda>x. strip (text_or_empty rp (obj_get (as_obj x) ''claim_id''))) xs) \<and>
     (\<forall>x \<in> set xs. is_obj x \<and> refs_ok (obj_get (as_obj x) ''evidence_refs'') \<and>
       strip (text_or_empty rp (obj_get (as_obj x) ''claim_id'')) \<notin> set (map fst declared) \<and>
       map_of expected (strip (text_or_empty rp (obj_get (as_obj x) ''claim_id''))) =
         Some (strip (text_or_empty rp (obj_get (as_obj x) ''text''))))"
proof (induction xs arbitrary: declared)
  case (Cons x xs)
  let ?cid = "strip (text_or_empty rp (obj_get (as_obj x) ''claim_id''))"
  let ?refs = "as_arr (obj_get (as_obj x) ''evidence_refs'')"
  from Cons.prems have step: "declared_refs rp expected (declared @ [(?cid, ?refs)]) xs = Some out"
      "is_obj x" "?cid \<notin> set (map fst declared)" "refs_ok (obj_get (as_obj x) ''evidence_refs'')"
      "map_of expected ?cid = Some (strip (text_or_empty rp (obj_get (as_obj x) ''text'')))"
    by (auto simp: Let_def split: if_splits)
  with Cons.IH [OF step(1)] step show ?case by auto
qed simp

lemma declared_claim:
  assumes "declared_claim_evidence_refs rp summary expected = Some declared" "map_of declared cid = Some refs"
  shows "\<exists>c \<in> set (as_arr (obj_get summary ''claims'')).
    strip (text_or_empty rp (obj_get (as_obj c) ''claim_id'')) = cid \<and>
    map_of expected cid = Some (strip (text_or_empty rp (obj_get (as_obj c) ''text''))) \<and>
    obj_get (as_obj c) ''evidence_refs'' = JArr refs"
proof -
  from assms(1) have "declared_refs rp expected [] (as_arr (obj_get summary ''claims'')) = Some declared"
    by (auto simp: declared_claim_evidence_refs_def split: option.splits if_splits)
  note sound = declared_refs_sound [OF this]
  from assms(2) have "(cid, refs) \<in> set declared" by (rule map_of_SomeD)
  with sound obtain c where c: "c \<in> set (as_arr (obj_get summary ''claims''))"
      "cid = strip (text_or_empty rp (obj_get (as_obj c) ''claim_id''))"
      "refs = as_arr (obj_get (as_obj c) ''evidence_refs'')" by auto
  from sound c(1) have "is_arr (obj_get (as_obj c) ''evidence_refs'')" by (auto simp: refs_ok_def)
  then have "obj_get (as_obj c) ''evidence_refs'' = JArr refs"
    using c(3) by (cases "obj_get (as_obj c) ''evidence_refs''") simp_all
  with sound c show ?thesis by blast
qed

lemma status_not_contradicted:
  "status_acceptable v = Inr True \<Longrightarrow> v \<noteq> JStr ''contradicted''"
  by (auto simp: status_acceptable_def split: if_splits)

lemma sources_ok_sound:
  "sources_ok ss seen = Inr (Some r) \<Longrightarrow>
    (\<forall>s \<in> set ss. is_obj s \<and> obj_get (as_obj s) ''verification_status'' \<noteq> JStr ''contradicted'') \<and>
    (r \<longleftrightarrow> seen \<or> (\<exists>s \<in> set ss. is_evaluated_status (obj_get (as_obj s) ''verification_status'') \<and>
       valid_excerpt_sha256 (obj_get (as_obj s) ''evidence_excerpt_sha256'')))"
proof (induction ss seen rule: sources_ok.induct)
  case (2 s ss seen)
  from "2.prems" obtain valid evaluated where m: "is_obj s"
      "source_verification_metadata (as_obj s) = Inr (valid, evaluated)" "valid"
      "sources_ok ss (seen \<or> evaluated) = Inr (Some r)"
    by (auto split: if_splits)
  then have "obj_get (as_obj s) ''verification_status'' \<noteq> JStr ''contradicted''"
      "evaluated \<longleftrightarrow> is_evaluated_status (obj_get (as_obj s) ''verification_status'') \<and>
       valid_excerpt_sha256 (obj_get (as_obj s) ''evidence_excerpt_sha256'')"
    using status_not_contradicted [of "obj_get (as_obj s) ''verification_status''"]
    by (auto simp: source_verification_metadata_def Let_def split: if_splits)
  with "2.IH" m show ?case by auto
qed simp

definition item_cleared :: "json \<Rightarrow> bool" where
  "item_cleared x \<longleftrightarrow>
     obj_get (as_obj x) ''verification_status'' \<noteq> JStr ''contradicted'' \<and>
     (\<forall>s \<in> set (as_arr (obj_get (as_obj x) ''sources'')).
        obj_get (as_obj s) ''verification_status'' \<noteq> JStr ''contradicted'') \<and>
     (is_evaluated_status (obj_get (as_obj x) ''verification_status'') \<longrightarrow>
        (\<exists>s \<in> set (as_arr (obj_get (as_obj x) ''sources'')).
           is_evaluated_status (obj_get (as_obj s) ''verification_status'') \<and>
           valid_excerpt_sha256 (obj_get (as_obj s) ''evidence_excerpt_sha256'')))"

lemma items_publishable_sound:
  "items_publishable xs = Inr True \<Longrightarrow> \<forall>x \<in> set xs. item_cleared x"
proof (induction xs)
  case (Cons x xs)
  let ?src = "obj_get (as_obj x) ''sources''"
  from Cons.prems obtain evaluated where m:
      "claim_verification_metadata (as_obj x) = Inr (True, evaluated)"
      "items_publishable xs = Inr True"
      "(?src = JNull \<and> \<not> evaluated) \<or>
       (\<exists>seen. sources_ok (as_arr ?src) False = Inr (Some seen) \<and> (evaluated \<longrightarrow> seen))"
    by (auto simp: Let_def split: if_splits option.splits)
  then have "obj_get (as_obj x) ''verification_status'' \<noteq> JStr ''contradicted''"
      "evaluated = is_evaluated_status (obj_get (as_obj x) ''verification_status'')"
    using status_not_contradicted [of "obj_get (as_obj x) ''verification_status''"]
    by (auto simp: claim_verification_metadata_def Let_def split: if_splits)
  then have "item_cleared x"
    using m(3) sources_ok_sound by (auto simp: item_cleared_def)
  with Cons.IH m(2) show ?case by simp
qed simp

subsection \<open>app/summary\_policy.py\<close>

definition restricted_model :: string where "restricted_model = ''local-deterministic''"
definition restricted_prompt_version :: string where "restricted_prompt_version = ''secret-summary-v1''"

definition restricted_header_fields :: "(string \<times> string) list" where
  "restricted_header_fields =
     [(''instance'', ''Inst'' @ CHR 0xE2 # ''ncia''), (''area'', CHR 0xC1 # ''rea''),
      (''justice_description'', ''Justi'' @ c_cedilla # ''a''), (''county'', ''Comarca''),
      (''state'', ''Estado''), (''city'', ''Cidade'')]"

definition restricted_summary_payload :: "(string \<times> json) list" where
  "restricted_summary_payload =
     [(''synthesis'', JStr (''Os detalhes processuais foram restringidos por sigilo.'')),
      (''timeline'', JArr []),
      (''current_status'', JStr (''O contexto p'' @ CHR 0xFA # ''blico dispon'' @ CHR 0xED #
         ''vel est'' @ a_acute # '' limitado pelos dados permitidos para processo sigiloso.'')),
      (''attention'', JArr [JStr ''Processo com detalhes restringidos por sigilo.'']),
      (''decisions'', JArr []), (''deadlines'', JArr []), (''related_processes'', JArr []),
      (''attachments'', JArr []), (''claims'', JArr [])]"

definition restricted_public_header :: "(string \<times> json) list \<Rightarrow> (string \<times> json) list" where
  "restricted_public_header v = map (\<lambda>k. (k, obj_get v k))
     (filter (\<lambda>k. obj_get v k \<noteq> JNull) (map fst restricted_header_fields))"

text \<open>A missing column is no branch here: the row has every column the code reads.\<close>

definition is_restricted_local_summary ::
  "(json \<Rightarrow> string) \<Rightarrow> (string \<Rightarrow> json option) \<Rightarrow> summary_row \<Rightarrow> process_row \<Rightarrow> bool" where
  "is_restricted_local_summary rp parse row p =
     (if sm_model row \<noteq> restricted_model \<or> sm_prompt row \<noteq> restricted_prompt_version then False
      else case res_bind (decode_json_object parse ''restricted summary structured output'' (sm_structured row))
          (\<lambda>doc. res_bind (decode_json_object parse ''restricted process header'' (p_header p)) (\<lambda>header.
             Inr (document_of_pydict doc,
                  [(''code'', JStr (p_code p)), (''class_name'', p_class p), (''court'', JNull),
                   (''header'', JObj (restricted_public_header (obj_of_pydict header))),
                   (''parties'', JArr [])]))) of
        Inl _ \<Rightarrow> False
      | Inr (doc, ctx) \<Rightarrow> structured_summary_document_matches_process rp doc ctx \<and>
          py_eq (obj_get (as_obj doc) ''summary'') (JObj restricted_summary_payload))"

subsection \<open>Properties\<close>

text \<open>When the validation of the provenance reports no error, the material claims it returns
  are exactly the ones the summary makes, each once, with the very text of the structured field,
  its class, and a non-empty duplicate-free list of references that all lie in the catalog of
  the sources the generation used.\<close>

theorem validated_claims_are_sound:
  assumes "validate_claim_evidence rp payload ctx = (cs, [])"
  shows "set (map mc_id cs) = set (map fst (expected_material_claims rp payload)) \<and>
    distinct (map mc_id cs) \<and>
    (\<forall>c \<in> set cs. map_of (expected_material_claims rp payload) (mc_id c) = Some (mc_text c) \<and>
       claim_class (mc_id c) = Some (mc_class c) \<and> mc_refs c \<noteq> [] \<and> distinct (mc_refs c) \<and>
       set (mc_refs c) \<subseteq> set (map fst (evidence_catalog rp ctx)))"
proof -
  let ?ex = "expected_material_claims rp payload"
  from assms obtain sn where run: "check_claims rp ?ex (map fst (evidence_catalog rp ctx)) []
      (as_arr (obj_get payload ''claims'')) = (cs, [], sn)"
    and all: "filter (\<lambda>cid. cid \<notin> set sn) (map fst ?ex) = []"
    by (auto simp: validate_claim_evidence_def Let_def split: if_splits prod.splits)
  have sound: "set sn = mc_id ` set cs" "distinct (map mc_id cs)"
      "\<forall>c \<in> set cs. claim_sound ?ex (map fst (evidence_catalog rp ctx)) c"
    using check_claims_sound [OF run] by auto
  have "fst ` set ?ex \<subseteq> mc_id ` set cs"
    using all sound(1) by (auto simp: filter_empty_conv)
  moreover have "mc_id ` set cs \<subseteq> fst ` set ?ex"
    using sound(3) by (auto simp: claim_sound_def dest!: map_of_SomeD intro: rev_image_eqI)
  ultimately show ?thesis using sound(2,3) by (auto simp: claim_sound_def)
qed

definition sample_ref :: string where
  "sample_ref = process_evidence_ref 0"

definition sample_context :: evidence_context where
  "sample_context = \<lparr>ec_process_ref = JStr sample_ref, ec_selected = [], ec_attachments = []\<rparr>"

definition sample_claims :: "json list" where
  "sample_claims = build_material_claims no_repr [(''synthesis'', JStr ''s''), (''current_status'', JStr ''c'')]
     [sample_ref]"

theorem validated_claims_are_sound_witness:
  "set (map mc_id (fst (validate_claim_evidence no_repr [(''synthesis'', JStr ''s''),
      (''current_status'', JStr ''c''), (''claims'', JArr sample_claims)] sample_context))) =
    {''synthesis'', ''current_status''}"
proof -
  let ?p = "[(''synthesis'', JStr ''s''), (''current_status'', JStr ''c''), (''claims'', JArr sample_claims)]"
  have "snd (validate_claim_evidence no_repr ?p sample_context) = []" by code_simp
  then have v: "validate_claim_evidence no_repr ?p sample_context =
      (fst (validate_claim_evidence no_repr ?p sample_context), [])"
    by (metis prod.collapse)
  have "map fst (expected_material_claims no_repr ?p) = [''synthesis'', ''current_status'']"
    by code_simp
  then show ?thesis using validated_claims_are_sound [OF v] by simp
qed

text \<open>Round trip of the provenance. The claims that \<open>build_material_claims\<close> attaches to a
  summary with references from the catalog pass \<open>validate_claim_evidence\<close> without an error
  and come back in order, one per material claim, with those references.\<close>

theorem built_claims_validate:
  assumes "refs \<noteq> []" "distinct refs" "\<forall>r \<in> set refs. r \<in> set (map fst (evidence_catalog rp ctx)) \<and> evidence_ref_ok r"
    and "\<forall>t \<in> set (map snd (expected_material_claims rp payload)). strip t = t"
    and "''claims'' \<notin> set (map fst payload)"
  shows "\<exists>cs. validate_claim_evidence rp
      (payload @ [(''claims'', JArr (build_material_claims rp payload refs))]) ctx = (cs, []) \<and>
    map (\<lambda>c. (mc_id c, mc_text c)) cs = expected_material_claims rp payload \<and>
    (\<forall>c \<in> set cs. mc_refs c = refs)"
proof -
  let ?ex = "expected_material_claims rp payload" and ?known = "map fst (evidence_catalog rp ctx)"
  have ex: "expected_material_claims rp (payload @ [(''claims'', v)]) = ?ex"
      "obj_get (payload @ [(''claims'', v)]) ''claims'' = v" for v
    using expected_ignores_claims_end [of payload rp v] assms(5) by auto
  have "\<forall>(cid, t) \<in> set ?ex. claim_id_ok cid \<and> strip cid = cid \<and> cid \<noteq> [] \<and> map_of ?ex cid = Some t
      \<and> strip t = t"
    using assms(4) distinct_expected [of rp payload] expected_ids_ok claim_id_stripped by fastforce
  then obtain cs where cs: "check_claims rp ?ex ?known [] (build_material_claims rp payload refs) =
      (cs, [], rev (map fst ?ex) @ [])" "map mc_id cs = map fst ?ex" "map mc_text cs = map snd ?ex"
      "\<forall>c \<in> set cs. mc_refs c = refs"
    using check_claims_built [of refs ?known ?ex ?ex "[]" rp] assms(1-3) distinct_expected [of rp payload]
    unfolding build_material_claims_def by auto
  have "map (\<lambda>c. (mc_id c, mc_text c)) cs = zip (map mc_id cs) (map mc_text cs)"
    by (induction cs) simp_all
  then have "map (\<lambda>c. (mc_id c, mc_text c)) cs = ?ex"
    using cs(2,3) by (simp add: zip_map_fst_snd)
  with cs(1,4) show ?thesis
    by (simp add: validate_claim_evidence_def Let_def ex)
qed

theorem built_claims_validate_witness:
  "\<exists>cs. validate_claim_evidence no_repr ([(''synthesis'', JStr ''s''), (''current_status'', JStr ''c'')]
      @ [(''claims'', JArr (build_material_claims no_repr
           [(''synthesis'', JStr ''s''), (''current_status'', JStr ''c'')] [sample_ref]))]) sample_context = (cs, [])"
proof -
  have "\<forall>r \<in> set [sample_ref]. r \<in> set (map fst (evidence_catalog no_repr sample_context)) \<and> evidence_ref_ok r"
    by code_simp
  moreover have "\<forall>t \<in> set (map snd (expected_material_claims no_repr
      [(''synthesis'', JStr ''s''), (''current_status'', JStr ''c'')])). strip t = t"
    by code_simp
  ultimately show ?thesis
    using built_claims_validate [of "[sample_ref]" no_repr sample_context
        "[(''synthesis'', JStr ''s''), (''current_status'', JStr ''c'')]"] by auto
qed

text \<open>C2: The publication gate. A summary is published only when its document is canonical and
  was built for this very process, when the stored evidence covers exactly its material claims, each
  with the text and the very list of references its document declares for it, when no claim and no source
  is contradicted, and when every evaluated claim has an evaluated source with a digest of its excerpt.\<close>

theorem published_evidence_is_complete:
  assumes "claim_evidence_is_publishable rp parse structured evidence p = Inr True"
  shows "\<exists>ctx summary. publication_context parse p = Inr ctx \<and>
    structured_summary_document_matches_process rp structured ctx \<and>
    summary = as_obj (obj_get (as_obj structured) ''summary'') \<and>
    (let expected = expected_material_claims rp summary;
         claim_of = (\<lambda>x. strip (text_or_empty rp (obj_get (as_obj x) ''claim_id'')));
         claim_text = (\<lambda>x. strip (text_or_empty rp (obj_get (as_obj x) ''text'')))
     in set (map claim_of evidence) = set (map fst expected) \<and> distinct (map claim_of evidence) \<and>
        (\<forall>x \<in> set evidence.
           map_of expected (claim_of x) = Some (claim_text x) \<and>
           refs_ok (obj_get (as_obj x) ''evidence_refs'') \<and> item_cleared x \<and>
           (\<exists>c \<in> set (as_arr (obj_get summary ''claims'')). claim_of c = claim_of x \<and> claim_text c = claim_text x \<and>
              obj_get (as_obj c) ''evidence_refs'' = obj_get (as_obj x) ''evidence_refs'')))"
proof -
  from assms obtain ctx where ctx: "publication_context parse p = Inr ctx"
      "claim_evidence_is_complete rp structured evidence"
      "structured_summary_document_matches_process rp structured ctx"
      "items_publishable evidence = Inr True"
    by (auto simp: claim_evidence_is_publishable_def split: sum.splits if_splits)
  let ?summary = "as_obj (obj_get (as_obj structured) ''summary'')"
  let ?ex = "expected_material_claims rp ?summary"
  let ?id = "\<lambda>x. strip (text_or_empty rp (obj_get (as_obj x) ''claim_id''))"
  let ?text = "\<lambda>x. strip (text_or_empty rp (obj_get (as_obj x) ''text''))"
  from ctx(2) obtain declared sn where declared: "declared_claim_evidence_refs rp ?summary ?ex = Some declared"
      and observed: "observed_ok rp ?ex declared [] evidence = Some sn" "set sn = set (map fst ?ex)"
    by (auto simp: claim_evidence_is_complete_def Let_def split: option.splits)
  note sound = observed_sound [OF observed(1)]
  have "\<exists>c \<in> set (as_arr (obj_get ?summary ''claims'')). ?id c = ?id x \<and> ?text c = ?text x \<and>
      obj_get (as_obj c) ''evidence_refs'' = obj_get (as_obj x) ''evidence_refs''" if x: "x \<in> set evidence" for x
  proof -
    from sound x have facts: "map_of ?ex (?id x) = Some (?text x)" "refs_ok (obj_get (as_obj x) ''evidence_refs'')"
      "map_of declared (?id x) = Some (as_arr (obj_get (as_obj x) ''evidence_refs''))" by blast+
    moreover from facts(2) have "JArr (as_arr (obj_get (as_obj x) ''evidence_refs'')) = obj_get (as_obj x) ''evidence_refs''"
      by (cases "obj_get (as_obj x) ''evidence_refs''") (simp_all add: refs_ok_def)
    ultimately show ?thesis using declared_claim [OF declared facts(3)] by auto
  qed
  with observed(2) sound items_publishable_sound [OF ctx(4)] ctx(1,3) show ?thesis
    by (auto simp: Let_def)
qed

definition pub_payload :: "(string \<times> json) list" where
  "pub_payload = payload_of ''s'' (JArr []) ''c'' (JArr [JStr ''a'']) (JArr []) (JArr []) (JArr []) (JArr [])
     (JArr (build_material_claims no_repr
        [(''synthesis'', JStr ''s''), (''current_status'', JStr ''c''), (''attention'', JArr [JStr ''a''])]
        [sample_ref]))"

definition pub_process :: process_row where
  "pub_process = \<lparr>p_id = 1, p_code = ''1'', p_current = Some 2, p_court = JNull, p_class = JNull,
     p_subjects = JNull, p_parties = JNull, p_representatives = JNull, p_secrecy = 0, p_header = JNull,
     p_updated = 0\<rparr>"

definition pub_document :: json where
  "pub_document = structured_summary_document no_repr pub_payload [(''code'', JStr ''1'')]"

definition pub_evidence :: "json list" where
  "pub_evidence = as_arr (obj_get pub_payload ''claims'')"

lemma pub_claims: "build_material_claims no_repr
    [(''synthesis'', JStr ''s''), (''current_status'', JStr ''c''), (''attention'', JArr [JStr ''a''])] refs =
    map (\<lambda>(cid, tx). JObj [(''claim_id'', JStr cid), (''text'', JStr tx), (''evidence_refs'', JArr (map JStr refs))])
      [(''synthesis'', ''s''), (''current_status'', ''c''), (''attention:0'', ''a'')]"
proof -
  have "show_nat 0 = ''0''" by code_simp
  then show ?thesis
    by (simp add: build_material_claims_def expected_material_claims_def material_list_fields_def
        field_claims_def obj_get_def text_or_empty_def py_or_def)
qed

lemma pub_claims_parsed:
  assumes "inline_text ref = ref" "ref \<noteq> []"
  shows "parse_claims no_repr (JArr (build_material_claims no_repr [(''synthesis'', JStr ''s''),
      (''current_status'', JStr ''c''), (''attention'', JArr [JStr ''a''])] [ref])) =
    Inr (JArr (build_material_claims no_repr [(''synthesis'', JStr ''s''),
      (''current_status'', JStr ''c''), (''attention'', JArr [JStr ''a''])] [ref]))"
proof -
  have "inline_text t = t" if "t \<in> {''s'', ''c'', ''a'', ''synthesis'', ''current_status'', ''attention:0''}" for t
    using that by (auto intro!: inline_text_tidy tidy_no_space simp: isspace_c_def)
  then have t: "inline_text ''s'' = ''s''" "inline_text ''c'' = ''c''" "inline_text ''a'' = ''a''"
      "inline_text ''synthesis'' = ''synthesis''" "inline_text ''current_status'' = ''current_status''"
      "inline_text ''attention:0'' = ''attention:0''"
    by blast+
  have "set claim_keys = {''claim_id'', ''text'', ''evidence_refs''}" by (simp add: claim_keys_def)
  then show ?thesis
    unfolding pub_claims
    by (simp add: parse_claims_def parse_claim_def t assms obj_get_def prose_line_def prose_text_def
        marker_start_def max_synthesis_chars_def)
qed

lemma pub_matches:
  "structured_summary_document_matches_process no_repr pub_document [(''code'', JStr ''1'')]"
  unfolding pub_document_def
proof (rule document_matches)
  have "inline_text sample_ref = sample_ref"
    using evidence_ref_no_space by (intro inline_text_tidy tidy_no_space) code_simp
  moreover have "sample_ref \<noteq> []" by (simp add: sample_ref_def process_evidence_ref_def)
  ultimately have claims: "parse_claims no_repr (obj_get pub_payload ''claims'') =
      Inr (obj_get pub_payload ''claims'')"
    unfolding pub_payload_def payload_get by (rule pub_claims_parsed)
  have lists: "string_list no_repr key False (JArr []) = Inr (JArr [])" for key
    by (simp add: string_list_def)
  have "string_list no_repr ''attention'' True (JArr [JStr ''a'']) = Inr (JArr [JStr ''a''])"
    "parse_prose no_repr ''synthesis'' max_synthesis_chars (JStr ''s'') = Inr ()"
    "parse_prose no_repr ''current_status'' max_status_chars (JStr ''c'') = Inr ()"
    "prose_line no_repr (JStr ''s'') = ''s''" "prose_line no_repr (JStr ''c'') = ''c''"
    by code_simp+
  with lists claims show "structured_summary_of no_repr (JObj pub_payload) = Inr pub_payload"
    unfolding pub_payload_def payload_get by (intro structured_summary_of_payload)
  show "room_for_guards pub_payload"
    by (simp add: room_for_guards_def pub_payload_def payload_get text_of_def pub_claims
        max_synthesis_chars_def max_status_chars_def) (simp add: obj_get_def)
  show "context_ok [(''code'', JStr ''1'')]" by code_simp
qed

lemma pub_summary: "obj_get (as_obj pub_document) ''summary'' = JObj pub_payload"
  by code_simp

lemma pub_context: "publication_context (\<lambda>_. None) pub_process =
    Inr [(''code'', JStr ''1''), (''class_name'', JNull), (''court'', JNull), (''header'', JObj []),
         (''parties'', JArr [])]"
  by code_simp

lemma pub_process_doc: "structured_summary_process no_repr [(''code'', JStr ''1''), (''class_name'', JNull),
    (''court'', JNull), (''header'', JObj []), (''parties'', JArr [])] =
    structured_summary_process no_repr [(''code'', JStr ''1'')]"
  by code_simp

lemma pub_complete:
  "(case declared_claim_evidence_refs no_repr pub_payload (expected_material_claims no_repr pub_payload) of
      None \<Rightarrow> False
    | Some declared \<Rightarrow> (case observed_ok no_repr (expected_material_claims no_repr pub_payload) declared [] pub_evidence of
        None \<Rightarrow> False
      | Some seen \<Rightarrow> set seen = set (map fst (expected_material_claims no_repr pub_payload))))"
  by code_simp

lemma pub_items: "items_publishable pub_evidence = Inr True"
  by code_simp

lemma pub_sample:
  "claim_evidence_is_publishable no_repr (\<lambda>_. None) pub_document pub_evidence pub_process = Inr True"
  using pub_matches pub_complete pub_items
  by (simp add: claim_evidence_is_publishable_def pub_context claim_evidence_is_complete_def pub_summary
      structured_summary_document_matches_process_def pub_process_doc Let_def)

theorem published_evidence_is_complete_witness:
  "\<exists>ctx. publication_context (\<lambda>_. None) pub_process = Inr ctx \<and>
    structured_summary_document_matches_process no_repr pub_document ctx"
  using published_evidence_is_complete [OF pub_sample] by blast

end
