(* ===== verification/EvidenceStore.thy ===== *)
theory EvidenceStore
  imports ClaimEvidence
begin

text \<open>
  The storage half of \<open>app/claim_evidence.py\<close>: \<open>replace_summary_claim_evidence\<close> rewrites the
  claims of a summary with their sources and excerpts, \<open>load_summary_claim_evidence\<close> reads them
  back, admitting only sources the summary is known to have used. The generated row ids are an
  argument.
\<close>

subsection \<open>Verification results\<close>

record relation_verification =
  rv_ref :: string
  rv_status :: string
  rv_reason :: string
  rv_excerpt :: "string option"
  rv_sha256 :: "string option"
  rv_page_start :: "int option"
  rv_page_end :: "int option"
  rv_char_start :: "int option"
  rv_char_end :: "int option"

record claim_verification =
  cv_id :: string
  cv_class :: string
  cv_status :: string
  cv_reason :: string
  cv_fact_count :: nat
  cv_relations :: "relation_verification list"

subsection \<open>replace\_summary\_claim\_evidence\<close>

text \<open>The delete cascades from the claims to their sources and excerpts.\<close>

definition delete_claims :: "uuid \<Rightarrow> db \<Rightarrow> db" where
  "delete_claims sid d =
     (let gone = cl_id ` set (filter (\<lambda>c. cl_summary c = sid) (claim_rows d)) in
      d\<lparr>claim_rows := filter (\<lambda>c. cl_summary c \<noteq> sid) (claim_rows d),
        claim_sources := filter (\<lambda>s. cs_row s \<notin> gone) (claim_sources d),
        claim_excerpts := filter (\<lambda>x. fst x \<notin> gone) (claim_excerpts d)\<rparr>)"

definition relation_of :: "claim_verification option \<Rightarrow> string \<Rightarrow> relation_verification option" where
  "relation_of v ref = (case v of None \<Rightarrow> None
     | Some cv \<Rightarrow> map_of (rev (map (\<lambda>r. (rv_ref r, r)) (cv_relations cv))) ref)"

definition new_claim_row ::
  "uuid \<Rightarrow> uuid \<Rightarrow> uuid \<Rightarrow> uuid \<Rightarrow> claim_verification option \<Rightarrow> material_claim \<Rightarrow> material_claim_row" where
  "new_claim_row nid sid pid vid v c =
     \<lparr>cl_id = nid, cl_summary = sid, cl_process = pid, cl_version = vid, cl_claim = mc_id c,
      cl_class = mc_class c, cl_text = mc_text c,
      cl_status = (case v of None \<Rightarrow> ''not_evaluated'' | Some cv \<Rightarrow> cv_status cv),
      cl_reason = Some (case v of None \<Rightarrow> ''semantic_verifier_not_run'' | Some cv \<Rightarrow> cv_reason cv)\<rparr>"

definition new_source_row ::
  "uuid \<Rightarrow> uuid \<Rightarrow> uuid \<Rightarrow> uuid \<Rightarrow> relation_verification option \<Rightarrow> nat \<Rightarrow> string \<Rightarrow>
     evidence_source \<Rightarrow> claim_source_row" where
  "new_source_row nid sid pid vid rel i ref s =
     \<lparr>cs_row = nid, cs_summary = sid, cs_process = pid, cs_version = vid, cs_ref = ref,
      cs_kind = kind_name (es_kind s), cs_step = es_step s, cs_chunk = es_chunk s, cs_order = i,
      cs_status = (case rel of None \<Rightarrow> ''not_evaluated'' | Some r \<Rightarrow> rv_status r),
      cs_reason = Some (case rel of None \<Rightarrow> ''semantic_verifier_not_run'' | Some r \<Rightarrow> rv_reason r),
      cs_sha256 = Option.bind rel rv_sha256, cs_page_start = Option.bind rel rv_page_start,
      cs_page_end = Option.bind rel rv_page_end, cs_char_start = Option.bind rel rv_char_start,
      cs_char_end = Option.bind rel rv_char_end\<rparr>"

fun source_rows ::
  "uuid \<Rightarrow> uuid \<Rightarrow> uuid \<Rightarrow> uuid \<Rightarrow> (string \<times> evidence_source) list \<Rightarrow> claim_verification option \<Rightarrow>
     nat \<Rightarrow> string list \<Rightarrow> claim_source_row list res" where
  "source_rows nid sid pid vid catalog v i [] = Inr []"
| "source_rows nid sid pid vid catalog v i (ref # refs) =
     (case map_of catalog ref of
        None \<Rightarrow> Inl (ValueError (''claim evidence ref is not in validated catalog: '' @ ref))
      | Some s \<Rightarrow> res_bind (source_rows nid sid pid vid catalog v (Suc i) refs) (\<lambda>rest.
          Inr (new_source_row nid sid pid vid (relation_of v ref) i ref s # rest)))"

definition excerpt_rows ::
  "uuid \<Rightarrow> claim_verification option \<Rightarrow> string list \<Rightarrow> (uuid \<times> string \<times> string) list" where
  "excerpt_rows nid v refs = concat (map (\<lambda>ref. case relation_of v ref of
       None \<Rightarrow> []
     | Some r \<Rightarrow> (case rv_excerpt r of None \<Rightarrow> [] | Some e \<Rightarrow> (if e = [] then [] else [(nid, ref, e)]))) refs)"

text \<open>The CHECK constraints of \<open>sql/032_summary_claim_evidence.sql\<close> and
  \<open>sql/033_claim_semantic_verification.sql\<close>; \<open>trim\<close> of the database removes blanks only. A source order
  is a natural number and never negative.\<close>

definition sql_nonblank :: "string \<Rightarrow> bool" where
  "sql_nonblank s \<longleftrightarrow> \<not> list_all (\<lambda>c. c = CHR '' '') s"

definition stored_classes :: "string list" where
  "stored_classes = [''synthesis'', ''current_status'', ''procedural_event'', ''attention'', ''decision'', ''deadline'',
     ''related_process'', ''attachment'']"

definition claim_row_ok :: "material_claim_row \<Rightarrow> bool" where
  "claim_row_ok c \<longleftrightarrow> sql_nonblank (cl_claim c) \<and> cl_class c \<in> set stored_classes \<and> sql_nonblank (cl_text c) \<and>
     cl_status c \<in> set verification_statuses"

definition range_ok :: "int \<Rightarrow> int option \<Rightarrow> int option \<Rightarrow> bool" where
  "range_ok low a b \<longleftrightarrow> (case (a, b) of (None, None) \<Rightarrow> True | (Some x, Some y) \<Rightarrow> low \<le> x \<and> x \<le> y | _ \<Rightarrow> False)"

definition source_row_ok :: "claim_source_row \<Rightarrow> bool" where
  "source_row_ok s \<longleftrightarrow> evidence_ref_ok (cs_ref s) \<and>
     (cs_kind s = ''process'' \<and> cs_step s = None \<and> cs_chunk s = None \<or>
      cs_kind s = ''movement'' \<and> cs_step s \<noteq> None \<and> cs_chunk s = None \<or>
      cs_kind s = ''attachment'' \<and> cs_step s = None \<and> cs_chunk s \<noteq> None) \<and>
     cs_status s \<in> set verification_statuses \<and>
     (case cs_sha256 s of None \<Rightarrow> True | Some h \<Rightarrow> sha256_ok h) \<and>
     range_ok 1 (cs_page_start s) (cs_page_end s) \<and> range_ok 0 (cs_char_start s) (cs_char_end s)"

text \<open>The triggers \<open>enforce_summary_claim_scope\<close> and \<open>enforce_summary_claim_source_scope\<close>. They run before
  the constraints are checked; every one of them is a database error.\<close>

definition claim_scope_ok :: "db \<Rightarrow> material_claim_row \<Rightarrow> bool" where
  "claim_scope_ok d c \<longleftrightarrow> (case find (\<lambda>s. sm_id s = cl_summary c) (summaries d) of
     None \<Rightarrow> False | Some s \<Rightarrow> sm_process s = cl_process c \<and> sm_version s = cl_version c)"

definition used :: "'z used_row_scheme list \<Rightarrow> claim_source_row \<Rightarrow> uuid \<Rightarrow> bool" where
  "used t s u \<longleftrightarrow> (\<exists>r \<in> set t. u_summary r = cs_summary s \<and> u_process r = cs_process s \<and>
     u_version r = cs_version s \<and> u_source r = u)"

definition step_used :: "db \<Rightarrow> claim_source_row \<Rightarrow> uuid \<Rightarrow> bool" where
  "step_used d s u \<longleftrightarrow> used (used_steps d) s u \<and>
     (\<exists>p \<in> set (steps d). s_id p = u \<and> s_process p = cs_process s \<and> s_version p = cs_version s)"

definition chunk_used :: "db \<Rightarrow> claim_source_row \<Rightarrow> uuid \<Rightarrow> bool" where
  "chunk_used d s u \<longleftrightarrow> used (used_chunks d) s u \<and>
     (\<exists>c \<in> set (chunks d). ch_id c = u \<and> ch_process c = cs_process s \<and> ch_version c = cs_version s)"

definition source_scope_ok :: "db \<Rightarrow> claim_source_row \<Rightarrow> bool" where
  "source_scope_ok d s \<longleftrightarrow>
     (case find (\<lambda>c. cl_id c = cs_row s) (claim_rows d) of
        None \<Rightarrow> False
      | Some c \<Rightarrow> cl_summary c = cs_summary s \<and> cl_process c = cs_process s \<and> cl_version c = cs_version s) \<and>
     (cs_kind s = ''process'' \<longrightarrow> cs_ref s = ''p-'' @ uuid_hex (cs_version s)) \<and>
     (cs_kind s = ''movement'' \<longrightarrow> (case cs_step s of None \<Rightarrow> False | Some u \<Rightarrow> cs_ref s = ''m-'' @ uuid_hex u \<and> step_used d s u)) \<and>
     (cs_kind s = ''attachment'' \<longrightarrow> (case cs_chunk s of None \<Rightarrow> False | Some u \<Rightarrow> cs_ref s = ''a-'' @ uuid_hex u \<and> chunk_used d s u))"

text \<open>The unique constraints: one row per id, per (summary, claim) and per (claim row, reference).\<close>

definition insert_claim_row :: "material_claim_row \<Rightarrow> (db, unit) prog" where
  "insert_claim_row c = bind (query (\<lambda>d. (claim_scope_ok d c,
       \<exists>r \<in> set (claim_rows d). cl_id r = cl_id c \<or> cl_summary r = cl_summary c \<and> cl_claim r = cl_claim c))) (\<lambda>(scoped, taken).
     if \<not> scoped then raise (DatabaseError ''summary claim scope does not match summary'')
     else if \<not> claim_row_ok c then raise (DatabaseError ''check_violation'')
     else if taken then raise (DatabaseError ''unique_violation'')
     else modify (\<lambda>d. d\<lparr>claim_rows := claim_rows d @ [c]\<rparr>))"

definition insert_source_rows :: "claim_source_row list \<Rightarrow> (db, unit) prog" where
  "insert_source_rows rows = bind (query (\<lambda>d. list_all (source_scope_ok d) rows)) (\<lambda>scoped.
     if \<not> scoped then raise (DatabaseError ''claim evidence scope does not match'')
     else if \<not> list_all source_row_ok rows then raise (DatabaseError ''check_violation'')
     else if \<not> distinct (map (\<lambda>s. (cs_row s, cs_ref s)) rows) then raise (DatabaseError ''unique_violation'')
     else modify (\<lambda>d. d\<lparr>claim_sources := claim_sources d @ rows\<rparr>))"

definition insert_claim ::
  "uuid \<Rightarrow> uuid \<Rightarrow> uuid \<Rightarrow> (string \<times> evidence_source) list \<Rightarrow> (string \<times> claim_verification) list \<Rightarrow>
     uuid \<times> material_claim \<Rightarrow> (db, unit) prog" where
  "insert_claim sid pid vid catalog verification nc =
     (let nid = fst nc; c = snd nc; v = map_of verification (mc_id c) in
      then_do (insert_claim_row (new_claim_row nid sid pid vid v c))
        (bind (lift_res (source_rows nid sid pid vid catalog v 0 (mc_refs c))) (\<lambda>rows.
         then_do (insert_source_rows rows)
           (modify (\<lambda>d. d\<lparr>claim_excerpts := claim_excerpts d @ excerpt_rows nid v (mc_refs c)\<rparr>)))))"

definition replace_summary_claim_evidence ::
  "uuid \<Rightarrow> uuid \<Rightarrow> uuid \<Rightarrow> (uuid \<times> material_claim) list \<Rightarrow> (string \<times> evidence_source) list \<Rightarrow>
     (string \<times> claim_verification) list \<Rightarrow> (db, unit) prog" where
  "replace_summary_claim_evidence sid pid vid claims catalog verification =
     then_do (modify (delete_claims sid))
       (for_each (insert_claim sid pid vid catalog verification) claims)"

subsection \<open>load\_summary\_claim\_evidence\<close>

definition source_admitted :: "db \<Rightarrow> material_claim_row \<Rightarrow> claim_source_row \<Rightarrow> bool" where
  "source_admitted d c s \<longleftrightarrow> cs_summary s = cl_summary c \<and> cs_process s = cl_process c \<and>
     cs_version s = cl_version c \<and>
     (cs_kind s = ''process'' \<and> cs_step s = None \<and> cs_chunk s = None \<and>
        cs_ref s = ''p-'' @ uuid_hex (cs_version s) \<or>
      cs_kind s = ''movement'' \<and> cs_chunk s = None \<and>
        (case cs_step s of None \<Rightarrow> False
         | Some u \<Rightarrow> cs_ref s = ''m-'' @ uuid_hex u \<and> used (used_steps d) s u) \<or>
      cs_kind s = ''attachment'' \<and> cs_step s = None \<and>
        (case cs_chunk s of None \<Rightarrow> False
         | Some u \<Rightarrow> cs_ref s = ''a-'' @ uuid_hex u \<and> used (used_chunks d) s u))"

definition opt_json :: "('a \<Rightarrow> json) \<Rightarrow> 'a option \<Rightarrow> json" where
  "opt_json f v = (case v of None \<Rightarrow> JNull | Some x \<Rightarrow> f x)"

definition source_json :: "claim_source_row \<Rightarrow> json" where
  "source_json s = JObj
     [(''evidence_ref'', JStr (cs_ref s)), (''source_kind'', JStr (cs_kind s)),
      (''source_order'', JInt (int (cs_order s))), (''verification_status'', JStr (cs_status s)),
      (''verification_reason'', opt_json JStr (cs_reason s)),
      (''evidence_excerpt_sha256'', opt_json JStr (cs_sha256 s)),
      (''page_start'', opt_json JInt (cs_page_start s)), (''page_end'', opt_json JInt (cs_page_end s)),
      (''char_start'', opt_json JInt (cs_char_start s)), (''char_end'', opt_json JInt (cs_char_end s))]"

definition claim_json :: "material_claim_row \<Rightarrow> claim_source_row list \<Rightarrow> json" where
  "claim_json c ss = JObj
     [(''claim_id'', JStr (cl_claim c)), (''claim_class'', JStr (cl_class c)), (''text'', JStr (cl_text c)),
      (''evidence_refs'', JArr (map (\<lambda>s. JStr (cs_ref s)) ss)),
      (''verification_status'', JStr (cl_status c)),
      (''verification_reason'', opt_json JStr (cl_reason c)),
      (''sources'', JArr (map source_json ss))]"

text \<open>The joins with the summary and its version.\<close>

definition claim_in_scope :: "db \<Rightarrow> uuid \<Rightarrow> material_claim_row \<Rightarrow> bool" where
  "claim_in_scope d sid c \<longleftrightarrow> cl_summary c = sid \<and>
     (\<exists>s \<in> set (summaries d). sm_id s = cl_summary c \<and> sm_process s = cl_process c \<and> sm_version s = cl_version c) \<and>
     (\<exists>v \<in> set (versions d). v_id v = cl_version c \<and> v_process v = cl_process c)"

definition sources_of :: "db \<Rightarrow> material_claim_row \<Rightarrow> claim_source_row list" where
  "sources_of d c = sort_key cs_order
     (filter (\<lambda>s. cs_row s = cl_id c \<and> source_admitted d c s) (claim_sources d))"

definition claim_key :: "material_claim_row \<Rightarrow> nat list" where
  "claim_key c = map ord (cl_claim c)"

definition load_summary_claim_evidence :: "uuid \<Rightarrow> db \<Rightarrow> json list" where
  "load_summary_claim_evidence sid d = map (\<lambda>c. claim_json c (sources_of d c))
     (sort_key claim_key (filter (claim_in_scope d sid) (claim_rows d)))"

subsection \<open>What a replacement stores\<close>

lemma sort_key_sorted: "sorted (map f xs) \<Longrightarrow> sort_key f xs = xs"
proof (induction xs)
  case (Cons x xs)
  then have "insort_key f x xs = x # xs" by (cases xs) simp_all
  with Cons show ?case by simp
qed simp

lemma insort_key_map: "insort_key k (g x) (map g xs) = map g (insort_key (\<lambda>y. k (g y)) x xs)"
  by (induction xs) simp_all

lemma sort_key_map: "sort_key k (map g xs) = map g (sort_key (\<lambda>y. k (g y)) xs)"
  by (induction xs) (simp_all add: insort_key_map)

definition stored_sources where
  "stored_sources sid pid vid catalog verification nc =
     (case source_rows (fst nc) sid pid vid catalog (map_of verification (mc_id (snd nc))) 0 (mc_refs (snd nc)) of
        Inl _ \<Rightarrow> [] | Inr rows \<Rightarrow> rows)"

definition stored_claim where
  "stored_claim sid pid vid verification nc =
     new_claim_row (fst nc) sid pid vid (map_of verification (mc_id (snd nc))) (snd nc)"

lemma source_rows_total:
  "set refs \<subseteq> set (map fst catalog) \<Longrightarrow> \<exists>rows. source_rows nid sid pid vid catalog v i refs = Inr rows"
proof (induction refs arbitrary: i)
  case (Cons r refs)
  then obtain s where "map_of catalog r = Some s"
    by (metis insert_subset list.simps(15) map_of_eq_None_iff not_Some_eq set_map)
  with Cons show ?case by force
qed simp

lemma source_rows_shape:
  "source_rows nid sid pid vid catalog v i refs = Inr rows \<Longrightarrow>
     map cs_ref rows = refs \<and> map cs_order rows = [i..<i + length refs] \<and>
     (\<forall>x \<in> set rows. cs_row x = nid \<and> cs_summary x = sid \<and> cs_process x = pid \<and> cs_version x = vid \<and>
        (\<exists>s. map_of catalog (cs_ref x) = Some s \<and> cs_kind x = kind_name (es_kind s) \<and>
             cs_step x = es_step s \<and> cs_chunk x = es_chunk s))"
proof (induction refs arbitrary: i rows)
  case (Cons r refs)
  then obtain s rest where s: "map_of catalog r = Some s"
      "source_rows nid sid pid vid catalog v (Suc i) refs = Inr rest"
      "rows = new_source_row nid sid pid vid (relation_of v r) i r s # rest"
    by (auto split: option.splits)
  have "[i..<i + length (r # refs)] = i # [Suc i..<Suc i + length refs]"
    by (simp add: upt_rec)
  with Cons.IH [OF s(2)] s(1,3) show ?case
    by (simp add: new_source_row_def)
qed simp

text \<open>A catalog whose entries the load admits: each reference names its row, and the row was used.\<close>

definition catalog_entry_ok :: "db \<Rightarrow> uuid \<Rightarrow> uuid \<Rightarrow> uuid \<Rightarrow> string \<Rightarrow> evidence_source \<Rightarrow> bool" where
  "catalog_entry_ok d sid pid vid ref s \<longleftrightarrow> (case es_kind s of
       ProcessSource \<Rightarrow> es_step s = None \<and> es_chunk s = None \<and> ref = process_evidence_ref vid
     | MovementSource \<Rightarrow> es_chunk s = None \<and> (\<exists>u. es_step s = Some u \<and> ref = movement_evidence_ref u \<and>
         (\<exists>r \<in> set (used_steps d). u_summary r = sid \<and> u_process r = pid \<and> u_version r = vid \<and> u_source r = u) \<and>
         (\<exists>p \<in> set (steps d). s_id p = u \<and> s_process p = pid \<and> s_version p = vid))
     | AttachmentSource \<Rightarrow> es_step s = None \<and> (\<exists>u. es_chunk s = Some u \<and> ref = attachment_evidence_ref u \<and>
         (\<exists>r \<in> set (used_chunks d). u_summary r = sid \<and> u_process r = pid \<and> u_version r = vid \<and> u_source r = u) \<and>
         (\<exists>c \<in> set (chunks d). ch_id c = u \<and> ch_process c = pid \<and> ch_version c = vid)))"

text \<open>A verification result whose fields fit the columns.\<close>

definition relation_storable :: "relation_verification \<Rightarrow> bool" where
  "relation_storable r \<longleftrightarrow> rv_status r \<in> set verification_statuses \<and>
     (case rv_sha256 r of None \<Rightarrow> True | Some h \<Rightarrow> sha256_ok h) \<and>
     range_ok 1 (rv_page_start r) (rv_page_end r) \<and> range_ok 0 (rv_char_start r) (rv_char_end r)"

definition verification_storable :: "claim_verification \<Rightarrow> bool" where
  "verification_storable v \<longleftrightarrow> cv_status v \<in> set verification_statuses \<and> list_all relation_storable (cv_relations v)"

text \<open>A claim as the validation leaves it: its texts are not blank, its class is known, its references are
  distinct entries of the catalog.\<close>

definition claim_storable :: "db \<Rightarrow> uuid \<Rightarrow> uuid \<Rightarrow> uuid \<Rightarrow> (string \<times> evidence_source) list \<Rightarrow> material_claim \<Rightarrow> bool" where
  "claim_storable d sid pid vid catalog c \<longleftrightarrow> sql_nonblank (mc_id c) \<and> mc_class c \<in> set stored_classes \<and>
     sql_nonblank (mc_text c) \<and> distinct (mc_refs c) \<and>
     (\<forall>ref \<in> set (mc_refs c). \<exists>s. map_of catalog ref = Some s \<and> catalog_entry_ok d sid pid vid ref s)"

lemma relation_of_in: "relation_of v ref = Some r \<Longrightarrow> \<exists>cv. v = Some cv \<and> r \<in> set (cv_relations cv)"
  by (auto simp: relation_of_def split: option.splits dest!: map_of_SomeD)

lemma not_evaluated_status: "''not_evaluated'' \<in> set verification_statuses"
  by (simp add: verification_statuses_def)

lemma evidence_refs_ok: "evidence_ref_ok (process_evidence_ref u)" "evidence_ref_ok (movement_evidence_ref u)"
    "evidence_ref_ok (attachment_evidence_ref u)"
  using hex_pad_digits [of 32 u]
  by (simp_all add: evidence_ref_ok_def process_evidence_ref_def movement_evidence_ref_def attachment_evidence_ref_def
      uuid_hex_def length_hex_pad list_all_iff)

lemma source_rows_storable:
  assumes "source_rows nid sid pid vid catalog v i refs = Inr rows"
    and "\<And>cv. v = Some cv \<Longrightarrow> verification_storable cv"
    and "\<And>ref s. ref \<in> set refs \<Longrightarrow> map_of catalog ref = Some s \<Longrightarrow> catalog_entry_ok d sid pid vid ref s"
  shows "list_all source_row_ok rows"
  using assms(1,3)
proof (induction refs arbitrary: i rows)
  case (Cons r refs)
  then obtain s rest where s: "map_of catalog r = Some s"
      "source_rows nid sid pid vid catalog v (Suc i) refs = Inr rest"
      "rows = new_source_row nid sid pid vid (relation_of v r) i r s # rest"
    by (auto split: option.splits)
  have entry: "catalog_entry_ok d sid pid vid r s" using Cons.prems(2) s(1) by simp
  have relation: "relation_storable rel" if "relation_of v r = Some rel" for rel
    using relation_of_in [OF that] assms(2) by (auto simp: verification_storable_def list_all_iff)
  have "evidence_ref_ok r" using entry evidence_refs_ok by (auto simp: catalog_entry_ok_def split: source_kind.splits)
  with entry relation have "source_row_ok (new_source_row nid sid pid vid (relation_of v r) i r s)"
    by (cases "relation_of v r"; cases "es_kind s")
      (auto simp: source_row_ok_def new_source_row_def catalog_entry_ok_def relation_storable_def not_evaluated_status range_ok_def)
  with Cons.IH [OF s(2)] Cons.prems(2) s(3) show ?case by simp
qed simp

lemma insert_sources_run:
  assumes "source_rows (fst nc) sid pid vid catalog v 0 (mc_refs (snd nc)) = Inr rows"
    and "claim_storable d sid pid vid catalog (snd nc)" "\<And>cv. v = Some cv \<Longrightarrow> verification_storable cv"
    and "find (\<lambda>c. cl_id c = fst nc) (claim_rows d') = Some c" "cl_summary c = sid" "cl_process c = pid" "cl_version c = vid"
    and "used_steps d' = used_steps d" "used_chunks d' = used_chunks d" "steps d' = steps d" "chunks d' = chunks d"
  shows "insert_source_rows rows d' = (d'\<lparr>claim_sources := claim_sources d' @ rows\<rparr>, Inr ())"
proof -
  note shape = source_rows_shape [OF assms(1)]
  have entry: "catalog_entry_ok d sid pid vid ref s" if "ref \<in> set (mc_refs (snd nc))" "map_of catalog ref = Some s" for ref s
    using assms(2) that by (fastforce simp: claim_storable_def)
  have ok: "list_all source_row_ok rows"
    by (rule source_rows_storable [OF assms(1)]) (use assms(3) entry in blast)+
  have "source_scope_ok d' x" if x: "x \<in> set rows" for x
  proof -
    from shape x obtain s where s: "map_of catalog (cs_ref x) = Some s" "cs_kind x = kind_name (es_kind s)"
        "cs_step x = es_step s" "cs_chunk x = es_chunk s" and own: "cs_row x = fst nc" "cs_summary x = sid"
        "cs_process x = pid" "cs_version x = vid" by blast
    have "cs_ref x \<in> set (mc_refs (snd nc))" using shape x by (metis imageI list.set_map)
    from entry [OF this s(1)] s(2-4) own assms(4-) show ?thesis
      by (cases "es_kind s") (auto simp: source_scope_ok_def catalog_entry_ok_def step_used_def chunk_used_def used_def
          process_evidence_ref_def movement_evidence_ref_def attachment_evidence_ref_def)
  qed
  moreover have "distinct (map (\<lambda>s. (cs_row s, cs_ref s)) rows)"
  proof -
    have "distinct (map cs_ref rows)" using shape assms(2) by (simp add: claim_storable_def)
    then have "distinct (map snd (map (\<lambda>s. (cs_row s, cs_ref s)) rows))" by (simp add: o_def)
    then show ?thesis by (metis distinct_map)
  qed
  ultimately show ?thesis using ok by (simp add: insert_source_rows_def prog_simps list_all_iff)
qed

lemma find_append: "find p (xs @ ys) = (case find p xs of None \<Rightarrow> find p ys | Some x \<Rightarrow> Some x)"
  by (induction xs) auto

lemma insert_claims_run:
  assumes "\<forall>nc \<in> set claims. claim_storable d0 sid pid vid catalog (snd nc)"
    "\<forall>nc \<in> set claims. \<forall>cv. map_of verification (mc_id (snd nc)) = Some cv \<longrightarrow> verification_storable cv"
    "distinct (map (mc_id \<circ> snd) claims)" "distinct (map fst claims)"
    "\<forall>r \<in> set (claim_rows d). cl_summary r = sid \<longrightarrow> cl_claim r \<notin> (mc_id \<circ> snd) ` set claims"
    "\<forall>r \<in> set (claim_rows d). cl_id r \<notin> fst ` set claims"
    "find (\<lambda>s. sm_id s = sid) (summaries d) = Some sm" "sm_process sm = pid" "sm_version sm = vid"
    "used_steps d = used_steps d0" "used_chunks d = used_chunks d0" "steps d = steps d0" "chunks d = chunks d0"
  shows "for_each (insert_claim sid pid vid catalog verification) claims d =
    (d\<lparr>claim_rows := claim_rows d @ map (stored_claim sid pid vid verification) claims,
       claim_sources := claim_sources d @ concat (map (stored_sources sid pid vid catalog verification) claims),
       claim_excerpts := claim_excerpts d @ concat (map (\<lambda>nc. excerpt_rows (fst nc)
          (map_of verification (mc_id (snd nc))) (mc_refs (snd nc))) claims)\<rparr>, Inr ())"
  using assms
proof (induction claims arbitrary: d)
  case (Cons nc claims)
  let ?v = "map_of verification (mc_id (snd nc))" and ?c = "stored_claim sid pid vid verification nc"
  let ?d1 = "d\<lparr>claim_rows := claim_rows d @ [?c]\<rparr>"
  let ?d = "d\<lparr>claim_rows := claim_rows d @ [?c],
      claim_sources := claim_sources d @ stored_sources sid pid vid catalog verification nc,
      claim_excerpts := claim_excerpts d @ excerpt_rows (fst nc) ?v (mc_refs (snd nc))\<rparr>"
  have storable: "claim_storable d0 sid pid vid catalog (snd nc)" and verified: "\<And>cv. ?v = Some cv \<Longrightarrow> verification_storable cv"
    using Cons.prems(1,2) by simp_all
  have fields: "cl_id ?c = fst nc" "cl_summary ?c = sid" "cl_process ?c = pid" "cl_version ?c = vid" "cl_claim ?c = mc_id (snd nc)"
    by (simp_all add: stored_claim_def new_claim_row_def)
  have refs: "set (mc_refs (snd nc)) \<subseteq> set (map fst catalog)"
    using storable by (force simp: claim_storable_def dest: map_of_SomeD intro: rev_image_eqI)
  obtain rows where rows: "source_rows (fst nc) sid pid vid catalog ?v 0 (mc_refs (snd nc)) = Inr rows"
    using source_rows_total [OF refs] by blast
  have "claim_row_ok ?c" using storable verified
    by (cases ?v) (auto simp: claim_row_ok_def stored_claim_def new_claim_row_def claim_storable_def verification_storable_def
        not_evaluated_status)
  moreover have "claim_scope_ok d ?c" using Cons.prems(7-9) by (simp add: claim_scope_ok_def fields)
  moreover have "\<not> (\<exists>r \<in> set (claim_rows d). cl_id r = fst nc \<or> cl_summary r = sid \<and> cl_claim r = mc_id (snd nc))"
    using Cons.prems(5,6) by fastforce
  ultimately have row: "insert_claim_row ?c d = (?d1, Inr ())" by (simp add: insert_claim_row_def prog_simps fields)
  have "find (\<lambda>c. cl_id c = fst nc) (claim_rows d) = None" using Cons.prems(6) by (auto simp: find_None_iff)
  then have found: "find (\<lambda>c. cl_id c = fst nc) (claim_rows ?d1) = Some ?c" by (simp add: find_append fields)
  have sources: "insert_source_rows rows ?d1 = (?d1\<lparr>claim_sources := claim_sources ?d1 @ rows\<rparr>, Inr ())"
    by (rule insert_sources_run [OF rows storable verified found]) (use Cons.prems fields in simp_all)
  have one: "insert_claim sid pid vid catalog verification nc d = (?d, Inr ())"
    using row sources rows by (simp add: insert_claim_def prog_simps Let_def stored_claim_def stored_sources_def)
  have "for_each (insert_claim sid pid vid catalog verification) claims ?d =
    (?d\<lparr>claim_rows := claim_rows ?d @ map (stored_claim sid pid vid verification) claims,
       claim_sources := claim_sources ?d @ concat (map (stored_sources sid pid vid catalog verification) claims),
       claim_excerpts := claim_excerpts ?d @ concat (map (\<lambda>nc. excerpt_rows (fst nc)
          (map_of verification (mc_id (snd nc))) (mc_refs (snd nc))) claims)\<rparr>, Inr ())"
    using Cons.prems by (intro Cons.IH) (auto simp: fields)
  with one show ?case by (simp add: prog_simps)
qed (simp add: prog_simps)

lemma admitted_row:
  assumes "catalog_entry_ok d sid pid vid (cs_ref x) s" "cs_kind x = kind_name (es_kind s)"
    "cs_step x = es_step s" "cs_chunk x = es_chunk s"
    "cs_summary x = sid" "cs_process x = pid" "cs_version x = vid"
    "cl_summary c = sid" "cl_process c = pid" "cl_version c = vid"
    "used_steps d' = used_steps d" "used_chunks d' = used_chunks d"
  shows "source_admitted d' c x"
  using assms
  by (cases "es_kind s")
    (auto simp: source_admitted_def catalog_entry_ok_def used_def process_evidence_ref_def
      movement_evidence_ref_def attachment_evidence_ref_def)

lemma filter_concat_own:
  assumes "\<And>x y. x \<in> set xs \<Longrightarrow> y \<in> set (f x) \<Longrightarrow> k y = g x" "distinct (map g xs)" "x \<in> set xs"
    "\<And>y. y \<in> set (f x) \<Longrightarrow> p y"
  shows "filter (\<lambda>y. k y = g x \<and> p y) (concat (map f xs)) = f x"
  using assms
proof (induction xs)
  case (Cons z xs)
  show ?case
  proof (cases "z = x")
    case True
    with Cons.prems(2) have "g w \<noteq> g x" if "w \<in> set xs" for w using that by (metis distinct.simps(2) imageI list.set_map list.simps(9))
    then have "filter (\<lambda>y. k y = g x \<and> p y) (concat (map f xs)) = []"
      using Cons.prems(1) by (auto simp: filter_empty_conv) (metis list.set_intros(2))
    moreover have "filter (\<lambda>y. k y = g x \<and> p y) (f z) = f z"
      using Cons.prems(1,4) True by (auto simp: filter_id_conv)
    ultimately show ?thesis using True by simp
  next
    case False
    with Cons.prems(3) have x: "x \<in> set xs" by simp
    then have "g z \<noteq> g x" using Cons.prems(2) by (metis distinct.simps(2) imageI list.set_map list.simps(9))
    then have "filter (\<lambda>y. k y = g x \<and> p y) (f z) = []"
      using Cons.prems(1) [OF list.set_intros(1)] by (auto simp: filter_empty_conv)
    moreover have "filter (\<lambda>y. k y = g x \<and> p y) (concat (map f xs)) = f x"
      using Cons.prems x by (intro Cons.IH) auto
    ultimately show ?thesis by simp
  qed
qed simp

subsection \<open>Properties\<close>


definition store_db :: db where
  "store_db = empty_db\<lparr>
     summaries := [\<lparr>sm_id = 1, sm_process = 3, sm_version = 2, sm_structured = JNull, sm_model = ''m'',
       sm_prompt = ''v'', sm_passed = True, sm_errors = [], sm_markdown = [],
       sm_generation_ms = 0, sm_usage = JObj [], sm_cache_hit = None, sm_cost = None, sm_flags = [], sm_created = 0\<rparr>],
     versions := [\<lparr>v_id = 2, v_process = 3, v_source_request = None, v_cached = False, v_payload = JNull,
       v_request = None, v_response = None, v_callback = None, v_finalized = True, v_finalized_at = None,
       v_fingerprint = None, v_schema_version = None, v_equivalent = None, v_created = 0\<rparr>]\<rparr>"

definition store_claim :: material_claim where
  "store_claim = \<lparr>mc_id = ''synthesis'', mc_class = ''synthesis'', mc_text = ''s'',
     mc_refs = [process_evidence_ref 2]\<rparr>"

definition store_catalog :: "(string \<times> evidence_source) list" where
  "store_catalog = [(process_evidence_ref 2, \<lparr>es_ref = process_evidence_ref 2, es_kind = ProcessSource,
     es_step = None, es_chunk = None\<rparr>)]"

definition store_verification :: claim_verification where
  "store_verification = \<lparr>cv_id = ''synthesis'', cv_class = ''synthesis'', cv_status = ''supported'', cv_reason = ''r'',
     cv_fact_count = 1, cv_relations = [\<lparr>rv_ref = process_evidence_ref 2, rv_status = ''supported'', rv_reason = ''r'',
       rv_excerpt = None, rv_sha256 = None, rv_page_start = Some 1, rv_page_end = Some 2, rv_char_start = None,
       rv_char_end = None\<rparr>]\<rparr>"


end
