(* ===== verification/Lifecycle.thy ===== *)
theory Lifecycle
  imports Uuid
begin

text \<open>
  \<open>app/public_lifecycle.py\<close>: the public summary requests, their idempotent creation, their link
  to an acquisition, and the transitions that queue workers drive. Operations are programs on
  the whole database. The dynamic rendering \<open>str()\<close> of payload values takes \<open>rp\<close>.
\<close>

subsection \<open>Statuses\<close>

fun status_name :: "public_status \<Rightarrow> string" where
  "status_name Queued = ''queued''"
| "status_name Fetching = ''fetching''"
| "status_name Indexing = ''indexing''"
| "status_name Generating = ''generating''"
| "status_name Validating = ''validating''"
| "status_name SummaryCompleted = ''completed''"
| "status_name Failed = ''failed''"
| "status_name SourceUnavailable = ''source_unavailable''"
| "status_name SecrecyBlocked = ''secrecy_blocked''"
| "status_name ValidationFailed = ''validation_failed''"

definition progress_statuses :: "public_status list" where
  "progress_statuses = [Queued, Fetching, Indexing, Generating, Validating, SummaryCompleted]"

definition terminal_statuses :: "public_status list" where
  "terminal_statuses = [SummaryCompleted, Failed, SourceUnavailable, SecrecyBlocked, ValidationFailed]"

definition all_statuses :: "public_status list" where
  "all_statuses = progress_statuses @ terminal_statuses"

definition status_of :: "string \<Rightarrow> public_status option" where
  "status_of s = find (\<lambda>st. status_name st = s) all_statuses"

definition terminal :: "public_status \<Rightarrow> bool" where
  "terminal st \<longleftrightarrow> st \<in> set terminal_statuses"

text \<open>\<open>_PROGRESS_RANK[status]\<close>; None is the \<open>KeyError\<close>.\<close>

definition progress_rank :: "public_status \<Rightarrow> nat option" where
  "progress_rank st = map_of (zip progress_statuses [0..<length progress_statuses]) st"

definition transition_allowed :: "public_status \<Rightarrow> public_status \<Rightarrow> bool" where
  "transition_allowed current target =
     (if current = target then True
      else if terminal current then False
      else if terminal target then True
      else case (progress_rank target, progress_rank current) of
             (Some t, Some c) \<Rightarrow> c \<le> t | _ \<Rightarrow> False)"

subsection \<open>Creation and lookup\<close>

definition new_request ::
  "uuid \<Rightarrow> timestamp \<Rightarrow> uuid \<Rightarrow> string \<Rightarrow> string \<Rightarrow> string \<Rightarrow> string \<Rightarrow> summary_request" where
  "new_request nid now tenant code key fingerprint fmt =
     \<lparr>r_id = nid, r_tenant = tenant, r_code = code, r_key = key, r_fingerprint = fingerprint,
      r_format = fmt, r_status = Queued, r_tjr = None, r_process = None, r_version = None,
      r_summary = None, r_source_updated = None, r_flags = [], r_error = None,
      r_completed_at = None, r_updated = now\<rparr>"

definition has_key :: "uuid \<Rightarrow> string \<Rightarrow> summary_request \<Rightarrow> bool" where
  "has_key tenant key r \<longleftrightarrow> r_tenant r = tenant \<and> r_key r = key"

definition create_or_get_summary_request ::
  "uuid \<Rightarrow> timestamp \<Rightarrow> uuid \<Rightarrow> string \<Rightarrow> string \<Rightarrow> string \<Rightarrow> string \<Rightarrow>
     (db, summary_request \<times> bool) prog" where
  "create_or_get_summary_request nid now tenant code key fingerprint fmt =
     (if strip key = [] then raise (ValueError ''idempotency key must not be empty'')
      else if fmt \<noteq> ''jsx'' \<and> fmt \<noteq> ''json''
      then raise (ValueError ''unsupported summary response format'')
      else transaction (bind (query (\<lambda>d. find (has_key tenant key) (requests d))) (\<lambda>existing.
        case existing of
          None \<Rightarrow>
            (let r = new_request nid now tenant code key fingerprint fmt in
             then_do (modify (\<lambda>d. d\<lparr>requests := requests d @ [r]\<rparr>)) (ret (r, True)))
        | Some row \<Rightarrow>
            (if r_fingerprint row \<noteq> fingerprint
             then raise (IdempotencyConflictError
                    ''idempotency key was already used with a different request'')
             else ret (row, False)))))"

definition get_summary_request_for_tenant ::
  "uuid \<Rightarrow> uuid \<Rightarrow> (db, summary_request option) prog" where
  "get_summary_request_for_tenant tenant rid =
     query (\<lambda>d. find (\<lambda>r. r_id r = rid \<and> r_tenant r = tenant) (requests d))"

subsection \<open>Link to an acquisition\<close>

definition linkable :: "uuid \<Rightarrow> uuid \<Rightarrow> string \<Rightarrow> acquisition \<Rightarrow> summary_request \<Rightarrow> bool" where
  "linkable rid tenant code a r \<longleftrightarrow> r_id r = rid \<and> r_tenant r = tenant \<and> r_code r = code \<and>
     a_tenant a = r_tenant r \<and> a_code a = r_code r \<and>
     (r_tjr r = None \<or> r_tjr r = Some (a_id a))"

definition link_row :: "timestamp \<Rightarrow> uuid \<Rightarrow> summary_request \<Rightarrow> summary_request" where
  "link_row now aid r = r\<lparr>r_tjr := Some aid, r_updated := now\<rparr>"

definition link_summary_request_to_acquisition ::
  "timestamp \<Rightarrow> uuid \<Rightarrow> uuid \<Rightarrow> string \<Rightarrow> uuid \<Rightarrow> (db, summary_request) prog" where
  "link_summary_request_to_acquisition now rid tenant code aid =
     bind (query (\<lambda>d. row_by a_id aid (acquisitions d))) (\<lambda>acq.
       case acq of
         None \<Rightarrow> raise (LookupError ''public summary request cannot be linked to acquisition'')
       | Some a \<Rightarrow> bind (query (\<lambda>d. find (linkable rid tenant code a) (requests d))) (\<lambda>row.
           case row of
             None \<Rightarrow> raise (LookupError ''public summary request cannot be linked to acquisition'')
           | Some r \<Rightarrow>
               then_do (modify (\<lambda>d. d\<lparr>requests := update_where (linkable rid tenant code a)
                                        (link_row now aid) (requests d)\<rparr>))
                 (ret (link_row now aid r))))"

subsection \<open>Transitions\<close>

text \<open>The optional fields of a transition, the keyword arguments of the code.\<close>

record transition_fields =
  tf_process :: "uuid option"
  tf_version :: "uuid option"
  tf_summary :: "uuid option"
  tf_source_updated :: "timestamp option"
  tf_flags :: "(string \<times> json) list option"
  tf_error :: "string option"

definition no_fields :: transition_fields where
  "no_fields = \<lparr>tf_process = None, tf_version = None, tf_summary = None,
     tf_source_updated = None, tf_flags = None, tf_error = None\<rparr>"

definition transition_row ::
  "timestamp \<Rightarrow> public_status \<Rightarrow> transition_fields \<Rightarrow> summary_request \<Rightarrow> summary_request" where
  "transition_row now st f r = r\<lparr>r_status := st,
     r_process := coalesce (tf_process f) (r_process r),
     r_version := coalesce (tf_version f) (r_version r),
     r_summary := coalesce (tf_summary f) (r_summary r),
     r_source_updated := coalesce (tf_source_updated f) (r_source_updated r),
     r_flags := (case tf_flags f of None \<Rightarrow> r_flags r | Some g \<Rightarrow> jsonb_merge (r_flags r) g),
     r_error := tf_error f,
     r_completed_at := (if terminal st then Some now else None),
     r_updated := now\<rparr>"

definition transition_summary_request ::
  "timestamp \<Rightarrow> uuid \<Rightarrow> string \<Rightarrow> transition_fields \<Rightarrow> (db, summary_request) prog" where
  "transition_summary_request now rid status f =
     (case status_of status of
        None \<Rightarrow> raise (InvalidLifecycleTransition (''unknown public summary status: '' @ status))
      | Some st \<Rightarrow>
          transaction (bind (query (\<lambda>d. row_by r_id rid (requests d))) (\<lambda>row.
            case row of
              None \<Rightarrow> raise (LookupError ''public summary request does not exist'')
            | Some r \<Rightarrow>
                (if \<not> transition_allowed (r_status r) st then ret r
                 else then_do
                   (modify (\<lambda>d. d\<lparr>requests := update_where (\<lambda>x. r_id x = rid)
                                               (transition_row now st f) (requests d)\<rparr>))
                   (ret (transition_row now st f r))))))"

definition transition_many ::
  "timestamp \<Rightarrow> uuid list \<Rightarrow> string \<Rightarrow> transition_fields \<Rightarrow> (db, nat) prog" where
  "transition_many now ids status f =
     then_do (for_each (\<lambda>rid. then_do (transition_summary_request now rid status f) (ret ())) ids)
       (ret (length ids))"

definition transition_requests_for_acquisition ::
  "timestamp \<Rightarrow> uuid \<Rightarrow> string \<Rightarrow> transition_fields \<Rightarrow> (db, nat) prog" where
  "transition_requests_for_acquisition now aid status f =
     bind (query (\<lambda>d. map r_id (filter (\<lambda>r. r_tjr r = Some aid) (requests d))))
       (\<lambda>ids. transition_many now ids status f)"

text \<open>The join selects one row per pair of a request and an acquisition it is linked to.\<close>

definition requests_of_judit :: "string \<Rightarrow> db \<Rightarrow> uuid list" where
  "requests_of_judit jid d =
     concat (map (\<lambda>r. map (\<lambda>a. r_id r)
       (filter (\<lambda>a. r_tjr r = Some (a_id a) \<and> a_request a = Some jid) (acquisitions d)))
       (requests d))"

definition transition_requests_for_judit_request ::
  "timestamp \<Rightarrow> string \<Rightarrow> string \<Rightarrow> transition_fields \<Rightarrow> (db, nat) prog" where
  "transition_requests_for_judit_request now jid status f =
     bind (query (requests_of_judit jid)) (\<lambda>ids. transition_many now ids status f)"

definition transition_requests_for_version ::
  "timestamp \<Rightarrow> uuid \<Rightarrow> string \<Rightarrow> transition_fields \<Rightarrow> (db, nat) prog" where
  "transition_requests_for_version now vid status f =
     bind (query (\<lambda>d. map r_id (filter (\<lambda>r. r_version r = Some vid) (requests d))))
       (\<lambda>ids. transition_many now ids status (f\<lparr>tf_version := Some vid\<rparr>))"

text \<open>\<open>payload[k]\<close> and \<open>UUID(str(payload[k]))\<close>.\<close>

definition payload_item :: "pydict \<Rightarrow> string \<Rightarrow> json res" where
  "payload_item payload k =
     (case dict_get payload k of None \<Rightarrow> Inl (KeyError k) | Some v \<Rightarrow> Inr v)"

definition payload_uuid :: "(json \<Rightarrow> string) \<Rightarrow> pydict \<Rightarrow> string \<Rightarrow> uuid res" where
  "payload_uuid rp payload k = res_bind (payload_item payload k) (\<lambda>v.
     case parse_uuid (py_str rp v) of
       None \<Rightarrow> Inl (ValueError ''badly formed hexadecimal UUID string'') | Some u \<Rightarrow> Inr u)"

text \<open>\<open>payload.get(k)\<close> used as a truth value.\<close>

definition payload_truthy :: "pydict \<Rightarrow> string \<Rightarrow> json option" where
  "payload_truthy payload k = (case dict_get payload k of
     None \<Rightarrow> None | Some v \<Rightarrow> (if truthy v then Some v else None))"

definition transition_job_public_requests ::
  "(json \<Rightarrow> string) \<Rightarrow> timestamp \<Rightarrow> string \<Rightarrow> pydict \<Rightarrow> string \<Rightarrow> string option \<Rightarrow> (db, nat) prog" where
  "transition_job_public_requests rp now task payload status error =
     (let f = no_fields\<lparr>tf_error := error\<rparr> in
      try_except
        (if task = ''request_judit_process'' then
           bind (lift_res (payload_uuid rp payload ''tenant_request_id'')) (\<lambda>aid.
             transition_requests_for_acquisition now aid status f)
         else if task = ''finalize_judit_request'' then
           bind (lift_res (payload_item payload ''request_id'')) (\<lambda>v.
             transition_requests_for_judit_request now (py_str rp v) status f)
         else if task = ''generate_process_summary'' then
           (case payload_truthy payload ''judit_request_id'' of
              Some v \<Rightarrow> transition_requests_for_judit_request now (py_str rp v) status f
            | None \<Rightarrow> bind (lift_res (payload_uuid rp payload ''version_id'')) (\<lambda>vid.
                transition_requests_for_version now vid status f))
         else ret 0)
        (\<lambda>e. is_key_error e \<or> is_type_error e \<or> is_value_error e)
        (\<lambda>_. ret 0))"


subsection \<open>The order of statuses\<close>

lemma status_of_name: "status_of (status_name st) = Some st"
  by (cases st) (simp_all add: status_of_def all_statuses_def progress_statuses_def terminal_statuses_def)

lemma status_of_Some: "status_of s = Some st \<Longrightarrow> s = status_name st"
  by (auto simp: status_of_def find_Some_iff)

lemma transition_allowed_refl: "transition_allowed st st"
  by (simp add: transition_allowed_def)

lemmas status_table = transition_allowed_def terminal_def terminal_statuses_def progress_rank_def
  progress_statuses_def

lemma transition_allowed_trans:
  "transition_allowed a b \<Longrightarrow> transition_allowed b c \<Longrightarrow> transition_allowed a c"
  by (auto simp: transition_allowed_def split: if_splits option.splits)

lemma terminal_absorbing: "terminal a \<Longrightarrow> transition_allowed a b \<Longrightarrow> b = a"
  by (auto simp: transition_allowed_def split: if_splits)

text \<open>
  A contract for status orders, stated for any table row: a run of guarded updates only moves
  up, and a maximal status is kept.
\<close>

locale status_order =
  fixes allowed :: "'st \<Rightarrow> 'st \<Rightarrow> bool"
    and final :: "'st \<Rightarrow> bool"
  assumes allowed_refl: "allowed a a"
    and allowed_trans: "allowed a b \<Longrightarrow> allowed b c \<Longrightarrow> allowed a c"
    and final_kept: "final a \<Longrightarrow> allowed a b \<Longrightarrow> b = a"
begin

lemma fold_up: "allowed a (fold (\<lambda>t c. if allowed c t then t else c) ts a)"
  by (induction ts arbitrary: a) (auto simp: allowed_refl intro: allowed_trans)

lemma fold_final: "final a \<Longrightarrow> fold (\<lambda>t c. if allowed c t then t else c) ts a = a"
  using fold_up final_kept by blast

end

interpretation public_order: status_order transition_allowed terminal
  by unfold_locales (auto intro: transition_allowed_refl transition_allowed_trans
      dest: terminal_absorbing)

text \<open>Identity columns of a request, written once at creation.\<close>

definition same_identity :: "summary_request \<Rightarrow> summary_request \<Rightarrow> bool" where
  "same_identity r r' \<longleftrightarrow> r_id r' = r_id r \<and> r_tenant r' = r_tenant r \<and> r_code r' = r_code r \<and>
     r_key r' = r_key r \<and> r_fingerprint r' = r_fingerprint r \<and> r_format r' = r_format r"

definition advances :: "db \<Rightarrow> db \<Rightarrow> bool" where
  "advances d d' \<longleftrightarrow>
     (\<forall>k r. row_by r_id k (requests d) = Some r \<longrightarrow>
        (\<exists>r'. row_by r_id k (requests d') = Some r' \<and> same_identity r r' \<and>
              transition_allowed (r_status r) (r_status r')))"

interpretation advances: step_order advances
proof
  show "advances s s" for s by (auto simp: advances_def same_identity_def transition_allowed_refl)
  show "advances s u" if "advances s t" "advances t u" for s t u
    unfolding advances_def
  proof (intro allI impI)
    fix k r assume "row_by r_id k (requests s) = Some r"
    with that(1) obtain r1 where 1: "row_by r_id k (requests t) = Some r1" "same_identity r r1"
        "transition_allowed (r_status r) (r_status r1)"
      by (auto simp: advances_def)
    with that(2) obtain r2 where "row_by r_id k (requests u) = Some r2" "same_identity r1 r2"
        "transition_allowed (r_status r1) (r_status r2)"
      by (auto simp: advances_def)
    with 1 show "\<exists>r'. row_by r_id k (requests u) = Some r' \<and> same_identity r r' \<and>
        transition_allowed (r_status r) (r_status r')"
      by (auto simp: same_identity_def intro: transition_allowed_trans)
  qed
qed

interpretation transition_upd: keyed_update r_id "transition_row now st f" for now st f
  by unfold_locales (simp add: transition_row_def)

interpretation link_upd: keyed_update r_id "link_row now aid" for now aid
  by unfold_locales (simp add: link_row_def)

lemma same_identity_rows [simp]:
  "same_identity r (transition_row now st f r)" "same_identity r (link_row now aid r)"
  "same_identity r r"
  by (simp_all add: same_identity_def transition_row_def link_row_def)

lemma row_statuses [simp]:
  "r_status (link_row now aid r) = r_status r" "r_status (transition_row now st f r) = st"
  by (simp_all add: link_row_def transition_row_def)

lemma advances_update:
  assumes "keyed_update r_id f" "\<And>r. same_identity r (f r)"
    and "\<And>k r. row_by r_id k (requests d) = Some r \<Longrightarrow> p r \<Longrightarrow>
      transition_allowed (r_status r) (r_status (f r))"
  shows "advances d (d\<lparr>requests := update_where p f (requests d)\<rparr>)"
  using assms(2,3)
  by (auto simp: advances_def keyed_update.row_by_update [OF assms(1)] transition_allowed_refl)

lemma advances_transition:
  assumes "row_by r_id rid (requests d) = Some r" "transition_allowed (r_status r) st"
  shows "advances d (d\<lparr>requests := update_where (\<lambda>x. r_id x = rid) (transition_row now st f) (requests d)\<rparr>)"
proof (rule advances_update [OF transition_upd.keyed_update_axioms])
  fix k x assume "row_by r_id k (requests d) = Some x" "r_id x = rid"
  then have "x = r" using assms(1) row_by_Some by fastforce
  with assms(2) show "transition_allowed (r_status x) (r_status (transition_row now st f x))"
    by (simp add: transition_row_def)
qed simp

lemma advances_same_requests: "requests d' = requests d \<Longrightarrow> advances d d'"
  by (auto simp: advances_def transition_allowed_refl)

lemma advances_append: "advances d (d\<lparr>requests := requests d @ rs\<rparr>)"
  by (auto simp: advances_def row_by_append transition_allowed_refl)

lemma obeys_transition [obeys_intros]:
  "obeys advances (transition_summary_request now rid status f)"
  by (rule obeysI)
    (auto simp: transition_summary_request_def transaction_def prog_simps advances.R_refl
        split: option.splits intro: advances_transition)

lemma obeys_create [obeys_intros]:
  "obeys advances (create_or_get_summary_request nid now tenant code key fingerprint fmt)"
  by (rule obeysI)
    (auto simp: create_or_get_summary_request_def transaction_def prog_simps advances.R_refl
        Let_def split: option.splits intro: advances_append)

lemma obeys_link [obeys_intros]:
  "obeys advances (link_summary_request_to_acquisition now rid tenant code aid)"
proof (rule obeysI)
  fix d
  have "advances d (d\<lparr>requests := update_where p (link_row now aid) (requests d)\<rparr>)" for p
    by (rule advances_update [OF link_upd.keyed_update_axioms])
      (simp_all add: transition_allowed_refl)
  then show "advances d (fst (link_summary_request_to_acquisition now rid tenant code aid d))"
    by (auto simp: link_summary_request_to_acquisition_def prog_simps advances.R_refl
        split: option.splits)
qed

text \<open>Every bulk transition is built from single ones, so any order they obey lifts.\<close>

locale transition_order = step_order R for R :: "db \<Rightarrow> db \<Rightarrow> bool" +
  assumes one: "obeys R (transition_summary_request now rid status f)"
begin

lemma bulk_many: "obeys R (transition_many now ids status f)"
  unfolding transition_many_def by (intro resp_rules one)

lemma bulk_acquisition: "obeys R (transition_requests_for_acquisition now aid status f)"
  unfolding transition_requests_for_acquisition_def by (intro resp_rules bulk_many)

lemma bulk_judit: "obeys R (transition_requests_for_judit_request now jid status f)"
  unfolding transition_requests_for_judit_request_def by (intro resp_rules bulk_many)

lemma bulk_version: "obeys R (transition_requests_for_version now vid status f)"
  unfolding transition_requests_for_version_def by (intro resp_rules bulk_many)

lemma bulk_job: "obeys R (transition_job_public_requests rp now task payload status error)"
  unfolding transition_job_public_requests_def Let_def
  by (intro resp_rules bulk_acquisition bulk_judit bulk_version)

lemmas bulk_rules = one bulk_many bulk_acquisition bulk_judit bulk_version bulk_job

end

interpretation advances: transition_order advances
  by unfold_locales (rule obeys_transition)

subsection \<open>The invariant\<close>

definition request_ok :: "summary_request \<Rightarrow> bool" where
  "request_ok r \<longleftrightarrow> (r_completed_at r \<noteq> None \<longleftrightarrow> terminal (r_status r))"

definition link_ok :: "acquisition list \<Rightarrow> summary_request \<Rightarrow> bool" where
  "link_ok acqs r \<longleftrightarrow> (\<forall>aid. r_tjr r = Some aid \<longrightarrow>
     (\<exists>a \<in> set acqs. a_id a = aid \<and> a_tenant a = r_tenant r \<and> a_code a = r_code r))"

definition lifecycle_inv :: "db \<Rightarrow> bool" where
  "lifecycle_inv d \<longleftrightarrow> distinct (map r_id (requests d)) \<and>
     distinct (map (\<lambda>r. (r_tenant r, r_key r)) (requests d)) \<and>
     (\<forall>r \<in> set (requests d). request_ok r \<and> link_ok (acquisitions d) r)"

lemma lifecycle_inv_update:
  assumes "lifecycle_inv d" "\<And>r. same_identity r (f r)"
    and "\<And>r. r \<in> set (requests d) \<Longrightarrow> p r \<Longrightarrow> request_ok r \<Longrightarrow> link_ok (acquisitions d) r \<Longrightarrow>
      request_ok (f r) \<and> link_ok (acquisitions d) (f r)"
  shows "lifecycle_inv (d\<lparr>requests := update_where p f (requests d)\<rparr>)"
proof -
  have "map r_id (update_where p f t) = map r_id t"
      "map (\<lambda>r. (r_tenant r, r_key r)) (update_where p f t) = map (\<lambda>r. (r_tenant r, r_key r)) t" for t
    using assms(2) by (induction t) (auto simp: same_identity_def)
  with assms(1,3) show ?thesis
    by (auto simp: lifecycle_inv_def elim!: in_update_whereE)
qed

lemma request_ok_transition: "request_ok (transition_row now st f r)"
  by (simp add: request_ok_def transition_row_def)

lemma link_ok_transition: "link_ok acqs (transition_row now st f r) = link_ok acqs r"
  by (simp add: link_ok_def transition_row_def)

lemma keeps_transition: "obeys (keeps lifecycle_inv) (transition_summary_request now rid status f)"
  by (rule obeysI)
    (auto simp: keeps_def transition_summary_request_def transaction_def prog_simps
        request_ok_transition link_ok_transition split: option.splits intro!: lifecycle_inv_update)

interpretation lifecycle_keeps: transition_order "keeps lifecycle_inv"
  by unfold_locales (rule keeps_transition)

lemma keeps_link:
  "obeys (keeps lifecycle_inv) (link_summary_request_to_acquisition now rid tenant code aid)"
proof (rule obeysI, unfold keeps_def, rule impI)
  fix d assume inv: "lifecycle_inv d"
  have "lifecycle_inv (d\<lparr>requests := update_where (linkable rid tenant code a) (link_row now aid) (requests d)\<rparr>)"
    if "row_by a_id aid (acquisitions d) = Some a" for a
    using row_by_Some [OF that]
    by (intro lifecycle_inv_update inv)
      (simp, auto simp: request_ok_def link_ok_def link_row_def linkable_def)
  with inv show "lifecycle_inv (fst (link_summary_request_to_acquisition now rid tenant code aid d))"
    by (auto simp: link_summary_request_to_acquisition_def prog_simps split: option.splits)
qed

lemma keeps_create:
  assumes "lifecycle_inv d" "nid \<notin> r_id ` set (requests d)"
  shows "lifecycle_inv (fst (create_or_get_summary_request nid now tenant code key fingerprint fmt d))"
proof -
  let ?r = "new_request nid now tenant code key fingerprint fmt"
  have "lifecycle_inv (d\<lparr>requests := requests d @ [?r]\<rparr>)"
    if "find (has_key tenant key) (requests d) = None"
    using that assms
    by (auto simp: lifecycle_inv_def find_None_iff has_key_def)
      (auto simp: new_request_def request_ok_def link_ok_def status_table)
  with assms(1) show ?thesis
    by (auto simp: create_or_get_summary_request_def transaction_def prog_simps Let_def
        split: option.splits)
qed

subsection \<open>Runs of the lifecycle\<close>

text \<open>
  Other components change the rest of the database at any time; the acquisitions they add or
  update keep their tenant and their CNJ.
\<close>

definition acquisitions_grow :: "db \<Rightarrow> db \<Rightarrow> bool" where
  "acquisitions_grow d d' \<longleftrightarrow> (\<forall>a \<in> set (acquisitions d). \<exists>a' \<in> set (acquisitions d').
     a_id a' = a_id a \<and> a_tenant a' = a_tenant a \<and> a_code a' = a_code a)"

inductive lifecycle_step :: "db \<Rightarrow> db \<Rightarrow> bool" where
  l_create: "nid \<notin> r_id ` set (requests d) \<Longrightarrow> lifecycle_step d
     (fst (create_or_get_summary_request nid now tenant code key fingerprint fmt d))"
| l_link: "lifecycle_step d (fst (link_summary_request_to_acquisition now rid tenant code aid d))"
| l_one: "lifecycle_step d (fst (transition_summary_request now rid status f d))"
| l_acquisition: "lifecycle_step d (fst (transition_requests_for_acquisition now aid status f d))"
| l_judit: "lifecycle_step d (fst (transition_requests_for_judit_request now jid status f d))"
| l_version: "lifecycle_step d (fst (transition_requests_for_version now vid status f d))"
| l_job: "lifecycle_step d (fst (transition_job_public_requests rp now task payload status error d))"
| l_other: "requests d' = requests d \<Longrightarrow> acquisitions_grow d d' \<Longrightarrow> lifecycle_step d d'"

lemma lifecycle_step_advances: "lifecycle_step d d' \<Longrightarrow> advances d d'"
proof (induction rule: lifecycle_step.induct)
  case (l_other d' d)
  from l_other(1) show ?case by (rule advances_same_requests)
qed (rule obeysD [OF obeys_create] obeysD [OF obeys_link] obeysD [OF advances.one]
    obeysD [OF advances.bulk_acquisition] obeysD [OF advances.bulk_judit]
    obeysD [OF advances.bulk_version] obeysD [OF advances.bulk_job])+

lemma lifecycle_step_keeps: "lifecycle_step d d' \<Longrightarrow> lifecycle_inv d \<Longrightarrow> lifecycle_inv d'"
proof (induction rule: lifecycle_step.induct)
  case (l_other d' d)
  then show ?case
    by (auto simp: lifecycle_inv_def link_ok_def acquisitions_grow_def) (metis)
qed (rule keeps_create keeps_run [OF keeps_link] keeps_run [OF lifecycle_keeps.one]
    keeps_run [OF lifecycle_keeps.bulk_acquisition] keeps_run [OF lifecycle_keeps.bulk_judit]
    keeps_run [OF lifecycle_keeps.bulk_version] keeps_run [OF lifecycle_keeps.bulk_job];
    assumption)+

lemma lifecycle_run_advances: "lifecycle_step\<^sup>*\<^sup>* d d' \<Longrightarrow> advances d d'"
  by (induction rule: rtranclp_induct)
    (auto intro: advances.R_refl advances.R_trans lifecycle_step_advances)

lemma lifecycle_run_keeps: "lifecycle_step\<^sup>*\<^sup>* d d' \<Longrightarrow> lifecycle_inv d \<Longrightarrow> lifecycle_inv d'"
  by (induction rule: rtranclp_induct) (auto intro: lifecycle_step_keeps)

subsection \<open>The exact effect of a bulk transition\<close>

definition touched :: "timestamp \<Rightarrow> public_status \<Rightarrow> transition_fields \<Rightarrow> uuid set \<Rightarrow>
    summary_request \<Rightarrow> summary_request" where
  "touched now st f ids r =
     (if r_id r \<in> ids \<and> transition_allowed (r_status r) st then transition_row now st f r else r)"

lemma jsonb_merge_idem: "jsonb_merge (jsonb_merge a b) b = jsonb_merge a b"
  by (auto simp: jsonb_merge_def)

lemma transition_row_idem:
  "transition_row now st f (transition_row now st f r) = transition_row now st f r"
  by (simp add: transition_row_def coalesce_def jsonb_merge_idem split: option.split)

lemma touched_touched:
  "touched now st f {i} (touched now st f ids r) = touched now st f (insert i ids) r"
  "touched now st f ids (touched now st f {i} r) = touched now st f (insert i ids) r"
  by (auto simp: touched_def transition_allowed_refl transition_row_idem)

lemma r_id_touched [simp]: "r_id (touched now st f ids r) = r_id r"
  by (simp add: touched_def transition_row_def)

lemma transition_one_touched:
  assumes "distinct (map r_id (requests d))" "status_of status = Some st" "rid \<in> r_id ` set (requests d)"
  shows "\<exists>row. transition_summary_request now rid status f d =
    (d\<lparr>requests := map (touched now st f {rid}) (requests d)\<rparr>, Inr row)"
proof -
  from assms(3) obtain r where r: "row_by r_id rid (requests d) = Some r"
    by (metis option.exhaust row_by_None)
  have only: "x = r" if "x \<in> set (requests d)" "r_id x = rid" for x
    using that assms(1) row_by_Some [OF r] by (auto simp: distinct_map inj_on_def)
  have "map (touched now st f {rid}) (requests d) =
      (if transition_allowed (r_status r) st
       then update_where (\<lambda>x. r_id x = rid) (transition_row now st f) (requests d)
       else requests d)"
    using only by (auto simp: update_where_def touched_def intro!: map_idI)
  then show ?thesis
    using r assms(2)
    by (simp add: transition_summary_request_def transaction_def prog_simps)
qed

lemma transition_ids_touched:
  assumes "distinct (map r_id (requests d))" "status_of status = Some st"
    "set ids \<subseteq> r_id ` set (requests d)"
  shows "for_each (\<lambda>rid. then_do (transition_summary_request now rid status f) (ret ())) ids d =
    (d\<lparr>requests := map (touched now st f (set ids)) (requests d)\<rparr>, Inr ())"
  using assms
proof (induction ids arbitrary: d)
  case Nil
  have "map (touched now st f {}) (requests d) = requests d"
    by (intro map_idI) (simp add: touched_def)
  then show ?case by (simp add: prog_simps)
next
  case (Cons i ids)
  let ?d = "d\<lparr>requests := map (touched now st f {i}) (requests d)\<rparr>"
  obtain row where one: "transition_summary_request now i status f d = (?d, Inr row)"
    using transition_one_touched [of d status st i now f] Cons.prems by auto
  have ids: "map r_id (requests ?d) = map r_id (requests d)" by simp
  have dist: "distinct (map r_id (requests ?d))" unfolding ids by (rule Cons.prems(1))
  have sub: "set ids \<subseteq> r_id ` set (requests ?d)"
    using Cons.prems(3) by (auto simp: image_image)
  have "for_each (\<lambda>rid. then_do (transition_summary_request now rid status f) (ret ())) ids ?d =
      (?d\<lparr>requests := map (touched now st f (set ids)) (requests ?d)\<rparr>, Inr ())"
    by (rule Cons.IH [OF dist Cons.prems(2) sub])
  with one show ?case
    by (simp add: prog_simps o_def touched_touched(2))
qed

lemma requests_of_judit_sub: "set (requests_of_judit jid d) \<subseteq> r_id ` set (requests d)"
  by (auto simp: requests_of_judit_def)

lemma row_by_map:
  "(\<And>r. key (f r) = key r) \<Longrightarrow> row_by key k (map f t) = map_option f (row_by key k t)"
  by (induction t) (simp_all add: row_by_def)

lemma row_by_touched:
  "row_by r_id k (map (touched now st f ids) rows) = map_option (touched now st f ids) (row_by r_id k rows)"
  by (rule row_by_map) (rule r_id_touched)

lemma find_unique:
  assumes "x \<in> set xs" "P x" and only: "\<And>y. y \<in> set xs \<Longrightarrow> P y \<Longrightarrow> y = x"
  shows "find P xs = Some x"
proof (cases "find P xs")
  case None
  with assms(1,2) show ?thesis by (simp add: find_None_iff)
next
  case (Some y)
  then have "y \<in> set xs" "P y" by (auto simp: find_Some_iff)
  with Some only show ?thesis by blast
qed

subsection \<open>Properties\<close>

definition sample_request :: summary_request where
  "sample_request = new_request 1 0 5 ''c'' ''key'' ''fp'' ''jsx''"

definition sample_db :: db where
  "sample_db = empty_db\<lparr>requests := [sample_request]\<rparr>"

lemma sample_create:
  "create_or_get_summary_request 1 0 5 ''c'' ''key'' ''fp'' ''jsx'' empty_db =
     (sample_db, Inr (sample_request, True))"
  by (simp add: create_or_get_summary_request_def transaction_def prog_simps Let_def empty_db_def
      sample_db_def sample_request_def strip_def lstrip_by_def rstrip_by_def isspace_c_def)

lemma sample_run: "lifecycle_step\<^sup>*\<^sup>* empty_db sample_db"
proof -
  have "(1::uuid) \<notin> r_id ` set (requests empty_db)" by (simp add: empty_db_def)
  from l_create [OF this, of 0 5 "''c''" "''key''" "''fp''" "''jsx''"]
  have "lifecycle_step empty_db sample_db" by (simp only: sample_create fst_conv)
  then show ?thesis by (rule r_into_rtranclp)
qed

lemma sample_advanced:
  "lifecycle_step\<^sup>*\<^sup>* sample_db (fst (transition_summary_request 9 1 ''failed'' no_fields sample_db))"
  by (rule r_into_rtranclp, rule l_one)

text \<open>C3: A public summary request never regresses: whatever creations, links, single and bulk
  transitions and job outcomes interleave, an existing request keeps its identity columns, its
  status only moves as the transition table allows, and a terminal status is final.\<close>

theorem lifecycle_never_regresses:
  assumes "lifecycle_step\<^sup>*\<^sup>* d d'" "row_by r_id k (requests d) = Some r"
  shows "\<exists>r'. row_by r_id k (requests d') = Some r' \<and> same_identity r r' \<and>
    transition_allowed (r_status r) (r_status r') \<and>
    (terminal (r_status r) \<longrightarrow> r_status r' = r_status r)"
proof -
  from lifecycle_run_advances [OF assms(1)] assms(2) obtain r' where
    "row_by r_id k (requests d') = Some r'" "same_identity r r'"
    "transition_allowed (r_status r) (r_status r')"
    by (auto simp: advances_def)
  then show ?thesis using public_order.final_kept by auto
qed

theorem lifecycle_never_regresses_witness:
  "\<exists>r'. row_by r_id 1 (requests (fst (transition_summary_request 9 1 ''failed'' no_fields sample_db))) =
     Some r' \<and> transition_allowed Queued (r_status r')"
  using lifecycle_never_regresses [OF sample_advanced, of 1 sample_request]
  by (auto simp: sample_db_def row_by_def sample_request_def new_request_def)

text \<open>In every database the lifecycle reaches from the empty one, request ids and (tenant,
  idempotency key) pairs are unique, a completion time is recorded exactly for the terminal
  statuses, and a request is linked only to an acquisition of its own tenant and its own CNJ.\<close>

theorem lifecycle_invariant:
  assumes "lifecycle_step\<^sup>*\<^sup>* empty_db d"
  shows "distinct (map r_id (requests d)) \<and>
    distinct (map (\<lambda>r. (r_tenant r, r_key r)) (requests d)) \<and>
    (\<forall>r \<in> set (requests d). (r_completed_at r \<noteq> None \<longleftrightarrow> terminal (r_status r)) \<and>
       (\<forall>aid. r_tjr r = Some aid \<longrightarrow> (\<exists>a \<in> set (acquisitions d).
          a_id a = aid \<and> a_tenant a = r_tenant r \<and> a_code a = r_code r)))"
proof -
  have "lifecycle_inv empty_db" by (simp add: lifecycle_inv_def empty_db_def)
  from lifecycle_run_keeps [OF assms this] show ?thesis
    by (auto simp: lifecycle_inv_def request_ok_def link_ok_def)
qed

theorem lifecycle_invariant_witness:
  "list_all (\<lambda>r. (r_completed_at r \<noteq> None) = terminal (r_status r)) (requests sample_db)"
  using lifecycle_invariant [OF sample_run] unfolding list_all_iff by blast

text \<open>Creation is idempotent across the whole life of a request: after a successful creation,
  at any later time, the same tenant and key with the same fingerprint return that very request
  and write nothing; with another fingerprint they raise the conflict error and write nothing.\<close>

theorem create_is_idempotent:
  assumes "lifecycle_inv d" "nid \<notin> r_id ` set (requests d)"
    and "create_or_get_summary_request nid now tenant code key fp fmt d = (d1, Inr (r, created))"
    and "lifecycle_step\<^sup>*\<^sup>* d1 d2" and "fmt' = ''jsx'' \<or> fmt' = ''json''"
  shows "\<exists>r'. r_id r' = r_id r \<and>
    create_or_get_summary_request nid' now' tenant code' key fp' fmt' d2 =
      (d2, if fp' = fp then Inr (r', False)
           else Inl (IdempotencyConflictError
             ''idempotency key was already used with a different request''))"
proof -
  have key: "strip key \<noteq> []"
    using assms(3) by (auto simp: create_or_get_summary_request_def prog_simps split: if_splits)
  have r: "r \<in> set (requests d1)" "has_key tenant key r" "r_fingerprint r = fp"
    using assms(3)
    by (auto simp: create_or_get_summary_request_def transaction_def prog_simps Let_def
        has_key_def new_request_def find_Some_iff split: if_splits option.splits)
  have inv1: "lifecycle_inv d1"
    using keeps_create [OF assms(1,2), of now tenant code key fp fmt] assms(3) by simp
  then have "row_by r_id (r_id r) (requests d1) = Some r"
    using r(1) by (intro row_by_in) (simp_all add: lifecycle_inv_def)
  then obtain r' where r': "row_by r_id (r_id r) (requests d2) = Some r'" "same_identity r r'"
    using lifecycle_run_advances [OF assms(4)] by (auto simp: advances_def)
  have inv2: "lifecycle_inv d2" by (rule lifecycle_run_keeps [OF assms(4) inv1])
  have hk: "has_key tenant key r'" "r_fingerprint r' = fp"
    using r r'(2) by (auto simp: same_identity_def has_key_def)
  have only: "x = r'" if "x \<in> set (requests d2)" "has_key tenant key x" for x
    using that hk(1) row_by_Some [OF r'(1)] inv2
    by (auto simp: lifecycle_inv_def distinct_map inj_on_def has_key_def)
  have "r' \<in> set (requests d2)" using row_by_Some [OF r'(1)] by simp
  from find_unique [where P="has_key tenant key", OF this hk(1) only] have "find (has_key tenant key) (requests d2) = Some r'"
    by simp
  then show ?thesis
    using key assms(5) hk(2) r'(2)
    by (intro exI [of _ r'])
      (auto simp: create_or_get_summary_request_def transaction_def prog_simps same_identity_def)
qed

theorem create_is_idempotent_witness:
  "\<exists>r'. r_id r' = 1 \<and>
    create_or_get_summary_request 2 7 5 ''c'' ''key'' ''fp'' ''json'' sample_db =
      (sample_db, Inr (r', False))"
  using create_is_idempotent [OF _ _ sample_create rtranclp.rtrancl_refl, of "''json''" 2 7 "''c''" "''fp''"]
  by (simp add: lifecycle_inv_def empty_db_def sample_request_def new_request_def)

text \<open>A bulk transition for a Judit request touches exactly the requests linked to an
  acquisition with that request id, each as a single guarded transition would, and no other row
  of the table.\<close>

theorem judit_transition_exact:
  assumes "lifecycle_inv d" "row_by r_id k (requests d) = Some r"
  shows "row_by r_id k (requests (fst (transition_requests_for_judit_request now jid
            (status_name st) f d))) =
    Some (if (\<exists>a \<in> set (acquisitions d). r_tjr r = Some (a_id a) \<and> a_request a = Some jid)
            \<and> transition_allowed (r_status r) st
          then transition_row now st f r else r)"
proof -
  have dist: "distinct (map r_id (requests d))" using assms(1) by (simp add: lifecycle_inv_def)
  have r: "r \<in> set (requests d)" "r_id r = k" using row_by_Some [OF assms(2)] by auto
  have "fst (transition_requests_for_judit_request now jid (status_name st) f d) =
      d\<lparr>requests := map (touched now st f (set (requests_of_judit jid d))) (requests d)\<rparr>"
    using transition_ids_touched [OF dist status_of_name requests_of_judit_sub, where now=now and f=f]
    by (simp add: transition_requests_for_judit_request_def transition_many_def prog_simps)
  moreover have "k \<in> set (requests_of_judit jid d) \<longleftrightarrow>
      (\<exists>a \<in> set (acquisitions d). r_tjr r = Some (a_id a) \<and> a_request a = Some jid)"
    using r dist by (auto simp: requests_of_judit_def distinct_map inj_on_def)
  ultimately show ?thesis
    using assms(2) r(2) by (auto simp: row_by_touched touched_def)
qed

definition linked_db :: db where
  "linked_db = sample_db\<lparr>acquisitions := [\<lparr>a_id = 4, a_tenant = 5, a_code = ''c'',
       a_request = Some ''j'', a_status = AProcessing, a_attempt = 1, a_completed_at = None\<rparr>],
     requests := [sample_request\<lparr>r_tjr := Some 4\<rparr>]\<rparr>"

theorem judit_transition_exact_witness:
  "row_by r_id 1 (requests (fst (transition_requests_for_judit_request 9 ''j'' ''indexing''
      no_fields linked_db))) = Some (transition_row 9 Indexing no_fields (sample_request\<lparr>r_tjr := Some 4\<rparr>))"
  using judit_transition_exact [of linked_db 1 "sample_request\<lparr>r_tjr := Some 4\<rparr>" 9 "''j''" Indexing no_fields]
  by (simp add: linked_db_def sample_db_def empty_db_def sample_request_def new_request_def
      lifecycle_inv_def row_by_def request_ok_def link_ok_def status_table upt_rec)

text \<open>A sequence of transitions requested for one request leaves it at the status obtained by
  accepting, in order, exactly the targets the transition table allows; after a terminal status
  every later target is ignored.\<close>

theorem transition_sequence:
  assumes "row_by r_id k (requests d) = Some r" "distinct (map r_id (requests d))"
  shows "\<exists>r'. row_by r_id k (requests (fst (for_each
      (\<lambda>st. then_do (transition_summary_request now k (status_name st) f) (ret ())) sts d))) = Some r' \<and>
    r_status r' = fold (\<lambda>t c. if transition_allowed c t then t else c) sts (r_status r) \<and>
    (terminal (r_status r) \<longrightarrow> r_status r' = r_status r)"
proof -
  have "\<exists>r'. row_by r_id k (requests (fst (for_each
      (\<lambda>st. then_do (transition_summary_request now k (status_name st) f) (ret ())) sts d))) = Some r' \<and>
    r_status r' = fold (\<lambda>t c. if transition_allowed c t then t else c) sts (r_status r)"
    using assms
  proof (induction sts arbitrary: d r)
    case Nil
    then show ?case by (simp add: prog_simps)
  next
    case (Cons st sts)
    let ?d = "d\<lparr>requests := map (touched now st f {k}) (requests d)\<rparr>"
    have k: "k \<in> r_id ` set (requests d)" using row_by_Some [OF Cons.prems(1)] by auto
    obtain row where one: "transition_summary_request now k (status_name st) f d = (?d, Inr row)"
      using transition_one_touched [OF Cons.prems(2) status_of_name k] by blast
    have "row_by r_id k (requests ?d) = Some (touched now st f {k} r)"
      using Cons.prems(1) by (simp add: row_by_touched)
    moreover have "distinct (map r_id (requests ?d))" using Cons.prems(2) by (simp add: o_def)
    ultimately have IH: "\<exists>r'. row_by r_id k (requests (fst (for_each
        (\<lambda>st. then_do (transition_summary_request now k (status_name st) f) (ret ())) sts ?d))) = Some r' \<and>
      r_status r' = fold (\<lambda>t c. if transition_allowed c t then t else c) sts
        (r_status (touched now st f {k} r))"
      by (rule Cons.IH)
    have "r_status (touched now st f {k} r) = (if transition_allowed (r_status r) st then st else r_status r)"
      using row_by_Some [OF Cons.prems(1)] by (simp add: touched_def)
    with IH one show ?case by (simp add: prog_simps)
  qed
  then show ?thesis using public_order.fold_final by auto
qed

theorem transition_sequence_witness:
  "\<exists>r'. row_by r_id 1 (requests (fst (for_each
      (\<lambda>st. then_do (transition_summary_request 9 1 (status_name st) no_fields) (ret ()))
      [Indexing, Fetching, Failed, SummaryCompleted] sample_db))) = Some r' \<and> r_status r' = Failed"
  using transition_sequence [of 1 sample_db sample_request 9 no_fields
      "[Indexing, Fetching, Failed, SummaryCompleted]"]
  by (simp add: sample_db_def row_by_def sample_request_def new_request_def status_table upt_rec)

end
