(* ===== verification/GenerationResult.thy ===== *)
theory GenerationResult
  imports EvidenceStore Lifecycle
begin

text \<open>
  \<open>app/public_lifecycle_worker.py\<close>: how the start, the result and the death of a job move the
  public requests. The result of a finished generation is published only through the gate of
  \<open>ClaimEvidence\<close>.
\<close>

definition generation_task :: string where
  "generation_task = ''generate_process_summary''"

definition mark_job_started ::
  "(json \<Rightarrow> string) \<Rightarrow> timestamp \<Rightarrow> string \<Rightarrow> pydict \<Rightarrow> (db, unit) prog" where
  "mark_job_started rp now task payload =
     (if task = generation_task
      then then_do (transition_job_public_requests rp now task payload ''generating'' None) (ret ())
      else ret ())"

definition mark_job_dead ::
  "(json \<Rightarrow> string) \<Rightarrow> timestamp \<Rightarrow> string \<Rightarrow> pydict \<Rightarrow> string \<Rightarrow> (db, unit) prog" where
  "mark_job_dead rp now task payload error =
     then_do (transition_job_public_requests rp now task payload ''failed'' (Some error)) (ret ())"

text \<open>The summary of the version, joined with the process when the version is its current one.\<close>

definition current_summary :: "uuid \<Rightarrow> uuid \<Rightarrow> db \<Rightarrow> (summary_row \<times> process_row) option" where
  "current_summary pid vid d =
     (case find (\<lambda>s. sm_process s = pid \<and> sm_version s = vid) (summaries d) of
        None \<Rightarrow> None
      | Some s \<Rightarrow> (case find (\<lambda>p. p_id p = pid \<and> p_current p = Some vid) (processes d) of
          None \<Rightarrow> None | Some p \<Rightarrow> Some (s, p)))"

definition result_passed :: "(string \<times> json) list \<Rightarrow> bool" where
  "result_passed result \<longleftrightarrow> is_obj (obj_get result ''validation'') \<and>
     obj_get (as_obj (obj_get result ''validation'')) ''passed'' = JBool True"

text \<open>The stored document, decoded when there is one.\<close>

definition generated_document :: "(string \<Rightarrow> json option) \<Rightarrow> json \<Rightarrow> json res" where
  "generated_document parse v = (if v = JNull then Inr JNull
     else res_bind (decode_json_object parse ''generated summary structured output'' v)
       (\<lambda>doc. Inr (document_of_pydict doc)))"

definition summary_passes ::
  "(json \<Rightarrow> string) \<Rightarrow> (string \<Rightarrow> json option) \<Rightarrow> db \<Rightarrow> (string \<times> json) list \<Rightarrow>
     (summary_row \<times> process_row) option \<Rightarrow> bool res" where
  "summary_passes rp parse d result row =
     (case row of
        None \<Rightarrow> Inr False
      | Some (s, p) \<Rightarrow>
          (if \<not> (sm_passed s \<and> result_passed result) then Inr False
           else if 0 < p_secrecy p then Inr (is_restricted_local_summary rp parse s p)
           else res_bind (generated_document parse (sm_structured s)) (\<lambda>structured. claim_evidence_is_publishable rp parse structured
                (load_summary_claim_evidence (sm_id s) d) p)))"

definition outcome_fields ::
  "uuid \<Rightarrow> uuid \<Rightarrow> (string \<times> json) list \<Rightarrow> (summary_row \<times> process_row) option \<Rightarrow> bool \<Rightarrow> transition_fields" where
  "outcome_fields pid vid result row passed =
     \<lparr>tf_process = Some pid, tf_version = Some vid,
      tf_summary = (if passed then map_option (\<lambda>(s, p). sm_id s) row else None),
      tf_source_updated = map_option (\<lambda>(s, p). p_updated p) row,
      tf_flags = Some [(''summary_reused'', JBool (truthy (obj_get result ''reused''))),
                       (''summary_persisted'', JBool (truthy (obj_get result ''persisted'')))],
      tf_error = (if passed then None else Some ''validation_failed'')\<rparr>"

definition outcome_status :: "bool \<Rightarrow> public_status" where
  "outcome_status passed = (if passed then SummaryCompleted else ValidationFailed)"

definition reconcile_generation_result ::
  "(json \<Rightarrow> string) \<Rightarrow> (string \<Rightarrow> json option) \<Rightarrow> timestamp \<Rightarrow> pydict \<Rightarrow> (string \<times> json) list \<Rightarrow>
     (db, unit) prog" where
  "reconcile_generation_result rp parse now payload result =
     (case (payload_uuid rp payload ''process_id'', payload_uuid rp payload ''version_id'') of
        (Inr pid, Inr vid) \<Rightarrow>
          then_do (transition_job_public_requests rp now generation_task payload ''validating'' None)
          (bind (query (current_summary pid vid)) (\<lambda>row.
           bind (query (\<lambda>d. summary_passes rp parse d result row)) (\<lambda>verdict.
           bind (lift_res verdict) (\<lambda>passed.
           let status = status_name (outcome_status passed);
               f = outcome_fields pid vid result row passed
           in case payload_truthy payload ''judit_request_id'' of
                Some jid \<Rightarrow> then_do (transition_requests_for_judit_request now (py_str rp jid) status f) (ret ())
              | None \<Rightarrow> then_do (transition_requests_for_version now vid status f) (ret ())))))
      | _ \<Rightarrow> ret ())"

subsection \<open>Order\<close>

lemma advances_started: "obeys advances (mark_job_started rp now task payload)"
  unfolding mark_job_started_def by (intro advances.resp_rules advances.bulk_job)

lemma advances_dead: "obeys advances (mark_job_dead rp now task payload error)"
  unfolding mark_job_dead_def by (intro advances.resp_rules advances.bulk_job)

lemma advances_reconcile: "obeys advances (reconcile_generation_result rp parse now payload result)"
  unfolding reconcile_generation_result_def Let_def
  by (auto intro!: advances.resp_rules advances.bulk_job advances.bulk_judit advances.bulk_version
      split: sum.split)

subsection \<open>The exact effect of bulk transitions\<close>

lemma r_tjr_touched [simp]: "r_tjr (touched now st f ids r) = r_tjr r"
  by (simp add: touched_def transition_row_def)

lemma requests_of_judit_touched:
  "requests_of_judit jid (d\<lparr>requests := map (touched now st f ids) (requests d)\<rparr>) = requests_of_judit jid d"
  by (simp add: requests_of_judit_def o_def)

lemma judit_touched:
  assumes "distinct (map r_id (requests d))"
  shows "\<exists>n. transition_requests_for_judit_request now jid (status_name st) f d =
    (d\<lparr>requests := map (touched now st f (set (requests_of_judit jid d))) (requests d)\<rparr>, Inr n)"
  using transition_ids_touched [OF assms status_of_name requests_of_judit_sub, where now = now and f = f]
  by (simp add: transition_requests_for_judit_request_def transition_many_def prog_simps)

definition requests_of_version :: "uuid \<Rightarrow> db \<Rightarrow> uuid list" where
  "requests_of_version vid d = map r_id (filter (\<lambda>r. r_version r = Some vid) (requests d))"

lemma version_touched:
  assumes "distinct (map r_id (requests d))"
  shows "\<exists>n. transition_requests_for_version now vid (status_name st) f d =
    (d\<lparr>requests := map (touched now st (f\<lparr>tf_version := Some vid\<rparr>) (set (requests_of_version vid d)))
        (requests d)\<rparr>, Inr n)"
proof -
  have "set (requests_of_version vid d) \<subseteq> r_id ` set (requests d)"
    by (auto simp: requests_of_version_def)
  from transition_ids_touched [OF assms status_of_name this, where now = now and f = "f\<lparr>tf_version := Some vid\<rparr>"]
  show ?thesis
    by (simp add: transition_requests_for_version_def requests_of_version_def transition_many_def prog_simps)
qed

lemma requests_of_version_touched:
  assumes "distinct (map r_id (requests d))"
  shows "set (requests_of_version vid (d\<lparr>requests := map (touched now st
      (f\<lparr>tf_version := Some vid\<rparr>) (set (requests_of_version vid d))) (requests d)\<rparr>)) =
    set (requests_of_version vid d)"
proof -
  let ?t = "touched now st (f\<lparr>tf_version := Some vid\<rparr>) (set (requests_of_version vid d))"
  have own: "r_version x = Some vid" if "x \<in> set (requests d)" "r_id x \<in> set (requests_of_version vid d)" for x
    using that assms by (auto simp: requests_of_version_def distinct_map inj_on_def)
  have "r_version (?t x) = Some vid \<longleftrightarrow> r_version x = Some vid" if "x \<in> set (requests d)" for x
    using own [OF that] by (simp add: touched_def transition_row_def coalesce_def)
  then have "filter (\<lambda>x. r_version (?t x) = Some vid) (requests d) =
      filter (\<lambda>x. r_version x = Some vid) (requests d)"
    by (intro filter_cong) simp_all
  then show ?thesis by (simp add: requests_of_version_def filter_map o_def)
qed

subsection \<open>The exact effect of a reconciliation\<close>

definition reconcile_targets :: "(json \<Rightarrow> string) \<Rightarrow> pydict \<Rightarrow> uuid \<Rightarrow> db \<Rightarrow> uuid set" where
  "reconcile_targets rp payload vid d = set (case payload_truthy payload ''judit_request_id'' of
     Some jid \<Rightarrow> requests_of_judit (py_str rp jid) d | None \<Rightarrow> requests_of_version vid d)"

lemma load_ignores_requests:
  "load_summary_claim_evidence sid (d\<lparr>requests := x\<rparr>) = load_summary_claim_evidence sid d"
proof -
  have "claim_in_scope (d\<lparr>requests := x\<rparr>) sid = claim_in_scope d sid"
    by (rule ext) (simp add: claim_in_scope_def)
  moreover have "sources_of (d\<lparr>requests := x\<rparr>) c = sources_of d c" for c
    by (simp add: sources_of_def source_admitted_def cong: option.case_cong)
  ultimately show ?thesis by (simp add: load_summary_claim_evidence_def)
qed

lemma passes_ignores_requests:
  "summary_passes rp parse (d\<lparr>requests := x\<rparr>) result row = summary_passes rp parse d result row"
  by (simp add: summary_passes_def load_ignores_requests split: option.split)

lemma current_ignores_requests: "current_summary pid vid (d\<lparr>requests := x\<rparr>) = current_summary pid vid d"
  by (simp add: current_summary_def split: option.split)

lemma job_touched:
  assumes "distinct (map r_id (requests d))" "payload_uuid rp payload ''version_id'' = Inr vid"
  shows "\<exists>n. transition_job_public_requests rp now generation_task payload (status_name st) err d =
    (d\<lparr>requests := map (touched now st (case payload_truthy payload ''judit_request_id'' of
          Some _ \<Rightarrow> no_fields\<lparr>tf_error := err\<rparr>
        | None \<Rightarrow> no_fields\<lparr>tf_error := err, tf_version := Some vid\<rparr>)
        (reconcile_targets rp payload vid d)) (requests d)\<rparr>, Inr n)"
proof (cases "payload_truthy payload ''judit_request_id''")
  case None
  from version_touched [OF assms(1), of now vid st "no_fields\<lparr>tf_error := err\<rparr>"] None assms(2)
  show ?thesis
    by (auto simp: transition_job_public_requests_def generation_task_def Let_def try_except_def
        reconcile_targets_def prog_simps)
next
  case (Some jid)
  from judit_touched [OF assms(1), of now "py_str rp jid" st "no_fields\<lparr>tf_error := err\<rparr>"] Some
  show ?thesis
    by (auto simp: transition_job_public_requests_def generation_task_def Let_def try_except_def
        reconcile_targets_def prog_simps)
qed

lemma two_updates:
  "m = (d\<lparr>requests := x\<rparr>\<lparr>requests := map h (requests (d\<lparr>requests := x\<rparr>))\<rparr>, y) \<Longrightarrow>
   \<exists>d'. m = (d', y) \<and> requests d' = map h x"
  by simp

lemma reconcile_run:
  assumes "distinct (map r_id (requests d))"
    "payload_uuid rp payload ''process_id'' = Inr pid" "payload_uuid rp payload ''version_id'' = Inr vid"
    "summary_passes rp parse d result (current_summary pid vid d) = Inr passed"
  shows "\<exists>d' f g. reconcile_generation_result rp parse now payload result d = (d', Inr ()) \<and>
    requests d' = map (touched now (outcome_status passed) f (reconcile_targets rp payload vid d))
      (map (touched now Validating g (reconcile_targets rp payload vid d)) (requests d))"
proof -
  let ?T = "reconcile_targets rp payload vid d"
  let ?g = "case payload_truthy payload ''judit_request_id'' of
          Some _ \<Rightarrow> no_fields\<lparr>tf_error := None\<rparr> | None \<Rightarrow> no_fields\<lparr>tf_error := None, tf_version := Some vid\<rparr>"
  let ?d1 = "d\<lparr>requests := map (touched now Validating ?g ?T) (requests d)\<rparr>"
  from job_touched [OF assms(1,3), of now Validating None] obtain n where
    job: "transition_job_public_requests rp now generation_task payload ''validating'' None d = (?d1, Inr n)"
    by auto
  have dist: "distinct (map r_id (requests ?d1))" using assms(1) by (simp add: o_def)
  let ?f = "outcome_fields pid vid result (current_summary pid vid d) passed"
  note run = assms(2-4) job reconcile_generation_result_def prog_simps current_ignores_requests
    passes_ignores_requests Let_def
  show ?thesis
  proof (cases "payload_truthy payload ''judit_request_id''")
    case None
    from version_touched [OF dist, of now vid "outcome_status passed" ?f] obtain m where
      v: "transition_requests_for_version now vid (status_name (outcome_status passed)) ?f ?d1 =
        (?d1\<lparr>requests := map (touched now (outcome_status passed) (?f\<lparr>tf_version := Some vid\<rparr>)
           (set (requests_of_version vid ?d1))) (requests ?d1)\<rparr>, Inr m)" by blast
    have t: "set (requests_of_version vid ?d1) = ?T"
      using requests_of_version_touched [OF assms(1), of vid now Validating no_fields] None
      by (simp add: reconcile_targets_def no_fields_def)
    have "reconcile_generation_result rp parse now payload result d =
        (?d1\<lparr>requests := map (touched now (outcome_status passed) (?f\<lparr>tf_version := Some vid\<rparr>) ?T)
          (requests ?d1)\<rparr>, Inr ())"
      using v unfolding t by (simp add: run None del: map_map)
    from two_updates [OF this] show ?thesis by blast
  next
    case (Some jid)
    from judit_touched [OF dist, of now "py_str rp jid" "outcome_status passed" ?f] obtain m where
      v: "transition_requests_for_judit_request now (py_str rp jid) (status_name (outcome_status passed)) ?f ?d1 =
        (?d1\<lparr>requests := map (touched now (outcome_status passed) ?f
           (set (requests_of_judit (py_str rp jid) ?d1))) (requests ?d1)\<rparr>, Inr m)" by blast
    have t: "set (requests_of_judit (py_str rp jid) ?d1) = ?T"
      using Some by (simp add: reconcile_targets_def requests_of_judit_touched)
    have "reconcile_generation_result rp parse now payload result d =
        (?d1\<lparr>requests := map (touched now (outcome_status passed) ?f ?T) (requests ?d1)\<rparr>, Inr ())"
      using v unfolding t by (simp add: run Some del: map_map)
    from two_updates [OF this] show ?thesis by blast
  qed
qed

lemma reconcile_effect:
  assumes "distinct (map r_id (requests d))"
    "payload_uuid rp payload ''process_id'' = Inr pid" "payload_uuid rp payload ''version_id'' = Inr vid"
    "reconcile_generation_result rp parse now payload result d = (d', Inr ())"
  shows "\<exists>passed g f. summary_passes rp parse d result (current_summary pid vid d) = Inr passed \<and>
    requests d' = map (touched now (outcome_status passed) f (reconcile_targets rp payload vid d))
      (map (touched now Validating g (reconcile_targets rp payload vid d)) (requests d))"
proof -
  from job_touched [OF assms(1,3), of now Validating None] obtain x n where
    job: "transition_job_public_requests rp now generation_task payload ''validating'' None d =
      (d\<lparr>requests := x\<rparr>, Inr n)"
    by auto
  obtain passed where passed: "summary_passes rp parse d result (current_summary pid vid d) = Inr passed"
    using assms(2-4) job
    by (cases "summary_passes rp parse d result (current_summary pid vid d)")
      (auto simp: reconcile_generation_result_def prog_simps current_ignores_requests passes_ignores_requests)
  from reconcile_run [OF assms(1-3) passed, of now] assms(4) passed show ?thesis by fastforce
qed

lemma summary_passes_True:
  assumes "summary_passes rp parse d result (current_summary pid vid d) = Inr True"
  shows "\<exists>s p. current_summary pid vid d = Some (s, p) \<and> sm_passed s \<and> result_passed result \<and>
    p_current p = Some vid \<and>
    (if 0 < p_secrecy p then is_restricted_local_summary rp parse s p
     else \<exists>doc. generated_document parse (sm_structured s) = Inr doc \<and>
       claim_evidence_is_publishable rp parse doc (load_summary_claim_evidence (sm_id s) d) p = Inr True)"
proof -
  from assms obtain s p where row: "current_summary pid vid d = Some (s, p)"
    by (auto simp: summary_passes_def split: option.splits)
  then have "p_current p = Some vid"
    by (auto simp: current_summary_def find_Some_iff split: option.splits)
  with assms row show ?thesis
    by (auto simp: summary_passes_def split: if_splits)
qed

lemma nonterminal_to_validating: "\<not> terminal st \<Longrightarrow> transition_allowed st Validating"
  by (cases st) (simp_all add: status_table upt_rec)

lemma touched_status:
  "r_status (touched now st f ids r) =
     (if r_id r \<in> ids \<and> transition_allowed (r_status r) st then st else r_status r)"
  by (simp add: touched_def)

lemma outcome_terminal: "terminal (outcome_status passed)"
  by (simp add: outcome_status_def terminal_def terminal_statuses_def)

lemma outcome_of_two:
  "r_status (touched now (outcome_status passed) f ids (touched now Validating f0 ids r)) =
     (if r_id r \<in> ids \<and> \<not> terminal (r_status r) then outcome_status passed else r_status r)"
proof (cases "r_id r \<in> ids \<and> \<not> terminal (r_status r)")
  case True
  moreover have "transition_allowed Validating (outcome_status passed)"
    by (cases passed) (simp_all add: outcome_status_def status_table)
  ultimately show ?thesis by (simp add: touched_status nonterminal_to_validating)
next
  case False
  have "\<not> terminal Validating" by (simp add: terminal_def terminal_statuses_def)
  with False show ?thesis
    using terminal_absorbing [of "r_status r" Validating]
      terminal_absorbing [of "r_status r" "outcome_status passed"]
    by (auto simp: touched_status)
qed

subsection \<open>A secret process with its local summary\<close>

lemma decode_obj: "decode_json_object parse label (JObj kvs) = Inr (map (\<lambda>(k, w). (JStr k, w)) kvs)"
  by (simp add: decode_json_object_def decode_json_value_def py_dict_def)

lemma obj_of_decoded: "obj_of_pydict (map (\<lambda>(k, w). (JStr k, w)) kvs) = kvs"
  by (induction kvs) (auto simp: obj_of_pydict_def)

lemma document_of_decoded: "document_of_pydict (map (\<lambda>(k, w). (JStr k, w)) kvs) = JObj kvs"
  using obj_of_decoded [of kvs] by (auto simp: document_of_pydict_def list_all_iff)

definition secret_context :: "(string \<times> json) list" where
  "secret_context = [(''code'', JStr ''1''), (''class_name'', JNull), (''court'', JNull),
     (''header'', JObj []), (''parties'', JArr [])]"

definition secret_process :: process_row where
  "secret_process = \<lparr>p_id = 3, p_code = ''1'', p_current = Some 2, p_court = JNull, p_class = JNull,
     p_subjects = JNull, p_parties = JNull, p_representatives = JNull, p_secrecy = 1, p_header = JNull,
     p_updated = 0\<rparr>"

definition secret_summary :: summary_row where
  "secret_summary = \<lparr>sm_id = 1, sm_process = 3, sm_version = 2,
     sm_structured = structured_summary_document no_repr restricted_summary_payload secret_context,
     sm_model = restricted_model, sm_prompt = restricted_prompt_version, sm_passed = True, sm_errors = [], sm_markdown = [],
       sm_generation_ms = 0, sm_usage = JObj [], sm_cache_hit = None, sm_cost = None, sm_flags = [], sm_created = 0\<rparr>"

definition secret_req :: summary_request where
  "secret_req = (new_request 1 0 5 ''1'' ''key'' ''fp'' ''jsx'')\<lparr>r_version := Some 2\<rparr>"

definition secret_db :: db where
  "secret_db = empty_db\<lparr>requests := [secret_req], processes := [secret_process], summaries := [secret_summary]\<rparr>"

definition secret_payload :: pydict where
  "secret_payload = [(JStr ''process_id'', JStr (uuid_str 3)), (JStr ''version_id'', JStr (uuid_str 2))]"

definition success_result :: "(string \<times> json) list" where
  "success_result = [(''validation'', JObj [(''passed'', JBool True)])]"

lemma secret_parsed:
  "structured_summary_of no_repr (JObj restricted_summary_payload) = Inr restricted_summary_payload"
  by code_simp

lemma secret_restricted: "is_restricted_local_summary no_repr (\<lambda>_. None) secret_summary secret_process"
proof -
  let ?doc = "structured_summary_document no_repr restricted_summary_payload secret_context"
  have room: "room_for_guards restricted_summary_payload" by code_simp
  have ctx: "context_ok secret_context" by code_simp
  have doc: "?doc = JObj (as_obj ?doc)" by (simp add: structured_summary_document_def)
  have "decode_json_object (\<lambda>_. None) l ?doc = Inr (map (\<lambda>(k, w). (JStr k, w)) (as_obj ?doc))" for l
    by (subst doc, subst decode_obj) simp
  moreover have "document_of_pydict (map (\<lambda>(k, w). (JStr k, w)) (as_obj ?doc)) = ?doc"
    by (simp add: document_of_decoded doc [symmetric])
  moreover have "restricted_public_header [] = []"
    by (simp add: restricted_public_header_def obj_get_def)
  moreover have "obj_get (as_obj ?doc) ''summary'' = JObj restricted_summary_payload"
    unfolding structured_summary_document_def document_summary [OF secret_parsed] by (simp add: obj_get_def)
  moreover have "py_eq (JObj restricted_summary_payload) (JObj restricted_summary_payload)"
    using payload_plain [OF secret_parsed] unfolding plain_json_def by (intro py_eq_refl) blast+
  ultimately show ?thesis
    using document_matches [OF secret_parsed room ctx]
    by (simp add: is_restricted_local_summary_def secret_summary_def secret_process_def
        decode_json_object_def [of _ _ JNull] obj_of_pydict_def secret_context_def)
qed

lemma secret_row: "current_summary 3 2 secret_db = Some (secret_summary, secret_process)"
  by (simp add: current_summary_def secret_db_def secret_summary_def secret_process_def)

lemma secret_passes: "summary_passes no_repr (\<lambda>_. None) secret_db success_result (current_summary 3 2 secret_db) =
    Inr True"
proof -
  have "result_passed success_result"
    by (simp add: result_passed_def success_result_def obj_get_def)
  moreover have "sm_passed secret_summary" "0 < p_secrecy secret_process"
    by (simp_all add: secret_summary_def secret_process_def)
  ultimately show ?thesis
    using secret_restricted by (simp add: secret_row summary_passes_def)
qed

lemma secret_uuids: "payload_uuid no_repr secret_payload ''process_id'' = Inr 3"
    "payload_uuid no_repr secret_payload ''version_id'' = Inr 2"
  by (simp_all add: payload_uuid_def payload_item_def secret_payload_def dict_get_def parse_uuid_str)

lemma secret_target: "reconcile_targets no_repr secret_payload 2 secret_db = {1}"
  by (simp add: reconcile_targets_def payload_truthy_def secret_payload_def dict_get_def
      requests_of_version_def secret_db_def secret_req_def new_request_def)

lemma secret_inv: "lifecycle_inv secret_db"
  by (simp add: lifecycle_inv_def secret_db_def secret_req_def new_request_def empty_db_def request_ok_def
      link_ok_def terminal_def terminal_statuses_def)

lemma secret_distinct: "distinct (map r_id (requests secret_db))"
  by (simp add: secret_db_def)

lemma secret_request: "row_by r_id 1 (requests secret_db) = Some secret_req"
  by (simp add: secret_db_def row_by_def secret_req_def new_request_def)

lemma secret_open: "\<not> terminal (r_status secret_req)" "r_status secret_req \<noteq> SummaryCompleted"
  by (simp_all add: secret_req_def new_request_def terminal_def terminal_statuses_def)

subsection \<open>Properties\<close>

text \<open>Reconciling a finished generation gives every request it concerns its outcome: requests
  of the Judit request (or of the version) that were not yet terminal end as completed when the
  stored summary passes the publication gate and as validation_failed otherwise; requests
  already terminal keep their status, and no other request changes at all.\<close>

theorem reconcile_decides_requests:
  assumes "lifecycle_inv d"
    and "payload_uuid rp payload ''process_id'' = Inr pid" "payload_uuid rp payload ''version_id'' = Inr vid"
    and "reconcile_generation_result rp parse now payload result d = (d', Inr ())"
  shows "\<exists>passed. summary_passes rp parse d result (current_summary pid vid d) = Inr passed \<and>
    (\<forall>k r. row_by r_id k (requests d) = Some r \<longrightarrow>
       (\<exists>r'. row_by r_id k (requests d') = Some r' \<and>
         r_status r' = (if k \<in> reconcile_targets rp payload vid d \<and> \<not> terminal (r_status r)
                        then outcome_status passed else r_status r) \<and>
         (k \<notin> reconcile_targets rp payload vid d \<longrightarrow> r' = r)))"
proof -
  let ?T = "reconcile_targets rp payload vid d"
  have "distinct (map r_id (requests d))" using assms(1) by (simp add: lifecycle_inv_def)
  from reconcile_effect [OF this assms(2-4)] obtain passed f0 f where
    passed: "summary_passes rp parse d result (current_summary pid vid d) = Inr passed"
    and rows: "requests d' = map (touched now (outcome_status passed) f ?T)
      (map (touched now Validating f0 ?T) (requests d))"
    by blast
  have "\<exists>r'. row_by r_id k (requests d') = Some r' \<and>
         r_status r' = (if k \<in> ?T \<and> \<not> terminal (r_status r) then outcome_status passed else r_status r) \<and>
         (k \<notin> ?T \<longrightarrow> r' = r)"
    if "row_by r_id k (requests d) = Some r" for k r
    using that row_by_Some [OF that]
    by (auto simp: rows row_by_touched outcome_of_two simp del: map_map) (auto simp: touched_def)
  with passed show ?thesis by blast
qed

theorem reconcile_decides_requests_witness:
  "\<exists>d'. reconcile_generation_result no_repr (\<lambda>_. None) 9 secret_payload [] secret_db = (d', Inr ()) \<and>
    (\<exists>r'. row_by r_id 1 (requests d') = Some r' \<and> r_status r' = ValidationFailed)"
proof -
  have fails: "summary_passes no_repr (\<lambda>_. None) secret_db [] (current_summary 3 2 secret_db) = Inr False"
    by (simp add: secret_row summary_passes_def result_passed_def obj_get_def)
  from reconcile_run [OF secret_distinct secret_uuids fails, of 9] obtain d' where
    run: "reconcile_generation_result no_repr (\<lambda>_. None) 9 secret_payload [] secret_db = (d', Inr ())"
    by blast
  from reconcile_decides_requests [OF secret_inv secret_uuids run] obtain passed where
    p: "summary_passes no_repr (\<lambda>_. None) secret_db [] (current_summary 3 2 secret_db) = Inr passed"
    and decided: "\<forall>k r. row_by r_id k (requests secret_db) = Some r \<longrightarrow>
       (\<exists>r'. row_by r_id k (requests d') = Some r' \<and>
         r_status r' = (if k \<in> reconcile_targets no_repr secret_payload 2 secret_db \<and> \<not> terminal (r_status r)
                        then outcome_status passed else r_status r) \<and>
         (k \<notin> reconcile_targets no_repr secret_payload 2 secret_db \<longrightarrow> r' = r))"
    by blast
  have "passed = False" using p fails by simp
  with decided secret_request obtain r' where
    "row_by r_id 1 (requests d') = Some r'"
    "r_status r' = (if 1 \<in> reconcile_targets no_repr secret_payload 2 secret_db \<and> \<not> terminal (r_status secret_req)
       then outcome_status False else r_status secret_req)"
    by blast
  with run show ?thesis by (simp add: secret_target secret_open outcome_status_def)
qed

text \<open>C1: Publication safety. A request can become completed through a generation result only when
  the current version has a stored summary whose validation passed, the handler reported success,
  and the summary is the fixed local text of a secret process, or the very document stored with it is
  publishable for the process with the claim evidence stored for it.\<close>

theorem completed_requires_publication:
  assumes "lifecycle_inv d"
    and "payload_uuid rp payload ''process_id'' = Inr pid" "payload_uuid rp payload ''version_id'' = Inr vid"
    and "reconcile_generation_result rp parse now payload result d = (d', Inr ())"
    and "row_by r_id k (requests d) = Some r" "r_status r \<noteq> SummaryCompleted"
    and "row_by r_id k (requests d') = Some r'" "r_status r' = SummaryCompleted"
  shows "\<exists>s p. current_summary pid vid d = Some (s, p) \<and> sm_passed s \<and> result_passed result \<and>
    p_current p = Some vid \<and>
    (if 0 < p_secrecy p then is_restricted_local_summary rp parse s p
     else \<exists>doc. generated_document parse (sm_structured s) = Inr doc \<and>
       claim_evidence_is_publishable rp parse doc (load_summary_claim_evidence (sm_id s) d) p = Inr True)"
proof -
  let ?T = "reconcile_targets rp payload vid d"
  have "distinct (map r_id (requests d))" using assms(1) by (simp add: lifecycle_inv_def)
  from reconcile_effect [OF this assms(2-4)] obtain passed f0 f where
    passed: "summary_passes rp parse d result (current_summary pid vid d) = Inr passed"
    and rows: "requests d' = map (touched now (outcome_status passed) f ?T)
      (map (touched now Validating f0 ?T) (requests d))"
    by blast
  have "r_status r' = (if k \<in> ?T \<and> \<not> terminal (r_status r) then outcome_status passed else r_status r)"
    using assms(5,7) row_by_Some [OF assms(5)]
    by (auto simp: rows row_by_touched outcome_of_two simp del: map_map)
  with assms(6,8) have "passed" by (auto simp: outcome_status_def split: if_splits)
  with passed show ?thesis using summary_passes_True by auto
qed

theorem completed_requires_publication_witness:
  "\<exists>s p. current_summary 3 2 secret_db = Some (s, p) \<and> sm_passed s \<and> result_passed success_result"
proof -
  from reconcile_run [OF secret_distinct secret_uuids secret_passes, of 9] obtain d' f g where
    run: "reconcile_generation_result no_repr (\<lambda>_. None) 9 secret_payload success_result secret_db = (d', Inr ())"
    and rows: "requests d' = map (touched 9 (outcome_status True) f (reconcile_targets no_repr secret_payload 2 secret_db))
      (map (touched 9 Validating g (reconcile_targets no_repr secret_payload 2 secret_db)) (requests secret_db))"
    by blast
  have "row_by r_id 1 (requests d') = Some (touched 9 (outcome_status True) f
      (reconcile_targets no_repr secret_payload 2 secret_db)
      (touched 9 Validating g (reconcile_targets no_repr secret_payload 2 secret_db) secret_req))"
    using secret_request by (simp add: rows row_by_touched del: map_map)
  moreover have "r_status (touched 9 (outcome_status True) f (reconcile_targets no_repr secret_payload 2 secret_db)
      (touched 9 Validating g (reconcile_targets no_repr secret_payload 2 secret_db) secret_req)) = SummaryCompleted"
    using row_by_Some [OF secret_request]
    by (simp only: outcome_of_two secret_target secret_open) (simp add: outcome_status_def)
  ultimately show ?thesis
    using completed_requires_publication [OF secret_inv secret_uuids run secret_request secret_open(2)] by blast
qed

end
