(* ===== verification/PyRe.thy ===== *)
theory PyRe
  imports PyStr
begin

text \<open>
  The backtracking matcher of Python's \<open>re\<close> module for the constructs the sources use. A match
  state is the text consumed so far (reversed), the text ahead and the captured groups; the run
  of a pattern lists the states it can reach, in the order the matcher tries them.
\<close>

subsection \<open>Patterns\<close>

datatype regex =
    RChar "char \<Rightarrow> bool"
  | REmpty
  | RSeq regex regex
  | RAlt regex regex
  | RStar regex
  | RGroup nat regex
  | RBackref nat
  | RBoundary
  | RLook "string \<Rightarrow> string \<Rightarrow> bool"

type_synonym mstate = "string \<times> string \<times> (nat \<times> string) list"

abbreviation ahead :: "mstate \<Rightarrow> string" where
  "ahead st \<equiv> fst (snd st)"

text \<open>\<open>\w\<close> and \<open>\b\<close> on the alphabet of the development.\<close>

definition word_char :: "char \<Rightarrow> bool" where
  "word_char c \<longleftrightarrow> isdigit_c c \<or> c = CHR ''_'' \<or> (65 \<le> ord c \<and> ord c \<le> 90) \<or> (97 \<le> ord c \<and> ord c \<le> 122) \<or>
     ord c \<in> {170, 181, 186, 188, 189, 190} \<or> (192 \<le> ord c \<and> ord c \<noteq> 215 \<and> ord c \<noteq> 247)"

definition word_at :: "string \<Rightarrow> bool" where
  "word_at s = (case s of [] \<Rightarrow> False | c # _ \<Rightarrow> word_char c)"

text \<open>A lookaround \<open>RLook\<close> tests the text before, reversed, and the text ahead.\<close>

text \<open>The greedy star: more rounds first, a round that consumes nothing ends the loop.\<close>

fun star_run :: "(mstate \<Rightarrow> mstate list) \<Rightarrow> nat \<Rightarrow> mstate \<Rightarrow> mstate list" where
  "star_run f 0 st = [st]"
| "star_run f (Suc n) st =
     concat (map (\<lambda>t. if length (ahead t) < length (ahead st) then star_run f n t else []) (f st)) @ [st]"

fun re_run :: "regex \<Rightarrow> mstate \<Rightarrow> mstate list" where
  "re_run (RChar p) st = (case st of (b, cs, g) \<Rightarrow>
     (case cs of [] \<Rightarrow> [] | c # ds \<Rightarrow> (if p c then [(c # b, ds, g)] else [])))"
| "re_run REmpty st = [st]"
| "re_run (RSeq r q) st = concat (map (re_run q) (re_run r st))"
| "re_run (RAlt r q) st = re_run r st @ re_run q st"
| "re_run (RStar r) st = star_run (re_run r) (length (ahead st)) st"
| "re_run (RGroup k r) st = (case st of (b, cs, g) \<Rightarrow>
     map (\<lambda>(b', cs', g'). (b', cs', (k, take (length cs - length cs') cs) # g')) (re_run r st))"
| "re_run (RBackref k) st = (case st of (b, cs, g) \<Rightarrow>
     (case map_of g k of None \<Rightarrow> []
      | Some w \<Rightarrow> (if prefix w cs then [(rev w @ b, drop (length w) cs, g)] else [])))"
| "re_run RBoundary st = (case st of (b, cs, g) \<Rightarrow>
     (if word_at b \<noteq> word_at cs then [st] else []))"
| "re_run (RLook p) st = (case st of (b, cs, g) \<Rightarrow> (if p b cs then [st] else []))"

definition rplus :: "regex \<Rightarrow> regex" where "rplus r = RSeq r (RStar r)"
definition ropt :: "regex \<Rightarrow> regex" where "ropt r = RAlt r REmpty"

fun rpow :: "nat \<Rightarrow> regex \<Rightarrow> regex" where
  "rpow 0 r = REmpty"
| "rpow (Suc n) r = RSeq r (rpow n r)"

definition rin :: "string \<Rightarrow> regex" where "rin s = RChar (\<lambda>c. c \<in> set s)"
definition rspace :: regex where "rspace = RChar isspace_c"
definition digit_re :: regex where "digit_re = RChar isdecimal_c"
definition rdigits :: "nat \<Rightarrow> regex" where "rdigits n = rpow n digit_re"

text \<open>A character of a class under \<open>IGNORECASE\<close>, and between \<open>m\<close> and \<open>m + n\<close> rounds, the most first.\<close>

definition rin_ci :: "string \<Rightarrow> regex" where "rin_ci s = RChar (\<lambda>c. lower_c c \<in> set (map lower_c s))"

fun rupto :: "nat \<Rightarrow> regex \<Rightarrow> regex" where
  "rupto 0 r = REmpty"
| "rupto (Suc n) r = RAlt (RSeq r (rupto n r)) REmpty"

definition rrange :: "nat \<Rightarrow> nat \<Rightarrow> regex \<Rightarrow> regex" where
  "rrange m n r = RSeq (rpow m r) (rupto n r)"

fun rseqs :: "regex list \<Rightarrow> regex" where
  "rseqs [] = REmpty"
| "rseqs [r] = r"
| "rseqs (r # rs) = RSeq r (rseqs rs)"

text \<open>\<open>(?<!p)\<close> and \<open>(?!p)\<close> of one character; \<open>^\<close> and \<open>$\<close> under \<open>MULTILINE\<close>.\<close>

definition rnot_before :: "(char \<Rightarrow> bool) \<Rightarrow> regex" where
  "rnot_before p = RLook (\<lambda>b _. case b of [] \<Rightarrow> True | c # _ \<Rightarrow> \<not> p c)"

definition rnot_after :: "(char \<Rightarrow> bool) \<Rightarrow> regex" where
  "rnot_after p = RLook (\<lambda>_ s. case s of [] \<Rightarrow> True | c # _ \<Rightarrow> \<not> p c)"

definition rline_start :: regex where
  "rline_start = RLook (\<lambda>b _. b = [] \<or> hd b = CHR 0x0A)"

definition rline_end :: regex where
  "rline_end = RLook (\<lambda>_ s. s = [] \<or> hd s = CHR 0x0A)"

text \<open>A literal, and a literal under \<open>IGNORECASE\<close>.\<close>

definition rlit :: "string \<Rightarrow> regex" where
  "rlit s = foldr (\<lambda>x r. RSeq (RChar (\<lambda>c. c = x)) r) s REmpty"

definition rlit_ci :: "string \<Rightarrow> regex" where
  "rlit_ci s = foldr (\<lambda>x r. RSeq (RChar (\<lambda>c. lower_c c = lower_c x)) r) s REmpty"

fun ralts :: "regex list \<Rightarrow> regex" where
  "ralts [] = RAlt (RChar (\<lambda>_. False)) (RChar (\<lambda>_. False))"
| "ralts [r] = r"
| "ralts (r # rs) = RAlt r (ralts rs)"

definition alnum_ascii :: "char \<Rightarrow> bool" where
  "alnum_ascii c \<longleftrightarrow> (48 \<le> ord c \<and> ord c \<le> 57) \<or> (65 \<le> ord c \<and> ord c \<le> 90) \<or> (97 \<le> ord c \<and> ord c \<le> 122)"

definition alpha_ascii :: "char \<Rightarrow> bool" where
  "alpha_ascii c \<longleftrightarrow> (65 \<le> ord c \<and> ord c \<le> 90) \<or> (97 \<le> ord c \<and> ord c \<le> 122)"

subsection \<open>Matching and substituting\<close>

definition group_of :: "(nat \<times> string) list \<Rightarrow> nat \<Rightarrow> string" where
  "group_of g k = (case map_of g k of None \<Rightarrow> [] | Some w \<Rightarrow> w)"

definition re_fullmatch :: "regex \<Rightarrow> string \<Rightarrow> bool" where
  "re_fullmatch r s \<longleftrightarrow> (\<exists>st \<in> set (re_run r ([], s, [])). ahead st = [])"

text \<open>
  \<open>r.sub(f, s)\<close>, left to right, for patterns that never match the empty text (every pattern
  substituted here contains a character outside a star).
\<close>

function re_sub :: "regex \<Rightarrow> ((nat \<times> string) list \<Rightarrow> string) \<Rightarrow> string \<Rightarrow> string \<Rightarrow> string" where
  "re_sub r f b [] = []"
| "re_sub r f b (c # cs) = (case re_run r (b, c # cs, []) of
       [] \<Rightarrow> c # re_sub r f (c # b) cs
     | (b', ds, g) # _ \<Rightarrow> (if length ds \<le> length cs then f g @ re_sub r f b' ds
                          else c # re_sub r f (c # b) cs))"
  by pat_completeness auto
termination
  by (relation "measure (\<lambda>(_, _, _, s). length s)") auto

text \<open>
  \<open>r.search(s)\<close> from a position: the text before the match, reversed, the match, the text after it
  and the groups. \<open>r.finditer(s)\<close>: the matches with their groups, for the same patterns.
\<close>

fun re_find :: "regex \<Rightarrow> string \<Rightarrow> string \<Rightarrow> (string \<times> string \<times> string \<times> (nat \<times> string) list) option" where
  "re_find r b [] = (case re_run r (b, [], []) of [] \<Rightarrow> None | (b', ds, g) # _ \<Rightarrow> Some (b, [], ds, g))"
| "re_find r b (c # cs) = (case re_run r (b, c # cs, []) of
       [] \<Rightarrow> re_find r (c # b) cs
     | (b', ds, g) # _ \<Rightarrow> Some (b, take (Suc (length cs) - length ds) (c # cs), ds, g))"

definition re_search :: "regex \<Rightarrow> string \<Rightarrow> bool" where
  "re_search r s \<longleftrightarrow> re_find r [] s \<noteq> None"

function re_finditer :: "regex \<Rightarrow> string \<Rightarrow> string \<Rightarrow> (string \<times> (nat \<times> string) list) list" where
  "re_finditer r b [] = []"
| "re_finditer r b (c # cs) = (case re_run r (b, c # cs, []) of
       [] \<Rightarrow> re_finditer r (c # b) cs
     | (b', ds, g) # _ \<Rightarrow> (if length ds \<le> length cs
          then (take (Suc (length cs) - length ds) (c # cs), g) # re_finditer r b' ds
          else re_finditer r (c # b) cs))"
  by pat_completeness auto
termination
  by (relation "measure (\<lambda>(_, _, s). length s)") auto

definition re_matches :: "regex \<Rightarrow> string \<Rightarrow> string list" where
  "re_matches r s = map fst (re_finditer r [] s)"

definition re_groups :: "regex \<Rightarrow> nat \<Rightarrow> string \<Rightarrow> string list" where
  "re_groups r k s = map (\<lambda>m. group_of (snd m) k) (re_finditer r [] s)"

text \<open>\<open>r.split(s)\<close> for a pattern without groups; \<open>acc\<close> is the current part, reversed.\<close>

function re_split :: "regex \<Rightarrow> string \<Rightarrow> string \<Rightarrow> string \<Rightarrow> string list" where
  "re_split r acc b [] = [rev acc]"
| "re_split r acc b (c # cs) = (case re_run r (b, c # cs, []) of
       [] \<Rightarrow> re_split r (c # acc) (c # b) cs
     | (b', ds, g) # _ \<Rightarrow> (if length ds \<le> length cs then rev acc # re_split r [] b' ds
          else re_split r (c # acc) (c # b) cs))"
  by pat_completeness auto
termination
  by (relation "measure (\<lambda>(_, _, _, s). length s)") auto

text \<open>\<open>s.replace(old, new)\<close> for a non-empty \<open>old\<close>.\<close>

function replace_all :: "string \<Rightarrow> string \<Rightarrow> string \<Rightarrow> string" where
  "replace_all old new [] = []"
| "replace_all old new (c # cs) =
     (if old \<noteq> [] \<and> prefix old (c # cs) then new @ replace_all old new (drop (length old - 1) cs)
      else c # replace_all old new cs)"
  by pat_completeness auto
termination
  by (relation "measure (\<lambda>(_, _, s). length s)") auto

subsection \<open>What a run consumes\<close>

definition consumes :: "mstate \<Rightarrow> mstate \<Rightarrow> bool" where
  "consumes st st' \<longleftrightarrow> (\<exists>w. ahead st = w @ ahead st' \<and> fst st' = rev w @ fst st)"

lemma consumes_refl: "consumes st st"
  by (auto simp: consumes_def)

lemma consumes_trans: "consumes a b \<Longrightarrow> consumes b c \<Longrightarrow> consumes a c"
  by (force simp: consumes_def)

lemma star_run_consumes:
  "(\<And>s t. t \<in> set (f s) \<Longrightarrow> consumes s t) \<Longrightarrow> t \<in> set (star_run f n s) \<Longrightarrow> consumes s t"
proof (induction f n s arbitrary: t rule: star_run.induct)
  case (2 f n s)
  from "2.prems"(2) consider "t = s"
    | u where "u \<in> set (f s)" "length (ahead u) < length (ahead s)" "t \<in> set (star_run f n u)"
    by (simp only: star_run.simps set_append set_concat set_map) (auto simp del: star_run.simps split: if_splits)
  then show ?case
  proof cases
    case 2
    from "2.IH" [OF 2(1,2) "2.prems"(1) 2(3)] "2.prems"(1) [OF 2(1)] show ?thesis
      by (blast intro: consumes_trans)
  qed (simp add: consumes_refl)
qed (simp add: consumes_refl)

lemma re_run_consumes: "t \<in> set (re_run r s) \<Longrightarrow> consumes s t"
proof (induction r arbitrary: s t)
  case (RChar p)
  then show ?case by (auto simp: consumes_def split: prod.splits list.splits if_splits)
next
  case (RSeq r q)
  then obtain u where "u \<in> set (re_run r s)" "t \<in> set (re_run q u)" by auto
  with RSeq.IH show ?case by (blast intro: consumes_trans)
next
  case (RStar r)
  then have "t \<in> set (star_run (re_run r) (length (ahead s)) s)" by simp
  with RStar.IH show ?case by (rule star_run_consumes)
next
  case (RGroup k r)
  obtain b cs g where s: "s = (b, cs, g)" by (cases s)
  with RGroup.prems obtain b' cs' g' where "(b', cs', g') \<in> set (re_run r s)" "ahead t = cs'" "fst t = b'"
    by auto
  with RGroup.IH [OF this(1)] show ?case by (simp add: consumes_def)
next
  case (RBackref k)
  then show ?case by (auto simp: consumes_def prefix_def split: prod.splits option.splits if_splits)
next
  case (RLook p)
  then show ?case by (auto simp: consumes_refl split: prod.splits if_splits)
next
  case RBoundary
  then show ?case by (auto simp: consumes_refl split: prod.splits if_splits)
qed (auto intro: consumes_refl)

lemma re_run_consumed:
  assumes "(b', cs', g') \<in> set (re_run r (b, cs, g))"
  shows "\<exists>w. cs = w @ cs' \<and> b' = rev w @ b"
  using re_run_consumes [OF assms] by (auto simp: consumes_def)

text \<open>A captured group is the text its pattern consumed.\<close>

lemma re_run_group:
  assumes "(b', cs', g') \<in> set (re_run (RGroup k r) (b, cs, g))"
  shows "\<exists>w g1. cs = w @ cs' \<and> b' = rev w @ b \<and> g' = (k, w) # g1 \<and> (b', cs', g1) \<in> set (re_run r (b, cs, g))"
proof -
  from assms obtain g1 where r: "(b', cs', g1) \<in> set (re_run r (b, cs, g))"
      and g: "g' = (k, take (length cs - length cs') cs) # g1"
    by auto
  from re_run_consumed [OF r] obtain w where w: "cs = w @ cs'" "b' = rev w @ b" by blast
  have "take (length cs - length cs') cs = w" by (simp add: w(1))
  with r g w show ?thesis by auto
qed

end
