(* ===== verification/LogSafety.thy ===== *)
theory LogSafety
  imports PyRe Json
begin

text \<open>
  \<open>app/log_safety.py\<close>: error texts are stripped of credentials before they reach a log or the
  error column of a job. \<open>env\<close> is the process environment, \<open>parse\<close> the syntax analysis of
  \<open>json.loads\<close>, \<open>enum\<close> the order in which Python iterates a set.
\<close>

definition redacted :: string where "redacted = ''[REDACTED]''"
definition max_error_message_chars :: int where "max_error_message_chars = 2000"
definition ellipsis :: char where "ellipsis = CHR 0x81"

definition secret_env_names :: "string list" where
  "secret_env_names = [''ANTHROPIC_API_KEY'', ''OPENAI_API_KEY'', ''JUDIT_API_KEY'', ''DATAJUD_API_KEY'',
     ''COHERE_API_KEY'', ''LANGFUSE_SECRET_KEY'', ''JUDIT_WEBHOOK_TOKEN'', ''RPY_BEARER_TOKENS'',
     ''RPY_DEMO_BEARER_TOKEN'', ''RPY_OPS_TOKEN'', ''POSTGRES_PASSWORD'', ''DATABASE_URL'',
     ''MIGRATION_DATABASE_URL'', ''API_DATABASE_URL'', ''WORKER_DATABASE_URL'', ''SCHEDULER_DATABASE_URL'',
     ''BACKUP_DATABASE_URL'']"

subsection \<open>The patterns\<close>

definition uri_credentials_re :: regex where
  "uri_credentials_re =
     RSeq (RGroup 1 (RSeq (RChar alpha_ascii) (RSeq (RStar (RChar (\<lambda>c. alnum_ascii c \<or> c \<in> set ''+.-''))) (rlit ''://''))))
    (RSeq (RGroup 2 (rplus (RChar (\<lambda>c. \<not> isspace_c c \<and> c \<notin> set ''/:@''))))
    (RSeq (rlit '':'')
    (RSeq (RGroup 3 (rplus (RChar (\<lambda>c. \<not> isspace_c c \<and> c \<notin> set ''/@''))))
          (rlit ''@''))))"

definition authorization_re :: regex where
  "authorization_re =
     RSeq (RGroup 1 (RSeq (rlit_ci ''authorization'') (RSeq (RStar rspace) (RSeq (rin '':='') (RSeq (RStar rspace)
       (RSeq (ralts (map rlit_ci [''bearer'', ''apikey'', ''basic'', ''token'', ''digest'', ''negotiate'', ''oauth'']))
             (rplus rspace)))))))
     (RGroup 2 (rplus (RChar (\<lambda>c. \<not> isspace_c c \<and> c \<notin> set '',;''))))"

definition double_quote :: char where "double_quote = CHR 0x22"
definition single_quote :: char where "single_quote = CHR 0x27"

definition quote_re :: regex where
  "quote_re = ropt (RChar (\<lambda>c. c = double_quote \<or> c = single_quote))"

definition structured_secret_re :: regex where
  "structured_secret_re =
     RSeq (RGroup 1 (RSeq quote_re (RSeq
       (ralts [RSeq (rlit_ci ''api'') (RSeq (ropt (rin ''_-'')) (rlit_ci ''key'')), rlit_ci ''token'',
               RSeq (rlit_ci ''access'') (RSeq (ropt (rin ''_-'')) (rlit_ci ''token'')),
               rlit_ci ''password'', rlit_ci ''secret''])
       (RSeq quote_re (RSeq (RStar rspace) (RSeq (rin ''=:'') (RStar rspace)))))))
    (RSeq (RGroup 2 quote_re)
    (RSeq (RGroup 3 (rplus (RChar (\<lambda>c. \<not> isspace_c c \<and> c \<noteq> double_quote \<and> c \<noteq> single_quote \<and> c \<notin> set '',;&}]''))))
          (RBackref 2)))"

definition key_char :: "char \<Rightarrow> bool" where
  "key_char c \<longleftrightarrow> alnum_ascii c \<or> c = CHR ''_'' \<or> c = CHR ''-''"

definition api_key_token_re :: regex where
  "api_key_token_re =
     RSeq RBoundary (RSeq
       (RAlt (RSeq (rlit ''sk_'') (RSeq (ralts [rlit ''live'', rlit ''test'']) (RSeq (rlit ''_'') (rplus (RChar key_char)))))
             (RSeq (rlit ''sk-'') (RSeq (rpow 12 (RChar key_char)) (RStar (RChar key_char)))))
       RBoundary)"

subsection \<open>Configured secrets\<close>

definition configured_bearer_token_keys :: "(string \<Rightarrow> json option) \<Rightarrow> string \<Rightarrow> string list" where
  "configured_bearer_token_keys parse v =
     (case parse v of Some (JObj kvs) \<Rightarrow> filter (\<lambda>t. 4 \<le> length t) (remdups (map fst kvs)) | _ \<Rightarrow> [])"

definition env_secrets :: "(string \<Rightarrow> json option) \<Rightarrow> (string \<Rightarrow> string option) \<Rightarrow> string list" where
  "env_secrets parse env = concat (map (\<lambda>name. case env name of
       None \<Rightarrow> []
     | Some v \<Rightarrow> (if length v < 4 then []
                 else v # (if name = ''RPY_BEARER_TOKENS'' then configured_bearer_token_keys parse v else [])))
     secret_env_names)"

definition configured_secret_values ::
  "(string list \<Rightarrow> string list) \<Rightarrow> (string \<Rightarrow> json option) \<Rightarrow> (string \<Rightarrow> string option) \<Rightarrow> string list" where
  "configured_secret_values enum parse env =
     sort_key (\<lambda>s. - int (length s)) (enum (remdups (env_secrets parse env)))"

subsection \<open>sanitize\_error\_message\<close>

definition redact_patterns :: "string \<Rightarrow> string" where
  "redact_patterns t =
     re_sub api_key_token_re (\<lambda>_. redacted) []
    (re_sub structured_secret_re (\<lambda>g. group_of g 1 @ group_of g 2 @ redacted @ group_of g 2) []
    (re_sub authorization_re (\<lambda>g. group_of g 1 @ redacted) []
    (re_sub uri_credentials_re (\<lambda>g. group_of g 1 @ group_of g 2 @ '':'' @ redacted @ ''@'') [] t)))"

definition truncated_suffix :: string where
  "truncated_suffix = ellipsis # '' [truncated]''"

definition bound_text :: "int \<Rightarrow> string \<Rightarrow> string" where
  "bound_text max_chars t =
     (if max_chars \<le> 0 then []
      else if max_chars < int (length t) then
        (if max_chars \<le> int (length truncated_suffix) then take (nat max_chars) t
         else take (nat max_chars - length truncated_suffix) t @ truncated_suffix)
      else t)"

text \<open>\<open>t\<close> is \<open>str(value)\<close> of the error.\<close>

definition sanitize_error_message ::
  "(string list \<Rightarrow> string list) \<Rightarrow> (string \<Rightarrow> json option) \<Rightarrow> (string \<Rightarrow> string option) \<Rightarrow> int \<Rightarrow> string \<Rightarrow> string" where
  "sanitize_error_message enum parse env max_chars t =
     bound_text max_chars (redact_patterns
       (fold (\<lambda>secret t. replace_all secret redacted t) (configured_secret_values enum parse env) t))"

subsection \<open>Redactions\<close>

text \<open>\<open>redacts t u\<close>: \<open>u\<close> is \<open>t\<close> with some segments replaced by the mark.\<close>

inductive redacts :: "string \<Rightarrow> string \<Rightarrow> bool" where
  rd_nil: "redacts [] []"
| rd_copy: "redacts t u \<Longrightarrow> redacts (c # t) (c # u)"
| rd_mark: "redacts t u \<Longrightarrow> redacts (w @ t) (redacted @ u)"

inductive_cases redacts_NilE: "redacts [] u"

lemma redacts_app: "redacts t u \<Longrightarrow> redacts (w @ t) (w @ u)"
  by (induction w) (auto intro: rd_copy)

lemma redacts_refl: "redacts t t"
  using redacts_app [OF rd_nil, of t] by simp

text \<open>A text that the marks themselves cannot contain or complete.\<close>

definition plain_secret :: "string \<Rightarrow> bool" where
  "plain_secret s \<longleftrightarrow> s \<noteq> [] \<and> CHR ''['' \<notin> set s \<and> CHR '']'' \<notin> set s \<and> ellipsis \<notin> set s \<and>
     \<not> sublist s ''REDACTED'' \<and> \<not> sublist s '' '' \<and> \<not> sublist s ''truncated''"

lemma redacts_prefix:
  "redacts t u \<Longrightarrow> prefix s u \<Longrightarrow> CHR ''['' \<notin> set s \<Longrightarrow> prefix s t"
proof (induction t u arbitrary: s rule: redacts.induct)
  case (rd_copy t u c)
  then show ?case by (cases s) auto
next
  case (rd_mark t u w)
  then show ?case by (cases s) (auto simp: redacted_def)
qed simp

lemma sublist_cons: "sublist s (c # u) \<longleftrightarrow> prefix s (c # u) \<or> sublist s u"
  by (rule sublist_Cons_right)

text \<open>Inside the mark, a text without brackets stays within its letters.\<close>

lemma prefix_across:
  "prefix s (w @ CHR '']'' # u) \<Longrightarrow> CHR '']'' \<notin> set s \<Longrightarrow> prefix s w"
proof (induction w arbitrary: s)
  case Nil
  then show ?case by (cases s) auto
next
  case (Cons a w)
  then show ?case by (cases s) auto
qed

lemma sublist_across:
  "sublist s (w @ CHR '']'' # u) \<Longrightarrow> CHR '']'' \<notin> set s \<Longrightarrow> s \<noteq> [] \<Longrightarrow> sublist s w \<or> sublist s u"
proof (induction w)
  case Nil
  then show ?case by (cases s) (auto simp: sublist_cons)
next
  case (Cons a w)
  then show ?case
    using prefix_across [of s "a # w" u] by (auto simp: sublist_cons prefix_imp_sublist)
qed

lemma redacts_sublist:
  assumes "redacts t u" "plain_secret s" "sublist s u"
  shows "sublist s t"
  using assms(1,3)
proof (induction rule: redacts.induct)
  case rd_nil
  with assms(2) show ?case by (simp add: plain_secret_def)
next
  case (rd_copy t u c)
  have "prefix s (c # t)" if "prefix s (c # u)"
    using redacts_prefix [OF redacts.rd_copy [OF rd_copy(1)] that] assms(2) by (simp add: plain_secret_def)
  with rd_copy show ?case by (auto simp: sublist_cons)
next
  case (rd_mark t u w)
  have r: "redacted @ u = CHR ''['' # (''REDACTED'' @ CHR '']'' # u)" by (simp add: redacted_def)
  have "\<not> prefix s (redacted @ u)"
    using assms(2) by (cases s) (auto simp: plain_secret_def r)
  with rd_mark(3) have "sublist s (''REDACTED'' @ CHR '']'' # u)" unfolding r by (simp add: sublist_cons)
  then have "sublist s u"
    using assms(2) sublist_across [of s "''REDACTED''" u] by (auto simp: plain_secret_def)
  with rd_mark(2) show ?case by (metis sublist_appendI sublist_order.order.trans append_Nil2)
qed

lemma redacts_absent: "redacts t u \<Longrightarrow> plain_secret s \<Longrightarrow> \<not> sublist s t \<Longrightarrow> \<not> sublist s u"
  using redacts_sublist by blast

subsection \<open>The substitutions only redact\<close>

lemma redacts_append: "redacts w v \<Longrightarrow> redacts t u \<Longrightarrow> redacts (w @ t) (v @ u)"
proof (induction rule: redacts.induct)
  case (rd_mark t' u' w')
  then have "redacts (w' @ t' @ t) (redacted @ u' @ u)" by (intro redacts.rd_mark)
  then show ?case by simp
qed (auto intro: rd_copy)

lemma redacts_segment: "redacts w redacted"
  using rd_mark [OF rd_nil, of w] by simp

lemma re_sub_redacts:
  assumes "\<And>b cs b' ds g. (b', ds, g) \<in> set (re_run r (b, cs, [])) \<Longrightarrow> \<exists>w. cs = w @ ds \<and> redacts w (f g)"
  shows "redacts t (re_sub r f b t)"
proof (induction "length t" arbitrary: t b rule: less_induct)
  case less
  show ?case
  proof (cases t)
    case Nil
    then show ?thesis by (simp add: rd_nil)
  next
    case (Cons c cs)
    have copy: "redacts (c # cs) (c # re_sub r f (c # b) cs)"
      using less.hyps [of cs "c # b"] by (auto simp: Cons intro: rd_copy)
    show ?thesis
    proof (cases "re_run r (b, c # cs, [])")
      case Nil
      with copy show ?thesis by (simp add: Cons)
    next
      case (Cons m ms)
      obtain b' ds g where m: "m = (b', ds, g)" by (cases m)
      show ?thesis
      proof (cases "length ds \<le> length cs")
        case True
        have "(b', ds, g) \<in> set (re_run r (b, c # cs, []))" using Cons m by simp
        from assms [OF this] obtain w where w: "c # cs = w @ ds" "redacts w (f g)" by blast
        have "redacts ds (re_sub r f b' ds)" using True by (intro less.hyps) (simp add: \<open>t = c # cs\<close>)
        with w(2) have "redacts (w @ ds) (f g @ re_sub r f b' ds)" by (rule redacts_append)
        moreover have "re_sub r f b t = f g @ re_sub r f b' ds"
          using Cons m True by (simp add: \<open>t = c # cs\<close>)
        ultimately show ?thesis by (simp only: w(1) [symmetric] \<open>t = c # cs\<close>)
      next
        case False
        with copy Cons m show ?thesis by (simp add: \<open>t = c # cs\<close>)
      qed
    qed
  qed
qed

lemma replace_all_hit:
  assumes "prefix old (c # cs)" "old \<noteq> []"
  obtains ds where "c # cs = old @ ds" "length ds < length (c # cs)"
    "replace_all old new (c # cs) = new @ replace_all old new ds"
proof -
  from assms(1) obtain ds where ds: "c # cs = old @ ds" by (auto simp: prefix_def)
  then have d: "drop (length old - 1) cs = ds" using assms(2) by (cases old) auto
  have "length ds < length (c # cs)" using assms(2) by (simp only: ds length_append) simp
  moreover have "replace_all old new (c # cs) = new @ replace_all old new ds"
    using assms d by simp
  ultimately show thesis by (rule that [OF ds])
qed

lemma replace_all_redacts: "old \<noteq> [] \<Longrightarrow> redacts t (replace_all old redacted t)"
proof (induction "length t" arbitrary: t rule: less_induct)
  case less
  show ?case
  proof (cases t)
    case Nil
    then show ?thesis by (simp add: rd_nil)
  next
    case (Cons c cs)
    show ?thesis
    proof (cases "prefix old (c # cs)")
      case True
      then obtain ds where ds: "c # cs = old @ ds" "length ds < length (c # cs)"
          "replace_all old redacted (c # cs) = redacted @ replace_all old redacted ds"
        using less.prems by (rule replace_all_hit)
      have "redacts ds (replace_all old redacted ds)"
        using ds(2) less.prems by (intro less.hyps) (simp_all add: Cons)
      then show ?thesis unfolding Cons ds(3) by (simp only: ds(1) rd_mark)
    next
      case False
      with less show ?thesis by (simp add: Cons rd_copy)
    qed
  qed
qed

lemma replace_all_removes:
  assumes "plain_secret s"
  shows "\<not> sublist s (replace_all s redacted t)"
proof -
  have ne: "s \<noteq> []" and nb: "CHR ''['' \<notin> set s" using assms by (auto simp: plain_secret_def)
  show ?thesis
  proof (induction "length t" arbitrary: t rule: less_induct)
    case less
    show ?case
    proof (cases t)
      case Nil
      with ne show ?thesis by simp
    next
      case (Cons c cs)
      show ?thesis
      proof (cases "prefix s (c # cs)")
        case True
        let ?rest = "replace_all s redacted (drop (length s - 1) cs)"
        have rest: "\<not> sublist s ?rest" by (rule less.hyps) (simp add: Cons)
        have "\<not> sublist s (redacted @ ?rest)"
        proof
          assume "sublist s (redacted @ ?rest)"
          moreover have "\<not> prefix s (redacted @ ?rest)"
            using nb ne by (cases s) (auto simp: redacted_def)
          ultimately have "sublist s (''REDACTED'' @ CHR '']'' # ?rest)"
            by (simp add: redacted_def sublist_cons)
          then show False
            using sublist_across [of s "''REDACTED''" ?rest] rest assms by (auto simp: plain_secret_def)
        qed
        with True ne show ?thesis by (simp add: Cons)
      next
        case False
        have "\<not> sublist s (replace_all s redacted cs)" by (rule less.hyps) (simp add: Cons)
        moreover have "\<not> prefix s (c # replace_all s redacted cs)"
          using redacts_prefix [OF rd_copy [OF replace_all_redacts [OF ne]], of s c cs] nb False by blast
        ultimately show ?thesis using False by (simp add: Cons sublist_cons)
      qed
    qed
  qed
qed

text \<open>Groups of the four patterns.\<close>

fun groupless :: "regex \<Rightarrow> bool" where
  "groupless (RSeq r q) = (groupless r \<and> groupless q)"
| "groupless (RAlt r q) = (groupless r \<and> groupless q)"
| "groupless (RStar r) = groupless r"
| "groupless (RGroup k r) = False"
| "groupless _ = True"

lemma star_run_groups:
  "(\<And>s t. t \<in> set (f s) \<Longrightarrow> snd (snd t) = snd (snd s)) \<Longrightarrow> t \<in> set (star_run f n s) \<Longrightarrow>
   snd (snd t) = snd (snd s)"
proof (induction f n s arbitrary: t rule: star_run.induct)
  case (2 f n s)
  from "2.prems"(2) consider "t = s"
    | u where "u \<in> set (f s)" "length (ahead u) < length (ahead s)" "t \<in> set (star_run f n u)"
    by (simp only: star_run.simps set_append set_concat set_map) (auto simp del: star_run.simps split: if_splits)
  then show ?case
  proof cases
    case 2
    from "2.IH" [OF 2(1,2) "2.prems"(1) 2(3)] "2.prems"(1) [OF 2(1)] show ?thesis by simp
  qed simp
qed simp

lemma groupless_groups: "groupless r \<Longrightarrow> t \<in> set (re_run r s) \<Longrightarrow> snd (snd t) = snd (snd s)"
proof (induction r arbitrary: s t)
  case (RSeq r q)
  then obtain u where "u \<in> set (re_run r s)" "t \<in> set (re_run q u)" by auto
  with RSeq show ?case by simp
next
  case (RStar r)
  then have "t \<in> set (star_run (re_run r) (length (ahead s)) s)" by simp
  moreover have "snd (snd t) = snd (snd s)" if "t \<in> set (re_run r s)" for s t
    using RStar.IH [OF _ that] RStar.prems(1) by simp
  ultimately show ?case by (rule star_run_groups [rotated])
qed (auto split: prod.splits list.splits option.splits if_splits)

lemma run_seqE:
  assumes "t \<in> set (re_run (RSeq r q) s)"
  obtains u where "u \<in> set (re_run r s)" "t \<in> set (re_run q u)"
  using assms by auto

lemma run_group:
  assumes "t \<in> set (re_run (RGroup k r) (b, cs, g))" "groupless r"
  obtains w b' ds where "t = (b', ds, (k, w) # g)" "cs = w @ ds"
proof -
  obtain b' ds g' where t: "t = (b', ds, g')" by (cases t)
  from re_run_group [OF assms(1) [unfolded t]] obtain w g1 where
    "cs = w @ ds" "g' = (k, w) # g1" "(b', ds, g1) \<in> set (re_run r (b, cs, g))" by blast
  with groupless_groups [OF assms(2)] t that show thesis by fastforce
qed

lemma run_char1:
  "t \<in> set (re_run (rlit [c]) (b, cs, g)) \<Longrightarrow> \<exists>b' ds. t = (b', ds, g) \<and> cs = c # ds"
  by (auto simp: rlit_def split: list.splits if_splits)

lemma groupless_lit [simp]: "groupless (rlit s)"
  by (induction s) (simp_all add: rlit_def)

lemma groupless_lit_ci [simp]: "groupless (rlit_ci s)"
  by (induction s) (simp_all add: rlit_ci_def)

lemma groupless_chars [simp]: "groupless rspace" "groupless (rin s)"
  by (simp_all add: rspace_def rin_def)

lemma groupless_more [simp]: "groupless (rplus r) = groupless r" "groupless (ropt r) = groupless r"
  by (auto simp: rplus_def ropt_def)

lemma uri_redacts:
  assumes "(b', ds, g) \<in> set (re_run uri_credentials_re (b, cs, []))"
  shows "\<exists>w. cs = w @ ds \<and> redacts w (group_of g 1 @ group_of g 2 @ '':'' @ redacted @ ''@'')"
  using assms unfolding uri_credentials_re_def
proof (elim run_seqE)
  fix u1 u2 u3 u4
  assume 1: "u1 \<in> set (re_run (RGroup 1 (RSeq (RChar alpha_ascii) (RSeq (RStar (RChar (\<lambda>c. alnum_ascii c \<or> c \<in> set ''+.-''))) (rlit ''://'')))) (b, cs, []))"
    and 2: "u2 \<in> set (re_run (RGroup 2 (rplus (RChar (\<lambda>c. \<not> isspace_c c \<and> c \<notin> set ''/:@'')))) u1)"
    and 3: "u3 \<in> set (re_run (rlit '':'') u2)"
    and 4: "u4 \<in> set (re_run (RGroup 3 (rplus (RChar (\<lambda>c. \<not> isspace_c c \<and> c \<notin> set ''/@'')))) u3)"
    and 5: "(b', ds, g) \<in> set (re_run (rlit ''@'') u4)"
  obtain w1 b1 c1 where u1: "u1 = (b1, c1, [(1, w1)])" "cs = w1 @ c1"
    using 1 by (rule run_group) simp_all
  obtain w2 b2 c2 where u2: "u2 = (b2, c2, [(2, w2), (1, w1)])" "c1 = w2 @ c2"
    using 2 [unfolded u1(1)] by (rule run_group) simp_all
  obtain b3 c3 where u3: "u3 = (b3, c3, [(2, w2), (1, w1)])" "c2 = CHR '':'' # c3"
    using run_char1 [OF 3 [unfolded u2(1)]] by auto
  obtain w4 b4 c4 where u4: "u4 = (b4, c4, [(3, w4), (2, w2), (1, w1)])" "c3 = w4 @ c4"
    using 4 [unfolded u3(1)] by (rule run_group) simp_all
  have g: "g = [(3, w4), (2, w2), (1, w1)]" "c4 = CHR ''@'' # ds"
    using run_char1 [OF 5 [unfolded u4(1)]] by auto
  have "redacts (w1 @ w2 @ '':'' @ w4 @ ''@'') (w1 @ w2 @ '':'' @ redacted @ ''@'')"
    by (intro redacts_app redacts_append redacts_segment redacts_refl)
  moreover have "cs = (w1 @ w2 @ '':'' @ w4 @ ''@'') @ ds"
    using u1 u2 u3 u4 g by simp
  ultimately show ?thesis by (auto simp: g group_of_def)
qed

lemma authorization_redacts:
  assumes "(b', ds, g) \<in> set (re_run authorization_re (b, cs, []))"
  shows "\<exists>w. cs = w @ ds \<and> redacts w (group_of g 1 @ redacted)"
  using assms unfolding authorization_re_def
proof (elim run_seqE)
  fix u1
  assume 1: "u1 \<in> set (re_run (RGroup 1 (RSeq (rlit_ci ''authorization'') (RSeq (RStar rspace) (RSeq (rin '':='') (RSeq (RStar rspace)
       (RSeq (ralts (map rlit_ci [''bearer'', ''apikey'', ''basic'', ''token'', ''digest'', ''negotiate'', ''oauth'']))
             (rplus rspace))))))) (b, cs, []))"
    and 2: "(b', ds, g) \<in> set (re_run (RGroup 2 (rplus (RChar (\<lambda>c. \<not> isspace_c c \<and> c \<notin> set '',;'')))) u1)"
  obtain w1 b1 c1 where u1: "u1 = (b1, c1, [(1, w1)])" "cs = w1 @ c1"
    using 1 by (rule run_group) simp_all
  obtain w2 where u2: "g = [(2, w2), (1, w1)]" "c1 = w2 @ ds"
    using 2 [unfolded u1(1)] by (rule run_group) auto
  have "redacts (w1 @ w2) (w1 @ redacted)"
    by (intro redacts_app redacts_segment)
  with u1 u2 show ?thesis by (auto simp: group_of_def)
qed

lemma structured_redacts:
  assumes "(b', ds, g) \<in> set (re_run structured_secret_re (b, cs, []))"
  shows "\<exists>w. cs = w @ ds \<and> redacts w (group_of g 1 @ group_of g 2 @ redacted @ group_of g 2)"
  using assms unfolding structured_secret_re_def
proof (elim run_seqE)
  fix u1 u2 u3
  let ?p = "RSeq quote_re (RSeq
       (ralts [RSeq (rlit_ci ''api'') (RSeq (ropt (rin ''_-'')) (rlit_ci ''key'')), rlit_ci ''token'',
               RSeq (rlit_ci ''access'') (RSeq (ropt (rin ''_-'')) (rlit_ci ''token'')),
               rlit_ci ''password'', rlit_ci ''secret''])
       (RSeq quote_re (RSeq (RStar rspace) (RSeq (rin ''=:'') (RStar rspace)))))"
  assume 1: "u1 \<in> set (re_run (RGroup 1 ?p) (b, cs, []))"
    and 2: "u2 \<in> set (re_run (RGroup 2 quote_re) u1)"
    and 3: "u3 \<in> set (re_run (RGroup 3 (rplus (RChar (\<lambda>c. \<not> isspace_c c \<and> c \<noteq> double_quote \<and> c \<noteq> single_quote \<and> c \<notin> set '',;&}]'')))) u2)"
    and 4: "(b', ds, g) \<in> set (re_run (RBackref 2) u3)"
  have q: "groupless quote_re" by (simp add: quote_re_def)
  obtain w1 b1 c1 where u1: "u1 = (b1, c1, [(1, w1)])" "cs = w1 @ c1"
    using 1 by (rule run_group) (simp add: q)
  obtain w2 b2 c2 where u2: "u2 = (b2, c2, [(2, w2), (1, w1)])" "c1 = w2 @ c2"
    using 2 [unfolded u1(1)] q by (rule run_group)
  obtain w3 b3 c3 where u3: "u3 = (b3, c3, [(3, w3), (2, w2), (1, w1)])" "c2 = w3 @ c3"
    using 3 [unfolded u2(1)] by (rule run_group) simp_all
  have g: "g = [(3, w3), (2, w2), (1, w1)]" "c3 = w2 @ ds"
    using 4 by (auto simp: u3(1) prefix_def split: if_splits)
  have "redacts (w1 @ w2 @ w3 @ w2) (w1 @ w2 @ redacted @ w2)"
    by (intro redacts_app redacts_append redacts_segment redacts_refl)
  with u1 u2 u3 g show ?thesis by (auto simp: group_of_def)
qed

lemma api_key_redacts:
  assumes "(b', ds, g) \<in> set (re_run api_key_token_re (b, cs, []))"
  shows "\<exists>w. cs = w @ ds \<and> redacts w redacted"
  using re_run_consumed [OF assms] redacts_segment by blast

lemma patterns_keep_absent:
  assumes "plain_secret s" "\<not> sublist s t"
  shows "\<not> sublist s (redact_patterns t)"
proof -
  have sub: "\<not> sublist s (re_sub r f [] x)"
    if "\<not> sublist s x" "\<And>b cs b' ds g. (b', ds, g) \<in> set (re_run r (b, cs, [])) \<Longrightarrow> \<exists>w. cs = w @ ds \<and> redacts w (f g)"
    for r f x
  proof -
    have "redacts x (re_sub r f [] x)" by (rule re_sub_redacts) (rule that(2))
    from redacts_absent [OF this assms(1) that(1)] show ?thesis .
  qed
  show ?thesis
    unfolding redact_patterns_def
    by (intro sub assms(2) api_key_redacts structured_redacts authorization_redacts uri_redacts)
qed

lemma fold_replace_absent:
  assumes "plain_secret s" "\<not> sublist s t" "[] \<notin> set secrets"
  shows "\<not> sublist s (fold (\<lambda>x u. replace_all x redacted u) secrets t)"
  using assms(2,3)
proof (induction secrets arbitrary: t)
  case (Cons x secrets)
  have "\<not> sublist s (replace_all x redacted t)"
    using Cons.prems by (intro redacts_absent [OF replace_all_redacts assms(1)]) auto
  with Cons show ?case by simp
qed simp

lemma fold_replace_removes:
  assumes "plain_secret s" "s \<in> set secrets" "[] \<notin> set secrets"
  shows "\<not> sublist s (fold (\<lambda>x u. replace_all x redacted u) secrets t)"
  using assms(2,3)
proof (induction secrets arbitrary: t)
  case (Cons x secrets)
  show ?case
  proof (cases "x = s")
    case True
    with Cons.prems fold_replace_absent [OF assms(1) replace_all_removes [OF assms(1)], of secrets t]
    show ?thesis by simp
  next
    case False
    with Cons show ?thesis by simp
  qed
qed simp

lemma prefix_suffix_text:
  "prefix s (t @ truncated_suffix) \<Longrightarrow> ellipsis \<notin> set s \<Longrightarrow> prefix s t"
proof (induction t arbitrary: s)
  case Nil
  then show ?case by (cases s) (auto simp: truncated_suffix_def)
next
  case (Cons c t)
  then show ?case by (cases s) auto
qed

lemma truncated_absent:
  assumes "plain_secret s" "\<not> sublist s t"
  shows "\<not> sublist s (t @ truncated_suffix)"
  using assms(2)
proof (induction t)
  case Nil
  have "CHR ''['' \<notin> set s" "CHR '']'' \<notin> set s" "ellipsis \<notin> set s" "s \<noteq> []"
    "\<not> sublist s ''truncated''" "\<not> sublist s '' ''"
    using assms(1) by (auto simp: plain_secret_def)
  note s = this
  have hd: "\<not> prefix s (c # u)" if "c \<notin> set s" for c u
    using that s(4) by (cases s) auto
  have "\<not> sublist s (''truncated'' @ CHR '']'' # [])"
    using sublist_across [of s "''truncated''" "[]"] s by auto
  then have "\<not> sublist s (CHR ''['' # (''truncated'' @ CHR '']'' # []))"
    using hd [OF s(1)] by (simp only: sublist_cons) simp
  moreover have "\<not> prefix s (CHR '' '' # CHR ''['' # u)" for u
    using s by (cases s; cases "tl s") (auto simp: sublist_cons)
  ultimately have "\<not> sublist s (CHR '' '' # CHR ''['' # (''truncated'' @ CHR '']'' # []))"
    by (simp only: sublist_cons) simp
  then show ?case using hd [OF s(3)] by (simp add: truncated_suffix_def sublist_cons)
next
  case (Cons c t)
  then have "\<not> prefix s (c # t @ truncated_suffix)"
    using prefix_suffix_text [of s "c # t"] assms(1) by (auto simp: plain_secret_def sublist_cons prefix_imp_sublist)
  with Cons show ?case by (auto simp: sublist_cons)
qed

lemma bound_absent:
  assumes "plain_secret s" "\<not> sublist s t"
  shows "\<not> sublist s (bound_text n t)"
proof -
  have take: "\<not> sublist s (take k t)" for k
    using assms(2) by (meson sublist_take sublist_order.order.trans)
  have "s \<noteq> []" using assms(1) by (simp add: plain_secret_def)
  with take truncated_absent [OF assms(1) take] assms(2) show ?thesis
    by (simp add: bound_text_def)
qed

subsection \<open>Properties\<close>

lemma env_secrets_intro:
  "name \<in> set secret_env_names \<Longrightarrow> env name = Some s \<Longrightarrow> 4 \<le> length s \<Longrightarrow> s \<in> set (env_secrets parse env)"
  by (force simp: env_secrets_def)

lemma env_secrets_long: "s \<in> set (env_secrets parse env) \<Longrightarrow> 4 \<le> length s"
  by (auto simp: env_secrets_def configured_bearer_token_keys_def split: option.splits if_splits json.splits)

lemma length_bound_text: "int (length (bound_text n t)) \<le> max 0 n"
  by (auto simp: bound_text_def min_def)

text \<open>C8: No configured secret survives: a value of four or more characters set in one of the
  secret environment variables does not occur in any sanitised error text, whatever the text and
  the other secrets are, and the text never exceeds its bound. The secret must be one the marks
  themselves cannot spell: no bracket or ellipsis, and no part of REDACTED or truncated.\<close>

theorem sanitized_hides_secrets:
  assumes "name \<in> set secret_env_names" "env name = Some s" "4 \<le> length s" "plain_secret s"
    and "\<And>xs. set (enum xs) = set xs"
  shows "\<not> sublist s (sanitize_error_message enum parse env max_chars t) \<and>
    int (length (sanitize_error_message enum parse env max_chars t)) \<le> max 0 max_chars"
proof -
  let ?secrets = "configured_secret_values enum parse env"
  have set: "set ?secrets = set (env_secrets parse env)"
    by (simp add: configured_secret_values_def assms(5))
  have "s \<in> set ?secrets" unfolding set using assms(1-3) by (rule env_secrets_intro)
  moreover have "[] \<notin> set ?secrets" using env_secrets_long unfolding set by fastforce
  ultimately have "\<not> sublist s (fold (\<lambda>x u. replace_all x redacted u) ?secrets t)"
    by (rule fold_replace_removes [OF assms(4)])
  then show ?thesis
    unfolding sanitize_error_message_def
    using bound_absent [OF assms(4) patterns_keep_absent [OF assms(4)]] length_bound_text by blast
qed

theorem sanitized_hides_secrets_witness:
  "\<not> sublist ''k3y-x'' (sanitize_error_message (\<lambda>xs. xs) (\<lambda>_. None)
     (\<lambda>n. if n = ''JUDIT_API_KEY'' then Some ''k3y-x'' else None) 2000 ''HTTP 401 for k3y-x'')"
  using sanitized_hides_secrets [of "''JUDIT_API_KEY''"
      "\<lambda>n. if n = ''JUDIT_API_KEY'' then Some ''k3y-x'' else None" "''k3y-x''" "\<lambda>xs. xs"]
  by (simp add: secret_env_names_def plain_secret_def ellipsis_def sublist_cons)

end
