(* ===== verification/Queue.thy ===== *)
theory Queue
  imports Schema "HOL-Library.Product_Lexorder"
begin

text \<open>
  \<open>app/queue.py\<close>: the durable job queue on the \<open>jobs\<close> table. Every statement is a function on
  the row list; \<open>now\<close> is the database clock, \<open>locked\<close> the rows other transactions hold
  (skipped by \<open>FOR UPDATE SKIP LOCKED\<close>). The \<open>json\<close> arguments are Python values whose type
  the code tests itself.
\<close>

definition max_job_error_log_chars :: nat where "max_job_error_log_chars = 16000"
definition min_job_attempts :: int where "min_job_attempts = 1"
definition max_job_attempts :: int where "max_job_attempts = 100"

subsection \<open>Validation\<close>

definition strict_json_dumps :: "string \<Rightarrow> json \<Rightarrow> json res" where
  "strict_json_dumps label value =
     (if finite_json value then Inr value
      else Inl (ValueError (label @ '' must be strict JSON'')))"

fun retry_backoff_seconds :: "json \<Rightarrow> int res" where
  "retry_backoff_seconds (JInt attempts) =
     (let exponent = min 9 (max 1 attempts) in Inr (min 300 (2 ^ nat exponent)))"
| "retry_backoff_seconds _ = Inl (ValueError ''attempts must be an integer'')"

fun validate_reclaim_timeout :: "json \<Rightarrow> int res" where
  "validate_reclaim_timeout (JInt t) =
     (if t \<le> 0 then Inl (ValueError ''reclaim timeout_seconds must be greater than zero'')
      else Inr t)"
| "validate_reclaim_timeout _ = Inl (ValueError ''reclaim timeout_seconds must be an integer'')"

fun validate_max_attempts :: "json \<Rightarrow> int res" where
  "validate_max_attempts (JInt n) =
     (if \<not> (min_job_attempts \<le> n \<and> n \<le> max_job_attempts)
      then Inl (ValueError ''max_attempts must be between 1 and 100'') else Inr n)"
| "validate_max_attempts _ = Inl (ValueError ''max_attempts must be an integer'')"

subsection \<open>enqueue\<close>

definition key_taken :: "string option \<Rightarrow> job list \<Rightarrow> bool" where
  "key_taken k t \<longleftrightarrow> (case k of None \<Rightarrow> False | Some x \<Rightarrow> \<exists>r \<in> set t. j_key r = Some x)"

definition new_job ::
  "uuid \<Rightarrow> timestamp \<Rightarrow> string \<Rightarrow> json \<Rightarrow> int \<Rightarrow> timestamp option \<Rightarrow> int \<Rightarrow> string option \<Rightarrow> job" where
  "new_job nid now task payload prio run_at max_att key =
     \<lparr>j_id = nid, j_task = task, j_payload = payload, j_status = Pending, j_priority = prio,
      j_run_at = (case run_at of None \<Rightarrow> now | Some t \<Rightarrow> t),
      j_attempts = 0, j_max_attempts = max_att, j_worker = None, j_heartbeat = None,
      j_result = None, j_error_log = None, j_key = key, j_created = now, j_updated = now\<rparr>"

definition enqueue_sql ::
  "uuid \<Rightarrow> timestamp \<Rightarrow> string \<Rightarrow> json \<Rightarrow> int \<Rightarrow> timestamp option \<Rightarrow> int \<Rightarrow> string option \<Rightarrow>
     job list \<Rightarrow> job list \<times> job option" where
  "enqueue_sql nid now task payload prio run_at max_att key t =
     (if key_taken key t then (t, None)
      else let r = new_job nid now task payload prio run_at max_att key in (t @ [r], Some r))"

text \<open>\<open>enqueue\<close>; the defaults of its keyword arguments are given by the callers.\<close>

definition enqueue ::
  "uuid \<Rightarrow> timestamp \<Rightarrow> string \<Rightarrow> json \<Rightarrow> int \<Rightarrow> timestamp option \<Rightarrow> json \<Rightarrow> string option \<Rightarrow>
     job list \<Rightarrow> job list \<times> job option res" where
  "enqueue nid now task payload prio run_at max_att key t =
     (case validate_max_attempts max_att of
        Inl e \<Rightarrow> (t, Inl e)
      | Inr bounded \<Rightarrow>
          (case strict_json_dumps ''job payload'' payload of
             Inl e \<Rightarrow> (t, Inl e)
           | Inr p \<Rightarrow>
               (case enqueue_sql nid now task p prio run_at bounded key t of
                  (t', row) \<Rightarrow> (t', Inr row))))"

subsection \<open>claim\<close>

definition claimable :: "timestamp \<Rightarrow> job \<Rightarrow> bool" where
  "claimable now r \<longleftrightarrow> j_status r = Pending \<and> j_run_at r \<le> now"

definition claim_order :: "job \<Rightarrow> int \<times> int" where
  "claim_order r = (j_priority r, j_run_at r)"

definition claim_candidate :: "uuid set \<Rightarrow> timestamp \<Rightarrow> job list \<Rightarrow> job option" where
  "claim_candidate locked now t =
     (case sort_key claim_order (filter (\<lambda>r. claimable now r \<and> j_id r \<notin> locked) t) of
        [] \<Rightarrow> None | r # _ \<Rightarrow> Some r)"

definition claim_row :: "timestamp \<Rightarrow> uuid \<Rightarrow> job \<Rightarrow> job" where
  "claim_row now w r = r\<lparr>j_status := Processing, j_worker := Some w, j_heartbeat := Some now,
     j_attempts := j_attempts r + 1, j_updated := now\<rparr>"

definition claim ::
  "uuid set \<Rightarrow> timestamp \<Rightarrow> uuid \<Rightarrow> job list \<Rightarrow> job list \<times> job option" where
  "claim locked now w t =
     (case claim_candidate locked now t of
        None \<Rightarrow> (t, None)
      | Some r \<Rightarrow> (update_where (\<lambda>x. j_id x = j_id r) (claim_row now w) t,
                  Some (claim_row now w r)))"

subsection \<open>heartbeat, complete, fail\<close>

definition owns :: "uuid \<Rightarrow> uuid \<Rightarrow> job \<Rightarrow> bool" where
  "owns jid w r \<longleftrightarrow> j_id r = jid \<and> j_worker r = Some w \<and> j_status r = Processing"

definition heartbeat_row :: "timestamp \<Rightarrow> job \<Rightarrow> job" where
  "heartbeat_row now r = r\<lparr>j_heartbeat := Some now, j_updated := now\<rparr>"

definition heartbeat ::
  "timestamp \<Rightarrow> uuid \<Rightarrow> uuid \<Rightarrow> job list \<Rightarrow> job list \<times> bool" where
  "heartbeat now jid w t =
     (update_where (owns jid w) (heartbeat_row now) t, \<exists>r \<in> set t. owns jid w r)"

definition complete_row :: "timestamp \<Rightarrow> json \<Rightarrow> job \<Rightarrow> job" where
  "complete_row now result r = r\<lparr>j_status := Completed, j_result := Some result,
     j_updated := now, j_heartbeat := Some now\<rparr>"

definition complete ::
  "timestamp \<Rightarrow> uuid \<Rightarrow> uuid \<Rightarrow> json \<Rightarrow> job list \<Rightarrow> job list \<times> bool res" where
  "complete now jid w result t =
     (case strict_json_dumps ''job result'' (if truthy result then result else JObj []) of
        Inl e \<Rightarrow> (t, Inl e)
      | Inr v \<Rightarrow> (update_where (owns jid w) (complete_row now v) t,
                 Inr (\<exists>r \<in> set t. owns jid w r)))"

definition exhausted :: "job \<Rightarrow> bool" where
  "exhausted r \<longleftrightarrow> j_max_attempts r \<le> j_attempts r"

definition append_log :: "string \<Rightarrow> string option \<Rightarrow> string option" where
  "append_log msg old = Some (sql_right max_job_error_log_chars
     ((case old of None \<Rightarrow> [] | Some l \<Rightarrow> l) @ msg))"

definition fail_row :: "timestamp \<Rightarrow> timestamp \<Rightarrow> string \<Rightarrow> bool \<Rightarrow> job \<Rightarrow> job" where
  "fail_row now retry_at msg permanent r =
     r\<lparr>j_status := (if permanent \<or> exhausted r then Dead else Pending),
       j_run_at := (if permanent \<or> exhausted r then j_run_at r else retry_at),
       j_worker := None, j_heartbeat := None,
       j_error_log := append_log msg (j_error_log r), j_updated := now\<rparr>"

text \<open>
  \<open>fail\<close>: \<open>clock\<close> is Python's clock, \<open>stamp\<close> its ISO rendering in the log line.
\<close>

definition fail ::
  "timestamp \<Rightarrow> timestamp \<Rightarrow> string \<Rightarrow> uuid \<Rightarrow> uuid \<Rightarrow> json \<Rightarrow> string \<Rightarrow> bool \<Rightarrow>
     job list \<Rightarrow> job list \<times> job_status option res" where
  "fail now clock stamp jid w attempts error permanent t =
     (case retry_backoff_seconds attempts of
        Inl e \<Rightarrow> (t, Inl e)
      | Inr backoff \<Rightarrow>
          (let f = fail_row now (clock + seconds backoff)
                     (CHR 0x0A # ''['' @ stamp @ ''] '' @ error) permanent
           in (update_where (owns jid w) f t,
               Inr (map_option (\<lambda>r. j_status (f r)) (find (owns jid w) t)))))"

subsection \<open>reclaim_stale\<close>

definition stale :: "timestamp \<Rightarrow> int \<Rightarrow> job \<Rightarrow> bool" where
  "stale now timeout r \<longleftrightarrow> j_status r = Processing \<and>
     (case j_heartbeat r of None \<Rightarrow> False | Some h \<Rightarrow> h < now - seconds timeout)"

definition reclaim_row :: "timestamp \<Rightarrow> job \<Rightarrow> job" where
  "reclaim_row now r =
     r\<lparr>j_status := (if exhausted r then Dead else Pending), j_worker := None, j_heartbeat := None,
       j_error_log := append_log (CHR 0x0A # ''Worker heartbeat timed out.'') (j_error_log r),
       j_updated := now\<rparr>"

definition reclaim_stale ::
  "uuid set \<Rightarrow> timestamp \<Rightarrow> json \<Rightarrow> job list \<Rightarrow> job list \<times> job list res" where
  "reclaim_stale locked now timeout t =
     (case validate_reclaim_timeout timeout of
        Inl e \<Rightarrow> (t, Inl e)
      | Inr bounded \<Rightarrow>
          (let hit = (\<lambda>r. stale now bounded r \<and> j_id r \<notin> locked)
           in (update_where hit (reclaim_row now) t, Inr (map (reclaim_row now) (filter hit t)))))"

subsection \<open>Every statement keeps the key column\<close>

interpretation claim_upd: keyed_update j_id "claim_row now w" for now w
  by unfold_locales (simp add: claim_row_def)

interpretation heartbeat_upd: keyed_update j_id "heartbeat_row now" for now
  by unfold_locales (simp add: heartbeat_row_def)

interpretation complete_upd: keyed_update j_id "complete_row now v" for now v
  by unfold_locales (simp add: complete_row_def)

interpretation fail_upd: keyed_update j_id "fail_row now retry_at msg permanent"
  for now retry_at msg permanent
  by unfold_locales (simp add: fail_row_def)

interpretation reclaim_upd: keyed_update j_id "reclaim_row now" for now
  by unfold_locales (simp add: reclaim_row_def)

subsection \<open>Facts about single statements\<close>

lemma claim_candidate_Some:
  assumes "claim_candidate locked now t = Some r"
  shows "r \<in> set t" "claimable now r" "j_id r \<notin> locked"
    "\<And>x. x \<in> set t \<Longrightarrow> claimable now x \<Longrightarrow> j_id x \<notin> locked \<Longrightarrow> claim_order r \<le> claim_order x"
proof -
  let ?q = "filter (\<lambda>r. claimable now r \<and> j_id r \<notin> locked) t"
  obtain rs where rs: "sort_key claim_order ?q = r # rs"
    using assms by (auto simp: claim_candidate_def split: list.splits)
  then have "set ?q = set (r # rs)" by (metis set_sort)
  then show "r \<in> set t" "claimable now r" "j_id r \<notin> locked" by auto
  have "sorted (map claim_order (r # rs))" by (metis rs sorted_sort_key)
  moreover fix x assume "x \<in> set t" "claimable now x" "j_id x \<notin> locked"
  then have "x \<in> set (r # rs)" using \<open>set ?q = set (r # rs)\<close> by auto
  ultimately show "claim_order r \<le> claim_order x" by auto
qed

lemma claim_candidate_None:
  "claim_candidate locked now t = None \<longleftrightarrow> (\<forall>r \<in> set t. claimable now r \<longrightarrow> j_id r \<in> locked)"
proof -
  let ?q = "filter (\<lambda>r. claimable now r \<and> j_id r \<notin> locked) t"
  have "claim_candidate locked now t = None \<longleftrightarrow> sort_key claim_order ?q = []"
    by (simp add: claim_candidate_def split: list.split)
  also have "\<dots> \<longleftrightarrow> set (sort_key claim_order ?q) = {}" by (simp only: set_empty)
  also have "\<dots> \<longleftrightarrow> (\<forall>r \<in> set t. claimable now r \<longrightarrow> j_id r \<in> locked)" by auto
  finally show ?thesis .
qed

lemma claim_SomeD:
  assumes "claim locked now w t = (t', Some r')"
  obtains r where "claim_candidate locked now t = Some r" "r' = claim_row now w r"
    "t' = update_where (\<lambda>x. j_id x = j_id r) (claim_row now w) t"
  using assms by (auto simp: claim_def split: option.splits)

lemma not_owner_noop:
  assumes "\<forall>r \<in> set t. \<not> owns jid w r"
  shows "update_where (owns jid w) f t = t" "find (owns jid w) t = None"
  using assms by (auto intro: update_where_none simp: find_None_iff)

lemma validate_max_attempts_Inr:
  "validate_max_attempts v = Inr n \<longleftrightarrow> v = JInt n \<and> 1 \<le> n \<and> n \<le> 100"
  by (cases v) (auto simp: min_job_attempts_def max_job_attempts_def)

lemma validate_reclaim_timeout_Inr:
  "validate_reclaim_timeout v = Inr n \<longleftrightarrow> v = JInt n \<and> 0 < n"
  by (cases v) auto

lemma length_append_log: "append_log msg old = Some l \<Longrightarrow> length l \<le> max_job_error_log_chars"
  by (auto simp: append_log_def length_sql_right)

lemma retry_backoff_eq:
  "retry_backoff_seconds (JInt n) = Inr (if n \<le> 1 then 2 else if n \<le> 8 then 2 ^ nat n else 300)"
proof -
  consider "n \<le> 1" | "2 \<le> n" "n \<le> 8" | "9 \<le> n" by linarith
  then show ?thesis
  proof cases
    case 1
    then have "min 9 (max 1 n) = 1" by simp
    with 1 show ?thesis by simp
  next
    case 2
    then have m: "min 9 (max 1 n) = n" by simp
    have "(2::int) ^ nat n \<le> 2 ^ 8" using 2 by (intro power_increasing) auto
    then have "min 300 ((2::int) ^ nat n) = 2 ^ nat n" by simp
    with m 2 show ?thesis by simp
  next
    case 3
    then have "min 9 (max 1 n) = 9" by simp
    with 3 show ?thesis by simp
  qed
qed

end
