(* ===== verification/QueueMachine.thy ===== *)
theory QueueMachine
  imports Queue
begin

text \<open>
  The queue as a state machine: workers, the reclaimer, enqueuers and the purge of the scheduler
  (\<open>app/scheduler.py\<close>) interleave in any order. The invariant, the abstract life of one job that
  the table refines, and the bound on its claims.
\<close>

subsection \<open>purge\_terminal\_jobs\<close>

definition day :: int where "day = 86400000000"

definition purgeable :: "timestamp \<Rightarrow> int \<Rightarrow> job \<Rightarrow> bool" where
  "purgeable now retention_days r \<longleftrightarrow>
     j_status r \<in> {Completed, Dead} \<and> j_updated r < now - retention_days * day"

definition purge_terminal_jobs ::
  "timestamp \<Rightarrow> int \<Rightarrow> job list \<Rightarrow> job list \<times> int res" where
  "purge_terminal_jobs now retention_days t =
     (if retention_days \<le> 0
      then (t, Inl (ValueError ''job_retention_days must be greater than zero''))
      else (filter (\<lambda>r. \<not> purgeable now retention_days r) t,
            Inr (int (length (filter (purgeable now retention_days) t)))))"

subsection \<open>Steps\<close>

datatype queue_label = Enqueued uuid | Claimed uuid | Silent

inductive queue_step :: "job list \<Rightarrow> queue_label \<Rightarrow> job list \<Rightarrow> bool" where
  q_enqueue: "enqueue nid now task payload prio run_at max_att key t = (t', r) \<Longrightarrow>
     nid \<notin> j_id ` set t \<Longrightarrow> queue_step t (Enqueued nid) t'"
| q_claim: "claim locked now w t = (t', Some r) \<Longrightarrow> queue_step t (Claimed (j_id r)) t'"
| q_claim_none: "claim locked now w t = (t', None) \<Longrightarrow> queue_step t Silent t'"
| q_heartbeat: "heartbeat now jid w t = (t', b) \<Longrightarrow> queue_step t Silent t'"
| q_complete: "complete now jid w result t = (t', r) \<Longrightarrow> queue_step t Silent t'"
| q_fail: "fail now clock stamp jid w attempts error permanent t = (t', r) \<Longrightarrow>
     queue_step t Silent t'"
| q_reclaim: "reclaim_stale locked now timeout t = (t', r) \<Longrightarrow> queue_step t Silent t'"
| q_purge: "purge_terminal_jobs now retention t = (t', r) \<Longrightarrow> queue_step t Silent t'"

inductive queue_trace :: "job list \<Rightarrow> queue_label list \<Rightarrow> job list \<Rightarrow> bool" where
  qt_nil: "queue_trace t [] t"
| qt_step: "queue_trace t ls u \<Longrightarrow> queue_step u l v \<Longrightarrow> queue_trace t (ls @ [l]) v"

subsection \<open>The invariant\<close>

definition job_ok :: "job \<Rightarrow> bool" where
  "job_ok r \<longleftrightarrow>
     1 \<le> j_max_attempts r \<and> j_max_attempts r \<le> 100 \<and>
     0 \<le> j_attempts r \<and> j_attempts r \<le> j_max_attempts r \<and>
     (j_status r = Pending \<longrightarrow> j_worker r = None \<and> j_attempts r < j_max_attempts r) \<and>
     (j_status r = Processing \<longrightarrow> j_worker r \<noteq> None \<and> j_heartbeat r \<noteq> None \<and> 1 \<le> j_attempts r) \<and>
     (j_status r = Completed \<longrightarrow> j_result r \<noteq> None) \<and>
     (j_status r = Dead \<longrightarrow> j_worker r = None) \<and>
     (\<forall>l. j_error_log r = Some l \<longrightarrow> length l \<le> max_job_error_log_chars)"

definition keys_unique :: "job list \<Rightarrow> bool" where
  "keys_unique t \<longleftrightarrow> distinct (filter (\<lambda>k. k \<noteq> None) (map j_key t))"

definition queue_inv :: "job list \<Rightarrow> bool" where
  "queue_inv t \<longleftrightarrow> distinct (map j_id t) \<and> keys_unique t \<and> (\<forall>r \<in> set t. job_ok r)"

lemma row_fields [simp]:
  "j_id (claim_row now w r) = j_id r" "j_key (claim_row now w r) = j_key r"
  "j_max_attempts (claim_row now w r) = j_max_attempts r"
  "j_id (heartbeat_row now r) = j_id r" "j_key (heartbeat_row now r) = j_key r"
  "j_max_attempts (heartbeat_row now r) = j_max_attempts r"
  "j_attempts (heartbeat_row now r) = j_attempts r"
  "j_id (complete_row now v r) = j_id r" "j_key (complete_row now v r) = j_key r"
  "j_max_attempts (complete_row now v r) = j_max_attempts r"
  "j_id (fail_row now ra m p r) = j_id r" "j_key (fail_row now ra m p r) = j_key r"
  "j_max_attempts (fail_row now ra m p r) = j_max_attempts r"
  "j_id (reclaim_row now r) = j_id r" "j_key (reclaim_row now r) = j_key r"
  "j_max_attempts (reclaim_row now r) = j_max_attempts r"
  by (simp_all add: claim_row_def heartbeat_row_def complete_row_def fail_row_def reclaim_row_def)

lemma job_ok_new:
  "1 \<le> n \<Longrightarrow> n \<le> 100 \<Longrightarrow> job_ok (new_job nid now task p prio run_at n key)"
  by (simp add: job_ok_def new_job_def)

lemma job_ok_claim: "job_ok r \<Longrightarrow> claimable now r \<Longrightarrow> job_ok (claim_row now w r)"
  by (auto simp: job_ok_def claim_row_def claimable_def)

lemma job_ok_heartbeat: "job_ok r \<Longrightarrow> owns jid w r \<Longrightarrow> job_ok (heartbeat_row now r)"
  by (auto simp: job_ok_def heartbeat_row_def owns_def)

lemma job_ok_complete: "job_ok r \<Longrightarrow> owns jid w r \<Longrightarrow> job_ok (complete_row now v r)"
  by (auto simp: job_ok_def complete_row_def owns_def)

lemma job_ok_fail: "job_ok r \<Longrightarrow> job_ok (fail_row now retry_at msg permanent r)"
  by (auto simp: job_ok_def fail_row_def exhausted_def length_append_log)

lemma job_ok_reclaim: "job_ok r \<Longrightarrow> job_ok (reclaim_row now r)"
  by (auto simp: job_ok_def reclaim_row_def exhausted_def length_append_log)

lemma key_update_where:
  "(\<And>r. j_key (f r) = j_key r) \<Longrightarrow> map j_key (update_where p f t) = map j_key t"
  by (induction t) simp_all

lemma queue_inv_update:
  assumes "queue_inv t" and "\<And>r. j_id (f r) = j_id r" and "\<And>r. j_key (f r) = j_key r"
    and "\<And>r. r \<in> set t \<Longrightarrow> p r \<Longrightarrow> job_ok r \<Longrightarrow> job_ok (f r)"
  shows "queue_inv (update_where p f t)"
proof -
  have "map j_id (update_where p f t) = map j_id t"
    using assms(2) by (induction t) simp_all
  then show ?thesis
    using assms(1,4) key_update_where [of f p t, OF assms(3)]
    by (auto simp: queue_inv_def keys_unique_def elim!: in_update_whereE)
qed

lemma distinct_filter_keys:
  "distinct (filter q (map f t)) \<Longrightarrow> distinct (filter q (map f (filter p t)))"
  by (induction t) auto

lemma distinct_keys_filter: "distinct (map f t) \<Longrightarrow> distinct (map f (filter p t))"
  by (induction t) auto

lemma queue_inv_enqueue:
  assumes "queue_inv t" "nid \<notin> j_id ` set t"
    "enqueue nid now task payload prio run_at max_att key t = (t', r)"
  shows "queue_inv t'"
proof (cases "t' = t")
  case False
  with assms(3) obtain n where n: "validate_max_attempts max_att = Inr n" "\<not> key_taken key t"
      "t' = t @ [new_job nid now task payload prio run_at n key]"
    by (auto simp: enqueue_def enqueue_sql_def strict_json_dumps_def Let_def
        split: sum.splits if_splits)
  have "key = None \<or> key \<notin> j_key ` set t"
    using n(2) by (auto simp: key_taken_def image_iff split: option.splits)
  then have "keys_unique t'"
    using assms(1) n(3) by (auto simp: queue_inv_def keys_unique_def new_job_def)
  with assms(1,2) n(1,3) show ?thesis
    by (auto simp: queue_inv_def validate_max_attempts_Inr job_ok_new)
      (auto simp: new_job_def)
qed (use assms(1) in simp)

lemma queue_inv_step:
  assumes "queue_step t l t'" "queue_inv t"
  shows "queue_inv t'"
  using assms
proof cases
  case (q_enqueue nid now task payload prio run_at max_att key r)
  with assms(2) show ?thesis by (blast intro: queue_inv_enqueue)
next
  case (q_claim locked now w r)
  from q_claim(2) obtain c where c: "claim_candidate locked now t = Some c"
      "t' = update_where (\<lambda>x. j_id x = j_id c) (claim_row now w) t"
    by (rule claim_SomeD)
  have "x = c" if "x \<in> set t" "j_id x = j_id c" for x
    using that claim_candidate_Some(1) [OF c(1)] assms(2)
    by (auto simp: queue_inv_def distinct_map inj_on_def)
  then have ok: "job_ok (claim_row now w x)" if "x \<in> set t" "j_id x = j_id c" "job_ok x" for x
    using that claim_candidate_Some(2) [OF c(1)] by (metis job_ok_claim)
  show ?thesis
    unfolding c(2)
    by (rule queue_inv_update) (simp_all add: assms(2) ok)
next
  case (q_claim_none locked now w)
  with assms(2) show ?thesis by (auto simp: claim_def split: option.splits)
next
  case (q_heartbeat now jid w b)
  with assms(2) show ?thesis
    by (auto simp: heartbeat_def intro!: queue_inv_update job_ok_heartbeat)
next
  case (q_complete now jid w result r)
  with assms(2) show ?thesis
    by (auto simp: complete_def split: sum.splits intro!: queue_inv_update job_ok_complete)
next
  case (q_fail now clock stamp jid w attempts error permanent r)
  with assms(2) show ?thesis
    by (auto simp: fail_def Let_def split: sum.splits intro!: queue_inv_update job_ok_fail)
next
  case (q_reclaim locked now timeout r)
  with assms(2) show ?thesis
    by (auto simp: reclaim_stale_def Let_def split: sum.splits
        intro!: queue_inv_update job_ok_reclaim)
next
  case (q_purge now retention r)
  with assms(2) show ?thesis
    by (auto simp: purge_terminal_jobs_def queue_inv_def keys_unique_def
        simp del: filter_map intro: distinct_filter_keys distinct_keys_filter
        split: if_splits)
qed


subsection \<open>The abstract life of one job\<close>

text \<open>\<open>Waiting n\<close>: \<open>n\<close> claims are left; \<open>Running w n\<close>: worker \<open>w\<close> holds the job.\<close>

datatype life = Waiting nat | Running uuid nat | Finished | Buried

definition claims_left :: "job \<Rightarrow> nat" where
  "claims_left r = nat (j_max_attempts r - j_attempts r)"

definition life_of :: "job \<Rightarrow> life" where
  "life_of r = (case j_status r of
       Pending \<Rightarrow> Waiting (claims_left r)
     | Processing \<Rightarrow> Running (case j_worker r of None \<Rightarrow> 0 | Some w \<Rightarrow> w) (claims_left r)
     | Completed \<Rightarrow> Finished
     | Dead \<Rightarrow> Buried)"

inductive life_step :: "life \<Rightarrow> life \<Rightarrow> bool" where
  life_claim: "life_step (Waiting (Suc n)) (Running w n)"
| life_done: "life_step (Running w n) Finished"
| life_retry: "0 < n \<Longrightarrow> life_step (Running w n) (Waiting n)"
| life_exhausted: "life_step (Running w 0) Buried"
| life_permanent: "life_step (Running w n) Buried"

inductive_cases life_step_FinishedE: "life_step Finished l"
inductive_cases life_step_BuriedE: "life_step Buried l"

lemma life_claim_row:
  assumes "job_ok r" "claimable now r"
  shows "life_step (life_of r) (life_of (claim_row now w r))"
proof -
  have "claims_left r = Suc (claims_left (claim_row now w r))"
    using assms by (auto simp: claims_left_def claim_row_def job_ok_def claimable_def)
  then show ?thesis
    using assms by (simp add: life_of_def claim_row_def claimable_def claims_left_def life_claim)
qed

lemma life_heartbeat_row: "owns jid w r \<Longrightarrow> life_of (heartbeat_row now r) = life_of r"
  by (auto simp: life_of_def heartbeat_row_def owns_def claims_left_def)

lemma life_complete_row:
  "owns jid w r \<Longrightarrow> life_step (life_of r) (life_of (complete_row now v r))"
  by (auto simp: life_of_def complete_row_def owns_def intro: life_done)

lemma life_leave_row:
  assumes "j_status r = Processing" "j_status r' = (if perm \<or> exhausted r then Dead else Pending)"
    "claims_left r' = claims_left r"
  shows "life_step (life_of r) (life_of r')"
proof (cases "perm \<or> exhausted r")
  case True
  with assms show ?thesis by (auto simp: life_of_def intro: life_permanent)
next
  case False
  then have "0 < claims_left r" by (simp add: exhausted_def claims_left_def)
  with False assms show ?thesis by (auto simp: life_of_def intro: life_retry)
qed

lemma life_fail_row:
  "owns jid w r \<Longrightarrow> life_step (life_of r) (life_of (fail_row now retry_at msg permanent r))"
  by (rule life_leave_row [where perm = permanent])
    (simp_all add: owns_def fail_row_def claims_left_def)

lemma life_reclaim_row:
  "stale now timeout r \<Longrightarrow> life_step (life_of r) (life_of (reclaim_row now r))"
  by (rule life_leave_row [where perm = False])
    (simp_all add: stale_def reclaim_row_def claims_left_def)

text \<open>What one statement of the queue does to the row of one job.\<close>

definition active :: "job \<Rightarrow> bool" where
  "active r \<longleftrightarrow> j_status r = Pending \<or> j_status r = Processing"

definition row_evolves :: "job \<Rightarrow> job option \<Rightarrow> bool" where
  "row_evolves r r' \<longleftrightarrow> (case r' of
       None \<Rightarrow> life_of r \<in> {Finished, Buried}
     | Some x \<Rightarrow> x = r \<or> (active r \<and> j_max_attempts x = j_max_attempts r \<and> j_key x = j_key r \<and>
                  j_attempts r \<le> j_attempts x \<and>
                  (life_of x = life_of r \<or> life_step (life_of r) (life_of x))))"

lemma active_simps:
  "claimable now r \<Longrightarrow> active r" "owns jid w r \<Longrightarrow> active r" "stale now n r \<Longrightarrow> active r"
  by (simp_all add: active_def claimable_def owns_def stale_def)

lemma attempts_mono [simp]:
  "j_attempts r \<le> j_attempts (claim_row now w r)"
  "j_attempts (heartbeat_row now r) = j_attempts r"
  "j_attempts (complete_row now v r) = j_attempts r"
  "j_attempts (fail_row now ra m p r) = j_attempts r"
  "j_attempts (reclaim_row now r) = j_attempts r"
  by (simp_all add: claim_row_def heartbeat_row_def complete_row_def fail_row_def reclaim_row_def)

lemma row_evolves_update:
  assumes "keyed_update j_id f" "row_by j_id k t = Some r"
    and "p r \<Longrightarrow> active r \<and> j_max_attempts (f r) = j_max_attempts r \<and> j_key (f r) = j_key r \<and>
      j_attempts r \<le> j_attempts (f r) \<and>
      (life_of (f r) = life_of r \<or> life_step (life_of r) (life_of (f r)))"
  shows "row_evolves r (row_by j_id k (update_where p f t))"
  using assms by (auto simp: row_evolves_def keyed_update.row_by_update)

lemma row_by_filter:
  assumes "distinct (map key t)" "row_by key k t = Some r"
  shows "row_by key k (filter p t) = (if p r then Some r else None)"
  using assms
proof (induction t)
  case (Cons x t)
  show ?case
  proof (cases "key x = k")
    case True
    with Cons.prems have "x = r" "k \<notin> key ` set t" by (auto simp: row_by_def)
    then have "row_by key k (filter p t) = None" by (auto simp: row_by_None)
    with True \<open>x = r\<close> show ?thesis by (simp add: row_by_def)
  next
    case False
    with Cons show ?thesis by (auto simp: row_by_def)
  qed
qed (simp add: row_by_def)

lemma queue_step_row:
  assumes "queue_step t l t'" "queue_inv t" "row_by j_id k t = Some r"
  shows "row_evolves r (row_by j_id k t')"
proof -
  have ok: "job_ok r" and rin: "r \<in> set t" "j_id r = k"
    using assms(2,3) by (auto simp: queue_inv_def dest: row_by_Some)
  show ?thesis
    using assms(1)
  proof cases
    case (q_enqueue nid now task payload prio run_at max_att key res)
    then have "t' = t \<or> (\<exists>x. t' = t @ [x])"
      by (auto simp: enqueue_def enqueue_sql_def Let_def split: sum.splits if_splits)
    with assms(3) show ?thesis by (auto simp: row_by_append row_evolves_def)
  next
    case (q_claim locked now w res)
    from q_claim(2) obtain c where c: "claim_candidate locked now t = Some c"
        "t' = update_where (\<lambda>x. j_id x = j_id c) (claim_row now w) t"
      by (rule claim_SomeD)
    have cl: "claimable now r" if "j_id r = j_id c"
      using that claim_candidate_Some(1,2) [OF c(1)] assms(2) rin(1)
      by (auto simp: queue_inv_def distinct_map inj_on_def)
    then have "life_step (life_of r) (life_of (claim_row now w r))" if "j_id r = j_id c"
      using that ok cl by (intro life_claim_row)
    then show ?thesis
      unfolding c(2) using assms(3) cl
      by (intro row_evolves_update [OF claim_upd.keyed_update_axioms]) (simp_all add: active_simps)
  next
    case (q_claim_none locked now w)
    then have "t' = t" by (auto simp: claim_def split: option.splits)
    with assms(3) show ?thesis by (simp add: row_evolves_def)
  next
    case (q_heartbeat now jid w b)
    then have t': "t' = update_where (owns jid w) (heartbeat_row now) t"
      by (simp add: heartbeat_def)
    show ?thesis
      unfolding t' using assms(3)
      by (intro row_evolves_update [OF heartbeat_upd.keyed_update_axioms]) (simp_all add: life_heartbeat_row [of jid w] active_simps)
  next
    case (q_complete now jid w result res)
    then have "t' = t \<or> (\<exists>v. t' = update_where (owns jid w) (complete_row now v) t)"
      by (auto simp: complete_def split: sum.splits)
    with assms(3) show ?thesis
      by (auto simp: row_evolves_def [of r "Some r"] intro!:
          row_evolves_update [OF complete_upd.keyed_update_axioms] life_complete_row active_simps(2))
  next
    case (q_fail now clock stamp jid w attempts error permanent res)
    then have "t' = t \<or> (\<exists>ra m. t' = update_where (owns jid w) (fail_row now ra m permanent) t)"
      by (auto simp: fail_def Let_def split: sum.splits)
    with assms(3) show ?thesis
      by (auto simp: row_evolves_def [of r "Some r"] intro!:
          row_evolves_update [OF fail_upd.keyed_update_axioms] life_fail_row active_simps(2))
  next
    case (q_reclaim locked now timeout res)
    then have "t' = t \<or> (\<exists>n. t' = update_where
        (\<lambda>r. stale now n r \<and> j_id r \<notin> locked) (reclaim_row now) t)"
      by (auto simp: reclaim_stale_def Let_def split: sum.splits)
    with assms(3) show ?thesis
      by (auto simp: row_evolves_def [of r "Some r"] intro!:
          row_evolves_update [OF reclaim_upd.keyed_update_axioms] life_reclaim_row active_simps(3))
  next
    case (q_purge now retention res)
    then have "t' = t \<or> t' = filter (\<lambda>r. \<not> purgeable now retention r) t"
      by (auto simp: purge_terminal_jobs_def split: if_splits)
    moreover have "distinct (map j_id t)" using assms(2) by (simp add: queue_inv_def)
    ultimately show ?thesis
      using assms(3)
      by (auto simp: row_by_filter row_evolves_def purgeable_def life_of_def)
  qed
qed


lemma queue_step_claimed:
  assumes "queue_step t (Claimed k) t'" "queue_inv t" "row_by j_id k t = Some r"
  shows "\<exists>x. row_by j_id k t' = Some x \<and> j_attempts x = j_attempts r + 1"
  using assms(1)
proof cases
  case (q_claim locked now w res)
  from q_claim(2) obtain c where "claim_candidate locked now t = Some c" "res = claim_row now w c"
      "t' = update_where (\<lambda>x. j_id x = j_id c) (claim_row now w) t"
    by (rule claim_SomeD)
  with assms(3) q_claim(1) show ?thesis
    by (auto simp: claim_upd.row_by_update claim_row_def dest: row_by_Some)
qed

lemma queue_step_absent:
  assumes "queue_step t l t'" "row_by j_id k t = None" "l \<noteq> Enqueued k"
  shows "row_by j_id k t' = None" "l \<noteq> Claimed k"
proof -
  have "k \<notin> j_id ` set t" using assms(2) by (simp add: row_by_None)
  from assms(1) have "j_id ` set t' \<subseteq> j_id ` set t \<union> {n. l = Enqueued n}"
    by cases (auto simp: enqueue_def enqueue_sql_def Let_def new_job_def claim_def heartbeat_def
        complete_def fail_def reclaim_stale_def purge_terminal_jobs_def
        split: sum.splits if_splits option.splits elim!: in_update_whereE intro: rev_image_eqI)
  with \<open>k \<notin> j_id ` set t\<close> assms(3) show "row_by j_id k t' = None"
    by (auto simp: row_by_None)
  from assms(1) show "l \<noteq> Claimed k"
  proof cases
    case (q_claim locked now w res)
    from q_claim(2) obtain c where "claim_candidate locked now t = Some c" "res = claim_row now w c"
      by (rule claim_SomeD)
    then show ?thesis
      using q_claim(1) claim_candidate_Some(1) \<open>k \<notin> j_id ` set t\<close> by fastforce
  qed simp_all
qed

lemma queue_trace_inv: "queue_trace t ls t' \<Longrightarrow> queue_inv t \<Longrightarrow> queue_inv t'"
  by (induction rule: queue_trace.induct) (auto intro: queue_inv_step)

lemma claims_counted:
  assumes "queue_trace t ls t'" "queue_inv t" "row_by j_id k t = Some r" "Enqueued k \<notin> set ls"
  shows "int (count_list ls (Claimed k)) \<le> j_max_attempts r - j_attempts r \<and>
    (\<forall>x. row_by j_id k t' = Some x \<longrightarrow> j_max_attempts x = j_max_attempts r \<and>
       j_attempts r + int (count_list ls (Claimed k)) \<le> j_attempts x)"
  using assms
proof (induction rule: queue_trace.induct)
  case (qt_nil t)
  then have "job_ok r" by (auto simp: queue_inv_def dest: row_by_Some)
  with qt_nil show ?case by (auto simp: job_ok_def)
next
  case (qt_step t ls u l v)
  let ?n = "int (count_list ls (Claimed k))"
  have inv: "queue_inv u" "queue_inv v"
    using qt_step by (auto intro: queue_trace_inv queue_inv_step)
  have IH: "?n \<le> j_max_attempts r - j_attempts r"
      "\<And>x. row_by j_id k u = Some x \<Longrightarrow> j_max_attempts x = j_max_attempts r \<and>
         j_attempts r + ?n \<le> j_attempts x"
    using qt_step by auto
  show ?case
  proof (cases "row_by j_id k u")
    case None
    then show ?thesis
      using queue_step_absent [OF qt_step.hyps(2) None] qt_step.prems(3) IH by auto
  next
    case (Some x)
    note ev = queue_step_row [OF qt_step.hyps(2) inv(1) Some]
    show ?thesis
    proof (cases "l = Claimed k")
      case True
      obtain y where y: "row_by j_id k v = Some y" "j_attempts y = j_attempts x + 1"
        using queue_step_claimed [OF _ inv(1) Some] qt_step.hyps(2) True by blast
      moreover have "job_ok y" using inv(2) y(1) by (auto simp: queue_inv_def dest: row_by_Some)
      ultimately show ?thesis
        using ev IH(2) [OF Some] True by (auto simp: row_evolves_def job_ok_def)
    next
      case False
      with ev IH(1) IH(2) [OF Some] show ?thesis
        by (auto simp: row_evolves_def split: option.splits)
    qed
  qed
qed

subsection \<open>Properties\<close>

definition sample_job :: job where
  "sample_job = new_job 7 0 ''healthcheck'' (JObj []) 10 None 3 (Some ''k'')"

lemma sample_enqueue:
  "enqueue 7 0 ''healthcheck'' (JObj []) 10 None (JInt 3) (Some ''k'') [] =
     ([sample_job], Inr (Some sample_job))"
  by (simp add: enqueue_def enqueue_sql_def strict_json_dumps_def sample_job_def key_taken_def
      min_job_attempts_def max_job_attempts_def Let_def)

lemma sample_trace: "queue_trace [] [Enqueued 7] [sample_job]"
  using qt_step [OF qt_nil q_enqueue [OF sample_enqueue]] by simp

text \<open>Whatever the interleaving of enqueuers, workers, reclaimer and purge, every table
  reached from the empty one satisfies the invariant: unique ids and idempotency keys, a
  processing job has a worker and a heartbeat, a pending or dead one has none, attempts never
  exceed \<open>max_attempts\<close>, and the error log stays within its 16000 characters.\<close>

theorem queue_invariant:
  assumes "queue_trace [] ls t"
  shows "queue_inv t"
  using assms by (rule queue_trace_inv) (simp add: queue_inv_def keys_unique_def)

theorem queue_invariant_witness: "queue_inv [sample_job]"
  by (rule queue_invariant [OF sample_trace])

text \<open>C4: Refinement: one statement of the queue moves the row of a job along the abstract life
  (waiting with a budget of claims, running, finished, buried) or leaves it where it is; a row
  disappears only when its life has ended, and a completed or dead row is never changed.\<close>

theorem queue_refines_life:
  assumes "queue_inv t" "queue_step t l t'" "row_by j_id k t = Some r"
  shows "case row_by j_id k t' of
           None \<Rightarrow> life_of r = Finished \<or> life_of r = Buried
         | Some r' \<Rightarrow> r' = r \<or> (active r \<and>
             (life_of r' = life_of r \<or> life_step (life_of r) (life_of r')))"
  using queue_step_row [OF assms(2,1,3)] by (auto simp: row_evolves_def split: option.splits)

lemma sample_claim:
  "claim {} 5 3 [sample_job] = ([claim_row 5 3 sample_job], Some (claim_row 5 3 sample_job))"
  by (simp add: claim_def claim_candidate_def sample_job_def new_job_def claimable_def)

theorem queue_refines_life_witness:
  "case row_by j_id 7 [claim_row 5 3 sample_job] of
     None \<Rightarrow> life_of sample_job = Finished \<or> life_of sample_job = Buried
   | Some r' \<Rightarrow> r' = sample_job \<or> (active sample_job \<and>
       (life_of r' = life_of sample_job \<or> life_step (life_of sample_job) (life_of r')))"
  by (rule queue_refines_life [of "[sample_job]" "Claimed 7"])
    (use queue_trace_inv [OF sample_trace] q_claim [OF sample_claim] in
      \<open>simp_all add: queue_inv_def keys_unique_def row_by_def sample_job_def new_job_def claim_row_def\<close>)

text \<open>No job is handed out more often than its \<open>max_attempts\<close> allows: along any interleaving
  the number of claims of a job is at most the attempts it has left.\<close>

theorem claims_bounded:
  assumes "queue_inv t" "queue_trace t ls t'" "row_by j_id k t = Some r" "Enqueued k \<notin> set ls"
  shows "int (count_list ls (Claimed k)) \<le> j_max_attempts r - j_attempts r"
  using claims_counted [OF assms(2,1,3,4)] by simp

lemma sample_claim_trace: "queue_trace [sample_job] [Claimed 7] [claim_row 5 3 sample_job]"
  using qt_step [OF qt_nil q_claim [OF sample_claim]]
  by (simp add: sample_job_def new_job_def)

theorem claims_bounded_witness:
  "int (count_list [Claimed 7] (Claimed 7)) \<le> j_max_attempts sample_job - j_attempts sample_job"
  by (rule claims_bounded [OF _ sample_claim_trace])
    (use queue_trace_inv [OF sample_trace] in
      \<open>simp_all add: queue_inv_def keys_unique_def row_by_def sample_job_def new_job_def\<close>)

text \<open>\<open>claim\<close> hands out the unlocked, due, pending job that comes first by priority and then by
  \<open>run_at\<close>, gives it to the caller with a fresh heartbeat, and leaves every other row alone; it
  returns nothing exactly when no unlocked job is due.\<close>

theorem claim_takes_first:
  "case claim locked now w t of
     (t', None) \<Rightarrow> t' = t \<and> (\<forall>r \<in> set t. claimable now r \<longrightarrow> j_id r \<in> locked)
   | (t', Some r') \<Rightarrow> \<exists>r \<in> set t. r' = claim_row now w r \<and> claimable now r \<and> j_id r \<notin> locked \<and>
       owns (j_id r) w r' \<and> j_heartbeat r' = Some now \<and>
       t' = update_where (\<lambda>x. j_id x = j_id r) (claim_row now w) t \<and>
       (\<forall>x \<in> set t. claimable now x \<and> j_id x \<notin> locked \<longrightarrow>
          (j_priority r, j_run_at r) \<le> (j_priority x, j_run_at x))"
proof (cases "claim_candidate locked now t")
  case None
  then show ?thesis by (simp add: claim_def None flip: claim_candidate_None)
next
  case (Some r)
  note c = claim_candidate_Some [OF Some, unfolded claim_order_def]
  have "owns (j_id r) w (claim_row now w r)" "j_heartbeat (claim_row now w r) = Some now"
    by (simp_all add: owns_def claim_row_def)
  then show ?thesis
    using c by (auto simp: claim_def Some intro!: bexI [of _ r])
qed

theorem claim_takes_first_witness:
  "\<exists>r \<in> set [sample_job]. claim_row 5 3 sample_job = claim_row 5 3 r \<and> j_id r \<notin> {}"
  using claim_takes_first [where locked = "{}" and now = 5 and w = 3 and t = "[sample_job]"]
  by (auto simp: sample_claim)

text \<open>Two claims that both succeed never hand out the same job, even with no time between
  them: the first one has left the pending state.\<close>

theorem claims_exclusive:
  assumes "claim locked now w t = (t', Some r)"
    and "claim locked' now' w' t' = (t'', Some r')"
  shows "j_id r \<noteq> j_id r'"
proof
  assume same: "j_id r = j_id r'"
  from assms(1) obtain c where c: "claim_candidate locked now t = Some c" "r = claim_row now w c"
      "t' = update_where (\<lambda>x. j_id x = j_id c) (claim_row now w) t"
    by (rule claim_SomeD)
  from assms(2) obtain d where d: "claim_candidate locked' now' t' = Some d" "r' = claim_row now' w' d"
    by (rule claim_SomeD)
  have "d \<in> set t'" "claimable now' d" using claim_candidate_Some(1,2) [OF d(1)] by auto
  have "j_id d = j_id c" using same c(2) d(2) by simp
  with \<open>d \<in> set t'\<close> have "j_status d = Processing"
    unfolding c(3) by (elim in_update_whereE) (simp_all add: claim_row_def)
  with \<open>claimable now' d\<close> show False by (simp add: claimable_def)
qed

definition sample_pair :: "job list" where
  "sample_pair = [sample_job, sample_job\<lparr>j_id := 8, j_key := None\<rparr>]"

theorem claims_exclusive_witness:
  "j_id (claim_row 5 3 sample_job) \<noteq> j_id (claim_row 5 4 (sample_job\<lparr>j_id := 8, j_key := None\<rparr>))"
proof (rule claims_exclusive)
  show "claim {} 5 3 sample_pair = (claim_row 5 3 sample_job # tl sample_pair,
      Some (claim_row 5 3 sample_job))"
    by code_simp
  show "claim {} 5 4 (claim_row 5 3 sample_job # tl sample_pair) =
      ([claim_row 5 3 sample_job, claim_row 5 4 (sample_job\<lparr>j_id := 8, j_key := None\<rparr>)],
       Some (claim_row 5 4 (sample_job\<lparr>j_id := 8, j_key := None\<rparr>)))"
    by code_simp
qed

text \<open>How a worker loses a job: the reclaimer takes it back, or the worker itself completes or fails it. After
  that anything may happen in the queue, also to the job, which another worker may claim in its turn; only a
  new claim of this job by this worker is excluded.\<close>

inductive gives_up :: "uuid \<Rightarrow> uuid \<Rightarrow> job list \<Rightarrow> job list \<Rightarrow> bool" for w jid where
  g_reclaim: "reclaim_stale locked now timeout t = (t', Inr rows) \<Longrightarrow> r \<in> set rows \<Longrightarrow> j_id r = jid \<Longrightarrow> gives_up w jid t t'"
| g_complete: "complete now jid w result t = (t', Inr True) \<Longrightarrow> gives_up w jid t t'"
| g_fail: "fail now clock stamp jid w attempts error permanent t = (t', Inr (Some st)) \<Longrightarrow> gives_up w jid t t'"

inductive others_step :: "uuid \<Rightarrow> uuid \<Rightarrow> job list \<Rightarrow> job list \<Rightarrow> bool" for w jid where
  o_claim: "claim locked now v t = (t', Some r) \<Longrightarrow> v \<noteq> w \<or> j_id r \<noteq> jid \<Longrightarrow> others_step w jid t t'"
| o_step: "queue_step t l t' \<Longrightarrow> (\<And>i. l \<noteq> Claimed i) \<Longrightarrow> others_step w jid t t'"

definition unowned :: "uuid \<Rightarrow> uuid \<Rightarrow> job list \<Rightarrow> bool" where
  "unowned w jid t \<longleftrightarrow> (\<forall>x \<in> set t. \<not> owns jid w x)"

lemma unowned_update:
  assumes "unowned w jid t" "\<And>x. x \<in> set t \<Longrightarrow> p x \<Longrightarrow> owns jid w (f x) \<Longrightarrow> owns jid w x"
  shows "unowned w jid (update_where p f t)"
  using assms by (auto simp: unowned_def set_update_where)

text \<open>A job that was given up is owned no more: of the rows with its id only the one the step wrote.\<close>

lemma gives_up_unowned:
  assumes "gives_up w jid t t'" "distinct (map j_id t)"
  shows "unowned w jid t'"
proof -
  have written: "unowned w jid (update_where p f t)"
    if "s \<in> set t" "p s" "j_id s = jid" "\<And>x. \<not> owns jid w (f x)" for p f s
    unfolding unowned_def
  proof
    fix x assume "x \<in> set (update_where p f t)"
    then show "\<not> owns jid w x"
    proof (cases rule: in_update_whereE)
      case (1 y)
      then show ?thesis using that(4) by simp
    next
      case 2
      with that(1-3) assms(2) have "j_id x \<noteq> jid" by (auto simp: distinct_map inj_on_def)
      then show ?thesis by (simp add: owns_def)
    qed
  qed
  have held: "unowned w jid (update_where (owns jid w) f t)"
    if "\<exists>s \<in> set t. owns jid w s" "\<And>x. \<not> owns jid w (f x)" for f
  proof -
    from that(1) obtain s where s: "s \<in> set t" "owns jid w s" by blast
    then have "j_id s = jid" by (simp add: owns_def)
    then show ?thesis using s that(2) by (intro written [of s]) simp_all
  qed
  from assms(1) show ?thesis
  proof cases
    case (g_reclaim locked now timeout rows r)
    then obtain m where m: "t' = update_where (\<lambda>r. stale now m r \<and> j_id r \<notin> locked) (reclaim_row now) t"
        "rows = map (reclaim_row now) (filter (\<lambda>r. stale now m r \<and> j_id r \<notin> locked) t)"
      by (auto simp: reclaim_stale_def Let_def split: sum.splits)
    then obtain s where "s \<in> set t" "stale now m s" "j_id s \<notin> locked" "j_id s = jid" using g_reclaim(2,3) by auto
    then show ?thesis unfolding m(1) by (intro written [of s]) (auto simp: owns_def reclaim_row_def)
  next
    case (g_complete now result)
    then obtain v where "t' = update_where (owns jid w) (complete_row now v) t" "\<exists>s \<in> set t. owns jid w s"
      by (auto simp: complete_def split: sum.splits)
    then show ?thesis by (auto intro!: held) (simp add: owns_def complete_row_def)
  next
    case (g_fail now clock stamp attempts error permanent st)
    have "\<exists>s \<in> set t. owns jid w s"
      using g_fail by (auto simp: fail_def Let_def find_Some_iff split: sum.splits)
    with g_fail show ?thesis
      by (auto simp: fail_def Let_def split: sum.splits intro!: held) (auto simp: owns_def fail_row_def)
  qed
qed

lemma others_keep_unowned:
  assumes "others_step w jid t t'" "unowned w jid t"
  shows "unowned w jid t'"
  using assms(1)
proof cases
  case (o_claim locked now v r)
  from o_claim(1) obtain c where c: "claim_candidate locked now t = Some c" "r = claim_row now v c"
      "t' = update_where (\<lambda>x. j_id x = j_id c) (claim_row now v) t" by (rule claim_SomeD)
  show ?thesis
    unfolding c(3) using o_claim(2) c(2) by (intro unowned_update [OF assms(2)]) (auto simp: owns_def claim_row_def)
next
  case (o_step l)
  from o_step(1) show ?thesis
  proof cases
    case (q_enqueue nid now task payload prio run_at max_att key res)
    then have "t' = t \<or> (\<exists>x. t' = t @ [x] \<and> j_status x = Pending)"
      by (auto simp: enqueue_def enqueue_sql_def new_job_def Let_def split: sum.splits if_splits)
    with assms(2) show ?thesis by (auto simp: unowned_def owns_def)
  next
    case (q_claim locked now v res)
    with o_step(2) show ?thesis by blast
  next
    case (q_claim_none locked now v)
    then have "t' = t" by (auto simp: claim_def split: option.splits)
    with assms(2) show ?thesis by simp
  next
    case (q_heartbeat now i v b)
    then show ?thesis
      using assms(2) by (auto simp: heartbeat_def owns_def heartbeat_row_def intro!: unowned_update)
  next
    case (q_complete now i v result res)
    then show ?thesis
      using assms(2) by (auto simp: complete_def owns_def complete_row_def split: sum.splits intro!: unowned_update)
  next
    case (q_fail now clock stamp i v attempts error permanent res)
    then show ?thesis
      using assms(2) by (auto simp: fail_def Let_def owns_def fail_row_def split: sum.splits intro!: unowned_update)
  next
    case (q_reclaim locked now timeout res)
    then show ?thesis
      using assms(2) by (auto simp: reclaim_stale_def Let_def owns_def reclaim_row_def split: sum.splits intro!: unowned_update)
  next
    case (q_purge now retention res)
    then show ?thesis using assms(2) by (auto simp: purge_terminal_jobs_def unowned_def split: if_splits)
  qed
qed

text \<open>C11: Fencing. Once the reclaimer has taken a job back from a worker, or the worker has completed or
  failed it, the worker can no longer heartbeat, complete or fail it, whatever happens in the queue in
  between: its calls report the loss and change nothing, also while another worker runs the job, until the
  worker claims this job anew.\<close>

theorem reclaimed_worker_is_fenced:
  assumes "queue_inv t" "gives_up w jid t t'" "(others_step w jid)\<^sup>*\<^sup>* t' u"
  shows "heartbeat n jid w u = (u, False)
    \<and> (finite_json result \<longrightarrow> complete n jid w result u = (u, Inr False))
    \<and> fail n clock stamp jid w (JInt a) err perm u = (u, Inr None)"
proof -
  have "unowned w jid t'" using gives_up_unowned [OF assms(2)] assms(1) by (simp add: queue_inv_def)
  with assms(3) have "unowned w jid u" by (induction rule: rtranclp_induct) (auto intro: others_keep_unowned)
  then show ?thesis
    by (simp add: unowned_def heartbeat_def fail_def complete_def strict_json_dumps_def Let_def not_owner_noop)
qed

definition sample_held :: job where
  "sample_held = claim_row 5 3 sample_job"

definition sample_taken :: job where
  "sample_taken = claim_row 60000002 4 (reclaim_row 60000000 sample_held)"

text \<open>The job another worker has claimed after the reclaim.\<close>

theorem reclaimed_worker_is_fenced_witness:
  "heartbeat 60000003 7 3 [sample_taken] = ([sample_taken], False) \<and>
   fail 60000003 60000003 ''t'' 7 3 (JInt 1) ''e'' False [sample_taken] = ([sample_taken], Inr None) \<and>
   owns 7 4 sample_taken"
proof -
  have inv: "queue_inv [sample_held]"
    by (simp add: sample_held_def claim_row_def sample_job_def new_job_def queue_inv_def
        keys_unique_def job_ok_def)
  have "reclaim_stale {} 60000000 (JInt 45) [sample_held] =
      ([reclaim_row 60000000 sample_held], Inr [reclaim_row 60000000 sample_held])"
    by (simp add: reclaim_stale_def stale_def sample_held_def claim_row_def sample_job_def
        new_job_def)
  then have up: "gives_up 3 7 [sample_held] [reclaim_row 60000000 sample_held]"
    by (rule g_reclaim [where r = "reclaim_row 60000000 sample_held"])
      (simp_all add: sample_held_def claim_row_def sample_job_def new_job_def)
  have "claim {} 60000002 4 [reclaim_row 60000000 sample_held] = ([sample_taken], Some sample_taken)"
    by (simp add: claim_def claim_candidate_def claimable_def sample_taken_def sample_held_def claim_row_def reclaim_row_def
        sample_job_def new_job_def exhausted_def)
  then have "others_step 3 7 [reclaim_row 60000000 sample_held] [sample_taken]" by (rule o_claim) simp
  then have "(others_step 3 7)\<^sup>*\<^sup>* [reclaim_row 60000000 sample_held] [sample_taken]" by blast
  from reclaimed_worker_is_fenced [OF inv up this] show ?thesis
    by (simp add: owns_def sample_taken_def sample_held_def claim_row_def sample_job_def new_job_def)
qed

text \<open>Enqueuing is idempotent: once a keyed job is in the table, enqueuing that key again, with
  whatever task, payload and limits pass validation, returns nothing and leaves the table as it
  is; an invalid \<open>max_attempts\<close> or a payload that is no strict JSON raises without a write.\<close>

theorem enqueue_idempotent:
  assumes "enqueue nid now task payload prio run_at max_att (Some k) t = (t', Inr res)"
  shows "enqueue nid' now' task' payload' prio' run_at' max_att' (Some k) t' =
    (t', if (\<exists>n. max_att' = JInt n \<and> 1 \<le> n \<and> n \<le> 100)
         then (if finite_json payload' then Inr None
               else Inl (ValueError ''job payload must be strict JSON''))
         else Inl (case max_att' of
              JInt _ \<Rightarrow> ValueError ''max_attempts must be between 1 and 100''
            | _ \<Rightarrow> ValueError ''max_attempts must be an integer''))"
proof -
  have "key_taken (Some k) t'"
    using assms by (auto simp: enqueue_def enqueue_sql_def Let_def key_taken_def new_job_def
        split: sum.splits if_splits)
  then show ?thesis
    by (cases max_att') (auto simp: enqueue_def enqueue_sql_def strict_json_dumps_def
        min_job_attempts_def max_job_attempts_def)
qed

theorem enqueue_idempotent_witness:
  "enqueue 9 100 ''healthcheck'' (JObj []) 1 None (JInt 5) (Some ''k'') [sample_job] =
     ([sample_job], Inr None)"
  using enqueue_idempotent [OF sample_enqueue, of 9 100 "''healthcheck''" "JObj []" 1 None "JInt 5"]
  by simp

text \<open>The retry delay is 2 seconds for a first attempt, doubles with each further one and is
  capped at 300 seconds; it never decreases with the attempts. A value that is no integer
  raises.\<close>

theorem retry_backoff_bounds:
  "retry_backoff_seconds (JInt 1) = Inr 2 \<and>
   (\<forall>n. \<exists>b. retry_backoff_seconds (JInt n) = Inr b \<and> 2 \<le> b \<and> b \<le> 300 \<and>
      (\<exists>b'. retry_backoff_seconds (JInt (n + 1)) = Inr b' \<and>
         b \<le> b' \<and> (1 \<le> n \<longrightarrow> b' = min 300 (2 * b))))"
proof -
  have "\<exists>b. retry_backoff_seconds (JInt n) = Inr b \<and> 2 \<le> b \<and> b \<le> 300 \<and>
      (\<exists>b'. retry_backoff_seconds (JInt (n + 1)) = Inr b' \<and>
         b \<le> b' \<and> (1 \<le> n \<longrightarrow> b' = min 300 (2 * b)))" for n
  proof -
    consider "n \<le> 0" | "n \<in> {1, 2, 3, 4, 5, 6, 7, 8}" | "9 \<le> n" by fastforce
    then show ?thesis
      by cases (auto simp: retry_backoff_eq simp del: retry_backoff_seconds.simps)
  qed
  then show ?thesis by (simp add: retry_backoff_eq del: retry_backoff_seconds.simps)
qed

theorem retry_backoff_bounds_witness:
  "\<exists>b. retry_backoff_seconds (JInt 4) = Inr b \<and> 2 \<le> b \<and> b \<le> 300"
  using retry_backoff_bounds by blast

end
