(* ===== verification/Worker.thy ===== *)
theory Worker
  imports GenerationResult LogSafety QueueMachine
begin

text \<open>
  \<open>app/worker.py\<close> and \<open>app/tasks.py\<close>: the settings of a worker, the registry of tasks, the run of
  one claimed job with its ownership checks, and one round of the reclaimer. A handler is any
  program on the database: what other processes do while it runs is part of its effect, its
  timeout is the outcome \<open>TimeoutError\<close>. The tracing client is not modelled: it keeps no state
  of the service.
\<close>

subsection \<open>Exceptions as text\<close>

fun exc_name :: "pyexc \<Rightarrow> string" where
  "exc_name (ValueError _) = ''ValueError''"
| "exc_name (TypeError _) = ''TypeError''"
| "exc_name (KeyError _) = ''KeyError''"
| "exc_name (LookupError _) = ''LookupError''"
| "exc_name (RuntimeError _) = ''RuntimeError''"
| "exc_name (OSError _) = ''OSError''"
| "exc_name TimeoutError = ''TimeoutError''"
| "exc_name CancelledError = ''CancelledError''"
| "exc_name (IdempotencyConflictError _) = ''IdempotencyConflictError''"
| "exc_name (InvalidLifecycleTransition _) = ''InvalidLifecycleTransition''"
| "exc_name (PermanentTaskError _) = ''PermanentTaskError''"
| "exc_name (HTTPException _ _ _) = ''HTTPException''"
| "exc_name (JuditRequestError _ _ _ _) = ''JuditRequestError''"
| "exc_name (AttachmentProcessingError _ _) = ''AttachmentProcessingError''"
| "exc_name (DatabaseError _) = ''PostgresError''"

fun exc_text :: "pyexc \<Rightarrow> string" where
  "exc_text (ValueError m) = m"
| "exc_text (TypeError m) = m"
| "exc_text (KeyError m) = CHR 0x27 # m @ [CHR 0x27]"
| "exc_text (LookupError m) = m"
| "exc_text (RuntimeError m) = m"
| "exc_text (OSError m) = m"
| "exc_text (IdempotencyConflictError m) = m"
| "exc_text (InvalidLifecycleTransition m) = m"
| "exc_text (PermanentTaskError m) = m"
| "exc_text (HTTPException _ m _) = m"
| "exc_text (JuditRequestError m _ _ _) = m"
| "exc_text (AttachmentProcessingError _ m) = m"
| "exc_text (DatabaseError m) = m"
| "exc_text _ = []"

subsection \<open>Settings\<close>

record worker_settings =
  ws_database_url :: string
  ws_concurrency :: json
  ws_poll_interval :: json
  ws_heartbeat_interval :: json
  ws_stale_after :: json
  ws_task_timeout :: json
  ws_reclaim_interval :: json
  ws_shutdown_grace :: json

text \<open>The value of a number of the settings, once it is known to be finite.\<close>

fun num_rat :: "json \<Rightarrow> rat" where
  "num_rat (JInt i) = of_int i"
| "num_rat (JFloat (Finite q)) = q"
| "num_rat (JBool b) = (if b then 1 else 0)"
| "num_rat _ = 0"

definition infinite_float :: "json \<Rightarrow> bool" where
  "infinite_float v = (case v of JFloat (Finite q) \<Rightarrow> False | JFloat _ \<Rightarrow> True | _ \<Rightarrow> False)"

fun check_positive :: "(string \<times> json) list \<Rightarrow> unit res" where
  "check_positive [] = Inr ()"
| "check_positive ((name, v) # rest) =
     (if infinite_float v then Inl (ValueError (name @ '' must be finite''))
      else if num_rat v \<le> 0 then Inl (ValueError (name @ '' must be greater than zero''))
      else check_positive rest)"

definition validate_settings :: "worker_settings \<Rightarrow> worker_settings res" where
  "validate_settings s =
     res_bind (check_positive
       [(''concurrency'', ws_concurrency s), (''poll_interval_seconds'', ws_poll_interval s),
        (''heartbeat_interval_seconds'', ws_heartbeat_interval s),
        (''stale_after_seconds'', ws_stale_after s), (''task_timeout_seconds'', ws_task_timeout s),
        (''reclaim_interval_seconds'', ws_reclaim_interval s),
        (''shutdown_grace_seconds'', ws_shutdown_grace s)]) (\<lambda>_.
      if num_rat (ws_stale_after s) \<le> num_rat (ws_heartbeat_interval s)
      then Inl (ValueError ''stale_after_seconds must be greater than heartbeat_interval_seconds'')
      else Inr s)"

text \<open>\<open>py_float\<close> is Python's \<open>float()\<close> on text.\<close>

definition env_int :: "(string \<Rightarrow> string option) \<Rightarrow> string \<Rightarrow> string \<Rightarrow> json res" where
  "env_int env name dflt =
     (case py_int (case env name of None \<Rightarrow> dflt | Some v \<Rightarrow> v) of
        None \<Rightarrow> Inl (ValueError ''invalid literal for int()'') | Some i \<Rightarrow> Inr (JInt i))"

definition env_float ::
  "(string \<Rightarrow> pyfloat option) \<Rightarrow> (string \<Rightarrow> string option) \<Rightarrow> string \<Rightarrow> string \<Rightarrow> json res" where
  "env_float py_float env name dflt =
     (case py_float (case env name of None \<Rightarrow> dflt | Some v \<Rightarrow> v) of
        None \<Rightarrow> Inl (ValueError ''could not convert string to float'') | Some f \<Rightarrow> Inr (JFloat f))"

definition settings_from_env ::
  "(string \<Rightarrow> pyfloat option) \<Rightarrow> (string \<Rightarrow> string option) \<Rightarrow> worker_settings res" where
  "settings_from_env py_float env =
     (case env ''DATABASE_URL'' of
        None \<Rightarrow> Inl (RuntimeError ''DATABASE_URL is required'')
      | Some url \<Rightarrow>
          (if url = [] then Inl (RuntimeError ''DATABASE_URL is required'')
           else
             res_bind (env_int env ''WORKER_CONCURRENCY'' ''2'') (\<lambda>conc.
             res_bind (env_float py_float env ''WORKER_POLL_INTERVAL_SECONDS'' ''1'') (\<lambda>poll.
             res_bind (env_float py_float env ''WORKER_HEARTBEAT_INTERVAL_SECONDS'' ''10'') (\<lambda>beat.
             res_bind (env_int env ''WORKER_STALE_AFTER_SECONDS'' ''45'') (\<lambda>stl.
             res_bind (env_float py_float env ''WORKER_TASK_TIMEOUT_SECONDS'' ''120'') (\<lambda>tmo.
             res_bind (env_float py_float env ''WORKER_RECLAIM_INTERVAL_SECONDS'' ''15'') (\<lambda>rec.
             res_bind (env_float py_float env ''WORKER_SHUTDOWN_GRACE_SECONDS'' ''30'') (\<lambda>grc.
             validate_settings \<lparr>ws_database_url = url, ws_concurrency = conc, ws_poll_interval = poll,
               ws_heartbeat_interval = beat, ws_stale_after = stl, ws_task_timeout = tmo,
               ws_reclaim_interval = rec, ws_shutdown_grace = grc\<rparr>)))))))))"

subsection \<open>Tasks\<close>

type_synonym handler = "pydict \<Rightarrow> (db, (string \<times> json) list option) prog"
type_synonym registry = "(string \<times> handler) list"

definition register_task :: "string \<Rightarrow> handler \<Rightarrow> registry \<Rightarrow> registry res" where
  "register_task name h tasks =
     (if name \<in> set (map fst tasks) then Inl (RuntimeError (''task already registered: '' @ name))
      else Inr (tasks @ [(name, h)]))"

definition resolve_task :: "registry \<Rightarrow> string \<Rightarrow> handler res" where
  "resolve_task tasks name =
     (case map_of tasks name of None \<Rightarrow> Inl (LookupError (''unknown task: '' @ name)) | Some h \<Rightarrow> Inr h)"

definition healthcheck :: handler where
  "healthcheck payload = ret (Some [(''ok'', JBool True), (''payload'', document_of_pydict payload)])"

subsection \<open>The run of a job\<close>

text \<open>What a worker works with; the clock readings are those of the transactions of the run.\<close>

record worker =
  w_id :: uuid
  w_tasks :: registry
  w_rp :: "json \<Rightarrow> string"
  w_parse :: "string \<Rightarrow> json option"
  w_env :: "string \<Rightarrow> string option"
  w_enum :: "string list \<Rightarrow> string list"

record clocks =
  k_start :: timestamp
  k_done :: timestamp
  k_fail :: timestamp
  k_python :: timestamp
  k_stamp :: string

definition safe_text :: "worker \<Rightarrow> pyexc \<Rightarrow> string" where
  "safe_text w e = sanitize_error_message (w_enum w) (w_parse w) (w_env w) max_error_message_chars (exc_text e)"

definition decode_payload :: "worker \<Rightarrow> json \<Rightarrow> pydict res" where
  "decode_payload w v = decode_json_object (w_parse w) ''job payload'' v"

definition contract_error :: "pyexc \<Rightarrow> bool" where
  "contract_error e \<longleftrightarrow> is_key_error e \<or> is_lookup_error e \<or> is_type_error e \<or> is_value_error e"

definition resolve_job_contract :: "worker \<Rightarrow> job \<Rightarrow> (handler \<times> pydict) res" where
  "resolve_job_contract w row =
     (case res_bind (resolve_task (w_tasks w) (j_task row)) (\<lambda>h.
        res_bind (decode_payload w (j_payload row)) (\<lambda>p. Inr (h, p))) of
        Inr hp \<Rightarrow> Inr hp
      | Inl e \<Rightarrow> (if contract_error e
          then Inl (PermanentTaskError (''invalid job contract ('' @ exc_name e @ ''): '' @ safe_text w e))
          else Inl e))"

definition on_jobs :: "(job list \<Rightarrow> job list \<times> 'a res) \<Rightarrow> (db, 'a) prog" where
  "on_jobs f = (\<lambda>d. case f (jobs d) of (t, r) \<Rightarrow> (d\<lparr>jobs := t\<rparr>, r))"

definition heartbeat_job :: "timestamp \<Rightarrow> uuid \<Rightarrow> uuid \<Rightarrow> (db, bool) prog" where
  "heartbeat_job now jid wid = on_jobs (\<lambda>t. case heartbeat now jid wid t of (t', b) \<Rightarrow> (t', Inr b))"

text \<open>The start of a generation: False when the job was lost.\<close>

definition start_generation :: "worker \<Rightarrow> clocks \<Rightarrow> job \<Rightarrow> pydict \<Rightarrow> (db, bool) prog" where
  "start_generation w k row payload =
     transaction (bind (heartbeat_job (k_start k) (j_id row) (w_id w)) (\<lambda>owned.
       if owned then then_do (mark_job_started (w_rp w) (k_start k) (j_task row) payload) (ret True)
       else ret False))"

definition finish_job ::
  "worker \<Rightarrow> clocks \<Rightarrow> job \<Rightarrow> pydict \<Rightarrow> (string \<times> json) list option \<Rightarrow> (db, unit) prog" where
  "finish_job w k row payload result =
     (let res = (case result of None \<Rightarrow> [] | Some r \<Rightarrow> r) in
      transaction (bind (on_jobs (complete (k_done k) (j_id row) (w_id w) (JObj res))) (\<lambda>completed.
        if \<not> completed then ret ()
        else if j_task row = generation_task
        then reconcile_generation_result (w_rp w) (w_parse w) (k_done k) payload res
        else ret ())))"

definition fail_job :: "worker \<Rightarrow> clocks \<Rightarrow> job \<Rightarrow> pydict \<Rightarrow> pyexc \<Rightarrow> (db, unit) prog" where
  "fail_job w k row payload e =
     transaction (bind (on_jobs (fail (k_fail k) (k_python k) (k_stamp k) (j_id row) (w_id w)
         (JInt (j_attempts row)) (exc_name e @ '': '' @ safe_text w e) (is_permanent e))) (\<lambda>next.
       if next = Some Dead
       then mark_job_dead (w_rp w) (k_fail k) (j_task row) payload ''job_failed''
       else ret ()))"

definition is_exception :: "pyexc \<Rightarrow> bool" where
  "is_exception e \<longleftrightarrow> e \<noteq> CancelledError"

definition run_job :: "worker \<Rightarrow> clocks \<Rightarrow> job \<Rightarrow> (db, unit) prog" where
  "run_job w k row =
     (case resolve_job_contract w row of
        Inl e \<Rightarrow> fail_job w k row [] e
      | Inr (h, payload) \<Rightarrow>
          try_except
            (bind (if j_task row = generation_task then start_generation w k row payload else ret True)
              (\<lambda>go. if \<not> go then ret ()
                    else bind (h payload) (\<lambda>result. finish_job w k row payload result)))
            is_exception
            (\<lambda>e. fail_job w k row payload e))"

text \<open>\<open>process_one\<close>: the result tells whether a job was claimed.\<close>

definition process_one :: "bool \<Rightarrow> uuid set \<Rightarrow> timestamp \<Rightarrow> worker \<Rightarrow> clocks \<Rightarrow> (db, bool) prog" where
  "process_one stopping locked now w k =
     (if stopping then ret False
      else bind (on_jobs (\<lambda>t. case claim locked now (w_id w) t of (t', r) \<Rightarrow> (t', Inr r))) (\<lambda>row.
        case row of
          None \<Rightarrow> ret False
        | Some r \<Rightarrow> then_do (run_job w k r) (ret True)))"

subsection \<open>One round of the reclaimer\<close>

definition bury_reclaimed :: "worker \<Rightarrow> timestamp \<Rightarrow> job \<Rightarrow> (db, unit) prog" where
  "bury_reclaimed w now row =
     (if j_status row \<noteq> Dead then ret ()
      else case decode_payload w (j_payload row) of
        Inl e \<Rightarrow> (if is_type_error e \<or> is_value_error e
                  then mark_job_dead (w_rp w) now (j_task row) [] ''job_reclaim_exhausted'' else raise e)
      | Inr payload \<Rightarrow> mark_job_dead (w_rp w) now (j_task row) payload ''job_reclaim_exhausted'')"

definition reclaimer_round ::
  "worker \<Rightarrow> uuid set \<Rightarrow> timestamp \<Rightarrow> json \<Rightarrow> (db, nat) prog" where
  "reclaimer_round w locked now stale_after =
     transaction (bind (on_jobs (reclaim_stale locked now stale_after)) (\<lambda>reclaimed.
       then_do (for_each (bury_reclaimed w now) reclaimed) (ret (length reclaimed))))"


subsection \<open>What the worker keeps\<close>

lemma fst_on_jobs: "fst (on_jobs f d) = d\<lparr>jobs := fst (f (jobs d))\<rparr>"
  by (simp add: on_jobs_def split: prod.split)

lemma queue_step_claim: "claim locked now wid t = (t', r) \<Longrightarrow> \<exists>l. queue_step t l t'"
  by (cases r) (auto intro: q_claim q_claim_none)

text \<open>
  The worker touches the database through five statements of the queue and the transitions of
  the lifecycle; every order these obey is obeyed by a whole run, whatever the handler, as long
  as the handler obeys it.
\<close>

locale worker_order = transition_order R for R :: "db \<Rightarrow> db \<Rightarrow> bool" +
  assumes queue: "queue_step (jobs d) l t \<Longrightarrow> R d (d\<lparr>jobs := t\<rparr>)"
begin

lemma statement: "(\<And>t. \<exists>l. queue_step t l (fst (f t))) \<Longrightarrow> obeys R (on_jobs f)"
  unfolding obeys_def fst_on_jobs using queue by blast

lemma claimed: "obeys R (on_jobs (\<lambda>t. case claim locked now wid t of (t', r) \<Rightarrow> (t', Inr r)))"
  by (rule statement) (auto split: prod.split intro: queue_step_claim)

lemma beat: "obeys R (heartbeat_job now jid wid)"
  unfolding heartbeat_job_def
  by (rule statement) (auto split: prod.split intro: q_heartbeat)

lemma completed: "obeys R (on_jobs (complete now jid wid v))"
  by (rule statement) (metis q_complete prod.collapse)

lemma failed: "obeys R (on_jobs (fail now clock stamp jid wid attempts msg permanent))"
  by (rule statement) (metis q_fail prod.collapse)

lemma reclaimed: "obeys R (on_jobs (reclaim_stale locked now timeout))"
  by (rule statement) (metis q_reclaim prod.collapse)

lemma started: "obeys R (mark_job_started rp now task payload)"
  unfolding mark_job_started_def by (intro resp_rules bulk_job)

lemma dead: "obeys R (mark_job_dead rp now task payload code)"
  unfolding mark_job_dead_def by (intro resp_rules bulk_job)

lemma reconciled: "obeys R (reconcile_generation_result rp parse now payload result)"
  unfolding reconcile_generation_result_def Let_def
  by (auto intro!: resp_rules bulk_job bulk_judit bulk_version split: sum.split)

lemma start_generation: "obeys R (start_generation w k row payload)"
  unfolding start_generation_def by (intro resp_rules beat started)

lemma finish_job: "obeys R (finish_job w k row payload result)"
  unfolding finish_job_def Let_def by (intro resp_rules completed reconciled)

lemma fail_job: "obeys R (fail_job w k row payload e)"
  unfolding fail_job_def by (intro resp_rules failed dead)

lemma run_job:
  assumes "\<And>name h p. (name, h) \<in> set (w_tasks w) \<Longrightarrow> obeys R (h p)"
  shows "obeys R (run_job w k row)"
proof (cases "resolve_job_contract w row")
  case (Inl e)
  then show ?thesis by (simp add: run_job_def fail_job)
next
  case (Inr hp)
  then obtain h p where hp: "hp = (h, p)" "map_of (w_tasks w) (j_task row) = Some h"
    by (auto simp: resolve_job_contract_def resolve_task_def split: sum.splits if_splits option.splits)
  from assms [OF map_of_SomeD [OF hp(2)]] show ?thesis
    using Inr hp(1) unfolding run_job_def
    by (auto intro!: resp_rules start_generation finish_job fail_job)
qed

lemma process_one:
  assumes "\<And>name h p. (name, h) \<in> set (w_tasks w) \<Longrightarrow> obeys R (h p)"
  shows "obeys R (process_one stopping locked now w k)"
  unfolding process_one_def by (intro resp_rules claimed run_job assms)

lemma reclaimer_round: "obeys R (reclaimer_round w locked now stale_after)"
  unfolding reclaimer_round_def bury_reclaimed_def by (intro resp_rules reclaimed dead)

end

definition service_inv :: "db \<Rightarrow> bool" where
  "service_inv d \<longleftrightarrow> queue_inv (jobs d) \<and> lifecycle_inv d"

text \<open>Transitions do not touch the queue.\<close>

definition same_jobs :: "db \<Rightarrow> db \<Rightarrow> bool" where
  "same_jobs d d' \<longleftrightarrow> jobs d' = jobs d"

interpretation same_jobs: step_order same_jobs
  by unfold_locales (simp_all add: same_jobs_def)

interpretation same_jobs: transition_order same_jobs
  by unfold_locales
    (auto simp: obeys_def same_jobs_def transition_summary_request_def transaction_def prog_simps
      split: option.splits)

lemma keeps_service:
  "obeys same_jobs m \<Longrightarrow> obeys (keeps lifecycle_inv) m \<Longrightarrow> obeys (keeps service_inv) m"
  by (simp add: obeys_def keeps_def same_jobs_def service_inv_def)

interpretation service: transition_order "keeps service_inv"
  by unfold_locales (intro keeps_service same_jobs.one lifecycle_keeps.one)

lemma lifecycle_inv_jobs [simp]: "lifecycle_inv (d\<lparr>jobs := t\<rparr>) = lifecycle_inv d"
  by (simp add: lifecycle_inv_def)

interpretation service: worker_order "keeps service_inv"
  by unfold_locales (auto simp: keeps_def service_inv_def intro: queue_inv_step)

interpretation advances: worker_order advances
  by unfold_locales (simp add: advances_same_requests)


subsection \<open>The requests a job answers for\<close>

definition job_targets :: "(json \<Rightarrow> string) \<Rightarrow> string \<Rightarrow> pydict \<Rightarrow> db \<Rightarrow> uuid set" where
  "job_targets rp task payload d =
     (if task = ''request_judit_process'' then
        (case payload_uuid rp payload ''tenant_request_id'' of
           Inl _ \<Rightarrow> {} | Inr aid \<Rightarrow> {r_id r | r. r \<in> set (requests d) \<and> r_tjr r = Some aid})
      else if task = ''finalize_judit_request'' then
        (case payload_item payload ''request_id'' of
           Inl _ \<Rightarrow> {} | Inr v \<Rightarrow> set (requests_of_judit (py_str rp v) d))
      else if task = ''generate_process_summary'' then
        (case payload_truthy payload ''judit_request_id'' of
           Some v \<Rightarrow> set (requests_of_judit (py_str rp v) d)
         | None \<Rightarrow> (case payload_uuid rp payload ''version_id'' of
             Inl _ \<Rightarrow> {} | Inr vid \<Rightarrow> set (requests_of_version vid d)))
      else {})"

lemma acquisition_touched:
  assumes "distinct (map r_id (requests d))"
  shows "\<exists>n. transition_requests_for_acquisition now aid (status_name st) f d =
    (d\<lparr>requests := map (touched now st f {r_id r | r. r \<in> set (requests d) \<and> r_tjr r = Some aid})
        (requests d)\<rparr>, Inr n)"
proof -
  let ?ids = "map r_id (filter (\<lambda>r. r_tjr r = Some aid) (requests d))"
  have "set ?ids \<subseteq> r_id ` set (requests d)" by auto
  from transition_ids_touched [OF assms status_of_name this, where now = now and f = f]
  have "\<exists>n. transition_requests_for_acquisition now aid (status_name st) f d =
    (d\<lparr>requests := map (touched now st f (set ?ids)) (requests d)\<rparr>, Inr n)"
    by (simp add: transition_requests_for_acquisition_def transition_many_def prog_simps)
  moreover have "set ?ids = {r_id r | r. r \<in> set (requests d) \<and> r_tjr r = Some aid}" by auto
  ultimately show ?thesis by simp
qed

lemma payload_failures:
  "payload_uuid rp payload key = Inl e \<Longrightarrow> is_key_error e \<or> is_value_error e"
  "payload_item payload key = Inl e \<Longrightarrow> is_key_error e"
  by (auto simp: payload_uuid_def payload_item_def res_bind_def split: option.splits sum.splits)

text \<open>The one transition a job applies, as a map over the requests; the version column of a
  request is never redirected.\<close>

lemma job_effect:
  assumes "distinct (map r_id (requests d))"
  shows "\<exists>n f. transition_job_public_requests rp now task payload (status_name st) err d =
      (d\<lparr>requests := map (touched now st f (job_targets rp task payload d)) (requests d)\<rparr>, Inr n) \<and>
    (\<forall>r \<in> set (requests d). r_version (touched now st f (job_targets rp task payload d) r) = r_version r)"
proof -
  let ?g = "no_fields\<lparr>tf_error := err\<rparr>"
  have none: "map (touched now st f {}) rows = rows" for f rows
    by (intro map_idI) (simp add: touched_def)
  have kept: "r_version (touched now st ?g ids r) = r_version r" for ids r
    by (simp add: touched_def transition_row_def coalesce_def no_fields_def)
  have own: "r_version (touched now st (?g\<lparr>tf_version := Some vid\<rparr>) (set (requests_of_version vid d)) r) =
      r_version r" if "r \<in> set (requests d)" for vid r
    using that assms
    by (auto simp: touched_def transition_row_def coalesce_def requests_of_version_def distinct_map inj_on_def)
  note job = transition_job_public_requests_def job_targets_def try_except_def prog_simps Let_def
  consider "task = ''request_judit_process''" | "task = ''finalize_judit_request''"
    | "task = ''generate_process_summary''" "payload_truthy payload ''judit_request_id'' = None"
    | v where "task = ''generate_process_summary''" "payload_truthy payload ''judit_request_id'' = Some v"
    | "task \<notin> {''request_judit_process'', ''finalize_judit_request'', ''generate_process_summary''}"
    by auto
  then show ?thesis
  proof cases
    case 1
    show ?thesis
    proof (cases "payload_uuid rp payload ''tenant_request_id''")
      case (Inl e)
      with 1 payload_failures(1) [OF Inl] show ?thesis by (auto simp: job none kept intro!: exI [of _ ?g])
    next
      case (Inr aid)
      from acquisition_touched [OF assms, of now aid st ?g] obtain n where
        "transition_requests_for_acquisition now aid (status_name st) ?g d =
          (d\<lparr>requests := map (touched now st ?g {r_id r | r. r \<in> set (requests d) \<and> r_tjr r = Some aid})
            (requests d)\<rparr>, Inr n)" by blast
      with 1 Inr show ?thesis by (auto simp: job kept intro!: exI [of _ ?g])
    qed
  next
    case 2
    show ?thesis
    proof (cases "payload_item payload ''request_id''")
      case (Inl e)
      with 2 payload_failures(2) [OF Inl] show ?thesis by (auto simp: job none kept intro!: exI [of _ ?g])
    next
      case (Inr v)
      from judit_touched [OF assms, of now "py_str rp v" st ?g] obtain n where
        "transition_requests_for_judit_request now (py_str rp v) (status_name st) ?g d =
          (d\<lparr>requests := map (touched now st ?g (set (requests_of_judit (py_str rp v) d)))
            (requests d)\<rparr>, Inr n)" by blast
      with 2 Inr show ?thesis by (auto simp: job kept intro!: exI [of _ ?g])
    qed
  next
    case 3
    show ?thesis
    proof (cases "payload_uuid rp payload ''version_id''")
      case (Inl e)
      with 3 payload_failures(1) [OF Inl] show ?thesis by (auto simp: job none kept intro!: exI [of _ ?g])
    next
      case (Inr vid)
      from version_touched [OF assms, of now vid st ?g] obtain n where
        "transition_requests_for_version now vid (status_name st) ?g d =
          (d\<lparr>requests := map (touched now st (?g\<lparr>tf_version := Some vid\<rparr>) (set (requests_of_version vid d)))
            (requests d)\<rparr>, Inr n)" by blast
      with 3 Inr show ?thesis by (auto simp: job own intro!: exI [of _ "?g\<lparr>tf_version := Some vid\<rparr>"])
    qed
  next
    case (4 v)
    from judit_touched [OF assms, of now "py_str rp v" st ?g] obtain n where
      "transition_requests_for_judit_request now (py_str rp v) (status_name st) ?g d =
        (d\<lparr>requests := map (touched now st ?g (set (requests_of_judit (py_str rp v) d)))
          (requests d)\<rparr>, Inr n)" by blast
    with 4 show ?thesis by (auto simp: job kept intro!: exI [of _ ?g])
  next
    case 5
    then show ?thesis by (auto simp: job none kept intro!: exI [of _ ?g])
  qed
qed


lemma strict_errors:
  "strict_value v = Inl e \<Longrightarrow> is_value_error e"
  "strict_list xs = Inl e \<Longrightarrow> is_value_error e"
  "strict_pairs kvs = Inl e \<Longrightarrow> is_value_error e"
proof (induction v and xs and kvs rule: strict_value_strict_list_strict_pairs.induct)
  case (1 f)
  then show ?case by (auto simp: reject_non_standard_constant_def split: pyfloat.splits)
next
  case (3 kvs)
  have "reject_duplicate_pairs acc ps = Inl e \<Longrightarrow> is_value_error e" for acc ps
    by (induction acc ps rule: reject_duplicate_pairs.induct) (auto split: if_splits)
  with 3 show ?case by (auto simp: res_bind_def split: sum.splits)
qed (auto simp: res_bind_def split: sum.splits)

lemma decode_payload_errors: "decode_payload w v = Inl e \<Longrightarrow> is_value_error e"
  by (auto simp: decode_payload_def decode_json_object_def decode_json_value_def loads_strict_json_def
      res_bind_def strict_errors(1) split: if_splits json.splits option.splits sum.splits)

text \<open>The payload of a dead job as the reclaimer sees it.\<close>

definition buried_payload :: "worker \<Rightarrow> job \<Rightarrow> pydict" where
  "buried_payload w r = (case decode_payload w (j_payload r) of Inl _ \<Rightarrow> [] | Inr p \<Rightarrow> p)"

lemma bury_eq:
  "bury_reclaimed w now r = (if j_status r = Dead
     then mark_job_dead (w_rp w) now (j_task r) (buried_payload w r) ''job_reclaim_exhausted'' else ret ())"
  using decode_payload_errors [of w "j_payload r"]
  by (auto simp: bury_reclaimed_def buried_payload_def split: sum.split)

definition settled :: "uuid set \<Rightarrow> db \<Rightarrow> bool" where
  "settled ids d \<longleftrightarrow> (\<forall>k \<in> ids. \<exists>r. row_by r_id k (requests d) = Some r \<and> terminal (r_status r))"

lemma settled_advances: "settled ids d \<Longrightarrow> advances d d' \<Longrightarrow> settled ids d'"
  unfolding settled_def advances_def by (metis terminal_absorbing)

lemma failed_open: "\<not> terminal st \<Longrightarrow> transition_allowed st Failed"
  by (simp add: transition_allowed_def terminal_def terminal_statuses_def)

lemma failed_terminal: "terminal Failed"
  by (simp add: terminal_def terminal_statuses_def)

lemma job_targets_known: "job_targets rp task payload d \<subseteq> r_id ` set (requests d)"
proof -
  have "set (requests_of_version vid d) \<subseteq> r_id ` set (requests d)"
    "{r_id r |r. r \<in> set (requests d) \<and> r_tjr r = Some aid} \<subseteq> r_id ` set (requests d)" for vid aid
    by (auto simp: requests_of_version_def)
  then show ?thesis
    unfolding job_targets_def by (simp add: requests_of_judit_sub split: sum.split option.split)
qed

text \<open>The death of a job: every request it answers for ends, none is left out, the targets of
  other jobs stay what they were.\<close>

lemma mark_job_dead_effect:
  assumes "distinct (map r_id (requests d))" "mark_job_dead rp now task payload code d = (d', res)"
  shows "res = Inr () \<and> jobs d' = jobs d \<and> map r_id (requests d') = map r_id (requests d) \<and>
    (\<forall>task' payload'. job_targets rp task' payload' d' = job_targets rp task' payload' d) \<and>
    settled (job_targets rp task payload d) d' \<and>
    (\<forall>k. k \<notin> job_targets rp task payload d \<longrightarrow> row_by r_id k (requests d') = row_by r_id k (requests d))"
proof -
  let ?T = "job_targets rp task payload d"
  from job_effect [OF assms(1), of rp now task payload Failed "Some code"] obtain n f where
    eff: "transition_job_public_requests rp now task payload ''failed'' (Some code) d =
      (d\<lparr>requests := map (touched now Failed f ?T) (requests d)\<rparr>, Inr n)"
    and ver: "\<And>r. r \<in> set (requests d) \<Longrightarrow> r_version (touched now Failed f ?T r) = r_version r"
    by auto
  from eff assms(2) have d': "d' = d\<lparr>requests := map (touched now Failed f ?T) (requests d)\<rparr>"
    and res: "res = Inr ()"
    by (simp_all add: mark_job_dead_def prog_simps)
  have "requests_of_version vid d' = requests_of_version vid d" for vid
    unfolding requests_of_version_def d'
    by (simp add: filter_map o_def) (rule arg_cong [where f = "map r_id"], rule filter_cong, auto simp: ver)
  moreover have "requests_of_judit jid d' = requests_of_judit jid d" for jid
    unfolding d' by (rule requests_of_judit_touched)
  moreover have "{r_id r |r. r \<in> set (requests d') \<and> r_tjr r = Some aid} =
      {r_id r |r. r \<in> set (requests d) \<and> r_tjr r = Some aid}" for aid
    unfolding d' by (auto simp: image_iff) (metis r_id_touched r_tjr_touched)
  ultimately have targets: "job_targets rp task' payload' d' = job_targets rp task' payload' d" for task' payload'
    by (simp add: job_targets_def cong: option.case_cong sum.case_cong)
  have "settled ?T d'"
    unfolding settled_def
  proof
    fix k assume k: "k \<in> ?T"
    then obtain r where r: "row_by r_id k (requests d) = Some r"
      using job_targets_known row_by_None [of r_id k "requests d"] by fastforce
    then have "terminal (r_status (touched now Failed f ?T r))"
      using k row_by_Some [OF r] failed_open failed_terminal
      by (auto simp: touched_status dest: terminal_absorbing)
    with r show "\<exists>r. row_by r_id k (requests d') = Some r \<and> terminal (r_status r)"
      by (simp add: d' row_by_touched)
  qed
  moreover have "row_by r_id k (requests d') = row_by r_id k (requests d)" if "k \<notin> ?T" for k
    using that row_by_Some [of r_id k "requests d"]
    by (cases "row_by r_id k (requests d)") (auto simp: d' row_by_touched touched_def)
  ultimately show ?thesis using res targets by (simp add: d')
qed

lemma bury_all:
  assumes "distinct (map r_id (requests d))" "for_each (bury_reclaimed w now) rows d = (d', res)"
  shows "res = Inr () \<and> (\<forall>r \<in> set rows. j_status r = Dead \<longrightarrow>
    settled (job_targets (w_rp w) (j_task r) (buried_payload w r) d) d')"
  using assms
proof (induction rows arbitrary: d)
  case Nil
  then show ?case by (simp add: prog_simps)
next
  case (Cons r rows)
  show ?case
  proof (cases "j_status r = Dead")
    case False
    then have "bury_reclaimed w now r d = (d, Inr ())" by (simp add: bury_eq ret_def)
    with Cons.prems have "for_each (bury_reclaimed w now) rows d = (d', res)"
      by (simp add: prog_simps)
    from Cons.IH [OF Cons.prems(1) this] False show ?thesis by simp
  next
    case True
    obtain d1 r1 where one: "bury_reclaimed w now r d = (d1, r1)" by (cases "bury_reclaimed w now r d")
    with True have "mark_job_dead (w_rp w) now (j_task r) (buried_payload w r) ''job_reclaim_exhausted'' d = (d1, r1)"
      by (simp add: bury_eq)
    from mark_job_dead_effect [OF Cons.prems(1) this] have eff: "r1 = Inr ()"
      "map r_id (requests d1) = map r_id (requests d)"
      "\<And>task payload. job_targets (w_rp w) task payload d1 = job_targets (w_rp w) task payload d"
      "settled (job_targets (w_rp w) (j_task r) (buried_payload w r) d) d1" by blast+
    from one eff(1) Cons.prems(2) have rest: "for_each (bury_reclaimed w now) rows d1 = (d', res)"
      by (simp add: prog_simps)
    have "obeys advances (for_each (bury_reclaimed w now) rows)"
      unfolding bury_reclaimed_def by (intro advances.resp_rules advances_dead)
    from obeysD' [OF this rest] have "advances d1 d'" .
    with Cons.IH [OF _ rest] Cons.prems(1) eff show ?thesis
      using settled_advances by auto
  qed
qed


subsection \<open>Fencing and deaths, on jobs\<close>

lemma complete_lost:
  "\<forall>x \<in> set (jobs d). \<not> owns jid wid x \<Longrightarrow>
     on_jobs (complete now jid wid v) d = (d, Inr False) \<or> (\<exists>e. on_jobs (complete now jid wid v) d = (d, Inl e))"
  by (auto simp: on_jobs_def complete_def not_owner_noop split: sum.split prod.split)

lemma fail_lost:
  assumes "\<forall>x \<in> set (jobs d). \<not> owns jid wid x"
  shows "on_jobs (fail now clock stamp jid wid (JInt a) msg permanent) d = (d, Inr None)"
  using assms by (simp add: on_jobs_def fail_def retry_backoff_eq not_owner_noop Let_def)

lemma fail_job_lost:
  "\<forall>x \<in> set (jobs d). \<not> owns (j_id row) (w_id w) x \<Longrightarrow> fail_job w k row payload e d = (d, Inr ())"
  by (simp add: fail_job_def transaction_def prog_simps fail_lost)

lemma finish_job_lost:
  assumes "\<forall>x \<in> set (jobs d). \<not> owns (j_id row) (w_id w) x"
  shows "fst (finish_job w k row payload result d) = d"
  using complete_lost [OF assms, of "k_done k" "JObj (case result of None \<Rightarrow> [] | Some r \<Rightarrow> r)"]
  by (auto simp: finish_job_def transaction_def prog_simps Let_def)

lemma fail_dead:
  assumes "find (owns jid wid) (jobs d) = Some r" "permanent \<or> exhausted r"
  shows "\<exists>ra m. on_jobs (fail now clock stamp jid wid (JInt a) msg permanent) d =
    (d\<lparr>jobs := update_where (owns jid wid) (fail_row now ra m permanent) (jobs d)\<rparr>, Inr (Some Dead))"
  using assms by (auto simp: on_jobs_def fail_def retry_backoff_eq Let_def fail_row_def)

lemma job_targets_jobs: "job_targets rp task payload (d\<lparr>jobs := t\<rparr>) = job_targets rp task payload d"
  by (simp add: job_targets_def requests_of_version_def requests_of_judit_def cong: option.case_cong sum.case_cong)

lemma fail_job_dead:
  assumes "distinct (map r_id (requests d))"
    "find (owns (j_id row) (w_id w)) (jobs d) = Some r" "is_permanent e \<or> exhausted r"
  shows "\<exists>d' ra m. fail_job w k row payload e d = (d', Inr ()) \<and>
    jobs d' = update_where (owns (j_id row) (w_id w)) (fail_row (k_fail k) ra m (is_permanent e)) (jobs d) \<and>
    settled (job_targets (w_rp w) (j_task row) payload d) d' \<and>
    (\<forall>i. i \<notin> job_targets (w_rp w) (j_task row) payload d \<longrightarrow>
       row_by r_id i (requests d') = row_by r_id i (requests d))"
proof -
  from fail_dead [OF assms(2,3)] obtain ra m where
    failed: "on_jobs (fail (k_fail k) (k_python k) (k_stamp k) (j_id row) (w_id w) (JInt (j_attempts row))
        (exc_name e @ '': '' @ safe_text w e) (is_permanent e)) d =
      (d\<lparr>jobs := update_where (owns (j_id row) (w_id w)) (fail_row (k_fail k) ra m (is_permanent e)) (jobs d)\<rparr>,
       Inr (Some Dead))" (is "_ = (?d1, _)")
    by blast
  obtain d' res where dead: "mark_job_dead (w_rp w) (k_fail k) (j_task row) payload ''job_failed'' ?d1 = (d', res)"
    by (cases "mark_job_dead (w_rp w) (k_fail k) (j_task row) payload ''job_failed'' ?d1")
  have "distinct (map r_id (requests ?d1))" using assms(1) by simp
  from mark_job_dead_effect [OF this dead] have eff: "res = Inr ()" "jobs d' = jobs ?d1"
    "settled (job_targets (w_rp w) (j_task row) payload d) d'"
    "\<And>i. i \<notin> job_targets (w_rp w) (j_task row) payload d \<Longrightarrow>
       row_by r_id i (requests d') = row_by r_id i (requests ?d1)"
    unfolding job_targets_jobs by blast+
  then have "fail_job w k row payload e d = (d', Inr ())"
    using failed dead by (simp add: fail_job_def transaction_def prog_simps)
  with eff show ?thesis by auto
qed

subsection \<open>Properties\<close>

definition sample_worker :: worker where
  "sample_worker = \<lparr>w_id = 3, w_tasks = [(''healthcheck'', healthcheck)], w_rp = no_repr,
     w_parse = (\<lambda>_. None), w_env = (\<lambda>_. None), w_enum = (\<lambda>xs. xs)\<rparr>"

definition sample_clocks :: clocks where
  "sample_clocks = \<lparr>k_start = 5, k_done = 6, k_fail = 6, k_python = 6, k_stamp = ''t''\<rparr>"

text \<open>C5: A worker and its reclaimer keep the invariants of the service: from a database whose
  queue and lifecycle are well-formed, processing one job (claim, lifecycle start, handler,
  completion with reconciliation, failure with retry or death) and one reclaimer round lead to
  such a database, also when a step raises, and no public request regresses; the registered
  handlers are only asked to do the same.\<close>

theorem worker_keeps_invariants:
  assumes "\<And>name h p. (name, h) \<in> set (w_tasks w) \<Longrightarrow> obeys (keeps service_inv) (h p) \<and> obeys advances (h p)"
    and "service_inv d"
  shows "service_inv (fst (process_one stopping locked now w k d)) \<and>
    advances d (fst (process_one stopping locked now w k d)) \<and>
    service_inv (fst (reclaimer_round w locked now stale_after d)) \<and>
    advances d (fst (reclaimer_round w locked now stale_after d))"
  using assms
  by (auto intro!: keeps_run [OF service.process_one] keeps_run [OF service.reclaimer_round]
      obeysD [OF advances.process_one] obeysD [OF advances.reclaimer_round])

theorem worker_keeps_invariants_witness:
  "service_inv (fst (process_one False {} 5 sample_worker sample_clocks (sample_db\<lparr>jobs := [sample_job]\<rparr>)))"
proof -
  have "obeys (keeps service_inv) (healthcheck p) \<and> obeys advances (healthcheck p)" for p
    by (simp add: healthcheck_def keeps.resp_ret advances.resp_ret)
  then have h: "\<And>name h p. (name, h) \<in> set (w_tasks sample_worker) \<Longrightarrow>
      obeys (keeps service_inv) (h p) \<and> obeys advances (h p)"
    by (simp add: sample_worker_def)
  have "service_inv (sample_db\<lparr>jobs := [sample_job]\<rparr>)"
    by (simp add: service_inv_def queue_inv_def keys_unique_def job_ok_def sample_job_def new_job_def
        lifecycle_inv_def sample_db_def empty_db_def sample_request_def new_request_def request_ok_def
        link_ok_def terminal_def terminal_statuses_def)
  with h show ?thesis by (intro conjunct1 [OF worker_keeps_invariants]) blast+
qed

text \<open>A worker that lost its job cannot move anything: when the row has been taken away by the
  time the handler ends, however it ends, the run leaves the database exactly as the handler left
  it; and a generation whose job is already gone before the lifecycle starts does not even run.\<close>

theorem lost_job_moves_nothing:
  assumes "resolve_job_contract w row = Inr (h, p)"
  shows "(j_task row = generation_task \<and> (\<forall>x \<in> set (jobs d). \<not> owns (j_id row) (w_id w) x) \<longrightarrow>
      run_job w k row d = (d, Inr ())) \<and>
    (\<forall>d0 d1 r. (if j_task row = generation_task then start_generation w k row p d else ret True d) = (d0, Inr True) \<and>
      h p d0 = (d1, r) \<and> (\<forall>x \<in> set (jobs d1). \<not> owns (j_id row) (w_id w) x) \<longrightarrow>
      fst (run_job w k row d) = d1)"
proof (intro conjI allI impI)
  assume a: "j_task row = generation_task \<and> (\<forall>x \<in> set (jobs d). \<not> owns (j_id row) (w_id w) x)"
  then have "heartbeat_job (k_start k) (j_id row) (w_id w) d = (d, Inr False)"
    by (auto simp: heartbeat_job_def on_jobs_def heartbeat_def not_owner_noop)
  with a assms show "run_job w k row d = (d, Inr ())"
    by (simp add: run_job_def try_except_def start_generation_def transaction_def prog_simps)
next
  fix d0 d1 r
  assume a: "(if j_task row = generation_task then start_generation w k row p d else ret True d) = (d0, Inr True) \<and>
      h p d0 = (d1, r) \<and> (\<forall>x \<in> set (jobs d1). \<not> owns (j_id row) (w_id w) x)"
  then have lost: "\<forall>x \<in> set (jobs d1). \<not> owns (j_id row) (w_id w) x" by blast
  have start: "(if j_task row = generation_task then start_generation w k row p else ret True) d = (d0, Inr True)"
    using a by (simp split: if_splits)
  show "fst (run_job w k row d) = d1"
  proof (cases r)
    case (Inl e)
    with a start assms fail_job_lost [OF lost] show ?thesis
      by (simp add: run_job_def try_except_def prog_simps)
  next
    case (Inr result)
    obtain r' where "finish_job w k row p result d1 = (d1, r')"
      using finish_job_lost [OF lost] by (metis prod.collapse)
    with Inr a start assms fail_job_lost [OF lost] show ?thesis
      by (cases r') (simp_all add: run_job_def try_except_def prog_simps)
  qed
qed

theorem lost_job_moves_nothing_witness:
  "fst (run_job sample_worker sample_clocks sample_job sample_db) = sample_db"
proof -
  have "resolve_job_contract sample_worker sample_job = Inr (healthcheck, [])"
    by (simp add: resolve_job_contract_def resolve_task_def sample_worker_def sample_job_def new_job_def
        decode_payload_def decode_json_object_def decode_json_value_def py_dict_def)
  from lost_job_moves_nothing [OF this, of sample_db] show ?thesis
    by (simp add: sample_job_def new_job_def generation_task_def ret_def healthcheck_def sample_db_def empty_db_def)
qed


definition generation_job :: job where
  "generation_job = (new_job 8 0 generation_task
      (JObj [(''process_id'', JStr (uuid_str 3)), (''version_id'', JStr (uuid_str 2))]) 10 None 3 None)
    \<lparr>j_status := Processing, j_worker := Some 3, j_heartbeat := Some 1, j_attempts := 3\<rparr>"

definition dying_db :: db where
  "dying_db = secret_db\<lparr>jobs := [generation_job]\<rparr>"

lemma dying_inv: "lifecycle_inv dying_db"
  by (simp add: dying_db_def secret_inv)

lemma secret_version: "requests_of_version 2 dying_db = [1]"
  by (simp add: requests_of_version_def dying_db_def secret_db_def secret_req_def new_request_def)

lemma dying_targets: "job_targets no_repr generation_task secret_payload dying_db = {1}"
proof -
  have "payload_truthy secret_payload ''judit_request_id'' = None"
    by (simp add: payload_truthy_def secret_payload_def dict_get_def)
  then show ?thesis by (simp add: job_targets_def generation_task_def secret_uuids(2) secret_version)
qed

text \<open>C6: The death of a job ends its requests. When the job a worker still owns fails for good
  (a permanent error, or its attempts are used up), the failure transaction succeeds, the row is
  dead and owned by nobody, every public request the job answers for is terminal, and no other
  request changes.\<close>

theorem dead_job_settles_requests:
  assumes "lifecycle_inv d" "find (owns (j_id row) (w_id w)) (jobs d) = Some r"
    and "is_permanent e \<or> exhausted r"
  shows "\<exists>d'. fail_job w k row payload e d = (d', Inr ()) \<and>
    (\<forall>x \<in> set (jobs d'). \<not> owns (j_id row) (w_id w) x) \<and>
    (\<exists>x \<in> set (jobs d'). j_id x = j_id row \<and> j_status x = Dead) \<and>
    settled (job_targets (w_rp w) (j_task row) payload d) d' \<and>
    (\<forall>i. i \<notin> job_targets (w_rp w) (j_task row) payload d \<longrightarrow>
       row_by r_id i (requests d') = row_by r_id i (requests d))"
proof -
  have "distinct (map r_id (requests d))" using assms(1) by (simp add: lifecycle_inv_def)
  from fail_job_dead [OF this assms(2,3), of k payload] obtain d' ra m where run:
    "fail_job w k row payload e d = (d', Inr ())"
    and jobs: "jobs d' = update_where (owns (j_id row) (w_id w)) (fail_row (k_fail k) ra m (is_permanent e)) (jobs d)"
    and rest: "settled (job_targets (w_rp w) (j_task row) payload d) d'"
      "\<forall>i. i \<notin> job_targets (w_rp w) (j_task row) payload d \<longrightarrow>
         row_by r_id i (requests d') = row_by r_id i (requests d)"
    by blast
  have "\<not> owns (j_id row) (w_id w) x" if "x \<in> set (jobs d')" for x
    using that unfolding jobs by (elim in_update_whereE) (simp_all add: owns_def fail_row_def)
  moreover have "r \<in> set (jobs d)" "owns (j_id row) (w_id w) r"
    using assms(2) by (auto simp: find_Some_iff)
  then have "fail_row (k_fail k) ra m (is_permanent e) r \<in> set (jobs d')"
    unfolding jobs by (auto simp: set_update_where)
  then have "\<exists>x \<in> set (jobs d'). j_id x = j_id row \<and> j_status x = Dead"
    using assms(3) \<open>owns (j_id row) (w_id w) r\<close>
    by (intro bexI [of _ "fail_row (k_fail k) ra m (is_permanent e) r"]) (auto simp: fail_row_def owns_def)
  ultimately show ?thesis using run rest by blast
qed

theorem dead_job_settles_requests_witness:
  "\<exists>d'. fail_job sample_worker sample_clocks generation_job secret_payload TimeoutError dying_db = (d', Inr ()) \<and>
    settled {1} d'"
proof -
  have own: "find (owns (j_id generation_job) (w_id sample_worker)) (jobs dying_db) = Some generation_job"
    by (simp add: dying_db_def owns_def generation_job_def sample_worker_def)
  have "exhausted generation_job" by (simp add: exhausted_def generation_job_def new_job_def)
  then have "is_permanent TimeoutError \<or> exhausted generation_job" ..
  from dead_job_settles_requests [OF dying_inv own this, of sample_clocks secret_payload]
  show ?thesis
    by (auto simp: dying_targets sample_worker_def generation_job_def new_job_def)
qed

text \<open>C9: The reclaimer ends them too. A round with a valid timeout always commits and reports the
  jobs it took back; each job whose heartbeat is stale and whose attempts are used up is dead
  afterwards, and every public request it answers for is terminal.\<close>

theorem reclaimer_settles_requests:
  assumes "lifecycle_inv d" "0 < timeout"
  shows "\<exists>d'. reclaimer_round w locked now (JInt timeout) d =
      (d', Inr (length (filter (\<lambda>r. stale now timeout r \<and> j_id r \<notin> locked) (jobs d)))) \<and>
    (\<forall>r \<in> set (jobs d). stale now timeout r \<and> j_id r \<notin> locked \<and> exhausted r \<longrightarrow>
       reclaim_row now r \<in> set (jobs d') \<and> j_status (reclaim_row now r) = Dead \<and>
       settled (job_targets (w_rp w) (j_task r) (buried_payload w r) d) d')"
proof -
  let ?hit = "\<lambda>r. stale now timeout r \<and> j_id r \<notin> locked"
  let ?rows = "map (reclaim_row now) (filter ?hit (jobs d))"
  let ?d1 = "d\<lparr>jobs := update_where ?hit (reclaim_row now) (jobs d)\<rparr>"
  have reclaim: "on_jobs (reclaim_stale locked now (JInt timeout)) d = (?d1, Inr ?rows)"
    using assms(2) by (simp add: on_jobs_def reclaim_stale_def Let_def)
  obtain d' res where all: "for_each (bury_reclaimed w now) ?rows ?d1 = (d', res)"
    by (cases "for_each (bury_reclaimed w now) ?rows ?d1")
  have "distinct (map r_id (requests ?d1))" using assms(1) by (simp add: lifecycle_inv_def)
  from bury_all [OF this all] have res: "res = Inr ()" and dead: "\<And>r. r \<in> set ?rows \<Longrightarrow> j_status r = Dead \<Longrightarrow>
      settled (job_targets (w_rp w) (j_task r) (buried_payload w r) d) d'"
    unfolding job_targets_jobs by blast+
  have "obeys same_jobs (for_each (bury_reclaimed w now) ?rows)"
    unfolding bury_reclaimed_def mark_job_dead_def
    by (intro same_jobs.resp_rules same_jobs.bulk_job)
  from obeysD' [OF this all] have jobs: "jobs d' = update_where ?hit (reclaim_row now) (jobs d)"
    by (simp add: same_jobs_def)
  have run: "reclaimer_round w locked now (JInt timeout) d = (d', Inr (length (filter ?hit (jobs d))))"
    using reclaim all res by (simp add: reclaimer_round_def transaction_def prog_simps)
  have "reclaim_row now r \<in> set (jobs d') \<and> j_status (reclaim_row now r) = Dead \<and>
       settled (job_targets (w_rp w) (j_task r) (buried_payload w r) d) d'"
    if r: "r \<in> set (jobs d)" "?hit r" "exhausted r" for r
  proof -
    have st: "j_status (reclaim_row now r) = Dead" using r(3) by (simp add: reclaim_row_def)
    have "reclaim_row now r \<in> set ?rows" using r by auto
    from dead [OF this st] have "settled (job_targets (w_rp w) (j_task r) (buried_payload w r) d) d'"
      by (simp add: reclaim_row_def buried_payload_def)
    with st r show ?thesis by (auto simp: jobs set_update_where)
  qed
  with run show ?thesis by blast
qed

theorem reclaimer_settles_requests_witness:
  "\<exists>d'. reclaimer_round sample_worker {} 100000000 (JInt 45) dying_db = (d', Inr 1) \<and> settled {1} d'"
proof -
  have hit: "stale 100000000 45 generation_job" "exhausted generation_job"
    by (simp_all add: stale_def exhausted_def generation_job_def new_job_def)
  have "buried_payload sample_worker generation_job = secret_payload"
    by (simp add: buried_payload_def decode_payload_def decode_json_object_def decode_json_value_def
        py_dict_def generation_job_def new_job_def secret_payload_def)
  then have t: "job_targets (w_rp sample_worker) (j_task generation_job)
      (buried_payload sample_worker generation_job) dying_db = {1}"
    using dying_targets by (simp add: sample_worker_def generation_job_def new_job_def)
  from reclaimer_settles_requests [OF dying_inv, of 45 sample_worker "{}" 100000000] hit t show ?thesis
    by (auto simp: dying_db_def)
qed

text \<open>A worker runs only with usable settings: whatever the environment holds, settings read
  from it name a database, every number is finite and positive, and a job is declared stale only
  after more than one heartbeat interval.\<close>

theorem accepted_settings_usable:
  assumes "settings_from_env py_float env = Inr s"
  shows "env ''DATABASE_URL'' = Some (ws_database_url s) \<and> ws_database_url s \<noteq> [] \<and>
    (\<forall>v \<in> {ws_concurrency s, ws_poll_interval s, ws_heartbeat_interval s, ws_stale_after s,
        ws_task_timeout s, ws_reclaim_interval s, ws_shutdown_grace s}.
       \<not> infinite_float v \<and> 0 < num_rat v) \<and>
    num_rat (ws_heartbeat_interval s) < num_rat (ws_stale_after s)"
  using assms
  by (auto simp: settings_from_env_def validate_settings_def not_le split: option.splits if_splits)

definition digits_float :: "string \<Rightarrow> pyfloat option" where
  "digits_float s = map_option (\<lambda>i. Finite (of_int i)) (py_int s)"

lemma default_numbers:
  "py_int ''1'' = Some 1" "py_int ''2'' = Some 2" "py_int ''10'' = Some 10" "py_int ''45'' = Some 45"
  "py_int ''120'' = Some 120" "py_int ''15'' = Some 15" "py_int ''30'' = Some 30"
  by code_simp+

theorem accepted_settings_usable_witness:
  "\<exists>s. settings_from_env digits_float (\<lambda>n. if n = ''DATABASE_URL'' then Some ''postgresql://db'' else None) = Inr s \<and>
    num_rat (ws_heartbeat_interval s) < num_rat (ws_stale_after s)"
proof -
  have "\<exists>s. settings_from_env digits_float (\<lambda>n. if n = ''DATABASE_URL'' then Some ''postgresql://db'' else None) = Inr s"
    by (simp add: settings_from_env_def env_int_def env_float_def digits_float_def default_numbers
        validate_settings_def infinite_float_def)
  then show ?thesis using accepted_settings_usable by blast
qed

end
