(* ===== verification/Acquisition.thy ===== *)
theory Acquisition
  imports Worker
begin

text \<open>
  \<open>app/process_requests.py\<close>: the acquisition of a process from the provider. A tenant and a CNJ
  share one row of \<open>tenant_judit_requests\<close>; a user request registers it and enqueues one job
  for each attempt, the job calls the provider. The provider is a program of its own: what
  other processes do to the database while the call runs is part of its effect.
\<close>

subsection \<open>Registration\<close>

definition acquire_task :: string where
  "acquire_task = ''request_judit_process''"

definition acquire_key :: "uuid \<Rightarrow> int \<Rightarrow> string" where
  "acquire_key aid attempt = ''judit-acquire:'' @ uuid_str aid @ '':'' @ show_int attempt"

text \<open>\<open>enqueue\<close> with the default priority, to run at once.\<close>

definition enqueue_job ::
  "uuid \<Rightarrow> timestamp \<Rightarrow> string \<Rightarrow> json \<Rightarrow> int \<Rightarrow> string \<Rightarrow> (db, job option) prog" where
  "enqueue_job jid now task payload max_attempts key =
     on_jobs (enqueue jid now task payload 10 None (JInt max_attempts) (Some key))"

definition enqueue_acquisition :: "uuid \<Rightarrow> timestamp \<Rightarrow> uuid \<Rightarrow> int \<Rightarrow> (db, unit) prog" where
  "enqueue_acquisition jid now aid attempt =
     then_do (enqueue_job jid now acquire_task (JObj [(''tenant_request_id'', JStr (uuid_str aid))])
                1 (acquire_key aid attempt)) (ret ())"

definition link_public_request ::
  "timestamp \<Rightarrow> uuid option \<Rightarrow> uuid \<Rightarrow> string \<Rightarrow> uuid \<Rightarrow> bool \<Rightarrow> (db, unit) prog" where
  "link_public_request now pub tenant code aid already_fetching =
     (case pub of
        None \<Rightarrow> ret ()
      | Some rid \<Rightarrow>
          then_do (link_summary_request_to_acquisition now rid tenant code aid)
            (if already_fetching
             then then_do (transition_requests_for_acquisition now aid ''fetching'' no_fields) (ret ())
             else ret ()))"

definition has_request :: "acquisition \<Rightarrow> bool" where
  "has_request a \<longleftrightarrow> (case a_request a of None \<Rightarrow> False | Some s \<Rightarrow> s \<noteq> [])"

definition acquisition_for :: "uuid \<Rightarrow> string \<Rightarrow> db \<Rightarrow> acquisition option" where
  "acquisition_for tenant code d = find (\<lambda>a. a_tenant a = tenant \<and> a_code a = code) (acquisitions d)"

definition retriable :: "acquisition \<Rightarrow> bool" where
  "retriable a \<longleftrightarrow> a_status a = AFailedRetryable \<and> a_attempt a < 100"

definition set_acquisitions ::
  "(acquisition \<Rightarrow> bool) \<Rightarrow> (acquisition \<Rightarrow> acquisition) \<Rightarrow> (db, unit) prog" where
  "set_acquisitions p f = modify (\<lambda>d. d\<lparr>acquisitions := update_where p f (acquisitions d)\<rparr>)"

definition new_acquisition :: "uuid \<Rightarrow> uuid \<Rightarrow> string \<Rightarrow> acquisition" where
  "new_acquisition aid tenant code = \<lparr>a_id = aid, a_tenant = tenant, a_code = code, a_request = None,
     a_status = AProcessing, a_attempt = 1, a_completed_at = None\<rparr>"

text \<open>The result is the pair \<open>request_id\<close>, \<open>created\<close>; \<open>aid\<close> and \<open>jid\<close> are the ids the
  database generates.\<close>

definition request_process ::
  "uuid \<Rightarrow> uuid \<Rightarrow> timestamp \<Rightarrow> uuid \<Rightarrow> string \<Rightarrow> uuid option \<Rightarrow> (db, string \<times> bool) prog" where
  "request_process aid jid now tenant code pub =
     transaction (bind (query (acquisition_for tenant code)) (\<lambda>existing.
       case existing of
         Some a \<Rightarrow>
           (if retriable a then
              then_do (set_acquisitions (\<lambda>x. a_id x = a_id a)
                         (\<lambda>x. x\<lparr>a_status := AProcessing, a_attempt := a_attempt a + 1\<rparr>))
              (then_do (link_public_request now pub tenant code (a_id a) False)
              (then_do (enqueue_acquisition jid now (a_id a) (a_attempt a + 1))
              (ret ([], True))))
            else
              then_do (link_public_request now pub tenant code (a_id a) (has_request a))
              (ret (case a_request a of None \<Rightarrow> [] | Some s \<Rightarrow> s, False)))
       | None \<Rightarrow>
           then_do (modify (\<lambda>d. d\<lparr>acquisitions := acquisitions d @ [new_acquisition aid tenant code]\<rparr>))
           (then_do (link_public_request now pub tenant code aid False)
           (then_do (enqueue_acquisition jid now aid 1)
           (ret ([], True))))))"

subsection \<open>Access to the acquired process\<close>

definition grant :: "uuid \<times> uuid \<Rightarrow> db \<Rightarrow> db" where
  "grant tp d = (if tp \<in> set (tenant_processes d) then d
     else d\<lparr>tenant_processes := tenant_processes d @ [tp]\<rparr>)"

definition reconcile_tenant_access :: "string \<Rightarrow> uuid \<Rightarrow> (db, unit) prog" where
  "reconcile_tenant_access request tenant = modify (\<lambda>d.
     case sort_key (\<lambda>v. - v_created v) (filter (\<lambda>v. v_request v = Some request) (versions d)) of
       [] \<Rightarrow> d | v # _ \<Rightarrow> grant (tenant, v_process v) d)"

definition grant_request_tenants :: "string \<Rightarrow> uuid \<Rightarrow> (db, unit) prog" where
  "grant_request_tenants request pid = modify (\<lambda>d.
     fold (\<lambda>a. grant (a_tenant a, pid)) (filter (\<lambda>a. a_request a = Some request) (acquisitions d)) d)"

subsection \<open>The task\<close>

fun acquisition_status_name :: "acquisition_status \<Rightarrow> string" where
  "acquisition_status_name AProcessing = ''processing''"
| "acquisition_status_name ACompleted = ''completed''"
| "acquisition_status_name AFailedRetryable = ''failed_retryable''"
| "acquisition_status_name AFailedAmbiguous = ''failed_ambiguous''"

fun is_judit_error :: "pyexc \<Rightarrow> bool" where
  "is_judit_error (JuditRequestError _ _ _ _) = True"
| "is_judit_error _ = False"

fun failure_status :: "pyexc \<Rightarrow> acquisition_status" where
  "failure_status (JuditRequestError _ retry_safe _ _) = (if retry_safe then AFailedRetryable else AFailedAmbiguous)"
| "failure_status _ = AFailedAmbiguous"

definition unrequested :: "uuid \<Rightarrow> acquisition \<Rightarrow> bool" where
  "unrequested aid a \<longleftrightarrow> a_id a = aid \<and> a_request a = None"

definition acquisition_failed :: "timestamp \<Rightarrow> uuid \<Rightarrow> acquisition_status \<Rightarrow> (db, unit) prog" where
  "acquisition_failed now aid status =
     transaction (then_do (set_acquisitions (unrequested aid) (\<lambda>a. a\<lparr>a_status := status\<rparr>))
       (then_do (transition_requests_for_acquisition now aid ''source_unavailable''
                   (no_fields\<lparr>tf_error := Some ''source_unavailable''\<rparr>)) (ret ())))"

text \<open>\<open>judit_request_id\<close> is unique: a second row with the identifier is a database error.\<close>

definition acquisition_requested :: "uuid \<Rightarrow> string \<Rightarrow> (db, unit) prog" where
  "acquisition_requested aid request =
     transaction (bind (query (\<lambda>d. find (unrequested aid) (acquisitions d))) (\<lambda>row.
       case row of
         None \<Rightarrow> ret ()
       | Some a \<Rightarrow> bind (query (\<lambda>d. \<exists>x \<in> set (acquisitions d). a_request x = Some request)) (\<lambda>taken.
           if taken then raise (DatabaseError ''unique_violation'')
           else then_do (set_acquisitions (unrequested aid)
                           (\<lambda>a. a\<lparr>a_request := Some request, a_status := AProcessing\<rparr>))
             (reconcile_tenant_access request (a_tenant a)))))"

text \<open>A task that reads its uuid and needs the database.\<close>

definition uuid_task ::
  "(json \<Rightarrow> string) \<Rightarrow> string option \<Rightarrow> string \<Rightarrow> string \<Rightarrow> (uuid \<Rightarrow> (db, (string \<times> json) list option) prog) \<Rightarrow>
     handler" where
  "uuid_task rp database_url key invalid body = (\<lambda>payload.
     case payload_uuid rp payload key of
       Inl e \<Rightarrow> (if is_key_error e \<or> is_type_error e \<or> is_value_error e
                 then raise (PermanentTaskError invalid) else raise e)
     | Inr u \<Rightarrow> (if database_url = None \<or> database_url = Some []
                 then raise (RuntimeError ''DATABASE_URL is required'') else body u))"

definition request_judit_process_task ::
  "(json \<Rightarrow> string) \<Rightarrow> string option \<Rightarrow> (string \<Rightarrow> (db, string) prog) \<Rightarrow> timestamp \<Rightarrow> timestamp \<Rightarrow> handler" where
  "request_judit_process_task rp database_url provider now later =
     uuid_task rp database_url ''tenant_request_id'' ''invalid tenant process request payload'' (\<lambda>aid.
       bind (query (\<lambda>d. row_by a_id aid (acquisitions d))) (\<lambda>row.
       case row of
         None \<Rightarrow> raise (PermanentTaskError ''tenant process request not found'')
       | Some a \<Rightarrow>
           then_do (transition_requests_for_acquisition now aid ''fetching'' no_fields)
           (if has_request a then ret (Some [(''status'', JStr (acquisition_status_name (a_status a)))])
            else bind (try_except (provider (a_code a)) is_judit_error
                  (\<lambda>e. then_do (acquisition_failed later aid (failure_status e))
                       (raise (PermanentTaskError ''process provider request failed''))))
              (\<lambda>request. then_do (acquisition_requested aid request)
                 (ret (Some [(''status'', JStr ''processing'')]))))))"


subsection \<open>Keys\<close>

lemma length_uuid_str: "length (uuid_str u) = 36"
proof -
  have len: "length (hex_pad n u) = n" for n u by (induction n arbitrary: u) simp_all
  show ?thesis by (simp add: uuid_str_def uuid_hex_def Let_def len del: hex_pad.simps)
qed

definition is_uuid :: "uuid \<Rightarrow> bool" where
  "is_uuid u \<longleftrightarrow> u < 2 ^ 128"

lemma uuid_str_inj: "is_uuid u \<Longrightarrow> is_uuid v \<Longrightarrow> uuid_str u = uuid_str v \<Longrightarrow> u = v"
  by (metis is_uuid_def option.inject parse_uuid_str)

lemma show_int_inj: "0 \<le> i \<Longrightarrow> 0 \<le> j \<Longrightarrow> show_int i = show_int j \<Longrightarrow> i = j"
  by (metis digits_value_show_nat eq_nat_nat_iff not_less show_int_def)

lemma acquire_key_inj:
  assumes "acquire_key a m = acquire_key b n" "is_uuid a" "is_uuid b" "0 \<le> m" "0 \<le> n"
  shows "a = b \<and> m = n"
proof -
  from assms(1) have "uuid_str a @ '':'' @ show_int m = uuid_str b @ '':'' @ show_int n"
    by (simp add: acquire_key_def)
  then have "uuid_str a = uuid_str b" "show_int m = show_int n"
    using append_eq_append_conv [of "uuid_str a" "uuid_str b" "'':'' @ show_int m" "'':'' @ show_int n"]
    by (simp_all add: length_uuid_str)
  with assms(2-) show ?thesis using uuid_str_inj show_int_inj by blast
qed

subsection \<open>The invariant of acquisitions\<close>

text \<open>
  One row for each tenant and CNJ; a job of an acquisition never carries an attempt the row has
  not reached, so the key of the next attempt is always free.
\<close>

definition keys_reached :: "acquisition list \<Rightarrow> job list \<Rightarrow> bool" where
  "keys_reached acqs t \<longleftrightarrow> (\<forall>r \<in> set t. \<forall>i n. j_key r = Some (acquire_key i n) \<and> is_uuid i \<and> 1 \<le> n \<longrightarrow>
     (\<exists>a \<in> set acqs. a_id a = i \<and> n \<le> a_attempt a))"

definition acq_inv :: "db \<Rightarrow> bool" where
  "acq_inv d \<longleftrightarrow> distinct (map a_id (acquisitions d)) \<and>
     distinct (map (\<lambda>a. (a_tenant a, a_code a)) (acquisitions d)) \<and>
     (\<forall>a \<in> set (acquisitions d). is_uuid (a_id a) \<and> 1 \<le> a_attempt a \<and> a_attempt a \<le> 100) \<and>
     keys_reached (acquisitions d) (jobs d)"

definition acquire_job :: "uuid \<Rightarrow> timestamp \<Rightarrow> uuid \<Rightarrow> int \<Rightarrow> job" where
  "acquire_job jid now aid attempt = new_job jid now acquire_task
     (JObj [(''tenant_request_id'', JStr (uuid_str aid))]) 10 None 1 (Some (acquire_key aid attempt))"

lemma acquisition_for_Some:
  "acquisition_for tenant code d = Some a \<Longrightarrow> a \<in> set (acquisitions d) \<and> a_tenant a = tenant \<and> a_code a = code"
  by (auto simp: acquisition_for_def find_Some_iff)

lemma acquisition_for_in:
  assumes "acq_inv d" "a \<in> set (acquisitions d)"
  shows "acquisition_for (a_tenant a) (a_code a) d = Some a"
  unfolding acquisition_for_def
proof (rule find_unique [OF assms(2)])
  fix y assume "y \<in> set (acquisitions d)" "a_tenant y = a_tenant a \<and> a_code y = a_code a"
  with assms show "y = a"
    by (auto simp: acq_inv_def distinct_map inj_on_def)
qed simp

lemma enqueue_acquisition_eq:
  assumes "acquire_key aid n \<notin> {k. \<exists>r \<in> set (jobs d). j_key r = Some k}"
  shows "enqueue_acquisition jid now aid n d = (d\<lparr>jobs := jobs d @ [acquire_job jid now aid n]\<rparr>, Inr ())"
  using assms
  by (auto simp: enqueue_acquisition_def enqueue_job_def on_jobs_def enqueue_def enqueue_sql_def key_taken_def
      strict_json_dumps_def min_job_attempts_def max_job_attempts_def acquire_job_def prog_simps Let_def)

lemma keys_reachedD:
  "keys_reached acqs t \<Longrightarrow> r \<in> set t \<Longrightarrow> j_key r = Some (acquire_key i n) \<Longrightarrow> is_uuid i \<Longrightarrow> 1 \<le> n \<Longrightarrow>
     \<exists>a \<in> set acqs. a_id a = i \<and> n \<le> a_attempt a"
  by (simp add: keys_reached_def)

lemma keys_reached_mono:
  assumes "keys_reached acqs t"
    and "\<And>y. y \<in> set acqs \<Longrightarrow> \<exists>x \<in> set acqs'. a_id x = a_id y \<and> a_attempt y \<le> a_attempt x"
  shows "keys_reached acqs' t"
  unfolding keys_reached_def
proof (intro ballI allI impI)
  fix r i n assume "r \<in> set t" "j_key r = Some (acquire_key i n) \<and> is_uuid i \<and> 1 \<le> n"
  with assms(1) obtain y where "y \<in> set acqs" "a_id y = i" "n \<le> a_attempt y"
    unfolding keys_reached_def by blast
  with assms(2) [of y] show "\<exists>a \<in> set acqs'. a_id a = i \<and> n \<le> a_attempt a" by fastforce
qed

lemma keys_reached_append: "keys_reached acqs t \<Longrightarrow>
    (\<And>i n. j_key r = Some (acquire_key i n) \<Longrightarrow> is_uuid i \<Longrightarrow> 1 \<le> n \<Longrightarrow>
       \<exists>a \<in> set acqs. a_id a = i \<and> n \<le> a_attempt a) \<Longrightarrow>
    keys_reached acqs (t @ [r])"
  by (auto simp: keys_reached_def)

text \<open>Linking and transitions leave the queue and the acquisitions alone.\<close>

definition same_work :: "db \<Rightarrow> db \<Rightarrow> bool" where
  "same_work d d' \<longleftrightarrow> jobs d' = jobs d \<and> acquisitions d' = acquisitions d"

interpretation same_work: step_order same_work
  by unfold_locales (simp_all add: same_work_def)

interpretation same_work: transition_order same_work
  by unfold_locales
    (auto simp: obeys_def same_work_def transition_summary_request_def transaction_def prog_simps
      split: option.splits)

lemma link_same_work:
  "obeys same_work (link_public_request now pub tenant code aid fetching)"
proof -
  have "obeys same_work (link_summary_request_to_acquisition now rid tenant code aid)" for rid
    by (auto simp: obeys_def same_work_def link_summary_request_to_acquisition_def prog_simps split: option.splits)
  then show ?thesis
    unfolding link_public_request_def by (intro same_work.resp_rules same_work.bulk_acquisition)
qed

lemma acq_inv_frame: "same_work d d' \<Longrightarrow> acq_inv d' = acq_inv d"
  by (simp add: same_work_def acq_inv_def)

lemma next_key_free:
  assumes "acq_inv d" "a \<in> set (acquisitions d)" "a_attempt a < n"
  shows "acquire_key (a_id a) n \<notin> {k. \<exists>r \<in> set (jobs d). j_key r = Some k}"
proof (rule notI, clarify)
  fix r assume r: "r \<in> set (jobs d)" "j_key r = Some (acquire_key (a_id a) n)"
  from assms have "is_uuid (a_id a)" "1 \<le> n" by (auto simp: acq_inv_def)
  with r assms(1) obtain b where b: "b \<in> set (acquisitions d)" "a_id b = a_id a" "n \<le> a_attempt b"
    unfolding acq_inv_def keys_reached_def by blast
  with assms(1,2) have "b = a" by (auto simp: acq_inv_def distinct_map inj_on_def)
  with b(3) assms(3) show False by simp
qed

lemma new_key_free:
  assumes "acq_inv d" "aid \<notin> a_id ` set (acquisitions d)" "is_uuid aid" "1 \<le> n"
  shows "acquire_key aid n \<notin> {k. \<exists>r \<in> set (jobs d). j_key r = Some k}"
proof (rule notI, clarify)
  fix r assume "r \<in> set (jobs d)" "j_key r = Some (acquire_key aid n)"
  with assms obtain a where "a \<in> set (acquisitions d)" "a_id a = aid"
    using keys_reachedD [of "acquisitions d" "jobs d" r aid n] by (auto simp: acq_inv_def)
  with assms(2) show False by blast
qed

lemma register_run:
  assumes "then_do (link_public_request now pub tenant code aid fetching)
      (then_do (enqueue_acquisition jid now aid n) (ret x)) d = (d', Inr y)"
    and "acquire_key aid n \<notin> {k. \<exists>r \<in> set (jobs d). j_key r = Some k}"
  shows "y = x \<and> jobs d' = jobs d @ [acquire_job jid now aid n] \<and> acquisitions d' = acquisitions d"
proof -
  obtain d1 r where link: "link_public_request now pub tenant code aid fetching d = (d1, r)"
    by (cases "link_public_request now pub tenant code aid fetching d")
  from obeysD' [OF link_same_work this] have same: "jobs d1 = jobs d" "acquisitions d1 = acquisitions d"
    by (simp_all add: same_work_def)
  with assms(2) have "enqueue_acquisition jid now aid n d1 =
      (d1\<lparr>jobs := jobs d1 @ [acquire_job jid now aid n]\<rparr>, Inr ())"
    by (intro enqueue_acquisition_eq) simp
  with assms(1) link same show ?thesis by (cases r) (auto simp: prog_simps)
qed

definition renewed :: "acquisition \<Rightarrow> acquisition" where
  "renewed a = a\<lparr>a_status := AProcessing, a_attempt := a_attempt a + 1\<rparr>"

lemma request_process_retry:
  assumes "acq_inv d" "acquisition_for tenant code d = Some a" "retriable a"
    and "request_process aid jid now tenant code pub d = (d', Inr y)"
  shows "y = ([], True) \<and> jobs d' = jobs d @ [acquire_job jid now (a_id a) (a_attempt a + 1)] \<and>
    acquisitions d' = update_where (\<lambda>x. a_id x = a_id a) (\<lambda>_. renewed a) (acquisitions d)"
proof -
  let ?f = "\<lambda>x. x\<lparr>a_status := AProcessing, a_attempt := a_attempt a + 1\<rparr>"
  let ?d1 = "d\<lparr>acquisitions := update_where (\<lambda>x. a_id x = a_id a) ?f (acquisitions d)\<rparr>"
  have a: "a \<in> set (acquisitions d)" using acquisition_for_Some [OF assms(2)] by simp
  have free: "acquire_key (a_id a) (a_attempt a + 1) \<notin> {k. \<exists>r \<in> set (jobs ?d1). j_key r = Some k}"
    using next_key_free [OF assms(1) a] by simp
  from assms(2-4) have "then_do (link_public_request now pub tenant code (a_id a) False)
      (then_do (enqueue_acquisition jid now (a_id a) (a_attempt a + 1)) (ret ([], True))) ?d1 = (d', Inr y)"
    by (simp add: request_process_def set_acquisitions_def run_simps)
  from register_run [OF this free] have run: "y = ([], True)"
    "jobs d' = jobs d @ [acquire_job jid now (a_id a) (a_attempt a + 1)]"
    "acquisitions d' = update_where (\<lambda>x. a_id x = a_id a) ?f (acquisitions d)"
    by simp_all
  have "x = a" if "x \<in> set (acquisitions d)" "a_id x = a_id a" for x
    using that a assms(1) by (auto simp: acq_inv_def distinct_map inj_on_def)
  then have "update_where (\<lambda>x. a_id x = a_id a) ?f (acquisitions d) =
      update_where (\<lambda>x. a_id x = a_id a) (\<lambda>_. renewed a) (acquisitions d)"
    by (auto simp: update_where_def renewed_def)
  with run show ?thesis by simp
qed

lemma request_process_new:
  assumes "acq_inv d" "acquisition_for tenant code d = None" "aid \<notin> a_id ` set (acquisitions d)" "is_uuid aid"
    and "request_process aid jid now tenant code pub d = (d', Inr y)"
  shows "y = ([], True) \<and> jobs d' = jobs d @ [acquire_job jid now aid 1] \<and>
    acquisitions d' = acquisitions d @ [new_acquisition aid tenant code]"
proof -
  let ?d1 = "d\<lparr>acquisitions := acquisitions d @ [new_acquisition aid tenant code]\<rparr>"
  have free: "acquire_key aid 1 \<notin> {k. \<exists>r \<in> set (jobs ?d1). j_key r = Some k}"
    using new_key_free [OF assms(1,3,4)] by simp
  from assms(2,5) have "then_do (link_public_request now pub tenant code aid False)
      (then_do (enqueue_acquisition jid now aid 1) (ret ([], True))) ?d1 = (d', Inr y)"
    by (simp add: request_process_def run_simps)
  from register_run [OF this free] show ?thesis by simp
qed

lemma request_process_known:
  assumes "acquisition_for tenant code d = Some a" "\<not> retriable a"
    and "request_process aid jid now tenant code pub d = (d', Inr y)"
  shows "y = (case a_request a of None \<Rightarrow> [] | Some s \<Rightarrow> s, False) \<and> jobs d' = jobs d \<and>
    acquisitions d' = acquisitions d"
proof -
  obtain d1 r where link: "link_public_request now pub tenant code (a_id a) (has_request a) d = (d1, r)"
    by (cases "link_public_request now pub tenant code (a_id a) (has_request a) d")
  from obeysD' [OF link_same_work this] have "jobs d1 = jobs d" "acquisitions d1 = acquisitions d"
    by (simp_all add: same_work_def)
  with link assms show ?thesis
    by (cases r) (auto simp: request_process_def transaction_def prog_simps split: prod.splits sum.splits)
qed

lemma acq_inv_retry:
  assumes inv: "acq_inv d" and a: "a \<in> set (acquisitions d)" "retriable a"
    and jobs: "jobs d' = jobs d @ [acquire_job jid now (a_id a) (a_attempt a + 1)]"
    and acqs: "acquisitions d' = update_where (\<lambda>x. a_id x = a_id a) (\<lambda>_. renewed a) (acquisitions d)"
  shows "acq_inv d'"
proof -
  have only: "x = a" if "x \<in> set (acquisitions d)" "a_id x = a_id a" for x
    using that a(1) inv by (auto simp: acq_inv_def distinct_map inj_on_def)
  have ids: "map a_id (acquisitions d') = map a_id (acquisitions d)"
    "map (\<lambda>a. (a_tenant a, a_code a)) (acquisitions d') = map (\<lambda>a. (a_tenant a, a_code a)) (acquisitions d)"
    using only by (auto simp: acqs update_where_def renewed_def)
  have ra: "renewed a \<in> set (acquisitions d')"
    using a(1) by (auto simp: acqs set_update_where)
  have up: "\<exists>x \<in> set (acquisitions d'). a_id x = a_id y \<and> a_attempt y \<le> a_attempt x"
    if y: "y \<in> set (acquisitions d)" for y
  proof (cases "a_id y = a_id a")
    case True
    with only [OF y] ra show ?thesis by (intro bexI [of _ "renewed a"]) (simp_all add: renewed_def)
  next
    case False
    with y show ?thesis by (intro bexI [of _ y]) (simp_all add: acqs set_update_where)
  qed
  have old: "keys_reached (acquisitions d) (jobs d)" using inv by (simp add: acq_inv_def)
  have "keys_reached (acquisitions d') (jobs d)" by (rule keys_reached_mono [OF old up])
  moreover have "\<exists>x \<in> set (acquisitions d'). a_id x = a_id a \<and> a_attempt a + 1 \<le> a_attempt x"
    using ra by (intro bexI [of _ "renewed a"]) (simp_all add: renewed_def)
  moreover have bounds: "is_uuid (a_id x) \<and> 1 \<le> a_attempt x \<and> a_attempt x \<le> 100" if "x \<in> set (acquisitions d')" for x
    using that inv a unfolding acqs by (elim in_update_whereE) (auto simp: acq_inv_def renewed_def retriable_def)
  moreover have "i = a_id a \<and> n = a_attempt a + 1"
    if "j_key (acquire_job jid now (a_id a) (a_attempt a + 1)) = Some (acquire_key i n)" "is_uuid i" "1 \<le> n" for i n
    using that a inv acquire_key_inj [of "a_id a" "a_attempt a + 1" i n]
    by (auto simp: acquire_job_def new_job_def acq_inv_def)
  ultimately have "keys_reached (acquisitions d') (jobs d')"
    unfolding jobs by (intro keys_reached_append) blast+
  with ids bounds inv show ?thesis unfolding acq_inv_def by simp
qed

lemma acq_inv_new:
  assumes inv: "acq_inv d" and fresh: "aid \<notin> a_id ` set (acquisitions d)" "is_uuid aid"
    and none: "acquisition_for tenant code d = None"
    and jobs: "jobs d' = jobs d @ [acquire_job jid now aid 1]"
    and acqs: "acquisitions d' = acquisitions d @ [new_acquisition aid tenant code]"
  shows "acq_inv d'"
proof -
  have "i = aid \<and> n = 1"
    if "j_key (acquire_job jid now aid 1) = Some (acquire_key i n)" "is_uuid i" "1 \<le> n" for i n
    using that fresh(2) acquire_key_inj [of aid 1 i n] by (auto simp: acquire_job_def new_job_def)
  moreover have old: "keys_reached (acquisitions d) (jobs d)" using inv by (simp add: acq_inv_def)
  have "keys_reached (acquisitions d') (jobs d)"
    by (rule keys_reached_mono [OF old]) (auto simp: acqs)
  ultimately have "keys_reached (acquisitions d') (jobs d')"
    unfolding jobs acqs by (intro keys_reached_append) (auto simp: new_acquisition_def)
  moreover have "(tenant, code) \<notin> (\<lambda>a. (a_tenant a, a_code a)) ` set (acquisitions d)"
    using none by (auto simp: acquisition_for_def find_None_iff)
  then have "distinct (map (\<lambda>a. (a_tenant a, a_code a)) (acquisitions d'))"
    using inv by (simp add: acq_inv_def acqs new_acquisition_def)
  moreover have "distinct (map a_id (acquisitions d'))"
    "\<forall>a \<in> set (acquisitions d'). is_uuid (a_id a) \<and> 1 \<le> a_attempt a \<and> a_attempt a \<le> 100"
    using inv fresh by (simp_all add: acq_inv_def acqs new_acquisition_def)
  ultimately show ?thesis unfolding acq_inv_def by simp
qed


subsection \<open>The task obeys what the worker asks of a handler\<close>

text \<open>
  A store order: transitions, enqueuing and row updates that keep the identity of acquisitions
  obey it; then so do the acquisition's operations, around any provider that obeys it.
\<close>

definition same_acquisition :: "(acquisition \<Rightarrow> acquisition) \<Rightarrow> bool" where
  "same_acquisition f \<longleftrightarrow> (\<forall>a. a_id (f a) = a_id a \<and> a_tenant (f a) = a_tenant a \<and> a_code (f a) = a_code a \<and>
     a_attempt (f a) = a_attempt a)"

locale acquisition_order = worker_order R for R :: "db \<Rightarrow> db \<Rightarrow> bool" +
  assumes rows: "same_acquisition f \<Longrightarrow> R d (d\<lparr>acquisitions := update_where p f (acquisitions d)\<rparr>)"
    and portfolio: "R d (d\<lparr>tenant_processes := tp\<rparr>)"
begin

lemma set_rows: "same_acquisition f \<Longrightarrow> obeys R (set_acquisitions p f)"
  unfolding set_acquisitions_def by (intro resp_modify rows)

lemma granted: "R d (grant tp d)"
  by (simp add: grant_def R_refl portfolio)

lemma access: "obeys R (reconcile_tenant_access request tenant)"
  unfolding reconcile_tenant_access_def
  by (intro resp_modify) (simp add: R_refl granted split: list.split)

lemma grants: "obeys R (grant_request_tenants request pid)"
proof -
  have "R d (fold (\<lambda>a. grant (a_tenant a, pid)) as d)" for as d
    by (induction as arbitrary: d) (auto intro: R_refl R_trans granted)
  then show ?thesis unfolding grant_request_tenants_def by (intro resp_modify)
qed

lemma uuid_task: "(\<And>u. obeys R (body u)) \<Longrightarrow> obeys R (uuid_task rp url key invalid body p)"
  unfolding uuid_task_def by (intro resp_rules)

lemma acquisition_task:
  assumes "\<And>code. obeys R (provider code)"
  shows "obeys R (request_judit_process_task rp url provider now later p)"
  unfolding request_judit_process_task_def acquisition_failed_def acquisition_requested_def
  by (intro uuid_task resp_rules bulk_acquisition set_rows access assms)
    (simp_all add: same_acquisition_def)

end

lemma same_ids:
  "same_acquisition f \<Longrightarrow> map a_id (update_where p f t) = map a_id t"
  "same_acquisition f \<Longrightarrow> map (\<lambda>a. (a_tenant a, a_code a)) (update_where p f t) =
     map (\<lambda>a. (a_tenant a, a_code a)) t"
  by (induction t) (auto simp: same_acquisition_def)

lemma same_row:
  assumes "same_acquisition f" "a \<in> set t"
  shows "\<exists>a' \<in> set (update_where p f t). a_id a' = a_id a \<and> a_tenant a' = a_tenant a \<and> a_code a' = a_code a \<and>
    a_attempt a' = a_attempt a"
  using assms by (auto simp: update_where_def same_acquisition_def)

interpretation service: acquisition_order "keeps service_inv"
proof
  fix f :: "acquisition \<Rightarrow> acquisition" and d :: db and p
  assume f: "same_acquisition f"
  have "link_ok (update_where p f (acquisitions d)) r" if "link_ok (acquisitions d) r" for r
    using that same_row [OF f, of _ "acquisitions d" p] unfolding link_ok_def by (metis (no_types, lifting))
  then show "keeps service_inv d (d\<lparr>acquisitions := update_where p f (acquisitions d)\<rparr>)"
    by (auto simp: keeps_def service_inv_def lifecycle_inv_def)
qed (simp add: keeps_def service_inv_def lifecycle_inv_def)

interpretation advances: acquisition_order advances
  by unfold_locales (simp_all add: advances_same_requests)


subsection \<open>What the task does\<close>

lemma fetching_run:
  assumes "distinct (map r_id (requests d))" "status_of status = Some st"
  shows "\<exists>d1 n. transition_requests_for_acquisition now aid status f d = (d1, Inr n) \<and> same_work d d1 \<and>
    requests d1 = map (touched now st f {r_id r | r. r \<in> set (requests d) \<and> r_tjr r = Some aid}) (requests d)"
proof -
  have "same_work d (fst (transition_requests_for_acquisition now aid status f d))"
    by (rule obeysD [OF same_work.bulk_acquisition])
  with acquisition_touched [OF assms(1), of now aid st f] show ?thesis
    by (auto simp: status_of_Some [OF assms(2)])
qed

lemma failed_run:
  assumes "distinct (map r_id (requests d))"
  shows "\<exists>d'. acquisition_failed now aid status d = (d', Inr ()) \<and>
    acquisitions d' = update_where (unrequested aid) (\<lambda>a. a\<lparr>a_status := status\<rparr>) (acquisitions d) \<and>
    jobs d' = jobs d \<and> settled {r_id r | r. r \<in> set (requests d) \<and> r_tjr r = Some aid} d'"
proof -
  let ?ids = "{r_id r | r. r \<in> set (requests d) \<and> r_tjr r = Some aid}"
  let ?d1 = "d\<lparr>acquisitions := update_where (unrequested aid) (\<lambda>a. a\<lparr>a_status := status\<rparr>) (acquisitions d)\<rparr>"
  have dist: "distinct (map r_id (requests ?d1))" using assms by simp
  have su: "status_of ''source_unavailable'' = Some SourceUnavailable"
    using status_of_name [of SourceUnavailable] by simp
  from fetching_run [OF dist su, of now aid "no_fields\<lparr>tf_error := Some ''source_unavailable''\<rparr>"] obtain d' n f where
    run: "transition_requests_for_acquisition now aid ''source_unavailable''
        (no_fields\<lparr>tf_error := Some ''source_unavailable''\<rparr>) ?d1 = (d', Inr n)"
    and same: "same_work ?d1 d'" and rows: "requests d' = map (touched now SourceUnavailable f ?ids) (requests d)"
    by auto
  have fin: "terminal SourceUnavailable" by (simp add: terminal_def terminal_statuses_def)
  have open_ok: "transition_allowed st SourceUnavailable" if "\<not> terminal st" for st
    using that by (cases st) (simp_all add: status_table)
  have "settled ?ids d'"
    unfolding settled_def
  proof
    fix k assume k: "k \<in> ?ids"
    then obtain r where r: "row_by r_id k (requests d) = Some r"
      using row_by_None [of r_id k "requests d"] by fastforce
    then have "terminal (r_status (touched now SourceUnavailable f ?ids r))"
      using k row_by_Some [OF r] open_ok fin by (auto simp: touched_status dest: terminal_absorbing)
    with r show "\<exists>r. row_by r_id k (requests d') = Some r \<and> terminal (r_status r)"
      by (simp add: rows row_by_touched)
  qed
  with run same show ?thesis
    by (simp add: acquisition_failed_def transaction_def set_acquisitions_def prog_simps same_work_def)
qed

lemma requested_run:
  assumes "find (unrequested aid) (acquisitions d) = Some a" "\<forall>x \<in> set (acquisitions d). a_request x \<noteq> Some request"
  shows "\<exists>d'. acquisition_requested aid request d = (d', Inr ()) \<and> jobs d' = jobs d \<and> requests d' = requests d \<and>
    acquisitions d' = update_where (unrequested aid) (\<lambda>a. a\<lparr>a_request := Some request, a_status := AProcessing\<rparr>)
      (acquisitions d) \<and>
    (\<forall>v \<in> set (versions d). v_request v = Some request \<longrightarrow> (\<exists>w \<in> set (versions d).
       v_request w = Some request \<and> v_created v \<le> v_created w \<and> (a_tenant a, v_process w) \<in> set (tenant_processes d')))"
proof -
  let ?d1 = "d\<lparr>acquisitions := update_where (unrequested aid) (\<lambda>a. a\<lparr>a_request := Some request, a_status := AProcessing\<rparr>)
      (acquisitions d)\<rparr>"
  let ?vs = "sort_key (\<lambda>v. - v_created v) (filter (\<lambda>v. v_request v = Some request) (versions d))"
  have set_vs: "set ?vs = {v \<in> set (versions d). v_request v = Some request}" by simp
  have run: "acquisition_requested aid request d =
      (case ?vs of [] \<Rightarrow> ?d1 | v # _ \<Rightarrow> grant (a_tenant a, v_process v) ?d1, Inr ())"
    using assms by (simp add: acquisition_requested_def transaction_def set_acquisitions_def
        reconcile_tenant_access_def prog_simps split: list.split)
  show ?thesis
  proof (cases ?vs)
    case Nil
    then have "{v \<in> set (versions d). v_request v = Some request} = {}" using set_vs by simp
    with run Nil show ?thesis by auto
  next
    case (Cons w ws)
    have w: "w \<in> set (versions d)" "v_request w = Some request"
      using set_vs Cons by auto
    have "sorted (map (\<lambda>v. - v_created v) (w # ws))" by (metis Cons sorted_sort_key)
    then have top: "v_created v \<le> v_created w" if "v \<in> set (versions d)" "v_request v = Some request" for v
      using that set_vs Cons by auto
    have "(a_tenant a, v_process w) \<in> set (tenant_processes (grant (a_tenant a, v_process w) ?d1))"
      by (simp add: grant_def)
    moreover have "jobs (grant tp x) = jobs x" "requests (grant tp x) = requests x"
      "acquisitions (grant tp x) = acquisitions x" for tp and x :: db
      by (simp_all add: grant_def)
    ultimately show ?thesis using run Cons w top by auto
  qed
qed


subsection \<open>Properties\<close>

text \<open>C12: A user request pays for at most one provider attempt. Registering a process (for a tenant
  and a CNJ) enqueues exactly one job, for the next attempt of the one shared row, when there is
  no acquisition yet or its last attempt was rejected safely and fewer than 100 were made; in
  every other state (in progress, completed, ambiguous failure, exhausted) it enqueues nothing
  and changes no acquisition, and returns the known request id. The invariant that makes the
  job's key free is kept.\<close>

theorem registration_enqueues_one_attempt:
  assumes "acq_inv d" "aid \<notin> a_id ` set (acquisitions d)" "is_uuid aid"
    and "request_process aid jid now tenant code pub d = (d', Inr (rid, created))"
  shows "acq_inv d' \<and> (case acquisition_for tenant code d of
      None \<Rightarrow> created \<and> rid = [] \<and> jobs d' = jobs d @ [acquire_job jid now aid 1] \<and>
        acquisitions d' = acquisitions d @ [new_acquisition aid tenant code]
    | Some a \<Rightarrow>
        if retriable a then created \<and> rid = [] \<and>
          jobs d' = jobs d @ [acquire_job jid now (a_id a) (a_attempt a + 1)] \<and>
          acquisitions d' = update_where (\<lambda>x. a_id x = a_id a) (\<lambda>_. renewed a) (acquisitions d)
        else \<not> created \<and> rid = (case a_request a of None \<Rightarrow> [] | Some s \<Rightarrow> s) \<and>
          jobs d' = jobs d \<and> acquisitions d' = acquisitions d)"
proof (cases "acquisition_for tenant code d")
  case None
  from request_process_new [OF assms(1) None assms(2-4)] None show ?thesis
    using acq_inv_new [OF assms(1-3) None, of d' jid now] by simp
next
  case (Some a)
  show ?thesis
  proof (cases "retriable a")
    case True
    from request_process_retry [OF assms(1) Some True assms(4)] show ?thesis
      using acq_inv_retry [OF assms(1) conjunct1 [OF acquisition_for_Some [OF Some]] True, of d' jid now]
        Some True
      by simp
  next
    case False
    from request_process_known [OF Some False assms(4)] show ?thesis
      using Some False acq_inv_frame [of d d'] assms(1) by (auto simp: same_work_def)
  qed
qed

definition rejected_db :: db where
  "rejected_db = empty_db\<lparr>acquisitions := [\<lparr>a_id = 4, a_tenant = 5, a_code = ''c'', a_request = None,
     a_status = AFailedRetryable, a_attempt = 2, a_completed_at = None\<rparr>]\<rparr>"

lemma rejected_inv: "acq_inv rejected_db"
  by (simp add: acq_inv_def keys_reached_def rejected_db_def empty_db_def is_uuid_def)

lemma rejected_run: "request_process 6 7 9 5 ''c'' None rejected_db =
    (rejected_db\<lparr>acquisitions := map renewed (acquisitions rejected_db), jobs := [acquire_job 7 9 4 3]\<rparr>,
     Inr ([], True))"
proof -
  let ?d = "rejected_db\<lparr>acquisitions := map renewed (acquisitions rejected_db)\<rparr>"
  have "enqueue_acquisition 7 9 4 3 ?d = (?d\<lparr>jobs := [acquire_job 7 9 4 3]\<rparr>, Inr ())"
    by (subst enqueue_acquisition_eq) (simp_all add: rejected_db_def empty_db_def)
  moreover have "request_process 6 7 9 5 ''c'' None rejected_db =
      (case then_do (enqueue_acquisition 7 9 4 3) (ret ([], True)) ?d of
         (s, Inl e) \<Rightarrow> (rejected_db, Inl e) | (s, Inr x) \<Rightarrow> (s, Inr x))"
    unfolding rejected_db_def
    by (simp add: request_process_def transaction_def set_acquisitions_def link_public_request_def
        acquisition_for_def retriable_def renewed_def prog_simps)
  ultimately show ?thesis by (simp add: prog_simps)
qed

theorem registration_enqueues_one_attempt_witness:
  "\<exists>d'. request_process 6 7 9 5 ''c'' None rejected_db = (d', Inr ([], True)) \<and> acq_inv d' \<and>
    jobs d' = [acquire_job 7 9 4 3]"
proof -
  have "6 \<notin> a_id ` set (acquisitions rejected_db)" "is_uuid 6"
    by (simp_all add: rejected_db_def is_uuid_def)
  from registration_enqueues_one_attempt [OF rejected_inv this rejected_run]
  have "acq_inv (rejected_db\<lparr>acquisitions := map renewed (acquisitions rejected_db), jobs := [acquire_job 7 9 4 3]\<rparr>)"
    by blast
  with rejected_run show ?thesis by auto
qed

text \<open>The acquisition task accounts for every outcome of its provider call. A row that already
  has a provider request is not requested again; a provider error records whether the attempt
  may be repeated, ends every public request linked to the row and fails the job for good; any
  other exception passes through with nothing written; an accepted request is recorded and its
  tenant gains access to the newest version delivered for it in the meantime.\<close>

theorem acquisition_task_outcomes:
  assumes "payload_uuid rp payload ''tenant_request_id'' = Inr aid" "url = Some u" "u \<noteq> []"
    and "row_by a_id aid (acquisitions d) = Some a" "distinct (map r_id (requests d))"
    and "transition_requests_for_acquisition now aid ''fetching'' no_fields d = (d1, Inr n)"
    and "provider (a_code a) d1 = (d2, answer)" "distinct (map r_id (requests d2))"
  shows "if has_request a then request_judit_process_task rp url provider now later payload d =
       (d1, Inr (Some [(''status'', JStr (acquisition_status_name (a_status a)))]))
     else case answer of
       Inl e \<Rightarrow>
         if is_judit_error e then
           \<exists>d3. request_judit_process_task rp url provider now later payload d =
               (d3, Inl (PermanentTaskError ''process provider request failed'')) \<and>
             acquisitions d3 = update_where (unrequested aid) (\<lambda>x. x\<lparr>a_status := failure_status e\<rparr>) (acquisitions d2) \<and>
             settled {r_id r | r. r \<in> set (requests d2) \<and> r_tjr r = Some aid} d3
         else request_judit_process_task rp url provider now later payload d = (d2, Inl e)
     | Inr request \<Rightarrow>
         (\<forall>x. find (unrequested aid) (acquisitions d2) = Some x \<and>
            (\<forall>y \<in> set (acquisitions d2). a_request y \<noteq> Some request) \<longrightarrow>
          (\<exists>d3. request_judit_process_task rp url provider now later payload d =
               (d3, Inr (Some [(''status'', JStr ''processing'')])) \<and>
             acquisitions d3 = update_where (unrequested aid)
               (\<lambda>x. x\<lparr>a_request := Some request, a_status := AProcessing\<rparr>) (acquisitions d2) \<and>
             (\<forall>v \<in> set (versions d2). v_request v = Some request \<longrightarrow> (\<exists>w \<in> set (versions d2).
                v_request w = Some request \<and> v_created v \<le> v_created w \<and>
                (a_tenant x, v_process w) \<in> set (tenant_processes d3)))))"
proof -
  have start: "request_judit_process_task rp url provider now later payload d =
      (if has_request a then ret (Some [(''status'', JStr (acquisition_status_name (a_status a)))])
       else bind (try_except (provider (a_code a)) is_judit_error
          (\<lambda>e. then_do (acquisition_failed later aid (failure_status e))
             (raise (PermanentTaskError ''process provider request failed''))))
        (\<lambda>request. then_do (acquisition_requested aid request)
           (ret (Some [(''status'', JStr ''processing'')])))) d1"
    using assms(1-4,6) by (simp add: request_judit_process_task_def uuid_task_def prog_simps)
  show ?thesis
  proof (cases "has_request a")
    case True
    then show ?thesis by (simp add: start ret_def)
  next
    case fresh: False
    show ?thesis
    proof (cases answer)
      case (Inl e)
      show ?thesis
      proof (cases "is_judit_error e")
        case True
        from failed_run [OF assms(8), of later aid "failure_status e"] obtain d3 where
          "acquisition_failed later aid (failure_status e) d2 = (d3, Inr ())"
          "acquisitions d3 = update_where (unrequested aid) (\<lambda>x. x\<lparr>a_status := failure_status e\<rparr>) (acquisitions d2)"
          "settled {r_id r | r. r \<in> set (requests d2) \<and> r_tjr r = Some aid} d3"
          by blast
        with fresh Inl True assms(7) show ?thesis by (simp add: start try_except_def prog_simps)
      next
        case False
        with fresh Inl assms(7) show ?thesis by (simp add: start try_except_def prog_simps)
      qed
    next
      case (Inr request)
      have "\<exists>d3. request_judit_process_task rp url provider now later payload d =
               (d3, Inr (Some [(''status'', JStr ''processing'')])) \<and>
             acquisitions d3 = update_where (unrequested aid)
               (\<lambda>x. x\<lparr>a_request := Some request, a_status := AProcessing\<rparr>) (acquisitions d2) \<and>
             (\<forall>v \<in> set (versions d2). v_request v = Some request \<longrightarrow> (\<exists>w \<in> set (versions d2).
                v_request w = Some request \<and> v_created v \<le> v_created w \<and>
                (a_tenant x, v_process w) \<in> set (tenant_processes d3)))"
        if x: "find (unrequested aid) (acquisitions d2) = Some x"
          "\<forall>y \<in> set (acquisitions d2). a_request y \<noteq> Some request" for x
        using requested_run [OF x] fresh Inr assms(7) by (auto simp: start try_except_def prog_simps)
      with fresh Inr show ?thesis by simp
    qed
  qed
qed

definition refusing_provider :: "string \<Rightarrow> (db, string) prog" where
  "refusing_provider code = raise (JuditRequestError ''Judit request failed with HTTP 404'' True ''http_404'' (Some 404))"

definition acquire_payload :: pydict where
  "acquire_payload = [(JStr ''tenant_request_id'', JStr (uuid_str 4))]"

definition waiting_db :: db where
  "waiting_db = empty_db\<lparr>acquisitions := [\<lparr>a_id = 4, a_tenant = 5, a_code = ''c'', a_request = None,
     a_status = AProcessing, a_attempt = 1, a_completed_at = None\<rparr>]\<rparr>"

lemma acquire_uuid: "payload_uuid no_repr acquire_payload ''tenant_request_id'' = Inr 4"
  by (simp add: payload_uuid_def payload_item_def acquire_payload_def dict_get_def parse_uuid_str)

lemma waiting_start: "transition_requests_for_acquisition 1 4 ''fetching'' no_fields waiting_db = (waiting_db, Inr 0)"
  by (simp add: transition_requests_for_acquisition_def transition_many_def prog_simps waiting_db_def empty_db_def)

theorem acquisition_task_outcomes_witness:
  "\<exists>d3. request_judit_process_task no_repr (Some ''url'') refusing_provider 1 2 acquire_payload waiting_db =
      (d3, Inl (PermanentTaskError ''process provider request failed'')) \<and>
    map a_status (acquisitions d3) = [AFailedRetryable]"
proof -
  have row: "row_by a_id 4 (acquisitions waiting_db) = Some (hd (acquisitions waiting_db))"
    by (simp add: waiting_db_def row_by_def)
  have dist: "distinct (map r_id (requests waiting_db))" by (simp add: waiting_db_def empty_db_def)
  have call: "refusing_provider (a_code (hd (acquisitions waiting_db))) waiting_db = (waiting_db,
      Inl (JuditRequestError ''Judit request failed with HTTP 404'' True ''http_404'' (Some 404)))"
    by (simp add: refusing_provider_def raise_def)
  show ?thesis
    using acquisition_task_outcomes [where provider = refusing_provider and u = "''url''" and later = 2,
        OF acquire_uuid refl _ row dist waiting_start call dist]
    by (auto simp: has_request_def waiting_db_def update_where_def unrequested_def)
qed

text \<open>An exception of the provider call other than its own error class (a missing API key, for
  instance) strands the acquisition: the row stays in processing with no provider request, and no
  later user request ever enqueues an attempt for it.\<close>

theorem unexpected_provider_error_strands:
  assumes "payload_uuid rp payload ''tenant_request_id'' = Inr aid" "url = Some u" "u \<noteq> []"
    and "acq_inv d" "distinct (map r_id (requests d))" "a \<in> set (acquisitions d)" "a_id a = aid"
    and "a_status a = AProcessing" "a_request a = None"
    and "\<And>s. provider (a_code a) s = (s, Inl e)" "\<not> is_judit_error e"
  shows "\<exists>d1. request_judit_process_task rp url provider now later payload d = (d1, Inl e) \<and>
    acquisitions d1 = acquisitions d \<and> jobs d1 = jobs d \<and>
    (\<forall>aid' jid now' pub d' rid created.
       request_process aid' jid now' (a_tenant a) (a_code a) pub d1 = (d', Inr (rid, created)) \<longrightarrow>
       \<not> created \<and> rid = [] \<and> jobs d' = jobs d1 \<and> acquisitions d' = acquisitions d1)"
proof -
  have ft: "status_of ''fetching'' = Some Fetching" using status_of_name [of Fetching] by simp
  from fetching_run [OF assms(5) ft, of now aid no_fields] obtain d1 n where
    start: "transition_requests_for_acquisition now aid ''fetching'' no_fields d = (d1, Inr n)"
    and same: "same_work d d1" by blast
  have "row_by a_id (a_id a) (acquisitions d) = Some a"
    using assms(4,6) by (intro row_by_in) (simp_all add: acq_inv_def)
  with assms(1-3,7,9-11) start have
    run: "request_judit_process_task rp url provider now later payload d = (d1, Inl e)"
    by (simp add: request_judit_process_task_def uuid_task_def has_request_def try_except_def prog_simps)
  have acqs: "acquisitions d1 = acquisitions d" "jobs d1 = jobs d" using same by (simp_all add: same_work_def)
  have "acq_inv d1" using acq_inv_frame [OF same] assms(4) by simp
  then have known: "acquisition_for (a_tenant a) (a_code a) d1 = Some a"
    using assms(6) acqs by (intro acquisition_for_in) simp_all
  have "\<not> retriable a" using assms(8) by (simp add: retriable_def)
  from request_process_known [OF known this] assms(9)
  have "\<not> created \<and> rid = [] \<and> jobs d' = jobs d1 \<and> acquisitions d' = acquisitions d1"
    if "request_process aid' jid now' (a_tenant a) (a_code a) pub d1 = (d', Inr (rid, created))"
    for aid' jid now' pub d' rid created
    using that by fastforce
  with run acqs show ?thesis by blast
qed

theorem unexpected_provider_error_strands_witness:
  "\<exists>d1. request_judit_process_task no_repr (Some ''url'') (\<lambda>_. raise (RuntimeError ''JUDIT_API_KEY is required'')) 1 2
      acquire_payload waiting_db = (d1, Inl (RuntimeError ''JUDIT_API_KEY is required'')) \<and>
    acquisitions d1 = acquisitions waiting_db"
proof -
  let ?a = "hd (acquisitions waiting_db)"
  have inv: "acq_inv waiting_db"
    by (simp add: acq_inv_def keys_reached_def waiting_db_def empty_db_def is_uuid_def)
  have dist: "distinct (map r_id (requests waiting_db))" by (simp add: waiting_db_def empty_db_def)
  have a: "?a \<in> set (acquisitions waiting_db)" "a_id ?a = 4" "a_status ?a = AProcessing" "a_request ?a = None"
    by (simp_all add: waiting_db_def)
  have call: "(\<lambda>_. raise (RuntimeError ''JUDIT_API_KEY is required'')) (a_code ?a) s =
      (s, Inl (RuntimeError ''JUDIT_API_KEY is required''))" for s :: db
    by (simp add: raise_def)
  show ?thesis
    using unexpected_provider_error_strands [where provider = "\<lambda>_. raise (RuntimeError ''JUDIT_API_KEY is required'')" and
        u = "''url''" and now = 1 and later = 2, OF acquire_uuid refl _ inv dist a call] by auto
qed

end
