(* ===== verification/Tracking.thy ===== *)
theory Tracking
  imports Acquisition
begin

text \<open>
  \<open>app/judit_tracking.py\<close> and \<open>app/tracking_scheduler.py\<close>: the recurring trackings a tenant keeps
  at the provider. Users ask for them and drop them, tasks carry the wishes out, the scheduler
  refreshes trackings that have gone quiet. The provider calls are programs, as in
  \<open>Acquisition\<close>.
\<close>

fun tracking_status_name :: "tracking_status \<Rightarrow> string" where
  "tracking_status_name Creating = ''creating''"
| "tracking_status_name Active = ''active''"
| "tracking_status_name Deleting = ''deleting''"
| "tracking_status_name Deleted = ''deleted''"
| "tracking_status_name TrackingFailed = ''failed''"

fun refresh_status_name :: "refresh_status \<Rightarrow> string" where
  "refresh_status_name RPending = ''pending''"
| "refresh_status_name RProcessing = ''processing''"
| "refresh_status_name RCompleted = ''completed''"
| "refresh_status_name RFailedRetryable = ''failed_retryable''"
| "refresh_status_name RFailedAmbiguous = ''failed_ambiguous''"

definition set_trackings :: "(tracking \<Rightarrow> bool) \<Rightarrow> (tracking \<Rightarrow> tracking) \<Rightarrow> (db, unit) prog" where
  "set_trackings p f = modify (\<lambda>d. d\<lparr>trackings := update_where p f (trackings d)\<rparr>)"

definition set_refreshes :: "(refresh \<Rightarrow> bool) \<Rightarrow> (refresh \<Rightarrow> refresh) \<Rightarrow> (db, unit) prog" where
  "set_refreshes p f = modify (\<lambda>d. d\<lparr>refreshes := update_where p f (refreshes d)\<rparr>)"

definition tracking_key :: "string \<Rightarrow> uuid \<Rightarrow> int \<Rightarrow> string" where
  "tracking_key kind tid attempt = ''judit-tracking-'' @ kind @ '':'' @ uuid_str tid @ '':'' @ show_int attempt"

definition enqueue_tracking ::
  "string \<Rightarrow> string \<Rightarrow> uuid \<Rightarrow> timestamp \<Rightarrow> uuid \<Rightarrow> int \<Rightarrow> (db, unit) prog" where
  "enqueue_tracking task kind jid now tid attempt =
     then_do (enqueue_job jid now task (JObj [(''tracking_id'', JStr (uuid_str tid))]) 1
                (tracking_key kind tid attempt)) (ret ())"

definition enqueue_create :: "uuid \<Rightarrow> timestamp \<Rightarrow> uuid \<Rightarrow> int \<Rightarrow> (db, unit) prog" where
  "enqueue_create = enqueue_tracking ''create_judit_tracking'' ''create''"

subsection \<open>User operations\<close>

definition new_tracking :: "uuid \<Rightarrow> timestamp \<Rightarrow> uuid \<Rightarrow> string \<Rightarrow> int \<Rightarrow> tracking" where
  "new_tracking tid now tenant code recurrence =
     \<lparr>t_id = tid, t_tenant = tenant, t_code = code, t_provider = None, t_status = Creating,
      t_recurrence = recurrence, t_attempt = 1, t_last_event = None, t_last_reconciled = None,
      t_created = now, t_updated = now\<rparr>"

definition restart_row :: "timestamp \<Rightarrow> int \<Rightarrow> int \<Rightarrow> tracking \<Rightarrow> tracking" where
  "restart_row now recurrence attempt t = t\<lparr>t_status := Creating, t_provider := None,
     t_recurrence := recurrence, t_attempt := attempt, t_last_event := None, t_updated := now\<rparr>"

text \<open>The ids the database generates: tracking, its job, acquisition, its job.\<close>

record fresh_ids =
  i_tracking :: uuid
  i_job :: uuid
  i_acquisition :: uuid
  i_acquisition_job :: uuid

text \<open>The transaction of \<open>create_tracking\<close>: the tracking that is already there, or the id of the
  one to create.\<close>

definition open_tracking ::
  "fresh_ids \<Rightarrow> timestamp \<Rightarrow> uuid \<Rightarrow> string \<Rightarrow> int \<Rightarrow> (db, tracking + uuid) prog" where
  "open_tracking ids now tenant code recurrence =
     transaction (bind (query (\<lambda>d. find (\<lambda>t. t_tenant t = tenant \<and> t_code t = code) (trackings d))) (\<lambda>existing.
       case existing of
         None \<Rightarrow>
           then_do (modify (\<lambda>d. d\<lparr>trackings := trackings d @ [new_tracking (i_tracking ids) now tenant code recurrence]\<rparr>))
           (then_do (enqueue_create (i_job ids) now (i_tracking ids) 1) (ret (Inr (i_tracking ids))))
       | Some t \<Rightarrow>
           (if t_status t \<in> {Creating, Active, Deleting} then ret (Inl t)
            else then_do (set_trackings (\<lambda>x. t_id x = t_id t) (restart_row now recurrence (t_attempt t + 1)))
              (then_do (enqueue_create (i_job ids) now (t_id t) (t_attempt t + 1)) (ret (Inr (t_id t)))))))"

definition create_tracking ::
  "fresh_ids \<Rightarrow> timestamp \<Rightarrow> uuid \<Rightarrow> string \<Rightarrow> int \<Rightarrow> (db, uuid \<times> string \<times> bool) prog" where
  "create_tracking ids now tenant code recurrence =
     (if recurrence \<le> 0 then raise (ValueError ''recurrence_days must be greater than zero'')
      else bind (open_tracking ids now tenant code recurrence) (\<lambda>opened.
        case opened of
          Inl t \<Rightarrow> ret (t_id t, tracking_status_name (t_status t), False)
        | Inr tid \<Rightarrow>
            then_do (request_process (i_acquisition ids) (i_acquisition_job ids) now tenant code None)
              (ret (tid, ''creating'', True))))"

definition list_trackings :: "uuid \<Rightarrow> db \<Rightarrow> tracking list" where
  "list_trackings tenant d =
     sort_key (\<lambda>t. (- t_created t, - int (t_id t)))
       (filter (\<lambda>t. t_tenant t = tenant \<and> t_status t \<noteq> Deleted) (trackings d))"

definition get_tracking :: "uuid \<Rightarrow> uuid \<Rightarrow> db \<Rightarrow> tracking option" where
  "get_tracking tenant tid d =
     find (\<lambda>t. t_tenant t = tenant \<and> t_id t = tid \<and> t_status t \<noteq> Deleted) (trackings d)"

definition delete_tracking :: "uuid \<Rightarrow> timestamp \<Rightarrow> uuid \<Rightarrow> uuid \<Rightarrow> (db, bool) prog" where
  "delete_tracking jid now tenant tid =
     transaction (bind (query (\<lambda>d. find (\<lambda>t. t_tenant t = tenant \<and> t_id t = tid) (trackings d))) (\<lambda>row.
       case row of
         None \<Rightarrow> ret False
       | Some t \<Rightarrow>
           (if t_status t = Deleted then ret False
            else if t_status t = Deleting then ret True
            else then_do (set_trackings (\<lambda>x. t_id x = tid)
                    (\<lambda>x. x\<lparr>t_status := Deleting, t_attempt := t_attempt t + 1, t_updated := now\<rparr>))
              (then_do (enqueue_tracking ''delete_judit_tracking'' ''delete'' jid now tid (t_attempt t + 1))
                (ret True)))))"

subsection \<open>Events of the provider\<close>

definition live_provider :: "string \<Rightarrow> tracking \<Rightarrow> bool" where
  "live_provider pid t \<longleftrightarrow> t_provider t = Some pid \<and> t_status t = Active"

definition tracking_tenant_for_provider_id :: "string \<Rightarrow> db \<Rightarrow> (uuid \<times> uuid \<times> string) option" where
  "tracking_tenant_for_provider_id pid d =
     map_option (\<lambda>t. (t_id t, t_tenant t, t_code t)) (find (live_provider pid) (trackings d))"

definition mark_tracking_event :: "timestamp \<Rightarrow> string \<Rightarrow> (db, (uuid \<times> uuid \<times> string) option) prog" where
  "mark_tracking_event now pid =
     bind (query (tracking_tenant_for_provider_id pid)) (\<lambda>row.
       then_do (set_trackings (live_provider pid) (\<lambda>t. t\<lparr>t_last_event := Some now, t_updated := now\<rparr>)) (ret row))"

definition open_refresh :: "refresh \<Rightarrow> bool" where
  "open_refresh f \<longleftrightarrow> f_status f = RPending \<or> f_status f = RProcessing"

definition complete_refresh_for_request :: "timestamp \<Rightarrow> string \<Rightarrow> (db, unit) prog" where
  "complete_refresh_for_request now request =
     set_refreshes (\<lambda>f. f_request f = Some request \<and> open_refresh f)
       (\<lambda>f. f\<lparr>f_status := RCompleted, f_completed_at := coalesce (f_completed_at f) (Some now)\<rparr>)"

definition grant_tracking_request_tenant :: "string \<Rightarrow> uuid \<Rightarrow> (db, unit) prog" where
  "grant_tracking_request_tenant request pid = modify (\<lambda>d.
     fold (\<lambda>t. grant (t_tenant t, pid))
       (concat (map (\<lambda>f. filter (\<lambda>t. t_id t = f_tracking f) (trackings d))
          (filter (\<lambda>f. f_request f = Some request) (refreshes d)))) d)"

subsection \<open>Reconciliation of quiet trackings\<close>

definition last_seen :: "tracking \<Rightarrow> timestamp" where
  "last_seen t = (case t_last_event t of None \<Rightarrow> t_created t | Some x \<Rightarrow> x)"

definition last_touched :: "tracking \<Rightarrow> timestamp" where
  "last_touched t = max (last_seen t) (case t_last_reconciled t of None \<Rightarrow> t_created t | Some x \<Rightarrow> x)"

definition due_trackings ::
  "(tracking \<Rightarrow> timestamp) \<Rightarrow> uuid set \<Rightarrow> timestamp \<Rightarrow> int \<Rightarrow> int \<Rightarrow> db \<Rightarrow> tracking list" where
  "due_trackings seen locked now stale_after limit d =
     take (nat limit) (sort_key (\<lambda>t. (seen t, t_id t))
       (filter (\<lambda>t. t_status t = Active \<and> seen t < now - stale_after \<and> t_id t \<notin> locked) (trackings d)))"

definition new_refresh :: "uuid \<Rightarrow> uuid \<Rightarrow> refresh" where
  "new_refresh fid tid = \<lparr>f_id = fid, f_tracking = tid, f_request = None, f_status = RPending,
     f_reason = ''stale_tracking'', f_completed_at = None\<rparr>"

definition refresh_key :: "uuid \<Rightarrow> string" where
  "refresh_key fid = ''judit-tracking-refresh:'' @ uuid_str fid"

text \<open>One row of the loop; \<open>touch\<close> is what the scheduler's variant does in addition. The number of
  refreshes created so far is passed along; \<open>fid\<close> and \<open>jid\<close> give the generated ids.\<close>

definition refresh_one ::
  "(uuid \<Rightarrow> uuid) \<Rightarrow> (uuid \<Rightarrow> uuid) \<Rightarrow> timestamp \<Rightarrow> bool \<Rightarrow> tracking \<Rightarrow> nat \<Rightarrow> (db, nat) prog" where
  "refresh_one fid jid now touch t created =
     bind (query (\<lambda>d. \<exists>f \<in> set (refreshes d). f_tracking f = t_id t \<and> open_refresh f)) (\<lambda>busy.
       if busy then ret created
       else
         then_do (modify (\<lambda>d. d\<lparr>refreshes := refreshes d @ [new_refresh (fid (t_id t)) (t_id t)]\<rparr>))
         (then_do (if touch then set_trackings (\<lambda>x. t_id x = t_id t)
                       (\<lambda>x. x\<lparr>t_last_reconciled := Some now, t_updated := now\<rparr>) else ret ())
         (then_do (enqueue_job (jid (t_id t)) now ''refresh_judit_tracking''
                     (JObj [(''refresh_id'', JStr (uuid_str (fid (t_id t))))]) 1 (refresh_key (fid (t_id t))))
         (ret (Suc created)))))"

fun refresh_all ::
  "(uuid \<Rightarrow> uuid) \<Rightarrow> (uuid \<Rightarrow> uuid) \<Rightarrow> timestamp \<Rightarrow> bool \<Rightarrow> tracking list \<Rightarrow> nat \<Rightarrow> (db, nat) prog" where
  "refresh_all fid jid now touch [] created = ret created"
| "refresh_all fid jid now touch (t # ts) created =
     bind (refresh_one fid jid now touch t created) (refresh_all fid jid now touch ts)"

definition enqueue_stale_tracking_reconciliations ::
  "(uuid \<Rightarrow> uuid) \<Rightarrow> (uuid \<Rightarrow> uuid) \<Rightarrow> uuid set \<Rightarrow> timestamp \<Rightarrow> int \<Rightarrow> int \<Rightarrow> (db, nat) prog" where
  "enqueue_stale_tracking_reconciliations fid jid locked now stale_after limit =
     (if stale_after \<le> 0 then raise (ValueError ''tracking stale_after must be greater than zero'')
      else if limit \<le> 0 then raise (ValueError ''tracking reconcile limit must be greater than zero'')
      else bind (query (due_trackings last_seen locked now stale_after limit))
        (\<lambda>rows. refresh_all fid jid now False rows 0))"

definition enqueue_due_tracking_reconciliations ::
  "(uuid \<Rightarrow> uuid) \<Rightarrow> (uuid \<Rightarrow> uuid) \<Rightarrow> uuid set \<Rightarrow> timestamp \<Rightarrow> int \<Rightarrow> int \<Rightarrow> (db, nat) prog" where
  "enqueue_due_tracking_reconciliations fid jid locked now stale_after limit =
     (if stale_after \<le> 0 then raise (ValueError ''tracking stale_after must be greater than zero'')
      else if limit \<le> 0 then raise (ValueError ''tracking reconcile limit must be greater than zero'')
      else bind (query (due_trackings last_touched locked now stale_after limit))
        (\<lambda>rows. refresh_all fid jid now True rows 0))"


subsection \<open>Tasks\<close>

definition has_provider :: "tracking \<Rightarrow> bool" where
  "has_provider t \<longleftrightarrow> (case t_provider t of None \<Rightarrow> False | Some s \<Rightarrow> s \<noteq> [])"

definition creating :: "uuid \<Rightarrow> tracking \<Rightarrow> bool" where
  "creating tid t \<longleftrightarrow> t_id t = tid \<and> t_status t = Creating"

text \<open>The two final statements of the creation; the provider id is unique.\<close>

definition tracking_failed :: "timestamp \<Rightarrow> uuid \<Rightarrow> (db, unit) prog" where
  "tracking_failed now tid = set_trackings (creating tid) (\<lambda>t. t\<lparr>t_status := TrackingFailed, t_updated := now\<rparr>)"

definition tracking_created :: "timestamp \<Rightarrow> uuid \<Rightarrow> string \<Rightarrow> (db, unit) prog" where
  "tracking_created now tid pid =
     bind (query (\<lambda>d. (\<exists>t \<in> set (trackings d). creating tid t) \<and>
                      (\<exists>t \<in> set (trackings d). t_provider t = Some pid \<and> t_id t \<noteq> tid))) (\<lambda>taken.
       if taken then raise (DatabaseError ''unique_violation'')
       else set_trackings (creating tid)
              (\<lambda>t. t\<lparr>t_provider := Some pid, t_status := Active, t_updated := now\<rparr>))"

definition create_judit_tracking_task ::
  "(json \<Rightarrow> string) \<Rightarrow> string option \<Rightarrow> (string \<Rightarrow> int \<Rightarrow> (db, string) prog) \<Rightarrow> timestamp \<Rightarrow> handler" where
  "create_judit_tracking_task rp database_url provider now =
     uuid_task rp database_url ''tracking_id'' ''invalid Judit tracking create payload'' (\<lambda>tid.
       bind (query (\<lambda>d. row_by t_id tid (trackings d))) (\<lambda>row.
       case row of
         None \<Rightarrow> raise (PermanentTaskError ''Judit tracking not found'')
       | Some t \<Rightarrow>
           (if has_provider t then
              ret (Some [(''status'', JStr (tracking_status_name (t_status t))),
                         (''tracking_id'', JStr (case t_provider t of None \<Rightarrow> [] | Some s \<Rightarrow> s))])
            else if t_status t \<noteq> Creating then
              ret (Some [(''status'', JStr (tracking_status_name (t_status t)))])
            else bind (try_except (provider (t_code t) (t_recurrence t)) is_judit_error
                  (\<lambda>e. then_do (tracking_failed now tid)
                       (raise (PermanentTaskError ''Judit tracking provider request failed''))))
              (\<lambda>pid. then_do (tracking_created now tid pid)
                 (ret (Some [(''status'', JStr ''active''), (''tracking_id'', JStr pid)]))))))"

definition delete_judit_tracking_task ::
  "(json \<Rightarrow> string) \<Rightarrow> string option \<Rightarrow> (string \<Rightarrow> (db, unit) prog) \<Rightarrow> timestamp \<Rightarrow> handler" where
  "delete_judit_tracking_task rp database_url provider now =
     uuid_task rp database_url ''tracking_id'' ''invalid Judit tracking delete payload'' (\<lambda>tid.
       bind (query (\<lambda>d. row_by t_id tid (trackings d))) (\<lambda>row.
       case row of
         None \<Rightarrow> raise (PermanentTaskError ''Judit tracking not found'')
       | Some t \<Rightarrow>
           let pid = strip (case t_provider t of None \<Rightarrow> [] | Some s \<Rightarrow> s) in
           then_do (if pid \<noteq> []
              then try_except (provider pid) is_judit_error
                     (\<lambda>e. raise (PermanentTaskError ''Judit tracking delete failed''))
              else ret ())
           (then_do (set_trackings (\<lambda>x. t_id x = tid)
                       (\<lambda>x. x\<lparr>t_status := Deleted, t_provider := None, t_updated := now\<rparr>))
           (ret (Some [(''status'', JStr ''deleted'')])))))"

definition unrequested_refresh :: "uuid \<Rightarrow> refresh \<Rightarrow> bool" where
  "unrequested_refresh fid f \<longleftrightarrow> f_id f = fid \<and> f_request f = None"

definition active_refresh :: "uuid \<Rightarrow> db \<Rightarrow> (refresh \<times> tracking) option" where
  "active_refresh fid d =
     (case find (\<lambda>f. f_id f = fid) (refreshes d) of
        None \<Rightarrow> None
      | Some f \<Rightarrow> map_option (\<lambda>t. (f, t))
          (find (\<lambda>t. t_id t = f_tracking f \<and> t_status t = Active) (trackings d)))"

fun refresh_failure :: "pyexc \<Rightarrow> refresh_status" where
  "refresh_failure (JuditRequestError _ retry_safe _ _) = (if retry_safe then RFailedRetryable else RFailedAmbiguous)"
| "refresh_failure _ = RFailedAmbiguous"

text \<open>The update meets two unique indexes: that of the request ids and that of the open refreshes.\<close>

definition refresh_conflict :: "uuid \<Rightarrow> string \<Rightarrow> db \<Rightarrow> bool" where
  "refresh_conflict fid request d \<longleftrightarrow> (\<exists>f \<in> set (refreshes d). unrequested_refresh fid f \<and>
     (\<exists>g \<in> set (refreshes d). f_request g = Some request \<or>
        (f_id g \<noteq> fid \<and> f_tracking g = f_tracking f \<and> open_refresh g)))"

definition refresh_requested :: "uuid \<Rightarrow> string \<Rightarrow> (db, unit) prog" where
  "refresh_requested fid request =
     bind (query (refresh_conflict fid request)) (\<lambda>taken.
       if taken then raise (DatabaseError ''unique_violation'')
       else set_refreshes (unrequested_refresh fid) (\<lambda>f. f\<lparr>f_request := Some request, f_status := RProcessing\<rparr>))"

definition refresh_judit_tracking_task ::
  "(json \<Rightarrow> string) \<Rightarrow> string option \<Rightarrow> (string \<Rightarrow> (db, string) prog) \<Rightarrow> handler" where
  "refresh_judit_tracking_task rp database_url provider =
     uuid_task rp database_url ''refresh_id'' ''invalid Judit tracking refresh payload'' (\<lambda>fid.
       bind (query (active_refresh fid)) (\<lambda>row.
       case row of
         None \<Rightarrow> raise (PermanentTaskError ''Judit tracking refresh not found'')
       | Some (f, t) \<Rightarrow>
           let known = (case f_request f of None \<Rightarrow> [] | Some s \<Rightarrow> s) in
           if known \<noteq> [] then
             ret (Some [(''status'', JStr (refresh_status_name (f_status f))), (''request_id'', JStr known)])
           else bind (try_except (provider (t_code t)) is_judit_error
                 (\<lambda>e. then_do (set_refreshes (unrequested_refresh fid) (\<lambda>x. x\<lparr>f_status := refresh_failure e\<rparr>))
                      (raise (PermanentTaskError ''Judit tracking refresh request failed''))))
             (\<lambda>request. then_do (refresh_requested fid request)
                (ret (Some [(''status'', JStr ''processing''), (''request_id'', JStr request)])))))"


subsection \<open>Steps and their invariant\<close>

definition tracking_inv :: "db \<Rightarrow> bool" where
  "tracking_inv d \<longleftrightarrow> distinct (map t_id (trackings d)) \<and>
     distinct (map (\<lambda>t. (t_tenant t, t_code t)) (trackings d)) \<and>
     (\<forall>t \<in> set (trackings d). 0 < t_recurrence t \<and> 1 \<le> t_attempt t \<and> (t_status t = Active \<longrightarrow> t_provider t \<noteq> None)) \<and>
     distinct (map f_id (refreshes d)) \<and>
     distinct (map f_tracking (filter open_refresh (refreshes d)))"

text \<open>
  One step is one transaction of an operation; the provider calls of the tasks lie between two
  steps. \<open>s_other\<close> is everything the rest of the service does.
\<close>

inductive tracking_step :: "db \<Rightarrow> db \<Rightarrow> bool" where
  s_open: "i_tracking ids \<notin> t_id ` set (trackings d) \<Longrightarrow> 0 < recurrence \<Longrightarrow>
     tracking_step d (fst (open_tracking ids now tenant code recurrence d))"
| s_delete: "tracking_step d (fst (delete_tracking jid now tenant tid d))"
| s_event: "tracking_step d (fst (mark_tracking_event now pid d))"
| s_complete: "tracking_step d (fst (complete_refresh_for_request now request d))"
| s_refresh: "fid (t_id t) \<notin> f_id ` set (refreshes d) \<Longrightarrow>
     tracking_step d (fst (refresh_one fid jids now touch t n d))"
| s_failed: "tracking_step d (fst (tracking_failed now tid d))"
| s_created: "tracking_step d (fst (tracking_created now tid pid d))"
| s_deleted: "tracking_step d (fst (set_trackings (\<lambda>x. t_id x = tid)
     (\<lambda>x. x\<lparr>t_status := Deleted, t_provider := None, t_updated := now\<rparr>) d))"
| s_refresh_failed: "tracking_step d (fst (set_refreshes (unrequested_refresh fid)
     (\<lambda>x. x\<lparr>f_status := refresh_failure e\<rparr>) d))"
| s_refresh_requested: "tracking_step d (fst (refresh_requested fid request d))"
| s_other: "trackings d' = trackings d \<Longrightarrow> refreshes d' = refreshes d \<Longrightarrow> tracking_step d d'"

lemma inv_frame: "trackings d' = trackings d \<Longrightarrow> refreshes d' = refreshes d \<Longrightarrow> tracking_inv d' = tracking_inv d"
  by (simp add: tracking_inv_def)

text \<open>An update of trackings that keeps their identity.\<close>

lemma tracking_inv_update:
  assumes inv: "tracking_inv d"
    and same: "\<And>t. t_id (f t) = t_id t \<and> t_tenant (f t) = t_tenant t \<and> t_code (f t) = t_code t"
    and ok: "\<And>t. t \<in> set (trackings d) \<Longrightarrow> p t \<Longrightarrow>
      0 < t_recurrence (f t) \<and> 1 \<le> t_attempt (f t) \<and> (t_status (f t) = Active \<longrightarrow> t_provider (f t) \<noteq> None)"
  shows "tracking_inv (d\<lparr>trackings := update_where p f (trackings d)\<rparr>)"
proof -
  have "map t_id (update_where p f ts) = map t_id ts"
    "map (\<lambda>t. (t_tenant t, t_code t)) (update_where p f ts) = map (\<lambda>t. (t_tenant t, t_code t)) ts" for ts
    using same by (induction ts) auto
  with inv ok show ?thesis by (auto simp: tracking_inv_def elim!: in_update_whereE)
qed

lemma distinct_filter_sub:
  assumes "distinct (map f (filter q xs))" "\<And>x. x \<in> set xs \<Longrightarrow> r x \<Longrightarrow> q x"
  shows "distinct (map f (filter r xs))"
proof -
  have "filter r xs = filter r (filter q xs)"
    using assms(2) by (auto intro!: filter_cong)
  then show ?thesis using distinct_keys_filter [OF assms(1)] by simp
qed

text \<open>An update of refreshes that opens none, or one whose tracking has no other open one.\<close>

lemma refresh_inv_update:
  assumes inv: "tracking_inv d"
    and same: "\<And>x. f_id (f x) = f_id x \<and> f_tracking (f x) = f_tracking x"
    and ok: "\<And>x. x \<in> set (refreshes d) \<Longrightarrow> p x \<Longrightarrow> open_refresh (f x) \<Longrightarrow> \<not> open_refresh x \<Longrightarrow>
      (\<forall>g \<in> set (refreshes d). f_id g \<noteq> f_id x \<and> f_tracking g = f_tracking x \<longrightarrow> \<not> open_refresh g) \<and>
      (\<forall>g. p g \<longrightarrow> f_id g = f_id x)"
  shows "tracking_inv (d\<lparr>refreshes := update_where p f (refreshes d)\<rparr>)"
proof -
  let ?h = "\<lambda>x. if p x then f x else x"
  have ids: "map f_id (update_where p f xs) = map f_id xs" for xs
    using same by (induction xs) auto
  have dist: "distinct (map f_id (refreshes d))" "distinct (map f_tracking (filter open_refresh (refreshes d)))"
    using inv by (simp_all add: tracking_inv_def)
  then have one: "x = y" if "x \<in> set (refreshes d)" "y \<in> set (refreshes d)" "open_refresh x" "open_refresh y"
    "f_tracking x = f_tracking y" for x y
    using that by (auto simp: distinct_map inj_on_def)
  have same_id: "x = y" if "x \<in> set (refreshes d)" "y \<in> set (refreshes d)" "f_id x = f_id y" for x y
    using that dist(1) by (auto simp: distinct_map inj_on_def)
  have new: "x = y" if xy: "x \<in> set (refreshes d)" "y \<in> set (refreshes d)" "open_refresh (?h x)" "open_refresh (?h y)"
    "f_tracking x = f_tracking y" for x y
  proof (cases "open_refresh x")
    case True
    show ?thesis
    proof (cases "open_refresh y")
      case False
      with xy have "p y" "open_refresh (f y)" by (auto split: if_splits)
      from ok [OF xy(2) this False] xy True have "f_id x = f_id y" by auto
      with same_id xy show ?thesis by blast
    qed (use True one xy in blast)
  next
    case False
    with xy have px: "p x" "open_refresh (f x)" by (auto split: if_splits)
    note okx = ok [OF xy(1) px False]
    show ?thesis
    proof (cases "open_refresh y")
      case True
      with okx xy have "f_id y = f_id x" by auto
      with same_id xy show ?thesis by metis
    next
      case False
      with xy have "p y" by (auto split: if_splits)
      with okx have "f_id y = f_id x" by blast
      with same_id xy show ?thesis by metis
    qed
  qed
  have "distinct (map f_tracking (filter open_refresh (update_where p f xs)))"
    if "set xs \<subseteq> set (refreshes d)" "distinct (map f_id xs)" for xs
    using that
  proof (induction xs)
    case (Cons x xs)
    have "f_tracking x \<notin> f_tracking ` set (filter open_refresh (update_where p f xs))" if o: "open_refresh (?h x)"
    proof
      assume "f_tracking x \<in> f_tracking ` set (filter open_refresh (update_where p f xs))"
      then obtain y where y: "y \<in> set xs" "open_refresh (?h y)" "f_tracking (?h y) = f_tracking x"
        by (auto simp: update_where_def)
      then have "f_tracking y = f_tracking x" using same by (simp split: if_splits)
      with new [of x y] Cons.prems o y have "x = y" by auto
      with Cons.prems y show False by auto
    qed
    with Cons same show ?case by auto
  qed simp
  from this [OF subset_refl dist(1)] inv show ?thesis
    by (simp add: tracking_inv_def ids)
qed


lemma transaction_keeps: "tracking_inv d \<Longrightarrow> tracking_inv (fst (m d)) \<Longrightarrow> tracking_inv (fst (transaction m d))"
proof -
  assume "tracking_inv d" "tracking_inv (fst (m d))"
  then show ?thesis unfolding transaction_def by (auto split: prod.split sum.split)
qed

lemma inv_keeps_frame:
  assumes "obeys (\<lambda>d d'. trackings d' = trackings d \<and> refreshes d' = refreshes d) m"
  shows "obeys (keeps tracking_inv) m"
proof (rule obeysI)
  fix d
  from obeysD [OF assms, of d] have "tracking_inv (fst (m d)) = tracking_inv d" by (intro inv_frame) auto
  then show "keeps tracking_inv d (fst (m d))" by (simp add: keeps_def)
qed

lemma inv_jobs: "obeys (keeps tracking_inv) (on_jobs f)"
  by (rule inv_keeps_frame) (simp add: obeys_def fst_on_jobs)

lemma inv_enqueue: "obeys (keeps tracking_inv) (enqueue_tracking task kind jid now tid n)"
  unfolding enqueue_tracking_def enqueue_job_def by (intro keeps.resp_rules inv_jobs)

lemma inv_set_trackings:
  assumes "\<And>t. t_id (f t) = t_id t \<and> t_tenant (f t) = t_tenant t \<and> t_code (f t) = t_code t"
    and "\<And>t. 0 < t_recurrence t \<Longrightarrow> 1 \<le> t_attempt t \<Longrightarrow> (t_status t = Active \<longrightarrow> t_provider t \<noteq> None) \<Longrightarrow>
      0 < t_recurrence (f t) \<and> 1 \<le> t_attempt (f t) \<and> (t_status (f t) = Active \<longrightarrow> t_provider (f t) \<noteq> None)"
  shows "obeys (keeps tracking_inv) (set_trackings p f)"
  unfolding set_trackings_def
proof (intro keeps.resp_modify, unfold keeps_def, rule impI)
  fix d assume inv: "tracking_inv d"
  then show "tracking_inv (d\<lparr>trackings := update_where p f (trackings d)\<rparr>)"
    by (rule tracking_inv_update [OF _ assms(1)]) (use inv assms(2) in \<open>auto simp: tracking_inv_def\<close>)
qed

lemma inv_open:
  assumes "tracking_inv d" "i_tracking ids \<notin> t_id ` set (trackings d)" "0 < recurrence"
  shows "tracking_inv (fst (open_tracking ids now tenant code recurrence d))"
proof (cases "find (\<lambda>t. t_tenant t = tenant \<and> t_code t = code) (trackings d)")
  case None
  let ?d = "d\<lparr>trackings := trackings d @ [new_tracking (i_tracking ids) now tenant code recurrence]\<rparr>"
  have "tracking_inv ?d"
    using assms None by (auto simp: tracking_inv_def new_tracking_def find_None_iff)
  moreover have "obeys (keeps tracking_inv)
      (then_do (enqueue_create (i_job ids) now (i_tracking ids) 1) (ret (Inr (i_tracking ids) :: tracking + uuid)))"
    unfolding enqueue_create_def by (intro keeps.resp_rules inv_enqueue)
  ultimately have "tracking_inv (fst (then_do (enqueue_create (i_job ids) now (i_tracking ids) 1)
      (ret (Inr (i_tracking ids) :: tracking + uuid)) ?d))"
    by (rule keeps_run [where I = tracking_inv, rotated])
  with None assms(1) show ?thesis
    unfolding open_tracking_def by (intro transaction_keeps) (simp_all add: run_simps(1,3))
next
  case (Some t)
  then have t: "t \<in> set (trackings d)" by (auto simp: find_Some_iff)
  let ?m = "then_do (set_trackings (\<lambda>x. t_id x = t_id t) (restart_row now recurrence (t_attempt t + 1)))
      (then_do (enqueue_create (i_job ids) now (t_id t) (t_attempt t + 1)) (ret (Inr (t_id t) :: tracking + uuid)))"
  have "1 \<le> t_attempt t" using assms(1) t by (simp add: tracking_inv_def)
  then have "obeys (keeps tracking_inv) ?m"
    unfolding enqueue_create_def using assms(3)
    by (intro keeps.resp_rules inv_enqueue inv_set_trackings) (auto simp: restart_row_def)
  then have "tracking_inv (fst (?m d))" using assms(1) by (rule keeps_run)
  with Some assms(1) show ?thesis
    unfolding open_tracking_def by (intro transaction_keeps) (simp_all add: run_simps(1) ret_def)
qed

lemma inv_delete:
  assumes "tracking_inv d"
  shows "tracking_inv (fst (delete_tracking jid now tenant tid d))"
proof (cases "find (\<lambda>t. t_tenant t = tenant \<and> t_id t = tid) (trackings d)")
  case None
  with assms show ?thesis by (simp add: delete_tracking_def transaction_def prog_simps)
next
  case (Some t)
  then have "t \<in> set (trackings d)" by (auto simp: find_Some_iff)
  with assms have "1 \<le> t_attempt t" by (simp add: tracking_inv_def)
  let ?m = "then_do (set_trackings (\<lambda>x. t_id x = tid)
        (\<lambda>x. x\<lparr>t_status := Deleting, t_attempt := t_attempt t + 1, t_updated := now\<rparr>))
      (then_do (enqueue_tracking ''delete_judit_tracking'' ''delete'' jid now tid (t_attempt t + 1)) (ret True))"
  have "obeys (keeps tracking_inv) ?m"
    using \<open>1 \<le> t_attempt t\<close> by (intro keeps.resp_rules inv_enqueue inv_set_trackings) auto
  then have "tracking_inv (fst (?m d))" using assms by (rule keeps_run)
  with Some assms show ?thesis
    unfolding delete_tracking_def by (intro transaction_keeps) (simp_all add: run_simps(1) ret_def)
qed

lemma inv_refresh_one:
  assumes "tracking_inv d" "fid (t_id t) \<notin> f_id ` set (refreshes d)"
  shows "tracking_inv (fst (refresh_one fid jids now touch t n d))"
proof (cases "\<exists>f \<in> set (refreshes d). f_tracking f = t_id t \<and> open_refresh f")
  case True
  with assms(1) show ?thesis by (simp add: refresh_one_def run_simps ret_def)
next
  case False
  let ?d = "d\<lparr>refreshes := refreshes d @ [new_refresh (fid (t_id t)) (t_id t)]\<rparr>"
  have "tracking_inv ?d"
    using assms False by (auto simp: tracking_inv_def new_refresh_def)
  moreover have "obeys (keeps tracking_inv) (then_do (if touch then set_trackings (\<lambda>x. t_id x = t_id t)
          (\<lambda>x. x\<lparr>t_last_reconciled := Some now, t_updated := now\<rparr>) else ret ())
      (then_do (enqueue_job (jids (t_id t)) now ''refresh_judit_tracking''
          (JObj [(''refresh_id'', JStr (uuid_str (fid (t_id t))))]) 1 (refresh_key (fid (t_id t)))) (ret (Suc n))))"
    unfolding enqueue_job_def by (intro keeps.resp_rules inv_jobs inv_set_trackings) auto
  ultimately have "tracking_inv (fst (then_do (if touch then set_trackings (\<lambda>x. t_id x = t_id t)
          (\<lambda>x. x\<lparr>t_last_reconciled := Some now, t_updated := now\<rparr>) else ret ())
      (then_do (enqueue_job (jids (t_id t)) now ''refresh_judit_tracking''
          (JObj [(''refresh_id'', JStr (uuid_str (fid (t_id t))))]) 1 (refresh_key (fid (t_id t)))) (ret (Suc n))) ?d))"
    by (rule keeps_run [where I = tracking_inv, rotated])
  then show ?thesis
    unfolding refresh_one_def run_simps(1) by (simp only: False if_False run_simps(3))
qed


lemma inv_refresh_rows:
  assumes "tracking_inv d" "\<And>x. f_id (f x) = f_id x \<and> f_tracking (f x) = f_tracking x"
    and "\<And>x. open_refresh (f x) \<Longrightarrow> open_refresh x"
  shows "tracking_inv (d\<lparr>refreshes := update_where p f (refreshes d)\<rparr>)"
  by (rule refresh_inv_update [OF assms(1,2)]) (use assms(3) in blast)

lemma inv_requested:
  assumes "tracking_inv d"
  shows "tracking_inv (fst (refresh_requested fid request d))"
proof (cases "refresh_conflict fid request d")
  case True
  with assms show ?thesis by (simp add: refresh_requested_def prog_simps)
next
  case False
  have "tracking_inv (d\<lparr>refreshes := update_where (unrequested_refresh fid)
      (\<lambda>f. f\<lparr>f_request := Some request, f_status := RProcessing\<rparr>) (refreshes d)\<rparr>)"
    by (rule refresh_inv_update [OF assms]) (use False in \<open>auto simp: refresh_conflict_def unrequested_refresh_def\<close>)
  with False show ?thesis by (simp add: refresh_requested_def set_refreshes_def prog_simps)
qed

lemma tracking_step_keeps: "tracking_step d d' \<Longrightarrow> tracking_inv d \<Longrightarrow> tracking_inv d'"
proof (induction rule: tracking_step.induct)
  case (s_open ids d recurrence now tenant code)
  then show ?case by (intro inv_open)
next
  case (s_event d now pid)
  have "obeys (keeps tracking_inv) (mark_tracking_event now pid)"
    unfolding mark_tracking_event_def by (intro keeps.resp_rules inv_set_trackings) auto
  from this s_event show ?case by (rule keeps_run)
next
  case (s_complete d now request)
  then show ?case
    unfolding complete_refresh_for_request_def set_refreshes_def modify_def fst_conv
    by (rule inv_refresh_rows) (auto simp: open_refresh_def)
next
  case (s_failed d now tid)
  have "obeys (keeps tracking_inv) (tracking_failed now tid)"
    unfolding tracking_failed_def by (intro inv_set_trackings) auto
  from this s_failed show ?case by (rule keeps_run)
next
  case (s_created d now tid pid)
  have "obeys (keeps tracking_inv) (tracking_created now tid pid)"
    unfolding tracking_created_def by (intro keeps.resp_rules inv_set_trackings) auto
  from this s_created show ?case by (rule keeps_run)
next
  case (s_deleted d tid now)
  have "obeys (keeps tracking_inv) (set_trackings (\<lambda>x. t_id x = tid)
     (\<lambda>x. x\<lparr>t_status := Deleted, t_provider := None, t_updated := now\<rparr>))"
    by (intro inv_set_trackings) auto
  from this s_deleted show ?case by (rule keeps_run)
next
  case (s_refresh_failed d fid e)
  have "\<not> open_refresh (x\<lparr>f_status := refresh_failure e\<rparr>)" for x
    by (cases e) (simp_all add: open_refresh_def)
  with s_refresh_failed show ?case
    unfolding set_refreshes_def modify_def fst_conv by (intro inv_refresh_rows) auto
next
  case (s_other d' d)
  then show ?case using inv_frame [of d' d] by simp
qed (simp_all add: inv_delete inv_refresh_one inv_requested)

lemma tracking_run_keeps: "tracking_step\<^sup>*\<^sup>* d d' \<Longrightarrow> tracking_inv d \<Longrightarrow> tracking_inv d'"
  by (induction rule: rtranclp_induct) (auto intro: tracking_step_keeps)

subsection \<open>The effect of a reconciliation\<close>

definition busy :: "db \<Rightarrow> tracking \<Rightarrow> bool" where
  "busy d t \<longleftrightarrow> (\<exists>f \<in> set (refreshes d). f_tracking f = t_id t \<and> open_refresh f)"

definition refresh_job :: "(uuid \<Rightarrow> uuid) \<Rightarrow> (uuid \<Rightarrow> uuid) \<Rightarrow> timestamp \<Rightarrow> tracking \<Rightarrow> job" where
  "refresh_job fid jid now t = new_job (jid (t_id t)) now ''refresh_judit_tracking''
     (JObj [(''refresh_id'', JStr (uuid_str (fid (t_id t))))]) 10 None 1 (Some (refresh_key (fid (t_id t))))"

text \<open>Generated ids are new: no row and no job key carries them yet.\<close>

definition fresh_for :: "(uuid \<Rightarrow> uuid) \<Rightarrow> uuid set \<Rightarrow> db \<Rightarrow> bool" where
  "fresh_for fid S d \<longleftrightarrow> inj_on fid S \<and> (\<forall>i \<in> S. fid i \<notin> f_id ` set (refreshes d) \<and> is_uuid (fid i) \<and>
     (\<forall>r \<in> set (jobs d). j_key r \<noteq> Some (refresh_key (fid i))))"

lemma refresh_key_inj: "is_uuid a \<Longrightarrow> is_uuid b \<Longrightarrow> refresh_key a = refresh_key b \<Longrightarrow> a = b"
  by (simp add: refresh_key_def uuid_str_inj)

lemma refresh_one_idle:
  assumes "\<not> busy d t" "fresh_for fid S d" "t_id t \<in> S"
  shows "\<exists>d'. refresh_one fid jid now touch t n d = (d', Inr (Suc n)) \<and>
    refreshes d' = refreshes d @ [new_refresh (fid (t_id t)) (t_id t)] \<and>
    jobs d' = jobs d @ [refresh_job fid jid now t]"
proof -
  let ?d = "d\<lparr>refreshes := refreshes d @ [new_refresh (fid (t_id t)) (t_id t)]\<rparr>"
  have free: "\<not> key_taken (Some (refresh_key (fid (t_id t)))) (jobs d)"
    using assms(2,3) by (auto simp: fresh_for_def key_taken_def)
  have enq: "enqueue_job (jid (t_id t)) now ''refresh_judit_tracking''
      (JObj [(''refresh_id'', JStr (uuid_str (fid (t_id t))))]) 1 (refresh_key (fid (t_id t))) x =
      (x\<lparr>jobs := jobs x @ [refresh_job fid jid now t]\<rparr>, Inr (Some (refresh_job fid jid now t)))"
    if "jobs x = jobs d" for x :: db
    using free that by (simp add: enqueue_job_def on_jobs_def enqueue_def enqueue_sql_def strict_json_dumps_def
        min_job_attempts_def max_job_attempts_def refresh_job_def Let_def)
  show ?thesis
    using assms(1) by (cases touch)
      (simp_all add: refresh_one_def busy_def run_simps set_trackings_def then_do_def [of "enqueue_job _ _ _ _ _ _"]
        bind_def [of "enqueue_job _ _ _ _ _ _"] enq ret_run)
qed

lemma refresh_all_effect:
  assumes "distinct (map t_id ts)" "fresh_for fid (t_id ` set ts) d"
  shows "\<exists>d'. refresh_all fid jid now touch ts n d = (d', Inr (n + length (filter (\<lambda>t. \<not> busy d t) ts))) \<and>
    refreshes d' = refreshes d @ map (\<lambda>t. new_refresh (fid (t_id t)) (t_id t)) (filter (\<lambda>t. \<not> busy d t) ts) \<and>
    jobs d' = jobs d @ map (refresh_job fid jid now) (filter (\<lambda>t. \<not> busy d t) ts)"
  using assms
proof (induction ts arbitrary: n d)
  case Nil
  then show ?case by (simp add: prog_simps)
next
  case (Cons t ts)
  have rest: "distinct (map t_id ts)" "fresh_for fid (t_id ` set ts) d"
    using Cons.prems by (auto simp: fresh_for_def)
  show ?case
  proof (cases "busy d t")
    case True
    then have "refresh_one fid jid now touch t n d = (d, Inr n)"
      by (simp add: refresh_one_def busy_def run_simps ret_def)
    with Cons.IH [OF rest, of n] True show ?thesis by (simp add: bind_def)
  next
    case False
    from refresh_one_idle [OF False Cons.prems(2), of jid now touch n] obtain d1 where
      one: "refresh_one fid jid now touch t n d = (d1, Inr (Suc n))"
      and r1: "refreshes d1 = refreshes d @ [new_refresh (fid (t_id t)) (t_id t)]"
      and j1: "jobs d1 = jobs d @ [refresh_job fid jid now t]" by auto
    have new: "fid i \<noteq> fid (t_id t) \<and> refresh_key (fid i) \<noteq> refresh_key (fid (t_id t))" if i: "i \<in> t_id ` set ts" for i
    proof -
      have "inj_on fid (t_id ` set (t # ts))" and u: "is_uuid (fid i)" "is_uuid (fid (t_id t))"
        using Cons.prems(2) i unfolding fresh_for_def by auto
      moreover have "t_id t \<notin> t_id ` set ts" using Cons.prems(1) by simp
      with i have "i \<noteq> t_id t" by blast
      ultimately have "fid i \<noteq> fid (t_id t)"
        using i unfolding inj_on_def by auto
      then show ?thesis using refresh_key_inj u by blast
    qed
    have "inj_on fid (t_id ` set ts)" using rest(2) unfolding fresh_for_def by blast
    moreover have "fid i \<notin> f_id ` set (refreshes d1) \<and> is_uuid (fid i) \<and>
        (\<forall>r \<in> set (jobs d1). j_key r \<noteq> Some (refresh_key (fid i)))" if i: "i \<in> t_id ` set ts" for i
    proof -
      have "fid i \<notin> f_id ` set (refreshes d) \<and> is_uuid (fid i) \<and>
          (\<forall>r \<in> set (jobs d). j_key r \<noteq> Some (refresh_key (fid i)))"
        using rest(2) i unfolding fresh_for_def by blast
      with new [OF i] show ?thesis by (simp add: r1 j1 new_refresh_def refresh_job_def new_job_def eq_commute)
    qed
    ultimately have "fresh_for fid (t_id ` set ts) d1" unfolding fresh_for_def by blast
    from Cons.IH [OF rest(1) this, of "Suc n"] obtain d' where
      all: "refresh_all fid jid now touch ts (Suc n) d1 =
          (d', Inr (Suc n + length (filter (\<lambda>t. \<not> busy d1 t) ts)))"
      "refreshes d' = refreshes d1 @ map (\<lambda>t. new_refresh (fid (t_id t)) (t_id t)) (filter (\<lambda>t. \<not> busy d1 t) ts)"
      "jobs d' = jobs d1 @ map (refresh_job fid jid now) (filter (\<lambda>t. \<not> busy d1 t) ts)" by blast
    have "filter (\<lambda>t. \<not> busy d1 t) ts = filter (\<lambda>t. \<not> busy d t) ts"
      using Cons.prems(1) by (intro filter_cong) (auto simp: busy_def r1 new_refresh_def)
    with one all r1 j1 False show ?thesis by (simp add: bind_def)
  qed
qed


subsection \<open>Properties\<close>

text \<open>C13: Whatever users, tasks, provider events and the scheduler interleave, with other work in
  between, a tenant has at most one tracking of a process, an active tracking has a provider
  identifier, and no tracking ever has two open refreshes.\<close>

theorem tracking_invariant:
  assumes "tracking_step\<^sup>*\<^sup>* empty_db d"
  shows "distinct (map (\<lambda>t. (t_tenant t, t_code t)) (trackings d)) \<and>
    list_all (\<lambda>t. t_status t \<noteq> Active \<or> t_provider t \<noteq> None) (trackings d) \<and>
    distinct (map f_tracking (filter open_refresh (refreshes d)))"
proof -
  have "tracking_inv empty_db" by (simp add: tracking_inv_def empty_db_def)
  from tracking_run_keeps [OF assms this] show ?thesis
    by (auto simp: tracking_inv_def list_all_iff)
qed

definition sample_ids :: fresh_ids where
  "sample_ids = \<lparr>i_tracking = 1, i_job = 2, i_acquisition = 3, i_acquisition_job = 4\<rparr>"

definition sample_tracking :: tracking where
  "sample_tracking = new_tracking 1 0 5 ''c'' 1"

lemma sample_open: "open_tracking sample_ids 0 5 ''c'' 1 empty_db =
    (empty_db\<lparr>trackings := [sample_tracking], jobs := [new_job 2 0 ''create_judit_tracking''
       (JObj [(''tracking_id'', JStr (uuid_str 1))]) 10 None 1 (Some (tracking_key ''create'' 1 1))]\<rparr>, Inr (Inr 1))"
  by (simp add: open_tracking_def transaction_def prog_simps empty_db_def sample_ids_def sample_tracking_def
      enqueue_create_def enqueue_tracking_def enqueue_job_def on_jobs_def enqueue_def enqueue_sql_def key_taken_def
      strict_json_dumps_def min_job_attempts_def max_job_attempts_def Let_def)

theorem tracking_invariant_witness:
  "distinct (map (\<lambda>t. (t_tenant t, t_code t)) (trackings (fst (open_tracking sample_ids 0 5 ''c'' 1 empty_db))))"
proof -
  have "tracking_step empty_db (fst (open_tracking sample_ids 0 5 ''c'' 1 empty_db))"
    by (rule s_open) (simp_all add: empty_db_def)
  then have "tracking_step\<^sup>*\<^sup>* empty_db (fst (open_tracking sample_ids 0 5 ''c'' 1 empty_db))" by (rule r_into_rtranclp)
  from tracking_invariant [OF this] show ?thesis by blast
qed

lemma take_sorted_le:
  assumes "sorted (map f xs)" "x \<in> set (take n xs)" "y \<in> set xs" "y \<notin> set (take n xs)"
  shows "f x \<le> f y"
proof -
  have "y \<in> set (drop n xs)" using assms(3,4) by (metis Un_iff append_take_drop_id set_append)
  moreover have "sorted (map f (take n xs) @ map f (drop n xs))"
    using assms(1) by (metis append_take_drop_id map_append)
  ultimately show ?thesis using assms(2) by (auto simp: sorted_append)
qed

text \<open>One round of the scheduler's reconciliation. It always returns the number of refreshes it
  opened, at most its limit. It looks at the active, quiet and unlocked trackings, the longest
  quiet first, and opens a pending refresh with its own job exactly for those of them that have
  none open.\<close>

theorem reconciliation_round:
  assumes "distinct (map t_id (trackings d))" "fresh_for fid (t_id ` set (trackings d)) d"
    and "0 < stale_after" "0 < limit"
  shows "\<exists>d' due. enqueue_due_tracking_reconciliations fid jid locked now stale_after limit d =
      (d', Inr (length (filter (\<lambda>t. \<not> busy d t) due))) \<and>
    int (length due) \<le> limit \<and>
    refreshes d' = refreshes d @ map (\<lambda>t. new_refresh (fid (t_id t)) (t_id t)) (filter (\<lambda>t. \<not> busy d t) due) \<and>
    jobs d' = jobs d @ map (refresh_job fid jid now) (filter (\<lambda>t. \<not> busy d t) due) \<and>
    set due \<subseteq> {t \<in> set (trackings d). t_status t = Active \<and> last_touched t < now - stale_after \<and> t_id t \<notin> locked} \<and>
    (\<forall>x \<in> set (trackings d). t_status x = Active \<and> last_touched x < now - stale_after \<and> t_id x \<notin> locked \<and>
       x \<notin> set due \<longrightarrow> int (length due) = limit \<and> (\<forall>t \<in> set due. last_touched t \<le> last_touched x))"
proof -
  let ?q = "filter (\<lambda>t. t_status t = Active \<and> last_touched t < now - stale_after \<and> t_id t \<notin> locked) (trackings d)"
  let ?s = "sort_key (\<lambda>t. (last_touched t, t_id t)) ?q"
  let ?due = "due_trackings last_touched locked now stale_after limit d"
  have due: "?due = take (nat limit) ?s" by (simp add: due_trackings_def)
  have sub: "set ?due \<subseteq> set ?q" unfolding due using set_take_subset [of "nat limit" ?s] by simp
  have "map t_id ?due = take (nat limit) (map t_id ?s)" by (simp add: due take_map)
  moreover have "distinct (map t_id ?s)"
  proof -
    have "distinct (map t_id ?q)" using assms(1) by (rule distinct_keys_filter)
    then show ?thesis by (simp add: distinct_map)
  qed
  ultimately have "distinct (map t_id ?due)" by simp
  moreover have "fresh_for fid (t_id ` set ?due) d"
    using assms(2) sub unfolding fresh_for_def by (auto intro: inj_on_subset)
  ultimately obtain d' where run:
    "refresh_all fid jid now True ?due 0 d = (d', Inr (length (filter (\<lambda>t. \<not> busy d t) ?due)))"
    "refreshes d' = refreshes d @ map (\<lambda>t. new_refresh (fid (t_id t)) (t_id t)) (filter (\<lambda>t. \<not> busy d t) ?due)"
    "jobs d' = jobs d @ map (refresh_job fid jid now) (filter (\<lambda>t. \<not> busy d t) ?due)"
    using refresh_all_effect [of ?due fid d jid now True 0] by auto
  have call: "enqueue_due_tracking_reconciliations fid jid locked now stale_after limit d =
      (d', Inr (length (filter (\<lambda>t. \<not> busy d t) ?due)))"
    using assms(3,4) run(1) by (simp add: enqueue_due_tracking_reconciliations_def run_simps)
  have bound: "int (length ?due) \<le> limit" using assms(4) by (simp add: due)
  have "int (length ?due) = limit \<and> (\<forall>t \<in> set ?due. last_touched t \<le> last_touched x)"
    if x: "x \<in> set ?q" "x \<notin> set ?due" for x
  proof
    have "x \<in> set ?s" using x(1) by simp
    with x(2) have "\<not> length ?s \<le> nat limit" unfolding due using take_all by force
    then show "int (length ?due) = limit" using assms(4) by (simp add: due)
    have "sorted (map (\<lambda>t. (last_touched t, t_id t)) ?s)" by (rule sorted_sort_key)
    from take_sorted_le [OF this, of _ "nat limit" x] \<open>x \<in> set ?s\<close> x(2)
    have "(last_touched t, t_id t) \<le> (last_touched x, t_id x)" if "t \<in> set ?due" for t
      using that unfolding due by blast
    then show "\<forall>t \<in> set ?due. last_touched t \<le> last_touched x" unfolding less_eq_prod_simp by fastforce
  qed
  then show ?thesis
    using call run(2,3) bound sub by (intro exI [of _ d'] exI [of _ ?due]) auto
qed

definition quiet_db :: db where
  "quiet_db = empty_db\<lparr>trackings := [sample_tracking\<lparr>t_status := Active, t_provider := Some ''trk''\<rparr>]\<rparr>"

theorem reconciliation_round_witness:
  "\<exists>d' due. enqueue_due_tracking_reconciliations (\<lambda>i. i + 10) (\<lambda>i. i + 20) {} 100 50 25 quiet_db =
      (d', Inr (length (filter (\<lambda>t. \<not> busy quiet_db t) due))) \<and> int (length due) \<le> 25"
proof -
  have dist: "distinct (map t_id (trackings quiet_db))" by (simp add: quiet_db_def)
  have fresh: "fresh_for (\<lambda>i. i + 10) (t_id ` set (trackings quiet_db)) quiet_db"
    by (simp add: fresh_for_def quiet_db_def empty_db_def sample_tracking_def new_tracking_def is_uuid_def)
  have "(0::int) < 50" "(0::int) < 25" by simp_all
  from reconciliation_round [OF dist fresh this, of "\<lambda>i. i + 20" "{}" 100] show ?thesis by blast
qed

text \<open>Dropping a tracking while it is being created leaks the provider's tracking. When the
  user's deletion commits during the provider call, the creation's final update matches no row,
  so the accepted provider identifier is stored nowhere and the task still reports it active; the
  deletion task then finds no identifier, never calls the provider, and marks the row deleted.\<close>

theorem deletion_during_creation_leaks:
  assumes "payload_uuid rp payload ''tracking_id'' = Inr tid" "url = Some u" "u \<noteq> []"
    and "distinct (map t_id (trackings d))" "t \<in> set (trackings d)" "t_id t = tid"
    and "t_status t = Creating" "t_provider t = None" "pid \<noteq> []"
    and "provider (t_code t) (t_recurrence t) d = (d1, Inr pid)"
    and "trackings d1 = update_where (\<lambda>x. t_id x = tid) (\<lambda>x. x\<lparr>t_status := Deleting\<rparr>) (trackings d)"
  shows "\<exists>d2. create_judit_tracking_task rp url provider now payload d =
      (d1, Inr (Some [(''status'', JStr ''active''), (''tracking_id'', JStr pid)])) \<and>
    (\<forall>remove. delete_judit_tracking_task rp url remove later payload d1 = (d2, Inr (Some [(''status'', JStr ''deleted'')]))) \<and>
    (\<forall>x \<in> set (trackings d2). t_id x = tid \<longrightarrow> t_status x = Deleted \<and> t_provider x = None)"
proof -
  have row: "row_by t_id tid (trackings d) = Some t" using assms(4-6) row_by_in [of t_id "trackings d" t] by simp
  have keyed: "row_by t_id k (update_where (\<lambda>x. t_id x = tid) (\<lambda>x. x\<lparr>t_status := Deleting\<rparr>) ts) =
      map_option (\<lambda>x. if t_id x = tid then x\<lparr>t_status := Deleting\<rparr> else x) (row_by t_id k ts)" for k ts
    by (induction ts) (simp_all add: row_by_def)
  have row1: "row_by t_id tid (trackings d1) = Some (t\<lparr>t_status := Deleting\<rparr>)"
    unfolding assms(11) keyed row by (simp add: assms(6))
  have gone: "\<not> creating tid x" if "x \<in> set (trackings d1)" for x
    using that unfolding assms(11) by (elim in_update_whereE) (simp_all add: creating_def)
  have noop: "update_where (creating tid) h (trackings d1) = trackings d1" for h
    by (rule update_where_none) (rule gone)
  have "tracking_created now tid pid d1 = (d1, Inr ())"
    using gone by (auto simp: tracking_created_def set_trackings_def run_simps noop modify_def)
  then have create: "create_judit_tracking_task rp url provider now payload d =
      (d1, Inr (Some [(''status'', JStr ''active''), (''tracking_id'', JStr pid)]))"
    using assms(1-3,7,8,10) row
    by (simp add: create_judit_tracking_task_def uuid_task_def has_provider_def try_except_def prog_simps)
  let ?d2 = "d1\<lparr>trackings := update_where (\<lambda>x. t_id x = tid)
     (\<lambda>x. x\<lparr>t_status := Deleted, t_provider := None, t_updated := later\<rparr>) (trackings d1)\<rparr>"
  have tracking_rows: "trackings ?d2 = update_where (\<lambda>x. t_id x = tid)
     (\<lambda>x. x\<lparr>t_status := Deleted, t_provider := None, t_updated := later\<rparr>) (trackings d1)" by simp
  have "delete_judit_tracking_task rp url remove later payload d1 = (?d2, Inr (Some [(''status'', JStr ''deleted'')]))" for remove
    using assms(1-3,8) row1
    by (simp add: delete_judit_tracking_task_def uuid_task_def set_trackings_def strip_def lstrip_by_def rstrip_by_def
        prog_simps)
  moreover have "t_id x = tid \<longrightarrow> t_status x = Deleted \<and> t_provider x = None" if "x \<in> set (trackings ?d2)" for x
    using that unfolding tracking_rows by (elim in_update_whereE) simp_all
  ultimately show ?thesis using create by blast
qed

definition racing_db :: db where
  "racing_db = empty_db\<lparr>trackings := [sample_tracking]\<rparr>"

definition slow_provider :: "string \<Rightarrow> int \<Rightarrow> (db, string) prog" where
  "slow_provider code recurrence = then_do (set_trackings (\<lambda>x. t_id x = 1) (\<lambda>x. x\<lparr>t_status := Deleting\<rparr>)) (ret ''trk'')"

definition tracking_payload :: pydict where
  "tracking_payload = [(JStr ''tracking_id'', JStr (uuid_str 1))]"

theorem deletion_during_creation_leaks_witness:
  "\<exists>d1. create_judit_tracking_task no_repr (Some ''url'') slow_provider 1 tracking_payload racing_db =
      (d1, Inr (Some [(''status'', JStr ''active''), (''tracking_id'', JStr ''trk'')]))"
proof -
  have uuid: "payload_uuid no_repr tracking_payload ''tracking_id'' = Inr 1"
    by (simp add: payload_uuid_def payload_item_def tracking_payload_def dict_get_def parse_uuid_str)
  have t: "distinct (map t_id (trackings racing_db))" "sample_tracking \<in> set (trackings racing_db)"
    "t_id sample_tracking = 1" "t_status sample_tracking = Creating" "t_provider sample_tracking = None"
    by (simp_all add: racing_db_def sample_tracking_def new_tracking_def)
  let ?d1 = "racing_db\<lparr>trackings := update_where (\<lambda>x. t_id x = 1) (\<lambda>x. x\<lparr>t_status := Deleting\<rparr>) (trackings racing_db)\<rparr>"
  have call: "slow_provider (t_code sample_tracking) (t_recurrence sample_tracking) racing_db = (?d1, Inr ''trk'')"
    by (simp add: slow_provider_def set_trackings_def prog_simps)
  show ?thesis
    using deletion_during_creation_leaks [where provider = slow_provider and u = "''url''" and now = 1,
        OF uuid refl _ t _ call] by auto
qed

end
