(* ===== verification/Attachments.thy ===== *)
theory Attachments
  imports Acquisition
begin

text \<open>
  \<open>app/attachments.py\<close>: the attachments of a process version, their processing state and the
  chunks of text extracted from them, which only the tenants of a public current version read.
  A text is a list of code points; \<open>sha\<close> is the SHA-256 digest in hexadecimal.
\<close>

subsection \<open>Validation\<close>

record chunk_input =
  ci_text :: "nat list"
  ci_page_start :: "int option"
  ci_page_end :: "int option"
  ci_char_start :: "int option"
  ci_char_end :: "int option"

fun attachment_status_of :: "string \<Rightarrow> attachment_status option" where
  "attachment_status_of s =
     (if s = ''pending'' then Some APending else if s = ''ready'' then Some AReady
      else if s = ''unavailable'' then Some AUnavailable else if s = ''corrupt'' then Some ACorrupt
      else if s = ''unreadable'' then Some AUnreadable else None)"

definition validate_status :: "string \<Rightarrow> attachment_status res" where
  "validate_status status = (case attachment_status_of (lower (strip status)) of
     None \<Rightarrow> Inl (ValueError ''invalid attachment status'') | Some st \<Rightarrow> Inr st)"

text \<open>The two pairs of bounds are checked alike, from their least value.\<close>

definition check_bounds :: "int \<Rightarrow> string \<Rightarrow> string \<Rightarrow> int option \<Rightarrow> int option \<Rightarrow> unit res" where
  "check_bounds least together invalid lo hi =
     (if (lo = None) \<noteq> (hi = None) then Inl (ValueError together)
      else case (lo, hi) of
        (Some a, Some b) \<Rightarrow> if a < least \<or> b < a then Inl (ValueError invalid) else Inr ()
      | _ \<Rightarrow> Inr ())"

definition validate_chunk :: "chunk_input \<Rightarrow> unit res" where
  "validate_chunk c =
     (if ci_text c = [] then Inl (ValueError ''attachment chunk text must not be empty'')
      else res_bind (check_bounds 1 ''attachment chunk page bounds must be provided together''
                       ''invalid attachment chunk page bounds'' (ci_page_start c) (ci_page_end c)) (\<lambda>_.
           check_bounds 0 ''attachment chunk character bounds must be provided together''
             ''invalid attachment chunk character bounds'' (ci_char_start c) (ci_char_end c)))"

fun validate_chunks :: "chunk_input list \<Rightarrow> unit res" where
  "validate_chunks [] = Inr ()"
| "validate_chunks (c # cs) = res_bind (validate_chunk c) (\<lambda>_. validate_chunks cs)"

subsection \<open>The manifest\<close>

text \<open>A date of a source document: a timestamp, or a value that is none.\<close>

datatype date_value = At timestamp | NotADate json

record manifest_input =
  mi_id :: json
  mi_name :: json
  mi_date :: "date_value option"
  mi_status :: json

definition nonempty :: "string \<Rightarrow> string option" where
  "nonempty s = (if s = [] then None else Some s)"

definition manifest_item ::
  "(json \<Rightarrow> string) \<Rightarrow> manifest_input \<Rightarrow> (string \<times> string option \<times> timestamp option \<times> string option) res" where
  "manifest_item rp item =
     (let sid = strip (py_str rp (py_or (mi_id item) (JStr []))) in
      if sid = [] then Inl (ValueError ''attachment manifest item missing attachment_id'')
      else case mi_date item of
        Some (NotADate _) \<Rightarrow> Inl (ValueError ''attachment manifest attachment_date must be datetime or null'')
      | date \<Rightarrow> Inr (sid,
          (if mi_name item = JNull then None else nonempty (strip (py_str rp (mi_name item)))),
          (case date of Some (At t) \<Rightarrow> Some t | _ \<Rightarrow> None),
          (if mi_status item = JNull then None else nonempty (lower (strip (py_str rp (mi_status item)))))))"

text \<open>The items in order, the first of every source id.\<close>

fun normalized_manifest ::
  "(json \<Rightarrow> string) \<Rightarrow> string list \<Rightarrow> manifest_input list \<Rightarrow>
     (string \<times> string option \<times> timestamp option \<times> string option) list res" where
  "normalized_manifest rp seen [] = Inr []"
| "normalized_manifest rp seen (i # is) =
     res_bind (manifest_item rp i) (\<lambda>m.
       if fst m \<in> set seen then normalized_manifest rp seen is
       else res_bind (normalized_manifest rp (fst m # seen) is) (\<lambda>ms. Inr (m # ms)))"

definition new_attachment :: "uuid \<Rightarrow> timestamp \<Rightarrow> uuid \<Rightarrow> uuid \<Rightarrow> string \<Rightarrow> attachment_row" where
  "new_attachment nid now pid vid sid =
     \<lparr>at_id = nid, at_process = pid, at_version = vid, at_source = sid, at_status = APending,
      at_content_type = None, at_byte_size = None, at_sha256 = None, at_error = None,
      at_name = None, at_date = None, at_provider_status = None, at_updated = now\<rparr>"

definition in_slot :: "uuid \<Rightarrow> string \<Rightarrow> attachment_row \<Rightarrow> bool" where
  "in_slot vid sid a \<longleftrightarrow> at_version a = vid \<and> at_source a = sid"

definition version_of_process :: "uuid \<Rightarrow> uuid \<Rightarrow> db \<Rightarrow> bool" where
  "version_of_process pid vid d \<longleftrightarrow> (\<exists>v \<in> set (versions d). v_id v = vid \<and> v_process v = pid)"

text \<open>
  \<open>INSERT ... ON CONFLICT (version_id, source_attachment_id) DO UPDATE ... WHERE process_id\<close>: a
  new row, the update of the row of the slot, or nothing when the slot is another process's. The
  trigger refuses a new row whose version is not of the process. \<open>nid\<close> gives the generated ids.
\<close>

definition upsert_attachment ::
  "(string \<Rightarrow> uuid) \<Rightarrow> timestamp \<Rightarrow> uuid \<Rightarrow> uuid \<Rightarrow> string \<Rightarrow> (attachment_row \<Rightarrow> attachment_row) \<Rightarrow>
     (db, uuid option) prog" where
  "upsert_attachment nid now pid vid sid f =
     bind (query (\<lambda>d. (find (in_slot vid sid) (attachments d), version_of_process pid vid d))) (\<lambda>(row, scope_ok).
       if \<not> scope_ok then raise (DatabaseError ''attachment version does not belong to process'')
       else case row of
         None \<Rightarrow> then_do (modify (\<lambda>d. d\<lparr>attachments := attachments d @ [f (new_attachment (nid sid) now pid vid sid)]\<rparr>))
                   (ret (Some (nid sid)))
       | Some a \<Rightarrow>
           if at_process a \<noteq> pid then ret None
           else then_do (modify (\<lambda>d. d\<lparr>attachments := update_where (in_slot vid sid)
                           (\<lambda>x. (f x)\<lparr>at_updated := now\<rparr>) (attachments d)\<rparr>))
                  (ret (Some (at_id a))))"

definition sync_item ::
  "(string \<Rightarrow> uuid) \<Rightarrow> timestamp \<Rightarrow> uuid \<Rightarrow> uuid \<Rightarrow> string \<times> string option \<times> timestamp option \<times> string option \<Rightarrow>
     (db, unit) prog" where
  "sync_item nid now pid vid = (\<lambda>(sid, name, date, status).
     then_do (upsert_attachment nid now pid vid sid
       (\<lambda>a. a\<lparr>at_name := name, at_date := date, at_provider_status := status\<rparr>)) (ret ()))"

text \<open>\<open>executemany\<close> is atomic.\<close>

definition sync_attachment_manifest ::
  "(json \<Rightarrow> string) \<Rightarrow> (string \<Rightarrow> uuid) \<Rightarrow> timestamp \<Rightarrow> uuid \<Rightarrow> uuid \<Rightarrow> manifest_input list \<Rightarrow> (db, nat) prog" where
  "sync_attachment_manifest rp nid now pid vid items =
     (case normalized_manifest rp [] items of
        Inl e \<Rightarrow> raise e
      | Inr ms \<Rightarrow> then_do (transaction (for_each (sync_item nid now pid vid) ms)) (ret (length ms)))"

subsection \<open>Processing state\<close>

definition hex_digit :: "char \<Rightarrow> bool" where
  "hex_digit c \<longleftrightarrow> c \<in> set ''0123456789abcdef''"

definition trimmed :: "string option \<Rightarrow> string option" where
  "trimmed v = (case v of None \<Rightarrow> None | Some s \<Rightarrow> nonempty (strip s))"

definition upsert_attachment_state ::
  "(string \<Rightarrow> uuid) \<Rightarrow> timestamp \<Rightarrow> uuid \<Rightarrow> uuid \<Rightarrow> string \<Rightarrow> string \<Rightarrow> string option \<Rightarrow> int option \<Rightarrow>
     string option \<Rightarrow> string option \<Rightarrow> (db, uuid) prog" where
  "upsert_attachment_state nid now pid vid source status ctype nbytes sha256 error =
     (let sid = strip source in
      if sid = [] then raise (ValueError ''source_attachment_id is required'')
      else case validate_status status of
        Inl e \<Rightarrow> raise e
      | Inr st \<Rightarrow>
          if (case nbytes of None \<Rightarrow> False | Some n \<Rightarrow> n < 0) then raise (ValueError ''byte_size must be non-negative'')
          else
            (let digest = map_option (\<lambda>s. lower (strip s)) sha256 in
             if (case digest of None \<Rightarrow> False | Some h \<Rightarrow> length h \<noteq> 64 \<or> \<not> list_all hex_digit h)
             then raise (ValueError ''content_sha256 must be a lowercase SHA-256 hex digest'')
             else bind (upsert_attachment nid now pid vid sid (\<lambda>a. a\<lparr>at_status := st,
                      at_content_type := trimmed ctype, at_byte_size := nbytes, at_sha256 := digest,
                      at_error := trimmed error\<rparr>)) (\<lambda>row.
               case row of
                 None \<Rightarrow> raise (ValueError ''attachment source id already belongs to another process scope'')
               | Some u \<Rightarrow> ret u)))"

subsection \<open>Chunks\<close>

definition new_chunk ::
  "(nat list \<Rightarrow> string) \<Rightarrow> (nat \<Rightarrow> uuid) \<Rightarrow> uuid \<Rightarrow> uuid \<Rightarrow> uuid \<Rightarrow> nat \<times> chunk_input \<Rightarrow> chunk_row" where
  "new_chunk sha cid aid pid vid = (\<lambda>(i, c).
     \<lparr>ch_id = cid i, ch_attachment = aid, ch_process = pid, ch_version = vid, ch_index = i,
      ch_text = ci_text c, ch_page_start = ci_page_start c, ch_page_end = ci_page_end c,
      ch_char_start = ci_char_start c, ch_char_end = ci_char_end c, ch_sha256 = sha (ci_text c)\<rparr>)"

text \<open>Deleting chunks deletes what cites them (\<open>ON DELETE CASCADE\<close>).\<close>

definition delete_chunks :: "uuid \<Rightarrow> db \<Rightarrow> db" where
  "delete_chunks aid d =
     (let gone = ch_id ` set (filter (\<lambda>c. ch_attachment c = aid) (chunks d)) in
      d\<lparr>chunks := filter (\<lambda>c. ch_attachment c \<noteq> aid) (chunks d),
        used_chunks := filter (\<lambda>u. u_source u \<notin> gone) (used_chunks d),
        claim_sources := filter (\<lambda>s. case cs_chunk s of None \<Rightarrow> True | Some c \<Rightarrow> c \<notin> gone) (claim_sources d)\<rparr>)"

definition ready_row :: "timestamp \<Rightarrow> attachment_row \<Rightarrow> attachment_row" where
  "ready_row now x = x\<lparr>at_status := AReady, at_error := None, at_updated := now\<rparr>"

definition replace_attachment_chunks ::
  "(nat list \<Rightarrow> string) \<Rightarrow> (nat \<Rightarrow> uuid) \<Rightarrow> timestamp \<Rightarrow> uuid \<Rightarrow> uuid \<Rightarrow> uuid \<Rightarrow> chunk_input list \<Rightarrow> (db, nat) prog" where
  "replace_attachment_chunks sha cid now aid pid vid cs =
     (case validate_chunks cs of
        Inl e \<Rightarrow> raise e
      | Inr _ \<Rightarrow>
          then_do (transaction
            (bind (query (\<lambda>d. find (\<lambda>a. at_id a = aid \<and> at_process a = pid \<and> at_version a = vid) (attachments d))) (\<lambda>row.
             case row of
               None \<Rightarrow> raise (LookupError ''attachment does not exist in process/version scope'')
             | Some a \<Rightarrow>
                 then_do (modify (delete_chunks aid))
                 (then_do (modify (\<lambda>d. d\<lparr>chunks := chunks d @ map (new_chunk sha cid aid pid vid) (enumerate 0 cs)\<rparr>))
                 (modify (\<lambda>d. d\<lparr>attachments := update_where (\<lambda>x. at_id x = aid) (ready_row now) (attachments d)\<rparr>))))))
          (ret (length cs)))"

subsection \<open>Authorized reading\<close>

definition readable_process :: "uuid \<Rightarrow> uuid \<Rightarrow> uuid \<Rightarrow> db \<Rightarrow> bool" where
  "readable_process tenant pid vid d \<longleftrightarrow> (tenant, pid) \<in> set (tenant_processes d) \<and>
     (\<exists>p \<in> set (processes d). p_id p = pid \<and> p_current p = Some vid \<and> p_secrecy p = 0)"

text \<open>The join, in the order of the source ids and of the chunks; a source id is unique in its
  version. \<open>collate\<close> is the position of a text in the database's collation.\<close>

definition authorized_rows :: "uuid \<Rightarrow> uuid \<Rightarrow> uuid \<Rightarrow> db \<Rightarrow> (attachment_row \<times> chunk_row) list" where
  "authorized_rows tenant pid vid d =
     (if readable_process tenant pid vid d then
        concat (map (\<lambda>a. map (Pair a)
            (filter (\<lambda>c. ch_attachment c = at_id a \<and> ch_process c = pid \<and> ch_version c = vid) (chunks d)))
          (filter (\<lambda>a. at_process a = pid \<and> at_version a = vid \<and> at_status a = AReady) (attachments d)))
      else [])"

definition load_authorized_attachment_chunks ::
  "(string \<Rightarrow> rat) \<Rightarrow> uuid \<Rightarrow> uuid \<Rightarrow> uuid \<Rightarrow> db \<Rightarrow> (attachment_row \<times> chunk_row) list" where
  "load_authorized_attachment_chunks collate tenant pid vid d =
     sort_key (\<lambda>(a, c). (collate (at_source a), ch_index c)) (authorized_rows tenant pid vid d)"

text \<open>The text search of the database is the parameter \<open>match\<close>: whether a document answers the
  query, and its rank.\<close>

definition search_authorized_attachment_chunks ::
  "(string \<Rightarrow> rat) \<Rightarrow> (string \<Rightarrow> nat list \<Rightarrow> rat option) \<Rightarrow> uuid \<Rightarrow> uuid \<Rightarrow> uuid \<Rightarrow> string \<Rightarrow> int \<Rightarrow> db \<Rightarrow>
     (attachment_row \<times> chunk_row) list res" where
  "search_authorized_attachment_chunks collate match tenant pid vid question limit d =
     (if limit \<le> 0 then Inl (ValueError ''attachment retrieval limit must be greater than zero'')
      else let q = strip question in
        if q = [] then Inr []
        else Inr (take (nat limit) (sort_key
          (\<lambda>(a, c). (- (case match q (ch_text c) of None \<Rightarrow> 0 | Some r \<Rightarrow> r),
             collate (at_source a), ch_index c))
          (filter (\<lambda>(a, c). match q (ch_text c) \<noteq> None) (authorized_rows tenant pid vid d)))))"

definition attachment_status_counts :: "uuid \<Rightarrow> uuid \<Rightarrow> db \<Rightarrow> (attachment_status \<times> nat) list" where
  "attachment_status_counts pid vid d =
     (let rows = filter (\<lambda>a. at_process a = pid \<and> at_version a = vid) (attachments d) in
      map (\<lambda>st. (st, length (filter (\<lambda>a. at_status a = st) rows))) (remdups (map at_status rows)))"


subsection \<open>Reading back\<close>

lemma sort_key_ordered: "sorted (map f xs) \<Longrightarrow> sort_key f xs = xs"
  by (rule sort_key_id_if_sorted)

lemma filter_one:
  assumes "distinct (map at_id rows)" "a \<in> set rows" "at_id a = aid"
  shows "filter (\<lambda>x. at_id x = aid) rows = [a]"
  using assms
proof (induction rows)
  case (Cons x rows)
  have none: "filter (\<lambda>y. at_id y = aid) ys = []" if "aid \<notin> at_id ` set ys" for ys
    using that by (induction ys) auto
  show ?case
  proof (cases "x = a")
    case True
    with Cons.prems have "aid \<notin> at_id ` set rows" by auto
    with True Cons.prems(3) none show ?thesis by simp
  next
    case False
    with Cons.prems have "at_id x \<noteq> aid" "a \<in> set rows" "distinct (map at_id rows)" by auto
    with Cons.IH Cons.prems(3) show ?thesis by simp
  qed
qed simp

lemma filter_rows:
  "filter (\<lambda>(a, c). at_id a = aid) (concat (map (\<lambda>a. map (Pair a) (g a)) rows)) =
     concat (map (\<lambda>a. map (Pair a) (g a)) (filter (\<lambda>a. at_id a = aid) rows))"
proof (induction rows)
  case (Cons a rows)
  have "filter (\<lambda>(a, c). at_id a = aid) (map (Pair a) cs) = (if at_id a = aid then map (Pair a) cs else [])" for cs
    by (induction cs) auto
  with Cons show ?case by simp
qed simp

lemma new_chunk_fields [simp]:
  "ch_attachment (new_chunk sha cid aid pid vid ic) = aid" "ch_process (new_chunk sha cid aid pid vid ic) = pid"
  "ch_version (new_chunk sha cid aid pid vid ic) = vid" "ch_index (new_chunk sha cid aid pid vid ic) = fst ic"
  "ch_text (new_chunk sha cid aid pid vid ic) = ci_text (snd ic)"
  by (cases ic; simp add: new_chunk_def)+

lemma replace_run:
  assumes "validate_chunks cs = Inr ()"
    and "find (\<lambda>a. at_id a = aid \<and> at_process a = pid \<and> at_version a = vid) (attachments d) = Some a"
  shows "\<exists>d'. replace_attachment_chunks sha cid now aid pid vid cs d = (d', Inr (length cs)) \<and>
    chunks d' = filter (\<lambda>c. ch_attachment c \<noteq> aid) (chunks d) @ map (new_chunk sha cid aid pid vid) (enumerate 0 cs) \<and>
    attachments d' = update_where (\<lambda>x. at_id x = aid) (ready_row now) (attachments d) \<and>
    processes d' = processes d \<and> tenant_processes d' = tenant_processes d"
  using assms by (simp add: replace_attachment_chunks_def transaction_def prog_simps delete_chunks_def Let_def)

lemma sorted_pair: "sorted (map ch_index cs) \<Longrightarrow>
    sorted (map (\<lambda>(x, c). (k x, ch_index c)) (map (Pair r) cs))"
  by (induction cs) auto

lemma map_index_new: "map ch_index (map (new_chunk sha cid aid pid vid) (enumerate m cs)) = [m..<m + length cs]"
proof -
  have "map ch_index (map (new_chunk sha cid aid pid vid) ics) = map fst ics" for ics by simp
  then show ?thesis by (simp only: map_fst_enumerate)
qed

lemma unique_key: "distinct (map f xs) \<Longrightarrow> x \<in> set xs \<Longrightarrow> y \<in> set xs \<Longrightarrow> f x = f y \<Longrightarrow> x = y"
  by (auto simp: distinct_map inj_on_def)

lemma read_back:
  assumes "distinct (map at_id (attachments d))" "validate_chunks cs = Inr ()"
    and a: "a \<in> set (attachments d)" "at_id a = aid" "at_process a = pid" "at_version a = vid"
    and run: "replace_attachment_chunks sha cid now aid pid vid cs d = (d', Inr n)"
  shows "filter (\<lambda>(x, c). at_id x = aid) (load_authorized_attachment_chunks collate tenant pid vid d') =
    (if readable_process tenant pid vid d
     then map (Pair (ready_row now a)) (map (new_chunk sha cid aid pid vid) (enumerate 0 cs)) else [])"
proof -
  have same: "x = a" if "x \<in> set (attachments d)" "at_id x = aid" for x
    using unique_key [OF assms(1) that(1) a(1)] that(2) a(2) by simp
  have "find (\<lambda>a. at_id a = aid \<and> at_process a = pid \<and> at_version a = vid) (attachments d) = Some a"
    by (rule find_unique [OF a(1)]) (use a same in blast)+
  from replace_run [OF assms(2) this, of sha cid now] run
  have c': "chunks d' = filter (\<lambda>c. ch_attachment c \<noteq> aid) (chunks d) @
         map (new_chunk sha cid aid pid vid) (enumerate 0 cs)"
    and a': "attachments d' = update_where (\<lambda>x. at_id x = aid) (ready_row now) (attachments d)"
    and p': "processes d' = processes d" "tenant_processes d' = tenant_processes d" by auto
  let ?rows = "attachments d'" and ?new = "map (new_chunk sha cid aid pid vid) (enumerate 0 cs)"
  let ?ok = "\<lambda>x. at_process x = pid \<and> at_version x = vid \<and> at_status x = AReady"
  let ?g = "\<lambda>x. filter (\<lambda>c. ch_attachment c = at_id x \<and> ch_process c = pid \<and> ch_version c = vid) (chunks d')"
  have "map at_id ?rows = map at_id (attachments d)" by (auto simp: a' update_where_def ready_row_def)
  then have "distinct (map at_id ?rows)" using assms(1) by simp
  moreover have "ready_row now a \<in> set ?rows" using a by (auto simp: a' set_update_where)
  ultimately have "filter (\<lambda>x. at_id x = aid) ?rows = [ready_row now a]"
    using a(2) by (intro filter_one) (simp_all add: ready_row_def)
  then have "filter ?ok (filter (\<lambda>x. at_id x = aid) ?rows) = [ready_row now a]"
    using a by (simp add: ready_row_def)
  then have one: "filter (\<lambda>x. at_id x = aid) (filter ?ok ?rows) = [ready_row now a]"
    by (simp only: filter_filter conj_commute)
  have "filter (\<lambda>c. ch_attachment c = aid \<and> ch_process c = pid \<and> ch_version c = vid)
      (filter (\<lambda>c. ch_attachment c \<noteq> aid) (chunks d)) = []"
    by (simp add: filter_empty_conv)
  moreover have "filter (\<lambda>c. ch_attachment c = aid \<and> ch_process c = pid \<and> ch_version c = vid) ?new = ?new"
    by (simp add: filter_id_conv)
  ultimately have new: "?g (ready_row now a) = ?new"
    using a(2) unfolding c' filter_append by (simp add: ready_row_def)
  have "readable_process tenant pid vid d' = readable_process tenant pid vid d"
    by (simp add: p' readable_process_def)
  then have rows: "filter (\<lambda>(x, c). at_id x = aid) (authorized_rows tenant pid vid d') =
      (if readable_process tenant pid vid d then map (Pair (ready_row now a)) ?new else [])"
    unfolding authorized_rows_def by (simp only: if_distrib [of "filter _"] filter_rows one) (simp add: new)
  have "sorted (map (\<lambda>(x, c). (collate (at_source x), ch_index c)) (map (Pair (ready_row now a)) ?new))"
    by (rule sorted_pair) (simp add: map_index_new del: map_map)
  then show ?thesis
    unfolding load_authorized_attachment_chunks_def filter_sort rows by (simp add: sort_key_ordered)
qed


subsection \<open>The manifest leaves the processing alone\<close>

definition processing :: "attachment_row \<Rightarrow> uuid \<times> uuid \<times> uuid \<times> string \<times> attachment_status \<times> string option \<times>
    int option \<times> string option \<times> string option" where
  "processing a = (at_id a, at_process a, at_version a, at_source a, at_status a, at_content_type a, at_byte_size a,
     at_sha256 a, at_error a)"

definition slots_unique :: "db \<Rightarrow> bool" where
  "slots_unique d \<longleftrightarrow> distinct (map (\<lambda>a. (at_version a, at_source a)) (attachments d))"

text \<open>What one item does to the table: every row keeps its processing, a row is only added.\<close>

definition manifest_grows :: "uuid \<Rightarrow> uuid \<Rightarrow> db \<Rightarrow> db \<Rightarrow> bool" where
  "manifest_grows pid vid d d' \<longleftrightarrow>
     (\<exists>new. map processing (attachments d') = map processing (attachments d) @ map processing new \<and>
        (\<forall>a \<in> set new. at_process a = pid \<and> at_version a = vid \<and> at_status a = APending)) \<and>
     (slots_unique d \<longrightarrow> slots_unique d') \<and> versions d' = versions d"

lemma processing_map_id:
  "map processing (attachments d') = map processing (attachments d) @ map processing new \<Longrightarrow>
   map (\<lambda>a. (at_version a, at_source a)) (attachments d') =
     map (\<lambda>a. (at_version a, at_source a)) (attachments d) @ map (\<lambda>a. (at_version a, at_source a)) new"
proof -
  assume "map processing (attachments d') = map processing (attachments d) @ map processing new"
  then have "map (\<lambda>(i, p, v, s, r). (v, s)) (map processing (attachments d')) =
      map (\<lambda>(i, p, v, s, r). (v, s)) (map processing (attachments d) @ map processing new)" by simp
  then show ?thesis by (simp add: processing_def o_def)
qed

interpretation manifest_grows: step_order "manifest_grows pid vid" for pid vid
proof
  show "manifest_grows pid vid s s" for s
    unfolding manifest_grows_def by (intro conjI exI [of _ "[]"]) simp_all
  show "manifest_grows pid vid s u" if st: "manifest_grows pid vid s t" and tu: "manifest_grows pid vid t u" for s t u
  proof -
    from st obtain n1 where n1: "map processing (attachments t) = map processing (attachments s) @ map processing n1"
      "\<forall>a \<in> set n1. at_process a = pid \<and> at_version a = vid \<and> at_status a = APending"
      unfolding manifest_grows_def by blast
    from tu obtain n2 where n2: "map processing (attachments u) = map processing (attachments t) @ map processing n2"
      "\<forall>a \<in> set n2. at_process a = pid \<and> at_version a = vid \<and> at_status a = APending"
      unfolding manifest_grows_def by blast
    have "map processing (attachments u) = map processing (attachments s) @ map processing (n1 @ n2)"
      using n1(1) n2(1) by simp
    moreover have "\<forall>a \<in> set (n1 @ n2). at_process a = pid \<and> at_version a = vid \<and> at_status a = APending"
      using n1(2) n2(2) by auto
    moreover have "slots_unique s \<longrightarrow> slots_unique u" "versions u = versions s"
      using st tu unfolding manifest_grows_def by auto
    ultimately show ?thesis unfolding manifest_grows_def by blast
  qed
qed

lemma sync_item_grows: "obeys (manifest_grows pid vid) (sync_item nid now pid vid m)"
proof (rule obeysI)
  fix d :: db
  obtain sid name date status where m: "m = (sid, name, date, status)" by (cases m)
  let ?f = "\<lambda>a. a\<lparr>at_name := name, at_date := date, at_provider_status := status\<rparr>"
  have same: "processing (?f a) = processing a" "processing (a\<lparr>at_updated := t\<rparr>) = processing a" for a t
    by (simp_all add: processing_def)
  consider "\<not> version_of_process pid vid d" | "version_of_process pid vid d" "find (in_slot vid sid) (attachments d) = None"
    | a where "version_of_process pid vid d" "find (in_slot vid sid) (attachments d) = Some a" by fastforce
  then show "manifest_grows pid vid d (fst (sync_item nid now pid vid m d))"
  proof cases
    case 1
    then show ?thesis
      by (simp add: m sync_item_def upsert_attachment_def prog_simps manifest_grows.R_refl)
  next
    case 2
    let ?new = "?f (new_attachment (nid sid) now pid vid sid)"
    have "(vid, sid) \<notin> (\<lambda>a. (at_version a, at_source a)) ` set (attachments d)"
      using 2(2) by (auto simp: find_None_iff in_slot_def)
    then have "slots_unique d \<longrightarrow> slots_unique (d\<lparr>attachments := attachments d @ [?new]\<rparr>)"
      by (simp add: slots_unique_def new_attachment_def)
    then have "manifest_grows pid vid d (d\<lparr>attachments := attachments d @ [?new]\<rparr>)"
      unfolding manifest_grows_def by (intro conjI exI [of _ "[?new]"]) (simp_all add: new_attachment_def)
    with 2 show ?thesis by (simp add: m sync_item_def upsert_attachment_def prog_simps)
  next
    case 3
    let ?d = "d\<lparr>attachments := update_where (in_slot vid sid) (\<lambda>x. (?f x)\<lparr>at_updated := now\<rparr>) (attachments d)\<rparr>"
    have eq: "map processing (attachments ?d) = map processing (attachments d)"
      by (simp add: update_where_def processing_def)
    then have "map (\<lambda>a. (at_version a, at_source a)) (attachments ?d) =
        map (\<lambda>a. (at_version a, at_source a)) (attachments d)"
      using processing_map_id [of ?d d "[]"] by simp
    then have "slots_unique d \<longrightarrow> slots_unique ?d" unfolding slots_unique_def by simp
    then have "manifest_grows pid vid d ?d"
      unfolding manifest_grows_def using eq by (intro conjI exI [of _ "[]"]) simp_all
    with 3 show ?thesis
      by (simp add: m sync_item_def upsert_attachment_def prog_simps manifest_grows.R_refl)
  qed
qed

lemma sync_grows: "obeys (manifest_grows pid vid) (sync_attachment_manifest rp nid now pid vid items)"
  unfolding sync_attachment_manifest_def by (intro manifest_grows.resp_rules sync_item_grows)

subsection \<open>Properties\<close>

definition sample_version :: version_row where
  "sample_version = \<lparr>v_id = 2, v_process = 3, v_source_request = None, v_cached = False, v_payload = JObj [],
     v_request = None, v_response = None, v_callback = None, v_finalized = True, v_finalized_at = Some 0,
     v_fingerprint = None, v_schema_version = None, v_equivalent = None, v_created = 0\<rparr>"

definition open_process :: process_row where
  "open_process = \<lparr>p_id = 3, p_code = ''1'', p_current = Some 2, p_court = JNull, p_class = JNull,
     p_subjects = JNull, p_parties = JNull, p_representatives = JNull, p_secrecy = 0, p_header = JNull, p_updated = 0\<rparr>"

definition attached_db :: db where
  "attached_db = empty_db\<lparr>processes := [open_process], versions := [sample_version], tenant_processes := [(5, 3)],
     attachments := [(new_attachment 7 0 3 2 ''doc'')\<lparr>at_error := Some ''timeout''\<rparr>]\<rparr>"

text \<open>Extracted text is read back exactly and only by those who may. After the chunks of an
  attachment are replaced, a tenant reads from that attachment precisely the given chunks, in
  order and with their digests, when the process is granted to the tenant, public and at this
  version; otherwise the tenant reads nothing of it.\<close>

theorem replaced_chunks_read_back:
  assumes "distinct (map at_id (attachments d))" "validate_chunks cs = Inr ()"
    and "a \<in> set (attachments d)" "at_id a = aid" "at_process a = pid" "at_version a = vid"
    and "replace_attachment_chunks sha cid now aid pid vid cs d = (d', Inr n)"
  shows "n = length cs \<and>
    map snd (filter (\<lambda>(x, c). at_id x = aid) (load_authorized_attachment_chunks collate tenant pid vid d')) =
      (if readable_process tenant pid vid d then map (new_chunk sha cid aid pid vid) (enumerate 0 cs) else [])"
proof -
  have "n = length cs"
    using assms(2,7) by (simp add: replace_attachment_chunks_def then_do_def bind_def ret_def split: prod.splits sum.splits)
  then show ?thesis
    unfolding read_back [OF assms] by (simp add: o_def)
qed

definition sample_chunks :: "chunk_input list" where
  "sample_chunks = [\<lparr>ci_text = [80, 49], ci_page_start = Some 1, ci_page_end = Some 1, ci_char_start = Some 0, ci_char_end = Some 2\<rparr>,
     \<lparr>ci_text = [80, 50], ci_page_start = Some 2, ci_page_end = Some 2, ci_char_start = Some 2, ci_char_end = Some 4\<rparr>]"

theorem replaced_chunks_read_back_witness:
  "\<exists>d' n. replace_attachment_chunks (\<lambda>_. ''sha'') (\<lambda>i. i) 9 7 3 2 sample_chunks attached_db = (d', Inr n) \<and>
    map ch_text (map snd (filter (\<lambda>(x, c). at_id x = 7) (load_authorized_attachment_chunks (\<lambda>_. 0) 5 3 2 d'))) =
      [[80, 49], [80, 50]]"
proof -
  let ?a = "hd (attachments attached_db)"
  have dist: "distinct (map at_id (attachments attached_db))" by (simp add: attached_db_def)
  have valid: "validate_chunks sample_chunks = Inr ()"
    by (simp add: sample_chunks_def validate_chunk_def check_bounds_def)
  have a: "?a \<in> set (attachments attached_db)" "at_id ?a = 7" "at_process ?a = 3" "at_version ?a = 2"
    by (simp_all add: attached_db_def new_attachment_def)
  have "find (\<lambda>a. at_id a = 7 \<and> at_process a = 3 \<and> at_version a = 2) (attachments attached_db) = Some ?a"
    by (simp add: attached_db_def new_attachment_def)
  from replace_run [OF valid this] obtain d' where
    run: "replace_attachment_chunks (\<lambda>_. ''sha'') (\<lambda>i. i) 9 7 3 2 sample_chunks attached_db = (d', Inr (length sample_chunks))"
    by blast
  have "readable_process 5 3 2 attached_db"
    by (simp add: readable_process_def attached_db_def open_process_def)
  with replaced_chunks_read_back [OF dist valid a run, of "\<lambda>_. 0" 5] run show ?thesis
    by (auto simp: sample_chunks_def)
qed

text \<open>Synchronising the manifest of a version never resets or drops the processing of an
  attachment: whatever the items (also when one is refused), every existing row keeps its
  identity, status, content data and error, the only new rows are pending rows of this version,
  and a source id still has one row in a version.\<close>

theorem manifest_keeps_processing:
  assumes "sync_attachment_manifest rp nid now pid vid items d = (d', r)" "slots_unique d"
  shows "slots_unique d' \<and> (\<exists>new. map processing (attachments d') = map processing (attachments d) @ map processing new \<and>
    list_all (\<lambda>a. at_process a = pid \<and> at_version a = vid \<and> at_status a = APending) new)"
  using obeysD' [OF sync_grows assms(1)] assms(2) unfolding manifest_grows_def list_all_iff by blast

definition sample_items :: "manifest_input list" where
  "sample_items = [\<lparr>mi_id = JStr ''doc'', mi_name = JStr '' Petition '', mi_date = Some (At 5), mi_status = JStr ''DONE''\<rparr>,
     \<lparr>mi_id = JInt 9, mi_name = JNull, mi_date = None, mi_status = JNull\<rparr>]"

theorem manifest_keeps_processing_witness:
  "\<exists>new. map processing (attachments (fst (sync_attachment_manifest no_repr (\<lambda>_. 8) 1 3 2 sample_items attached_db))) =
    map processing (attachments attached_db) @ map processing new"
proof -
  obtain d' r where run: "sync_attachment_manifest no_repr (\<lambda>_. 8) 1 3 2 sample_items attached_db = (d', r)"
    by (cases "sync_attachment_manifest no_repr (\<lambda>_. 8) 1 3 2 sample_items attached_db")
  have "slots_unique attached_db" by (simp add: slots_unique_def attached_db_def)
  from manifest_keeps_processing [OF run this] show ?thesis by (auto simp: run)
qed

end
