(* ===== verification/Expunge.thy ===== *)
theory Expunge
  imports QueueMachine
begin

text \<open>
  The retention of \<open>app/scheduler.py\<close>: the processes nobody has updated for a while are deleted
  with everything that hangs on them (the \<open>ON DELETE\<close> clauses of the schema), and so are old
  deliveries of the provider and old completion markers. The access log stays (\<open>sql/005\<close>).
\<close>

subsection \<open>The cascade from a process\<close>

text \<open>\<open>ON DELETE SET NULL\<close>.\<close>

definition keep_unless :: "'a list \<Rightarrow> 'a option \<Rightarrow> 'a option" where
  "keep_unless gone ref = (case ref of None \<Rightarrow> None | Some x \<Rightarrow> if x \<in> set gone then None else Some x)"

text \<open>The rows of other tables that a \<open>DELETE\<close> of the processes \<open>ps\<close> takes away.\<close>

definition doomed_versions :: "uuid list \<Rightarrow> db \<Rightarrow> uuid list" where
  "doomed_versions ps d = map v_id (filter (\<lambda>v. v_process v \<in> set ps) (versions d))"

definition in_doomed :: "uuid list \<Rightarrow> db \<Rightarrow> uuid \<Rightarrow> uuid \<Rightarrow> bool" where
  "in_doomed ps d pid vid \<longleftrightarrow> pid \<in> set ps \<or> vid \<in> set (doomed_versions ps d)"

definition doomed_steps :: "uuid list \<Rightarrow> db \<Rightarrow> uuid list" where
  "doomed_steps ps d = map s_id (filter (\<lambda>s. in_doomed ps d (s_process s) (s_version s)) (steps d))"

definition doomed_attachments :: "uuid list \<Rightarrow> db \<Rightarrow> uuid list" where
  "doomed_attachments ps d = map at_id (filter (\<lambda>a. in_doomed ps d (at_process a) (at_version a)) (attachments d))"

definition doomed_chunk :: "uuid list \<Rightarrow> db \<Rightarrow> chunk_row \<Rightarrow> bool" where
  "doomed_chunk ps d c \<longleftrightarrow> in_doomed ps d (ch_process c) (ch_version c) \<or> ch_attachment c \<in> set (doomed_attachments ps d)"

definition doomed_chunks :: "uuid list \<Rightarrow> db \<Rightarrow> uuid list" where
  "doomed_chunks ps d = map ch_id (filter (doomed_chunk ps d) (chunks d))"

definition doomed_summaries :: "uuid list \<Rightarrow> db \<Rightarrow> uuid list" where
  "doomed_summaries ps d = map sm_id (filter (\<lambda>s. in_doomed ps d (sm_process s) (sm_version s)) (summaries d))"

definition doomed_claim :: "uuid list \<Rightarrow> db \<Rightarrow> material_claim_row \<Rightarrow> bool" where
  "doomed_claim ps d c \<longleftrightarrow> in_doomed ps d (cl_process c) (cl_version c) \<or> cl_summary c \<in> set (doomed_summaries ps d)"

definition is_one_of :: "uuid list \<Rightarrow> uuid option \<Rightarrow> bool" where
  "is_one_of ids ref = (case ref of None \<Rightarrow> False | Some x \<Rightarrow> x \<in> set ids)"

definition doomed_source :: "uuid list \<Rightarrow> db \<Rightarrow> claim_source_row \<Rightarrow> bool" where
  "doomed_source ps d s \<longleftrightarrow> in_doomed ps d (cs_process s) (cs_version s) \<or> cs_summary s \<in> set (doomed_summaries ps d) \<or>
     cs_row s \<in> set (map cl_id (filter (doomed_claim ps d) (claim_rows d))) \<or>
     is_one_of (doomed_steps ps d) (cs_step s) \<or> is_one_of (doomed_chunks ps d) (cs_chunk s)"

definition doomed_used :: "uuid list \<Rightarrow> db \<Rightarrow> 'a used_row_scheme \<Rightarrow> bool" where
  "doomed_used ps d u \<longleftrightarrow> in_doomed ps d (u_process u) (u_version u) \<or> u_summary u \<in> set (doomed_summaries ps d)"

definition delete_processes :: "uuid list \<Rightarrow> db \<Rightarrow> db" where
  "delete_processes ps d =
     (let vs = doomed_versions ps d;
          away = in_doomed ps d;
          lost = map (\<lambda>s. (cs_row s, cs_ref s)) (filter (doomed_source ps d) (claim_sources d)) in
      d\<lparr>processes := map (\<lambda>p. p\<lparr>p_current := keep_unless vs (p_current p)\<rparr>) (filter (\<lambda>p. p_id p \<notin> set ps) (processes d)),
        versions := map (\<lambda>v. v\<lparr>v_equivalent := keep_unless vs (v_equivalent v)\<rparr>)
          (filter (\<lambda>v. v_process v \<notin> set ps) (versions d)),
        steps := filter (\<lambda>s. \<not> away (s_process s) (s_version s)) (steps d),
        attachments := filter (\<lambda>a. \<not> away (at_process a) (at_version a)) (attachments d),
        chunks := filter (\<lambda>c. \<not> doomed_chunk ps d c) (chunks d),
        tenant_processes := filter (\<lambda>tp. snd tp \<notin> set ps) (tenant_processes d),
        summaries := filter (\<lambda>s. \<not> away (sm_process s) (sm_version s)) (summaries d),
        claim_rows := filter (\<lambda>c. \<not> doomed_claim ps d c) (claim_rows d),
        claim_sources := filter (\<lambda>s. \<not> doomed_source ps d s) (claim_sources d),
        claim_excerpts := filter (\<lambda>x. (fst x, fst (snd x)) \<notin> set lost) (claim_excerpts d),
        used_steps := filter (\<lambda>u. \<not> (doomed_used ps d u \<or> u_source u \<in> set (doomed_steps ps d))) (used_steps d),
        used_chunks := filter (\<lambda>u. \<not> (doomed_used ps d u \<or> u_source u \<in> set (doomed_chunks ps d) \<or>
          uc_attachment u \<in> set (doomed_attachments ps d))) (used_chunks d),
        used_glossary := filter (\<lambda>g. \<not> (away (gl_process g) (gl_version g) \<or>
          gl_summary g \<in> set (doomed_summaries ps d))) (used_glossary d),
        provenance_rows := filter (\<lambda>r. \<not> away (pr_process r) (pr_version r)) (provenance_rows d),
        requests := map (\<lambda>r. r\<lparr>r_process := keep_unless ps (r_process r), r_version := keep_unless vs (r_version r),
          r_summary := keep_unless (doomed_summaries ps d) (r_summary r)\<rparr>) (requests d)\<rparr>)"

subsection \<open>expurgar and the purges\<close>

definition expired :: "timestamp \<Rightarrow> int \<Rightarrow> process_row \<Rightarrow> bool" where
  "expired now retention_days p \<longleftrightarrow> p_updated p < now - retention_days * day"

definition doomed_processes :: "timestamp \<Rightarrow> int \<Rightarrow> db \<Rightarrow> uuid list" where
  "doomed_processes now retention_days d = map p_id (filter (expired now retention_days) (processes d))"

definition doomed_requests :: "uuid list \<Rightarrow> db \<Rightarrow> string list" where
  "doomed_requests ps d = List.map_filter v_request (filter (\<lambda>v. v_process v \<in> set ps) (versions d))"

definition expurgar :: "timestamp \<Rightarrow> int \<Rightarrow> (db, int) prog" where
  "expurgar now retention_days =
     (if retention_days \<le> 0 then raise (ValueError ''retention_days must be greater than zero'')
      else bind (query (doomed_processes now retention_days)) (\<lambda>ps.
        then_do (modify (\<lambda>d. delete_processes ps (d\<lparr>deliveries := filter (\<lambda>x. case dl_request x of
            None \<Rightarrow> True | Some r \<Rightarrow> r \<notin> set (doomed_requests ps d)) (deliveries d)\<rparr>)))
          (ret (int (length ps)))))"

definition purge_judit_request_completions :: "timestamp \<Rightarrow> int \<Rightarrow> (db, int) prog" where
  "purge_judit_request_completions now retention_days =
     (if retention_days \<le> 0 then raise (ValueError ''job_retention_days must be greater than zero'')
      else bind (query (\<lambda>d. length (filter (\<lambda>c. cp_completed c < now - retention_days * day) (completions d)))) (\<lambda>n.
        then_do (modify (\<lambda>d. d\<lparr>completions := filter (\<lambda>c. \<not> cp_completed c < now - retention_days * day) (completions d)\<rparr>))
          (ret (int n))))"

definition purge_judit_deliveries :: "timestamp \<Rightarrow> int \<Rightarrow> (db, int) prog" where
  "purge_judit_deliveries now retention_days =
     (if retention_days \<le> 0 then raise (ValueError ''job_retention_days must be greater than zero'')
      else bind (query (\<lambda>d. length (filter (\<lambda>x. dl_received x < now - retention_days * day) (deliveries d)))) (\<lambda>n.
        then_do (modify (\<lambda>d. d\<lparr>deliveries := filter (\<lambda>x. \<not> dl_received x < now - retention_days * day) (deliveries d)\<rparr>))
          (ret (int n))))"

lemma expurgar_run:
  "fst (expurgar now days d) = d \<or> (\<exists>e. processes e = processes d \<and> versions e = versions d \<and>
     fst (expurgar now days d) = delete_processes (doomed_processes now days d) e)"
proof (cases "days \<le> 0")
  case True
  then show ?thesis by (simp add: expurgar_def run_simps raise_def)
next
  case False
  then show ?thesis
    by (intro disjI2) (auto simp: expurgar_def run_simps ret_def intro!: exI [of _ "d\<lparr>deliveries := _\<rparr>"])
qed

lemma delete_processes_rows:
  "processes (delete_processes ps d) = map (\<lambda>p. p\<lparr>p_current := keep_unless (doomed_versions ps d) (p_current p)\<rparr>)
     (filter (\<lambda>p. p_id p \<notin> set ps) (processes d))"
  "versions (delete_processes ps d) = map (\<lambda>v. v\<lparr>v_equivalent := keep_unless (doomed_versions ps d) (v_equivalent v)\<rparr>)
     (filter (\<lambda>v. v_process v \<notin> set ps) (versions d))"
  by (simp_all add: delete_processes_def Let_def)

text \<open>A purge leaves processes and their versions alone.\<close>

lemma purges_keep_versions:
  "processes (fst (purge_judit_deliveries now days d)) = processes d"
  "versions (fst (purge_judit_deliveries now days d)) = versions d"
  "processes (fst (purge_judit_request_completions now days d)) = processes d"
  "versions (fst (purge_judit_request_completions now days d)) = versions d"
  by (simp_all add: purge_judit_deliveries_def purge_judit_request_completions_def run_simps raise_def ret_def)

end
