(* ===== verification/Versions.thy ===== *)
theory Versions
  imports Tracking Attachments Expunge
begin

text \<open>
  \<open>app/processes.py\<close> and \<open>app/process_semantics.py\<close>: the versions of a process. A provider
  response is staged as a version, the preferred version of a request is chosen, and a version is
  finalized: it becomes the current one of its process unless its normalized content, compared by
  a fingerprint, is the one already current, or a later version already is. The steps and the
  secrecy level are as \<open>extract_promotable_fields\<close> builds them; their numbers are integers.
\<close>

text \<open>
  What the code takes from outside: the SHA-256 digest of the compact text of a document, \<open>repr\<close>,
  the syntax analysis of JSON, the ISO text of an instant in the zone of Sao Paulo and the instant
  of an ISO text (UTC when it has no zone), the order of
  texts in the database, what a JSON value becomes in a \<open>jsonb\<close> column (keys reordered), and the
  text of a number or container there.
\<close>

record codec =
  cd_digest :: "json \<Rightarrow> string"
  cd_repr :: "json \<Rightarrow> string"
  cd_parse :: "string \<Rightarrow> json option"
  cd_iso :: "timestamp \<Rightarrow> string"
  cd_fromiso :: "string \<Rightarrow> timestamp option"
  cd_collate :: "string \<Rightarrow> rat"
  cd_store :: "json \<Rightarrow> json"
  cd_text :: "json \<Rightarrow> string"

subsection \<open>The semantic document\<close>

record step_input =
  si_number :: int
  si_occurred :: "date_value option"
  si_title :: json
  si_text :: json
  si_metadata :: json

record promotable =
  pf_header :: json
  pf_parties :: "json list"
  pf_representatives :: "json list"
  pf_subjects :: "json list"
  pf_steps :: "step_input list"
  pf_attachments :: "manifest_input list"
  pf_court :: json
  pf_class :: json
  pf_secrecy :: int

definition semantic_schema_version :: int where
  "semantic_schema_version = 3"

fun datetime_value :: "codec \<Rightarrow> date_value option \<Rightarrow> json" where
  "datetime_value k None = JNull"
| "datetime_value k (Some (At t)) = JStr (cd_iso k t)"
| "datetime_value k (Some (NotADate v)) = JStr (py_str (cd_repr k) v)"

definition step_semantics :: "codec \<Rightarrow> step_input \<Rightarrow> json" where
  "step_semantics k s =
     (let metadata = as_obj (si_metadata s) in JObj
       [(''step_number'', JInt (si_number s)),
        (''occurred_at'', datetime_value k (si_occurred s)),
        (''title'', si_title s),
        (''text'', JStr (text_or_empty (cd_repr k) (si_text s))),
        (''source_step_number'', obj_get metadata ''source_step_number''),
        (''private'', obj_get metadata ''private''),
        (''secrecy_level'', obj_get metadata ''secrecy_level''),
        (''tags'', py_or (obj_get metadata ''tags'') (JObj []))])"

definition attachment_semantics :: "codec \<Rightarrow> manifest_input \<Rightarrow> json" where
  "attachment_semantics k a = JObj
     [(''attachment_id'', JStr (text_or_empty (cd_repr k) (mi_id a))),
      (''attachment_date'', datetime_value k (mi_date a)),
      (''attachment_name'', mi_name a),
      (''provider_status'', mi_status a)]"

definition semantic_document :: "codec \<Rightarrow> promotable \<Rightarrow> json" where
  "semantic_document k f = JObj
     [(''schema_version'', JInt semantic_schema_version),
      (''court'', pf_court f),
      (''class_name'', pf_class f),
      (''secrecy_level'', JInt (pf_secrecy f)),
      (''header'', pf_header f),
      (''parties'', JArr (pf_parties f)),
      (''representatives'', JArr (pf_representatives f)),
      (''subjects'', JArr (pf_subjects f)),
      (''steps'', JArr (map (step_semantics k) (pf_steps f))),
      (''attachments'', JArr (map (attachment_semantics k) (pf_attachments f)))]"

text \<open>\<open>sort_keys=True\<close>.\<close>

fun sort_keys :: "json \<Rightarrow> json" where
  "sort_keys (JObj kvs) = JObj (sort_key (\<lambda>kv. map ord (fst kv)) (map (\<lambda>kv. (fst kv, sort_keys (snd kv))) kvs))"
| "sort_keys (JArr xs) = JArr (map sort_keys xs)"
| "sort_keys v = v"

definition semantic_fingerprint :: "codec \<Rightarrow> promotable \<Rightarrow> string" where
  "semantic_fingerprint k f = cd_digest k (sort_keys (semantic_document k f))"

subsection \<open>Access\<close>

definition get_authorized_process :: "uuid \<Rightarrow> string \<Rightarrow> db \<Rightarrow> process_row option" where
  "get_authorized_process tenant code d =
     find (\<lambda>p. p_code p = code \<and> (tenant, p_id p) \<in> set (tenant_processes d)) (processes d)"

definition log_access ::
  "uuid \<Rightarrow> uuid option \<Rightarrow> string \<Rightarrow> string \<Rightarrow> (string \<times> json) list option \<Rightarrow> (db, unit) prog" where
  "log_access tenant pid code action metadata = modify (\<lambda>d. d\<lparr>access_log := access_log d @
     [\<lparr>al_tenant = tenant, al_process = pid, al_code = code, al_action = action,
       al_metadata = JObj (case metadata of None \<Rightarrow> [] | Some m \<Rightarrow> m), al_key = None,
       al_fingerprint = None\<rparr>]\<rparr>)"

definition grant_process_access :: "uuid \<Rightarrow> uuid \<Rightarrow> (db, bool) prog" where
  "grant_process_access tenant pid =
     bind (query (\<lambda>d. (tenant, pid) \<notin> set (tenant_processes d))) (\<lambda>inserted.
       then_do (modify (grant (tenant, pid))) (ret inserted))"

subsection \<open>Staging\<close>

text \<open>The check constraint of \<open>sql/010\<close>.\<close>

definition canonical_code :: "string \<Rightarrow> bool" where
  "canonical_code s \<longleftrightarrow> list_all2 (\<lambda>m c. if m = CHR ''d'' then isdecimal_c c else c = m)
     ''ddddddd-dd.dddd.d.dd.dddd'' s"

definition new_process :: "uuid \<Rightarrow> timestamp \<Rightarrow> string \<Rightarrow> process_row" where
  "new_process pid now code = \<lparr>p_id = pid, p_code = code, p_current = None, p_court = JNull, p_class = JNull,
     p_subjects = JArr [], p_parties = JArr [], p_representatives = JArr [], p_secrecy = 0, p_header = JObj [],
     p_updated = now\<rparr>"

text \<open>One response as it arrives.\<close>

record response =
  rs_source_request :: "string option"
  rs_cached :: bool
  rs_payload :: "(string \<times> json) list"
  rs_request :: "string option"
  rs_response :: "string option"
  rs_callback :: "string option"

definition new_version :: "codec \<Rightarrow> uuid \<Rightarrow> timestamp \<Rightarrow> uuid \<Rightarrow> response \<Rightarrow> version_row" where
  "new_version k vid now pid r = \<lparr>v_id = vid, v_process = pid, v_source_request = rs_source_request r,
     v_cached = rs_cached r, v_payload = cd_store k (JObj (rs_payload r)), v_request = rs_request r,
     v_response = rs_response r, v_callback = rs_callback r, v_finalized = False, v_finalized_at = None,
     v_fingerprint = None, v_schema_version = None, v_equivalent = None, v_created = now\<rparr>"

definition restaged :: "codec \<Rightarrow> response \<Rightarrow> version_row \<Rightarrow> version_row" where
  "restaged k r v =
     v\<lparr>v_cached := (if v_finalized v then v_cached v else rs_cached r),
       v_payload := (if v_finalized v then v_payload v else cd_store k (JObj (rs_payload r))),
       v_request := (if v_finalized v then v_request v else coalesce (rs_request r) (v_request v)),
       v_response := (if v_finalized v then v_response v else coalesce (rs_response r) (v_response v)),
       v_callback := (if v_finalized v then v_callback v else coalesce (rs_callback r) (v_callback v))\<rparr>"

text \<open>The unique indexes of \<open>sql/003\<close>, against the other rows.\<close>

definition id_taken :: "version_row \<Rightarrow> version_row list \<Rightarrow> bool" where
  "id_taken v t \<longleftrightarrow> (\<exists>w \<in> set t. v_id w \<noteq> v_id v \<and>
     (v_response v \<noteq> None \<and> v_response w = v_response v \<or> v_callback v \<noteq> None \<and> v_callback w = v_callback v))"

text \<open>The trigger of \<open>sql/023\<close> on the row just written; \<open>->>\<close> gives the text of a member.\<close>

definition member_text :: "codec \<Rightarrow> json \<Rightarrow> string \<Rightarrow> string option" where
  "member_text k v name = (case obj_get (as_obj v) name of
     JNull \<Rightarrow> None | JStr s \<Rightarrow> Some s | w \<Rightarrow> Some (cd_text k w))"

definition tracking_reference :: "codec \<Rightarrow> json \<Rightarrow> string option" where
  "tracking_reference k payload =
     (if member_text k payload ''reference_type'' = Some ''tracking''
      then (case member_text k payload ''reference_id'' of
              None \<Rightarrow> None | Some s \<Rightarrow> (if s = [] then None else Some s))
      else None)"

definition grant_trackings :: "(tracking \<Rightarrow> bool) \<Rightarrow> uuid \<Rightarrow> db \<Rightarrow> db" where
  "grant_trackings p pid d = fold (\<lambda>t. grant (t_tenant t, pid)) (filter p (trackings d)) d"

definition reconcile_version :: "codec \<Rightarrow> timestamp \<Rightarrow> version_row \<Rightarrow> (db, unit) prog" where
  "reconcile_version k now v =
     then_do (case tracking_reference k (v_payload v) of
         None \<Rightarrow> ret ()
       | Some ref \<Rightarrow>
           then_do (set_trackings (live_provider ref) (\<lambda>t. t\<lparr>t_last_event := Some now, t_updated := now\<rparr>))
             (modify (grant_trackings (live_provider ref) (v_process v))))
       (case v_request v of
         None \<Rightarrow> ret ()
       | Some request \<Rightarrow> grant_tracking_request_tenant request (v_process v))"

text \<open>\<open>UNIQUE (process_id, source_request_id)\<close>: two NULLs do not conflict.\<close>

definition staged_slot :: "uuid \<Rightarrow> string option \<Rightarrow> version_row \<Rightarrow> bool" where
  "staged_slot pid src v \<longleftrightarrow> src \<noteq> None \<and> v_process v = pid \<and> v_source_request v = src"

definition write_version :: "codec \<Rightarrow> uuid \<Rightarrow> timestamp \<Rightarrow> uuid \<Rightarrow> response \<Rightarrow> (db, version_row) prog" where
  "write_version k vid now pid r =
     bind (query versions) (\<lambda>t.
       let old = find (staged_slot pid (rs_source_request r)) t;
           v = (case old of None \<Rightarrow> new_version k vid now pid r | Some w \<Rightarrow> restaged k r w) in
       if id_taken v t then raise (DatabaseError ''duplicate Judit response or callback id'')
       else
         then_do (modify (\<lambda>d. d\<lparr>versions := (case old of
                     None \<Rightarrow> t @ [v] | Some w \<Rightarrow> update_where (staged_slot pid (rs_source_request r)) (restaged k r) t)\<rparr>))
         (then_do (reconcile_version k now v) (ret v)))"

definition touch_process :: "uuid \<Rightarrow> timestamp \<Rightarrow> (db, unit) prog" where
  "touch_process pid now = modify (\<lambda>d. d\<lparr>processes :=
     update_where (\<lambda>p. p_id p = pid) (\<lambda>p. p\<lparr>p_updated := now\<rparr>) (processes d)\<rparr>)"

definition open_process_row :: "uuid \<Rightarrow> timestamp \<Rightarrow> string \<Rightarrow> (db, uuid) prog" where
  "open_process_row npid now code =
     bind (query (\<lambda>d. row_by p_code code (processes d))) (\<lambda>row.
       case row of
         Some p \<Rightarrow> ret (p_id p)
       | None \<Rightarrow> then_do (modify (\<lambda>d. d\<lparr>processes := processes d @ [new_process npid now code]\<rparr>)) (ret npid))"

definition stage_version ::
  "codec \<Rightarrow> uuid \<Rightarrow> uuid \<Rightarrow> timestamp \<Rightarrow> string \<Rightarrow> response \<Rightarrow> uuid option \<Rightarrow> (db, uuid \<times> uuid) prog" where
  "stage_version k npid nvid now code r tenant =
     transaction
       (if \<not> canonical_code code then raise (DatabaseError ''processes_code_canonical_cnj_chk'')
        else bind (open_process_row npid now code) (\<lambda>pid.
          then_do (case tenant of None \<Rightarrow> ret () | Some t \<Rightarrow> then_do (grant_process_access t pid) (ret ()))
          (bind (write_version k nvid now pid r) (\<lambda>v.
             then_do (if v_finalized v then ret () else touch_process pid now)
               (ret (pid, v_id v))))))"

subsection \<open>The preferred version\<close>

definition preferred_judit_version :: "string \<Rightarrow> db \<Rightarrow> (version_row \<times> process_row) option" where
  "preferred_judit_version request d =
     (case sort_key (\<lambda>(v, p). (v_cached v, - v_created v))
             (concat (map (\<lambda>v. map (Pair v) (filter (\<lambda>p. p_id p = v_process v) (processes d)))
                (filter (\<lambda>v. v_request v = Some request) (versions d)))) of
        [] \<Rightarrow> None | x # _ \<Rightarrow> Some x)"

subsection \<open>The fingerprint of the current version\<close>

text \<open>A decoded object as a document: \<open>json.dumps\<close> turns the keys into text.\<close>

fun key_text :: "codec \<Rightarrow> json \<Rightarrow> string" where
  "key_text k (JStr s) = s"
| "key_text k v = cd_text k v"

definition dict_json :: "codec \<Rightarrow> pydict \<Rightarrow> json" where
  "dict_json k m = JObj (map (\<lambda>(a, v). (key_text k a, v)) m)"

definition optional_text :: "string option \<Rightarrow> json" where
  "optional_text v = (case v of None \<Rightarrow> JNull | Some s \<Rightarrow> JStr s)"

definition stored_step :: "step_row \<Rightarrow> step_input" where
  "stored_step s = \<lparr>si_number = s_number s, si_occurred = map_option At (s_occurred s), si_title = s_title s,
     si_text = JStr (s_text s), si_metadata = s_metadata s\<rparr>"

definition stored_item :: "attachment_row \<Rightarrow> manifest_input" where
  "stored_item a = \<lparr>mi_id = JStr (at_source a), mi_name = optional_text (at_name a),
     mi_date = map_option At (at_date a), mi_status = optional_text (at_provider_status a)\<rparr>"

definition steps_of :: "uuid \<Rightarrow> uuid \<Rightarrow> db \<Rightarrow> step_row list" where
  "steps_of pid vid d = sort_key s_number (filter (\<lambda>s. s_process s = pid \<and> s_version s = vid) (steps d))"

definition attachments_of :: "codec \<Rightarrow> uuid \<Rightarrow> uuid \<Rightarrow> db \<Rightarrow> attachment_row list" where
  "attachments_of k pid vid d = sort_key (\<lambda>a. cd_collate k (at_source a))
     (filter (\<lambda>a. at_process a = pid \<and> at_version a = vid) (attachments d))"

definition current_semantic_fingerprint :: "codec \<Rightarrow> uuid \<Rightarrow> uuid \<Rightarrow> db \<Rightarrow> string option res" where
  "current_semantic_fingerprint k pid vid d =
     (case find (\<lambda>p. p_id p = pid \<and> p_current p = Some vid) (processes d) of
        None \<Rightarrow> Inr None
      | Some p \<Rightarrow>
          res_bind (decode_json_object (cd_parse k) ''process header'' (p_header p)) (\<lambda>header.
          res_bind (decode_json_list (cd_parse k) ''process parties'' (p_parties p)) (\<lambda>parties.
          res_bind (decode_json_list (cd_parse k) ''process representatives'' (p_representatives p)) (\<lambda>reps.
          res_bind (decode_json_list (cd_parse k) ''process subjects'' (p_subjects p)) (\<lambda>subjects.
            Inr (Some (semantic_fingerprint k
              \<lparr>pf_header = dict_json k header, pf_parties = parties, pf_representatives = reps,
               pf_subjects = subjects, pf_steps = map stored_step (steps_of pid vid d),
               pf_attachments = map stored_item (attachments_of k pid vid d), pf_court = p_court p,
               pf_class = p_class p, pf_secrecy = p_secrecy p\<rparr>)))))))"

subsection \<open>Finalization\<close>

text \<open>What \<open>asyncpg\<close> accepts for an \<open>INTEGER\<close>, a \<open>TEXT\<close> and a \<open>TIMESTAMPTZ\<close> column.\<close>

definition int4 :: "int \<Rightarrow> bool" where
  "int4 i \<longleftrightarrow> - (2 ^ 31) \<le> i \<and> i < 2 ^ 31"

definition text_value :: "json \<Rightarrow> bool" where
  "text_value v \<longleftrightarrow> v = JNull \<or> is_str v"

definition instant :: "date_value option \<Rightarrow> bool" where
  "instant v = (case v of Some (NotADate _) \<Rightarrow> False | _ \<Rightarrow> True)"

fun instant_of :: "date_value option \<Rightarrow> timestamp option" where
  "instant_of (Some (At t)) = Some t"
| "instant_of _ = None"

definition step_ok :: "step_input \<Rightarrow> bool" where
  "step_ok s \<longleftrightarrow> int4 (si_number s) \<and> instant (si_occurred s) \<and> text_value (si_title s)"

definition new_step :: "codec \<Rightarrow> (int \<Rightarrow> uuid) \<Rightarrow> uuid \<Rightarrow> uuid \<Rightarrow> step_input \<Rightarrow> step_row" where
  "new_step k sid pid vid s = \<lparr>s_id = sid (si_number s), s_version = vid, s_process = pid, s_number = si_number s,
     s_occurred = instant_of (si_occurred s), s_title = si_title s, s_text = text_or_empty (cd_repr k) (si_text s),
     s_metadata = cd_store k (py_or (si_metadata s) (JObj []))\<rparr>"

text \<open>Deleting steps deletes what cites them (\<open>ON DELETE CASCADE\<close>).\<close>

definition delete_steps :: "uuid \<Rightarrow> db \<Rightarrow> db" where
  "delete_steps vid d =
     (let gone = s_id ` set (filter (\<lambda>s. s_version s = vid) (steps d)) in
      d\<lparr>steps := filter (\<lambda>s. s_version s \<noteq> vid) (steps d),
        used_steps := filter (\<lambda>u. u_source u \<notin> gone) (used_steps d),
        claim_sources := filter (\<lambda>s. case cs_step s of None \<Rightarrow> True | Some c \<Rightarrow> c \<notin> gone) (claim_sources d)\<rparr>)"

definition insert_steps :: "codec \<Rightarrow> (int \<Rightarrow> uuid) \<Rightarrow> uuid \<Rightarrow> uuid \<Rightarrow> step_input list \<Rightarrow> (db, unit) prog" where
  "insert_steps k sid pid vid ss =
     (if \<not> list_all step_ok ss then raise (DatabaseError ''invalid step value'')
      else if \<not> distinct (map si_number ss) then raise (DatabaseError ''duplicate step number'')
      else modify (\<lambda>d. d\<lparr>steps := steps d @ map (new_step k sid pid vid) ss\<rparr>))"

definition finalized_row :: "timestamp \<Rightarrow> string \<Rightarrow> uuid option \<Rightarrow> version_row \<Rightarrow> version_row" where
  "finalized_row now fp equivalent v =
     v\<lparr>v_finalized := True, v_finalized_at := Some now, v_fingerprint := Some fp,
       v_schema_version := Some semantic_schema_version, v_equivalent := equivalent\<rparr>"

definition version_at :: "uuid \<Rightarrow> uuid \<Rightarrow> version_row \<Rightarrow> bool" where
  "version_at pid vid v \<longleftrightarrow> v_id v = vid \<and> v_process v = pid"

definition mark_finalized :: "timestamp \<Rightarrow> uuid \<Rightarrow> uuid \<Rightarrow> string \<Rightarrow> uuid option \<Rightarrow> (db, unit) prog" where
  "mark_finalized now pid vid fp equivalent = modify (\<lambda>d. d\<lparr>versions :=
     update_where (version_at pid vid) (finalized_row now fp equivalent) (versions d)\<rparr>)"

definition promoted_row :: "codec \<Rightarrow> timestamp \<Rightarrow> uuid \<Rightarrow> promotable \<Rightarrow> process_row \<Rightarrow> process_row" where
  "promoted_row k now vid f p =
     p\<lparr>p_court := pf_court f, p_class := pf_class f, p_subjects := cd_store k (JArr (pf_subjects f)),
       p_parties := cd_store k (JArr (pf_parties f)),
       p_representatives := cd_store k (JArr (pf_representatives f)), p_secrecy := pf_secrecy f,
       p_header := cd_store k (pf_header f), p_current := Some vid, p_updated := now\<rparr>"

definition promote_process :: "codec \<Rightarrow> timestamp \<Rightarrow> uuid \<Rightarrow> uuid \<Rightarrow> promotable \<Rightarrow> (db, unit) prog" where
  "promote_process k now pid vid f =
     (if \<not> (text_value (pf_court f) \<and> text_value (pf_class f) \<and> int4 (pf_secrecy f))
      then raise (DatabaseError ''invalid process value'')
      else modify (\<lambda>d. d\<lparr>processes :=
             update_where (\<lambda>p. p_id p = pid) (promoted_row k now vid f) (processes d)\<rparr>))"

definition is_later :: "timestamp option \<Rightarrow> version_row \<Rightarrow> bool" where
  "is_later current v = (case current of None \<Rightarrow> True | Some t \<Rightarrow> t \<le> v_created v)"

text \<open>The rest of the transaction once the content is known to differ from the current one.\<close>

definition apply_candidate ::
  "codec \<Rightarrow> (int \<Rightarrow> uuid) \<Rightarrow> (string \<Rightarrow> uuid) \<Rightarrow> timestamp \<Rightarrow> uuid \<Rightarrow> uuid \<Rightarrow> promotable \<Rightarrow> bool \<Rightarrow> (db, bool) prog" where
  "apply_candidate k sid nid now pid vid f promote =
     then_do (modify (delete_steps vid))
     (then_do (insert_steps k sid pid vid (pf_steps f))
     (then_do (sync_attachment_manifest (cd_repr k) nid now pid vid (pf_attachments f))
     (then_do (mark_finalized now pid vid (semantic_fingerprint k f) None)
     (then_do (if promote then promote_process k now pid vid f else ret ())
       (ret promote)))))"

definition finalize_version ::
  "codec \<Rightarrow> (int \<Rightarrow> uuid) \<Rightarrow> (string \<Rightarrow> uuid) \<Rightarrow> timestamp \<Rightarrow> uuid \<Rightarrow> uuid \<Rightarrow> promotable \<Rightarrow> (db, bool) prog" where
  "finalize_version k sid nid now pid vid f =
     transaction (bind (query (\<lambda>d. row_by p_id pid (processes d))) (\<lambda>process.
       case process of
         None \<Rightarrow> raise (LookupError ''process does not exist'')
       | Some p \<Rightarrow> bind (query (\<lambda>d. find (version_at pid vid) (versions d))) (\<lambda>candidate.
           case candidate of
             None \<Rightarrow> raise (LookupError ''process version does not exist'')
           | Some v \<Rightarrow>
               (if v_finalized v then ret (p_current p = Some vid)
                else case p_current p of
                  None \<Rightarrow> apply_candidate k sid nid now pid vid f True
                | Some cur \<Rightarrow>
                    bind (query (\<lambda>d. map_option v_created (row_by v_id cur (versions d)))) (\<lambda>created.
                    bind (query (current_semantic_fingerprint k pid cur)) (\<lambda>answer.
                    bind (lift_res answer) (\<lambda>current.
                      if current = Some (semantic_fingerprint k f) then
                        then_do (sync_attachment_manifest (cd_repr k) nid now pid vid (pf_attachments f))
                        (then_do (mark_finalized now pid vid (semantic_fingerprint k f) (Some cur))
                        (ret False))
                      else apply_candidate k sid nid now pid vid f (is_later created v))))))))"


subsection \<open>What the manifest leaves alone\<close>

definition only_attachments :: "db \<Rightarrow> db \<Rightarrow> bool" where
  "only_attachments d d' \<longleftrightarrow> d' = d\<lparr>attachments := attachments d'\<rparr>"

interpretation only_attachments: step_order only_attachments
proof
  show "only_attachments s s" for s by (simp add: only_attachments_def)
  show "only_attachments s u" if "only_attachments s t" "only_attachments t u" for s t u
    using that unfolding only_attachments_def by (metis db.update_convs(9) db.surjective)
qed

lemma sync_only: "obeys only_attachments (sync_attachment_manifest rp nid now pid vid items)"
proof -
  have "obeys only_attachments (sync_item nid now pid vid m)" for m
  proof (rule obeysI)
    show "only_attachments d (fst (sync_item nid now pid vid m d))" for d
      by (cases m) (auto simp: sync_item_def upsert_attachment_def prog_simps only_attachments_def
          split: option.split)
  qed
  then show ?thesis
    unfolding sync_attachment_manifest_def by (intro only_attachments.resp_rules)
qed

lemma sync_frame:
  assumes "sync_attachment_manifest rp nid now pid vid items d = (d', r)"
  shows "processes d' = processes d" "versions d' = versions d" "steps d' = steps d"
    "tenant_processes d' = tenant_processes d" "trackings d' = trackings d"
  using obeysD' [OF sync_only assms] unfolding only_attachments_def by (metis db.ext_inject db.surjective db.update_convs(9))+

lemma apply_candidate_run:
  assumes "apply_candidate k sid nid now pid vid f promote d = (d', Inr b)"
  shows "b = promote \<and>
    processes d' = (if promote then update_where (\<lambda>p. p_id p = pid) (promoted_row k now vid f) (processes d) else processes d) \<and>
    versions d' = update_where (version_at pid vid) (finalized_row now (semantic_fingerprint k f) None) (versions d) \<and>
    steps d' = filter (\<lambda>s. s_version s \<noteq> vid) (steps d) @ map (new_step k sid pid vid) (pf_steps f)"
proof -
  from assms obtain n d2 where
    sync: "sync_attachment_manifest (cd_repr k) nid now pid vid (pf_attachments f)
      ((delete_steps vid d)\<lparr>steps := steps (delete_steps vid d) @ map (new_step k sid pid vid) (pf_steps f)\<rparr>) = (d2, Inr n)"
    and d': "d' = (if promote then d2\<lparr>versions := versions d', processes := processes d'\<rparr> else d2\<lparr>versions := versions d'\<rparr>)"
    and v: "versions d' = update_where (version_at pid vid) (finalized_row now (semantic_fingerprint k f) None) (versions d2)"
    and p: "processes d' = (if promote then update_where (\<lambda>p. p_id p = pid) (promoted_row k now vid f) (processes d2) else processes d2)"
    and b: "b = promote"
    by (auto simp: apply_candidate_def insert_steps_def promote_process_def mark_finalized_def prog_simps
        split: if_splits prod.splits sum.splits)
  have "steps d' = steps d2" by (subst d') simp
  with sync_frame [OF sync] v p b show ?thesis by (simp add: delete_steps_def Let_def)
qed


subsection \<open>What a finalization does\<close>

definition unchanged :: "codec \<Rightarrow> process_row \<Rightarrow> promotable \<Rightarrow> db \<Rightarrow> bool" where
  "unchanged k p f d = (case p_current p of
     None \<Rightarrow> False
   | Some cur \<Rightarrow> current_semantic_fingerprint k (p_id p) cur d = Inr (Some (semantic_fingerprint k f)))"

definition not_overtaken :: "process_row \<Rightarrow> version_row \<Rightarrow> db \<Rightarrow> bool" where
  "not_overtaken p v d = (case p_current p of
     None \<Rightarrow> True
   | Some cur \<Rightarrow> is_later (map_option v_created (row_by v_id cur (versions d))) v)"

lemma finalize_applies:
  assumes "row_by p_id pid (processes d) = Some p" "find (version_at pid vid) (versions d) = Some v" "\<not> v_finalized v"
    and "finalize_version k sid nid now pid vid f d = (d', Inr b)" "\<not> unchanged k p f d"
  shows "apply_candidate k sid nid now pid vid f (not_overtaken p v d) d = (d', Inr b)"
proof (cases "p_current p")
  case None
  with assms show ?thesis by (simp add: finalize_version_def run_simps not_overtaken_def)
next
  case (Some cur)
  have "p_id p = pid" using row_by_Some [OF assms(1)] by simp
  with Some assms show ?thesis
    by (cases "current_semantic_fingerprint k pid cur d")
       (auto simp: finalize_version_def run_simps prog_simps transaction_def not_overtaken_def unchanged_def
         split: if_splits prod.splits sum.splits)
qed

lemma finalize_unchanged:
  assumes "row_by p_id pid (processes d) = Some p" "find (version_at pid vid) (versions d) = Some v" "\<not> v_finalized v"
    and "unchanged k p f d"
  shows "finalize_version k sid nid now pid vid f d = transaction
    (then_do (sync_attachment_manifest (cd_repr k) nid now pid vid (pf_attachments f))
       (then_do (mark_finalized now pid vid (semantic_fingerprint k f) (p_current p)) (ret False))) d"
proof -
  have "p_id p = pid" using row_by_Some [OF assms(1)] by simp
  with assms show ?thesis
    by (cases "p_current p") (simp_all add: finalize_version_def unchanged_def transaction_def run_simps)
qed

lemma finalize_run:
  assumes "row_by p_id pid (processes d) = Some p" "find (version_at pid vid) (versions d) = Some v" "\<not> v_finalized v"
    and run: "finalize_version k sid nid now pid vid f d = (d', Inr b)"
  shows "b = (\<not> unchanged k p f d \<and> not_overtaken p v d) \<and>
    versions d' = update_where (version_at pid vid)
      (finalized_row now (semantic_fingerprint k f) (if unchanged k p f d then p_current p else None)) (versions d) \<and>
    processes d' = (if b then update_where (\<lambda>x. p_id x = pid) (promoted_row k now vid f) (processes d) else processes d) \<and>
    steps d' = (if unchanged k p f d then steps d
       else filter (\<lambda>s. s_version s \<noteq> vid) (steps d) @ map (new_step k sid pid vid) (pf_steps f))"
proof (cases "unchanged k p f d")
  case True
  from run [unfolded finalize_unchanged [OF assms(1-3) True]] obtain d1 n where
    sync: "sync_attachment_manifest (cd_repr k) nid now pid vid (pf_attachments f) d = (d1, Inr n)"
    and d': "d' = d1\<lparr>versions := update_where (version_at pid vid)
        (finalized_row now (semantic_fingerprint k f) (p_current p)) (versions d1)\<rparr>" "\<not> b"
    by (auto simp: run_simps mark_finalized_def) (auto simp: prog_simps split: prod.splits sum.splits)
  from sync_frame [OF sync] d' True show ?thesis by simp
next
  case False
  from apply_candidate_run [OF finalize_applies [OF assms False]] False show ?thesis by auto
qed

subsection \<open>The history of versions\<close>

text \<open>Every version belongs to a process of the table, and is equivalent to a version of that process only.\<close>

definition housed :: "db \<Rightarrow> bool" where
  "housed d \<longleftrightarrow> (\<forall>v \<in> set (versions d). v_process v \<in> p_id ` set (processes d) \<and>
     (\<forall>c. v_equivalent v = Some c \<longrightarrow> (\<exists>w \<in> set (versions d). v_id w = c \<and> v_process w = v_process v)))"

definition version_inv :: "db \<Rightarrow> bool" where
  "version_inv d \<longleftrightarrow> distinct (map p_id (processes d)) \<and> distinct (map v_id (versions d)) \<and>
     (\<forall>p \<in> set (processes d). \<forall>c. p_current p = Some c \<longrightarrow>
        (\<exists>v \<in> set (versions d). v_id v = c \<and> v_process v = p_id p \<and> v_finalized v)) \<and> housed d"

text \<open>A final version stays as it is and what is current only moves forward in time, as long as the
  process is there.\<close>

definition moves_on :: "db \<Rightarrow> db \<Rightarrow> bool" where
  "moves_on d d' \<longleftrightarrow>
     (\<forall>v \<in> set (versions d). v_finalized v \<longrightarrow> v_process v \<in> p_id ` set (processes d') \<longrightarrow> v \<in> set (versions d')) \<and>
     (\<forall>p \<in> set (processes d). p_id p \<in> p_id ` set (processes d') \<longrightarrow>
        (\<exists>p' \<in> set (processes d'). p_id p' = p_id p \<and> p_code p' = p_code p \<and>
        (\<forall>v \<in> set (versions d). p_current p = Some (v_id v) \<longrightarrow>
           (\<exists>v' \<in> set (versions d'). p_current p' = Some (v_id v') \<and> v_created v \<le> v_created v'))))"

lemma moves_on_refl: "moves_on d d"
  unfolding moves_on_def by blast

text \<open>A process of the first table that is in the last was there in between.\<close>

lemma moves_on_trans:
  assumes "moves_on d e" "moves_on e g" "housed d"
    and still: "\<And>i. i \<in> p_id ` set (processes d) \<Longrightarrow> i \<in> p_id ` set (processes g) \<Longrightarrow> i \<in> p_id ` set (processes e)"
  shows "moves_on d g"
  unfolding moves_on_def
proof (intro conjI ballI impI)
  show "v \<in> set (versions g)"
    if "v \<in> set (versions d)" "v_finalized v" "v_process v \<in> p_id ` set (processes g)" for v
    using that assms(1,2) still [of "v_process v"] assms(3) unfolding moves_on_def housed_def by blast
  fix p assume p: "p \<in> set (processes d)" "p_id p \<in> p_id ` set (processes g)"
  then have "p_id p \<in> p_id ` set (processes e)" using still by blast
  with p(1) obtain q where q: "q \<in> set (processes e)" "p_id q = p_id p" "p_code q = p_code p"
    and dq: "\<And>v. v \<in> set (versions d) \<Longrightarrow> p_current p = Some (v_id v) \<Longrightarrow>
       \<exists>v' \<in> set (versions e). p_current q = Some (v_id v') \<and> v_created v \<le> v_created v'"
    using assms(1) unfolding moves_on_def by blast
  from q(1,2) p(2) obtain r where r: "r \<in> set (processes g)" "p_id r = p_id q" "p_code r = p_code q"
    and qr: "\<And>v. v \<in> set (versions e) \<Longrightarrow> p_current q = Some (v_id v) \<Longrightarrow>
       \<exists>v' \<in> set (versions g). p_current r = Some (v_id v') \<and> v_created v \<le> v_created v'"
    using assms(2) unfolding moves_on_def by metis
  show "\<exists>r \<in> set (processes g). p_id r = p_id p \<and> p_code r = p_code p \<and>
      (\<forall>v \<in> set (versions d). p_current p = Some (v_id v) \<longrightarrow>
         (\<exists>v' \<in> set (versions g). p_current r = Some (v_id v') \<and> v_created v \<le> v_created v'))"
  proof (intro bexI [of _ r] conjI ballI impI)
    fix v assume "v \<in> set (versions d)" "p_current p = Some (v_id v)"
    from dq [OF this] obtain w where "w \<in> set (versions e)" "p_current q = Some (v_id w)" "v_created v \<le> v_created w"
      by blast
    with qr [of w] show "\<exists>v' \<in> set (versions g). p_current r = Some (v_id v') \<and> v_created v \<le> v_created v'"
      by (meson order_trans)
  qed (use q r in simp_all)
qed

definition same_versions :: "db \<Rightarrow> db \<Rightarrow> bool" where
  "same_versions d d' \<longleftrightarrow> processes d' = processes d \<and> versions d' = versions d"

interpretation same_versions: step_order same_versions
  by unfold_locales (auto simp: same_versions_def)

lemma fold_grant_same: "same_versions d (fold (\<lambda>x. grant (f x, pid)) xs d)"
proof (induction xs arbitrary: d)
  case (Cons x xs)
  from Cons [of "grant (f x, pid) d"] show ?case by (simp add: same_versions_def grant_def split: if_splits)
qed (simp add: same_versions_def)

lemma reconcile_same: "obeys same_versions (reconcile_version k now v)"
  unfolding reconcile_version_def set_trackings_def grant_tracking_request_tenant_def grant_trackings_def
  by (intro same_versions.resp_rules same_versions.resp_modify fold_grant_same)
     (simp add: same_versions_def)

lemma grant_access_same: "obeys same_versions (grant_process_access t pid)"
  unfolding grant_process_access_def
  by (intro same_versions.resp_rules same_versions.resp_modify) (simp add: same_versions_def grant_def)

lemma write_version_run:
  assumes "write_version k vid now pid r d = (d', Inr v)"
  shows "processes d' = processes d \<and> (case find (staged_slot pid (rs_source_request r)) (versions d) of
      None \<Rightarrow> v = new_version k vid now pid r \<and> versions d' = versions d @ [v]
    | Some w \<Rightarrow> v = restaged k r w \<and>
        versions d' = update_where (staged_slot pid (rs_source_request r)) (restaged k r) (versions d))"
proof -
  let ?old = "find (staged_slot pid (rs_source_request r)) (versions d)"
  let ?t = "case ?old of None \<Rightarrow> versions d @ [v]
    | Some w \<Rightarrow> update_where (staged_slot pid (rs_source_request r)) (restaged k r) (versions d)"
  have v: "v = (case ?old of None \<Rightarrow> new_version k vid now pid r | Some w \<Rightarrow> restaged k r w)"
    and run: "reconcile_version k now v (d\<lparr>versions := ?t\<rparr>) = (d', Inr ())"
    using assms by (auto simp: write_version_def prog_simps Let_def split: if_splits prod.splits sum.splits)
  from obeysD' [OF reconcile_same run] v show ?thesis
    by (auto simp: same_versions_def split: option.splits)
qed

definition touched_process :: "uuid \<Rightarrow> timestamp \<Rightarrow> process_row list \<Rightarrow> process_row list" where
  "touched_process pid now t = update_where (\<lambda>p. p_id p = pid) (\<lambda>p. p\<lparr>p_updated := now\<rparr>) t"

lemma stage_run:
  assumes "stage_version k npid nvid now code r tenant d = (d', Inr (pid, vid))"
  shows "\<exists>ps v. (case row_by p_code code (processes d) of
       None \<Rightarrow> pid = npid \<and> ps = processes d @ [new_process npid now code]
     | Some p \<Rightarrow> pid = p_id p \<and> ps = processes d) \<and> v_id v = vid \<and>
    (case find (staged_slot pid (rs_source_request r)) (versions d) of
       None \<Rightarrow> v = new_version k nvid now pid r \<and> versions d' = versions d @ [v]
     | Some w \<Rightarrow> v = restaged k r w \<and>
         versions d' = update_where (staged_slot pid (rs_source_request r)) (restaged k r) (versions d)) \<and>
    processes d' = (if v_finalized v then ps else touched_process pid now ps)"
proof -
  let ?g = "case tenant of None \<Rightarrow> ret () | Some t \<Rightarrow> then_do (grant_process_access t pid) (ret ())"
  from assms obtain d1 d2 d3 v where o: "open_process_row npid now code d = (d1, Inr pid)"
    and g: "?g d1 = (d2, Inr ())" and w: "write_version k nvid now pid r d2 = (d3, Inr v)" and vid: "v_id v = vid"
    and d': "(if v_finalized v then ret () else touch_process pid now) d3 = (d', Inr ())"
    by (auto simp: stage_version_def run_simps raise_def split: if_splits)
       (auto simp: bind_def then_do_def ret_def split: prod.splits sum.splits)
  have "obeys same_versions ?g" by (intro same_versions.resp_rules grant_access_same)
  from obeysD' [OF this g] have same: "processes d2 = processes d1" "versions d2 = versions d1"
    by (simp_all add: same_versions_def)
  from o have opened: "versions d1 = versions d" "case row_by p_code code (processes d) of
       None \<Rightarrow> pid = npid \<and> processes d1 = processes d @ [new_process npid now code]
     | Some p \<Rightarrow> pid = p_id p \<and> processes d1 = processes d"
    by (auto simp: open_process_row_def prog_simps split: option.splits)
  have "processes d' = (if v_finalized v then processes d3 else touched_process pid now (processes d3))"
    and "versions d' = versions d3"
    using d' by (auto simp: ret_def touch_process_def touched_process_def modify_def split: if_splits)
  with write_version_run [OF w] same opened vid show ?thesis
    by (intro exI [of _ "processes d1"] exI [of _ v]) (auto split: option.splits)
qed


lemma restaged_keeps [simp]:
  "v_id (restaged k r v) = v_id v" "v_process (restaged k r v) = v_process v"
  "v_created (restaged k r v) = v_created v" "v_finalized (restaged k r v) = v_finalized v"
  "v_equivalent (restaged k r v) = v_equivalent v"
  by (simp_all add: restaged_def)

lemma restaged_finalized: "v_finalized v \<Longrightarrow> restaged k r v = v"
  by (simp add: restaged_def)

lemma finalized_keeps [simp]:
  "v_id (finalized_row now fp e v) = v_id v" "v_process (finalized_row now fp e v) = v_process v"
  "v_created (finalized_row now fp e v) = v_created v" "v_finalized (finalized_row now fp e v)"
  "v_equivalent (finalized_row now fp e v) = e"
  by (simp_all add: finalized_row_def)

lemma promoted_keeps [simp]:
  "p_id (promoted_row k now vid f p) = p_id p" "p_code (promoted_row k now vid f p) = p_code p"
  "p_current (promoted_row k now vid f p) = Some vid"
  by (simp_all add: promoted_row_def)

lemma new_version_fields [simp]:
  "v_id (new_version k vid now pid r) = vid" "\<not> v_finalized (new_version k vid now pid r)"
  "v_process (new_version k vid now pid r) = pid" "v_equivalent (new_version k vid now pid r) = None"
  by (simp_all add: new_version_def)

interpretation restaged_upd: keyed_update v_id "restaged k r" for k r
  by unfold_locales simp

interpretation finalized_upd: keyed_update v_id "finalized_row now fp e" for now fp e
  by unfold_locales simp

interpretation promoted_upd: keyed_update p_id "promoted_row k now vid f" for k now vid f
  by unfold_locales simp

interpretation touched_upd: keyed_update p_id "\<lambda>p. p\<lparr>p_updated := now\<rparr>" for now
  by unfold_locales simp

text \<open>The versions survive with their process, their time and, once finalized, unchanged.\<close>

definition versions_survive :: "version_row list \<Rightarrow> version_row list \<Rightarrow> bool" where
  "versions_survive t t' \<longleftrightarrow> (\<forall>v \<in> set t. (v_finalized v \<longrightarrow> v \<in> set t') \<and>
     (\<exists>v' \<in> set t'. v_id v' = v_id v \<and> v_process v' = v_process v \<and> v_created v' = v_created v))"

lemma survive_append: "versions_survive t (t @ u)"
  by (auto simp: versions_survive_def)

lemma survive_update:
  assumes "\<And>v. v_id (f v) = v_id v" "\<And>v. v_process (f v) = v_process v" "\<And>v. v_created (f v) = v_created v"
    and "\<And>v. v \<in> set t \<Longrightarrow> p v \<Longrightarrow> v_finalized v \<Longrightarrow> f v = v"
  shows "versions_survive t (update_where p f t)"
  unfolding versions_survive_def
proof (intro ballI conjI impI)
  fix v assume v: "v \<in> set t"
  then have "(if p v then f v else v) \<in> set (update_where p f t)" by (auto simp: set_update_where)
  then show "\<exists>v' \<in> set (update_where p f t). v_id v' = v_id v \<and> v_process v' = v_process v \<and> v_created v' = v_created v"
    using assms(1-3) by (metis (full_types))
  show "v_finalized v \<Longrightarrow> v \<in> set (update_where p f t)"
    using v assms(4) [OF v] by (cases "p v") (force simp: set_update_where)+
qed

text \<open>What a step has to show of the versions it writes.\<close>

lemma housed_step:
  assumes "housed d" "versions_survive (versions d) (versions d')" "p_id ` set (processes d) \<subseteq> p_id ` set (processes d')"
    and new: "\<And>v. v \<in> set (versions d') \<Longrightarrow>
      v_process v \<in> p_id ` set (processes d') \<and> (v_equivalent v = None \<or>
        (\<exists>w \<in> set (versions d). v_equivalent v = Some (v_id w) \<and> v_process w = v_process v)) \<or>
      (\<exists>w \<in> set (versions d). v_process w = v_process v \<and> v_equivalent w = v_equivalent v)"
  shows "housed d'"
  unfolding housed_def
proof (intro ballI conjI allI impI)
  fix v assume v: "v \<in> set (versions d')"
  from new [OF this] assms(1,3) show "v_process v \<in> p_id ` set (processes d')"
    unfolding housed_def by (metis (no_types, lifting) subsetD)
  fix c assume c: "v_equivalent v = Some c"
  have "\<exists>w \<in> set (versions d). v_id w = c \<and> v_process w = v_process v"
    using new [OF v] c assms(1) unfolding housed_def by (metis option.distinct(1) option.inject)
  with assms(2) show "\<exists>w \<in> set (versions d'). v_id w = c \<and> v_process w = v_process v"
    unfolding versions_survive_def by metis
qed

text \<open>A step that leaves the current versions alone.\<close>

lemma quiet_step:
  assumes inv: "version_inv d" and surv: "versions_survive (versions d) (versions d')"
    and ids: "distinct (map p_id (processes d'))" "distinct (map v_id (versions d'))"
    and kept: "\<And>p. p \<in> set (processes d) \<Longrightarrow>
      \<exists>p' \<in> set (processes d'). p_id p' = p_id p \<and> p_code p' = p_code p \<and> p_current p' = p_current p"
    and origin: "\<And>p'. p' \<in> set (processes d') \<Longrightarrow> p_current p' = None \<or>
      (\<exists>p \<in> set (processes d). p_id p' = p_id p \<and> p_current p' = p_current p)"
    and house: "housed d'"
  shows "version_inv d' \<and> moves_on d d'"
proof
  show "version_inv d'"
    unfolding version_inv_def
  proof (intro conjI ballI allI impI ids house)
    fix p' c assume "p' \<in> set (processes d')" "p_current p' = Some c"
    then obtain p where "p \<in> set (processes d)" "p_id p' = p_id p" "p_current p = Some c" using origin by force
    then obtain v where "v \<in> set (versions d)" "v_id v = c" "v_process v = p_id p'" "v_finalized v"
      using inv unfolding version_inv_def by metis
    then show "\<exists>v \<in> set (versions d'). v_id v = c \<and> v_process v = p_id p' \<and> v_finalized v"
      using surv unfolding versions_survive_def by blast
  qed
  show "moves_on d d'"
    unfolding moves_on_def
  proof (intro conjI ballI impI)
    show "v \<in> set (versions d')" if "v \<in> set (versions d)" "v_finalized v" for v
      using that surv unfolding versions_survive_def by blast
    fix p assume p: "p \<in> set (processes d)"
    from kept [OF this] obtain p' where p': "p' \<in> set (processes d')" "p_id p' = p_id p" "p_code p' = p_code p"
      "p_current p' = p_current p" by blast
    have "\<exists>v' \<in> set (versions d'). p_current p' = Some (v_id v') \<and> v_created v \<le> v_created v'"
      if "v \<in> set (versions d)" "p_current p = Some (v_id v)" for v
      using that surv p'(4) unfolding versions_survive_def by (metis order_refl)
    with p' show "\<exists>p' \<in> set (processes d'). p_id p' = p_id p \<and> p_code p' = p_code p \<and>
        (\<forall>v \<in> set (versions d). p_current p = Some (v_id v) \<longrightarrow>
           (\<exists>v' \<in> set (versions d'). p_current p' = Some (v_id v') \<and> v_created v \<le> v_created v'))" by blast
  qed
qed

lemma stage_step:
  assumes inv: "version_inv d" and fresh: "npid \<notin> p_id ` set (processes d)" "nvid \<notin> v_id ` set (versions d)"
  shows "version_inv (fst (stage_version k npid nvid now code r tenant d)) \<and>
    moves_on d (fst (stage_version k npid nvid now code r tenant d))"
proof (cases "stage_version k npid nvid now code r tenant d")
  case (Pair d' res)
  show ?thesis
  proof (cases res)
    case (Inl e)
    with Pair have "d' = d" by (simp add: stage_version_def transaction_def split: prod.splits sum.splits)
    with inv Pair show ?thesis by (simp add: moves_on_refl)
  next
    case (Inr out)
    obtain pid vid where out: "out = (pid, vid)" by (cases out)
    from stage_run [OF Pair [unfolded Inr out]] obtain ps v where
      ps: "case row_by p_code code (processes d) of None \<Rightarrow> pid = npid \<and> ps = processes d @ [new_process npid now code]
         | Some p \<Rightarrow> pid = p_id p \<and> ps = processes d"
      and vs: "case find (staged_slot pid (rs_source_request r)) (versions d) of
         None \<Rightarrow> v = new_version k nvid now pid r \<and> versions d' = versions d @ [v]
       | Some w \<Rightarrow> v = restaged k r w \<and>
           versions d' = update_where (staged_slot pid (rs_source_request r)) (restaged k r) (versions d)"
      and pd: "processes d' = (if v_finalized v then ps else touched_process pid now ps)" by blast
    have ids: "distinct (map p_id (processes d))" "distinct (map v_id (versions d))"
      using inv by (simp_all add: version_inv_def)
    have surv: "versions_survive (versions d) (versions d')"
      using vs by (cases "find (staged_slot pid (rs_source_request r)) (versions d)")
        (auto intro: survive_append survive_update simp: restaged_finalized)
    have dv: "distinct (map v_id (versions d'))"
      using vs ids(2) fresh(2) by (cases "find (staged_slot pid (rs_source_request r)) (versions d)")
        (auto simp: restaged_upd.distinct_update)
    have dps: "distinct (map p_id ps)" "set (processes d) \<subseteq> set ps"
      "\<And>p. p \<in> set ps \<Longrightarrow> p \<in> set (processes d) \<or> p_current p = None"
      using ps ids(1) fresh(1) by (auto simp: new_process_def split: option.splits)
    have pids: "p_id ` set (processes d') = p_id ` set ps" using pd
      by (simp add: touched_process_def touched_upd.key_image)
    have "housed d'"
    proof (rule housed_step [OF _ surv])
      show "housed d" using inv by (simp add: version_inv_def)
      show "p_id ` set (processes d) \<subseteq> p_id ` set (processes d')" using pids dps(2) by auto
      show "v_process x \<in> p_id ` set (processes d') \<and> (v_equivalent x = None \<or>
          (\<exists>w \<in> set (versions d). v_equivalent x = Some (v_id w) \<and> v_process w = v_process x)) \<or>
        (\<exists>w \<in> set (versions d). v_process w = v_process x \<and> v_equivalent w = v_equivalent x)"
        if x: "x \<in> set (versions d')" for x
      proof (cases "find (staged_slot pid (rs_source_request r)) (versions d)")
        case None
        have "pid \<in> p_id ` set ps" using ps by (auto simp: new_process_def dest: row_by_Some split: option.splits)
        then show ?thesis using vs None x pids by auto
      next
        case (Some w)
        then show ?thesis using vs x by (fastforce simp: set_update_where)
      qed
    qed
    have "version_inv d' \<and> moves_on d d'"
    proof (rule quiet_step [OF inv surv _ dv])
      show "housed d'" by fact
      show "distinct (map p_id (processes d'))"
        using dps(1) pd by (simp add: touched_process_def touched_upd.distinct_update)
      show "\<exists>p' \<in> set (processes d'). p_id p' = p_id p \<and> p_code p' = p_code p \<and> p_current p' = p_current p"
        if p: "p \<in> set (processes d)" for p
      proof (cases "p_id p = pid \<and> \<not> v_finalized v")
        case True
        then have "p\<lparr>p_updated := now\<rparr> \<in> set (processes d')"
          using p dps(2) pd by (auto simp: touched_process_def set_update_where)
        then show ?thesis by (intro bexI) auto
      next
        case False
        then have "p \<in> set (processes d')"
          using p dps(2) pd by (auto simp: touched_process_def set_update_where)
        then show ?thesis by auto
      qed
      show "p_current p' = None \<or> (\<exists>p \<in> set (processes d). p_id p' = p_id p \<and> p_current p' = p_current p)"
        if "p' \<in> set (processes d')" for p'
      proof -
        from that pd obtain q where "q \<in> set ps" "p_id p' = p_id q" "p_current p' = p_current q"
          by (auto simp: touched_process_def set_update_where split: if_splits)
        with dps(3) [of q] show ?thesis by auto
      qed
    qed
    with Pair show ?thesis by simp
  qed
qed


lemma finalize_stable:
  assumes "finalize_version k sid nid now pid vid f d = (d', r)"
    and "\<not> (\<exists>p v b. row_by p_id pid (processes d) = Some p \<and> find (version_at pid vid) (versions d) = Some v \<and>
      \<not> v_finalized v \<and> r = Inr b)"
  shows "d' = d"
proof (cases r)
  case (Inl e)
  with assms(1) show ?thesis by (simp add: finalize_version_def transaction_def split: prod.splits sum.splits)
next
  case (Inr b)
  with assms show ?thesis
    by (auto simp: finalize_version_def run_simps raise_def ret_def split: option.splits if_splits)
qed

lemma finalize_step:
  assumes inv: "version_inv d"
  shows "version_inv (fst (finalize_version k sid nid now pid vid f d)) \<and>
    moves_on d (fst (finalize_version k sid nid now pid vid f d))"
proof -
  obtain d' res where run: "finalize_version k sid nid now pid vid f d = (d', res)"
    by (cases "finalize_version k sid nid now pid vid f d")
  show ?thesis
  proof (cases "\<exists>p v b. row_by p_id pid (processes d) = Some p \<and> find (version_at pid vid) (versions d) = Some v \<and>
      \<not> v_finalized v \<and> res = Inr b")
    case False
    from finalize_stable [OF run False] run inv show ?thesis by (simp add: moves_on_refl)
  next
    case True
    then obtain p v b where p: "row_by p_id pid (processes d) = Some p"
      and v: "find (version_at pid vid) (versions d) = Some v" "\<not> v_finalized v" and res: "res = Inr b" by blast
    let ?fin = "finalized_row now (semantic_fingerprint k f) (if unchanged k p f d then p_current p else None)"
    from finalize_run [OF p v run [unfolded res]]
    have b: "b = (\<not> unchanged k p f d \<and> not_overtaken p v d)"
      and vs: "versions d' = update_where (version_at pid vid) ?fin (versions d)"
      and ps: "processes d' = (if b then update_where (\<lambda>x. p_id x = pid) (promoted_row k now vid f) (processes d)
        else processes d)" by simp_all
    have ids: "distinct (map p_id (processes d))" "distinct (map v_id (versions d))"
      using inv by (simp_all add: version_inv_def)
    have v_in: "v \<in> set (versions d)" "v_id v = vid" "v_process v = pid"
      using v(1) by (auto simp: find_Some_iff version_at_def)
    have only_v: "w = v" if "w \<in> set (versions d)" "version_at pid vid w" for w
      using unique_key [OF ids(2) that(1) v_in(1)] that(2) v_in(2) by (simp add: version_at_def)
    have surv: "versions_survive (versions d) (versions d')"
      unfolding vs using only_v v(2) by (intro survive_update) auto
    have dv: "distinct (map v_id (versions d'))" unfolding vs by (simp add: finalized_upd.distinct_update ids)
    have dp: "distinct (map p_id (processes d'))" unfolding ps by (simp add: promoted_upd.distinct_update ids)
    have p_here: "p \<in> set (processes d)" "p_id p = pid" using row_by_Some [OF p] by simp_all
    have pids: "p_id ` set (processes d') = p_id ` set (processes d)"
      using ps by (simp add: promoted_upd.key_image)
    have house: "housed d'"
    proof (rule housed_step [OF _ surv])
      show "housed d" using inv by (simp add: version_inv_def)
      show "p_id ` set (processes d) \<subseteq> p_id ` set (processes d')" using pids by simp
      have eq: "\<exists>w \<in> set (versions d). v_id w = c \<and> v_process w = pid" if "p_current p = Some c" for c
        using inv that p_here unfolding version_inv_def by blast
      show "v_process x \<in> p_id ` set (processes d') \<and> (v_equivalent x = None \<or>
          (\<exists>w \<in> set (versions d). v_equivalent x = Some (v_id w) \<and> v_process w = v_process x)) \<or>
        (\<exists>w \<in> set (versions d). v_process w = v_process x \<and> v_equivalent w = v_equivalent x)"
        if "x \<in> set (versions d')" for x
      proof (cases "x \<in> set (versions d)")
        case False
        with that vs only_v have x: "x = ?fin v" by (auto simp: set_update_where)
        have "pid \<in> p_id ` set (processes d')" using p_here pids by auto
        with x eq v_in(3) show ?thesis by (cases "p_current p") fastforce+
      qed blast
    qed
    have "version_inv d' \<and> moves_on d d'"
    proof (cases b)
      case False
      with ps show ?thesis by (intro quiet_step [OF inv surv dp dv _ _ house]) auto
    next
      case True
      have fin: "?fin v \<in> set (versions d')" "v_id (?fin v) = vid" "v_finalized (?fin v)" "v_process (?fin v) = pid"
        "v_created (?fin v) = v_created v"
        using v_in by (auto simp: vs set_update_where version_at_def)
      have p_in: "p \<in> set (processes d)" "p_id p = pid" using row_by_Some [OF p] by simp_all
      have procs: "x' \<in> set (processes d') \<longleftrightarrow>
          (\<exists>x \<in> set (processes d). x' = (if p_id x = pid then promoted_row k now vid f x else x))" for x'
        by (simp only: ps True if_True update_where_def set_map image_iff)
      have "version_inv d'"
        unfolding version_inv_def
      proof (intro conjI ballI allI impI dp dv house)
        fix x' c assume "x' \<in> set (processes d')" and c: "p_current x' = Some c"
        then obtain x where x: "x \<in> set (processes d)" "x' = (if p_id x = pid then promoted_row k now vid f x else x)"
          using procs by blast
        show "\<exists>w \<in> set (versions d'). v_id w = c \<and> v_process w = p_id x' \<and> v_finalized w"
        proof (cases "p_id x = pid")
          case True
          with x(2) c fin show ?thesis by (intro bexI [of _ "?fin v"]) auto
        next
          case False
          with x c obtain w where "w \<in> set (versions d)" "v_id w = c" "v_process w = p_id x'" "v_finalized w"
            using inv unfolding version_inv_def by metis
          then show ?thesis using surv unfolding versions_survive_def by blast
        qed
      qed
      moreover have "moves_on d d'"
        unfolding moves_on_def
      proof (intro conjI ballI impI)
        show "w \<in> set (versions d')" if "w \<in> set (versions d)" "v_finalized w" for w
          using that surv unfolding versions_survive_def by blast
        fix x assume x: "x \<in> set (processes d)"
        let ?x = "if p_id x = pid then promoted_row k now vid f x else x"
        have "\<exists>w' \<in> set (versions d'). p_current ?x = Some (v_id w') \<and> v_created w \<le> v_created w'"
          if w: "w \<in> set (versions d)" "p_current x = Some (v_id w)" for w
        proof (cases "p_id x = pid")
          case True
          have "x = p" using unique_key [OF ids(1) x p_in(1)] True p_in(2) by simp
          moreover have "row_by v_id (v_id w) (versions d) = Some w" by (rule row_by_in [OF ids(2) w(1)])
          ultimately have "v_created w \<le> v_created v"
            using b \<open>b\<close> w(2) by (auto simp: not_overtaken_def is_later_def)
          with True fin show ?thesis by (intro bexI [of _ "?fin v"]) auto
        next
          case False
          with w surv show ?thesis unfolding versions_survive_def by (metis (full_types) order_refl)
        qed
        moreover have "?x \<in> set (processes d')" using procs x by blast
        ultimately show "\<exists>x' \<in> set (processes d'). p_id x' = p_id x \<and> p_code x' = p_code x \<and>
            (\<forall>w \<in> set (versions d). p_current x = Some (v_id w) \<longrightarrow>
               (\<exists>w' \<in> set (versions d'). p_current x' = Some (v_id w') \<and> v_created w \<le> v_created w'))"
          by (intro bexI [of _ ?x]) auto
      qed
      ultimately show ?thesis ..
    qed
    with run show ?thesis by simp
  qed
qed

text \<open>The expunge: what is left of the other processes is what was there.\<close>

lemma keep_unless_id: "(\<And>c. r = Some c \<Longrightarrow> c \<notin> set gone) \<Longrightarrow> keep_unless gone r = r"
  by (simp add: keep_unless_def split: option.split)

lemma delete_processes_exact:
  assumes "version_inv d"
  shows "processes (delete_processes ps d) = filter (\<lambda>p. p_id p \<notin> set ps) (processes d)"
    "versions (delete_processes ps d) = filter (\<lambda>v. v_process v \<notin> set ps) (versions d)"
proof -
  have ids: "distinct (map v_id (versions d))" using assms by (simp add: version_inv_def)
  have gone: "c \<notin> set (doomed_versions ps d)"
    if "w \<in> set (versions d)" "v_id w = c" "v_process w \<notin> set ps" for w c
    using that unique_key [OF ids] unfolding doomed_versions_def by (auto dest: unique_key [OF ids])
  have "keep_unless (doomed_versions ps d) (p_current p) = p_current p" if "p \<in> set (processes d)" "p_id p \<notin> set ps" for p
    using that assms gone unfolding version_inv_def by (intro keep_unless_id) metis
  moreover have "keep_unless (doomed_versions ps d) (v_equivalent v) = v_equivalent v"
    if "v \<in> set (versions d)" "v_process v \<notin> set ps" for v
    using that assms gone unfolding version_inv_def housed_def by (intro keep_unless_id) metis
  ultimately show "processes (delete_processes ps d) = filter (\<lambda>p. p_id p \<notin> set ps) (processes d)"
    "versions (delete_processes ps d) = filter (\<lambda>v. v_process v \<notin> set ps) (versions d)"
    by (auto simp: delete_processes_rows intro!: map_idI)
qed

lemma expunge_step:
  assumes inv: "version_inv d"
  shows "version_inv (fst (expurgar now days d)) \<and> moves_on d (fst (expurgar now days d)) \<and>
    p_id ` set (processes (fst (expurgar now days d))) \<subseteq> p_id ` set (processes d)"
  using expurgar_run [of now days d]
proof
  assume "fst (expurgar now days d) = d"
  with inv show ?thesis by (simp add: moves_on_refl)
next
  assume "\<exists>e. processes e = processes d \<and> versions e = versions d \<and>
     fst (expurgar now days d) = delete_processes (doomed_processes now days d) e"
  then obtain e where e: "processes e = processes d" "versions e = versions d"
    and run: "fst (expurgar now days d) = delete_processes (doomed_processes now days d) e" by blast
  let ?ps = "doomed_processes now days d"
  have "version_inv e" using inv e by (simp add: version_inv_def housed_def)
  from delete_processes_exact [OF this, of ?ps] e run
  have rows: "processes (fst (expurgar now days d)) = filter (\<lambda>p. p_id p \<notin> set ?ps) (processes d)"
    "versions (fst (expurgar now days d)) = filter (\<lambda>v. v_process v \<notin> set ?ps) (versions d)" by simp_all
  have ids: "distinct (map p_id (processes d))" "distinct (map v_id (versions d))"
    and cur: "\<And>p c. p \<in> set (processes d) \<Longrightarrow> p_current p = Some c \<Longrightarrow>
      \<exists>v \<in> set (versions d). v_id v = c \<and> v_process v = p_id p \<and> v_finalized v"
    and home: "\<And>v. v \<in> set (versions d) \<Longrightarrow> \<exists>p \<in> set (processes d). p_id p = v_process v"
    and equiv: "\<And>v c. v \<in> set (versions d) \<Longrightarrow> v_equivalent v = Some c \<Longrightarrow>
      \<exists>w \<in> set (versions d). v_id w = c \<and> v_process w = v_process v"
    using inv unfolding version_inv_def housed_def by (blast, blast, blast, fastforce, blast)
  have "housed (fst (expurgar now days d))" unfolding housed_def rows
  proof (intro ballI conjI allI impI)
    fix v assume v: "v \<in> set (filter (\<lambda>v. v_process v \<notin> set ?ps) (versions d))"
    then obtain p where "p \<in> set (processes d)" "p_id p = v_process v" using home [of v] by auto
    with v show "v_process v \<in> p_id ` set (filter (\<lambda>p. p_id p \<notin> set ?ps) (processes d))"
      by (intro image_eqI [of _ _ p]) simp_all
    fix c assume "v_equivalent v = Some c"
    with v equiv [of v c] show "\<exists>w \<in> set (filter (\<lambda>v. v_process v \<notin> set ?ps) (versions d)). v_id w = c \<and> v_process w = v_process v"
      by auto
  qed
  then have "version_inv (fst (expurgar now days d))" unfolding version_inv_def
  proof (intro conjI ballI allI impI)
    show "distinct (map p_id (processes (fst (expurgar now days d))))" "distinct (map v_id (versions (fst (expurgar now days d))))"
      using ids unfolding rows by (simp_all add: distinct_map_filter)
    fix p c assume "p \<in> set (processes (fst (expurgar now days d)))" "p_current p = Some c"
    with cur [of p c] show "\<exists>v \<in> set (versions (fst (expurgar now days d))). v_id v = c \<and> v_process v = p_id p \<and> v_finalized v"
      unfolding rows by auto
  qed
  moreover have "moves_on d (fst (expurgar now days d))"
    unfolding moves_on_def
  proof (intro conjI ballI impI)
    fix v assume "v \<in> set (versions d)" "v_process v \<in> p_id ` set (processes (fst (expurgar now days d)))"
    then show "v \<in> set (versions (fst (expurgar now days d)))" unfolding rows by auto
  next
    fix p assume p: "p \<in> set (processes d)" "p_id p \<in> p_id ` set (processes (fst (expurgar now days d)))"
    have "\<exists>w \<in> set (versions (fst (expurgar now days d))). p_current p = Some (v_id w) \<and> v_created v \<le> v_created w"
      if v: "v \<in> set (versions d)" "p_current p = Some (v_id v)" for v
    proof -
      from cur [OF p(1) v(2)] obtain w where w: "w \<in> set (versions d)" "v_id w = v_id v" "v_process w = p_id p" by blast
      with unique_key [OF ids(2) w(1) v(1)] have "v_process v = p_id p" by simp
      with v p(2) show ?thesis unfolding rows by (intro bexI [of _ v]) auto
    qed
    with p show "\<exists>p' \<in> set (processes (fst (expurgar now days d))). p_id p' = p_id p \<and> p_code p' = p_code p \<and>
        (\<forall>v \<in> set (versions d). p_current p = Some (v_id v) \<longrightarrow>
          (\<exists>v' \<in> set (versions (fst (expurgar now days d))). p_current p' = Some (v_id v') \<and> v_created v \<le> v_created v'))"
      by (intro bexI [of _ p]) (auto simp: rows)
  qed
  ultimately show ?thesis using rows by auto
qed

text \<open>
  Staging, finalization, the expunge and anything that leaves processes and versions alone, in any
  order. The second component holds the process ids ever drawn: a random id is never drawn again.
\<close>

inductive version_step :: "db \<times> uuid set \<Rightarrow> db \<times> uuid set \<Rightarrow> bool" where
  vs_stage: "npid \<notin> drawn \<Longrightarrow> nvid \<notin> v_id ` set (versions d) \<Longrightarrow>
     version_step (d, drawn) (fst (stage_version k npid nvid now code r tenant d), insert npid drawn)"
| vs_finalize: "version_step (d, drawn) (fst (finalize_version k sid nid now pid vid f d), drawn)"
| vs_expunge: "version_step (d, drawn) (fst (expurgar now days d), drawn)"
| vs_other: "same_versions d d' \<Longrightarrow> version_step (d, drawn) (d', drawn)"

text \<open>The tables with the ids drawn: no process appears under an id drawn before.\<close>

definition drawn_inv :: "db \<times> uuid set \<Rightarrow> bool" where
  "drawn_inv s \<longleftrightarrow> version_inv (fst s) \<and> p_id ` set (processes (fst s)) \<subseteq> snd s"

definition goes_on :: "db \<times> uuid set \<Rightarrow> db \<times> uuid set \<Rightarrow> bool" where
  "goes_on s s' \<longleftrightarrow> moves_on (fst s) (fst s') \<and> snd s \<subseteq> snd s' \<and>
     p_id ` set (processes (fst s')) \<inter> snd s \<subseteq> p_id ` set (processes (fst s))"

lemma goes_on_trans:
  assumes "goes_on s t" "goes_on t u" "drawn_inv s"
  shows "goes_on s u"
proof -
  have "moves_on (fst s) (fst u)"
    using assms unfolding goes_on_def drawn_inv_def version_inv_def
    by (intro moves_on_trans [of "fst s" "fst t" "fst u"]) blast+
  then show ?thesis using assms unfolding goes_on_def by blast
qed

lemma stage_ids:
  "p_id ` set (processes (fst (stage_version k npid nvid now code r tenant d))) \<subseteq> insert npid (p_id ` set (processes d))"
proof (cases "stage_version k npid nvid now code r tenant d")
  case (Pair d' res)
  show ?thesis
  proof (cases res)
    case (Inl e)
    with Pair show ?thesis by (auto simp: stage_version_def transaction_def split: prod.splits sum.splits)
  next
    case (Inr out)
    obtain pid vid where out: "out = (pid, vid)" by (cases out)
    from stage_run [OF Pair [unfolded Inr out]] obtain ps and v :: version_row where
      ps: "case row_by p_code code (processes d) of None \<Rightarrow> pid = npid \<and> ps = processes d @ [new_process npid now code]
         | Some p \<Rightarrow> pid = p_id p \<and> ps = processes d"
      and pd: "processes d' = (if v_finalized v then ps else touched_process pid now ps)" by blast
    have "p_id ` set ps \<subseteq> insert npid (p_id ` set (processes d))"
      using ps by (auto simp: new_process_def split: option.splits)
    with pd Pair show ?thesis by (simp add: touched_process_def touched_upd.key_image)
  qed
qed

lemma finalize_ids:
  "p_id ` set (processes (fst (finalize_version k sid nid now pid vid f d))) = p_id ` set (processes d)"
proof (cases "finalize_version k sid nid now pid vid f d")
  case (Pair d' res)
  show ?thesis
  proof (cases "\<exists>p v b. row_by p_id pid (processes d) = Some p \<and> find (version_at pid vid) (versions d) = Some v \<and>
      \<not> v_finalized v \<and> res = Inr b")
    case False
    with finalize_stable [OF Pair] Pair show ?thesis by simp
  next
    case True
    then obtain p v b where found: "row_by p_id pid (processes d) = Some p"
      "find (version_at pid vid) (versions d) = Some v" "\<not> v_finalized v" "res = Inr b" by blast
    from finalize_run [OF found(1-3) Pair [unfolded found(4)]]
    have "processes d' = (if b then update_where (\<lambda>x. p_id x = pid) (promoted_row k now vid f) (processes d)
      else processes d)" by simp
    with Pair show ?thesis by (simp add: promoted_upd.key_image)
  qed
qed

lemma version_step_keeps:
  assumes "version_step s t" "drawn_inv s"
  shows "drawn_inv t \<and> goes_on s t"
  using assms
proof (cases rule: version_step.cases)
  case (vs_stage npid drawn nvid d k now code r tenant)
  then have "version_inv d" "npid \<notin> p_id ` set (processes d)" using assms(2) by (auto simp: drawn_inv_def)
  from stage_step [OF this vs_stage(4), of k now code r tenant] stage_ids [of k npid nvid now code r tenant d] vs_stage assms(2)
  show ?thesis unfolding drawn_inv_def goes_on_def by simp blast
next
  case (vs_finalize d drawn k sid nid now pid vid f)
  with finalize_step [of d k sid nid now pid vid f] finalize_ids [of k sid nid now pid vid f d] assms(2)
  show ?thesis by (simp add: drawn_inv_def goes_on_def)
next
  case (vs_expunge d drawn now days)
  with expunge_step [of d now days] assms(2) show ?thesis unfolding drawn_inv_def goes_on_def by simp blast
next
  case (vs_other d d' drawn)
  with assms(2) moves_on_refl [of d] show ?thesis
    by (auto simp: same_versions_def version_inv_def housed_def drawn_inv_def goes_on_def moves_on_def)
qed

lemma version_run_keeps:
  "version_step\<^sup>*\<^sup>* s t \<Longrightarrow> drawn_inv s \<Longrightarrow> drawn_inv t \<and> goes_on s t"
proof (induction rule: rtranclp_induct)
  case base
  then show ?case by (simp add: goes_on_def moves_on_refl drawn_inv_def)
next
  case (step t u)
  with version_step_keeps [OF step.hyps(2)] show ?case by (blast intro: goes_on_trans)
qed


subsection \<open>The stored content of a fresh version\<close>

text \<open>Items as \<open>_safe_attachments\<close> makes them: trimmed texts, an instant, one item per id.\<close>

definition clean_text :: "json \<Rightarrow> bool" where
  "clean_text v = (case v of JNull \<Rightarrow> True | JStr s \<Rightarrow> s \<noteq> [] \<and> strip s = s | _ \<Rightarrow> False)"

definition clean_item :: "manifest_input \<Rightarrow> bool" where
  "clean_item a \<longleftrightarrow> mi_id a \<noteq> JNull \<and> clean_text (mi_id a) \<and> clean_text (mi_name a) \<and>
     clean_text (mi_status a) \<and> (case mi_status a of JStr s \<Rightarrow> lower s = s | _ \<Rightarrow> True) \<and> instant (mi_date a)"

fun text_option :: "json \<Rightarrow> string option" where
  "text_option (JStr s) = Some s"
| "text_option _ = None"

fun source_id :: "manifest_input \<Rightarrow> string" where
  "source_id a = (case mi_id a of JStr s \<Rightarrow> s | _ \<Rightarrow> [])"

definition item_values :: "manifest_input \<Rightarrow> string \<times> string option \<times> timestamp option \<times> string option" where
  "item_values a = (source_id a, text_option (mi_name a), instant_of (mi_date a), text_option (mi_status a))"

lemma clean_text_cases:
  assumes "clean_text v"
  obtains "v = JNull" | s where "v = JStr s" "s \<noteq> []" "strip s = s"
  using assms by (cases v) (auto simp: clean_text_def)

lemma clean_text_back: "clean_text v \<Longrightarrow> optional_text (text_option v) = v"
  by (erule clean_text_cases) (simp_all add: optional_text_def)

lemma instant_back: "instant v \<Longrightarrow> map_option At (instant_of v) = v"
  by (cases v rule: instant_of.cases) (auto simp: instant_def)

lemma clean_item_id:
  assumes "clean_item a"
  obtains s where "mi_id a = JStr s" "s \<noteq> []" "strip s = s"
  using assms unfolding clean_item_def by (auto elim: clean_text_cases)

lemma clean_name:
  assumes "clean_text v"
  shows "(if v = JNull then None else nonempty (strip (py_str rp v))) = text_option v"
  using assms by (auto simp: nonempty_def elim!: clean_text_cases)

lemma clean_status:
  assumes "clean_text v" "case v of JStr s \<Rightarrow> lower s = s | _ \<Rightarrow> True"
  shows "(if v = JNull then None else nonempty (lower (strip (py_str rp v)))) = text_option v"
  using assms by (auto simp: nonempty_def elim!: clean_text_cases)

lemma clean_manifest_item:
  assumes "clean_item a"
  shows "manifest_item rp a = Inr (item_values a)"
proof -
  from clean_item_id [OF assms] obtain s where s: "mi_id a = JStr s" "s \<noteq> []" "strip s = s" .
  from assms have c: "clean_text (mi_name a)" "clean_text (mi_status a)" "case mi_status a of JStr s \<Rightarrow> lower s = s | _ \<Rightarrow> True"
    "instant (mi_date a)" by (simp_all add: clean_item_def)
  from c(4) show ?thesis
    unfolding manifest_item_def item_values_def clean_name [OF c(1)] clean_status [OF c(2,3)]
    using s by (cases "mi_date a" rule: instant_of.cases) (simp_all add: py_or_def instant_def Let_def)
qed

lemma clean_manifest:
  assumes "list_all clean_item as" "distinct (map source_id as)" "set (map source_id as) \<inter> set seen = {}"
  shows "normalized_manifest rp seen as = Inr (map item_values as)"
  using assms
proof (induction as arbitrary: seen)
  case (Cons a as)
  then have "fst (item_values a) \<notin> set seen" "source_id a = fst (item_values a)" by (auto simp: item_values_def)
  moreover have "normalized_manifest rp (fst (item_values a) # seen) as = Inr (map item_values as)"
    using Cons.prems calculation(2) by (intro Cons.IH) auto
  ultimately show ?case using Cons.prems by (simp add: clean_manifest_item)
qed simp

definition fresh_attachment ::
  "(string \<Rightarrow> uuid) \<Rightarrow> timestamp \<Rightarrow> uuid \<Rightarrow> uuid \<Rightarrow> manifest_input \<Rightarrow> attachment_row" where
  "fresh_attachment nid now pid vid a = (new_attachment (nid (source_id a)) now pid vid (source_id a))
     \<lparr>at_name := text_option (mi_name a), at_date := instant_of (mi_date a),
      at_provider_status := text_option (mi_status a)\<rparr>"

lemma fresh_items_run:
  assumes "version_of_process pid vid d" "distinct (map source_id as)"
    and "\<forall>x \<in> set (attachments d). at_version x = vid \<longrightarrow> at_source x \<notin> set (map source_id as)"
  shows "for_each (sync_item nid now pid vid) (map item_values as) d =
    (d\<lparr>attachments := attachments d @ map (fresh_attachment nid now pid vid) as\<rparr>, Inr ())"
  using assms
proof (induction as arbitrary: d)
  case Nil
  then show ?case by (simp add: ret_def)
next
  case (Cons a as)
  let ?d = "d\<lparr>attachments := attachments d @ [fresh_attachment nid now pid vid a]\<rparr>"
  have "find (in_slot vid (source_id a)) (attachments d) = None"
    using Cons.prems(3) by (auto simp: find_None_iff in_slot_def simp del: source_id.simps)
  then have "sync_item nid now pid vid (item_values a) d = (?d, Inr ())"
    using Cons.prems(1)
    by (simp add: sync_item_def upsert_attachment_def item_values_def fresh_attachment_def prog_simps del: source_id.simps)
  moreover have "for_each (sync_item nid now pid vid) (map item_values as) ?d =
      (?d\<lparr>attachments := attachments ?d @ map (fresh_attachment nid now pid vid) as\<rparr>, Inr ())"
    using Cons.prems
    by (intro Cons.IH) (auto simp: version_of_process_def fresh_attachment_def new_attachment_def simp del: source_id.simps)
  ultimately show ?case by (simp add: then_do_def bind_def del: source_id.simps)
qed

lemma fresh_sync_run:
  assumes "list_all clean_item as" "distinct (map source_id as)" "version_of_process pid vid d"
    and "\<forall>x \<in> set (attachments d). at_version x \<noteq> vid"
  shows "sync_attachment_manifest rp nid now pid vid as d =
    (d\<lparr>attachments := attachments d @ map (fresh_attachment nid now pid vid) as\<rparr>, Inr (length as))"
proof -
  have "normalized_manifest rp [] as = Inr (map item_values as)" using assms(1,2) by (simp add: clean_manifest)
  moreover have "for_each (sync_item nid now pid vid) (map item_values as) d =
    (d\<lparr>attachments := attachments d @ map (fresh_attachment nid now pid vid) as\<rparr>, Inr ())"
    using assms(2-4) by (intro fresh_items_run) auto
  ultimately show ?thesis
    by (simp add: sync_attachment_manifest_def transaction_def then_do_def bind_def ret_def)
qed


subsection \<open>Documents up to the order of keys\<close>

lemma inj_map_ord: "map ord a = map ord b \<longleftrightarrow> a = (b :: string)"
proof
  show "a = b" if "map ord a = map ord b"
    using that by (metis list.inj_map_strong of_char_eq_iff)
qed simp

lemma map_of_filter: "map_of kvs key = map_option snd (find (\<lambda>kv. fst kv = key) kvs)"
  by (induction kvs) auto

lemma find_filter: "find P xs = (case filter P xs of [] \<Rightarrow> None | x # _ \<Rightarrow> Some x)"
  by (induction xs) auto

lemma sort_const: "(\<And>x. x \<in> set xs \<Longrightarrow> f x = c) \<Longrightarrow> sort_key f xs = xs"
  by (rule sort_key_id_if_sorted) (simp add: sorted_wrt_map sorted_wrt_iff_nth_less)

lemma map_of_sort_keys:
  "map_of (sort_key (\<lambda>kv. map ord (fst kv)) kvs) key = map_of (kvs :: (string \<times> json) list) key"
proof -
  let ?P = "\<lambda>kv :: string \<times> json. fst kv = key"
  have "filter ?P (sort_key (\<lambda>kv. map ord (fst kv)) kvs) = filter ?P kvs"
    unfolding filter_sort by (rule sort_const) simp
  then show ?thesis by (simp add: map_of_filter find_filter)
qed

lemma sort_keys_obj_get:
  assumes "sort_keys (JObj a) = JObj c"
  shows "obj_get c key = sort_keys (obj_get a key)"
proof -
  have "c = sort_key (\<lambda>kv. map ord (fst kv)) (map (\<lambda>kv. (fst kv, sort_keys (snd kv))) a)" using assms by simp
  then have "map_of c key = map_of (map (\<lambda>kv. (fst kv, sort_keys (snd kv))) a) key"
    using map_of_sort_keys by simp
  also have "\<dots> = map_option sort_keys (map_of a key)" by (induction a) auto
  finally show ?thesis by (simp add: obj_get_def split: option.split)
qed

text \<open>Two values that print the same canonical text.\<close>

definition same_doc :: "json \<Rightarrow> json \<Rightarrow> bool" where
  "same_doc a b \<longleftrightarrow> sort_keys a = sort_keys b"

lemma same_doc_refl [simp]: "same_doc a a"
  by (simp add: same_doc_def)

lemma same_doc_truthy: "same_doc a b \<Longrightarrow> truthy a = truthy b"
proof -
  have "truthy (sort_keys v) = truthy v" for v
  proof (cases v)
    case (JObj kvs)
    then show ?thesis by (simp flip: length_greater_0_conv)
  qed simp_all
  then show "same_doc a b \<Longrightarrow> truthy a = truthy b" unfolding same_doc_def by metis
qed

lemma same_doc_or: "same_doc a b \<Longrightarrow> same_doc (py_or a c) (py_or b c)"
  using same_doc_truthy [of a b] by (simp add: py_or_def)

lemma same_doc_get:
  assumes "same_doc a b"
  shows "same_doc (obj_get (as_obj a) key) (obj_get (as_obj b) key)"
proof (cases a)
  case (JObj x)
  with assms obtain y where b: "b = JObj y" by (cases b) (simp_all add: same_doc_def)
  obtain c where c: "sort_keys (JObj x) = JObj c" by simp
  with assms JObj b have "sort_keys (JObj y) = JObj c" by (simp add: same_doc_def)
  from sort_keys_obj_get [OF c, of key] sort_keys_obj_get [OF this, of key] JObj b
  show ?thesis by (simp add: same_doc_def)
qed (use assms in \<open>cases b; simp add: same_doc_def\<close>)+

lemma same_doc_obj:
  assumes "list_all2 (\<lambda>x y. fst x = fst y \<and> same_doc (snd x) (snd y)) a b"
  shows "same_doc (JObj a) (JObj b)"
proof -
  have "map (\<lambda>kv. (fst kv, sort_keys (snd kv))) a = map (\<lambda>kv. (fst kv, sort_keys (snd kv))) b"
    using assms by (induction rule: list_all2_induct) (auto simp: same_doc_def)
  then show ?thesis by (simp add: same_doc_def)
qed

lemma same_doc_arr: "list_all2 same_doc a b \<Longrightarrow> same_doc (JArr a) (JArr b)"
  by (induction rule: list_all2_induct) (auto simp: same_doc_def)


subsection \<open>The current fingerprint after a promotion\<close>

definition in_order :: "codec \<Rightarrow> manifest_input list \<Rightarrow> manifest_input list" where
  "in_order k as = sort_key (\<lambda>a. cd_collate k (source_id a)) as"

text \<open>The values a finalization writes into \<open>jsonb\<close> columns.\<close>

definition written :: "promotable \<Rightarrow> json list" where
  "written f = [pf_header f, JArr (pf_parties f), JArr (pf_representatives f), JArr (pf_subjects f)] @
     map (\<lambda>s. py_or (si_metadata s) (JObj [])) (pf_steps f)"

text \<open>Fields as \<open>extract_promotable_fields\<close> makes them, which the database keeps up to key order.\<close>

definition storable :: "codec \<Rightarrow> promotable \<Rightarrow> bool" where
  "storable k f \<longleftrightarrow> is_obj (pf_header f) \<and> sorted (map si_number (pf_steps f)) \<and>
     list_all clean_item (pf_attachments f) \<and> distinct (map source_id (pf_attachments f)) \<and>
     list_all (\<lambda>v. same_doc (cd_store k v) v) (written f)"

lemma as_obj_or: "as_obj (py_or m (JObj [])) = as_obj m"
  by (cases m) (auto simp: py_or_def)

lemma stored_step_same:
  assumes "same_doc (cd_store k (py_or (si_metadata s) (JObj []))) (py_or (si_metadata s) (JObj []))" "step_ok s"
  shows "same_doc (step_semantics k (stored_step (new_step k sid pid vid s))) (step_semantics k s)"
proof -
  let ?m = "cd_store k (py_or (si_metadata s) (JObj []))"
  have get: "same_doc (obj_get (as_obj ?m) key) (obj_get (as_obj (si_metadata s)) key)" for key
    using same_doc_get [OF assms(1), of key] by (simp only: as_obj_or)
  have date: "datetime_value k (map_option At (instant_of (si_occurred s))) = datetime_value k (si_occurred s)"
    using assms(2) by (cases "si_occurred s" rule: instant_of.cases) (auto simp: step_ok_def instant_def)
  have body: "text_or_empty (cd_repr k) (JStr t) = t" for t by (simp add: text_or_empty_def py_or_def)
  show ?thesis
    unfolding step_semantics_def Let_def
    by (rule same_doc_obj) (simp add: stored_step_def new_step_def date body get same_doc_or)
qed

lemma stored_item_same:
  assumes "clean_item a"
  shows "attachment_semantics k (stored_item (fresh_attachment nid now pid vid a)) = attachment_semantics k a"
proof -
  from clean_item_id [OF assms] obtain s where s: "mi_id a = JStr s" .
  from assms have "clean_text (mi_name a)" "clean_text (mi_status a)" "instant (mi_date a)" by (simp_all add: clean_item_def)
  then show ?thesis
    by (simp add: attachment_semantics_def stored_item_def fresh_attachment_def new_attachment_def s clean_text_back instant_back)
qed

lemma sort_map: "sort_key f (map g xs) = map g (sort_key (f \<circ> g) xs)"
proof -
  have "map g (insort_key (f \<circ> g) x ys) = insort_key f (g x) (map g ys)" for x ys
    by (induction ys) auto
  then show ?thesis by (induction xs) simp_all
qed

lemma fresh_attachments_of:
  assumes "attachments d = rows @ map (fresh_attachment nid now pid vid) as" "\<forall>x \<in> set rows. at_version x \<noteq> vid"
  shows "attachments_of k pid vid d = map (fresh_attachment nid now pid vid) (in_order k as)"
proof -
  have "filter (\<lambda>a. at_process a = pid \<and> at_version a = vid) rows = []"
    using assms(2) by (auto simp: filter_empty_conv)
  moreover have "filter (\<lambda>a. at_process a = pid \<and> at_version a = vid) (map (fresh_attachment nid now pid vid) as) =
      map (fresh_attachment nid now pid vid) as"
    by (auto simp: filter_id_conv fresh_attachment_def new_attachment_def)
  ultimately have "attachments_of k pid vid d =
      sort_key (\<lambda>a. cd_collate k (at_source a)) (map (fresh_attachment nid now pid vid) as)"
    by (simp add: attachments_of_def assms(1))
  also have "\<dots> = map (fresh_attachment nid now pid vid) (in_order k as)"
    by (simp add: sort_map in_order_def o_def fresh_attachment_def new_attachment_def)
  finally show ?thesis .
qed

lemma fresh_steps_of:
  assumes "steps d = filter (\<lambda>s. s_version s \<noteq> vid) rows @ map (new_step k sid pid vid) ss"
    and "sorted (map si_number ss)"
  shows "steps_of pid vid d = map (new_step k sid pid vid) ss"
proof -
  have "filter (\<lambda>s. s_process s = pid \<and> s_version s = vid) (filter (\<lambda>s. s_version s \<noteq> vid) rows) = []"
    by (simp add: filter_empty_conv)
  moreover have "filter (\<lambda>s. s_process s = pid \<and> s_version s = vid) (map (new_step k sid pid vid) ss) =
      map (new_step k sid pid vid) ss"
    by (auto simp: filter_id_conv new_step_def)
  moreover have "map s_number (map (new_step k sid pid vid) ss) = map si_number ss"
    by (simp add: new_step_def)
  ultimately show ?thesis
    unfolding steps_of_def assms(1) filter_append by (simp add: sort_key_id_if_sorted assms(2) del: map_map)
qed

text \<open>What the database holds of a stored object or list decodes to a value of the same text.\<close>

lemma decode_stored_obj:
  assumes "same_doc w v" "is_obj v"
  shows "\<exists>m. decode_json_object parse label w = Inr m \<and> dict_json k m = w"
proof -
  from assms obtain c where w: "w = JObj c" by (cases v; cases w) (simp_all add: same_doc_def)
  then have "decode_json_object parse label w = Inr (map (\<lambda>(a, v). (JStr a, v)) c)"
    by (simp add: decode_json_object_def decode_json_value_def py_dict_def)
  moreover have "dict_json k (map (\<lambda>(a, v). (JStr a, v)) c) = w" by (simp add: w dict_json_def o_def split_def)
  ultimately show ?thesis by blast
qed

lemma decode_stored_list:
  assumes "same_doc w (JArr xs)"
  shows "\<exists>ys. decode_json_list parse label w = Inr ys \<and> w = JArr ys"
  using assms by (cases w) (simp_all add: same_doc_def decode_json_list_def decode_json_value_def)


lemma apply_candidate_content:
  assumes run: "apply_candidate k sid nid now pid vid f promote d = (d', Inr b)"
    and "list_all clean_item (pf_attachments f)" "distinct (map source_id (pf_attachments f))"
    and "version_of_process pid vid d" "\<forall>x \<in> set (attachments d). at_version x \<noteq> vid"
  shows "list_all step_ok (pf_steps f) \<and> distinct (map si_number (pf_steps f)) \<and>
    (promote \<longrightarrow> text_value (pf_court f) \<and> text_value (pf_class f) \<and> int4 (pf_secrecy f)) \<and>
    attachments d' = attachments d @ map (fresh_attachment nid now pid vid) (pf_attachments f)"
proof -
  let ?d = "(delete_steps vid d)\<lparr>steps := steps (delete_steps vid d) @ map (new_step k sid pid vid) (pf_steps f)\<rparr>"
  have "sync_attachment_manifest (cd_repr k) nid now pid vid (pf_attachments f) ?d =
      (?d\<lparr>attachments := attachments ?d @ map (fresh_attachment nid now pid vid) (pf_attachments f)\<rparr>,
       Inr (length (pf_attachments f)))"
    using assms(2-5) by (intro fresh_sync_run) (simp_all add: delete_steps_def Let_def version_of_process_def)
  with run show ?thesis
    by (auto simp: apply_candidate_def insert_steps_def promote_process_def mark_finalized_def prog_simps delete_steps_def
        Let_def split: if_splits)
qed

lemma promoted_fingerprint:
  assumes inv: "version_inv d" and p: "row_by p_id pid (processes d) = Some p"
    and v: "find (version_at pid vid) (versions d) = Some v" "\<not> v_finalized v"
    and run: "finalize_version k sid nid now pid vid f d = (d', Inr True)"
    and f: "storable k f" and fresh: "\<forall>x \<in> set (attachments d). at_version x \<noteq> vid"
  shows "current_semantic_fingerprint k pid vid d' =
      Inr (Some (semantic_fingerprint k (f\<lparr>pf_attachments := in_order k (pf_attachments f)\<rparr>)))"
    and "row_by p_id pid (processes d') = Some (promoted_row k now vid f p)"
proof -
  let ?p = "promoted_row k now vid f p"
  from finalize_run [OF p v run] have un: "\<not> unchanged k p f d"
    and ps: "processes d' = update_where (\<lambda>x. p_id x = pid) (promoted_row k now vid f) (processes d)"
    and ss: "steps d' = filter (\<lambda>s. s_version s \<noteq> vid) (steps d) @ map (new_step k sid pid vid) (pf_steps f)"
    by auto
  have "version_of_process pid vid d" using v(1) by (auto simp: find_Some_iff version_at_def version_of_process_def)
  from apply_candidate_content [OF finalize_applies [OF p v run un] _ _ this fresh] f
  have ok: "list_all step_ok (pf_steps f)"
    and as: "attachments d' = attachments d @ map (fresh_attachment nid now pid vid) (pf_attachments f)"
    by (simp_all add: storable_def)
  show row: "row_by p_id pid (processes d') = Some ?p"
    unfolding ps promoted_upd.row_by_update p using row_by_Some [OF p] by simp
  have "distinct (map p_id (processes d'))"
    unfolding ps promoted_upd.distinct_update using inv by (simp add: version_inv_def)
  then have found: "find (\<lambda>x. p_id x = pid \<and> p_current x = Some vid) (processes d') = Some ?p"
    using row_by_Some [OF row] by (intro find_unique) (auto dest: unique_key)
  have same: "same_doc (cd_store k x) x" if "x \<in> set (written f)" for x
    using f that by (auto simp: storable_def list_all_iff)
  from decode_stored_obj [OF same] f obtain h where
    h: "decode_json_object (cd_parse k) ''process header'' (p_header ?p) = Inr h" "dict_json k h = cd_store k (pf_header f)"
    by (fastforce simp: written_def promoted_row_def storable_def)
  have lists: "\<exists>ys. decode_json_list (cd_parse k) label (cd_store k (JArr xs)) = Inr ys \<and> cd_store k (JArr xs) = JArr ys"
    if "JArr xs \<in> set (written f)" for xs label
    by (rule decode_stored_list [OF same [OF that]])
  obtain a where a: "decode_json_list (cd_parse k) ''process parties'' (p_parties ?p) = Inr a" "cd_store k (JArr (pf_parties f)) = JArr a"
    using lists [of "pf_parties f" "''process parties''"] by (auto simp: promoted_row_def written_def)
  obtain b where b: "decode_json_list (cd_parse k) ''process representatives'' (p_representatives ?p) = Inr b"
      "cd_store k (JArr (pf_representatives f)) = JArr b"
    using lists [of "pf_representatives f" "''process representatives''"] by (auto simp: promoted_row_def written_def)
  obtain c where c: "decode_json_list (cd_parse k) ''process subjects'' (p_subjects ?p) = Inr c" "cd_store k (JArr (pf_subjects f)) = JArr c"
    using lists [of "pf_subjects f" "''process subjects''"] by (auto simp: promoted_row_def written_def)
  let ?g = "\<lparr>pf_header = dict_json k h, pf_parties = a, pf_representatives = b, pf_subjects = c,
    pf_steps = map stored_step (steps_of pid vid d'), pf_attachments = map stored_item (attachments_of k pid vid d'),
    pf_court = p_court ?p, pf_class = p_class ?p, pf_secrecy = p_secrecy ?p\<rparr>"
  have current: "current_semantic_fingerprint k pid vid d' = Inr (Some (semantic_fingerprint k ?g))"
    by (simp add: current_semantic_fingerprint_def found h(1) a(1) b(1) c(1))
  have stored: "same_doc (JArr a) (JArr (pf_parties f))" "same_doc (JArr b) (JArr (pf_representatives f))"
    "same_doc (JArr c) (JArr (pf_subjects f))" "same_doc (dict_json k h) (pf_header f)"
    using same a(2) b(2) c(2) h(2) unfolding written_def by (metis list.set_intros Un_iff append_Cons set_append)+
  have "same_doc (step_semantics k (stored_step (new_step k sid pid vid s))) (step_semantics k s)"
    if "s \<in> set (pf_steps f)" for s
    using that ok same [of "py_or (si_metadata s) (JObj [])"]
    by (intro stored_step_same) (auto simp: written_def list_all_iff)
  then have steps: "same_doc (JArr (map (step_semantics k) (pf_steps ?g))) (JArr (map (step_semantics k) (pf_steps f)))"
    using f by (intro same_doc_arr) (simp add: fresh_steps_of [OF ss] storable_def list_all2_conv_all_nth)
  have "map (attachment_semantics k) (pf_attachments ?g) = map (attachment_semantics k) (in_order k (pf_attachments f))"
    using f by (simp add: fresh_attachments_of [OF as fresh] stored_item_same storable_def list_all_iff in_order_def)
  with stored steps have "same_doc (semantic_document k ?g)
      (semantic_document k (f\<lparr>pf_attachments := in_order k (pf_attachments f)\<rparr>))"
    unfolding semantic_document_def by (intro same_doc_obj) (simp add: promoted_row_def)
  with current show "current_semantic_fingerprint k pid vid d' =
      Inr (Some (semantic_fingerprint k (f\<lparr>pf_attachments := in_order k (pf_attachments f)\<rparr>)))"
    by (simp add: semantic_fingerprint_def same_doc_def)
qed


lemma apply_candidate_succeeds:
  assumes "list_all step_ok (pf_steps f)" "distinct (map si_number (pf_steps f))"
    and "text_value (pf_court f)" "text_value (pf_class f)" "int4 (pf_secrecy f)"
    and "list_all clean_item (pf_attachments f)" "distinct (map source_id (pf_attachments f))"
    and "version_of_process pid vid d" "\<forall>x \<in> set (attachments d). at_version x \<noteq> vid"
  shows "\<exists>d'. apply_candidate k sid nid now pid vid f promote d = (d', Inr promote)"
proof -
  let ?d = "(delete_steps vid d)\<lparr>steps := steps (delete_steps vid d) @ map (new_step k sid pid vid) (pf_steps f)\<rparr>"
  have "sync_attachment_manifest (cd_repr k) nid now pid vid (pf_attachments f) ?d =
      (?d\<lparr>attachments := attachments ?d @ map (fresh_attachment nid now pid vid) (pf_attachments f)\<rparr>,
       Inr (length (pf_attachments f)))"
    using assms(6-9) by (intro fresh_sync_run) (simp_all add: delete_steps_def Let_def version_of_process_def)
  with assms(1-5) show ?thesis
    by (simp add: apply_candidate_def insert_steps_def promote_process_def mark_finalized_def prog_simps)
qed

lemma finalize_differs:
  assumes "row_by p_id pid (processes d) = Some p" "find (version_at pid vid) (versions d) = Some v" "\<not> v_finalized v"
    and "p_current p = Some cur" "current_semantic_fingerprint k pid cur d = Inr fp" "fp \<noteq> Some (semantic_fingerprint k f)"
  shows "finalize_version k sid nid now pid vid f d =
    transaction (apply_candidate k sid nid now pid vid f (not_overtaken p v d)) d"
  using assms by (simp add: finalize_version_def transaction_def run_simps not_overtaken_def)

text \<open>The setting of the next two properties: a version was promoted with some fields, and another
  version of the process is finalized with the same ones.\<close>

definition promoted_once ::
  "codec \<Rightarrow> promotable \<Rightarrow> uuid \<Rightarrow> version_row \<Rightarrow> version_row \<Rightarrow> db \<Rightarrow> db \<Rightarrow> bool" where
  "promoted_once k f pid v w d d1 \<longleftrightarrow> version_inv d \<and> pid \<in> p_id ` set (processes d) \<and>
     v \<in> set (versions d) \<and> v_process v = pid \<and> \<not> v_finalized v \<and>
     (\<exists>sid nid now. finalize_version k sid nid now pid (v_id v) f d = (d1, Inr True)) \<and> storable k f \<and>
     (\<forall>x \<in> set (attachments d). at_version x \<noteq> v_id v) \<and>
     w \<in> set (versions d1) \<and> v_process w = pid \<and> \<not> v_finalized w \<and>
     (\<forall>x \<in> set (attachments d1). at_version x \<noteq> v_id w)"

lemma version_found:
  "version_inv d \<Longrightarrow> v \<in> set (versions d) \<Longrightarrow> v_process v = pid \<Longrightarrow> find (version_at pid (v_id v)) (versions d) = Some v"
  by (rule find_unique) (auto simp: version_at_def version_inv_def dest: unique_key)

lemma promoted_once_facts:
  assumes "promoted_once k f pid v w d d1"
  shows "\<exists>p now. row_by p_id pid (processes d1) = Some (promoted_row k now (v_id v) f p) \<and>
    current_semantic_fingerprint k pid (v_id v) d1 =
      Inr (Some (semantic_fingerprint k (f\<lparr>pf_attachments := in_order k (pf_attachments f)\<rparr>))) \<and>
    find (version_at pid (v_id w)) (versions d1) = Some w \<and> version_of_process pid (v_id w) d1 \<and>
    (\<exists>x. row_by v_id (v_id v) (versions d1) = Some x \<and> v_created x = v_created v) \<and>
    list_all step_ok (pf_steps f) \<and> distinct (map si_number (pf_steps f)) \<and>
    text_value (pf_court f) \<and> text_value (pf_class f) \<and> int4 (pf_secrecy f)"
proof -
  from assms obtain sid nid now where inv: "version_inv d" and pid: "pid \<in> p_id ` set (processes d)"
    and v: "v \<in> set (versions d)" "v_process v = pid" "\<not> v_finalized v"
    and run: "finalize_version k sid nid now pid (v_id v) f d = (d1, Inr True)" and f: "storable k f"
    and fresh: "\<forall>x \<in> set (attachments d). at_version x \<noteq> v_id v"
    and w: "w \<in> set (versions d1)" "v_process w = pid"
    unfolding promoted_once_def by blast
  from pid obtain p where "p \<in> set (processes d)" "p_id p = pid" by auto
  with inv have p: "row_by p_id pid (processes d) = Some p" using row_by_in [of p_id "processes d" p] by (simp add: version_inv_def)
  note found = version_found [OF inv v(1,2)]
  from finalize_run [OF p found v(3) run] have un: "\<not> unchanged k p f d" "not_overtaken p v d"
    and vs: "versions d1 = update_where (version_at pid (v_id v)) (finalized_row now (semantic_fingerprint k f) None) (versions d)"
    by auto
  have "version_of_process pid (v_id v) d" using v by (auto simp: version_of_process_def)
  from apply_candidate_content [OF finalize_applies [OF p found v(3) run un(1)] _ _ this fresh] f un(2)
  have ok: "list_all step_ok (pf_steps f)" "distinct (map si_number (pf_steps f))"
      "text_value (pf_court f)" "text_value (pf_class f)" "int4 (pf_secrecy f)"
    by (simp_all add: storable_def)
  have inv1: "version_inv d1" using finalize_step [OF inv, of k sid nid now pid "v_id v" f] run by simp
  have "row_by v_id (v_id v) (versions d1) = Some (finalized_row now (semantic_fingerprint k f) None v)"
    using row_by_in [of v_id "versions d" v] inv v
    by (simp add: vs finalized_upd.row_by_update version_inv_def version_at_def)
  moreover have "version_of_process pid (v_id w) d1" using w by (auto simp: version_of_process_def)
  ultimately show ?thesis
    using promoted_fingerprint [OF inv p found v(3) run f fresh] version_found [OF inv1 w] ok by auto
qed


subsection \<open>Properties\<close>

definition sample_codec :: codec where
  "sample_codec = \<lparr>cd_digest = (\<lambda>j. concat (map (\<lambda>a. py_str no_repr (obj_get (as_obj a) ''attachment_id''))
       (as_arr (obj_get (as_obj j) ''attachments'')))),
     cd_repr = no_repr, cd_parse = (\<lambda>_. None), cd_iso = (\<lambda>_. ''2026-01-01T00:00:00-03:00''), cd_fromiso = (\<lambda>_. None),
     cd_collate = (\<lambda>s. of_nat (length s)), cd_store = (\<lambda>v. v), cd_text = no_repr\<rparr>"

definition staged_version :: "uuid \<Rightarrow> timestamp \<Rightarrow> version_row" where
  "staged_version vid t = new_version sample_codec vid t 3 \<lparr>rs_source_request = None, rs_cached = False,
     rs_payload = [], rs_request = Some ''r'', rs_response = None, rs_callback = None\<rparr>"

definition staged_db :: db where
  "staged_db = empty_db\<lparr>processes := [new_process 3 0 ''0000000-00.0000.0.00.0000''],
     versions := [staged_version 2 10, staged_version 4 20]\<rparr>"

definition sample_item :: "string \<Rightarrow> manifest_input" where
  "sample_item s = \<lparr>mi_id = JStr s, mi_name = JNull, mi_date = Some (At 5), mi_status = JStr ''done''\<rparr>"

definition sample_fields :: "string list \<Rightarrow> promotable" where
  "sample_fields ids = \<lparr>pf_header = JObj [(''state'', JStr ''RS'')], pf_parties = [], pf_representatives = [],
     pf_subjects = [JStr ''x''], pf_steps = [\<lparr>si_number = 1, si_occurred = Some (At 1), si_title = JStr ''a'',
       si_text = JStr ''b'', si_metadata = JObj [(''private'', JBool False)]\<rparr>],
     pf_attachments = map sample_item ids, pf_court = JStr ''TJRS'', pf_class = JNull, pf_secrecy = 0\<rparr>"

lemma sample_storable:
  assumes "ids = [''bb'', ''a''] \<or> ids = [''a'', ''bb'']"
  shows "storable sample_codec (sample_fields ids)"
  using assms
  by (auto simp: storable_def sample_fields_def sample_codec_def written_def sample_item_def clean_item_def clean_text_def
      instant_def strip_def lstrip_by_def rstrip_by_def lower_def lower_c_def isspace_c_def)

lemma sample_promoted:
  assumes "ids = [''bb'', ''a''] \<or> ids = [''a'', ''bb'']"
  shows "\<exists>d1. promoted_once sample_codec (sample_fields ids) 3 (staged_version 2 10) (staged_version 4 20) staged_db d1"
proof -
  let ?f = "sample_fields ids"
  note f = sample_storable [OF assms]
  have scope: "version_of_process 3 2 staged_db"
    by (simp add: version_of_process_def staged_db_def staged_version_def)
  have "\<exists>d1. apply_candidate sample_codec nat nid 9 3 2 ?f True staged_db = (d1, Inr True)" for nid
    using f scope by (intro apply_candidate_succeeds)
      (simp_all add: storable_def sample_fields_def step_ok_def int4_def instant_def text_value_def staged_db_def empty_db_def)
  then obtain d1 where app: "apply_candidate sample_codec nat length 9 3 2 ?f True staged_db = (d1, Inr True)" by blast
  have found: "row_by p_id 3 (processes staged_db) = Some (new_process 3 0 ''0000000-00.0000.0.00.0000'')"
    "find (version_at 3 2) (versions staged_db) = Some (staged_version 2 10)"
    by (simp_all add: staged_db_def row_by_def version_at_def staged_version_def new_process_def)
  have "finalize_version sample_codec nat length 9 3 2 ?f staged_db = (d1, Inr True)"
    using app by (simp add: finalize_version_def transaction_def run_simps found staged_version_def)
       (simp add: new_process_def)
  moreover have "versions d1 = update_where (version_at 3 2) (finalized_row 9 (semantic_fingerprint sample_codec ?f) None)
      (versions staged_db)"
    using apply_candidate_run [OF app] by simp
  moreover have "attachments d1 = attachments staged_db @ map (fresh_attachment length 9 3 2) (pf_attachments ?f)"
    using apply_candidate_content [OF app _ _ scope] f by (simp add: storable_def staged_db_def empty_db_def)
  ultimately show ?thesis
    using f unfolding promoted_once_def
    by (intro exI [of _ d1] conjI)
       (auto simp: staged_db_def empty_db_def version_inv_def housed_def staged_version_def new_process_def version_at_def
         fresh_attachment_def new_attachment_def)
qed


text \<open>What a finalization does, exactly. A version that is not final yet becomes final with the
  fingerprint of its content. It is promoted precisely when the content differs from the current
  one and the current version is not later; then the process row carries its fields. Equal content
  is recorded as equivalent to the current version and leaves the process and every step alone.\<close>

theorem finalization_decides:
  assumes "row_by p_id pid (processes d) = Some p" "find (version_at pid vid) (versions d) = Some v" "\<not> v_finalized v"
    and "finalize_version k sid nid now pid vid f d = (d', Inr promoted)"
  shows "promoted = (\<not> unchanged k p f d \<and> not_overtaken p v d) \<and>
    versions d' = update_where (version_at pid vid)
      (finalized_row now (semantic_fingerprint k f) (if unchanged k p f d then p_current p else None)) (versions d) \<and>
    processes d' =
      (if promoted then update_where (\<lambda>x. p_id x = pid) (promoted_row k now vid f) (processes d) else processes d) \<and>
    steps d' = (if unchanged k p f d then steps d
       else filter (\<lambda>s. s_version s \<noteq> vid) (steps d) @ map (new_step k sid pid vid) (pf_steps f))"
  by (rule finalize_run [OF assms])

lemma staged_found:
  "row_by p_id 3 (processes staged_db) = Some (new_process 3 0 ''0000000-00.0000.0.00.0000'')"
  "find (version_at 3 2) (versions staged_db) = Some (staged_version 2 10)" "\<not> v_finalized (staged_version 2 10)"
  by (simp_all add: staged_db_def row_by_def version_at_def staged_version_def new_process_def)

theorem finalization_decides_witness:
  "\<exists>d'. finalize_version sample_codec nat length 9 3 2 (sample_fields []) staged_db = (d', Inr True) \<and>
    map p_current (processes d') = [Some 2] \<and> map v_finalized (versions d') = [True, False] \<and>
    map s_text (steps d') = [''b'']"
proof -
  let ?f = "sample_fields []"
  have "version_of_process 3 2 staged_db" by (simp add: version_of_process_def staged_db_def staged_version_def)
  then have "\<exists>d1. apply_candidate sample_codec nat length 9 3 2 ?f True staged_db = (d1, Inr True)"
    by (intro apply_candidate_succeeds)
      (simp_all add: sample_fields_def step_ok_def int4_def instant_def text_value_def staged_db_def empty_db_def)
  then obtain d1 where app: "apply_candidate sample_codec nat length 9 3 2 ?f True staged_db = (d1, Inr True)" by blast
  have run: "finalize_version sample_codec nat length 9 3 2 ?f staged_db = (d1, Inr True)"
    using app by (simp add: finalize_version_def transaction_def run_simps staged_found)
       (simp add: new_process_def)
  from finalization_decides [OF staged_found run] run show ?thesis
    by (auto simp: staged_db_def version_at_def staged_version_def new_process_def unchanged_def empty_db_def
        sample_fields_def new_step_def text_or_empty_def py_or_def)
qed



text \<open>C15: No change is detected as no change. When another version of the process brings the content
  that was promoted before, with its attachments in the order of the database, its finalization
  succeeds without a promotion: the process and the steps stay and the version is recorded as
  equivalent to the current one. The content survives the way through the columns, whatever the
  order of keys the database keeps.\<close>

theorem unchanged_content_not_promoted:
  assumes "promoted_once k f pid v w d d1" "in_order k (pf_attachments f) = pf_attachments f"
  shows "\<exists>d2. finalize_version k sid nid now pid (v_id w) f d1 = (d2, Inr False) \<and>
    processes d2 = processes d1 \<and> steps d2 = steps d1 \<and>
    finalized_row now (semantic_fingerprint k f) (Some (v_id v)) w \<in> set (versions d2)"
proof -
  from promoted_once_facts [OF assms(1)] obtain p t where
    p: "row_by p_id pid (processes d1) = Some (promoted_row k t (v_id v) f p)"
    and fp: "current_semantic_fingerprint k pid (v_id v) d1 = Inr (Some (semantic_fingerprint k f))"
    and w: "find (version_at pid (v_id w)) (versions d1) = Some w" "version_of_process pid (v_id w) d1"
    by (auto simp: assms(2))
  have un: "unchanged k (promoted_row k t (v_id v) f p) f d1"
    using row_by_Some [OF p] fp by (simp add: unchanged_def)
  have w': "\<not> v_finalized w" "\<forall>x \<in> set (attachments d1). at_version x \<noteq> v_id w" "w \<in> set (versions d1)" "v_process w = pid"
    and f: "list_all clean_item (pf_attachments f)" "distinct (map source_id (pf_attachments f))"
    using assms(1) by (auto simp: promoted_once_def storable_def)
  have "\<exists>d2. finalize_version k sid nid now pid (v_id w) f d1 = (d2, Inr False)"
    unfolding finalize_unchanged [OF p w(1) w'(1) un]
    by (simp add: transaction_def then_do_def bind_def fresh_sync_run [OF f w(2) w'(2)] mark_finalized_def modify_def ret_def)
  then obtain d2 where run: "finalize_version k sid nid now pid (v_id w) f d1 = (d2, Inr False)" by blast
  from finalize_run [OF p w(1) w'(1) run] un run w' show ?thesis
    by (intro exI [of _ d2]) (auto simp: set_update_where version_at_def)
qed

theorem unchanged_content_not_promoted_witness:
  "\<exists>d1 d2. finalize_version sample_codec nat length 11 3 4 (sample_fields [''a'', ''bb'']) d1 = (d2, Inr False) \<and>
    processes d2 = processes d1"
proof -
  obtain d1 where once: "promoted_once sample_codec (sample_fields [''a'', ''bb'']) 3 (staged_version 2 10)
      (staged_version 4 20) staged_db d1"
    using sample_promoted [of "[''a'', ''bb'']"] by blast
  have "in_order sample_codec (pf_attachments (sample_fields [''a'', ''bb''])) = pf_attachments (sample_fields [''a'', ''bb''])"
    by (simp add: in_order_def sample_fields_def sample_item_def sample_codec_def)
  from unchanged_content_not_promoted [OF once this, of nat length 11] show ?thesis
    by (auto simp: staged_version_def)
qed

definition no_collision :: "codec \<Rightarrow> promotable \<Rightarrow> promotable \<Rightarrow> bool" where
  "no_collision k f g \<longleftrightarrow> (semantic_fingerprint k f = semantic_fingerprint k g \<longrightarrow>
     same_doc (semantic_document k f) (semantic_document k g))"

lemma same_document_ids:
  assumes "same_doc (semantic_document k f) (semantic_document k g)"
  shows "map (\<lambda>a. text_or_empty (cd_repr k) (mi_id a)) (pf_attachments f) = map (\<lambda>a. text_or_empty (cd_repr k) (mi_id a)) (pf_attachments g)"
proof -
  from same_doc_get [OF assms, of "''attachments''"]
  have "map (\<lambda>a. sort_keys (attachment_semantics k a)) (pf_attachments f) =
      map (\<lambda>a. sort_keys (attachment_semantics k a)) (pf_attachments g)"
    by (simp add: semantic_document_def obj_get_def same_doc_def o_def)
  then have "map (\<lambda>v. obj_get (as_obj v) ''attachment_id'') (map (\<lambda>a. sort_keys (attachment_semantics k a)) (pf_attachments f)) =
      map (\<lambda>v. obj_get (as_obj v) ''attachment_id'') (map (\<lambda>a. sort_keys (attachment_semantics k a)) (pf_attachments g))"
    by (rule arg_cong)
  moreover have "obj_get (as_obj (sort_keys (attachment_semantics k a))) ''attachment_id'' = JStr (text_or_empty (cd_repr k) (mi_id a))" for a
  proof -
    obtain c where c: "sort_keys (attachment_semantics k a) = JObj c" by (simp add: attachment_semantics_def)
    then show ?thesis
      using sort_keys_obj_get [OF c [unfolded attachment_semantics_def], of "''attachment_id''"]
      by (simp add: obj_get_def)
  qed
  ultimately have "map JStr (map (\<lambda>a. text_or_empty (cd_repr k) (mi_id a)) (pf_attachments f)) =
      map JStr (map (\<lambda>a. text_or_empty (cd_repr k) (mi_id a)) (pf_attachments g))" by (simp add: o_def)
  then show ?thesis by (simp only: inj_map_eq_map inj_def json.inject simp_thms)
qed

lemma fingerprint_differs:
  assumes "no_collision k g f"
    and "map (\<lambda>a. text_or_empty (cd_repr k) (mi_id a)) (pf_attachments g) \<noteq> map (\<lambda>a. text_or_empty (cd_repr k) (mi_id a)) (pf_attachments f)"
  shows "semantic_fingerprint k g \<noteq> semantic_fingerprint k f"
  using assms same_document_ids unfolding no_collision_def by blast

lemma clean_id_text: "clean_item a \<Longrightarrow> text_or_empty (cd_repr k) (mi_id a) = source_id a"
  by (cases "mi_id a") (auto simp: clean_item_def clean_text_def text_or_empty_def py_or_def)

text \<open>C16: The order of the attachments defeats the detection. The fingerprint of the current version
  reads the attachments in the order of the database, that of the candidate in the order of the
  provider. When the two orders differ, and the digest does not collide, the same content
  is promoted again as a new current version, unless the current one is later.\<close>

theorem reordered_manifest_promotes:
  assumes once: "promoted_once k f pid v w d d1"
    and order: "map source_id (in_order k (pf_attachments f)) \<noteq> map source_id (pf_attachments f)"
    and digest: "no_collision k (f\<lparr>pf_attachments := in_order k (pf_attachments f)\<rparr>) f"
    and "v_created v \<le> v_created w"
  shows "\<exists>d2. finalize_version k sid nid now pid (v_id w) f d1 = (d2, Inr True) \<and>
    (\<exists>p \<in> set (processes d2). p_id p = pid \<and> p_current p = Some (v_id w))"
proof -
  from promoted_once_facts [OF once] obtain p t x where
    p: "row_by p_id pid (processes d1) = Some (promoted_row k t (v_id v) f p)"
    and fp: "current_semantic_fingerprint k pid (v_id v) d1 =
      Inr (Some (semantic_fingerprint k (f\<lparr>pf_attachments := in_order k (pf_attachments f)\<rparr>)))"
    and w: "find (version_at pid (v_id w)) (versions d1) = Some w" "version_of_process pid (v_id w) d1"
    and x: "row_by v_id (v_id v) (versions d1) = Some x" "v_created x = v_created v"
    and ok: "list_all step_ok (pf_steps f)" "distinct (map si_number (pf_steps f))"
      "text_value (pf_court f)" "text_value (pf_class f)" "int4 (pf_secrecy f)"
    by blast
  have w': "\<not> v_finalized w" "\<forall>x \<in> set (attachments d1). at_version x \<noteq> v_id w"
    and f: "list_all clean_item (pf_attachments f)" "distinct (map source_id (pf_attachments f))"
    using once by (auto simp: promoted_once_def storable_def)
  have eq: "map (\<lambda>a. text_or_empty (cd_repr k) (mi_id a)) as = map source_id as" if "set as \<subseteq> set (pf_attachments f)" for as
    using that f(1) by (auto simp: clean_id_text list_all_iff simp del: source_id.simps)
  have "set (in_order k (pf_attachments f)) \<subseteq> set (pf_attachments f)" by (simp add: in_order_def)
  from order eq [OF this] eq [OF subset_refl]
  have "map (\<lambda>a. text_or_empty (cd_repr k) (mi_id a)) (in_order k (pf_attachments f)) \<noteq>
      map (\<lambda>a. text_or_empty (cd_repr k) (mi_id a)) (pf_attachments f)" by metis
  then have differ: "semantic_fingerprint k (f\<lparr>pf_attachments := in_order k (pf_attachments f)\<rparr>) \<noteq> semantic_fingerprint k f"
    by (intro fingerprint_differs [OF digest]) simp
  have "not_overtaken (promoted_row k t (v_id v) f p) w d1"
    using x assms(4) by (simp add: not_overtaken_def is_later_def)
  with finalize_differs [OF p w(1) w'(1) _ fp, of f sid nid now] differ
    apply_candidate_succeeds [OF ok f w(2) w'(2), of k sid nid now True]
  obtain d2 where run: "finalize_version k sid nid now pid (v_id w) f d1 = (d2, Inr True)"
    by (auto simp: transaction_def)
  from row_by_Some [OF p] have "promoted_row k t (v_id v) f p \<in> set (processes d1)"
      "p_id (promoted_row k t (v_id v) f p) = pid" by blast+
  then have "promoted_row k now (v_id w) f (promoted_row k t (v_id v) f p) \<in> set (processes d2)"
    using finalize_run [OF p w(1) w'(1) run] by (auto simp: set_update_where)
  with run show ?thesis using row_by_Some [OF p] by (intro exI [of _ d2] conjI) (auto intro: bexI [rotated])
qed

theorem reordered_manifest_promotes_witness:
  "\<exists>d1 d2. finalize_version sample_codec nat length 11 3 4 (sample_fields [''bb'', ''a'']) d1 = (d2, Inr True)"
proof -
  obtain d1 where once: "promoted_once sample_codec (sample_fields [''bb'', ''a'']) 3 (staged_version 2 10)
      (staged_version 4 20) staged_db d1"
    using sample_promoted [of "[''bb'', ''a'']"] by blast
  let ?f = "sample_fields [''bb'', ''a'']"
  have order: "in_order sample_codec (pf_attachments ?f) = map sample_item [''a'', ''bb'']"
    by (simp add: in_order_def sample_fields_def sample_item_def sample_codec_def)
  have "map source_id (in_order sample_codec (pf_attachments ?f)) \<noteq> map source_id (pf_attachments ?f)"
    unfolding order by (simp add: sample_fields_def sample_item_def)
  moreover have "semantic_fingerprint sample_codec (?f\<lparr>pf_attachments := in_order sample_codec (pf_attachments ?f)\<rparr>) \<noteq>
      semantic_fingerprint sample_codec ?f"
    unfolding order by (simp add: semantic_fingerprint_def semantic_document_def sample_fields_def sample_codec_def
        sample_item_def attachment_semantics_def obj_get_def text_or_empty_def py_or_def)
  then have "no_collision sample_codec (?f\<lparr>pf_attachments := in_order sample_codec (pf_attachments ?f)\<rparr>) ?f"
    by (simp add: no_collision_def)
  ultimately show ?thesis
    using reordered_manifest_promotes [OF once, of nat length 11] by (auto simp: staged_version_def new_version_def)
qed

end
