(* ===== verification/Auth.thy ===== *)
theory Auth
  imports Versions
begin

text \<open>
  \<open>app/api_key_auth.py\<close> and \<open>app/auth.py\<close>: who a request speaks for. A bearer credential is an API
  key of the deployment's environment, found by its digest and limited to so many requests per
  minute, or a legacy token configured for a tenant. \<open>sha\<close> is the SHA-256 digest in hexadecimal;
  \<open>now\<close> is the clock of the database and \<open>py\<close> the one of the Python process.
\<close>

record principal =
  pr_tenant :: uuid
  pr_key :: "uuid option"
  pr_fingerprint :: "string option"
  pr_remaining :: "int option"

definition uses_api_key :: "principal \<Rightarrow> bool" where
  "uses_api_key p \<longleftrightarrow> pr_key p \<noteq> None"

subsection \<open>Credentials\<close>

definition api_key_hash_and_fingerprint :: "(string \<Rightarrow> string) \<Rightarrow> string \<Rightarrow> string \<times> string" where
  "api_key_hash_and_fingerprint sha token = (sha token, take 16 (sha token))"

definition api_key_environment :: "string \<Rightarrow> string option" where
  "api_key_environment token =
     (if prefix ''sk_live_'' token then Some ''live''
      else if prefix ''sk_test_'' token then Some ''test'' else None)"

definition api_key_deployment_environment :: "(string \<Rightarrow> string option) \<Rightarrow> string res" where
  "api_key_deployment_environment env =
     (let environment = lower (strip (case env ''RPY_API_KEY_ENVIRONMENT'' of None \<Rightarrow> ''live'' | Some s \<Rightarrow> s)) in
      if environment = ''live'' \<or> environment = ''test'' then Inr environment
      else Inl (RuntimeError ''RPY_API_KEY_ENVIRONMENT must be live or test''))"

text \<open>A request carries its headers in order, the names in lower case.\<close>

definition authorization_header :: "(string \<times> string) list \<Rightarrow> string option" where
  "authorization_header headers =
     (case filter (\<lambda>h. fst h = ''authorization'') headers of
        [(_, v)] \<Rightarrow> (if CHR '','' \<in> set v then None else Some v)
      | _ \<Rightarrow> None)"

definition unauthorized :: "string \<Rightarrow> pyexc" where
  "unauthorized detail = HTTPException 401 detail []"

definition bearer_credential :: "(string \<times> string) list \<Rightarrow> string res" where
  "bearer_credential headers =
     (let authorization = (case authorization_header headers of None \<Rightarrow> [] | Some s \<Rightarrow> s);
          (scheme, _, rest) = partition_char (CHR '' '') authorization;
          supplied = strip rest
      in if lower scheme \<noteq> ''bearer'' \<or> supplied = [] then Inl (unauthorized ''invalid bearer token'')
         else Inr supplied)"

subsection \<open>The rate limit\<close>

abbreviation minute :: int where
  "minute \<equiv> 60000000"

definition minute_of :: "timestamp \<Rightarrow> timestamp" where
  "minute_of t = t - t mod minute"

definition set_window :: "uuid \<Rightarrow> (rate_window \<Rightarrow> rate_window) \<Rightarrow> (db, unit) prog" where
  "set_window kid f = modify (\<lambda>d. d\<lparr>rate_windows := update_where (\<lambda>w. w_key w = kid) f (rate_windows d)\<rparr>)"

definition open_window :: "timestamp \<Rightarrow> uuid \<Rightarrow> db \<Rightarrow> db" where
  "open_window now kid d = (if kid \<in> w_key ` set (rate_windows d) then d
     else d\<lparr>rate_windows := rate_windows d @ [\<lparr>w_key = kid, w_started = minute_of now, w_count = 0\<rparr>]\<rparr>)"

definition consume_rate_limit ::
  "timestamp \<Rightarrow> timestamp \<Rightarrow> uuid \<Rightarrow> int \<Rightarrow> (db, int \<times> int) prog" where
  "consume_rate_limit now py kid quota =
     then_do (modify (open_window now kid))
     (bind (query (\<lambda>d. row_by w_key kid (rate_windows d))) (\<lambda>row.
        case row of
          None \<Rightarrow> raise (RuntimeError ''API key rate-limit row was not created'')
        | Some w \<Rightarrow>
            let elapsed = py - w_started w in
            if minute \<le> elapsed
            then then_do (set_window kid (\<lambda>x. x\<lparr>w_started := minute_of now, w_count := 1\<rparr>))
                   (ret (max (quota - 1) 0, 0))
            else if quota \<le> w_count w then ret (0, max 1 ((minute - elapsed) div 1000000))
            else then_do (set_window kid (\<lambda>x. x\<lparr>w_count := w_count w + 1\<rparr>))
                   (ret (max (quota - (w_count w + 1)) 0, 0))))"

subsection \<open>API keys\<close>

definition rate_denial :: "int \<Rightarrow> pyexc" where
  "rate_denial retry_after = HTTPException 429 ''rate limit exceeded''
     [(''X-RateLimit-Remaining'', ''0''), (''Retry-After'', show_int retry_after)]"

text \<open>The denial is raised after the transaction, so the counter is kept.\<close>

definition check_key ::
  "timestamp \<Rightarrow> timestamp \<Rightarrow> string \<Rightarrow> string \<Rightarrow> api_key \<Rightarrow> (db, pyexc + principal) prog" where
  "check_key now py environment fingerprint key =
     (if k_fingerprint key \<noteq> fingerprint then ret (Inl (unauthorized ''invalid API key''))
      else if k_environment key \<noteq> environment then ret (Inl (unauthorized ''invalid API key''))
      else if k_revoked key \<noteq> None then ret (Inl (unauthorized ''revoked API key''))
      else if (case k_expires key of None \<Rightarrow> False | Some t \<Rightarrow> t \<le> py)
      then ret (Inl (unauthorized ''expired API key''))
      else bind (consume_rate_limit now py (k_id key) (k_limit key)) (\<lambda>(remaining, retry_after).
        if retry_after \<noteq> 0 then ret (Inl (rate_denial retry_after))
        else then_do (modify (\<lambda>d. d\<lparr>api_keys :=
                 update_where (\<lambda>x. k_id x = k_id key) (\<lambda>x. x\<lparr>k_last_used := Some now\<rparr>) (api_keys d)\<rparr>))
             (ret (Inr \<lparr>pr_tenant = k_tenant key, pr_key = Some (k_id key),
                pr_fingerprint = Some (k_fingerprint key), pr_remaining = Some remaining\<rparr>))))"

definition authenticate_api_key_identity ::
  "(string \<Rightarrow> string) \<Rightarrow> (string \<Rightarrow> string option) \<Rightarrow> timestamp \<Rightarrow> timestamp \<Rightarrow> string \<Rightarrow> (db, principal) prog" where
  "authenticate_api_key_identity sha env now py token =
     (case api_key_environment token of
        None \<Rightarrow> raise (unauthorized ''invalid API key'')
      | Some environment \<Rightarrow>
          bind (lift_res (api_key_deployment_environment env)) (\<lambda>deployment.
            if environment \<noteq> deployment then raise (unauthorized ''invalid API key'')
            else let (hash, fingerprint) = api_key_hash_and_fingerprint sha token in
              bind (transaction (bind (query (\<lambda>d. row_by k_hash hash (api_keys d))) (\<lambda>row.
                      case row of
                        None \<Rightarrow> ret (Inl (unauthorized ''invalid API key''))
                      | Some key \<Rightarrow> check_key now py environment fingerprint key)))
                lift_res))"

definition explicit_scope :: "uuid \<Rightarrow> string \<Rightarrow> db \<Rightarrow> bool" where
  "explicit_scope kid code d \<longleftrightarrow> (kid, code) \<in> set (cnj_scopes d)"

definition portfolio_scope :: "uuid \<Rightarrow> string \<Rightarrow> db \<Rightarrow> bool" where
  "portfolio_scope tenant code d \<longleftrightarrow> get_authorized_process tenant code d \<noteq> None"

definition log_principal_access ::
  "principal \<Rightarrow> uuid option \<Rightarrow> string \<Rightarrow> string \<Rightarrow> (string \<times> json) list option \<Rightarrow> (db, unit) prog" where
  "log_principal_access p pid code action metadata = modify (\<lambda>d. d\<lparr>access_log := access_log d @
     [\<lparr>al_tenant = pr_tenant p, al_process = pid, al_code = code, al_action = action,
       al_metadata = JObj (case metadata of None \<Rightarrow> [] | Some m \<Rightarrow> m),
       al_key = pr_key p, al_fingerprint = pr_fingerprint p\<rparr>]\<rparr>)"

definition authorize_api_key_process :: "principal \<Rightarrow> string \<Rightarrow> (db, principal) prog" where
  "authorize_api_key_process p code =
     (case pr_key p of
        None \<Rightarrow> ret p
      | Some kid \<Rightarrow>
          bind (transaction (bind (query (\<lambda>d. find (\<lambda>k. k_id k = kid \<and> k_tenant k = pr_tenant p) (api_keys d))) (\<lambda>row.
              case row of
                None \<Rightarrow> raise (unauthorized ''invalid API key'')
              | Some key \<Rightarrow>
                  bind (query (\<lambda>d. explicit_scope kid code d \<or> k_portfolio key \<and> portfolio_scope (pr_tenant p) code d))
                    (\<lambda>allowed. then_do
                       (if allowed then ret () else log_principal_access p None code ''authorization_denied'' None)
                       (ret allowed)))))
            (\<lambda>allowed. if allowed then ret p else raise (HTTPException 404 ''process not found'' [])))"

definition authenticate_api_key ::
  "(string \<Rightarrow> string) \<Rightarrow> (string \<Rightarrow> string option) \<Rightarrow> timestamp \<Rightarrow> timestamp \<Rightarrow> string \<Rightarrow> string \<Rightarrow> (db, principal) prog" where
  "authenticate_api_key sha env now py token code =
     bind (authenticate_api_key_identity sha env now py token) (\<lambda>p. authorize_api_key_process p code)"

definition apply_rate_limit_headers :: "(string \<times> string) list \<Rightarrow> principal \<Rightarrow> (string \<times> string) list" where
  "apply_rate_limit_headers headers p = (case pr_remaining p of
     None \<Rightarrow> headers
   | Some n \<Rightarrow> filter (\<lambda>h. fst h \<noteq> ''X-RateLimit-Remaining'') headers @ [(''X-RateLimit-Remaining'', show_int n)])"

subsection \<open>Legacy tokens\<close>

definition configured_token :: "string \<times> json \<Rightarrow> (string \<times> uuid) res" where
  "configured_token = (\<lambda>(token, tenant).
     if token = [] then Inl (RuntimeError ''RPY_BEARER_TOKENS contains an empty bearer token'')
     else if list_ex isspace_c token
     then Inl (RuntimeError ''RPY_BEARER_TOKENS bearer tokens must not contain whitespace'')
     else if CHR '','' \<in> set token
     then Inl (RuntimeError ''RPY_BEARER_TOKENS bearer tokens must not contain commas'')
     else if api_key_environment token \<noteq> None
     then Inl (RuntimeError ''RPY_BEARER_TOKENS legacy tokens must not use sk_live_ or sk_test_ prefixes'')
     else case tenant of
       JStr s \<Rightarrow> (case parse_uuid s of
           None \<Rightarrow> Inl (RuntimeError ''RPY_BEARER_TOKENS contains an invalid tenant UUID for one configured token'')
         | Some u \<Rightarrow> Inr (token, u))
     | _ \<Rightarrow> Inl (RuntimeError ''RPY_BEARER_TOKENS tenant ids must be UUID strings''))"

fun configured_tokens :: "(string \<times> json) list \<Rightarrow> (string \<times> uuid) list res" where
  "configured_tokens [] = Inr []"
| "configured_tokens (kv # kvs) = res_bind (configured_token kv) (\<lambda>t.
     res_bind (configured_tokens kvs) (\<lambda>ts. Inr (t # ts)))"

definition configured_bearer_tokens ::
  "(string \<Rightarrow> json option) \<Rightarrow> (string \<Rightarrow> string option) \<Rightarrow> (string \<times> uuid) list res" where
  "configured_bearer_tokens parse env =
     (case parse (case env ''RPY_BEARER_TOKENS'' of None \<Rightarrow> ''{}'' | Some s \<Rightarrow> s) of
        None \<Rightarrow> Inl (RuntimeError ''RPY_BEARER_TOKENS must be valid JSON'')
      | Some doc \<Rightarrow>
          if \<not> unique_keys doc then Inl (RuntimeError ''RPY_BEARER_TOKENS must not contain duplicate token keys'')
          else case doc of
            JObj kvs \<Rightarrow>
              (if kvs = [] then Inl (RuntimeError ''RPY_BEARER_TOKENS must configure at least one bearer token'')
               else configured_tokens kvs)
          | _ \<Rightarrow> Inl (RuntimeError ''RPY_BEARER_TOKENS must be a JSON object mapping token to tenant UUID''))"

text \<open>\<open>hmac.compare_digest\<close> on two \<open>str\<close>: only ASCII text is accepted.\<close>

definition ascii :: "string \<Rightarrow> bool" where
  "ascii s \<longleftrightarrow> list_all (\<lambda>c. ord c < 128) s"

definition compare_digest :: "string \<Rightarrow> string \<Rightarrow> bool res" where
  "compare_digest a b =
     (if ascii a \<and> ascii b then Inr (a = b)
      else Inl (TypeError ''comparing strings with non-ASCII characters is not supported''))"

fun match_legacy_token :: "(string \<times> uuid) list \<Rightarrow> string \<Rightarrow> uuid option res" where
  "match_legacy_token [] supplied = Inr None"
| "match_legacy_token ((token, tenant) # rest) supplied =
     res_bind (compare_digest supplied token) (\<lambda>equal.
       if equal then Inr (Some tenant) else match_legacy_token rest supplied)"

text \<open>\<open>state\<close> is what the application keeps since startup, the environment is read again.\<close>

definition legacy_tenant_for_token ::
  "(string \<Rightarrow> json option) \<Rightarrow> (string \<Rightarrow> string option) \<Rightarrow> (string \<times> uuid) list option \<Rightarrow> string \<Rightarrow> uuid res" where
  "legacy_tenant_for_token parse env state supplied =
     res_bind (case state of None \<Rightarrow> Inr None | Some configured \<Rightarrow> match_legacy_token configured supplied) (\<lambda>known.
       case known of
         Some tenant \<Rightarrow> Inr tenant
       | None \<Rightarrow>
           res_bind (if env ''RPY_BEARER_TOKENS'' = None then Inr None
                     else res_bind (configured_bearer_tokens parse env) (\<lambda>refreshed.
                       match_legacy_token refreshed supplied)) (\<lambda>fresh.
             case fresh of
               Some tenant \<Rightarrow> Inr tenant
             | None \<Rightarrow> Inl (unauthorized ''invalid bearer token'')))"

definition legacy_principal :: "uuid \<Rightarrow> principal" where
  "legacy_principal tenant = \<lparr>pr_tenant = tenant, pr_key = None, pr_fingerprint = None, pr_remaining = None\<rparr>"

record request =
  rq_headers :: "(string \<times> string) list"
  rq_principal :: "principal option"

definition tenant_from_request ::
  "(string \<Rightarrow> json option) \<Rightarrow> (string \<Rightarrow> string option) \<Rightarrow> (string \<times> uuid) list option \<Rightarrow> request \<Rightarrow> uuid res" where
  "tenant_from_request parse env state request =
     (case rq_principal request of
        Some p \<Rightarrow> Inr (pr_tenant p)
      | None \<Rightarrow> res_bind (bearer_credential (rq_headers request)) (\<lambda>supplied.
          if api_key_environment supplied \<noteq> None
          then Inl (unauthorized ''API key requires scoped authentication'')
          else legacy_tenant_for_token parse env state supplied))"

definition principal_by ::
  "(string \<Rightarrow> (db, principal) prog) \<Rightarrow> (string \<Rightarrow> json option) \<Rightarrow> (string \<Rightarrow> string option) \<Rightarrow>
     (string \<times> uuid) list option \<Rightarrow> request \<Rightarrow> (db, principal) prog" where
  "principal_by authenticate parse env state request =
     bind (lift_res (bearer_credential (rq_headers request))) (\<lambda>supplied.
       if api_key_environment supplied \<noteq> None then authenticate supplied
       else bind (lift_res (legacy_tenant_for_token parse env state supplied)) (\<lambda>tenant.
              ret (legacy_principal tenant)))"

definition principal_from_request_unscoped where
  "principal_from_request_unscoped sha parse env state now py request =
     principal_by (authenticate_api_key_identity sha env now py) parse env state request"

definition principal_from_request where
  "principal_from_request sha parse env state now py request code =
     principal_by (\<lambda>token. authenticate_api_key sha env now py token code) parse env state request"


subsection \<open>Facts about the counter\<close>

lemma minute_of_le: "minute_of t \<le> t"
  by (simp add: minute_of_def)

lemma minute_of_aligned: "minute_of t mod minute = 0"
  by (simp add: minute_of_def mod_diff_left_eq)

lemma minute_of_mono: "s \<le> t \<Longrightarrow> minute_of s \<le> minute_of t"
  unfolding minute_of_def by (simp add: minus_mod_eq_div_mult zdiv_mono1)

text \<open>Within its window an instant is in the minute of the window, later it is in a later one.\<close>

lemma window_minute:
  assumes "s mod minute = 0" "s \<le> t"
  shows "minute \<le> t - s \<longleftrightarrow> minute_of t \<noteq> s"
proof -
  obtain a where s: "s = minute * a" using assms(1) by (auto simp: mod_eq_0_iff_dvd)
  have m: "minute_of t = minute * (t div minute)" by (simp add: minute_of_def minus_mod_eq_mult_div)
  have "t div minute = a \<longleftrightarrow> t - s < minute"
  proof
    show "t - s < minute" if "t div minute = a"
      using that s by (simp flip: minus_mod_eq_mult_div)
    show "t div minute = a" if "t - s < minute"
      using that assms(2) unfolding s by (simp add: int_div_pos_eq [of t minute a "t - minute * a"])
  qed
  with s m show ?thesis by auto
qed

text \<open>One request against an open window.\<close>

definition window_step :: "timestamp \<Rightarrow> timestamp \<Rightarrow> int \<Rightarrow> rate_window \<Rightarrow> rate_window \<times> bool" where
  "window_step now py quota w =
     (if minute \<le> py - w_started w then (w\<lparr>w_started := minute_of now, w_count := 1\<rparr>, True)
      else if quota \<le> w_count w then (w, False)
      else (w\<lparr>w_count := w_count w + 1\<rparr>, True))"

lemma row_by_set_window:
  assumes "\<And>x. w_key (f x) = w_key x" "row_by w_key kid t = Some w"
  shows "row_by w_key kid (update_where (\<lambda>x. w_key x = kid) f t) = Some (f w)"
  using assms(2) by (induction t) (auto simp: row_by_def assms(1) split: if_splits)

lemma open_window_frame: "open_window now kid d = d\<lparr>rate_windows := rate_windows (open_window now kid d)\<rparr>"
  by (simp add: open_window_def)

lemma consume_run:
  assumes "row_by w_key kid (rate_windows (open_window now kid d)) = Some w"
  shows "\<exists>d' remaining retry. consume_rate_limit now py kid quota d = (d', Inr (remaining, retry)) \<and>
    (retry = 0 \<longleftrightarrow> snd (window_step now py quota w)) \<and>
    row_by w_key kid (rate_windows d') = Some (fst (window_step now py quota w)) \<and>
    d' = d\<lparr>rate_windows := rate_windows d'\<rparr>"
proof -
  obtain t where o: "open_window now kid d = d\<lparr>rate_windows := t\<rparr>" using open_window_frame by blast
  with assms have w: "row_by w_key kid t = Some w" by simp
  note set = row_by_set_window [OF _ w]
  consider "minute \<le> py - w_started w" | "\<not> minute \<le> py - w_started w" "quota \<le> w_count w"
    | "\<not> minute \<le> py - w_started w" "\<not> quota \<le> w_count w" by blast
  then show ?thesis
  proof cases
    case 1
    then show ?thesis
      by (simp add: consume_rate_limit_def run_simps o w set_window_def ret_run window_step_def Let_def set)
  next
    case 2
    then show ?thesis
      by (simp add: consume_rate_limit_def run_simps o w ret_run window_step_def Let_def)
  next
    case 3
    then show ?thesis
      by (simp add: consume_rate_limit_def run_simps o w set_window_def ret_run window_step_def Let_def set)
  qed
qed


text \<open>The requests of one key at the given instants; the result tells which were let through.\<close>

fun consume_all :: "uuid \<Rightarrow> int \<Rightarrow> timestamp list \<Rightarrow> db \<Rightarrow> bool list" where
  "consume_all kid quota [] d = []"
| "consume_all kid quota (t # ts) d = (case consume_rate_limit t t kid quota d of
     (d', Inl e) \<Rightarrow> False # consume_all kid quota ts d'
   | (d', Inr (remaining, retry)) \<Rightarrow> (retry = 0) # consume_all kid quota ts d')"

definition requests_in :: "timestamp \<Rightarrow> timestamp list \<Rightarrow> int" where
  "requests_in m ts = int (length (filter (\<lambda>t. minute_of t = m) ts))"

definition accepted_in :: "timestamp \<Rightarrow> timestamp list \<Rightarrow> bool list \<Rightarrow> int" where
  "accepted_in m ts oks = int (length (filter (\<lambda>(t, ok). ok \<and> minute_of t = m) (zip ts oks)))"

lemma requests_in_none: "\<forall>t \<in> set ts. m < minute_of t \<Longrightarrow> requests_in m ts = 0"
  by (auto simp: requests_in_def filter_empty_conv)

lemma requests_in_Cons: "requests_in m (t # ts) = (if minute_of t = m then 1 else 0) + requests_in m ts"
  by (simp add: requests_in_def)

lemma accepted_in_Cons:
  "accepted_in m (t # ts) (ok # oks) = (if ok \<and> minute_of t = m then 1 else 0) + accepted_in m ts oks"
  by (simp add: accepted_in_def)

lemma requests_in_nonneg: "0 \<le> requests_in m ts"
  by (simp add: requests_in_def)

lemma window_open: "row_by w_key kid (rate_windows d) = Some w \<Longrightarrow> open_window now kid d = d"
  by (auto simp: open_window_def dest: row_by_Some)

lemma consume_all_window:
  assumes "row_by w_key kid (rate_windows d) = Some w" "w_started w mod minute = 0"
    and "0 \<le> w_count w" "w_count w \<le> quota" "1 \<le> quota"
    and "sorted ts" "\<forall>t \<in> set ts. w_started w \<le> t"
  shows "accepted_in m ts (consume_all kid quota ts d) =
    min (if m = w_started w then quota - w_count w else quota) (requests_in m ts)"
  using assms
proof (induction ts arbitrary: d w)
  case Nil
  then show ?case by (simp add: accepted_in_def requests_in_def)
next
  case (Cons t ts)
  let ?s = "w_started w" and ?w = "fst (window_step t t quota w)" and ?ok = "snd (window_step t t quota w)"
  from consume_run [of kid t d w t quota] Cons.prems(1) window_open [OF Cons.prems(1)] obtain d' remaining retry where
    run: "consume_rate_limit t t kid quota d = (d', Inr (remaining, retry))" "(retry = 0) = ?ok"
    and w': "row_by w_key kid (rate_windows d') = Some ?w" by auto
  have st: "?s \<le> t" "\<forall>u \<in> set ts. t \<le> u" "sorted ts" using Cons.prems(6,7) by auto
  then have later: "minute_of t \<le> minute_of u" "minute_of t \<le> u" if "u \<in> set ts" for u
    using that minute_of_mono [of t u] minute_of_le [of u] by auto
  have step: "accepted_in m (t # ts) (consume_all kid quota (t # ts) d) =
      (if ?ok \<and> minute_of t = m then 1 else 0) + accepted_in m ts (consume_all kid quota ts d')"
    using run by (simp add: accepted_in_Cons)
  note win = window_minute [OF Cons.prems(2) st(1)]
  note nonneg = requests_in_nonneg [of m ts]
  show ?case
  proof (cases "minute \<le> t - ?s")
    case True
    then have w: "?w = w\<lparr>w_started := minute_of t, w_count := 1\<rparr>" "?ok" by (simp_all add: window_step_def)
    have "accepted_in m ts (consume_all kid quota ts d') =
        min (if m = minute_of t then quota - 1 else quota) (requests_in m ts)"
      using Cons.IH [OF w' [unfolded w(1)]] Cons.prems(5) st(3) later by (simp add: minute_of_aligned)
    moreover have "requests_in m ts = 0" if "m = ?s"
    proof (rule requests_in_none, rule ballI)
      fix u assume "u \<in> set ts"
      have "?s < minute_of t" using True win minute_of_mono [OF st(1)] Cons.prems(2)
        by (simp add: minute_of_def)
      with later(1) [OF \<open>u \<in> set ts\<close>] that show "m < minute_of u" by simp
    qed
    ultimately show ?thesis
      unfolding step requests_in_Cons using True win w(2) Cons.prems(3-5) nonneg by auto
  next
    case False
    then have t: "minute_of t = ?s" using win by simp
    have "accepted_in m ts (consume_all kid quota ts d') =
        min (if m = w_started ?w then quota - w_count ?w else quota) (requests_in m ts)"
      using Cons.IH [OF w'] Cons.prems(2-7) False by (simp add: window_step_def)
    with False t Cons.prems(3-5) nonneg show ?thesis
      unfolding step requests_in_Cons by (auto simp: window_step_def)
  qed
qed

lemma identity_run:
  assumes "authenticate_api_key_identity sha env now py token d = (d1, Inr p)"
  shows "\<exists>key kid. key \<in> set (api_keys d) \<and> kid = k_id key \<and> k_hash key = sha token \<and> k_fingerprint key = take 16 (sha token) \<and>
    api_key_environment token = Some (k_environment key) \<and>
    api_key_deployment_environment env = Inr (k_environment key) \<and>
    k_revoked key = None \<and> (case k_expires key of None \<Rightarrow> True | Some t \<Rightarrow> py < t) \<and>
    pr_key p = Some kid \<and> pr_tenant p = k_tenant key \<and> pr_fingerprint p = Some (k_fingerprint key) \<and>
    cnj_scopes d1 = cnj_scopes d \<and> processes d1 = processes d \<and> tenant_processes d1 = tenant_processes d \<and>
    access_log d1 = access_log d \<and>
    api_keys d1 = update_where (\<lambda>x. k_id x = kid) (\<lambda>x. x\<lparr>k_last_used := Some now\<rparr>) (api_keys d)"
proof -
  from assms obtain environment where env: "api_key_environment token = Some environment"
    "api_key_deployment_environment env = Inr environment"
    by (auto simp: authenticate_api_key_identity_def prog_simps split: option.splits sum.splits if_splits)
  with assms have run: "bind (transaction (bind (query (\<lambda>d. row_by k_hash (sha token) (api_keys d))) (\<lambda>row. case row of
        None \<Rightarrow> ret (Inl (unauthorized ''invalid API key''))
      | Some key \<Rightarrow> check_key now py environment (take 16 (sha token)) key))) lift_res d = (d1, Inr p)"
    by (simp add: authenticate_api_key_identity_def run_simps api_key_hash_and_fingerprint_def)
  then obtain key where row: "row_by k_hash (sha token) (api_keys d) = Some key"
    by (auto simp: bind_def transaction_def query_def lift_res_def ret_def split: option.splits)
  with run have check: "check_key now py environment (take 16 (sha token)) key d = (d1, Inr (Inr p))"
    by (auto simp: bind_def transaction_def query_def lift_res_def split: prod.splits sum.splits)
  then have key: "k_fingerprint key = take 16 (sha token)" "k_environment key = environment" "k_revoked key = None"
      "case k_expires key of None \<Rightarrow> True | Some t \<Rightarrow> py < t"
    and more: "bind (consume_rate_limit now py (k_id key) (k_limit key)) (\<lambda>(remaining, retry_after).
        if retry_after \<noteq> 0 then ret (Inl (rate_denial retry_after))
        else then_do (modify (\<lambda>d. d\<lparr>api_keys :=
                 update_where (\<lambda>x. k_id x = k_id key) (\<lambda>x. x\<lparr>k_last_used := Some now\<rparr>) (api_keys d)\<rparr>))
             (ret (Inr \<lparr>pr_tenant = k_tenant key, pr_key = Some (k_id key),
                pr_fingerprint = Some (k_fingerprint key), pr_remaining = Some remaining\<rparr>))) d = (d1, Inr (Inr p))"
    by (auto simp: check_key_def ret_def not_le split: if_splits option.splits)
  have "\<exists>w. row_by w_key (k_id key) (rate_windows (open_window now (k_id key) d)) = Some w"
  proof (cases "k_id key \<in> w_key ` set (rate_windows d)")
    case True
    then have "row_by w_key (k_id key) (rate_windows d) \<noteq> None" by (simp add: row_by_None)
    with True show ?thesis by (auto simp: open_window_def)
  next
    case False
    then have "row_by w_key (k_id key) (rate_windows d) = None" by (simp add: row_by_None)
    with False show ?thesis by (simp add: open_window_def row_by_append) (simp add: row_by_def)
  qed
  then obtain w where "row_by w_key (k_id key) (rate_windows (open_window now (k_id key) d)) = Some w" ..
  from consume_run [OF this, of py "k_limit key"] obtain d2 remaining retry where
    used: "consume_rate_limit now py (k_id key) (k_limit key) d = (d2, Inr (remaining, retry))"
    and d2: "d2 = d\<lparr>rate_windows := rate_windows d2\<rparr>" by blast
  have frame: "cnj_scopes d2 = cnj_scopes d" "processes d2 = processes d" "tenant_processes d2 = tenant_processes d"
    "access_log d2 = access_log d" "api_keys d2 = api_keys d" by (subst d2, simp)+
  from more used have "pr_key p = Some (k_id key) \<and> pr_tenant p = k_tenant key \<and>
      pr_fingerprint p = Some (k_fingerprint key) \<and> cnj_scopes d1 = cnj_scopes d2 \<and> processes d1 = processes d2 \<and>
      tenant_processes d1 = tenant_processes d2 \<and> access_log d1 = access_log d2 \<and>
      api_keys d1 = update_where (\<lambda>x. k_id x = k_id key) (\<lambda>x. x\<lparr>k_last_used := Some now\<rparr>) (api_keys d2)"
    by (auto simp: bind_def then_do_def ret_def modify_def split: if_splits)
  with row_by_Some [OF row] env key frame show ?thesis by (intro exI [of _ key] exI [of _ "k_id key"]) simp
qed

lemma match_legacy_sound:
  "match_legacy_token ts supplied = Inr (Some tenant) \<Longrightarrow> (supplied, tenant) \<in> set ts"
  by (induction ts supplied rule: match_legacy_token.induct) (auto simp: compare_digest_def split: if_splits)

lemma legacy_sound:
  assumes "legacy_tenant_for_token parse env state supplied = Inr tenant"
  shows "(\<exists>ts. state = Some ts \<and> (supplied, tenant) \<in> set ts) \<or>
    (\<exists>ts. configured_bearer_tokens parse env = Inr ts \<and> (supplied, tenant) \<in> set ts)"
  using assms
  by (auto simp: legacy_tenant_for_token_def split: option.splits if_splits dest!: match_legacy_sound)


text \<open>A key that is authenticated for a process is live, of the deployment's environment, and has the process in
  its scope; nothing but its counter and its last use is written.\<close>

lemma authenticate_entitled:
  assumes "authenticate_api_key sha env now py token code d = (d', Inr p)" "distinct (map k_id (api_keys d))"
  shows "\<exists>key \<in> set (api_keys d). pr_key p = Some (k_id key) \<and> pr_tenant p = k_tenant key \<and>
    k_hash key = sha token \<and> api_key_environment token = Some (k_environment key) \<and>
    api_key_deployment_environment env = Inr (k_environment key) \<and>
    k_revoked key = None \<and> (case k_expires key of None \<Rightarrow> True | Some t \<Rightarrow> py < t) \<and>
    ((k_id key, code) \<in> set (cnj_scopes d) \<or>
     k_portfolio key \<and> get_authorized_process (k_tenant key) code d \<noteq> None)"
    and "access_log d' = access_log d" "processes d' = processes d" "tenant_processes d' = tenant_processes d"
proof -
  from assms(1) obtain d1 p1 where one: "authenticate_api_key_identity sha env now py token d = (d1, Inr p1)"
    and two: "authorize_api_key_process p1 code d1 = (d', Inr p)"
    by (auto simp: authenticate_api_key_def bind_def split: prod.splits sum.splits)
  from identity_run [OF one] obtain key where key: "key \<in> set (api_keys d)" "k_hash key = sha token"
    "api_key_environment token = Some (k_environment key)" "api_key_deployment_environment env = Inr (k_environment key)"
    "k_revoked key = None" "case k_expires key of None \<Rightarrow> True | Some t \<Rightarrow> py < t"
    and p1: "pr_key p1 = Some (k_id key)" "pr_tenant p1 = k_tenant key"
    and frame: "cnj_scopes d1 = cnj_scopes d" "processes d1 = processes d" "tenant_processes d1 = tenant_processes d"
      "api_keys d1 = update_where (\<lambda>x. k_id x = k_id key) (\<lambda>x. x\<lparr>k_last_used := Some now\<rparr>) (api_keys d)"
      "access_log d1 = access_log d"
    by auto
  from two p1 obtain row where row: "find (\<lambda>k. k_id k = k_id key \<and> k_tenant k = k_tenant key) (api_keys d1) = Some row"
    by (auto simp: authorize_api_key_process_def bind_def transaction_def query_def raise_def
        split: option.splits prod.splits sum.splits)
  with two p1 have allowed: "explicit_scope (k_id key) code d1 \<or> k_portfolio row \<and> portfolio_scope (k_tenant key) code d1"
    and "p = p1" "d' = d1"
    by (auto simp: authorize_api_key_process_def bind_def then_do_def transaction_def query_def raise_def ret_def
        log_principal_access_def modify_def split: prod.splits sum.splits if_splits)
  with frame show "access_log d' = access_log d" "processes d' = processes d" "tenant_processes d' = tenant_processes d"
    by simp_all
  from row have "row \<in> set (api_keys d1)" "k_id row = k_id key" by (auto simp: find_Some_iff)
  then obtain old where "old \<in> set (api_keys d)" "k_id old = k_id key" "k_portfolio row = k_portfolio old"
    unfolding frame(4) by (auto simp: set_update_where)
  with unique_key [OF assms(2) this(1) key(1)] have "k_portfolio row = k_portfolio key" by simp
  with allowed have "(k_id key, code) \<in> set (cnj_scopes d) \<or>
      k_portfolio key \<and> get_authorized_process (k_tenant key) code d \<noteq> None"
    by (simp add: explicit_scope_def portfolio_scope_def get_authorized_process_def frame)
  with key p1 \<open>p = p1\<close> show "\<exists>key \<in> set (api_keys d). pr_key p = Some (k_id key) \<and> pr_tenant p = k_tenant key \<and>
    k_hash key = sha token \<and> api_key_environment token = Some (k_environment key) \<and>
    api_key_deployment_environment env = Inr (k_environment key) \<and>
    k_revoked key = None \<and> (case k_expires key of None \<Rightarrow> True | Some t \<Rightarrow> py < t) \<and>
    ((k_id key, code) \<in> set (cnj_scopes d) \<or>
     k_portfolio key \<and> get_authorized_process (k_tenant key) code d \<noteq> None)"
    by (intro bexI [of _ key]) simp_all
qed


subsection \<open>Properties\<close>

text \<open>The rate limit is exact. However the requests of a key are spread over time, in every
  minute of the clock as many are let through as the quota allows and as there are, no more and
  no fewer; a window left open when a minute ends costs nothing in the next.\<close>

theorem rate_limit_exact:
  assumes "1 \<le> quota" "sorted ts" "kid \<notin> w_key ` set (rate_windows d)"
  shows "accepted_in m ts (consume_all kid quota ts d) = min quota (requests_in m ts)"
proof (cases ts)
  case Nil
  with assms(1) show ?thesis by (simp add: accepted_in_def requests_in_def)
next
  case (Cons t us)
  let ?w = "\<lparr>w_key = kid, w_started = minute_of t, w_count = 0\<rparr>"
  let ?d = "open_window t kid d"
  have "row_by w_key kid (rate_windows d) = None" using assms(3) by (simp add: row_by_None)
  then have w: "row_by w_key kid (rate_windows ?d) = Some ?w"
    using assms(3) by (simp add: open_window_def row_by_append) (simp add: row_by_def)
  have "consume_rate_limit t t kid quota d = consume_rate_limit t t kid quota ?d"
    by (simp add: consume_rate_limit_def run_simps window_open [OF w])
  then have "consume_all kid quota ts d = consume_all kid quota ts ?d" using Cons by simp
  moreover have "\<forall>u \<in> set ts. w_started ?w \<le> u"
    using assms(2) Cons minute_of_le [of t] by (auto intro: order_trans)
  ultimately show ?thesis
    using consume_all_window [OF w, of quota ts m] assms(1,2) by (simp add: minute_of_aligned)
qed

theorem rate_limit_exact_witness:
  "accepted_in 60000000 [10, 61000000, 62000000, 63000000] (consume_all 7 2 [10, 61000000, 62000000, 63000000] empty_db) = 2"
  using rate_limit_exact [of 2 "[10, 61000000, 62000000, 63000000]" 7 empty_db 60000000]
  by (simp add: empty_db_def requests_in_def minute_of_def)

text \<open>C17: A principal is entitled. When a request is given a principal for a process, its credential
  either is an API key of the deployment's environment, neither revoked nor expired, whose tenant
  the principal has and whose scope holds the process, by name or through the tenant's portfolio;
  or it is a legacy token that is configured for exactly this tenant.\<close>

theorem principal_is_entitled:
  assumes "principal_from_request sha parse env state now py request code d = (d', Inr p)"
    and "distinct (map k_id (api_keys d))"
  shows "\<exists>token. bearer_credential (rq_headers request) = Inr token \<and>
    (case api_key_environment token of
       None \<Rightarrow> pr_key p = None \<and>
         ((\<exists>ts. state = Some ts \<and> (token, pr_tenant p) \<in> set ts) \<or>
          (\<exists>ts. configured_bearer_tokens parse env = Inr ts \<and> (token, pr_tenant p) \<in> set ts))
     | Some environment \<Rightarrow> \<exists>key \<in> set (api_keys d). pr_key p = Some (k_id key) \<and> pr_tenant p = k_tenant key \<and>
         k_hash key = sha token \<and> k_environment key = environment \<and>
         api_key_deployment_environment env = Inr environment \<and>
         k_revoked key = None \<and> (case k_expires key of None \<Rightarrow> True | Some t \<Rightarrow> py < t) \<and>
         ((k_id key, code) \<in> set (cnj_scopes d) \<or>
          k_portfolio key \<and> get_authorized_process (k_tenant key) code d \<noteq> None))"
proof -
  from assms(1) obtain token where token: "bearer_credential (rq_headers request) = Inr token"
    by (auto simp: principal_from_request_def principal_by_def bind_def lift_res_def split: sum.splits)
  show ?thesis
  proof (cases "api_key_environment token")
    case None
    with assms(1) token have "legacy_tenant_for_token parse env state token = Inr (pr_tenant p)" "pr_key p = None"
      by (auto simp: principal_from_request_def principal_by_def legacy_principal_def bind_def lift_res_def ret_def
          split: sum.splits)
    with None token show ?thesis using legacy_sound by auto
  next
    case (Some environment)
    with assms(1) token have "authenticate_api_key sha env now py token code d = (d', Inr p)"
      by (simp add: principal_from_request_def principal_by_def run_simps)
    from authenticate_entitled(1) [OF this assms(2)] Some token show ?thesis by auto
  qed
qed

definition keyed_db :: db where
  "keyed_db = empty_db\<lparr>cnj_scopes := [(7, ''1234567-00.0000.0.00.0000'')],
     api_keys := [\<lparr>k_id = 7, k_tenant = 5, k_hash = ''sk_live_a'', k_fingerprint = ''sk_live_a'', k_environment = ''live'',
       k_portfolio = False, k_limit = 60, k_expires = Some 100, k_revoked = None, k_last_used = None\<rparr>]\<rparr>"

definition keyed_request :: request where
  "keyed_request = \<lparr>rq_headers = [(''authorization'', ''bearer sk_live_a'')], rq_principal = None\<rparr>"

lemma keyed_token: "bearer_credential (rq_headers keyed_request) = Inr ''sk_live_a''"
  by (simp add: bearer_credential_def keyed_request_def authorization_header_def Let_def strip_def lstrip_by_def
      rstrip_by_def isspace_c_def lower_def lower_c_def)

lemma keyed_environment: "api_key_environment ''sk_live_a'' = Some ''live''"
  "api_key_deployment_environment (\<lambda>_. None) = Inr ''live''"
  by (simp_all add: api_key_environment_def api_key_deployment_environment_def Let_def strip_def lstrip_by_def
      rstrip_by_def isspace_c_def lower_def lower_c_def)

lemma keyed_run:
  "\<exists>d' p. principal_from_request (\<lambda>s. s) (\<lambda>_. None) (\<lambda>_. None) None 1 1 keyed_request ''1234567-00.0000.0.00.0000''
     keyed_db = (d', Inr p)"
  by (simp add: principal_from_request_def principal_by_def keyed_token keyed_environment run_simps
      authenticate_api_key_def authenticate_api_key_identity_def api_key_hash_and_fingerprint_def)
     (simp add: api_key_hash_and_fingerprint_def keyed_db_def empty_db_def check_key_def consume_rate_limit_def open_window_def row_by_def minute_of_def
      authorize_api_key_process_def explicit_scope_def set_window_def prog_simps transaction_def)

theorem principal_is_entitled_witness:
  "\<exists>d' p. principal_from_request (\<lambda>s. s) (\<lambda>_. None) (\<lambda>_. None) None 1 1 keyed_request ''1234567-00.0000.0.00.0000''
     keyed_db = (d', Inr p) \<and> pr_key p = Some 7 \<and> pr_tenant p = 5"
proof -
  obtain d' p where run: "principal_from_request (\<lambda>s. s) (\<lambda>_. None) (\<lambda>_. None) None 1 1 keyed_request
      ''1234567-00.0000.0.00.0000'' keyed_db = (d', Inr p)" using keyed_run by blast
  have "distinct (map k_id (api_keys keyed_db))" by (simp add: keyed_db_def)
  from principal_is_entitled [OF run this] run show ?thesis
    by (auto simp: keyed_token keyed_environment keyed_db_def)
qed

end
