(* ===== verification/Judit.thy ===== *)
theory Judit
  imports Versions LogSafety
begin

text \<open>
  \<open>app/judit.py\<close>: the events a provider posts and the fields of a process that are kept of them.
  A payload is untyped JSON, so every access may meet any value; personal identifiers are masked or
  removed, and of a secret process only its class, court and a few header fields survive.
\<close>

subsection \<open>Process codes\<close>

definition twenty_digits :: "string \<Rightarrow> bool" where
  "twenty_digits s \<longleftrightarrow> length s = 20 \<and> list_all isdecimal_c s"

definition slice :: "nat \<Rightarrow> nat \<Rightarrow> string \<Rightarrow> string" where
  "slice i j s = take (j - i) (drop i s)"

definition normalize_cnj :: "string \<Rightarrow> string res" where
  "normalize_cnj value =
     (let candidate = strip value in
      if \<not> (canonical_code candidate \<or> twenty_digits candidate) then Inl (ValueError ''invalid CNJ process code'')
      else let digits = filter isdigit_c candidate in
        Inr (slice 0 7 digits @ ''-'' @ slice 7 9 digits @ ''.'' @ slice 9 13 digits @ ''.'' @ slice 13 14 digits @ ''.'' @
          slice 14 16 digits @ ''.'' @ slice 16 20 digits))"

subsection \<open>Dynamic values\<close>

text \<open>\<open>int(v)\<close>; None is the \<open>TypeError\<close> or \<open>ValueError\<close>.\<close>

fun int_value :: "json \<Rightarrow> int option" where
  "int_value (JInt i) = Some i"
| "int_value (JBool b) = Some (if b then 1 else 0)"
| "int_value (JFloat (Finite q)) = Some (if 0 \<le> q then \<lfloor>q\<rfloor> else \<lceil>q\<rceil>)"
| "int_value (JStr s) = py_int s"
| "int_value _ = None"

text \<open>\<open>v[0]\<close> of a truthy value.\<close>

fun first_item :: "json \<Rightarrow> json res" where
  "first_item (JArr (x # _)) = Inr x"
| "first_item (JStr (c # _)) = Inr (JStr [c])"
| "first_item (JObj _) = Inl (KeyError ''0'')"
| "first_item _ = Inl (TypeError ''object is not subscriptable'')"

text \<open>\<open>for x in v or []\<close>.\<close>

definition items_of :: "json \<Rightarrow> json list res" where
  "items_of v = (case py_iter (py_or v (JArr [])) of
     None \<Rightarrow> Inl (TypeError ''object is not iterable'') | Some xs \<Rightarrow> Inr xs)"

text \<open>\<open>str(v) if v else None\<close>.\<close>

definition text_if :: "codec \<Rightarrow> json \<Rightarrow> string option" where
  "text_if k v = (if truthy v then Some (py_str (cd_repr k) v) else None)"

subsection \<open>Finite numbers\<close>

text \<open>The loop over the values still pending, the last one first. Every round takes one value off
  and puts on only the values inside it.\<close>

lemma pending_weight:
  "pending \<noteq> [] \<Longrightarrow> size_list size (pending :: json list) =
     Suc (size_list size (butlast pending) + size (last pending))"
  by (induction pending rule: rev_induct) (simp_all add: size_list_conv_sum_list)

lemma members_weight:
  "size_list size (map snd kvs) < size (JObj kvs)" "size_list size xs < size (JArr xs)"
proof -
  have "size_list size (map snd kvs) \<le> size_list (size_prod (\<lambda>_. 0) size) kvs" for kvs :: "(string \<times> json) list"
    by (induction kvs) auto
  then show "size_list size (map snd kvs) < size (JObj kvs)" by (simp add: le_imp_less_Suc)
  show "size_list size xs < size (JArr xs)" by simp
qed

lemma pending_pops:
  assumes "pending \<noteq> []"
  shows "size_list size (butlast pending) < size_list size (pending :: json list)"
    and "JArr xs = last pending \<Longrightarrow> size_list size (butlast pending) + size_list size xs < size_list size pending"
    and "JObj kvs = last pending \<Longrightarrow>
      size_list size (butlast pending) + size_list (size \<circ> snd) kvs < size_list size pending"
  using pending_weight [OF assms] members_weight(1) [of kvs] members_weight(2) [of xs]
  by (auto simp: size_list_map dest: sym)

function reject_non_finite_numbers :: "json list \<Rightarrow> unit res" where
  "reject_non_finite_numbers pending = (if pending = [] then Inr ()
     else let current = last pending; rest = butlast pending in
       case current of
         JFloat f \<Rightarrow> (case f of
             Finite _ \<Rightarrow> reject_non_finite_numbers rest
           | _ \<Rightarrow> Inl (ValueError ''webhook payload contains non-finite number''))
       | JObj kvs \<Rightarrow> reject_non_finite_numbers (rest @ map snd kvs)
       | JArr xs \<Rightarrow> reject_non_finite_numbers (rest @ xs)
       | _ \<Rightarrow> reject_non_finite_numbers rest)"
  by pat_completeness auto
termination
  by (relation "measure (size_list size)") (simp_all add: pending_pops)

declare reject_non_finite_numbers.simps [simp del]

text \<open>The loop ends and refuses exactly the values that are not finite.\<close>

lemma reject_exact:
  "reject_non_finite_numbers pending =
     (if \<forall>v \<in> set pending. finite_json v then Inr ()
      else Inl (ValueError ''webhook payload contains non-finite number''))"
proof (induction pending rule: measure_induct_rule [of "size_list size"])
  case (less pending)
  let ?all = "\<lambda>t. if \<forall>v \<in> set t. finite_json v then Inr ()
      else Inl (ValueError ''webhook payload contains non-finite number'')"
  show ?case
  proof (cases "pending = []")
    case True
    then show ?thesis by (simp add: reject_non_finite_numbers.simps)
  next
    case False
    then have p: "set pending = insert (last pending) (set (butlast pending))"
      by (metis append_butlast_last_id list.simps(15) list.set(1) set_append sup_commute insert_is_Un)
    have rest: "reject_non_finite_numbers (butlast pending) = ?all (butlast pending)"
      by (rule less.IH) (rule pending_pops(1) [OF False])
    note step = reject_non_finite_numbers.simps [of pending]
    show ?thesis
    proof (cases "last pending")
      case (JFloat f)
      with False show ?thesis unfolding step by (cases f) (simp_all add: p rest)
    next
      case (JArr xs)
      have "reject_non_finite_numbers (butlast pending @ xs) = ?all (butlast pending @ xs)"
        using pending_pops(2) [OF False JArr [symmetric]] by (intro less.IH) simp
      with JArr False show ?thesis unfolding step by (simp add: p ball_Un conj_commute)
    next
      case (JObj kvs)
      have "reject_non_finite_numbers (butlast pending @ map snd kvs) = ?all (butlast pending @ map snd kvs)"
        using pending_pops(3) [OF False JObj [symmetric]] by (intro less.IH) (simp add: size_list_map)
      with JObj False show ?thesis unfolding step by (simp add: p ball_Un conj_commute)
    qed (use False in \<open>simp_all add: step p rest\<close>)
  qed
qed

subsection \<open>Events\<close>

record judit_event =
  ev_type :: string
  ev_request :: "string option"
  ev_callback :: "string option"
  ev_response :: "string option"
  ev_response_type :: "string option"
  ev_code :: "string option"
  ev_cached :: bool
  ev_raw :: "(string \<times> json) list"
  ev_data :: "(string \<times> json) list option"

definition request_completed :: "codec \<Rightarrow> judit_event \<Rightarrow> bool" where
  "request_completed k e =
     (if ev_type e = ''request_completed'' then True
      else if ev_type e \<noteq> ''response_created'' \<or> ev_response_type e \<noteq> Some ''application_info'' then False
      else let data = (case ev_data e of None \<Rightarrow> [] | Some d \<Rightarrow> d) in
        upper (strip (text_or_empty (cd_repr k) (obj_get data ''message''))) = ''REQUEST_COMPLETED'' \<or>
        obj_get data ''code'' \<noteq> JNull \<and> int_value (obj_get data ''code'') = Some 600)"

definition is_lawsuit_response :: "judit_event \<Rightarrow> bool" where
  "is_lawsuit_response e \<longleftrightarrow> ev_type e = ''response_created'' \<and> ev_response_type e = Some ''lawsuit''"

definition obj_of :: "json \<Rightarrow> (string \<times> json) list option" where
  "obj_of v = (case v of JObj kvs \<Rightarrow> Some kvs | _ \<Rightarrow> None)"

definition cached_flag :: "(string \<times> json) list \<Rightarrow> (string \<times> json) list \<Rightarrow> bool" where
  "cached_flag body payload =
     (let tags = as_obj (obj_get payload ''tags'') in
      truthy (case map_of tags ''cached_response'' of
        Some v \<Rightarrow> v
      | None \<Rightarrow> (case map_of payload ''cached_response'' of
          Some v \<Rightarrow> v
        | None \<Rightarrow> (case map_of body ''cached_response'' of Some v \<Rightarrow> v | None \<Rightarrow> JBool False))))"

definition event_code :: "codec \<Rightarrow> (string \<times> json) list option \<Rightarrow> string option" where
  "event_code k data = (case data of
     None \<Rightarrow> None
   | Some d \<Rightarrow> (let value = py_or (obj_get d ''code'') (obj_get d ''process_code'') in
       if truthy value then nonempty (strip (py_str (cd_repr k) value)) else None))"

definition read_event :: "codec \<Rightarrow> (string \<times> json) list \<Rightarrow> judit_event" where
  "read_event k body =
     (let text = (\<lambda>v. text_or_empty (cd_repr k) v);
          stated = lower (strip (text (obj_get body ''event_type'')));
          reference_type = lower (strip (text (obj_get body ''reference_type'')));
          payload = as_obj (obj_get body ''payload'');
          explicit = py_or (py_or (obj_get payload ''request_id'') (obj_get body ''request_id'')) (obj_get body ''requestId'');
          request = (if truthy explicit then explicit
            else if reference_type \<noteq> ''tracking'' then obj_get body ''reference_id'' else JNull);
          given = obj_of (obj_get payload ''response_data'');
          response_type = obj_get payload ''response_type'';
          bare = stated = [];
          status = lower (text (obj_get body ''status''));
          data = (if bare \<and> given = None then Some body else given)
      in \<lparr>ev_type = (if bare then (if status = ''completed'' \<or> status = ''request_completed''
                       then ''request_completed'' else ''response_created'') else stated),
          ev_request = text_if k request,
          ev_callback = text_if k (obj_get body ''callback_id''),
          ev_response = text_if k (obj_get payload ''response_id''),
          ev_response_type = text_if k (if bare then py_or response_type (JStr ''lawsuit'') else response_type),
          ev_code = event_code k data,
          ev_cached = cached_flag body payload,
          ev_raw = body,
          ev_data = data\<rparr>)"

definition check_completion :: "codec \<Rightarrow> judit_event \<Rightarrow> judit_event res" where
  "check_completion k e =
     (if request_completed k e \<and> ev_request e = None
      then Inl (ValueError ''request completion missing request id'') else Inr e)"

definition parse_event :: "codec \<Rightarrow> json \<Rightarrow> judit_event res" where
  "parse_event k body = (case body of
     JObj kvs \<Rightarrow>
       res_bind (reject_non_finite_numbers [body]) (\<lambda>_.
        let e = read_event k kvs in
          if is_lawsuit_response e then
            (case ev_code e of
               None \<Rightarrow> Inl (ValueError ''lawsuit response missing process code'')
             | Some raw \<Rightarrow> res_bind (normalize_cnj raw) (\<lambda>code.
                 if ev_request e = None then Inl (ValueError ''lawsuit response missing request id'')
                 else if ev_response e = None \<and> ev_callback e = None
                 then Inl (ValueError ''lawsuit response missing stable response identifier'')
                 else check_completion k (e\<lparr>ev_code := Some code\<rparr>)))
          else check_completion k e)
   | _ \<Rightarrow> Inl (ValueError ''invalid webhook envelope''))"

subsection \<open>Parties\<close>

definition personal_id_digits :: "codec \<Rightarrow> json \<Rightarrow> string option" where
  "personal_id_digits k v = (case v of
     JNull \<Rightarrow> None | JBool _ \<Rightarrow> None
   | _ \<Rightarrow> (let digits = filter isdigit_c (py_str (cd_repr k) v) in
       if length digits = 11 \<or> length digits = 14 then Some digits else None))"

fun first_document :: "codec \<Rightarrow> json list \<Rightarrow> string option" where
  "first_document k [] = None"
| "first_document k (x # xs) = (case x of
     JObj doc \<Rightarrow> (case personal_id_digits k (obj_get doc ''document'') of
         Some c \<Rightarrow> Some c | None \<Rightarrow> first_document k xs)
   | _ \<Rightarrow> first_document k xs)"

definition party_personal_id :: "codec \<Rightarrow> (string \<times> json) list \<Rightarrow> string option res" where
  "party_personal_id k party = (case personal_id_digits k (obj_get party ''main_document'') of
     Some d \<Rightarrow> Inr (Some d)
   | None \<Rightarrow> res_bind (items_of (obj_get party ''documents'')) (\<lambda>docs. Inr (first_document k docs)))"

definition masked_personal_id :: "string \<Rightarrow> string res" where
  "masked_personal_id v =
     (if length v = 11 then Inr (''***.***.***-'' @ drop 9 v)
      else if length v = 14 then Inr (''**.***.***/****-'' @ drop 12 v)
      else Inl (ValueError ''personal id must contain 11 or 14 digits''))"

text \<open>The compatibility decomposition without its combining marks, in upper case, every other
  character than A-Z and 0-9 as an underscore.\<close>

definition person_char :: "char \<Rightarrow> string" where
  "person_char c =
     (let n = ord c in
      if 48 \<le> n \<and> n \<le> 57 \<or> 65 \<le> n \<and> n \<le> 90 then [c]
      else if 97 \<le> n \<and> n \<le> 122 then [char_of (n - 32)]
      else if n = 223 then ''SS''
      else if 192 \<le> n \<and> n \<le> 197 \<or> 224 \<le> n \<and> n \<le> 229 \<or> n = 170 then ''A''
      else if n = 199 \<or> n = 231 then ''C''
      else if 200 \<le> n \<and> n \<le> 203 \<or> 232 \<le> n \<and> n \<le> 235 then ''E''
      else if 204 \<le> n \<and> n \<le> 207 \<or> 236 \<le> n \<and> n \<le> 239 then ''I''
      else if n = 209 \<or> n = 241 then ''N''
      else if 210 \<le> n \<and> n \<le> 214 \<or> 242 \<le> n \<and> n \<le> 246 \<or> n = 186 then ''O''
      else if 217 \<le> n \<and> n \<le> 220 \<or> 249 \<le> n \<and> n \<le> 252 then ''U''
      else if n = 221 \<or> n = 253 \<or> n = 255 then ''Y''
      else if n = 178 then ''2'' else if n = 179 then ''3'' else if n = 185 then ''1''
      else if n = 188 then ''1_4'' else if n = 189 then ''1_2'' else if n = 190 then ''3_4''
      else ''_'')"

fun collapse_underscores :: "string \<Rightarrow> string" where
  "collapse_underscores (a # b # s) =
     (if a = CHR ''_'' \<and> b = CHR ''_'' then collapse_underscores (b # s) else a # collapse_underscores (b # s))"
| "collapse_underscores s = s"

definition normalized_person_type :: "codec \<Rightarrow> json \<Rightarrow> string" where
  "normalized_person_type k v =
     (let underscore = (\<lambda>c. c = CHR ''_'') in
      rstrip_by underscore (lstrip_by underscore
        (collapse_underscores (concat (map person_char (strip (text_or_empty (cd_repr k) v)))))))"

definition representative_person_types :: "string list" where
  "representative_person_types = [''ADVOGADO'', ''ADVOGADA'', ''ATTORNEY'', ''LAWYER'', ''COUNSEL'', ''PROCURADOR'',
     ''PROCURADORA'', ''REPRESENTANTE'', ''REPRESENTATIVE'', ''LEGAL_REPRESENTATIVE'', ''REPRESENTANTE_LEGAL'',
     ''ADVOGADO_A'', ''PROCURADOR_A'', ''DEFENSOR'', ''DEFENSORA'', ''DEFENSOR_PUBLICO'', ''DEFENSORA_PUBLICA'']"

definition is_representative :: "codec \<Rightarrow> (string \<times> json) list \<Rightarrow> bool" where
  "is_representative k party \<longleftrightarrow>
     normalized_person_type k (obj_get party ''person_type'') \<in> set representative_person_types"

definition represented_party_keys :: "string list" where
  "represented_party_keys = [''represented_party'', ''represented_party_name'', ''party_name'', ''client'', ''principal'']"

fun represented_party_among :: "codec \<Rightarrow> (string \<times> json) list \<Rightarrow> string list \<Rightarrow> string option" where
  "represented_party_among k party [] = None"
| "represented_party_among k party (key # keys) =
     (let value = obj_get party key;
          name = (case value of JObj o' \<Rightarrow> obj_get o' ''name'' | v \<Rightarrow> v) in
      if name = JNull then represented_party_among k party keys
      else let rendered = strip (py_str (cd_repr k) name) in
        if rendered = [] then represented_party_among k party keys else Some rendered)"

definition represented_party_name :: "codec \<Rightarrow> (string \<times> json) list \<Rightarrow> string option" where
  "represented_party_name k party = represented_party_among k party represented_party_keys"

definition safe_party_entity :: "codec \<Rightarrow> (string \<times> json) list \<Rightarrow> (string \<times> json) list option res" where
  "safe_party_entity k party =
     (let name = strip (text_or_empty (cd_repr k) (obj_get party ''name'')) in
      if name = [] then Inr None
      else let base = [(''name'', JStr name), (''side'', obj_get party ''side''),
             (''person_type'', obj_get party ''person_type'')] in
        res_bind (party_personal_id k party) (\<lambda>pid. case pid of
            None \<Rightarrow> Inr (Some base)
          | Some d \<Rightarrow> res_bind (masked_personal_id d) (\<lambda>m. Inr (Some (base @ [(''masked_person_id'', JStr m)])))))"

fun split_parties :: "codec \<Rightarrow> json list \<Rightarrow> (json list \<times> json list) res" where
  "split_parties k [] = Inr ([], [])"
| "split_parties k (x # xs) = (case x of
     JObj party \<Rightarrow> res_bind (safe_party_entity k party) (\<lambda>entity. res_bind (split_parties k xs) (\<lambda>(ps, rs).
       case entity of
         None \<Rightarrow> Inr (ps, rs)
       | Some e \<Rightarrow>
           if is_representative k party
           then Inr (ps, JObj (case represented_party_name k party of
                  None \<Rightarrow> e | Some n \<Rightarrow> e @ [(''represents'', JStr n)]) # rs)
           else Inr (JObj e # ps, rs)))
   | _ \<Rightarrow> split_parties k xs)"

definition safe_parties_and_representatives :: "codec \<Rightarrow> (string \<times> json) list \<Rightarrow> (json list \<times> json list) res" where
  "safe_parties_and_representatives k process = res_bind (items_of (obj_get process ''parties'')) (split_parties k)"


subsection \<open>Subjects, dates and attachments\<close>

definition safe_subjects :: "codec \<Rightarrow> (string \<times> json) list \<Rightarrow> json list res" where
  "safe_subjects k process = res_bind (items_of (obj_get process ''subjects'')) (\<lambda>xs.
     Inr (concat (map (\<lambda>x. case x of
         JObj s \<Rightarrow> [JObj [(''code'', obj_get s ''code''), (''name'', obj_get s ''name'')]]
       | JNull \<Rightarrow> []
       | v \<Rightarrow> [JObj [(''code'', JNull), (''name'', JStr (py_str (cd_repr k) v))]]) xs)))"

text \<open>The value of a provider is text or nothing that counts as a date.\<close>

definition parse_datetime :: "codec \<Rightarrow> json \<Rightarrow> timestamp option" where
  "parse_datetime k v = (case v of
     JStr s \<Rightarrow> (if s = [] then None else cd_fromiso k (replace_all ''Z'' ''+00:00'' (strip s)))
   | _ \<Rightarrow> None)"

definition optional_rendered :: "codec \<Rightarrow> (string \<Rightarrow> string) \<Rightarrow> json \<Rightarrow> json" where
  "optional_rendered k f v =
     (if v = JNull then JNull else optional_text (nonempty (f (py_str (cd_repr k) v))))"

definition safe_attachment :: "codec \<Rightarrow> string \<Rightarrow> (string \<times> json) list \<Rightarrow> manifest_input" where
  "safe_attachment k sid a =
     (let raw_name = (if obj_get a ''attachment_name'' = JNull then obj_get a ''content'' else obj_get a ''attachment_name'')
      in \<lparr>mi_id = JStr sid, mi_name = optional_rendered k strip raw_name,
          mi_date = map_option At (parse_datetime k (obj_get a ''attachment_date'')),
          mi_status = optional_rendered k (\<lambda>s. lower (strip s)) (obj_get a ''status'')\<rparr>)"

fun safe_attachments_of :: "codec \<Rightarrow> string list \<Rightarrow> json list \<Rightarrow> manifest_input list" where
  "safe_attachments_of k seen [] = []"
| "safe_attachments_of k seen (x # xs) = (case x of
     JObj a \<Rightarrow> (let sid = strip (text_or_empty (cd_repr k) (obj_get a ''attachment_id'')) in
       if sid = [] \<or> sid \<in> set seen then safe_attachments_of k seen xs
       else safe_attachment k sid a # safe_attachments_of k (sid # seen) xs)
   | _ \<Rightarrow> safe_attachments_of k seen xs)"

definition safe_attachments :: "codec \<Rightarrow> (string \<times> json) list \<Rightarrow> manifest_input list res" where
  "safe_attachments k process = res_bind (items_of (obj_get process ''attachments'')) (\<lambda>xs.
     Inr (safe_attachments_of k [] xs))"

subsection \<open>The text of a step\<close>

definition leading_step_number_re :: regex where
  "leading_step_number_re = RSeq (RStar rspace) (RSeq (rplus digit_re) (RSeq (RStar rspace)
     (RAlt (RSeq (rin ''-.:)'') (RStar rspace)) (rplus rspace))))"

text \<open>\<open>sub("", text, count=1)\<close> of a pattern anchored at the start.\<close>

definition drop_leading :: "regex \<Rightarrow> string \<Rightarrow> string" where
  "drop_leading r s = (case re_run r ([], s, []) of [] \<Rightarrow> s | (_, rest, _) # _ \<Rightarrow> rest)"

definition eletronica_refer_re :: regex where
  "eletronica_refer_re = RSeq RBoundary (RSeq (rlit_ci (''ELETR'' @ [CHR 0xD4] @ ''NICAREFER'')) RBoundary)"

definition lower_letter :: "char \<Rightarrow> bool" where
  "lower_letter c \<longleftrightarrow> 97 \<le> ord c \<and> ord c \<le> 122 \<or>
     ord c \<in> {225, 224, 226, 227, 233, 234, 237, 243, 244, 245, 250, 231}"

definition upper_letter :: "char \<Rightarrow> bool" where
  "upper_letter c \<longleftrightarrow> 65 \<le> ord c \<and> ord c \<le> 90 \<or>
     ord c \<in> {193, 192, 194, 195, 201, 202, 205, 211, 212, 213, 218, 199}"

text \<open>A space wherever a lower-case letter meets an upper-case one.\<close>

fun separate_glued :: "string \<Rightarrow> string" where
  "separate_glued (a # b # s) =
     (if lower_letter a \<and> upper_letter b then a # CHR '' '' # separate_glued (b # s) else a # separate_glued (b # s))"
| "separate_glued s = s"

fun collapse_space :: "string \<Rightarrow> string" where
  "collapse_space (a # b # s) =
     (if isspace_c a then (if isspace_c b then collapse_space (b # s) else CHR '' '' # collapse_space (b # s))
      else a # collapse_space (b # s))"
| "collapse_space [a] = (if isspace_c a then '' '' else [a])"
| "collapse_space [] = []"

definition ids_apart :: "string \<Rightarrow> string \<Rightarrow> bool" where
  "ids_apart before next \<longleftrightarrow> (case before of [] \<Rightarrow> True | c # _ \<Rightarrow> \<not> isdecimal_c c)"

definition ids_end :: "string \<Rightarrow> string \<Rightarrow> bool" where
  "ids_end before next \<longleftrightarrow> (case next of [] \<Rightarrow> True | c # _ \<Rightarrow> \<not> isdecimal_c c)"

definition personal_id_re :: regex where
  "personal_id_re = RSeq (RLook ids_apart) (RSeq (RAlt (rpow 11 digit_re) (rpow 14 digit_re)) (RLook ids_end))"

definition removed_document :: string where
  "removed_document = ''[documento removido]''"

definition redact_personal_ids :: "string \<Rightarrow> string" where
  "redact_personal_ids s = re_sub personal_id_re (\<lambda>_. removed_document) [] s"

definition normalize_step_text :: "codec \<Rightarrow> json \<Rightarrow> string" where
  "normalize_step_text k v =
     (let t0 = map (\<lambda>c. if ord c = 160 then CHR '' '' else c) (text_or_empty (cd_repr k) v);
          t1 = drop_leading leading_step_number_re t0;
          t2 = re_sub eletronica_refer_re (\<lambda>_. ''ELETR'' @ [CHR 0xD4] @ ''NICA REFER'') [] t1;
          t3 = separate_glued t2;
          t4 = strip (collapse_space t3)
      in redact_personal_ids t4)"

definition source_step_number_keys :: "string list" where
  "source_step_number_keys = [''source_step_number'', ''step_number'', ''event_number'', ''movement_number'', ''sequence_number'']"

fun source_step_number_among :: "(string \<times> json) list \<Rightarrow> string list \<Rightarrow> json res" where
  "source_step_number_among step [] = Inr JNull"
| "source_step_number_among step (key # keys) = (case obj_get step key of
     JInt i \<Rightarrow> Inr (if 0 \<le> i then JInt i else JNull)
   | JStr s \<Rightarrow> (let candidate = strip s in
       if candidate \<noteq> [] \<and> list_all isdigit_c candidate
       then (case py_int candidate of
               None \<Rightarrow> Inl (ValueError ''invalid literal for int() with base 10'') | Some i \<Rightarrow> Inr (JInt i))
       else source_step_number_among step keys)
   | _ \<Rightarrow> source_step_number_among step keys)"

definition source_step_number :: "(string \<times> json) list \<Rightarrow> json res" where
  "source_step_number step = source_step_number_among step source_step_number_keys"

subsection \<open>The fields kept of a process\<close>

definition secret_header_keys :: "string list" where
  "secret_header_keys = [''instance'', ''area'', ''justice_description'', ''county'', ''state'', ''city'']"

definition public_header_keys :: "string list" where
  "public_header_keys = ''name'' # secret_header_keys @ [''amount'']"

text \<open>\<open>v and isinstance(v[0], dict)\<close>.\<close>

definition first_object :: "json \<Rightarrow> (string \<times> json) list option res" where
  "first_object v = (if truthy v then res_bind (first_item v) (\<lambda>x. Inr (obj_of x)) else Inr None)"

definition class_fields :: "(string \<times> json) list \<Rightarrow> (json \<times> json) res" where
  "class_fields process =
     res_bind (first_object (py_or (obj_get process ''classifications'') (JArr []))) (\<lambda>c.
       let name = (case c of None \<Rightarrow> JNull | Some o' \<Rightarrow> obj_get o' ''name'');
           code = (case c of None \<Rightarrow> JNull | Some o' \<Rightarrow> obj_get o' ''code'')
       in Inr (py_or (py_or name (obj_get process ''class_name'')) (obj_get process ''class''), code))"

definition court_of :: "(string \<times> json) list \<Rightarrow> json res" where
  "court_of process =
     (let court = py_or (obj_get process ''tribunal_acronym'') (obj_get process ''court'') in
      if truthy court then Inr court
      else res_bind (first_object (py_or (obj_get process ''courts'') (JArr []))) (\<lambda>c. Inr (case c of
        None \<Rightarrow> court | Some o' \<Rightarrow> py_or (obj_get o' ''name'') (obj_get o' ''code''))))"

definition secrecy_of :: "(string \<times> json) list \<Rightarrow> int res" where
  "secrecy_of process =
     (case int_value (py_or (py_or (obj_get process ''secrecy_level'') (obj_get process ''secrecyLevel'')) (JInt 0)) of
        None \<Rightarrow> Inl (ValueError ''invalid secrecy level'') | Some i \<Rightarrow> Inr i)"

definition code_of :: "codec \<Rightarrow> (string \<times> json) list \<Rightarrow> json" where
  "code_of k process =
     (let raw = py_or (obj_get process ''code'') (obj_get process ''process_code'') in
      if \<not> truthy raw then JNull
      else case normalize_cnj (py_str (cd_repr k) raw) of
        Inr code \<Rightarrow> JStr code
      | Inl _ \<Rightarrow> optional_text (nonempty (strip (py_str (cd_repr k) raw))))"

definition header_of :: "codec \<Rightarrow> (string \<times> json) list \<Rightarrow> int \<Rightarrow> json \<Rightarrow> (string \<times> json) list" where
  "header_of k process secrecy class_code =
     map (\<lambda>key. (key, obj_get process key))
       (filter (\<lambda>key. obj_get process key \<noteq> JNull) (if 0 < secrecy then secret_header_keys else public_header_keys)) @
     (if secrecy = 0 \<and> class_code \<noteq> JNull then
        (let rendered = strip (py_str (cd_repr k) class_code) in
         if rendered = [] then [] else [(''class_code'', JStr rendered)])
      else [])"

fun or_all :: "(string \<times> json) list \<Rightarrow> string list \<Rightarrow> json" where
  "or_all process [] = JNull"
| "or_all process [key] = obj_get process key"
| "or_all process (key # keys) = py_or (obj_get process key) (or_all process keys)"

definition extract_step ::
  "codec \<Rightarrow> (string \<times> json) list \<Rightarrow> json \<Rightarrow> json \<Rightarrow> int \<Rightarrow> nat \<Rightarrow> (string \<times> json) list \<Rightarrow> step_input res" where
  "extract_step k process code court secrecy index step =
     (let step_date = or_all step [''step_date'', ''occurred_at'', ''date'', ''datetime''];
          step_type = or_all step [''step_type'', ''title'', ''type''];
          raw_text = py_or (or_all step [''content'', ''text'', ''description'']) (JStr []);
          occurred = parse_datetime k step_date
      in res_bind (source_step_number step) (\<lambda>source.
        Inr \<lparr>si_number = int index, si_occurred = map_option At occurred, si_title = step_type,
             si_text = JStr (normalize_step_text k raw_text),
             si_metadata = JObj [(''cnj'', code), (''instance'', obj_get process ''instance''), (''court'', court),
               (''type'', step_type), (''step_id'', obj_get step ''step_id''), (''step_number'', JInt (int index)),
               (''source_step_number'', source), (''private'', obj_get step ''private''), (''secrecy_level'', JInt secrecy),
               (''tags'', py_or (obj_get step ''tags'') (JObj [])), (''source_step_date'', step_date),
               (''occurred_at_sao_paulo'', case occurred of None \<Rightarrow> JNull | Some t \<Rightarrow> JStr (cd_iso k t))]\<rparr>))"

fun extract_steps ::
  "codec \<Rightarrow> (string \<times> json) list \<Rightarrow> json \<Rightarrow> json \<Rightarrow> int \<Rightarrow> nat \<Rightarrow> json list \<Rightarrow> step_input list res" where
  "extract_steps k process code court secrecy index [] = Inr []"
| "extract_steps k process code court secrecy index (x # xs) = (case x of
     JObj step \<Rightarrow> res_bind (extract_step k process code court secrecy index step) (\<lambda>s.
       res_bind (extract_steps k process code court secrecy (Suc index) xs) (\<lambda>ss. Inr (s # ss)))
   | _ \<Rightarrow> extract_steps k process code court secrecy (Suc index) xs)"

definition extract_promotable_fields :: "codec \<Rightarrow> (string \<times> json) list \<Rightarrow> promotable res" where
  "extract_promotable_fields k process =
     res_bind (class_fields process) (\<lambda>(class_name, class_code).
     res_bind (court_of process) (\<lambda>court.
     res_bind (secrecy_of process) (\<lambda>secrecy.
       let code = code_of k process; header = JObj (header_of k process secrecy class_code) in
       if 0 < secrecy then
         Inr \<lparr>pf_header = header, pf_parties = [], pf_representatives = [], pf_subjects = [], pf_steps = [],
              pf_attachments = [], pf_court = court, pf_class = class_name, pf_secrecy = secrecy\<rparr>
       else
         res_bind (items_of (or_all process [''steps'', ''movements'', ''events''])) (\<lambda>raw.
         res_bind (extract_steps k process code court secrecy 1 raw) (\<lambda>ss.
         res_bind (safe_parties_and_representatives k process) (\<lambda>(parties, representatives).
         res_bind (safe_subjects k process) (\<lambda>subjects.
         res_bind (safe_attachments k process) (\<lambda>as.
           Inr \<lparr>pf_header = header, pf_parties = parties, pf_representatives = representatives, pf_subjects = subjects,
                pf_steps = ss, pf_attachments = as, pf_court = court, pf_class = class_name,
                pf_secrecy = secrecy\<rparr>))))))))"


subsection \<open>Facts about codes\<close>

definition cnj_format :: "string \<Rightarrow> string" where
  "cnj_format digits = slice 0 7 digits @ ''-'' @ slice 7 9 digits @ ''.'' @ slice 9 13 digits @ ''.'' @
     slice 13 14 digits @ ''.'' @ slice 14 16 digits @ ''.'' @ slice 16 20 digits"

lemma separators_no_digit: "\<not> isdigit_c (CHR ''-'')" "\<not> isdigit_c (CHR ''.'')"
  by (simp_all add: isdigit_c_def isdecimal_c_def)

lemma canonical_format: "canonical_code s \<Longrightarrow> cnj_format (filter isdigit_c s) = s"
  by (clarsimp simp: canonical_code_def list_all2_Cons1 isdecimal_imp_isdigit separators_no_digit cnj_format_def slice_def)

lemma format_canonical: "twenty_digits s \<Longrightarrow> canonical_code (cnj_format s)"
  by (clarsimp simp: twenty_digits_def canonical_code_def numeral_eq_Suc length_Suc_conv cnj_format_def slice_def)

lemma twenty_digits_filter: "twenty_digits s \<Longrightarrow> filter isdigit_c s = s"
  by (auto simp: twenty_digits_def list_all_iff isdecimal_imp_isdigit filter_id_conv)

lemma normalize_cnj_canonical:
  assumes "normalize_cnj v = Inr code"
  shows "canonical_code code"
proof -
  let ?c = "strip v"
  from assms have c: "canonical_code ?c \<or> twenty_digits ?c" and code: "code = cnj_format (filter isdigit_c ?c)"
    by (auto simp: normalize_cnj_def cnj_format_def Let_def split: if_splits)
  from c show ?thesis
  proof
    assume "canonical_code ?c"
    then show ?thesis by (simp add: code canonical_format)
  next
    assume "twenty_digits ?c"
    then show ?thesis by (simp add: code twenty_digits_filter format_canonical)
  qed
qed

lemma canonical_strip:
  assumes "canonical_code s"
  shows "strip s = s"
proof (rule strip_id)
  fix c assume c: "c \<in> set s"
  have "list_all (\<lambda>c. isdecimal_c c \<or> c = CHR ''-'' \<or> c = CHR ''.'') s"
    using assms by (clarsimp simp: canonical_code_def list_all2_Cons1)
  with c have "isdecimal_c c \<or> c = CHR ''-'' \<or> c = CHR ''.''" by (simp add: list_all_iff)
  moreover have "\<not> isspace_c (CHR ''-'')" "\<not> isspace_c (CHR ''.'')" by (simp_all add: isspace_c_def)
  ultimately show "\<not> isspace_c c" using isdecimal_not_space by blast
qed

lemma normalize_cnj_fixed: "canonical_code code \<Longrightarrow> normalize_cnj code = Inr code"
  using canonical_format [of code] by (simp add: normalize_cnj_def canonical_strip cnj_format_def Let_def)

subsection \<open>No personal identifier survives\<close>

text \<open>No maximal run of decimal digits has eleven or fourteen of them; \<open>n\<close> digits precede.\<close>

fun hides_ids :: "nat \<Rightarrow> string \<Rightarrow> bool" where
  "hides_ids n [] \<longleftrightarrow> n \<noteq> 11 \<and> n \<noteq> 14"
| "hides_ids n (c # cs) \<longleftrightarrow>
     (if isdecimal_c c then hides_ids (Suc n) cs else n \<noteq> 11 \<and> n \<noteq> 14 \<and> hides_ids 0 cs)"

abbreviation run_length :: "string \<Rightarrow> nat" where
  "run_length s \<equiv> length (takeWhile isdecimal_c s)"

lemma run_digits:
  "re_run (rpow n digit_re) (b, s, g) = (if n \<le> run_length s then [(rev (take n s) @ b, drop n s, g)] else [])"
proof (induction n arbitrary: b s)
  case (Suc n)
  show ?case by (cases s) (auto simp: digit_re_def Suc [unfolded digit_re_def])
qed simp

lemma ids_end_iff: "m \<le> run_length s \<Longrightarrow> ids_end b (drop m s) \<longleftrightarrow> run_length s = m"
proof (induction s arbitrary: m)
  case (Cons c s)
  then show ?case by (cases m) (auto simp: ids_end_def split: if_splits)
qed (simp add: ids_end_def)

lemma run_personal_id:
  "re_run personal_id_re (b, s, g) =
     (if ids_apart b s \<and> (run_length s = 11 \<or> run_length s = 14)
      then [(rev (take (run_length s) s) @ b, drop (run_length s) s, g)] else [])"
  by (auto simp: personal_id_re_def run_digits ids_end_iff)


lemma re_sub_step:
  "re_sub personal_id_re f b (c # cs) =
     (if isdecimal_c c \<and> ids_apart b (c # cs) \<and> (run_length (c # cs) = 11 \<or> run_length (c # cs) = 14)
      then f [] @ re_sub personal_id_re f (rev (take (run_length (c # cs)) (c # cs)) @ b) (drop (run_length (c # cs)) (c # cs))
      else c # re_sub personal_id_re f (c # b) cs)"
proof -
  have "length (drop (run_length (c # cs)) (c # cs)) \<le> length cs" if "isdecimal_c c" using that by simp
  then show ?thesis by (auto simp: run_personal_id)
qed

lemma hides_ids_append:
  "list_all (\<lambda>c. \<not> isdecimal_c c) m \<Longrightarrow> m \<noteq> [] \<Longrightarrow> n \<noteq> 11 \<Longrightarrow> n \<noteq> 14 \<Longrightarrow> hides_ids n (m @ t) = hides_ids 0 t"
proof (induction m arbitrary: n)
  case (Cons c m)
  then show ?case by (cases m) auto
qed simp

text \<open>At a position with \<open>n\<close> digits before it in the result: either it starts afresh, or it is in a
  run that was left because its length is not that of an identifier.\<close>

lemma redacted_hides:
  assumes "n = 0 \<and> ids_apart b s \<or> n + run_length s \<noteq> 11 \<and> n + run_length s \<noteq> 14 \<and>
      (\<not> ids_apart b s \<or> run_length s = 0)"
  shows "hides_ids n (re_sub personal_id_re (\<lambda>_. removed_document) b s)"
  using assms
proof (induction s arbitrary: b n rule: length_induct)
  case (1 s)
  note IH = "1.IH" [rule_format]
  show ?case
  proof (cases s)
    case Nil
    with "1.prems" show ?thesis by auto
  next
    case (Cons c cs)
    let ?m = "run_length s"
    show ?thesis
    proof (cases "isdecimal_c c")
      case False
      then have "re_sub personal_id_re (\<lambda>_. removed_document) b s =
          c # re_sub personal_id_re (\<lambda>_. removed_document) (c # b) cs"
        by (simp only: Cons re_sub_step) simp
      moreover have "hides_ids 0 (re_sub personal_id_re (\<lambda>_. removed_document) (c # b) cs)"
        using Cons False by (intro IH) (simp_all add: ids_apart_def)
      ultimately show ?thesis using "1.prems" Cons False by auto
    next
      case True
      show ?thesis
      proof (cases "ids_apart b s \<and> (?m = 11 \<or> ?m = 14)")
        case m: True
        let ?b = "rev (take ?m s) @ b" and ?s = "drop ?m s"
        have "re_sub personal_id_re (\<lambda>_. removed_document) b s =
            removed_document @ re_sub personal_id_re (\<lambda>_. removed_document) ?b ?s"
          using m True unfolding Cons by (subst re_sub_step) simp
        moreover have "hides_ids 0 (re_sub personal_id_re (\<lambda>_. removed_document) ?b ?s)"
        proof (rule IH)
          show "length ?s < length s" using True Cons by simp
          have "run_length ?s = 0"
            using ids_end_iff [of ?m s "[]"] by (auto simp: ids_end_def split: list.splits)
          then show "0 = 0 \<and> ids_apart ?b ?s \<or> 0 + run_length ?s \<noteq> 11 \<and> 0 + run_length ?s \<noteq> 14 \<and>
              (\<not> ids_apart ?b ?s \<or> run_length ?s = 0)" by simp
        qed
        moreover have "n = 0" using "1.prems" m by auto
        ultimately show ?thesis
          by (simp add: hides_ids_append removed_document_def isdecimal_c_def)
      next
        case m: False
        have "re_sub personal_id_re (\<lambda>_. removed_document) b s =
            c # re_sub personal_id_re (\<lambda>_. removed_document) (c # b) cs"
          using m True unfolding Cons by (subst re_sub_step) auto
        moreover have "hides_ids (Suc n) (re_sub personal_id_re (\<lambda>_. removed_document) (c # b) cs)"
        proof (rule IH)
          show "length cs < length s" using Cons by simp
          have "n + run_length s \<noteq> 11 \<and> n + run_length s \<noteq> 14" using "1.prems" m by auto
          then show "Suc n = 0 \<and> ids_apart (c # b) cs \<or> Suc n + run_length cs \<noteq> 11 \<and> Suc n + run_length cs \<noteq> 14 \<and>
              (\<not> ids_apart (c # b) cs \<or> run_length cs = 0)"
            using True Cons by (simp add: ids_apart_def)
        qed
        ultimately show ?thesis using True by simp
      qed
    qed
  qed
qed

lemma hides_ids_runs:
  assumes "hides_ids 0 (a @ w @ b)" "list_all isdecimal_c w" "a = [] \<or> \<not> isdecimal_c (last a)"
    and "b = [] \<or> \<not> isdecimal_c (hd b)"
  shows "length w \<noteq> 11 \<and> length w \<noteq> 14"
proof -
  have skip: "hides_ids n (a @ t) \<Longrightarrow> a \<noteq> [] \<Longrightarrow> \<not> isdecimal_c (last a) \<Longrightarrow> hides_ids 0 t" for n t
  proof (induction a arbitrary: n)
    case (Cons c a)
    then show ?case by (cases "a = []") (auto split: if_splits)
  qed simp
  have "hides_ids 0 (w @ b)" using assms(1,3) skip by (cases "a = []") auto
  moreover have "hides_ids n (w @ b) = hides_ids (n + length w) b" for n
    using assms(2) by (induction w arbitrary: n) auto
  ultimately have "hides_ids (length w) b" by simp
  with assms(4) show ?thesis by (cases b) auto
qed

lemma redact_personal_ids_hides: "hides_ids 0 (redact_personal_ids t)"
  unfolding redact_personal_ids_def by (rule redacted_hides) (simp add: ids_apart_def)


subsection \<open>The shape of extracted fields\<close>

lemma lower_c_ord: "ord (lower_c c) = (if (65 \<le> ord c \<and> ord c \<le> 90) \<or> (192 \<le> ord c \<and> ord c \<le> 222 \<and> ord c \<noteq> 215)
    then ord c + 32 else ord c)"
  using ord_lt [of c] by (simp add: lower_c_def ord_char_of)

lemma lower_c_space: "isspace_c (lower_c c) = isspace_c c"
  by (auto simp: isspace_c_def lower_c_ord)

lemma lower_c_lower: "lower_c (lower_c c) = lower_c c"
proof -
  have "\<not> (65 \<le> ord (lower_c c) \<and> ord (lower_c c) \<le> 90)"
    "\<not> (192 \<le> ord (lower_c c) \<and> ord (lower_c c) \<le> 222 \<and> ord (lower_c c) \<noteq> 215)"
    by (auto simp: lower_c_ord)
  then show ?thesis unfolding lower_c_def [of "lower_c c"] by argo
qed

lemma strip_lower_strip: "strip (lower (strip s)) = lower (strip s)"
  using strip_no_space_ends [of s]
  by (intro strip_ends [THEN iffD2]) (auto simp: lower_def hd_map last_map lower_c_space)

lemma lower_lower: "lower (lower s) = lower s"
  by (simp add: lower_def lower_c_lower)

lemma clean_rendered:
  assumes "\<And>t. strip (f t) = f t"
  shows "clean_text (optional_rendered k f v)"
  using assms by (simp add: optional_rendered_def clean_text_def optional_text_def nonempty_def)

lemma safe_attachment_clean:
  assumes "sid \<noteq> []" "strip sid = sid"
  shows "clean_item (safe_attachment k sid a)" "source_id (safe_attachment k sid a) = sid"
proof -
  let ?a = "safe_attachment k sid a"
  have "clean_text (mi_name ?a)" "clean_text (mi_status ?a)"
    by (simp_all add: safe_attachment_def Let_def clean_rendered strip_strip strip_lower_strip)
  moreover have "case mi_status ?a of JStr s \<Rightarrow> lower s = s | _ \<Rightarrow> True"
    by (simp add: safe_attachment_def Let_def optional_rendered_def optional_text_def nonempty_def lower_lower)
  moreover have "instant (mi_date ?a)" by (simp add: safe_attachment_def Let_def instant_def split: option.split)
  ultimately show "clean_item ?a" using assms by (simp add: clean_item_def clean_text_def safe_attachment_def Let_def)
  show "source_id ?a = sid" by (simp add: safe_attachment_def Let_def)
qed

lemma safe_attachments_clean:
  "list_all clean_item (safe_attachments_of k seen xs) \<and> distinct (map source_id (safe_attachments_of k seen xs)) \<and>
   set (map source_id (safe_attachments_of k seen xs)) \<inter> set seen = {}"
proof (induction xs arbitrary: seen)
  case (Cons x xs)
  show ?case
  proof (cases x)
    case (JObj a)
    let ?sid = "strip (text_or_empty (cd_repr k) (obj_get a ''attachment_id''))"
    show ?thesis
    proof (cases "?sid = [] \<or> ?sid \<in> set seen")
      case True
      then show ?thesis using Cons.IH [of seen] JObj by auto
    next
      case False
      then show ?thesis
        using Cons.IH [of "?sid # seen"] safe_attachment_clean [of ?sid k a] JObj strip_strip
        by (auto simp: Let_def)
    qed
  qed (use Cons.IH in simp_all)
qed simp

definition step_shape :: "step_input \<Rightarrow> bool" where
  "step_shape s \<longleftrightarrow> instant (si_occurred s) \<and> is_obj (si_metadata s) \<and>
     (case si_text s of JStr t \<Rightarrow> hides_ids 0 t | _ \<Rightarrow> False)"

lemma extract_step_shape:
  "extract_step k process code court secrecy i step = Inr s \<Longrightarrow> si_number s = int i \<and> step_shape s"
  by (auto simp: extract_step_def Let_def step_shape_def instant_def normalize_step_text_def redact_personal_ids_hides
      split: option.split)

lemma extract_steps_shape:
  "extract_steps k process code court secrecy i xs = Inr ss \<Longrightarrow>
   sorted (map si_number ss) \<and> distinct (map si_number ss) \<and> list_all step_shape ss \<and>
   (\<forall>s \<in> set ss. int i \<le> si_number s \<and> si_number s < int (i + length xs))"
proof (induction xs arbitrary: i ss)
  case (Cons x xs)
  show ?case
  proof (cases x)
    case (JObj step)
    with Cons.prems obtain s us where s: "extract_step k process code court secrecy i step = Inr s"
      and us: "extract_steps k process code court secrecy (Suc i) xs = Inr us" and ss: "ss = s # us" by auto
    from Cons.IH [OF us] extract_step_shape [OF s] show ?thesis
      unfolding ss by (auto simp: less_imp_le)
  qed (use Cons in fastforce)+
qed simp

text \<open>The members a party or representative keeps.\<close>

definition party_shape :: "json \<Rightarrow> bool" where
  "party_shape v = (case v of
     JObj o' \<Rightarrow> set (map fst o') \<subseteq> {''name'', ''side'', ''person_type'', ''masked_person_id'', ''represents''} \<and>
       (case obj_get o' ''masked_person_id'' of
          JNull \<Rightarrow> True
        | JStr m \<Rightarrow> length (filter isdigit_c m) = 2
        | _ \<Rightarrow> False)
   | _ \<Rightarrow> False)"

lemma masked_shape:
  assumes "masked_personal_id d = Inr m" "list_all isdigit_c d"
  shows "length (filter isdigit_c m) = 2"
proof -
  have "filter isdigit_c (drop n d) = drop n d" for n
    using assms(2) by (auto simp: filter_id_conv list_all_iff dest: in_set_dropD)
  then show ?thesis
    using assms(1) by (auto simp: masked_personal_id_def isdigit_c_def isdecimal_c_def split: if_splits)
qed

lemma personal_id_digits: "personal_id_digits k v = Some d \<Longrightarrow> list_all isdigit_c d"
  by (auto simp: personal_id_digits_def list_all_iff Let_def split: json.splits if_splits)

lemma first_document_digits: "first_document k xs = Some d \<Longrightarrow> list_all isdigit_c d"
  by (induction k xs rule: first_document.induct) (auto dest: personal_id_digits split: json.splits option.splits)

lemma party_id_digits: "party_personal_id k party = Inr (Some d) \<Longrightarrow> list_all isdigit_c d"
  by (auto simp: party_personal_id_def dest: personal_id_digits first_document_digits split: option.splits)

lemma safe_party_shape:
  assumes "safe_party_entity k party = Inr (Some e)"
  shows "party_shape (JObj e)" "party_shape (JObj (e @ [(''represents'', JStr n)]))"
proof -
  have masked: "length (filter isdigit_c m) = 2" if "party_personal_id k party = Inr (Some d)" "masked_personal_id d = Inr m" for d m
    by (rule masked_shape [OF that(2) party_id_digits [OF that(1)]])
  let ?base = "[(''name'', JStr (strip (text_or_empty (cd_repr k) (obj_get party ''name'')))),
      (''side'', obj_get party ''side''), (''person_type'', obj_get party ''person_type'')]"
  have "e = ?base \<or> (\<exists>m. e = ?base @ [(''masked_person_id'', JStr m)] \<and> length (filter isdigit_c m) = 2)"
  proof (cases "party_personal_id k party")
    case (Inr pid)
    with assms masked show ?thesis
      by (cases pid) (auto simp: safe_party_entity_def Let_def split: if_splits)
  qed (use assms in \<open>simp add: safe_party_entity_def Let_def split: if_splits\<close>)
  then show "party_shape (JObj e)" "party_shape (JObj (e @ [(''represents'', JStr n)]))"
    by (auto simp: party_shape_def obj_get_def)
qed

lemma split_parties_shape:
  "split_parties k xs = Inr (ps, rs) \<Longrightarrow> list_all party_shape ps \<and> list_all party_shape rs"
proof (induction xs arbitrary: ps rs)
  case (Cons x xs)
  show ?case
  proof (cases x)
    case (JObj party)
    with Cons.prems obtain entity qs us where e: "safe_party_entity k party = Inr entity"
      and r: "split_parties k xs = Inr (qs, us)" by auto
    have IH: "list_all party_shape qs \<and> list_all party_shape us"
      using Cons.IH [OF r] by blast
    show ?thesis
    proof (cases entity)
      case None
      with Cons.prems JObj e r IH show ?thesis by simp
    next
      case (Some en)
      from safe_party_shape [OF e [unfolded Some]] Cons.prems JObj e r IH Some show ?thesis
        by (auto split: if_splits option.splits)
    qed
  qed (use Cons in auto)
qed simp

subsection \<open>Properties of the ingestion\<close>

text \<open>The digits \<open>w\<close> stand alone between \<open>a\<close> and \<open>b\<close>.\<close>

definition stands_alone :: "string \<Rightarrow> string \<Rightarrow> string \<Rightarrow> bool" where
  "stands_alone a w b \<longleftrightarrow> list_all isdecimal_c w \<and> (a = [] \<or> \<not> isdecimal_c (last a)) \<and> (b = [] \<or> \<not> isdecimal_c (hd b))"

definition free_of_ids :: "string \<Rightarrow> bool" where
  "free_of_ids t \<longleftrightarrow> (\<forall>a w b. t = a @ w @ b \<and> stands_alone a w b \<longrightarrow> length w \<noteq> 11 \<and> length w \<noteq> 14)"

lemma hides_free: "hides_ids 0 t \<Longrightarrow> free_of_ids t"
  using hides_ids_runs by (auto simp: free_of_ids_def stands_alone_def)

lemma safe_parties_shape:
  "safe_parties_and_representatives k process = Inr (ps, rs) \<Longrightarrow> list_all party_shape ps \<and> list_all party_shape rs"
  by (auto simp: safe_parties_and_representatives_def dest: split_parties_shape)

lemma header_keys:
  "0 < secrecy \<Longrightarrow> set (map fst (header_of k process secrecy c)) \<subseteq> set secret_header_keys"
  by (auto simp: header_of_def)

text \<open>What an extraction returns, in its two cases.\<close>

lemma extraction_cases:
  assumes "extract_promotable_fields k process = Inr f"
  obtains (secret) c where "0 < pf_secrecy f" "pf_header f = JObj (header_of k process (pf_secrecy f) c)"
      "pf_parties f = []" "pf_representatives f = []" "pf_subjects f = []" "pf_steps f = []" "pf_attachments f = []"
  | (public) c code court raw atts where "pf_secrecy f \<le> 0" "pf_header f = JObj (header_of k process (pf_secrecy f) c)"
      "extract_steps k process code court (pf_secrecy f) 1 raw = Inr (pf_steps f)"
      "safe_parties_and_representatives k process = Inr (pf_parties f, pf_representatives f)"
      "pf_attachments f = safe_attachments_of k [] atts"
proof -
  from assms obtain n c court secrecy where head: "class_fields process = Inr (n, c)" "court_of process = Inr court"
      "secrecy_of process = Inr secrecy"
    by (auto simp: extract_promotable_fields_def)
  note run = assms [unfolded extract_promotable_fields_def, simplified head res_bind_simps prod.case Let_def]
  show thesis
  proof (cases "0 < secrecy")
    case True
    with run show thesis by (intro secret [of c]) auto
  next
    case False
    from run obtain raw atts ss where "extract_steps k process (code_of k process) court secrecy 1 raw = Inr (pf_steps f)"
        "safe_parties_and_representatives k process = Inr (pf_parties f, pf_representatives f)"
        "pf_attachments f = safe_attachments_of k [] atts"
        "pf_secrecy f = secrecy" "pf_header f = JObj (header_of k process secrecy c)"
      by (auto simp: False safe_attachments_def)
    with False show thesis by (intro public) auto
  qed
qed

text \<open>C18: Extraction protects persons. Of a process under secrecy nothing is kept but the court's part
  of the header: no party, representative, subject, step or attachment. Of any process, no step text
  holds a run of eleven or fourteen digits standing alone (a CPF or CNPJ), and a party or
  representative keeps only the listed members, with at most two digits of its identifier.\<close>

theorem extraction_protects_persons:
  assumes "extract_promotable_fields k process = Inr f"
  shows "(0 < pf_secrecy f \<longrightarrow> set (map fst (as_obj (pf_header f))) \<subseteq> set secret_header_keys \<and>
      pf_parties f = [] \<and> pf_representatives f = [] \<and> pf_subjects f = [] \<and> pf_steps f = [] \<and> pf_attachments f = []) \<and>
    (\<forall>s \<in> set (pf_steps f). \<exists>t. si_text s = JStr t \<and> free_of_ids t) \<and>
    list_all party_shape (pf_parties f) \<and> list_all party_shape (pf_representatives f)"
  using assms
proof (cases rule: extraction_cases)
  case (secret c)
  with header_keys [OF secret(1), of k process c] show ?thesis by simp
next
  case (public c code court raw atts)
  have "\<exists>t. si_text s = JStr t \<and> free_of_ids t" if "s \<in> set (pf_steps f)" for s
  proof -
    from extract_steps_shape [OF public(3)] that have "step_shape s" by (simp add: list_all_iff)
    then show ?thesis by (cases "si_text s") (simp_all add: step_shape_def hides_free)
  qed
  with safe_parties_shape [OF public(4)] public(1) show ?thesis by simp
qed

definition sample_process :: "(string \<times> json) list" where
  "sample_process = [(''parties'', JArr [JObj [(''name'', JStr ''a''), (''main_document'', JStr ''12345678901'')]]),
     (''steps'', JArr [JObj [(''text'', JStr ''12345678901'')]]),
     (''attachments'', JArr [JObj [(''attachment_id'', JStr ''7'')]])]"

lemma sample_extracted:
  "case extract_promotable_fields sample_codec sample_process of
     Inr f \<Rightarrow> pf_secrecy f = 0 \<and> length (pf_steps f) = 1 \<and> length (pf_parties f) = 1 \<and> length (pf_attachments f) = 1
   | Inl _ \<Rightarrow> False"
  by code_simp

lemma sample_extraction:
  obtains f where "extract_promotable_fields sample_codec sample_process = Inr f" "length (pf_steps f) = 1"
    "length (pf_parties f) = 1" "length (pf_attachments f) = 1"
  using sample_extracted by (auto split: sum.splits)

theorem extraction_protects_persons_witness:
  "\<exists>f s t. extract_promotable_fields sample_codec sample_process = Inr f \<and> pf_steps f = [s] \<and>
     si_text s = JStr t \<and> free_of_ids t \<and> list_all party_shape (pf_parties f) \<and> pf_parties f \<noteq> []"
proof -
  obtain f where f: "extract_promotable_fields sample_codec sample_process = Inr f" "length (pf_steps f) = 1"
    "length (pf_parties f) = 1" by (rule sample_extraction)
  then obtain s where "pf_steps f = [s]" by (auto simp: length_Suc_conv)
  with extraction_protects_persons [OF f(1)] f show ?thesis by auto
qed

text \<open>C20: What is extracted can be stored. When the database gives back the documents written up to key
  order, the fields extracted from any process have the shape that finalization and comparison rely on:
  an object as header, steps in increasing number, attachments with trimmed texts, dates as instants
  and distinct identifiers.\<close>

theorem extracted_fields_storable:
  assumes "extract_promotable_fields k process = Inr f"
    and "list_all (\<lambda>v. same_doc (cd_store k v) v) (written f)"
  shows "storable k f"
  using assms(1)
proof (cases rule: extraction_cases)
  case (secret c)
  with assms(2) show ?thesis by (simp add: storable_def)
next
  case (public c code court raw atts)
  from extract_steps_shape [OF public(3)] safe_attachments_clean [of k "[]" atts] assms(2) public show ?thesis
    by (simp add: storable_def)
qed

theorem extracted_fields_storable_witness:
  "\<exists>f. extract_promotable_fields sample_codec sample_process = Inr f \<and> storable sample_codec f \<and>
     pf_attachments f \<noteq> []"
proof -
  obtain f where f: "extract_promotable_fields sample_codec sample_process = Inr f" "length (pf_attachments f) = 1"
    by (rule sample_extraction)
  have "list_all (\<lambda>v. same_doc (cd_store sample_codec v) v) (written f)"
    by (simp add: list_all_iff sample_codec_def)
  from extracted_fields_storable [OF f(1) this] f show ?thesis by auto
qed

text \<open>C21: The check for finite numbers ends on every document and is exact: it raises when some number
  in it is infinite or not a number, at whatever depth, and accepts all else.\<close>

theorem finite_check_exact:
  "reject_non_finite_numbers [v] =
     (if finite_json v then Inr () else Inl (ValueError ''webhook payload contains non-finite number''))"
  by (simp add: reject_exact)

text \<open>C19: An accepted event is complete. Its document has only finite numbers; a lawsuit response has
  the canonical code of its process, which normalization keeps, its request and an identifier of the
  response; a completion has its request.\<close>

theorem accepted_events_are_complete:
  assumes "parse_event k v = Inr e"
  shows "v = JObj (ev_raw e) \<and> finite_json v \<and> (request_completed k e \<longrightarrow> ev_request e \<noteq> None) \<and>
    (is_lawsuit_response e \<longrightarrow> ev_request e \<noteq> None \<and> (ev_response e \<noteq> None \<or> ev_callback e \<noteq> None) \<and>
      (\<exists>c. ev_code e = Some c \<and> canonical_code c \<and> normalize_cnj c = Inr c))"
proof -
  from assms obtain kvs where v: "v = JObj kvs"
    by (auto simp: parse_event_def split: json.splits)
  have raw: "ev_raw (read_event k kvs) = kvs" by (simp add: read_event_def Let_def)
  show ?thesis
  proof (cases "is_lawsuit_response (read_event k kvs)")
    case True
    with assms v obtain c raw where "ev_code (read_event k kvs) = Some raw" "normalize_cnj raw = Inr c"
        "check_completion k (read_event k kvs\<lparr>ev_code := Some c\<rparr>) = Inr e" "ev_request (read_event k kvs) \<noteq> None"
        "ev_response (read_event k kvs) \<noteq> None \<or> ev_callback (read_event k kvs) \<noteq> None" "finite_json v"
      by (auto simp: parse_event_def reject_exact Let_def split: option.splits if_splits)
    with v raw show ?thesis
      by (auto simp: check_completion_def normalize_cnj_canonical normalize_cnj_fixed split: if_splits)
  next
    case False
    with assms v raw show ?thesis
      by (auto simp: parse_event_def reject_exact Let_def check_completion_def split: if_splits)
  qed
qed

theorem accepted_events_are_complete_witness:
  "\<exists>e. parse_event sample_codec (JObj [(''event_type'', JStr ''request_completed''), (''reference_id'', JStr ''r'')]) = Inr e \<and>
     ev_request e \<noteq> None"
proof -
  let ?v = "JObj [(''event_type'', JStr ''request_completed''), (''reference_id'', JStr ''r'')]"
  have run: "case parse_event sample_codec ?v of Inr e \<Rightarrow> request_completed sample_codec e | Inl _ \<Rightarrow> False"
    by code_simp
  then obtain e where "parse_event sample_codec ?v = Inr e" "request_completed sample_codec e"
    by (auto split: sum.splits)
  with accepted_events_are_complete [OF this(1)] show ?thesis by blast
qed

end
