(* ===== verification/Datajud.thy ===== *)
theory Datajud
  imports Judit
begin

text \<open>
  \<open>app/datajud_enrichment.py\<close>, \<open>app/datajud_provenance.py\<close> and \<open>app/datajud_client.py\<close>: the official
  metadata of a second source. The client turns the code of a process into the alias of its court and
  the answer of the service into metadata; the merge replaces exactly the fields DataJud is the authority
  for and records for each where its value comes from; the record is stored per version. The exchange
  over HTTP is the parameter \<open>exchange\<close>.
\<close>

subsection \<open>Metadata and provenance\<close>

record datajud_metadata =
  dj_class_name :: "string option"
  dj_class_code :: "string option"
  dj_subjects :: "json list"
  dj_body :: "string option"
  dj_county :: "string option"
  dj_ref :: string

record field_provenance =
  fp_field :: string
  fp_source :: string
  fp_value :: json
  fp_conflict :: bool
  fp_ref :: "string option"

record merge_result =
  mr_process :: promotable
  mr_provenance :: "field_provenance list"
  mr_warnings :: "string list"
  mr_applied :: bool

definition clean_value :: "codec \<Rightarrow> json \<Rightarrow> string option" where
  "clean_value k v = (if v = JNull then None else nonempty (strip (py_str (cd_repr k) v)))"

subsection \<open>Subjects\<close>

definition clean_subject :: "codec \<Rightarrow> json \<Rightarrow> json option" where
  "clean_subject k v = (case v of
     JObj s \<Rightarrow> (let code = clean_value k (obj_get s ''code''); name = clean_value k (obj_get s ''name'') in
       if code = None \<and> name = None then None
       else Some (JObj ((case code of None \<Rightarrow> [] | Some c \<Rightarrow> [(''code'', JStr c)]) @
                        (case name of None \<Rightarrow> [] | Some n \<Rightarrow> [(''name'', JStr n)]))))
   | _ \<Rightarrow> None)"

definition subject_key :: "json \<Rightarrow> json \<times> json" where
  "subject_key item = (obj_get (as_obj item) ''code'', obj_get (as_obj item) ''name'')"

fun unseen_subjects :: "codec \<Rightarrow> (json \<times> json) list \<Rightarrow> json list \<Rightarrow> json list" where
  "unseen_subjects k seen [] = []"
| "unseen_subjects k seen (raw # xs) = (case clean_subject k raw of
     None \<Rightarrow> unseen_subjects k seen xs
   | Some item \<Rightarrow>
       (if subject_key item \<in> set seen then unseen_subjects k seen xs
        else item # unseen_subjects k (subject_key item # seen) xs))"

definition normalize_subjects :: "codec \<Rightarrow> json list \<Rightarrow> json list" where
  "normalize_subjects k xs = unseen_subjects k [] xs"

definition subject_identity :: "codec \<Rightarrow> json list \<Rightarrow> (json \<times> json) set" where
  "subject_identity k xs = set (map subject_key (normalize_subjects k xs))"

subsection \<open>One field\<close>

definition differs :: "string option \<Rightarrow> string option \<Rightarrow> bool" where
  "differs a b = (case (a, b) of (Some s, Some t) \<Rightarrow> casefold s \<noteq> casefold t | _ \<Rightarrow> False)"

definition conflict_warning :: "string \<Rightarrow> string" where
  "conflict_warning field = ''Conflito de metadados entre Judit e DataJud no campo '' @ field @
     ''; o valor oficial do DataJud foi usado no contexto normalizado.''"

definition judit_choice :: "string \<Rightarrow> json \<Rightarrow> field_provenance" where
  "judit_choice field v = \<lparr>fp_field = field, fp_source = ''judit'', fp_value = v, fp_conflict = False, fp_ref = None\<rparr>"

definition datajud_choice :: "string \<Rightarrow> json \<Rightarrow> bool \<Rightarrow> string \<Rightarrow> field_provenance" where
  "datajud_choice field v conflict ref =
     \<lparr>fp_field = field, fp_source = ''datajud'', fp_value = v, fp_conflict = conflict, fp_ref = Some ref\<rparr>"

definition select_scalar ::
  "codec \<Rightarrow> string \<Rightarrow> json \<Rightarrow> string option \<Rightarrow> string \<Rightarrow> json \<times> field_provenance \<times> string list" where
  "select_scalar k field judit official ref =
     (case clean_value k (optional_text official) of
        None \<Rightarrow> (judit, judit_choice field judit, [])
      | Some t \<Rightarrow> (let conflict = differs (clean_value k judit) (Some t) in
          (JStr t, datajud_choice field (JStr t) conflict ref, if conflict then [conflict_warning field] else [])))"

text \<open>\<open>d[key] = v\<close>.\<close>

fun obj_put :: "string \<Rightarrow> json \<Rightarrow> (string \<times> json) list \<Rightarrow> (string \<times> json) list" where
  "obj_put key v [] = [(key, v)]"
| "obj_put key v ((key', v') # d) = (if key = key' then (key', v) # d else (key', v') # obj_put key v d)"

definition put_given :: "string \<Rightarrow> json \<Rightarrow> (string \<times> json) list \<Rightarrow> (string \<times> json) list" where
  "put_given key v d = (if v = JNull then d else obj_put key v d)"

definition select_subjects :: "codec \<Rightarrow> json list \<Rightarrow> json list \<Rightarrow> string \<Rightarrow> json list \<times> field_provenance \<times> string list" where
  "select_subjects k judit official ref =
     (let ours = normalize_subjects k judit; theirs = normalize_subjects k official in
      if theirs = [] then (ours, judit_choice ''subjects'' (JArr ours), [])
      else let conflict = ours \<noteq> [] \<and> subject_identity k ours \<noteq> subject_identity k theirs in
        (theirs, datajud_choice ''subjects'' (JArr theirs) conflict ref,
         if conflict then [conflict_warning ''subjects''] else []))"

subsection \<open>The merge\<close>

definition merge_datajud_metadata :: "codec \<Rightarrow> promotable \<Rightarrow> datajud_metadata option \<Rightarrow> merge_result" where
  "merge_datajud_metadata k f datajud =
     (case datajud of
        None \<Rightarrow> \<lparr>mr_process = f, mr_provenance = [], mr_warnings = [], mr_applied = False\<rparr>
      | Some m \<Rightarrow>
          (if 0 < pf_secrecy f then \<lparr>mr_process = f, mr_provenance = [], mr_warnings = [], mr_applied = False\<rparr>
           else let h0 = as_obj (py_or (pf_header f) (JObj []));
               (cls, p1, w1) = select_scalar k ''class_name'' (pf_class f) (dj_class_name m) (dj_ref m);
               (code, p2, w2) = select_scalar k ''class_code'' (obj_get h0 ''class_code'') (dj_class_code m) (dj_ref m);
               h1 = put_given ''class_code'' code h0;
               (body, p3, w3) = select_scalar k ''adjudicating_body'' (obj_get h1 ''adjudicating_body'') (dj_body m) (dj_ref m);
               h2 = put_given ''adjudicating_body'' body h1;
               (county, p4, w4) = select_scalar k ''county'' (obj_get h2 ''county'') (dj_county m) (dj_ref m);
               h3 = put_given ''county'' county h2;
               (subjects, p5, w5) = select_subjects k (pf_subjects f) (dj_subjects m) (dj_ref m)
             in \<lparr>mr_process = f\<lparr>pf_class := cls, pf_subjects := subjects, pf_header := JObj h3\<rparr>,
                 mr_provenance = [p1, p2, p3, p4, p5], mr_warnings = w1 @ w2 @ w3 @ w4 @ w5, mr_applied = True\<rparr>))"

subsection \<open>Stored provenance\<close>

definition provenance_fields :: "string list" where
  "provenance_fields = [''class_name'', ''class_code'', ''subjects'', ''adjudicating_body'', ''county'']"

definition blank_sql :: "string \<Rightarrow> bool" where
  "blank_sql s \<longleftrightarrow> list_all (\<lambda>c. c = CHR '' '') s"

text \<open>The checks, the primary key and the scope trigger of \<open>sql/028\<close>.\<close>

definition provenance_ok :: "provenance_row \<Rightarrow> db \<Rightarrow> bool" where
  "provenance_ok r d \<longleftrightarrow> pr_field r \<in> set provenance_fields \<and> pr_source r \<in> {''judit'', ''datajud''} \<and>
     (pr_source r = ''datajud'' \<longrightarrow> (case pr_ref r of None \<Rightarrow> False | Some s \<Rightarrow> \<not> blank_sql s)) \<and>
     \<not> (\<exists>q \<in> set (provenance_rows d). pr_version q = pr_version r \<and> pr_field q = pr_field r) \<and>
     (\<exists>v \<in> set (versions d). v_id v = pr_version r \<and> v_process v = pr_process r)"

definition new_provenance :: "codec \<Rightarrow> uuid \<Rightarrow> uuid \<Rightarrow> field_provenance \<Rightarrow> provenance_row" where
  "new_provenance k pid vid p = \<lparr>pr_process = pid, pr_version = vid, pr_field = fp_field p, pr_source = fp_source p,
     pr_value = cd_store k (fp_value p), pr_conflict = fp_conflict p, pr_ref = fp_ref p\<rparr>"

definition insert_provenance :: "provenance_row \<Rightarrow> (db, unit) prog" where
  "insert_provenance r = bind (query (provenance_ok r)) (\<lambda>good.
     if good then modify (\<lambda>d. d\<lparr>provenance_rows := provenance_rows d @ [r]\<rparr>)
     else raise (DatabaseError ''provenance constraint''))"

definition delete_provenance :: "uuid \<Rightarrow> db \<Rightarrow> db" where
  "delete_provenance vid d = d\<lparr>provenance_rows := filter (\<lambda>r. pr_version r \<noteq> vid) (provenance_rows d)\<rparr>"

definition replace_datajud_field_provenance :: "codec \<Rightarrow> uuid \<Rightarrow> uuid \<Rightarrow> merge_result \<Rightarrow> (db, unit) prog" where
  "replace_datajud_field_provenance k pid vid result =
     transaction (then_do (modify (delete_provenance vid))
       (if mr_provenance result = [] then ret ()
        else for_each (\<lambda>p. insert_provenance (new_provenance k pid vid p)) (mr_provenance result)))"

definition provenance_of :: "codec \<Rightarrow> uuid \<Rightarrow> uuid \<Rightarrow> db \<Rightarrow> provenance_row list" where
  "provenance_of k pid vid d =
     sort_key (\<lambda>r. cd_collate k (pr_field r))
       (filter (\<lambda>r. pr_process r = pid \<and> pr_version r = vid) (provenance_rows d))"

fun decode_provenance :: "codec \<Rightarrow> provenance_row list \<Rightarrow> field_provenance list res" where
  "decode_provenance k [] = Inr []"
| "decode_provenance k (r # rs) =
     res_bind (decode_json_value (cd_parse k) (pr_value r)) (\<lambda>v. res_bind (decode_provenance k rs) (\<lambda>ps.
       Inr (\<lparr>fp_field = pr_field r, fp_source = pr_source r, fp_value = v, fp_conflict = pr_conflict r,
             fp_ref = pr_ref r\<rparr> # ps)))"

definition load_datajud_field_provenance :: "codec \<Rightarrow> uuid \<Rightarrow> uuid \<Rightarrow> db \<Rightarrow> field_provenance list res" where
  "load_datajud_field_provenance k pid vid d = decode_provenance k (provenance_of k pid vid d)"

definition load_datajud_conflict_warnings :: "codec \<Rightarrow> uuid \<Rightarrow> uuid \<Rightarrow> db \<Rightarrow> string list" where
  "load_datajud_conflict_warnings k pid vid d =
     map (\<lambda>r. conflict_warning (pr_field r))
       (filter (\<lambda>r. pr_conflict r \<and> pr_source r = ''datajud'') (provenance_of k pid vid d))"

text \<open>\<open>item[key]\<close>.\<close>

definition item_at :: "(string \<times> json) list \<Rightarrow> string \<Rightarrow> json res" where
  "item_at o' key = (case map_of o' key of None \<Rightarrow> Inl (KeyError key) | Some v \<Rightarrow> Inr v)"

fun provenance_from_dicts :: "codec \<Rightarrow> (string \<times> json) list list \<Rightarrow> field_provenance list res" where
  "provenance_from_dicts k [] = Inr []"
| "provenance_from_dicts k (item # items) =
     res_bind (item_at item ''field'') (\<lambda>field.
     res_bind (item_at item ''selected_source'') (\<lambda>source.
     res_bind (provenance_from_dicts k items) (\<lambda>ps.
       Inr (\<lparr>fp_field = py_str (cd_repr k) field, fp_source = py_str (cd_repr k) source,
             fp_value = obj_get item ''selected_value'', fp_conflict = truthy (obj_get item ''conflict''),
             fp_ref = (if obj_get item ''source_ref'' = JNull then None
                       else Some (strip (py_str (cd_repr k) (obj_get item ''source_ref''))))\<rparr> # ps))))"

subsection \<open>The court of a code\<close>

definition state_tr_to_uf :: "(string \<times> string) list" where
  "state_tr_to_uf = [(''01'', ''ac''), (''02'', ''al''), (''03'', ''ap''), (''04'', ''am''), (''05'', ''ba''), (''06'', ''ce''),
     (''07'', ''df''), (''08'', ''es''), (''09'', ''go''), (''10'', ''ma''), (''11'', ''mt''), (''12'', ''ms''), (''13'', ''mg''),
     (''14'', ''pa''), (''15'', ''pb''), (''16'', ''pr''), (''17'', ''pe''), (''18'', ''pi''), (''19'', ''rj''), (''20'', ''rn''),
     (''21'', ''rs''), (''22'', ''ro''), (''23'', ''rr''), (''24'', ''sc''), (''25'', ''se''), (''26'', ''sp''), (''27'', ''to'')]"

definition military_aliases :: "(string \<times> string) list" where
  "military_aliases = [(''13'', ''tjmmg''), (''21'', ''tjmrs''), (''26'', ''tjmsp'')]"

definition court_alias :: "char \<Rightarrow> string \<Rightarrow> string option" where
  "court_alias segment tribunal =
     (let n = digits_value 0 tribunal in
      if segment = CHR ''4'' \<and> tribunal \<in> {''01'', ''02'', ''03'', ''04'', ''05'', ''06''} then Some (''trf'' @ show_nat n)
      else if segment = CHR ''5'' \<and> tribunal = ''00'' then Some ''tst''
      else if segment = CHR ''5'' \<and> 1 \<le> n \<and> n \<le> 24 then Some (''trt'' @ show_nat n)
      else if segment = CHR ''6'' \<and> tribunal = ''00'' then Some ''tse''
      else if segment = CHR ''6'' \<and> map_of state_tr_to_uf tribunal \<noteq> None
        then map_option (\<lambda>uf. ''tre-'' @ uf) (map_of state_tr_to_uf tribunal)
      else if segment = CHR ''7'' \<and> tribunal = ''00'' then Some ''stm''
      else if segment = CHR ''8'' \<and> map_of state_tr_to_uf tribunal \<noteq> None
        then map_option (\<lambda>uf. ''tj'' @ uf) (map_of state_tr_to_uf tribunal)
      else if segment = CHR ''9'' then map_of military_aliases tribunal
      else None)"

definition datajud_alias_from_cnj :: "string \<Rightarrow> string res" where
  "datajud_alias_from_cnj code = res_bind (normalize_cnj code) (\<lambda>canonical.
     let digits = filter isdigit_c canonical in
       case court_alias (digits ! 13) (slice 14 16 digits) of
         Some a \<Rightarrow> Inr a
       | None \<Rightarrow> Inl (ValueError ''unsupported DataJud tribunal segment/TR for CNJ''))"

subsection \<open>The lookup\<close>

datatype lookup_status = LookupOk | LookupDisabled | LookupSkippedSecrecy | LookupNotFound | LookupAuthError
  | LookupUnavailable

record lookup_result =
  lk_status :: lookup_status
  lk_metadata :: "datajud_metadata option"
  lk_error :: "string option"

record datajud_config =
  dc_enabled :: bool
  dc_authorized :: bool
  dc_key :: "string option"
  dc_base :: string

definition env_bool :: "(string \<Rightarrow> string option) \<Rightarrow> string \<Rightarrow> bool \<Rightarrow> bool res" where
  "env_bool env name dflt = (case env name of
     None \<Rightarrow> Inr dflt
   | Some raw \<Rightarrow> (let value = lower (strip raw) in
       if value \<in> {''1'', ''true'', ''yes'', ''on''} then Inr True
       else if value \<in> {''0'', ''false'', ''no'', ''off''} then Inr False
       else Inl (RuntimeError (name @ '' must be a boolean''))))"

definition env_or :: "(string \<Rightarrow> string option) \<Rightarrow> string \<Rightarrow> string \<Rightarrow> string" where
  "env_or env name dflt = (case env name of None \<Rightarrow> dflt | Some s \<Rightarrow> (if s = [] then dflt else s))"

text \<open>\<open>timeout\<close> is \<open>float\<close> followed by the test that the value is finite and positive.\<close>

definition datajud_config_of :: "(string \<Rightarrow> bool option) \<Rightarrow> (string \<Rightarrow> string option) \<Rightarrow> datajud_config res" where
  "datajud_config_of timeout env =
     res_bind (env_bool env ''DATAJUD_ENABLED'' False) (\<lambda>enabled.
     res_bind (env_bool env ''DATAJUD_AUTHORIZED_USE'' False) (\<lambda>authorized.
       let key = nonempty (strip (env_or env ''DATAJUD_API_KEY'' []));
           base = rstrip_by (\<lambda>c. c = CHR ''/'') (strip (env_or env ''DATAJUD_BASE_URL'' ''https://api-publica.datajud.cnj.jus.br''))
       in case timeout (strip (env_or env ''DATAJUD_TIMEOUT_SECONDS'' ''20.0'')) of
            None \<Rightarrow> Inl (RuntimeError ''DATAJUD_TIMEOUT_SECONDS must be numeric'')
          | Some False \<Rightarrow> Inl (RuntimeError ''DATAJUD_TIMEOUT_SECONDS must be a finite number greater than zero'')
          | Some True \<Rightarrow>
              if enabled \<and> \<not> authorized
              then Inl (RuntimeError ''DATAJUD_ENABLED requires DATAJUD_AUTHORIZED_USE=true after deployment/legal review'')
              else if enabled \<and> key = None then Inl (RuntimeError ''DATAJUD_ENABLED requires DATAJUD_API_KEY'')
              else if \<not> prefix ''https://'' base then Inl (RuntimeError ''DATAJUD_BASE_URL must use https'')
              else Inr \<lparr>dc_enabled = enabled, dc_authorized = authorized, dc_key = key, dc_base = base\<rparr>))"

definition source_subject :: "codec \<Rightarrow> json \<Rightarrow> json list" where
  "source_subject k raw = (case raw of
     JObj s \<Rightarrow> (let code = clean_value k (obj_get s ''codigo''); name = clean_value k (obj_get s ''nome'');
           item = (case code of None \<Rightarrow> [] | Some c \<Rightarrow> [(''code'', JStr c)]) @
                  (case name of None \<Rightarrow> [] | Some n \<Rightarrow> [(''name'', JStr n)])
       in if item = [] then [] else [JObj item])
   | _ \<Rightarrow> [])"

definition metadata_from_source :: "codec \<Rightarrow> (string \<times> json) list \<Rightarrow> string \<Rightarrow> datajud_metadata" where
  "metadata_from_source k source ref =
     (let cls = as_obj (obj_get source ''classe''); body = as_obj (obj_get source ''orgaoJulgador'') in
      \<lparr>dj_class_name = clean_value k (obj_get cls ''nome''), dj_class_code = clean_value k (obj_get cls ''codigo''),
       dj_subjects = concat (map (source_subject k) (as_arr (obj_get source ''assuntos''))),
       dj_body = clean_value k (obj_get body ''nome''), dj_county = clean_value k (obj_get source ''comarca''),
       dj_ref = ref\<rparr>)"

text \<open>What the exchange over HTTP comes to; the body is None when its bytes are no UTF-8.\<close>

datatype http_answer = TooLarge | HttpFailure int | TransportFailure | Body "string option"

definition answered :: "lookup_status \<Rightarrow> datajud_metadata option \<Rightarrow> string option \<Rightarrow> lookup_result" where
  "answered st m e = \<lparr>lk_status = st, lk_metadata = m, lk_error = e\<rparr>"

definition read_hits :: "codec \<Rightarrow> string \<Rightarrow> json \<Rightarrow> lookup_result" where
  "read_hits k endpoint payload =
     (case as_arr (obj_get (as_obj (obj_get (as_obj payload) ''hits'')) ''hits'') of
        [] \<Rightarrow> answered LookupNotFound None None
      | first # _ \<Rightarrow> (case obj_get (as_obj first) ''_source'' of
          JObj source \<Rightarrow> answered LookupOk (Some (metadata_from_source k source endpoint)) None
        | _ \<Rightarrow> answered LookupUnavailable None (Some ''missing_source'')))"

definition perform_lookup :: "codec \<Rightarrow> string \<Rightarrow> http_answer \<Rightarrow> lookup_result" where
  "perform_lookup k endpoint answer = (case answer of
     TooLarge \<Rightarrow> answered LookupUnavailable None (Some ''response_too_large'')
   | HttpFailure code \<Rightarrow> answered (if code \<in> {401, 403} then LookupAuthError else LookupUnavailable) None
       (Some (''http_'' @ show_int code))
   | TransportFailure \<Rightarrow> answered LookupUnavailable None (Some ''transport_error'')
   | Body raw \<Rightarrow> (case raw of
       None \<Rightarrow> answered LookupUnavailable None (Some ''invalid_json'')
     | Some text \<Rightarrow> (case loads_strict_json (cd_parse k) text of
         Inl _ \<Rightarrow> answered LookupUnavailable None (Some ''invalid_json'')
       | Inr payload \<Rightarrow> read_hits k endpoint payload)))"

text \<open>\<open>exchange endpoint key digits\<close> asks for the process with these digits.\<close>

type_synonym exchange = "string \<Rightarrow> string \<Rightarrow> string \<Rightarrow> http_answer"

definition lookup_datajud_metadata ::
  "codec \<Rightarrow> exchange \<Rightarrow> datajud_config res \<Rightarrow> string \<Rightarrow> int \<Rightarrow> lookup_result res" where
  "lookup_datajud_metadata k exchange config code secrecy =
     (if 0 < secrecy then Inr (answered LookupSkippedSecrecy None None)
      else res_bind config (\<lambda>c.
        if \<not> dc_enabled c then Inr (answered LookupDisabled None None)
        else case dc_key c of
            None \<Rightarrow> Inl (RuntimeError ''enabled DataJud lookup requires authorized use and an API key'')
          | Some key \<Rightarrow>
              if \<not> dc_authorized c \<or> key = []
              then Inl (RuntimeError ''enabled DataJud lookup requires authorized use and an API key'')
              else case datajud_alias_from_cnj code of
                Inl _ \<Rightarrow> Inr (answered LookupUnavailable None (Some ''unsupported_tribunal''))
              | Inr name \<Rightarrow>
                  let endpoint = dc_base c @ ''/api_publica_'' @ name @ ''/_search'' in
                    res_bind (normalize_cnj code) (\<lambda>canonical.
                      Inr (perform_lookup k endpoint (exchange endpoint key (filter isdigit_c canonical))))))"

subsection \<open>Facts about the merge\<close>

lemma differs_None [simp]: "differs None b = False" "differs a None = False"
  by (simp_all add: differs_def split: option.split)

lemma obj_put_get: "obj_get (obj_put key v d) key' = (if key' = key then v else obj_get d key')"
  by (induction d) (auto simp: obj_get_def)

lemma put_given_get: "obj_get (put_given key v d) key' = (if key' = key \<and> v \<noteq> JNull then v else obj_get d key')"
  by (simp add: put_given_def obj_put_get)

text \<open>The value of a field in the extracted fields, and the one DataJud gives it.\<close>

definition field_value :: "promotable \<Rightarrow> string \<Rightarrow> json" where
  "field_value f field = (if field = ''class_name'' then pf_class f else if field = ''subjects'' then JArr (pf_subjects f)
     else obj_get (as_obj (pf_header f)) field)"

definition official_value :: "codec \<Rightarrow> datajud_metadata \<Rightarrow> string \<Rightarrow> json option" where
  "official_value k m field =
     (let scalar = (\<lambda>v. map_option JStr (clean_value k (optional_text v))) in
      if field = ''subjects'' then
        (if normalize_subjects k (dj_subjects m) = [] then None else Some (JArr (normalize_subjects k (dj_subjects m))))
      else if field = ''class_name'' then scalar (dj_class_name m)
      else if field = ''class_code'' then scalar (dj_class_code m)
      else if field = ''adjudicating_body'' then scalar (dj_body m)
      else if field = ''county'' then scalar (dj_county m) else None)"

definition in_conflict :: "codec \<Rightarrow> promotable \<Rightarrow> string \<Rightarrow> json \<Rightarrow> bool" where
  "in_conflict k f field v =
     (if field = ''subjects''
      then normalize_subjects k (pf_subjects f) \<noteq> [] \<and> subject_identity k (normalize_subjects k (pf_subjects f)) \<noteq>
        subject_identity k (as_arr v)
      else (case v of JStr t \<Rightarrow> differs (clean_value k (field_value f field)) (Some t) | _ \<Rightarrow> False))"

definition decision_ok :: "codec \<Rightarrow> datajud_metadata \<Rightarrow> promotable \<Rightarrow> promotable \<Rightarrow> field_provenance \<Rightarrow> bool" where
  "decision_ok k m f g p \<longleftrightarrow> fp_value p = field_value g (fp_field p) \<and>
     (case official_value k m (fp_field p) of
        None \<Rightarrow> fp_source p = ''judit'' \<and> \<not> fp_conflict p \<and> fp_ref p = None \<and>
          fp_value p = (if fp_field p = ''subjects'' then JArr (normalize_subjects k (pf_subjects f))
                        else field_value f (fp_field p))
      | Some v \<Rightarrow> fp_source p = ''datajud'' \<and> fp_value p = v \<and> fp_ref p = Some (dj_ref m) \<and>
          fp_conflict p = in_conflict k f (fp_field p) v)"

lemma select_scalar_cases:
  "select_scalar k field judit official ref =
     (case map_option JStr (clean_value k (optional_text official)) of
        None \<Rightarrow> (judit, judit_choice field judit, [])
      | Some v \<Rightarrow> (v, datajud_choice field v (differs (clean_value k judit) (case v of JStr t \<Rightarrow> Some t | _ \<Rightarrow> None)) ref,
          if differs (clean_value k judit) (case v of JStr t \<Rightarrow> Some t | _ \<Rightarrow> None) then [conflict_warning field] else []))"
  by (simp add: select_scalar_def Let_def split: option.split)

text \<open>One decision of the merge, with the value it leaves in the header.\<close>

lemma scalar_decision:
  assumes "select_scalar k field judit official ref = (v, p, w)"
  shows "fp_field p = field \<and> fp_value p = v \<and> w = (if fp_conflict p then [conflict_warning field] else []) \<and>
    (case map_option JStr (clean_value k (optional_text official)) of
       None \<Rightarrow> v = judit \<and> fp_source p = ''judit'' \<and> \<not> fp_conflict p \<and> fp_ref p = None
     | Some u \<Rightarrow> v = u \<and> v \<noteq> JNull \<and> fp_source p = ''datajud'' \<and> fp_ref p = Some ref \<and>
         fp_conflict p = (case u of JStr t \<Rightarrow> differs (clean_value k judit) (Some t) | _ \<Rightarrow> False))"
  using assms by (auto simp: select_scalar_def judit_choice_def datajud_choice_def Let_def split: option.splits)

lemma subjects_decision:
  assumes "select_subjects k judit official ref = (xs, p, w)"
  shows "fp_field p = ''subjects'' \<and> fp_value p = JArr xs \<and> w = (if fp_conflict p then [conflict_warning ''subjects''] else []) \<and>
    (if normalize_subjects k official = []
     then xs = normalize_subjects k judit \<and> fp_source p = ''judit'' \<and> \<not> fp_conflict p \<and> fp_ref p = None
     else xs = normalize_subjects k official \<and> fp_source p = ''datajud'' \<and> fp_ref p = Some ref \<and>
       fp_conflict p = (normalize_subjects k judit \<noteq> [] \<and>
         subject_identity k (normalize_subjects k judit) \<noteq> subject_identity k (normalize_subjects k official)))"
  using assms by (auto simp: select_subjects_def judit_choice_def datajud_choice_def Let_def split: if_splits)

text \<open>A merge that applies, in its parts.\<close>

lemma merge_parts:
  assumes "pf_secrecy f \<le> 0"
  obtains cls p1 w1 code p2 w2 body p3 w3 county p4 w4 subjects p5 w5 h1 h2 h3 where
    "select_scalar k ''class_name'' (pf_class f) (dj_class_name m) (dj_ref m) = (cls, p1, w1)"
    "select_scalar k ''class_code'' (obj_get (as_obj (pf_header f)) ''class_code'') (dj_class_code m) (dj_ref m) = (code, p2, w2)"
    "h1 = put_given ''class_code'' code (as_obj (pf_header f))"
    "select_scalar k ''adjudicating_body'' (obj_get h1 ''adjudicating_body'') (dj_body m) (dj_ref m) = (body, p3, w3)"
    "h2 = put_given ''adjudicating_body'' body h1"
    "select_scalar k ''county'' (obj_get h2 ''county'') (dj_county m) (dj_ref m) = (county, p4, w4)"
    "h3 = put_given ''county'' county h2"
    "select_subjects k (pf_subjects f) (dj_subjects m) (dj_ref m) = (subjects, p5, w5)"
    "merge_datajud_metadata k f (Some m) =
       \<lparr>mr_process = f\<lparr>pf_class := cls, pf_subjects := subjects, pf_header := JObj h3\<rparr>,
        mr_provenance = [p1, p2, p3, p4, p5], mr_warnings = w1 @ w2 @ w3 @ w4 @ w5, mr_applied = True\<rparr>"
proof -
  obtain cls p1 w1 where 1: "select_scalar k ''class_name'' (pf_class f) (dj_class_name m) (dj_ref m) = (cls, p1, w1)"
    by (metis prod_cases3)
  obtain code p2 w2 where 2: "select_scalar k ''class_code'' (obj_get (as_obj (pf_header f)) ''class_code'') (dj_class_code m) (dj_ref m) = (code, p2, w2)"
    by (metis prod_cases3)
  let ?h1 = "put_given ''class_code'' code (as_obj (pf_header f))"
  obtain body p3 w3 where 3: "select_scalar k ''adjudicating_body'' (obj_get ?h1 ''adjudicating_body'') (dj_body m) (dj_ref m) = (body, p3, w3)"
    by (metis prod_cases3)
  let ?h2 = "put_given ''adjudicating_body'' body ?h1"
  obtain county p4 w4 where 4: "select_scalar k ''county'' (obj_get ?h2 ''county'') (dj_county m) (dj_ref m) = (county, p4, w4)"
    by (metis prod_cases3)
  obtain subjects p5 w5 where 5: "select_subjects k (pf_subjects f) (dj_subjects m) (dj_ref m) = (subjects, p5, w5)"
    by (metis prod_cases3)
  show thesis
    by (rule that [OF 1 2 refl 3 refl 4 refl 5]) (use assms 1 2 3 4 5 in \<open>simp add: merge_datajud_metadata_def as_obj_or Let_def\<close>)
qed

lemma merge_decides:
  assumes "pf_secrecy f \<le> 0"
  shows "let r = merge_datajud_metadata k f (Some m) in
    map fp_field (mr_provenance r) = [''class_name'', ''class_code'', ''adjudicating_body'', ''county'', ''subjects''] \<and>
    list_all (decision_ok k m f (mr_process r)) (mr_provenance r) \<and>
    mr_warnings r = map (\<lambda>p. conflict_warning (fp_field p)) (filter fp_conflict (mr_provenance r)) \<and>
    (mr_process r)\<lparr>pf_class := pf_class f, pf_subjects := pf_subjects f, pf_header := pf_header f\<rparr> = f \<and>
    (\<forall>key. key \<noteq> ''class_code'' \<longrightarrow> key \<noteq> ''adjudicating_body'' \<longrightarrow> key \<noteq> ''county'' \<longrightarrow>
       obj_get (as_obj (pf_header (mr_process r))) key = obj_get (as_obj (pf_header f)) key)"
proof -
  obtain cls p1 w1 code p2 w2 body p3 w3 county p4 w4 subjects p5 w5 h1 h2 h3 where
    s1: "select_scalar k ''class_name'' (pf_class f) (dj_class_name m) (dj_ref m) = (cls, p1, w1)"
    and s2: "select_scalar k ''class_code'' (obj_get (as_obj (pf_header f)) ''class_code'') (dj_class_code m) (dj_ref m) = (code, p2, w2)"
    and h1: "h1 = put_given ''class_code'' code (as_obj (pf_header f))"
    and s3: "select_scalar k ''adjudicating_body'' (obj_get h1 ''adjudicating_body'') (dj_body m) (dj_ref m) = (body, p3, w3)"
    and h2: "h2 = put_given ''adjudicating_body'' body h1"
    and s4: "select_scalar k ''county'' (obj_get h2 ''county'') (dj_county m) (dj_ref m) = (county, p4, w4)"
    and h3: "h3 = put_given ''county'' county h2"
    and s5: "select_subjects k (pf_subjects f) (dj_subjects m) (dj_ref m) = (subjects, p5, w5)"
    and r: "merge_datajud_metadata k f (Some m) =
       \<lparr>mr_process = f\<lparr>pf_class := cls, pf_subjects := subjects, pf_header := JObj h3\<rparr>,
        mr_provenance = [p1, p2, p3, p4, p5], mr_warnings = w1 @ w2 @ w3 @ w4 @ w5, mr_applied = True\<rparr>"
    using merge_parts [OF assms, of k m] by metis
  let ?g = "f\<lparr>pf_class := cls, pf_subjects := subjects, pf_header := JObj h3\<rparr>"
  have get: "obj_get h1 ''adjudicating_body'' = obj_get (as_obj (pf_header f)) ''adjudicating_body''"
    "obj_get h2 ''county'' = obj_get (as_obj (pf_header f)) ''county''"
    by (simp_all add: h1 h2 put_given_get)
  note d1 = scalar_decision [OF s1] and d2 = scalar_decision [OF s2] and d3 = scalar_decision [OF s3 [unfolded get]]
    and d4 = scalar_decision [OF s4 [unfolded get]] and d5 = subjects_decision [OF s5]
  have fields: "fp_field p1 = ''class_name''" "fp_field p2 = ''class_code''" "fp_field p3 = ''adjudicating_body''"
    "fp_field p4 = ''county''" "fp_field p5 = ''subjects''"
    using d1 d2 d3 d4 d5 by auto
  have v2: "obj_get h3 ''class_code'' = code" using d2 by (auto simp: h1 h2 h3 put_given_get split: option.splits)
  have v3: "obj_get h3 ''adjudicating_body'' = body" using d3 by (auto simp: h1 h2 h3 put_given_get split: option.splits)
  have v4: "obj_get h3 ''county'' = county" using d4 by (auto simp: h1 h2 h3 put_given_get split: option.splits)
  have "decision_ok k m f ?g p1" using d1
    by (auto simp: decision_ok_def field_value_def official_value_def in_conflict_def split: option.splits)
  moreover have "decision_ok k m f ?g p2" using d2 v2
    by (auto simp: decision_ok_def field_value_def official_value_def in_conflict_def split: option.splits)
  moreover have "decision_ok k m f ?g p3" using d3 v3
    by (auto simp: decision_ok_def field_value_def official_value_def in_conflict_def split: option.splits)
  moreover have "decision_ok k m f ?g p4" using d4 v4
    by (auto simp: decision_ok_def field_value_def official_value_def in_conflict_def split: option.splits)
  moreover have "decision_ok k m f ?g p5" using d5
    by (auto simp: decision_ok_def field_value_def official_value_def in_conflict_def split: if_splits)
  moreover have "w1 @ w2 @ w3 @ w4 @ w5 =
      map (\<lambda>p. conflict_warning (fp_field p)) (filter fp_conflict [p1, p2, p3, p4, p5])"
    using d1 d2 d3 d4 d5 by simp
  ultimately show ?thesis
    unfolding r Let_def by (simp add: fields h1 h2 h3 put_given_get)
qed

text \<open>The merge is official and accounted for. On a process without secrecy every one of the five
  modelled fields has one decision: the value of DataJud whenever it has one, marked with its reference
  and as a conflict exactly when the other source said something else, the value of Judit otherwise;
  the decision records the value the merged process has; there is one warning per conflict; and the
  rest of the header, the parties, steps and attachments stay. Under secrecy nothing is merged.\<close>

theorem merge_is_official:
  "let r = merge_datajud_metadata k f (Some m); g = mr_process r in
    if 0 < pf_secrecy f then g = f \<and> mr_provenance r = [] \<and> mr_warnings r = [] \<and> \<not> mr_applied r
    else map fp_field (mr_provenance r) = [''class_name'', ''class_code'', ''adjudicating_body'', ''county'', ''subjects''] \<and>
      list_all (decision_ok k m f g) (mr_provenance r) \<and>
      mr_warnings r = map (\<lambda>p. conflict_warning (fp_field p)) (filter fp_conflict (mr_provenance r)) \<and>
      g\<lparr>pf_class := pf_class f, pf_subjects := pf_subjects f, pf_header := pf_header f\<rparr> = f \<and>
      {key. obj_get (as_obj (pf_header g)) key \<noteq> obj_get (as_obj (pf_header f)) key} \<subseteq>
        {''class_code'', ''adjudicating_body'', ''county''}"
proof (cases "0 < pf_secrecy f")
  case True
  then show ?thesis by (simp add: merge_datajud_metadata_def Let_def)
next
  case False
  from merge_decides [OF this [unfolded not_less], of k m] False show ?thesis
    by (auto simp: Let_def)
qed

lemma merge_five:
  assumes "pf_secrecy f \<le> 0"
  shows "length (mr_provenance (merge_datajud_metadata k f (Some m))) = 5"
proof -
  have "map fp_field (mr_provenance (merge_datajud_metadata k f (Some m))) =
      [''class_name'', ''class_code'', ''adjudicating_body'', ''county'', ''subjects'']"
    using merge_decides [OF assms, of k m] by (simp only: Let_def)
  then have "length (map fp_field (mr_provenance (merge_datajud_metadata k f (Some m)))) = 5" by (simp only: list.size)
  then show ?thesis by simp
qed

text \<open>What the merge returns is as storable as what it was given.\<close>

lemma merge_keeps_steps:
  "pf_steps (mr_process (merge_datajud_metadata k f dj)) = pf_steps f"
  "pf_attachments (mr_process (merge_datajud_metadata k f dj)) = pf_attachments f"
  "pf_parties (mr_process (merge_datajud_metadata k f dj)) = pf_parties f"
  "pf_representatives (mr_process (merge_datajud_metadata k f dj)) = pf_representatives f"
  "pf_secrecy (mr_process (merge_datajud_metadata k f dj)) = pf_secrecy f"
  "is_obj (pf_header f) \<Longrightarrow> is_obj (pf_header (mr_process (merge_datajud_metadata k f dj)))"
  by (auto simp: merge_datajud_metadata_def Let_def split: option.split prod.split)

subsection \<open>Facts about the record\<close>

lemma insert_all_provenance:
  assumes "distinct (map pr_field rs)" "list_all (\<lambda>r. pr_version r = vid) rs"
    and "list_all (\<lambda>r. provenance_ok r (d\<lparr>provenance_rows := ps\<rparr>)) rs"
  shows "for_each insert_provenance rs (d\<lparr>provenance_rows := ps\<rparr>) = (d\<lparr>provenance_rows := ps @ rs\<rparr>, Inr ())"
  using assms
proof (induction rs arbitrary: ps)
  case Nil
  then show ?case by (simp add: ret_def)
next
  case (Cons r rs)
  let ?d = "d\<lparr>provenance_rows := ps @ [r]\<rparr>"
  have "provenance_ok q ?d" if "q \<in> set rs" for q
    using that Cons.prems by (auto simp: provenance_ok_def list_all_iff image_iff)
  then have "for_each insert_provenance rs ?d = (d\<lparr>provenance_rows := (ps @ [r]) @ rs\<rparr>, Inr ())"
    using Cons.prems by (intro Cons.IH) (simp_all add: list_all_iff)
  moreover have "insert_provenance r (d\<lparr>provenance_rows := ps\<rparr>) = (?d, Inr ())"
    using Cons.prems by (simp add: insert_provenance_def prog_simps)
  ultimately show ?case by (simp add: then_do_def bind_def)
qed

lemma for_each_map: "for_each (\<lambda>p. f (g p)) xs = for_each f (map g xs)"
  by (induction xs) simp_all

lemma decode_all_provenance:
  "list_all (\<lambda>p. decode_json_value (cd_parse k) (cd_store k (fp_value p)) = Inr (fp_value p)) ps \<Longrightarrow>
   decode_provenance k (map (new_provenance k pid vid) ps) = Inr ps"
  by (induction ps) (simp_all add: new_provenance_def)

lemma sort_key_filter_fields:
  "filter (\<lambda>r. pr_conflict r \<and> pr_source r = ''datajud'') (map (new_provenance k pid vid) ps) =
     map (new_provenance k pid vid) (filter (\<lambda>p. fp_conflict p \<and> fp_source p = ''datajud'') ps)"
  by (simp add: filter_map o_def new_provenance_def)

lemma decision_source:
  "decision_ok k m f g p \<Longrightarrow> fp_source p \<in> {''judit'', ''datajud''} \<and>
     (fp_source p = ''datajud'' \<longrightarrow> fp_ref p = Some (dj_ref m)) \<and> (fp_conflict p \<longrightarrow> fp_source p = ''datajud'')"
  by (auto simp: decision_ok_def split: option.splits)

text \<open>Provenance reads back. The decisions of a merge, stored for an existing version with a reference
  that is not blank, replace whatever was stored for it, change nothing else, and are loaded again one
  by one in the order of the field names, whatever was stored before; the conflict warnings loaded are
  those of the decisions in conflict.\<close>

theorem provenance_reads_back:
  assumes "merge_datajud_metadata k f (Some m) = r" "\<not> blank_sql (dj_ref m)"
    and "\<exists>v \<in> set (versions d). v_id v = vid \<and> v_process v = pid"
    and "list_all (\<lambda>p. decode_json_value (cd_parse k) (cd_store k (fp_value p)) = Inr (fp_value p)) (mr_provenance r)"
  shows "\<exists>d'. replace_datajud_field_provenance k pid vid r d = (d', Inr ()) \<and>
    d'\<lparr>provenance_rows := provenance_rows d\<rparr> = d \<and>
    load_datajud_field_provenance k pid vid d' = Inr (sort_key (\<lambda>p. cd_collate k (fp_field p)) (mr_provenance r)) \<and>
    load_datajud_conflict_warnings k pid vid d' =
      map (\<lambda>p. conflict_warning (fp_field p))
        (filter fp_conflict (sort_key (\<lambda>p. cd_collate k (fp_field p)) (mr_provenance r)))"
proof -
  let ?ps = "mr_provenance r" and ?kept = "filter (\<lambda>x. pr_version x \<noteq> vid) (provenance_rows d)"
  let ?rs = "map (new_provenance k pid vid) ?ps" and ?sort = "sort_key (\<lambda>p. cd_collate k (fp_field p))"
  have facts: "map fp_field ?ps = [] \<or> map fp_field ?ps = [''class_name'', ''class_code'', ''adjudicating_body'', ''county'', ''subjects'']"
    "\<forall>p \<in> set ?ps. decision_ok k m f (mr_process r) p"
    using merge_decides [of f k m] assms(1)
    by (cases "0 < pf_secrecy f"; fastforce simp: Let_def list_all_iff merge_datajud_metadata_def)+
  have field: "fp_field p \<in> set provenance_fields" if "p \<in> set ?ps" for p
    using facts(1) imageI [OF that, of fp_field] by (auto simp: provenance_fields_def simp flip: set_map)
  have "list_all (\<lambda>x. provenance_ok x (d\<lparr>provenance_rows := ?kept\<rparr>)) ?rs"
    using assms(2,3) facts(2) field decision_source
    by (fastforce simp: list_all_iff provenance_ok_def new_provenance_def)
  moreover have "distinct (map pr_field ?rs)"
    using facts(1) by (auto simp: o_def new_provenance_def)
  ultimately have run: "for_each insert_provenance ?rs (d\<lparr>provenance_rows := ?kept\<rparr>) =
      (d\<lparr>provenance_rows := ?kept @ ?rs\<rparr>, Inr ())"
    by (intro insert_all_provenance [where vid = vid]) (simp_all add: list_all_iff new_provenance_def)
  let ?d = "d\<lparr>provenance_rows := ?kept @ ?rs\<rparr>"
  have "replace_datajud_field_provenance k pid vid r d = (?d, Inr ())"
    using run by (simp add: replace_datajud_field_provenance_def transaction_def then_do_def bind_def modify_def
      delete_provenance_def for_each_map ret_def)
  moreover have here: "provenance_of k pid vid ?d = map (new_provenance k pid vid) (?sort ?ps)"
    by (simp add: provenance_of_def filter_map o_def sort_key_map new_provenance_def)
  moreover have "load_datajud_field_provenance k pid vid ?d = Inr (?sort ?ps)"
    unfolding load_datajud_field_provenance_def here
    by (rule decode_all_provenance) (use assms(4) in \<open>simp add: list_all_iff\<close>)
  moreover have "filter (\<lambda>p. fp_conflict p \<and> fp_source p = ''datajud'') (?sort ?ps) = filter fp_conflict (?sort ?ps)"
    using facts(2) decision_source by (intro filter_cong) auto
  ultimately show ?thesis
    by (intro exI [of _ ?d])
      (simp add: load_datajud_conflict_warnings_def sort_key_filter_fields o_def new_provenance_def)
qed

definition text_codec :: codec where
  "text_codec = sample_codec\<lparr>cd_parse := (\<lambda>s. Some (JStr s))\<rparr>"

definition sample_metadata :: datajud_metadata where
  "sample_metadata = \<lparr>dj_class_name = Some '' x '', dj_class_code = None, dj_subjects = [], dj_body = None,
     dj_county = Some ''y'', dj_ref = ''r''\<rparr>"

lemma text_codec_decodes: "decode_json_value (cd_parse text_codec) (cd_store text_codec v) = Inr v"
  by (cases v) (simp_all add: decode_json_value_def text_codec_def sample_codec_def loads_strict_json_def)

theorem provenance_reads_back_witness:
  "\<exists>d' ps. replace_datajud_field_provenance text_codec 3 2
      (merge_datajud_metadata text_codec (sample_fields []) (Some sample_metadata)) staged_db = (d', Inr ()) \<and>
    load_datajud_field_provenance text_codec 3 2 d' = Inr ps \<and> length ps = 5"
proof -
  let ?r = "merge_datajud_metadata text_codec (sample_fields []) (Some sample_metadata)"
  have "\<exists>v \<in> set (versions staged_db). v_id v = 2 \<and> v_process v = 3"
    by (simp add: staged_db_def staged_version_def new_version_def)
  moreover have "\<not> blank_sql (dj_ref sample_metadata)" by (simp add: blank_sql_def sample_metadata_def)
  moreover have "list_all (\<lambda>p. decode_json_value (cd_parse text_codec) (cd_store text_codec (fp_value p)) = Inr (fp_value p))
      (mr_provenance ?r)"
    by (simp add: list_all_iff text_codec_decodes)
  moreover have "length (mr_provenance ?r) = 5"
    by (rule merge_five) (simp add: sample_fields_def)
  ultimately show ?thesis
    using provenance_reads_back [OF refl, of sample_metadata staged_db 2 3 text_codec "sample_fields []"] by force
qed

subsection \<open>The lookup is confined\<close>

text \<open>An exchange an enabled, authorized configuration can make for a process without secrecy.\<close>

definition proper_exchange :: "datajud_config \<Rightarrow> int \<Rightarrow> string \<Rightarrow> string \<Rightarrow> string \<Rightarrow> bool" where
  "proper_exchange c secrecy endpoint key digits \<longleftrightarrow> secrecy \<le> 0 \<and> dc_enabled c \<and> dc_authorized c \<and>
     prefix ''https://'' endpoint \<and> dc_key c = Some key \<and> key \<noteq> [] \<and> twenty_digits digits"

lemma config_https:
  assumes "datajud_config_of timeout env = Inr c"
  shows "prefix ''https://'' (dc_base c)"
proof -
  let ?t = "timeout (strip (env_or env ''DATAJUD_TIMEOUT_SECONDS'' ''20.0''))"
  from assms have "?t = Some True"
    by (auto simp: datajud_config_of_def Let_def split: option.splits bool.splits)
  with assms show ?thesis by (auto simp: datajud_config_of_def Let_def split: if_splits)
qed

lemma canonical_digits: "canonical_code c \<Longrightarrow> twenty_digits (filter isdigit_c c)"
  unfolding canonical_code_def list_all2_Cons1 list_all2_Nil
  apply (elim exE conjE)
  apply (simp add: twenty_digits_def isdecimal_imp_isdigit separators_no_digit)
  done

text \<open>C23: The lookup of metadata is confined. With settings that pass their checks, the result does not
  depend on what the service answers except to requests over https, with the configured key, for the
  twenty digits of one code, under an enabled and authorized configuration and for a process without
  secrecy; a lookup that is ok carries metadata and no other does.\<close>

theorem lookup_is_confined:
  assumes "datajud_config_of timeout env = Inr c"
    and "\<And>endpoint key digits. proper_exchange c secrecy endpoint key digits \<Longrightarrow>
      ex1 endpoint key digits = ex2 endpoint key digits"
    and "lookup_datajud_metadata k ex1 (Inr c) code secrecy = Inr r"
  shows "lookup_datajud_metadata k ex2 (Inr c) code secrecy = Inr r \<and>
    (lk_status r = LookupOk) = (lk_metadata r \<noteq> None)"
proof
  have shape: "(lk_status (perform_lookup k e a) = LookupOk) = (lk_metadata (perform_lookup k e a) \<noteq> None)" for e a
    by (simp add: perform_lookup_def read_hits_def answered_def
      split: http_answer.split option.split sum.split list.split json.split)
  have same: "perform_lookup k e (ex1 e key ds) = perform_lookup k e (ex2 e key ds)"
    if "proper_exchange c secrecy e key ds" for e key ds
    using assms(2) [OF that] by simp
  from assms(3) show "(lk_status r = LookupOk) = (lk_metadata r \<noteq> None)"
    by (auto simp: lookup_datajud_metadata_def Let_def answered_def shape split: if_splits option.splits sum.splits)
  show "lookup_datajud_metadata k ex2 (Inr c) code secrecy = Inr r"
  proof (cases "normalize_cnj code")
    case (Inl e)
    then show ?thesis using assms(3)
      by (auto simp: lookup_datajud_metadata_def datajud_alias_from_cnj_def split: if_splits option.splits sum.splits)
  next
    case (Inr canonical)
    have "proper_exchange c secrecy (dc_base c @ rest) key (filter isdigit_c canonical)"
      if "secrecy \<le> 0" "dc_enabled c" "dc_authorized c" "dc_key c = Some key" "key \<noteq> []" for rest key
      using that config_https [OF assms(1)] canonical_digits [OF normalize_cnj_canonical [OF Inr]]
      by (simp add: proper_exchange_def)
    then show ?thesis using assms(3) Inr
      by (auto simp: lookup_datajud_metadata_def Let_def same split: if_splits option.splits sum.splits)
  qed
qed

theorem lookup_is_confined_witness:
  "\<exists>c r. datajud_config_of (\<lambda>_. Some True) (\<lambda>_. None) = Inr c \<and>
     lookup_datajud_metadata text_codec (\<lambda>_ _ _. TooLarge) (Inr c) ''5'' 0 = Inr r \<and> lk_metadata r = None"
proof -
  obtain c where c: "datajud_config_of (\<lambda>_. Some True) (\<lambda>_. None) = Inr c" "\<not> dc_enabled c"
    by (auto simp: datajud_config_of_def env_bool_def env_or_def Let_def strip_def lstrip_by_def rstrip_by_def isspace_c_def)
  then have run: "lookup_datajud_metadata text_codec (\<lambda>_ _ _. TransportFailure) (Inr c) ''5'' 0 =
      Inr (answered LookupDisabled None None)"
    by (simp add: lookup_datajud_metadata_def)
  have "TransportFailure = TooLarge" if "proper_exchange c 0 e key ds" for e key ds
    using that c by (simp add: proper_exchange_def)
  from lookup_is_confined [OF c(1) this run] c(1) show ?thesis by (auto simp: answered_def)
qed

end
