(* ===== verification/JuditTasks.thy ===== *)
theory JuditTasks
  imports Datajud
begin

text \<open>
  \<open>app/judit_tasks.py\<close>: the job \<open>finalize_judit_request\<close>, which turns the responses staged for a request
  of the provider into the current version of the process and settles the public requests that wait
  for it. The fields are prepared before the transaction, because the lookup of official metadata goes
  over the network; \<open>others\<close> is what other sessions commit in the meantime.
\<close>

subsection \<open>Preparation\<close>

fun lookup_text :: "lookup_status \<Rightarrow> string" where
  "lookup_text LookupOk = ''ok''"
| "lookup_text LookupDisabled = ''disabled''"
| "lookup_text LookupSkippedSecrecy = ''skipped_secrecy''"
| "lookup_text LookupNotFound = ''not_found''"
| "lookup_text LookupAuthError = ''auth_error''"
| "lookup_text LookupUnavailable = ''unavailable''"

record prepared =
  pp_version :: "uuid option"
  pp_fields :: "promotable option"
  pp_result :: "merge_result option"
  pp_status :: string

definition unprepared :: prepared where
  "unprepared = \<lparr>pp_version = None, pp_fields = None, pp_result = None, pp_status = ''not_attempted''\<rparr>"

text \<open>The process of a staged response, None when the event has no response data.\<close>

definition staged_process :: "codec \<Rightarrow> version_row \<Rightarrow> (string \<times> json) list option res" where
  "staged_process k v =
     res_bind (decode_json_object (cd_parse k) ''staged Judit source payload'' (v_payload v)) (\<lambda>source.
     res_bind (parse_event k (dict_json k source)) (\<lambda>e.
       Inr (case ev_data e of None \<Rightarrow> None | Some o' \<Rightarrow> (if o' = [] then None else Some o'))))"

type_synonym metadata_lookup = "string \<Rightarrow> int \<Rightarrow> lookup_result res"

definition prepare_finalization :: "codec \<Rightarrow> metadata_lookup \<Rightarrow> string \<Rightarrow> db \<Rightarrow> prepared res" where
  "prepare_finalization k lookup request d = (case preferred_judit_version request d of
     None \<Rightarrow> Inr unprepared
   | Some (v, p) \<Rightarrow> res_bind (staged_process k v) (\<lambda>data. case data of
         None \<Rightarrow> Inr unprepared
       | Some process \<Rightarrow> res_bind (extract_promotable_fields k process) (\<lambda>f.
           let plain = \<lparr>pp_version = Some (v_id v), pp_fields = Some f, pp_result = None, pp_status = ''already_finalized''\<rparr> in
           if v_finalized v then Inr plain
           else res_bind (lookup (p_code p) (pf_secrecy f)) (\<lambda>r.
             if lk_status r = LookupOk \<and> lk_metadata r \<noteq> None
             then let m = merge_datajud_metadata k f (lk_metadata r) in
               Inr (plain\<lparr>pp_fields := Some (mr_process m), pp_result := Some m, pp_status := lookup_text (lk_status r)\<rparr>)
             else Inr (plain\<lparr>pp_status := lookup_text (lk_status r)\<rparr>)))))"

subsection \<open>The current summary\<close>

definition passing_summary :: "uuid \<Rightarrow> db \<Rightarrow> (summary_row \<times> process_row) option" where
  "passing_summary pid d = (case row_by p_id pid (processes d) of
     None \<Rightarrow> None
   | Some p \<Rightarrow> map_option (\<lambda>s. (s, p))
       (find (\<lambda>s. sm_process s = pid \<and> p_current p = Some (sm_version s) \<and> sm_passed s) (summaries d)))"

definition summary_publishable :: "codec \<Rightarrow> db \<Rightarrow> summary_row \<Rightarrow> process_row \<Rightarrow> bool res" where
  "summary_publishable k d s p =
     (if 0 < p_secrecy p then Inr (is_restricted_local_summary (cd_repr k) (cd_parse k) s p)
      else res_bind
        (if sm_structured s = JNull then Inr JNull
         else res_bind (decode_json_object (cd_parse k) ''current summary structured output'' (sm_structured s))
           (\<lambda>doc. Inr (document_of_pydict doc)))
        (\<lambda>structured. claim_evidence_is_publishable (cd_repr k) (cd_parse k) structured
           (load_summary_claim_evidence (sm_id s) d) p))"

definition complete_from_current_summary :: "codec \<Rightarrow> timestamp \<Rightarrow> string \<Rightarrow> uuid \<Rightarrow> (db, bool) prog" where
  "complete_from_current_summary k now request pid =
     bind (query (passing_summary pid)) (\<lambda>row. case row of
         None \<Rightarrow> ret False
       | Some (s, p) \<Rightarrow> bind (query (\<lambda>d. summary_publishable k d s p)) (\<lambda>verdict. bind (lift_res verdict) (\<lambda>good.
           if \<not> good then ret False
           else then_do (transition_requests_for_judit_request now request ''completed''
                \<lparr>tf_process = Some pid, tf_version = p_current p, tf_summary = Some (sm_id s),
                 tf_source_updated = Some (p_updated p), tf_flags = Some [(''reused_existing_summary'', JBool True)],
                 tf_error = None\<rparr>)
              (ret True))))"

subsection \<open>After the version is final\<close>

text \<open>\<open>judit_attachments_enabled\<close> of \<open>app/judit_client.py\<close>.\<close>

definition judit_attachments_enabled :: "(string \<Rightarrow> string option) \<Rightarrow> bool res" where
  "judit_attachments_enabled env =
     (let text = (\<lambda>name dflt. lower (strip (case env name of None \<Rightarrow> dflt | Some s \<Rightarrow> s)));
          raw = text ''JUDIT_ATTACHMENTS_ENABLED'' ''false'' in
      if raw \<in> {'''', ''0'', ''false'', ''no'', ''off''} then Inr False
      else if raw \<notin> {''1'', ''true'', ''yes'', ''on''}
      then Inl (RuntimeError ''JUDIT_ATTACHMENTS_ENABLED must be a boolean'')
      else if text ''JUDIT_ATTACHMENT_DOWNLOAD_MODE'' [] \<noteq> ''direct_api_key''
      then Inl (RuntimeError ''JUDIT_ATTACHMENT_DOWNLOAD_MODE must be direct_api_key when attachments are enabled'')
      else Inr True)"

definition summary_job_payload :: "uuid \<Rightarrow> uuid \<Rightarrow> string \<Rightarrow> string \<Rightarrow> json" where
  "summary_job_payload pid vid code request = JObj [(''process_id'', JStr (uuid_str pid)),
     (''version_id'', JStr (uuid_str vid)), (''code'', JStr code), (''judit_request_id'', JStr request)]"

definition attachment_job_payload :: "uuid \<Rightarrow> uuid \<Rightarrow> string \<Rightarrow> json" where
  "attachment_job_payload pid vid request = JObj [(''process_id'', JStr (uuid_str pid)),
     (''version_id'', JStr (uuid_str vid)), (''judit_request_id'', JStr request)]"

definition indexing_fields :: "uuid \<Rightarrow> uuid option \<Rightarrow> transition_fields" where
  "indexing_fields pid vid = no_fields\<lparr>tf_process := Some pid, tf_version := vid\<rparr>"

text \<open>Enqueues the next stage; the two flags tell which job was inserted.\<close>

definition enqueue_next ::
  "uuid \<Rightarrow> timestamp \<Rightarrow> bool \<Rightarrow> string \<Rightarrow> uuid \<Rightarrow> uuid \<Rightarrow> string \<Rightarrow> (db, bool \<times> bool) prog" where
  "enqueue_next jid now with_attachments request pid vid code =
     (if with_attachments then
        bind (enqueue_job jid now ''process_judit_attachments'' (attachment_job_payload pid vid request) 3
            (''attachments:'' @ uuid_str vid)) (\<lambda>job. ret (False, job \<noteq> None))
      else bind (enqueue_job jid now generation_task (summary_job_payload pid vid code request) 3
            (''summary:'' @ uuid_str vid)) (\<lambda>job. ret (job \<noteq> None, False)))"

definition repair_key :: "uuid \<Rightarrow> string \<Rightarrow> string" where
  "repair_key vid request = ''summary-repair:'' @ uuid_str vid @ '':'' @ request"

definition settle_finalized ::
  "codec \<Rightarrow> bool res \<Rightarrow> uuid \<Rightarrow> timestamp \<Rightarrow> string \<Rightarrow> version_row \<Rightarrow> process_row \<Rightarrow> promotable \<Rightarrow> bool \<Rightarrow> uuid option \<Rightarrow>
     (db, bool \<times> bool) prog" where
  "settle_finalized k attachments_on jid now request v p f promoted equivalent =
     (if promoted \<and> \<not> v_cached v then
        bind (lift_res (if pf_attachments f = [] then Inr False else attachments_on)) (\<lambda>with_attachments.
          enqueue_next jid now with_attachments request (p_id p) (v_id v) (p_code p))
      else bind (complete_from_current_summary k now request (p_id p)) (\<lambda>completed.
        if completed then ret (False, False)
        else case (promoted, equivalent) of
            (False, Some eq) \<Rightarrow>
              then_do (transition_requests_for_judit_request now request ''indexing'' (indexing_fields (p_id p) (Some eq)))
              (bind (enqueue_job jid now generation_task (summary_job_payload (p_id p) eq (p_code p) request) 3
                 (repair_key eq request)) (\<lambda>job. ret (job \<noteq> None, False)))
          | _ \<Rightarrow>
              then_do (transition_requests_for_judit_request now request ''failed''
                 ((indexing_fields (p_id p) (if promoted then Some (v_id v) else equivalent))\<lparr>tf_error :=
                    Some (if promoted \<and> v_cached v then ''cached_response_not_generated'' else ''current_summary_unavailable'')\<rparr>))
              (ret (False, False))))"

definition source_unavailable :: "timestamp \<Rightarrow> string \<Rightarrow> string \<Rightarrow> string \<Rightarrow> (db, json) prog" where
  "source_unavailable now request reason datajud =
     then_do (transition_requests_for_judit_request now request ''source_unavailable'' (no_fields\<lparr>tf_error := Some reason\<rparr>))
     (ret (JObj [(''request_id'', JStr request), (''status'', JStr reason), (''datajud_status'', JStr datajud)]))"

text \<open>The fields that are applied: those prepared, when they were prepared from the version that is
  preferred now.\<close>

definition chosen_fields :: "prepared \<Rightarrow> uuid \<Rightarrow> promotable \<Rightarrow> promotable \<times> merge_result option \<times> string" where
  "chosen_fields prep vid fresh =
     (case (pp_version prep = Some vid, pp_fields prep) of
        (True, Some f) \<Rightarrow> (f, pp_result prep, pp_status prep)
      | _ \<Rightarrow> (fresh, None,
          if pp_version prep \<noteq> None \<and> pp_version prep \<noteq> Some vid then ''staged_changed'' else pp_status prep))"

definition version_equivalent :: "uuid \<Rightarrow> uuid \<Rightarrow> db \<Rightarrow> uuid option" where
  "version_equivalent pid vid d =
     (case find (version_at pid vid) (versions d) of None \<Rightarrow> None | Some v \<Rightarrow> v_equivalent v)"

definition outcome_text :: "bool \<Rightarrow> uuid option \<Rightarrow> string" where
  "outcome_text promoted equivalent = (if promoted then ''finalized''
     else if equivalent \<noteq> None then ''finalized_unchanged'' else ''finalized_stale'')"

record finalizer =
  fz_codec :: codec
  fz_env :: "string \<Rightarrow> string option"
  fz_steps :: "int \<Rightarrow> uuid"
  fz_items :: "string \<Rightarrow> uuid"
  fz_job :: uuid

definition promote_staged ::
  "finalizer \<Rightarrow> timestamp \<Rightarrow> string \<Rightarrow> version_row \<Rightarrow> process_row \<Rightarrow> promotable \<Rightarrow> merge_result option \<Rightarrow> string \<Rightarrow> (db, json) prog" where
  "promote_staged z now request v p f result datajud =
     bind (finalize_version (fz_codec z) (fz_steps z) (fz_items z) now (p_id p) (v_id v) f) (\<lambda>promoted.
     then_do (case result of
         None \<Rightarrow> ret ()
       | Some m \<Rightarrow> replace_datajud_field_provenance (fz_codec z) (p_id p) (v_id v) m)
     (bind (query (\<lambda>d. if promoted then None else version_equivalent (p_id p) (v_id v) d)) (\<lambda>equivalent.
      then_do (if promoted
         then then_do (transition_requests_for_judit_request now request ''indexing'' (indexing_fields (p_id p) (Some (v_id v)))) (ret ())
         else ret ())
      (bind (settle_finalized (fz_codec z) (judit_attachments_enabled (fz_env z)) (fz_job z) now request v p f promoted equivalent)
        (\<lambda>(summary_enqueued, attachments_enqueued).
          ret (JObj [(''request_id'', JStr request), (''status'', JStr (outcome_text promoted equivalent)),
            (''promoted'', JBool promoted), (''cached_response'', JBool (v_cached v)),
            (''summary_enqueued'', JBool summary_enqueued), (''attachment_processing_enqueued'', JBool attachments_enqueued),
            (''equivalent_to_version_id'', optional_text (map_option uuid_str equivalent)),
            (''datajud_status'', JStr datajud)]))))))"

text \<open>The transaction of the task.\<close>

definition apply_finalization :: "finalizer \<Rightarrow> timestamp \<Rightarrow> string \<Rightarrow> prepared \<Rightarrow> (db, json) prog" where
  "apply_finalization z now request prep = transaction
     (then_do (transition_requests_for_judit_request now request ''indexing'' no_fields)
     (bind (query (preferred_judit_version request)) (\<lambda>staged. case staged of
         None \<Rightarrow> source_unavailable now request ''no_lawsuit_response'' (pp_status prep)
       | Some (v, p) \<Rightarrow> bind (lift_res (staged_process (fz_codec z) v)) (\<lambda>data. case data of
             None \<Rightarrow> source_unavailable now request ''missing_response_data'' (pp_status prep)
           | Some process \<Rightarrow> bind (lift_res (extract_promotable_fields (fz_codec z) process)) (\<lambda>fresh.
               case chosen_fields prep (v_id v) fresh of
                 (f, result, datajud) \<Rightarrow> promote_staged z now request v p f result datajud)))))"

definition finalize_judit_request_task ::
  "finalizer \<Rightarrow> metadata_lookup \<Rightarrow> (db \<Rightarrow> db) \<Rightarrow> timestamp \<Rightarrow> pydict \<Rightarrow> (db, json) prog" where
  "finalize_judit_request_task z lookup others now payload =
     bind (lift_res (payload_item payload ''request_id'')) (\<lambda>item.
       let request = py_str (cd_repr (fz_codec z)) item in
       if fz_env z ''DATABASE_URL'' = None \<or> fz_env z ''DATABASE_URL'' = Some [] then raise (RuntimeError ''DATABASE_URL is required'')
       else bind (query (prepare_finalization (fz_codec z) lookup request)) (\<lambda>answer. bind (lift_res answer) (\<lambda>prep.
         then_do (modify others) (apply_finalization z now request prep))))"

subsection \<open>Runs\<close>

lemma bind_done: "bind m f s = (t, Inr y) \<longleftrightarrow> (\<exists>u x. m s = (u, Inr x) \<and> f x u = (t, Inr y))"
  by (auto simp: bind_def split: prod.split sum.split)

lemma then_done: "then_do m n s = (t, Inr y) \<longleftrightarrow> (\<exists>u x. m s = (u, Inr x) \<and> n u = (t, Inr y))"
  by (simp add: then_do_def bind_done)

lemma basic_done:
  "ret x s = (t, Inr y) \<longleftrightarrow> t = s \<and> y = x"
  "query g s = (t, Inr z) \<longleftrightarrow> t = s \<and> z = g s"
  "lift_res r s = (t, Inr z) \<longleftrightarrow> t = s \<and> r = Inr z"
  by (auto simp: prog_simps)

lemmas done_simps = bind_done then_done basic_done run_simps(7)

subsection \<open>The requests that wait\<close>

definition waiting :: "string \<Rightarrow> db \<Rightarrow> summary_request list" where
  "waiting request d = filter (\<lambda>r. r_id r \<in> set (requests_of_judit request d)) (requests d)"

text \<open>Steps that only move the statuses of requests forward, and their links not at all.\<close>

definition stage_moves :: "string \<Rightarrow> db \<Rightarrow> db \<Rightarrow> bool" where
  "stage_moves request d d' \<longleftrightarrow> map r_id (requests d') = map r_id (requests d) \<and>
     requests_of_judit request d' = requests_of_judit request d \<and>
     list_all2 (\<lambda>r r'. transition_allowed (r_status r) (r_status r')) (requests d) (requests d')"

interpretation stage: step_order "stage_moves request" for request
proof
  show "stage_moves request s s" for s
    by (simp add: stage_moves_def list_all2_refl transition_allowed_refl)
  show "stage_moves request s u" if "stage_moves request s t" "stage_moves request t u" for s t u
    using that unfolding stage_moves_def list_all2_conv_all_nth
    by auto (blast intro: transition_allowed_trans)
qed

definition same_requests :: "db \<Rightarrow> db \<Rightarrow> bool" where
  "same_requests d d' \<longleftrightarrow> requests d' = requests d \<and> acquisitions d' = acquisitions d"

interpretation same_requests: step_order same_requests
  by unfold_locales (simp_all add: same_requests_def)

lemma same_stage: "same_requests d d' \<Longrightarrow> stage_moves request d d'"
  by (simp add: same_requests_def stage_moves_def requests_of_judit_def list_all2_refl transition_allowed_refl)

lemma only_attachments_requests: "only_attachments d d' \<Longrightarrow> same_requests d d'"
  unfolding only_attachments_def same_requests_def 
  by (drule arg_cong [where f = "\<lambda>x. (requests x, acquisitions x)"]) simp

lemma same_sync: "obeys same_requests (sync_attachment_manifest rp nid now pid vid items)"
  using obeysD [OF sync_only] by (intro obeysI only_attachments_requests)

lemma same_finalize: "obeys same_requests (finalize_version k sid nid now pid vid f)"
  unfolding finalize_version_def apply_candidate_def insert_steps_def mark_finalized_def promote_process_def
  by (intro same_requests.resp_rules same_requests.resp_modify same_sync)
    (simp_all add: same_requests_def delete_steps_def Let_def)

lemma same_provenance: "obeys same_requests (replace_datajud_field_provenance k pid vid r)"
  unfolding replace_datajud_field_provenance_def insert_provenance_def
  by (intro same_requests.resp_rules same_requests.resp_modify)
    (simp_all add: same_requests_def delete_provenance_def)

definition same_content :: "db \<Rightarrow> db \<Rightarrow> bool" where
  "same_content d d' \<longleftrightarrow> processes d' = processes d \<and> versions d' = versions d \<and> steps d' = steps d \<and>
     attachments d' = attachments d"

interpretation same_content: step_order same_content
  by unfold_locales (simp_all add: same_content_def)

lemma provenance_frame:
  assumes "replace_datajud_field_provenance k pid vid r d = (d', Inr u)"
  shows "same_content d d'"
proof -
  have "obeys same_content (replace_datajud_field_provenance k pid vid r)"
    unfolding replace_datajud_field_provenance_def insert_provenance_def
    by (intro same_content.resp_rules same_content.resp_modify) (simp_all add: same_content_def delete_provenance_def)
  from obeysD' [OF this assms] show ?thesis .
qed

lemma same_enqueue: "obeys same_requests (enqueue_job jid now task payload m key)"
  by (rule obeysI) (simp add: enqueue_job_def fst_on_jobs same_requests_def)

lemma touched_allowed: "transition_allowed (r_status r) (r_status (touched now st f ids r))"
  by (simp add: touched_status transition_allowed_refl)

lemma stage_transition:
  assumes "distinct (map r_id (requests d))"
  shows "\<exists>n. transition_requests_for_judit_request now request (status_name st) f d =
      (d\<lparr>requests := map (touched now st f (set (requests_of_judit request d))) (requests d)\<rparr>, Inr n)"
    and "stage_moves request d (d\<lparr>requests := map (touched now st f (set (requests_of_judit request d))) (requests d)\<rparr>)"
   apply (rule judit_touched [OF assms])
  apply (simp add: stage_moves_def o_def requests_of_judit_touched list_all2_conv_all_nth touched_allowed)
  done

text \<open>After a transition to a terminal status every request that waits is terminal.\<close>

definition all_decided :: "string \<Rightarrow> db \<Rightarrow> bool" where
  "all_decided request d \<longleftrightarrow> list_all (\<lambda>r. terminal (r_status r)) (waiting request d)"

definition under_way :: "string \<Rightarrow> db \<Rightarrow> bool" where
  "under_way request d \<longleftrightarrow> list_all (\<lambda>r. r_status r \<noteq> Queued \<and> r_status r \<noteq> Fetching) (waiting request d)"

lemma allowed_terminal: "terminal st \<Longrightarrow> \<not> transition_allowed c st \<Longrightarrow> terminal c"
  by (auto simp: transition_allowed_def split: if_splits)

lemma terminal_settles:
  assumes "terminal st"
  shows "all_decided request (d\<lparr>requests := map (touched now st f (set (requests_of_judit request d))) (requests d)\<rparr>)"
  using assms allowed_terminal [OF assms]
  by (auto simp: all_decided_def waiting_def requests_of_judit_touched list_all_iff touched_status)

lemma indexing_moves: "transition_allowed Queued Indexing" "transition_allowed Fetching Indexing"
  by (simp_all add: status_table upt_rec)

lemma indexing_under_way:
  "under_way request (d\<lparr>requests := map (touched now Indexing f (set (requests_of_judit request d))) (requests d)\<rparr>)"
  using indexing_moves
  by (auto simp: under_way_def waiting_def requests_of_judit_touched list_all_iff touched_status split: if_splits)

lemma never_back: "transition_allowed c st \<Longrightarrow> c \<noteq> Queued \<Longrightarrow> c \<noteq> Fetching \<Longrightarrow> st \<noteq> Queued \<and> st \<noteq> Fetching"
  by (cases c; cases st) (simp_all add: status_table upt_rec)

lemma under_way_stays:
  assumes "stage_moves request d d'" "under_way request d"
  shows "under_way request d'"
  unfolding under_way_def list_all_iff
proof
  fix r assume "r \<in> set (waiting request d')"
  then obtain i where i: "i < length (requests d')" "requests d' ! i = r" "r_id r \<in> set (requests_of_judit request d)"
    using assms(1) by (auto simp: waiting_def stage_moves_def in_set_conv_nth)
  let ?q = "requests d ! i"
  from assms(1) i(1) have len: "i < length (requests d)" by (auto simp: stage_moves_def list_all2_conv_all_nth)
  have "map r_id (requests d') ! i = map r_id (requests d) ! i" using assms(1) by (simp add: stage_moves_def)
  then have "r_id ?q = r_id r" using i len by simp
  moreover have go: "transition_allowed (r_status ?q) (r_status r)"
    using assms(1) i by (auto simp: stage_moves_def list_all2_conv_all_nth)
  ultimately have "?q \<in> set (waiting request d)" using i(3) len by (simp add: waiting_def)
  with assms(2) go never_back show "r_status r \<noteq> Queued \<and> r_status r \<noteq> Fetching"
    by (auto simp: under_way_def list_all_iff)
qed

text \<open>A transition that ran, in one fact.\<close>

lemma moved:
  assumes "distinct (map r_id (requests d))"
    and "transition_requests_for_judit_request now request (status_name st) f d = (d', Inr n)"
  shows "d' = d\<lparr>requests := map (touched now st f (set (requests_of_judit request d))) (requests d)\<rparr>"
    and "stage_moves request d d'" "terminal st \<Longrightarrow> all_decided request d'" "st = Indexing \<Longrightarrow> under_way request d'"
    and "distinct (map r_id (requests d'))"
proof -
  show d': "d' = d\<lparr>requests := map (touched now st f (set (requests_of_judit request d))) (requests d)\<rparr>"
    using stage_transition(1) [OF assms(1), of now request st f] assms(2) by auto
  show "stage_moves request d d'" unfolding d' by (rule stage_transition(2) [OF assms(1)])
  show "all_decided request d'" if "terminal st" unfolding d' by (rule terminal_settles [OF that])
  show "under_way request d'" if "st = Indexing" unfolding d' that by (rule indexing_under_way)
  show "distinct (map r_id (requests d'))" using assms(1) by (simp add: d' o_def)
qed

lemma stage_distinct: "stage_moves request d d' \<Longrightarrow> distinct (map r_id (requests d)) \<Longrightarrow> distinct (map r_id (requests d'))"
  by (simp add: stage_moves_def)

subsection \<open>The next job\<close>

lemma enqueued_key:
  assumes "enqueue_job jid now task payload m key d = (d', Inr job)"
  shows "\<exists>j \<in> set (jobs d'). j_key j = Some key"
  using assms
  by (auto simp: enqueue_job_def on_jobs_def enqueue_def enqueue_sql_def key_taken_def new_job_def Let_def
      split: sum.splits prod.splits if_splits)

text \<open>A job of the next stage for a version of the process is in the table.\<close>

definition next_stage :: "string \<Rightarrow> db \<Rightarrow> bool" where
  "next_stage request d \<longleftrightarrow> (\<exists>vid. list_ex (\<lambda>j. j_key j \<in> {Some (''attachments:'' @ uuid_str vid),
     Some (''summary:'' @ uuid_str vid), Some (repair_key vid request)}) (jobs d))"

lemma next_stageI:
  "\<exists>j \<in> set (jobs d). j_key j = Some key \<Longrightarrow>
   key = ''attachments:'' @ uuid_str vid \<or> key = ''summary:'' @ uuid_str vid \<or> key = repair_key vid request \<Longrightarrow> next_stage request d"
  by (auto simp: next_stage_def list_ex_iff)

definition handed_on :: "string \<Rightarrow> db \<Rightarrow> bool" where
  "handed_on request d \<longleftrightarrow> all_decided request d \<or> under_way request d \<and> next_stage request d"

lemma enqueue_next_hands_on:
  assumes "enqueue_next jid now b request pid vid code d = (d', Inr y)" "under_way request d"
  shows "handed_on request d' \<and> stage_moves request d d'"
proof -
  from assms(1) obtain task payload key job where run: "enqueue_job jid now task payload 3 key d = (d', Inr job)"
    and key: "key = ''attachments:'' @ uuid_str vid \<or> key = ''summary:'' @ uuid_str vid"
    by (auto simp: enqueue_next_def done_simps split: if_splits)
  have "stage_moves request d d'" by (rule same_stage [OF obeysD' [OF same_enqueue run]])
  with under_way_stays [OF this assms(2)] next_stageI [OF enqueued_key [OF run]] key show ?thesis
    by (auto simp: handed_on_def)
qed

text \<open>The four ways the last part of the task can succeed.\<close>

lemma settle_cases:
  assumes "settle_finalized k on jid now request v p f promoted equivalent d = (d', Inr y)"
  obtains (stage) b where "enqueue_next jid now b request (p_id p) (v_id v) (p_code p) d = (d', Inr y)"
  | (reuse) s q n where "passing_summary (p_id p) d = Some (s, q)" "summary_publishable k d s q = Inr True"
      "transition_requests_for_judit_request now request (status_name SummaryCompleted)
         \<lparr>tf_process = Some (p_id p), tf_version = p_current q, tf_summary = Some (sm_id s),
          tf_source_updated = Some (p_updated q), tf_flags = Some [(''reused_existing_summary'', JBool True)],
          tf_error = None\<rparr> d = (d', Inr n)"
  | (repair) eq g n d2 payload job where
      "transition_requests_for_judit_request now request (status_name Indexing) g d = (d2, Inr n)"
      "enqueue_job jid now generation_task payload 3 (repair_key eq request) d2 = (d', Inr job)"
  | (failed) g n where "transition_requests_for_judit_request now request (status_name Failed) g d = (d', Inr n)"
proof (cases "promoted \<and> \<not> v_cached v")
  case True
  with assms obtain b where "enqueue_next jid now b request (p_id p) (v_id v) (p_code p) d = (d', Inr y)"
    by (auto simp: settle_finalized_def done_simps)
  then show thesis by (rule stage)
next
  case False
  with assms obtain d1 c where c: "complete_from_current_summary k now request (p_id p) d = (d1, Inr c)"
    and rest: "(if c then ret (False, False)
        else case (promoted, equivalent) of
            (False, Some eq) \<Rightarrow>
              then_do (transition_requests_for_judit_request now request ''indexing'' (indexing_fields (p_id p) (Some eq)))
              (bind (enqueue_job jid now generation_task (summary_job_payload (p_id p) eq (p_code p) request) 3
                 (repair_key eq request)) (\<lambda>job. ret (job \<noteq> None, False)))
          | _ \<Rightarrow>
              then_do (transition_requests_for_judit_request now request ''failed''
                 ((indexing_fields (p_id p) (if promoted then Some (v_id v) else equivalent))\<lparr>tf_error :=
                    Some (if promoted \<and> v_cached v then ''cached_response_not_generated'' else ''current_summary_unavailable'')\<rparr>))
              (ret (False, False))) d1 = (d', Inr y)"
    by (auto simp: settle_finalized_def bind_done)
  show thesis
  proof (cases c)
    case True
    from c True obtain s q n where "passing_summary (p_id p) d = Some (s, q)" "summary_publishable k d s q = Inr True"
      "transition_requests_for_judit_request now request (status_name SummaryCompleted)
         \<lparr>tf_process = Some (p_id p), tf_version = p_current q, tf_summary = Some (sm_id s),
          tf_source_updated = Some (p_updated q), tf_flags = Some [(''reused_existing_summary'', JBool True)],
          tf_error = None\<rparr> d = (d1, Inr n)"
      by (auto simp: complete_from_current_summary_def done_simps split: option.splits if_splits)
    with reuse rest True show thesis by (auto simp: basic_done)
  next
    case nc: False
    with c have d1: "d1 = d"
      by (auto simp: complete_from_current_summary_def done_simps split: option.splits if_splits)
    show thesis
    proof (cases "\<not> promoted \<and> equivalent \<noteq> None")
      case True
      then obtain eq where "\<not> promoted" "equivalent = Some eq" by auto
      with rest nc d1 repair show thesis by (auto simp: done_simps)
    next
      case False
      with rest nc d1 failed show thesis by (cases promoted; cases equivalent) (auto simp: done_simps)
    qed
  qed
qed

lemma settle_hands_on:
  assumes run: "settle_finalized k on jid now request v p f promoted equivalent d = (d', Inr y)"
    and dist: "distinct (map r_id (requests d))" and way: "under_way request d"
  shows "handed_on request d' \<and> stage_moves request d d'"
  using run
proof (cases rule: settle_cases)
  case (stage b)
  from enqueue_next_hands_on [OF this way] show ?thesis .
next
  case (reuse s q n)
  from moved [OF dist reuse(3)] show ?thesis by (simp add: handed_on_def terminal_def terminal_statuses_def)
next
  case (repair eq g n d2 payload job)
  note mv = moved [OF dist repair(1)]
  have s2: "stage_moves request d2 d'" by (rule same_stage [OF obeysD' [OF same_enqueue repair(2)]])
  have "next_stage request d'" by (rule next_stageI [OF enqueued_key [OF repair(2)], where vid = eq]) simp
  with under_way_stays [OF s2] mv(4) stage.R_trans [OF mv(2) s2] show ?thesis by (simp add: handed_on_def)
next
  case (failed g n)
  from moved [OF dist failed] show ?thesis by (simp add: handed_on_def terminal_def terminal_statuses_def)
qed

text \<open>The steps before it: of the requests only the transition to indexing moves anything.\<close>

lemma promote_parts:
  assumes "promote_staged z now request v p f result datajud d = (d', Inr out)"
  obtains d1 d2 d3 promoted equivalent flags n g where
    "finalize_version (fz_codec z) (fz_steps z) (fz_items z) now (p_id p) (v_id v) f d = (d1, Inr promoted)"
    "same_requests d d2" "same_content d1 d2"
    "d3 = d2 \<or> transition_requests_for_judit_request now request (status_name Indexing) g d2 = (d3, Inr n)"
    "settle_finalized (fz_codec z) (judit_attachments_enabled (fz_env z)) (fz_job z) now request v p f promoted equivalent d3
      = (d', Inr flags)"
proof -
  from assms obtain d1 promoted d2 equivalent d3 flags where
    fin: "finalize_version (fz_codec z) (fz_steps z) (fz_items z) now (p_id p) (v_id v) f d = (d1, Inr promoted)"
    and prov: "(case result of None \<Rightarrow> ret ()
       | Some m \<Rightarrow> replace_datajud_field_provenance (fz_codec z) (p_id p) (v_id v) m) d1 = (d2, Inr ())"
    and idx: "(if promoted
         then then_do (transition_requests_for_judit_request now request ''indexing'' (indexing_fields (p_id p) (Some (v_id v)))) (ret ())
         else ret ()) d2 = (d3, Inr ())"
    and set: "settle_finalized (fz_codec z) (judit_attachments_enabled (fz_env z)) (fz_job z) now request v p f promoted equivalent d3
      = (d', Inr flags)"
    by (auto simp: promote_staged_def done_simps split: prod.splits)
  have "same_requests d1 d2"
    using prov obeysD' [OF same_provenance] by (cases result) (auto simp: basic_done same_requests.R_refl)
  with obeysD' [OF same_finalize fin] have "same_requests d d2" by (rule same_requests.R_trans)
  moreover have "same_content d1 d2"
    using prov provenance_frame by (cases result) (auto simp: basic_done same_content.R_refl)
  moreover have "\<exists>g n. d3 = d2 \<or> transition_requests_for_judit_request now request (status_name Indexing) g d2 = (d3, Inr n)"
    using idx by (auto simp: done_simps split: if_splits)
  ultimately show thesis using that fin set by blast
qed

lemma promote_hands_on:
  assumes run: "promote_staged z now request v p f result datajud d = (d', Inr out)"
    and dist: "distinct (map r_id (requests d))" and way: "under_way request d"
  shows "handed_on request d' \<and> stage_moves request d d'"
  using run
proof (cases rule: promote_parts)
  case (1 d1 d2 d3 promoted equivalent flags n g)
  have s2: "stage_moves request d d2" by (rule same_stage [OF 1(2)])
  have "stage_moves request d2 d3"
    using 1(4) moved(2) [OF stage_distinct [OF s2 dist]] stage.R_refl by blast
  with s2 have s3: "stage_moves request d d3" by (rule stage.R_trans)
  from settle_hands_on [OF 1(5) stage_distinct [OF s3 dist] under_way_stays [OF s3 way]] s3 show ?thesis
    by (auto intro: stage.R_trans)
qed

subsection \<open>What the task guarantees\<close>

lemma unavailable_settles:
  assumes "source_unavailable now request reason datajud d = (d', Inr out)" "distinct (map r_id (requests d))"
  shows "all_decided request d' \<and> stage_moves request d d'"
proof -
  from assms(1) obtain n where
    "transition_requests_for_judit_request now request (status_name SourceUnavailable) (no_fields\<lparr>tf_error := Some reason\<rparr>) d = (d', Inr n)"
    by (auto simp: source_unavailable_def done_simps)
  from moved [OF assms(2) this] show ?thesis by (simp add: terminal_def terminal_statuses_def)
qed

text \<open>The ways the transaction can succeed.\<close>

lemma apply_cases:
  assumes "apply_finalization z now request prep d = (d', Inr out)"
  obtains (absent) d1 n reason where
      "transition_requests_for_judit_request now request (status_name Indexing) no_fields d = (d1, Inr n)"
      "source_unavailable now request reason (pp_status prep) d1 = (d', Inr out)"
  | (found) d1 n v p process fresh f result datajud where
      "transition_requests_for_judit_request now request (status_name Indexing) no_fields d = (d1, Inr n)"
      "preferred_judit_version request d1 = Some (v, p)" "staged_process (fz_codec z) v = Inr (Some process)"
      "extract_promotable_fields (fz_codec z) process = Inr fresh"
      "chosen_fields prep (v_id v) fresh = (f, result, datajud)"
      "promote_staged z now request v p f result datajud d1 = (d', Inr out)"
proof -
  from assms obtain d1 n where
    idx: "transition_requests_for_judit_request now request (status_name Indexing) no_fields d = (d1, Inr n)"
    and rest: "(case preferred_judit_version request d1 of
         None \<Rightarrow> source_unavailable now request ''no_lawsuit_response'' (pp_status prep)
       | Some (v, p) \<Rightarrow> bind (lift_res (staged_process (fz_codec z) v)) (\<lambda>data. case data of
             None \<Rightarrow> source_unavailable now request ''missing_response_data'' (pp_status prep)
           | Some process \<Rightarrow> bind (lift_res (extract_promotable_fields (fz_codec z) process)) (\<lambda>fresh.
               case chosen_fields prep (v_id v) fresh of
                 (f, result, datajud) \<Rightarrow> promote_staged z now request v p f result datajud))) d1 = (d', Inr out)"
    by (auto simp: apply_finalization_def done_simps)
  show thesis
  proof (cases "preferred_judit_version request d1")
    case None
    with rest absent [OF idx] show thesis by simp
  next
    case (Some x)
    obtain v p where x: "x = (v, p)" by (cases x)
    with rest Some obtain data where data: "staged_process (fz_codec z) v = Inr data"
      by (auto simp: done_simps)
    show thesis
    proof (cases data)
      case None
      with rest Some x data absent [OF idx] show thesis by (auto simp: done_simps)
    next
      case (Some process)
      with rest \<open>preferred_judit_version request d1 = Some x\<close> x data obtain fresh where
        e: "extract_promotable_fields (fz_codec z) process = Inr fresh" and
        go: "(case chosen_fields prep (v_id v) fresh of
           (f, result, datajud) \<Rightarrow> promote_staged z now request v p f result datajud) d1 = (d', Inr out)"
        by (auto simp: bind_done basic_done)
      obtain f result datajud where c: "chosen_fields prep (v_id v) fresh = (f, result, datajud)"
        by (rule prod_cases3)
      with go have "promote_staged z now request v p f result datajud d1 = (d', Inr out)" by simp
      with found [OF idx _ _ e c] Some x data \<open>preferred_judit_version request d1 = Some x\<close> show thesis by simp
    qed
  qed
qed

text \<open>Finalizing a request leaves no public request behind. When the transaction of the task succeeds,
  the public requests that wait for the request of the provider have only moved forward, and either every
  one of them has reached a terminal status, or none is queued or fetching any more and a job of the next
  stage (attachments, summary, or the repair of an equivalent version) is in the queue's table.\<close>

theorem finalization_hands_on:
  assumes "apply_finalization z now request prep d = (d', Inr out)" "distinct (map r_id (requests d))"
  shows "stage_moves request d d' \<and> (all_decided request d' \<or> under_way request d' \<and> next_stage request d')"
  using assms(1)
proof (cases rule: apply_cases)
  case (absent d1 n reason)
  from unavailable_settles [OF absent(2) moved(5) [OF assms(2) absent(1)]] moved(2) [OF assms(2) absent(1)]
  show ?thesis by (auto intro: stage.R_trans)
next
  case (found d1 n v p process fresh f result datajud)
  note mv = moved [OF assms(2) found(1)]
  from promote_hands_on [OF found(6) mv(5) mv(4) [OF refl]] mv(2) show ?thesis
    by (auto simp: handed_on_def intro: stage.R_trans)
qed

definition sample_finalizer :: finalizer where
  "sample_finalizer = \<lparr>fz_codec = sample_codec, fz_env = (\<lambda>_. None), fz_steps = nat, fz_items = length, fz_job = 8\<rparr>"

theorem finalization_hands_on_witness:
  "\<exists>d' out. apply_finalization sample_finalizer 9 ''j'' unprepared linked_db = (d', Inr out) \<and>
     stage_moves ''j'' linked_db d' \<and> waiting ''j'' d' \<noteq> []"
proof -
  have dist: "distinct (map r_id (requests linked_db))" by (simp add: linked_db_def)
  obtain d1 n where 1: "transition_requests_for_judit_request 9 ''j'' (status_name Indexing) no_fields linked_db = (d1, Inr n)"
    and d1: "d1 = linked_db\<lparr>requests := requests d1\<rparr>"
    using stage_transition(1) [OF dist] by fastforce
  have none: "preferred_judit_version ''j'' d1 = None"
    by (subst d1) (simp add: preferred_judit_version_def linked_db_def sample_db_def empty_db_def)
  obtain d2 m where 2: "transition_requests_for_judit_request 9 ''j'' (status_name SourceUnavailable)
      (no_fields\<lparr>tf_error := Some ''no_lawsuit_response''\<rparr>) d1 = (d2, Inr m)"
    using stage_transition(1) [OF moved(5) [OF dist 1]] by blast
  obtain out where run: "apply_finalization sample_finalizer 9 ''j'' unprepared linked_db = (d2, Inr out)"
    using 1 2 none by (auto simp: apply_finalization_def source_unavailable_def done_simps)
  from finalization_hands_on [OF run dist] have moves: "stage_moves ''j'' linked_db d2" by (rule conjunct1)
  then have "requests_of_judit ''j'' d2 = [1]" "map r_id (requests d2) = [1]"
    by (simp_all add: stage_moves_def linked_db_def sample_db_def empty_db_def sample_request_def new_request_def requests_of_judit_def)
  then have "waiting ''j'' d2 \<noteq> []" by (auto simp: waiting_def filter_empty_conv)
  with run moves show ?thesis by blast
qed

text \<open>No request becomes completed.\<close>

definition no_completion :: "uuid \<Rightarrow> db \<Rightarrow> db \<Rightarrow> bool" where
  "no_completion i d d' \<longleftrightarrow> (\<forall>r'. row_by r_id i (requests d') = Some r' \<and> r_status r' = SummaryCompleted \<longrightarrow>
     (\<exists>r. row_by r_id i (requests d) = Some r \<and> r_status r = SummaryCompleted))"

interpretation no_completion: step_order "no_completion i" for i
  by unfold_locales (auto simp: no_completion_def)

lemma same_no_completion: "same_requests d d' \<Longrightarrow> no_completion i d d'"
  by (simp add: no_completion_def same_requests_def)

lemma move_no_completion:
  assumes "distinct (map r_id (requests d))" "st \<noteq> SummaryCompleted"
    and "transition_requests_for_judit_request now request (status_name st) f d = (d', Inr n)"
  shows "no_completion i d d'"
  using assms(2)
  by (auto simp: no_completion_def moved(1) [OF assms(1,3)] row_by_touched touched_status split: if_splits)

lemma publishable_ignores_requests:
  "summary_publishable k (d\<lparr>requests := x\<rparr>) s p = summary_publishable k d s p"
  "passing_summary pid (d\<lparr>requests := x\<rparr>) = passing_summary pid d"
  by (simp_all add: summary_publishable_def load_ignores_requests passing_summary_def cong: option.case_cong)

text \<open>A request completed with the passing, publishable summary of the current version of a process.\<close>

definition published :: "codec \<Rightarrow> summary_request \<Rightarrow> db \<Rightarrow> bool" where
  "published k r d \<longleftrightarrow> (\<exists>pid s p. r_process r = Some pid \<and> passing_summary pid d = Some (s, p) \<and>
     summary_publishable k d s p = Inr True \<and> r_summary r = Some (sm_id s) \<and> r_version r = p_current p)"

lemma settle_completion:
  assumes run: "settle_finalized k on jid now request v p f promoted equivalent d = (d', Inr y)"
    and dist: "distinct (map r_id (requests d))"
    and row: "row_by r_id i (requests d') = Some r'" "r_status r' = SummaryCompleted" "\<not> published k r' d'"
  shows "no_completion i d d'"
  using run
proof (cases rule: settle_cases)
  case (stage b)
  then obtain task payload key job where "enqueue_job jid now task payload 3 key d = (d', Inr job)"
    by (auto simp: enqueue_next_def done_simps split: if_splits)
  from same_no_completion [OF obeysD' [OF same_enqueue this]] show ?thesis .
next
  case (reuse s q n)
  note d' = moved(1) [OF dist reuse(3)]
  from row(1) obtain r where r: "row_by r_id i (requests d) = Some r"
    and r': "r' = touched now SummaryCompleted \<lparr>tf_process = Some (p_id p), tf_version = p_current q, tf_summary = Some (sm_id s),
          tf_source_updated = Some (p_updated q), tf_flags = Some [(''reused_existing_summary'', JBool True)],
          tf_error = None\<rparr> (set (requests_of_judit request d)) r"
    by (auto simp: d' row_by_touched)
  show ?thesis
  proof (cases "r_id r \<in> set (requests_of_judit request d) \<and> transition_allowed (r_status r) SummaryCompleted")
    case True
    have "p_current q \<noteq> None" using reuse(1) by (auto simp: passing_summary_def find_Some_iff split: option.splits)
    with True reuse(1,2) have "published k r' d'"
      by (auto simp: published_def r' d' publishable_ignores_requests touched_def transition_row_def coalesce_def)
    with row(3) show ?thesis by simp
  next
    case False
    with row(2) r r' show ?thesis by (auto simp: no_completion_def touched_def)
  qed
next
  case (repair eq g n d2 payload job)
  from move_no_completion [OF dist _ repair(1)] same_no_completion [OF obeysD' [OF same_enqueue repair(2)]]
  show ?thesis by (auto intro: no_completion.R_trans)
next
  case (failed g n)
  from move_no_completion [OF dist _ failed] show ?thesis by simp
qed

text \<open>C22: Finalization completes a public request only with published work: a request that was not
  completed before the transaction and is completed after it points to the summary of the current
  version of its process, and that summary has passed validation and is publishable (its claims have
  complete and cleared evidence, or it is the local text for a process under secrecy).\<close>

theorem finalization_completes_published:
  assumes "apply_finalization z now request prep d = (d', Inr out)" "distinct (map r_id (requests d))"
    and "row_by r_id i (requests d) = Some r" "r_status r \<noteq> SummaryCompleted"
    and "row_by r_id i (requests d') = Some r'" "r_status r' = SummaryCompleted"
  shows "published (fz_codec z) r' d'"
proof (rule ccontr)
  assume not: "\<not> published (fz_codec z) r' d'"
  from assms(1) have "no_completion i d d'"
  proof (cases rule: apply_cases)
    case (absent d1 n reason)
    from absent(2) obtain m where
      m: "transition_requests_for_judit_request now request (status_name SourceUnavailable)
        (no_fields\<lparr>tf_error := Some reason\<rparr>) d1 = (d', Inr m)"
      by (auto simp: source_unavailable_def done_simps)
    from move_no_completion [OF assms(2) _ absent(1)] move_no_completion [OF moved(5) [OF assms(2) absent(1)] _ m]
    show ?thesis by (auto intro: no_completion.R_trans)
  next
    case (found d1 n v p process fresh f result datajud)
    note dist1 = moved(5) [OF assms(2) found(1)]
    have "no_completion i d1 d'"
      using found(6)
    proof (cases rule: promote_parts)
      case (1 d2 d3 d4 promoted equivalent flags m g)
      have dist3: "distinct (map r_id (requests d3))" using 1(2) dist1 by (simp add: same_requests_def)
      have "no_completion i d3 d4" using 1(4) move_no_completion [OF dist3] no_completion.R_refl by blast
      moreover have "distinct (map r_id (requests d4))" using 1(4) moved(5) [OF dist3] dist3 by blast
      ultimately show ?thesis
        using settle_completion [OF 1(5) _ assms(5,6) not] same_no_completion [OF 1(2)]
        by (blast intro: no_completion.R_trans)
    qed
    with move_no_completion [OF assms(2) _ found(1)] show ?thesis by (auto intro: no_completion.R_trans)
  qed
  with assms(3-6) show False by (simp add: no_completion_def)
qed

definition reuse_version :: version_row where
  "reuse_version = (staged_version 2 10)\<lparr>v_finalized := True, v_cached := True, v_payload := JObj [(''event_type'', JStr ''x''),
     (''payload'', JObj [(''response_data'', JObj [(''secrecy_level'', JInt 1)])])]\<rparr>"

definition reuse_db :: db where
  "reuse_db = secret_db\<lparr>versions := [reuse_version], requests := [secret_req\<lparr>r_tjr := Some 4\<rparr>],
     acquisitions := [\<lparr>a_id = 4, a_tenant = 5, a_code = ''1'', a_request = Some ''r'', a_status = AProcessing,
       a_attempt = 1, a_completed_at = None\<rparr>]\<rparr>"

lemma extracts:
  assumes "case staged of Inr (Some process) \<Rightarrow> (case g process of Inr f \<Rightarrow> P f | Inl _ \<Rightarrow> False) | _ \<Rightarrow> False"
  shows "\<exists>process f. staged = Inr (Some process) \<and> g process = Inr f \<and> P f"
proof (cases staged)
  case (Inr process)
  with assms show ?thesis by (cases process; cases "g (the process)") auto
qed (use assms in simp)

lemma reuse_extracts:
  "\<exists>process f. staged_process sample_codec reuse_version = Inr (Some process) \<and>
     extract_promotable_fields sample_codec process = Inr f \<and> pf_secrecy f = 1"
  by (rule extracts) code_simp

lemma reuse_run:
  "\<exists>d' out r'. apply_finalization sample_finalizer 9 ''r'' unprepared reuse_db = (d', Inr out) \<and>
     row_by r_id 1 (requests d') = Some r' \<and> r_status r' = SummaryCompleted"
proof -
  note db = reuse_db_def secret_db_def empty_db_def secret_req_def new_request_def
  have dist: "distinct (map r_id (requests reuse_db))" by (simp add: reuse_db_def)
  have ids: "requests_of_judit ''r'' reuse_db = [1]" by (simp add: requests_of_judit_def db)
  obtain process f where st: "staged_process sample_codec reuse_version = Inr (Some process)"
    and ex: "extract_promotable_fields sample_codec process = Inr f" using reuse_extracts by blast
  let ?t = "\<lambda>st g d. d\<lparr>requests := map (touched 9 st g {1}) (requests d)\<rparr>"
  have move: "\<exists>n. transition_requests_for_judit_request 9 ''r'' (status_name st) g d = (?t st g d, Inr n)"
    if "distinct (map r_id (requests d))" "requests_of_judit ''r'' d = [1]" for st g d
    using stage_transition(1) [OF that(1), of 9 "''r''" st g] that(2) by simp
  have keep: "distinct (map r_id (requests (?t st g d)))" "requests_of_judit ''r'' (?t st g d) = [1]"
    if "distinct (map r_id (requests d))" "requests_of_judit ''r'' d = [1]" for st g d
    using that by (simp_all add: o_def requests_of_judit_touched)
  let ?d1 = "?t Indexing no_fields reuse_db"
  let ?d2 = "?t Indexing (indexing_fields 3 (Some 2)) ?d1"
  let ?h = "\<lparr>tf_process = Some 3, tf_version = Some 2, tf_summary = Some 1, tf_source_updated = Some 0,
     tf_flags = Some [(''reused_existing_summary'', JBool True)], tf_error = None\<rparr>"
  let ?d3 = "?t SummaryCompleted ?h ?d2"
  note k1 = keep [OF dist ids] and k2 = keep [OF keep [OF dist ids]]
  obtain n1 where 1: "transition_requests_for_judit_request 9 ''r'' (status_name Indexing) no_fields reuse_db = (?d1, Inr n1)"
    using move [OF dist ids] by blast
  obtain n2 where 2: "transition_requests_for_judit_request 9 ''r'' (status_name Indexing) (indexing_fields 3 (Some 2)) ?d1 = (?d2, Inr n2)"
    using move [OF k1] by blast
  obtain n3 where 3: "transition_requests_for_judit_request 9 ''r'' (status_name SummaryCompleted) ?h ?d2 = (?d3, Inr n3)"
    using move [OF k2] by blast
  have pref: "preferred_judit_version ''r'' ?d1 = Some (reuse_version, secret_process)"
    by (simp add: preferred_judit_version_def db reuse_version_def staged_version_def new_version_def secret_process_def)
  have fin: "finalize_version sample_codec nat length 9 3 2 f ?d1 = (?d1, Inr True)"
    by (simp add: finalize_version_def run_simps prog_simps transaction_def db row_by_def secret_process_def version_at_def
      reuse_version_def staged_version_def new_version_def)
  have pass: "passing_summary 3 ?d2 = Some (secret_summary, secret_process)"
    by (simp add: passing_summary_def db row_by_def secret_process_def secret_summary_def)
  have pub: "summary_publishable sample_codec ?d2 secret_summary secret_process = Inr True"
    using secret_restricted by (simp add: summary_publishable_def sample_codec_def secret_process_def)
  have names: "v_id reuse_version = 2" "v_cached reuse_version" "p_id secret_process = 3" "p_current secret_process = Some 2"
    "p_updated secret_process = 0" "sm_id secret_summary = 1"
    by (simp_all add: reuse_version_def staged_version_def new_version_def secret_process_def secret_summary_def)
  have "\<exists>out. promote_staged sample_finalizer 9 ''r'' reuse_version secret_process f None ''not_attempted'' ?d1 = (?d3, Inr out)"
    using 2 3 fin pass pub names
    by (simp add: promote_staged_def settle_finalized_def complete_from_current_summary_def sample_finalizer_def
      bind_def then_do_def query_def ret_def lift_res_def)
  then obtain out where po: "promote_staged sample_finalizer 9 ''r'' reuse_version secret_process f None ''not_attempted'' ?d1 = (?d3, Inr out)" ..
  have "fz_codec sample_finalizer = sample_codec" by (simp add: sample_finalizer_def)
  then have "apply_finalization sample_finalizer 9 ''r'' unprepared reuse_db = (?d3, Inr out)"
    using 1 pref st ex names po
    by (simp add: apply_finalization_def transaction_def bind_def then_do_def query_def lift_res_def
      chosen_fields_def unprepared_def)
  moreover have "\<exists>r'. row_by r_id 1 (requests ?d3) = Some r' \<and> r_status r' = SummaryCompleted"
    by (simp add: db row_by_touched row_by_def touched_status status_table)
  ultimately show ?thesis by blast
qed

theorem finalization_completes_published_witness:
  "\<exists>d' out r'. apply_finalization sample_finalizer 9 ''r'' unprepared reuse_db = (d', Inr out) \<and>
     row_by r_id 1 (requests d') = Some r' \<and> published sample_codec r' d'"
proof -
  obtain d' out r' where run: "apply_finalization sample_finalizer 9 ''r'' unprepared reuse_db = (d', Inr out)"
    and r': "row_by r_id 1 (requests d') = Some r'" "r_status r' = SummaryCompleted" using reuse_run by blast
  have "distinct (map r_id (requests reuse_db))" by (simp add: reuse_db_def)
  moreover have "row_by r_id 1 (requests reuse_db) = Some (secret_req\<lparr>r_tjr := Some 4\<rparr>)"
    by (simp add: reuse_db_def row_by_def secret_req_def new_request_def)
  moreover have "r_status (secret_req\<lparr>r_tjr := Some 4\<rparr>) \<noteq> SummaryCompleted" by (simp add: secret_open)
  ultimately have "published (fz_codec sample_finalizer) r' d'"
    using finalization_completes_published [OF run] r' by blast
  with run r' show ?thesis by (auto simp: sample_finalizer_def)
qed

subsection \<open>A response staged again during the lookup\<close>

lemma settle_content:
  assumes "settle_finalized k on jid now request v p f promoted equivalent d = (d', Inr y)"
    and "distinct (map r_id (requests d))"
  shows "same_content d d'"
proof -
  have enq: "same_content d1 d2" if "enqueue_job jid now task payload m key d1 = (d2, Inr job)" for task payload m key d1 d2 job
    using fst_on_jobs [of "enqueue jid now task payload 10 None (JInt m) (Some key)" d1] that
    by (simp add: enqueue_job_def same_content_def)
  have mv: "same_content d1 d2" if "distinct (map r_id (requests d1))"
    "transition_requests_for_judit_request now request (status_name st) g d1 = (d2, Inr n)" for d1 d2 st g n
    unfolding moved(1) [OF that] by (simp add: same_content_def)
  from assms(1) show ?thesis
  proof (cases rule: settle_cases)
    case (stage b)
    with enq show ?thesis by (auto simp: enqueue_next_def done_simps split: if_splits)
  next
    case (reuse s q n)
    show ?thesis by (rule mv [OF assms(2) reuse(3)])
  next
    case (repair eq g n d2 payload job)
    show ?thesis using mv [OF assms(2) repair(1)] enq [OF repair(2)] by (rule same_content.R_trans)
  next
    case (failed g n)
    show ?thesis by (rule mv [OF assms(2) failed])
  qed
qed

text \<open>What a promotion leaves in the tables of the content: the work of \<open>finalize_version\<close>.\<close>

lemma promote_content:
  assumes "promote_staged z now request v p f result datajud d = (d', Inr out)" "distinct (map r_id (requests d))"
  obtains d1 promoted where "finalize_version (fz_codec z) (fz_steps z) (fz_items z) now (p_id p) (v_id v) f d = (d1, Inr promoted)"
    "same_content d1 d'"
  using assms(1)
proof (cases rule: promote_parts)
  case (1 d1 d2 d3 promoted equivalent flags m g)
  have dist: "distinct (map r_id (requests d2))" using 1(2) assms(2) by (simp add: same_requests_def)
  from 1(4) have "same_content d2 d3 \<and> distinct (map r_id (requests d3))"
  proof
    assume t: "transition_requests_for_judit_request now request (status_name Indexing) g d2 = (d3, Inr m)"
    show ?thesis using moved(5) [OF dist t] unfolding moved(1) [OF dist t] by (simp add: same_content_def)
  qed (simp add: dist same_content.R_refl)
  with 1(3) settle_content [OF 1(5)] have "same_content d1 d'" by (blast intro: same_content.R_trans)
  with that 1(1) show thesis by blast
qed

text \<open>The fingerprint of what is current does not depend on the requests.\<close>

lemma unchanged_same_content: "same_content d e \<Longrightarrow> unchanged k p f e = unchanged k p f d"
  by (simp add: same_content_def unchanged_def current_semantic_fingerprint_def steps_of_def attachments_of_def
      cong: option.case_cong)

lemma preferred_row:
  assumes "preferred_judit_version request d = Some (v, p)" "version_inv d"
  shows "row_by p_id (p_id p) (processes d) = Some p" "find (version_at (p_id p) (v_id v)) (versions d) = Some v"
proof -
  let ?rows = "concat (map (\<lambda>v. map (Pair v) (filter (\<lambda>p. p_id p = v_process v) (processes d)))
     (filter (\<lambda>v. v_request v = Some request) (versions d)))"
  from assms(1) have "(v, p) \<in> set (sort_key (\<lambda>(v, p). (v_cached v, - v_created v)) ?rows)"
    unfolding preferred_judit_version_def by (metis (no_types, lifting) list.case_eq_if list.set_sel(1) option.distinct(1) option.inject)
  then have in_rows: "v \<in> set (versions d)" "p \<in> set (processes d)" "p_id p = v_process v" by auto
  from assms(2) have ids: "distinct (map p_id (processes d))" by (simp add: version_inv_def)
  show "row_by p_id (p_id p) (processes d) = Some p" by (rule row_by_in [OF ids in_rows(2)])
  show "find (version_at (p_id p) (v_id v)) (versions d) = Some v"
    by (rule version_found [OF assms(2) in_rows(1)]) (simp add: in_rows(3))
qed

text \<open>What the preparation holds for a version that is not final.\<close>

lemma prepared_fields:
  assumes "prepare_finalization k lookup request d = Inr prep"
    and "preferred_judit_version request d = Some (v, p)" "\<not> v_finalized v"
    and "staged_process k v = Inr (Some process)" "extract_promotable_fields k process = Inr f"
  shows "pp_version prep = Some (v_id v)"
    "pp_fields prep = Some f \<or> (\<exists>m. pp_fields prep = Some (mr_process (merge_datajud_metadata k f m)))"
  using assms by (auto simp: prepare_finalization_def Let_def split: if_splits)

text \<open>C24: The fields applied are those prepared before the lookup, not those of the response that is final.
  When other sessions stage the same version again with another payload while the job asks for the
  official metadata, the job records the content prepared from the earlier payload (with the official
  metadata merged in, which changes neither secrecy nor parties, representatives, steps or attachments):
  its fingerprint is the one of the final version, its steps are the steps stored, and, unless it is
  unchanged or the version is overtaken, its fields are those of the process. A process that has since
  come under secrecy is promoted as public, with its parties.\<close>

theorem restaged_payload_not_promoted:
  assumes "finalize_judit_request_task z lookup others now payload d0 = (d', Inr out)"
    and "payload_item payload ''request_id'' = Inr (JStr request)"
    and "preferred_judit_version request d0 = Some (v0, p0)" "\<not> v_finalized v0"
    and "staged_process (fz_codec z) v0 = Inr (Some early)" "extract_promotable_fields (fz_codec z) early = Inr old"
    and "version_inv (others d0)" "distinct (map r_id (requests (others d0)))"
    and "preferred_judit_version request (others d0) = Some (v, p)" "v_id v = v_id v0" "\<not> v_finalized v"
    and "staged_process (fz_codec z) v = Inr (Some restaged_payload)"
  shows "\<exists>f e. (f = old \<or> (\<exists>m. f = mr_process (merge_datajud_metadata (fz_codec z) old m))) \<and>
    pf_secrecy f = pf_secrecy old \<and> pf_parties f = pf_parties old \<and> pf_representatives f = pf_representatives old \<and>
    pf_steps f = pf_steps old \<and> pf_attachments f = pf_attachments old \<and>
    finalized_row now (semantic_fingerprint (fz_codec z) f) e v \<in> set (versions d') \<and>
    steps d' = (if unchanged (fz_codec z) p f (others d0) then steps (others d0)
       else filter (\<lambda>s. s_version s \<noteq> v_id v) (steps (others d0)) @
         map (new_step (fz_codec z) (fz_steps z) (p_id p) (v_id v)) (pf_steps f)) \<and>
    row_by p_id (p_id p) (processes d') = Some
      (if \<not> unchanged (fz_codec z) p f (others d0) \<and> not_overtaken p v (others d0)
       then promoted_row (fz_codec z) now (v_id v) f p else p)"
proof -
  let ?k = "fz_codec z" and ?d = "others d0"
  from assms(1,2) obtain prep where prep: "prepare_finalization ?k lookup request d0 = Inr prep"
    and run: "apply_finalization z now request prep ?d = (d', Inr out)"
    by (auto simp: finalize_judit_request_task_def done_simps Let_def raise_def modify_def split: if_splits)
  note pf = prepared_fields [OF prep assms(3-6)]
  then obtain f where f: "pp_fields prep = Some f" "f = old \<or> (\<exists>m. f = mr_process (merge_datajud_metadata ?k old m))" by blast
  from run obtain d1 n where idx: "transition_requests_for_judit_request now request (status_name Indexing) no_fields ?d = (d1, Inr n)"
    by (cases rule: apply_cases) blast+
  note d1 = moved(1) [OF assms(8) idx]
  have same1: "same_content ?d d1" by (simp add: d1 same_content_def)
  have pref: "preferred_judit_version request d1 = Some (v, p)"
    using assms(9) by (simp add: d1 preferred_judit_version_def)
  have "\<exists>r s. promote_staged z now request v p f r s d1 = (d', Inr out)"
    using run idx pref assms(10,12) pf(1) f(1)
    by (auto simp: apply_finalization_def done_simps chosen_fields_def split: prod.splits)
  then obtain r s where "promote_staged z now request v p f r s d1 = (d', Inr out)" by blast
  then obtain d2 promoted where
    fin: "finalize_version ?k (fz_steps z) (fz_items z) now (p_id p) (v_id v) f d1 = (d2, Inr promoted)" and same2: "same_content d2 d'"
    by (rule promote_content [OF _ moved(5) [OF assms(8) idx]])
  have row: "row_by p_id (p_id p) (processes d1) = Some p" "find (version_at (p_id p) (v_id v)) (versions d1) = Some v"
    using preferred_row [OF assms(9,7)] by (simp_all add: d1)
  have v: "v \<in> set (versions d1)" "version_at (p_id p) (v_id v) v" using row(2) by (auto simp: find_Some_iff)
  note applied = finalize_run [OF row assms(11) fin]
  have un: "unchanged ?k p f d1 = unchanged ?k p f ?d" by (rule unchanged_same_content [OF same1])
  have no: "not_overtaken p v d1 = not_overtaken p v ?d" using same1
    by (simp add: same_content_def not_overtaken_def split: option.split)
  have "row_by p_id (p_id p) (processes d') = Some (if \<not> unchanged ?k p f ?d \<and> not_overtaken p v ?d
       then promoted_row ?k now (v_id v) f p else p)"
    using applied same2 row(1) un no by (simp add: same_content_def promoted_upd.row_by_update)
  moreover have "\<exists>e. finalized_row now (semantic_fingerprint ?k f) e v \<in> set (versions d')"
    using applied same2 v by (auto simp: same_content_def set_update_where)
  moreover have "steps d' = (if unchanged ?k p f ?d then steps ?d else filter (\<lambda>s. s_version s \<noteq> v_id v) (steps ?d) @
         map (new_step ?k (fz_steps z) (p_id p) (v_id v)) (pf_steps f))"
    using applied same1 same2 un by (simp add: same_content_def)
  moreover have "pf_secrecy f = pf_secrecy old" "pf_parties f = pf_parties old" "pf_representatives f = pf_representatives old"
    "pf_steps f = pf_steps old" "pf_attachments f = pf_attachments old"
    using f(2) by (auto simp: merge_keeps_steps)
  ultimately show ?thesis using f(2) by blast
qed

text \<open>A response that is staged as public and, while the job looks up the metadata, again as secret.\<close>

definition judit_response :: "int \<Rightarrow> response" where
  "judit_response secrecy = \<lparr>rs_source_request = Some ''s'', rs_cached = False, rs_payload = [(''event_type'', JStr ''x''),
     (''payload'', JObj [(''response_data'', JObj [(''secrecy_level'', JInt secrecy)])])], rs_request = Some ''r'',
     rs_response = None, rs_callback = None\<rparr>"

definition early_version :: version_row where
  "early_version = new_version sample_codec 4 20 3 (judit_response 0)"

definition early_db :: db where
  "early_db = empty_db\<lparr>processes := [new_process 3 0 ''0000000-00.0000.0.00.0000''], versions := [early_version]\<rparr>"

definition stage_again :: "db \<Rightarrow> db" where
  "stage_again d = fst (stage_version sample_codec 8 6 21 ''0000000-00.0000.0.00.0000'' (judit_response 1) None d)"

definition no_lookup :: metadata_lookup where
  "no_lookup code secrecy = Inr \<lparr>lk_status = LookupDisabled, lk_metadata = None, lk_error = None\<rparr>"

definition late_finalizer :: finalizer where
  "late_finalizer = sample_finalizer\<lparr>fz_env := (\<lambda>_. Some ''url'')\<rparr>"

lemma stage_again_early:
  "stage_again early_db = early_db\<lparr>processes := [(new_process 3 0 ''0000000-00.0000.0.00.0000'')\<lparr>p_updated := 21\<rparr>],
     versions := [restaged sample_codec (judit_response 1) early_version]\<rparr>"
proof -
  have code: "canonical_code ''0000000-00.0000.0.00.0000''" by code_simp
  have load: "obj_get (as_obj (JObj (rs_payload (judit_response 1)))) ''reference_type'' = JNull"
    by (simp add: judit_response_def obj_get_def)
  show ?thesis
    using load
    by (simp add: stage_again_def stage_version_def transaction_def code open_process_row_def write_version_def
      early_db_def early_version_def new_process_def new_version_def judit_response_def staged_slot_def id_taken_def
      restaged_def reconcile_version_def tracking_reference_def member_text_def sample_codec_def touch_process_def
      grant_tracking_request_tenant_def row_by_def empty_db_def prog_simps ret_def modify_def update_where_def coalesce_def Let_def)
qed

lemma early_run:
  "case finalize_judit_request_task late_finalizer no_lookup stage_again 30 [(JStr ''request_id'', JStr ''r'')] early_db of
     (d', Inr _) \<Rightarrow> True | (d', Inl _) \<Rightarrow> False"
  by code_simp

lemma responses_extract:
  "case staged_process sample_codec early_version of
      Inr (Some process) \<Rightarrow> (case extract_promotable_fields sample_codec process of Inr f \<Rightarrow> pf_secrecy f = 0 | Inl _ \<Rightarrow> False)
    | _ \<Rightarrow> False"
  "case staged_process sample_codec (restaged sample_codec (judit_response 1) early_version) of
      Inr (Some process) \<Rightarrow> (case extract_promotable_fields sample_codec process of Inr f \<Rightarrow> pf_secrecy f = 1 | Inl _ \<Rightarrow> False)
    | _ \<Rightarrow> False"
  by code_simp+

text \<open>The payload in the database says secret; the process is public.\<close>

theorem restaged_payload_not_promoted_witness:
  "\<exists>d' out q process fresh.
     finalize_judit_request_task late_finalizer no_lookup stage_again 30 [(JStr ''request_id'', JStr ''r'')] early_db = (d', Inr out) \<and>
     row_by p_id 3 (processes d') = Some q \<and> p_current q = Some 4 \<and> p_secrecy q = 0 \<and>
     staged_process sample_codec (restaged sample_codec (judit_response 1) early_version) = Inr (Some process) \<and>
     extract_promotable_fields sample_codec process = Inr fresh \<and> pf_secrecy fresh = 1"
proof -
  let ?v = "restaged sample_codec (judit_response 1) early_version"
  let ?p = "(new_process 3 0 ''0000000-00.0000.0.00.0000'')\<lparr>p_updated := 21\<rparr>"
  have k: "fz_codec late_finalizer = sample_codec" by (simp add: late_finalizer_def sample_finalizer_def)
  from early_run obtain d' out where run: "finalize_judit_request_task late_finalizer no_lookup stage_again 30
      [(JStr ''request_id'', JStr ''r'')] early_db = (d', Inr out)" by (auto split: prod.split_asm sum.split_asm)
  obtain early old where old: "staged_process sample_codec early_version = Inr (Some early)"
    "extract_promotable_fields sample_codec early = Inr old" "pf_secrecy old = 0" using extracts [OF responses_extract(1)] by blast
  obtain process fresh where new: "staged_process sample_codec ?v = Inr (Some process)"
    "extract_promotable_fields sample_codec process = Inr fresh" "pf_secrecy fresh = 1" using extracts [OF responses_extract(2)] by blast
  have fields: "v_id ?v = 4" "v_id early_version = 4" "\<not> v_finalized early_version" "v_process early_version = 3"
    "v_request early_version = Some ''r''" "v_request ?v = Some ''r''" "v_equivalent early_version = None"
    by (simp_all add: early_version_def new_version_def judit_response_def restaged_def coalesce_def)
  have "preferred_judit_version ''r'' early_db = Some (early_version, new_process 3 0 ''0000000-00.0000.0.00.0000'')"
    using fields by (simp add: preferred_judit_version_def early_db_def new_process_def)
  moreover have "preferred_judit_version ''r'' (stage_again early_db) = Some (?v, ?p)"
    using fields by (simp add: preferred_judit_version_def stage_again_early new_process_def)
  moreover have "version_inv (stage_again early_db)"
    using fields by (simp add: version_inv_def housed_def stage_again_early new_process_def)
  moreover have "distinct (map r_id (requests (stage_again early_db)))"
    unfolding stage_again_early by (simp add: early_db_def empty_db_def)
  moreover have "payload_item [(JStr ''request_id'', JStr ''r'')] ''request_id'' = Inr (JStr ''r'')"
    by (simp add: payload_item_def dict_get_def)
  ultimately obtain f where f: "pf_secrecy f = pf_secrecy old" and row: "row_by p_id (p_id ?p) (processes d') = Some
      (if \<not> unchanged sample_codec ?p f (stage_again early_db) \<and> not_overtaken ?p ?v (stage_again early_db)
       then promoted_row sample_codec 30 (v_id ?v) f ?p else ?p)"
    using restaged_payload_not_promoted [OF run, of "''r''" early_version _ early old ?v ?p process] old new fields
    unfolding k by auto
  have "row_by p_id 3 (processes d') = Some (promoted_row sample_codec 30 4 f ?p)"
    using row fields(1) by (simp add: unchanged_def not_overtaken_def new_process_def)
  with run new f old(3) show ?thesis by (auto simp: promoted_row_def)
qed

end
