(* ===== verification/Webhook.thy ===== *)
theory Webhook
  imports JuditTasks Auth
begin

text \<open>
  The webhook of \<open>app/api.py\<close>: the provider posts events to a URL with a secret; a delivery is recorded
  once, a response is staged as a version, a completion is recorded, and the job that finalizes the
  request is enqueued when both have arrived, whichever comes last. \<open>app/tenancy.py\<close> is here as well: the
  tenant that owns the webhook and the portfolios configured for tenants.
\<close>

subsection \<open>Configuration of tenants\<close>

definition configured_webhook_tenant :: "(string \<Rightarrow> string option) \<Rightarrow> uuid option res" where
  "configured_webhook_tenant env = (case env ''JUDIT_WEBHOOK_TENANT_ID'' of
     None \<Rightarrow> Inr None
   | Some raw \<Rightarrow> (if strip raw = [] then Inr None
       else case parse_uuid (strip raw) of
         Some u \<Rightarrow> Inr (Some u)
       | None \<Rightarrow> Inl (RuntimeError ''JUDIT_WEBHOOK_TENANT_ID must be a valid tenant UUID string'')))"

fun text_items :: "json list \<Rightarrow> string list option" where
  "text_items [] = Some []"
| "text_items (x # xs) = (case (x, text_items xs) of (JStr s, Some ss) \<Rightarrow> Some (s # ss) | _ \<Rightarrow> None)"

text \<open>\<open>carteira[tenant] = codes\<close>: a tenant named twice keeps its place and gets the later codes.\<close>

fun put_tenant :: "uuid \<Rightarrow> string list \<Rightarrow> (uuid \<times> string list) list \<Rightarrow> (uuid \<times> string list) list" where
  "put_tenant t codes [] = [(t, codes)]"
| "put_tenant t codes ((u, old) # rest) = (if t = u then (u, codes) # rest else (u, old) # put_tenant t codes rest)"

fun carteira_entries :: "(uuid \<times> string list) list \<Rightarrow> (string \<times> json) list \<Rightarrow> (uuid \<times> string list) list res" where
  "carteira_entries acc [] = Inr acc"
| "carteira_entries acc ((tenant, codes) # rest) = (case parse_uuid tenant of
     None \<Rightarrow> Inl (RuntimeError ''RPY_TENANT_PROCESSES contains an invalid tenant UUID'')
   | Some t \<Rightarrow> (case (case codes of JArr xs \<Rightarrow> text_items xs | _ \<Rightarrow> None) of
         None \<Rightarrow> Inl (RuntimeError ''RPY_TENANT_PROCESSES values must be lists of CNJ code strings'')
       | Some ss \<Rightarrow> carteira_entries (put_tenant t (filter (\<lambda>c. c \<noteq> []) (map strip ss)) acc) rest))"

definition parse_carteira_seed ::
  "(string \<Rightarrow> json option) \<Rightarrow> (string \<Rightarrow> string option) \<Rightarrow> (uuid \<times> string list) list res" where
  "parse_carteira_seed parse env = (case env ''RPY_TENANT_PROCESSES'' of
     None \<Rightarrow> Inr []
   | Some raw \<Rightarrow> (if raw = [] then Inr []
       else case loads_strict_json parse raw of
         Inl _ \<Rightarrow> Inl (RuntimeError ''RPY_TENANT_PROCESSES must be valid JSON'')
       | Inr (JObj kvs) \<Rightarrow> carteira_entries [] kvs
       | Inr _ \<Rightarrow> Inl (RuntimeError ''RPY_TENANT_PROCESSES must map tenant UUIDs to CNJ lists'')))"

subsection \<open>One event\<close>

definition valid_webhook_token :: "(string \<Rightarrow> string option) \<Rightarrow> string \<Rightarrow> bool res" where
  "valid_webhook_token env token =
     (let expected = (case env ''JUDIT_WEBHOOK_TOKEN'' of None \<Rightarrow> [] | Some s \<Rightarrow> s) in
      if expected = [] then Inr False else compare_digest token expected)"

text \<open>True for a delivery not seen before; an event without a callback id is always new.\<close>

definition record_delivery :: "codec \<Rightarrow> timestamp \<Rightarrow> judit_event \<Rightarrow> (db, bool) prog" where
  "record_delivery k now e = (case ev_callback e of
     None \<Rightarrow> ret True
   | Some c \<Rightarrow> (if c = [] then ret True
       else bind (query (\<lambda>d. list_ex (\<lambda>x. dl_callback x = c) (deliveries d))) (\<lambda>seen.
         if seen then ret False
         else then_do (modify (\<lambda>d. d\<lparr>deliveries := deliveries d @
              [\<lparr>dl_callback = c, dl_request = ev_request e, dl_type = ev_type e,
                dl_payload = cd_store k (JObj (ev_raw e)), dl_received = now\<rparr>]\<rparr>)) (ret True))))"

text \<open>The insertion fires the trigger of \<open>sql/023\<close> that completes the refresh of a tracking.\<close>

definition record_request_completion :: "timestamp \<Rightarrow> string \<Rightarrow> (db, unit) prog" where
  "record_request_completion now request =
     then_do (bind (query (\<lambda>d. list_ex (\<lambda>c. cp_request c = request) (completions d))) (\<lambda>known.
         if known then ret ()
         else then_do (modify (\<lambda>d. d\<lparr>completions := completions d @ [\<lparr>cp_request = request, cp_completed = now\<rparr>]\<rparr>))
           (complete_refresh_for_request now request)))
       (modify (\<lambda>d. d\<lparr>acquisitions := update_where (\<lambda>a. a_request a = Some request)
          (\<lambda>a. a\<lparr>a_completed_at := coalesce (a_completed_at a) (Some now)\<rparr>) (acquisitions d)\<rparr>))"

definition request_was_completed :: "string \<Rightarrow> db \<Rightarrow> bool" where
  "request_was_completed request d \<longleftrightarrow> list_ex (\<lambda>c. cp_request c = request) (completions d)"

definition finalize_task :: string where
  "finalize_task = ''finalize_judit_request''"

definition enqueue_finalize :: "uuid \<Rightarrow> timestamp \<Rightarrow> string \<Rightarrow> string \<Rightarrow> (db, unit) prog" where
  "enqueue_finalize jid now request key =
     then_do (enqueue_job jid now finalize_task (JObj [(''request_id'', JStr request)]) 3 key) (ret ())"

definition finalize_key :: "string \<Rightarrow> string" where
  "finalize_key request = ''judit-finalize:'' @ request"

text \<open>\<open>str()\<close> of an optional value, as the code applies it to the request id.\<close>

definition str_or_none :: "string option \<Rightarrow> string" where
  "str_or_none v = (case v of None \<Rightarrow> ''None'' | Some s \<Rightarrow> s)"

definition source_of :: "judit_event \<Rightarrow> string option" where
  "source_of e = (case ev_response e of Some r \<Rightarrow> (if r = [] then ev_callback e else Some r) | None \<Rightarrow> ev_callback e)"

definition repair_finalize_key :: "string \<Rightarrow> string option \<Rightarrow> string" where
  "repair_finalize_key request source = ''judit-finalize-repair:'' @ request @ '':'' @ str_or_none source"

definition response_of :: "judit_event \<Rightarrow> response" where
  "response_of e = \<lparr>rs_source_request = source_of e, rs_cached = ev_cached e, rs_payload = ev_raw e,
     rs_request = ev_request e, rs_response = ev_response e, rs_callback = ev_callback e\<rparr>"

record webhook =
  wh_codec :: codec
  wh_env :: "string \<Rightarrow> string option"
  wh_tenant :: "uuid option"
  wh_process :: uuid
  wh_version :: uuid
  wh_job :: uuid

definition stage_event :: "webhook \<Rightarrow> timestamp \<Rightarrow> judit_event \<Rightarrow> (db, unit) prog" where
  "stage_event w now e =
     bind (stage_version (wh_codec w) (wh_process w) (wh_version w) now (str_or_none (ev_code e)) (response_of e) (wh_tenant w))
       (\<lambda>(pid, _). then_do (case ev_request e of
            None \<Rightarrow> ret () | Some r \<Rightarrow> (if r = [] then ret () else grant_request_tenants r pid))
          (bind (query (request_was_completed (str_or_none (ev_request e)))) (\<lambda>completed.
             if completed
             then enqueue_finalize (wh_job w) now (str_or_none (ev_request e))
                    (repair_finalize_key (str_or_none (ev_request e)) (source_of e))
             else ret ())))"

definition handle_event :: "webhook \<Rightarrow> timestamp \<Rightarrow> judit_event \<Rightarrow> (db, unit) prog" where
  "handle_event w now e =
     (if is_lawsuit_response e then stage_event w now e
      else case ev_request e of
          None \<Rightarrow> ret ()
        | Some r \<Rightarrow> (if request_completed (wh_codec w) e \<and> r \<noteq> []
            then then_do (record_request_completion now r) (enqueue_finalize (wh_job w) now r (finalize_key r))
            else ret ()))"

definition accept_event :: "webhook \<Rightarrow> timestamp \<Rightarrow> judit_event \<Rightarrow> (db, unit) prog" where
  "accept_event w now e = transaction (bind (record_delivery (wh_codec w) now e) (\<lambda>fresh.
     if \<not> fresh then ret () else handle_event w now e))"

text \<open>The body is None when its bytes are no UTF-8.\<close>

definition read_body :: "codec \<Rightarrow> (string \<Rightarrow> json option) \<Rightarrow> string option \<Rightarrow> judit_event res" where
  "read_body k parse body = (case body of
     None \<Rightarrow> Inl (ValueError ''invalid utf-8'')
   | Some text \<Rightarrow> res_bind (loads_strict_json parse text) (parse_event k))"

definition judit_webhook ::
  "webhook \<Rightarrow> (string \<Rightarrow> json option) \<Rightarrow> timestamp \<Rightarrow> string \<Rightarrow> string option \<Rightarrow> (db, json) prog" where
  "judit_webhook w parse now token body =
     bind (lift_res (valid_webhook_token (wh_env w) token)) (\<lambda>good.
       if \<not> good then raise (HTTPException 404 ''not found'' [])
       else case read_body (wh_codec w) parse body of
           Inl e \<Rightarrow> (if is_value_error e \<or> is_type_error e then raise (HTTPException 400 ''invalid payload'' []) else raise e)
         | Inr e \<Rightarrow> then_do (accept_event w now e) (ret (JObj [(''ok'', JBool True)])))"

subsection \<open>What only grows\<close>

definition grows :: "db \<Rightarrow> db \<Rightarrow> bool" where
  "grows d d' \<longleftrightarrow> set (deliveries d) \<subseteq> set (deliveries d') \<and> set (completions d) \<subseteq> set (completions d') \<and>
     set (jobs d) \<subseteq> set (jobs d')"

interpretation grows: step_order grows
  by unfold_locales (auto simp: grows_def)

lemma grows_grants: "grows d (fold (\<lambda>x. grant (f x, pid)) xs d)"
proof -
  have "deliveries (fold (\<lambda>x. grant (f x, pid)) xs d) = deliveries d \<and>
      completions (fold (\<lambda>x. grant (f x, pid)) xs d) = completions d \<and> jobs (fold (\<lambda>x. grant (f x, pid)) xs d) = jobs d"
    by (induction xs arbitrary: d) (simp_all add: grant_def)
  then show ?thesis by (simp add: grows_def)
qed

lemma grows_stage: "obeys grows (stage_version k npid nvid now code r tenant)"
  unfolding stage_version_def open_process_row_def grant_process_access_def write_version_def reconcile_version_def
    set_trackings_def grant_tracking_request_tenant_def touch_process_def grant_trackings_def Let_def
  by (intro grows.resp_rules grows.resp_modify grows_grants) (simp_all add: grows_def grant_def)

lemma grows_enqueue: "obeys grows (enqueue_job jid now task payload m key)"
  by (rule obeysI) (auto simp: grows_def enqueue_job_def fst_on_jobs enqueue_def enqueue_sql_def Let_def split: sum.split prod.split)

lemma grows_handle: "obeys grows (handle_event w now e)"
  unfolding handle_event_def stage_event_def record_request_completion_def enqueue_finalize_def
    grant_request_tenants_def complete_refresh_for_request_def set_refreshes_def case_prod_beta
  by (intro grows.resp_rules grows.resp_modify grows_grants grows_stage grows_enqueue) (auto simp: grows_def)

lemma grows_accept: "obeys grows (accept_event w now e)"
  unfolding accept_event_def record_delivery_def
  by (intro grows.resp_rules grows.resp_modify grows_handle) (auto simp: grows_def)

definition same_queue :: "db \<Rightarrow> db \<Rightarrow> bool" where
  "same_queue d d' \<longleftrightarrow> jobs d' = jobs d \<and> completions d' = completions d"

interpretation same_queue: step_order same_queue
  by unfold_locales (simp_all add: same_queue_def)

lemma same_queue_grants: "same_queue d (fold (\<lambda>x. grant (f x, pid)) xs d)"
  by (induction xs arbitrary: d) (simp_all add: same_queue_def grant_def)

lemma same_queue_stage: "obeys same_queue (stage_version k npid nvid now code r tenant)"
  unfolding stage_version_def open_process_row_def grant_process_access_def write_version_def reconcile_version_def
    set_trackings_def grant_tracking_request_tenant_def touch_process_def grant_trackings_def Let_def
  by (intro same_queue.resp_rules same_queue.resp_modify same_queue_grants) (simp_all add: same_queue_def grant_def)

lemma same_queue_grant_request: "obeys same_queue (grant_request_tenants r pid)"
  unfolding grant_request_tenants_def by (intro same_queue.resp_modify same_queue_grants)

definition fresh :: "judit_event \<Rightarrow> db \<Rightarrow> bool" where
  "fresh e d \<longleftrightarrow> (case ev_callback e of None \<Rightarrow> True | Some c \<Rightarrow> c = [] \<or> \<not> list_ex (\<lambda>x. dl_callback x = c) (deliveries d))"

lemma record_delivery_run:
  assumes "record_delivery k now e d = (d', Inr b)"
  shows "b = fresh e d \<and> same_queue d d' \<and>
    (case ev_callback e of None \<Rightarrow> True | Some c \<Rightarrow> c = [] \<or> list_ex (\<lambda>x. dl_callback x = c) (deliveries d'))"
  using assms
  by (auto simp: record_delivery_def fresh_def same_queue_def prog_simps split: option.splits if_splits)

lemma accept_parts:
  assumes "accept_event w now e d = (d', Inr ())" "fresh e d"
  obtains (response) d1 where "same_queue d d1" "is_lawsuit_response e" "stage_event w now e d1 = (d', Inr ())"
  | (completion) d1 r where "same_queue d d1" "ev_request e = Some r" "request_completed (wh_codec w) e" "r \<noteq> []"
      "\<not> is_lawsuit_response e"
      "then_do (record_request_completion now r) (enqueue_finalize (wh_job w) now r (finalize_key r)) d1 = (d', Inr ())"
  | (other) "same_queue d d'" "\<not> is_lawsuit_response e"
      "\<not> (request_completed (wh_codec w) e \<and> (\<exists>r. ev_request e = Some r \<and> r \<noteq> []))"
proof -
  from assms(1) obtain d1 b where rec: "record_delivery (wh_codec w) now e d = (d1, Inr b)"
    and rest: "(if \<not> b then ret () else handle_event w now e) d1 = (d', Inr ())"
    by (auto simp: accept_event_def done_simps)
  from record_delivery_run [OF rec] assms(2) have b: "b" and same: "same_queue d d1" by auto
  show thesis
  proof (cases "is_lawsuit_response e")
    case True
    with rest b response [OF same] show thesis by (simp add: handle_event_def)
  next
    case False
    show thesis
    proof (cases "request_completed (wh_codec w) e \<and> (\<exists>r. ev_request e = Some r \<and> r \<noteq> [])")
      case True
      then obtain r where "ev_request e = Some r" "r \<noteq> []" "request_completed (wh_codec w) e" by blast
      with rest b False completion [OF same] show thesis by (simp add: handle_event_def)
    next
      case not: False
      with rest b False have "d' = d1" by (auto simp: handle_event_def ret_def split: option.splits if_splits)
      with other same False not show thesis by simp
    qed
  qed
qed

lemma completed_grows: "grows d d' \<Longrightarrow> request_was_completed r d \<Longrightarrow> request_was_completed r d'"
  by (auto simp: grows_def request_was_completed_def list_ex_iff)

lemma stage_event_parts:
  assumes "stage_event w now e d = (d', Inr ())"
  obtains d1 where "same_queue d d1"
    "(if request_was_completed (str_or_none (ev_request e)) d1
      then enqueue_finalize (wh_job w) now (str_or_none (ev_request e))
             (repair_finalize_key (str_or_none (ev_request e)) (source_of e))
      else ret ()) d1 = (d', Inr ())"
proof -
  from assms obtain d1 pid vid d2 where
    st: "stage_version (wh_codec w) (wh_process w) (wh_version w) now (str_or_none (ev_code e)) (response_of e) (wh_tenant w) d
      = (d1, Inr (pid, vid))"
    and gr: "(case ev_request e of None \<Rightarrow> ret () | Some r \<Rightarrow> (if r = [] then ret () else grant_request_tenants r pid)) d1 = (d2, Inr ())"
    and rest: "(if request_was_completed (str_or_none (ev_request e)) d2
      then enqueue_finalize (wh_job w) now (str_or_none (ev_request e))
             (repair_finalize_key (str_or_none (ev_request e)) (source_of e))
      else ret ()) d2 = (d', Inr ())"
    by (auto simp: stage_event_def done_simps)
  have "obeys same_queue (case ev_request e of None \<Rightarrow> ret () | Some r \<Rightarrow> (if r = [] then ret () else grant_request_tenants r pid))"
    by (intro same_queue.resp_rules same_queue_grant_request)
  from same_queue.R_trans [OF obeysD' [OF same_queue_stage st] obeysD' [OF this gr]] rest that show thesis by blast
qed

lemma enqueue_finalize_key:
  assumes "enqueue_finalize jid now r key d = (d', Inr ())"
  shows "\<exists>j \<in> set (jobs d'). j_key j = Some key"
proof -
  from assms obtain job where "enqueue_job jid now finalize_task (JObj [(''request_id'', JStr r)]) 3 key d = (d', Inr job)"
    by (auto simp: enqueue_finalize_def done_simps)
  from enqueued_key [OF this] show ?thesis .
qed

lemma completion_recorded:
  assumes "record_request_completion now r d = (d', Inr ())"
  shows "request_was_completed r d' \<and> jobs d' = jobs d"
  using assms
  by (auto simp: record_request_completion_def request_was_completed_def complete_refresh_for_request_def set_refreshes_def
      prog_simps split: if_splits)

text \<open>A response for a completed request, and a completion, leave their job.\<close>

lemma response_schedules:
  assumes "accept_event w now e d = (d', Inr ())" "fresh e d" "is_lawsuit_response e" "ev_request e = Some r"
    and "request_was_completed r d"
  shows "\<exists>j \<in> set (jobs d'). j_key j = Some (repair_finalize_key r (source_of e))"
  using assms(1,2)
proof (cases rule: accept_parts)
  case (response d1)
  from response(3) show ?thesis
  proof (cases rule: stage_event_parts)
    case (1 d2)
    from 1(1) response(1) assms(5) have "request_was_completed r d2"
      by (simp add: same_queue_def request_was_completed_def)
    with 1(2) assms(4) enqueue_finalize_key show ?thesis by (auto simp: str_or_none_def)
  qed
qed (use assms in auto)

lemma completion_schedules:
  assumes "accept_event w now e d = (d', Inr ())" "fresh e d" "\<not> is_lawsuit_response e"
    and "request_completed (wh_codec w) e" "ev_request e = Some r" "r \<noteq> []"
  shows "request_was_completed r d' \<and> (\<exists>j \<in> set (jobs d'). j_key j = Some (finalize_key r))"
  using assms(1,2)
proof (cases rule: accept_parts)
  case (completion d1 r')
  with assms have r: "r' = r" by simp
  from completion(6) [unfolded r] obtain d2 where rec: "record_request_completion now r d1 = (d2, Inr ())"
    and enq: "enqueue_finalize (wh_job w) now r (finalize_key r) d2 = (d', Inr ())"
    by (auto simp: done_simps)
  from enq obtain job where "enqueue_job (wh_job w) now finalize_task (JObj [(''request_id'', JStr r)]) 3 (finalize_key r) d2 = (d', Inr job)"
    by (auto simp: enqueue_finalize_def done_simps)
  from completed_grows [OF obeysD' [OF grows_enqueue this]] completion_recorded [OF rec] enqueue_finalize_key [OF enq]
  show ?thesis by blast
qed (use assms in auto)

subsection \<open>Properties\<close>

definition deliver_all :: "(webhook \<times> timestamp \<times> judit_event) list \<Rightarrow> db \<Rightarrow> db" where
  "deliver_all es d = fold (\<lambda>(w, now, e) d. fst (accept_event w now e d)) es d"

lemma grows_deliver_all: "grows d (deliver_all es d)"
proof (induction es arbitrary: d)
  case Nil
  then show ?case by (simp add: deliver_all_def grows.R_refl)
next
  case (Cons x es)
  obtain w now e where x: "x = (w, now, e)" by (cases x)
  have "grows d (fst (accept_event w now e d))" by (rule obeysD [OF grows_accept])
  with Cons.IH [of "fst (accept_event w now e d)"] show ?case
    by (auto simp: deliver_all_def x intro: grows.R_trans)
qed

text \<open>Two sample events of one request: its completion and a response.\<close>

definition sample_webhook :: webhook where
  "sample_webhook = \<lparr>wh_codec = sample_codec, wh_env = (\<lambda>_. Some ''t''), wh_tenant = None, wh_process = 3, wh_version = 4,
     wh_job = 5\<rparr>"

definition completion_event :: judit_event where
  "completion_event = \<lparr>ev_type = ''request_completed'', ev_request = Some ''r'', ev_callback = Some ''c1'', ev_response = None,
     ev_response_type = None, ev_code = None, ev_cached = False, ev_raw = [], ev_data = None\<rparr>"

definition response_event :: judit_event where
  "response_event = \<lparr>ev_type = ''response_created'', ev_request = Some ''r'', ev_callback = Some ''c2'', ev_response = Some ''s'',
     ev_response_type = Some ''lawsuit'', ev_code = Some ''0000000-00.0000.0.00.0000'', ev_cached = False, ev_raw = [],
     ev_data = None\<rparr>"

lemma completion_accepted: "snd (accept_event sample_webhook 1 completion_event empty_db) = Inr ()"
proof -
  have "case snd (accept_event sample_webhook 1 completion_event empty_db) of Inr _ \<Rightarrow> True | Inl _ \<Rightarrow> False" by code_simp
  then show ?thesis by (auto split: sum.splits)
qed

text \<open>A delivery counts once. After an event with some callback id has been accepted, another event with
  the same callback id changes nothing and is answered as accepted, whatever it holds and whatever
  other events were delivered in between.\<close>

theorem delivery_counts_once:
  assumes "accept_event w now e d = (d', Inr ())" "ev_callback e = Some c" "ev_callback e' = Some c" "c \<noteq> []"
  shows "accept_event w' now' e' (deliver_all es d') = (deliver_all es d', Inr ())"
proof -
  have "list_ex (\<lambda>x. dl_callback x = c) (deliveries d')"
  proof -
    from assms(1) obtain d1 b where rec: "record_delivery (wh_codec w) now e d = (d1, Inr b)"
      and rest: "(if \<not> b then ret () else handle_event w now e) d1 = (d', Inr ())"
      by (auto simp: accept_event_def done_simps)
    have ob: "obeys grows (if \<not> b then ret () else handle_event w now e)"
      by (intro grows.resp_rules grows_handle)
    from record_delivery_run [OF rec] assms(2,4) obeysD' [OF ob rest] show ?thesis
      by (auto simp: grows_def list_ex_iff)
  qed
  then have "list_ex (\<lambda>x. dl_callback x = c) (deliveries (deliver_all es d'))"
    using grows_deliver_all [of d' es] by (auto simp: grows_def list_ex_iff)
  with assms(3,4) show ?thesis
    by (simp add: accept_event_def record_delivery_def transaction_def bind_def query_def ret_def)
qed

theorem delivery_counts_once_witness:
  "accept_event sample_webhook 9 (completion_event\<lparr>ev_request := Some ''x''\<rparr>)
      (deliver_all [(sample_webhook, 5, response_event)] (fst (accept_event sample_webhook 1 completion_event empty_db))) =
     (deliver_all [(sample_webhook, 5, response_event)] (fst (accept_event sample_webhook 1 completion_event empty_db)), Inr ())"
  by (rule delivery_counts_once [of sample_webhook 1 completion_event empty_db _ "''c1''"])
    (simp_all add: completion_accepted [symmetric] completion_event_def)

text \<open>A finalization is scheduled under the key of a request only once the request is recorded as
  completed; every event keeps this.\<close>

definition markers_ok :: "db \<Rightarrow> bool" where
  "markers_ok d \<longleftrightarrow> (\<forall>r. list_ex (\<lambda>j. j_key j = Some (finalize_key r)) (jobs d) \<longrightarrow> request_was_completed r d)"

definition response_for :: "string \<Rightarrow> judit_event \<Rightarrow> bool" where
  "response_for r e \<longleftrightarrow> is_lawsuit_response e \<and> ev_request e = Some r"

definition completion_of :: "codec \<Rightarrow> string \<Rightarrow> judit_event \<Rightarrow> bool" where
  "completion_of k r e \<longleftrightarrow> \<not> is_lawsuit_response e \<and> request_completed k e \<and> ev_request e = Some r \<and> r \<noteq> []"

text \<open>Whichever event comes last schedules the finalization. When a response for a request and the
  completion of that request are both accepted as new deliveries, in either order and with any other
  events in between, then afterwards the queue holds a job that finalizes the request which it did not
  hold before the first of them: under the key of the request or under the repair key of the response.\<close>

theorem last_event_schedules:
  assumes "markers_ok d"
    and "accept_event w1 t1 e1 d = (d1, Inr ())" "fresh e1 d"
    and "accept_event w2 t2 e2 (deliver_all es d1) = (d2, Inr ())" "fresh e2 (deliver_all es d1)"
    and "response_for r e1 \<and> completion_of (wh_codec w2) r e2 \<and> e = e1 \<or>
         completion_of (wh_codec w1) r e1 \<and> response_for r e2 \<and> e = e2"
    and "\<not> list_ex (\<lambda>j. j_key j = Some (repair_finalize_key r (source_of e))) (jobs d)"
  shows "\<exists>j. j \<in> set (jobs d2) \<and> j \<notin> set (jobs d) \<and>
    j_key j \<in> {Some (finalize_key r), Some (repair_finalize_key r (source_of e))}"
  using assms(6)
proof
  assume e: "completion_of (wh_codec w1) r e1 \<and> response_for r e2 \<and> e = e2"
  have "request_was_completed r d1" using completion_schedules [OF assms(2,3)] e by (simp add: completion_of_def)
  then have "request_was_completed r (deliver_all es d1)" by (rule completed_grows [OF grows_deliver_all])
  with response_schedules [OF assms(4,5)] e obtain j where "j \<in> set (jobs d2)" "j_key j = Some (repair_finalize_key r (source_of e))"
    by (auto simp: response_for_def)
  with assms(7) show ?thesis by (auto simp: list_ex_iff)
next
  assume e: "response_for r e1 \<and> completion_of (wh_codec w2) r e2 \<and> e = e1"
  show ?thesis
  proof (cases "request_was_completed r d")
    case True
    with response_schedules [OF assms(2,3)] e obtain j where j: "j \<in> set (jobs d1)" "j_key j = Some (repair_finalize_key r (source_of e))"
      by (auto simp: response_for_def)
    have "grows d1 d2" by (rule grows.R_trans [OF grows_deliver_all obeysD' [OF grows_accept assms(4)]])
    with j assms(7) show ?thesis by (auto simp: grows_def list_ex_iff)
  next
    case False
    from completion_schedules [OF assms(4,5)] e obtain j where "j \<in> set (jobs d2)" "j_key j = Some (finalize_key r)"
      by (auto simp: completion_of_def)
    with False assms(1) show ?thesis by (auto simp: markers_ok_def list_ex_iff)
  qed
qed

theorem last_event_schedules_witness:
  "\<exists>d1 d2 j. accept_event sample_webhook 1 completion_event empty_db = (d1, Inr ()) \<and>
     accept_event sample_webhook 2 response_event d1 = (d2, Inr ()) \<and> j \<in> set (jobs d2) \<and>
     j_key j \<in> {Some (finalize_key ''r''), Some (repair_finalize_key ''r'' (Some ''s''))}"
proof -
  obtain d1 where 1: "accept_event sample_webhook 1 completion_event empty_db = (d1, Inr ())"
    using completion_accepted by (cases "accept_event sample_webhook 1 completion_event empty_db") simp
  have "case accept_event sample_webhook 1 completion_event empty_db of (d1, _) \<Rightarrow> fresh response_event d1 \<and>
      (case snd (accept_event sample_webhook 2 response_event d1) of Inr _ \<Rightarrow> True | Inl _ \<Rightarrow> False)"
    by code_simp
  then have new: "fresh response_event d1" and "case snd (accept_event sample_webhook 2 response_event d1) of Inr _ \<Rightarrow> True | Inl _ \<Rightarrow> False"
    by (simp_all add: 1)
  then obtain d2 where 2: "accept_event sample_webhook 2 response_event d1 = (d2, Inr ())"
    by (cases "accept_event sample_webhook 2 response_event d1") (auto split: sum.splits)
  have roles: "completion_of (wh_codec sample_webhook) ''r'' completion_event" "response_for ''r'' response_event"
    "source_of response_event = Some ''s''"
    by (simp_all add: completion_of_def response_for_def is_lawsuit_response_def request_completed_def completion_event_def
        response_event_def source_of_def)
  have "fresh completion_event empty_db" "markers_ok empty_db"
    by (simp_all add: fresh_def markers_ok_def empty_db_def completion_event_def)
  moreover have "\<not> list_ex (\<lambda>j. j_key j = Some (repair_finalize_key ''r'' (source_of response_event))) (jobs empty_db)"
    by (simp add: empty_db_def)
  moreover have "deliver_all [] d1 = d1" by (simp add: deliver_all_def)
  ultimately show ?thesis
    using last_event_schedules [of empty_db sample_webhook 1 completion_event d1 sample_webhook 2 response_event "[]" d2 "''r''" response_event]
      1 2 new roles by auto
qed

text \<open>Only the owner of the token gets in. Whatever is posted, the state changes or the webhook answers ok
  only when the token in the URL is the configured, non-empty one and the body is strict JSON that
  holds a complete event; everything else is refused and leaves no trace.\<close>

theorem webhook_requires_token:
  assumes "judit_webhook w parse now token body d = (d', out)" "d' \<noteq> d \<or> out = Inr v"
  shows "wh_env w ''JUDIT_WEBHOOK_TOKEN'' = Some token \<and> token \<noteq> [] \<and>
    (\<exists>text doc e. body = Some text \<and> loads_strict_json parse text = Inr doc \<and> parse_event (wh_codec w) doc = Inr e)"
proof -
  from assms have "valid_webhook_token (wh_env w) token = Inr True"
    by (cases "valid_webhook_token (wh_env w) token") (auto simp: judit_webhook_def prog_simps split: if_splits)
  moreover from this have "wh_env w ''JUDIT_WEBHOOK_TOKEN'' = Some token \<and> token \<noteq> []"
    by (auto simp: valid_webhook_token_def compare_digest_def Let_def split: if_splits option.splits)
  moreover have "\<exists>e. read_body (wh_codec w) parse body = Inr e"
    using assms calculation(1) by (cases "read_body (wh_codec w) parse body") (auto simp: judit_webhook_def prog_simps split: if_splits)
  ultimately show ?thesis by (auto simp: read_body_def split: option.splits)
qed

theorem webhook_requires_token_witness:
  "\<exists>e. parse_event sample_codec (JObj [(''event_type'', JStr ''request_completed''), (''reference_id'', JStr ''r''),
     (''callback_id'', JStr ''c1'')]) = Inr e"
proof -
  let ?doc = "JObj [(''event_type'', JStr ''request_completed''), (''reference_id'', JStr ''r''), (''callback_id'', JStr ''c1'')]"
  let ?parse = "\<lambda>_. Some ?doc"
  have "case snd (judit_webhook sample_webhook ?parse 1 ''t'' (Some ''x'') empty_db) of Inr _ \<Rightarrow> True | Inl _ \<Rightarrow> False"
    by code_simp
  then obtain d' v where "judit_webhook sample_webhook ?parse 1 ''t'' (Some ''x'') empty_db = (d', Inr v)"
    by (cases "judit_webhook sample_webhook ?parse 1 ''t'' (Some ''x'') empty_db") (auto split: sum.splits)
  from webhook_requires_token [OF this, of v] obtain doc e where "loads_strict_json ?parse ''x'' = Inr doc"
    "parse_event sample_codec doc = Inr e" by (auto simp: sample_webhook_def)
  then show ?thesis by (auto simp: loads_strict_json_def)
qed

end
