(* ===== verification/UnicodeView.thy ===== *)
theory UnicodeView
  imports Json
begin

text \<open>
  \<open>app/unicode_security.py\<close>: the view of a text that is shown to a model, in which characters that hide
  or disguise text are replaced by their names. Texts are lists of code points here; the tables of
  \<open>unicodedata\<close> and SHA-256 are a parameter. The last section carries the view to the strings and
  values of the development.
\<close>

subsection \<open>The tables\<close>

record unicode_tables =
  ut_nfc :: "nat list \<Rightarrow> nat list"
  ut_format :: "nat \<Rightarrow> bool"
  ut_alpha :: "nat \<Rightarrow> bool"
  ut_combining :: "nat \<Rightarrow> bool"
  ut_name :: "nat \<Rightarrow> nat list"
  ut_sha :: "nat list \<Rightarrow> string"

definition in_range :: "nat \<Rightarrow> nat \<times> nat \<Rightarrow> bool" where
  "in_range c r \<longleftrightarrow> fst r \<le> c \<and> c \<le> snd r"

definition bidi_control :: "nat \<Rightarrow> bool" where
  "bidi_control c \<longleftrightarrow> c \<in> {0x061C, 0x200E, 0x200F} \<or> in_range c (0x202A, 0x202E) \<or> in_range c (0x2066, 0x2069)"

definition zero_width :: "nat \<Rightarrow> bool" where
  "zero_width c \<longleftrightarrow> c \<in> {0x200B, 0x200C, 0x200D, 0x2060, 0xFEFF}"

definition default_ignorable :: "unicode_tables \<Rightarrow> nat \<Rightarrow> bool" where
  "default_ignorable T c \<longleftrightarrow> ut_format T c \<or> c = 0x034F \<or>
     list_ex (in_range c) [(0x180B, 0x180F), (0xFE00, 0xFE0F), (0xE0100, 0xE01EF)]"

subsection \<open>Scripts\<close>

datatype script = Arabic | Armenian | Cyrillic | Greek | Hebrew | Latin

text \<open>The order of the names.\<close>

fun script_rank :: "script \<Rightarrow> nat" where
  "script_rank Arabic = 0"
| "script_rank Armenian = 1"
| "script_rank Cyrillic = 2"
| "script_rank Greek = 3"
| "script_rank Hebrew = 4"
| "script_rank Latin = 5"

lemma script_rank_inj: "script_rank a = script_rank b \<Longrightarrow> a = b"
  by (cases a; cases b) simp_all

instantiation script :: linorder
begin

definition less_eq_script :: "script \<Rightarrow> script \<Rightarrow> bool" where
  "less_eq_script a b \<longleftrightarrow> script_rank a \<le> script_rank b"

definition less_script :: "script \<Rightarrow> script \<Rightarrow> bool" where
  "less_script a b \<longleftrightarrow> script_rank a < script_rank b"

instance
  by standard (auto simp: less_eq_script_def less_script_def intro: script_rank_inj)

end

definition script_ranges :: "(script \<times> (nat \<times> nat) list) list" where
  "script_ranges =
     [(Latin, [(0x0041, 0x024F), (0x1E00, 0x1EFF)]), (Greek, [(0x0370, 0x03FF), (0x1F00, 0x1FFF)]),
      (Cyrillic, [(0x0400, 0x052F), (0x2DE0, 0x2DFF), (0xA640, 0xA69F)]), (Armenian, [(0x0530, 0x058F)]),
      (Hebrew, [(0x0590, 0x05FF)]),
      (Arabic, [(0x0600, 0x06FF), (0x0750, 0x077F), (0x08A0, 0x08FF), (0xFB50, 0xFDFF), (0xFE70, 0xFEFF)])]"

definition script_of :: "unicode_tables \<Rightarrow> nat \<Rightarrow> script option" where
  "script_of T c = (if \<not> ut_alpha T c then None
     else map_option fst (find (\<lambda>r. list_ex (in_range c) (snd r)) script_ranges))"

subsection \<open>Mixed scripts\<close>

definition scripts_in :: "unicode_tables \<Rightarrow> nat list \<Rightarrow> script set" where
  "scripts_in T cs = set (List.map_filter (script_of T) cs)"

text \<open>The suspicious positions of a token, whose first character is at position \<open>i\<close>.\<close>

definition suspicious :: "unicode_tables \<Rightarrow> nat list \<Rightarrow> nat \<Rightarrow> bool" where
  "suspicious T token c \<longleftrightarrow> (let scripts = scripts_in T token in
     2 \<le> card scripts \<and>
     (case script_of T c of None \<Rightarrow> False | Some s \<Rightarrow> s \<noteq> (if Latin \<in> scripts then Latin else Min scripts)))"

definition flush_token :: "unicode_tables \<Rightarrow> (nat \<times> nat) list \<Rightarrow> nat set" where
  "flush_token T token = set (map fst (filter (\<lambda>(i, c). suspicious T (map snd token) c) token))"

fun mixed_from :: "unicode_tables \<Rightarrow> nat \<Rightarrow> (nat \<times> nat) list \<Rightarrow> nat list \<Rightarrow> nat set" where
  "mixed_from T i token [] = flush_token T token"
| "mixed_from T i token (c # cs) =
     (if ut_alpha T c \<or> ut_combining T c then mixed_from T (Suc i) (token @ [(i, c)]) cs
      else flush_token T token \<union> mixed_from T (Suc i) [] cs)"

definition mixed_script_positions :: "unicode_tables \<Rightarrow> nat list \<Rightarrow> nat set" where
  "mixed_script_positions T text = mixed_from T 0 [] text"

subsection \<open>The view\<close>

definition upper_hex :: "nat \<Rightarrow> nat" where
  "upper_hex n = of_char (''0123456789ABCDEF'' ! n)"

fun hex_digits :: "nat \<Rightarrow> nat list" where
  "hex_digits n = (if n < 16 then [upper_hex n] else hex_digits (n div 16) @ [upper_hex (n mod 16)])"

declare hex_digits.simps [simp del]

definition hex4 :: "nat \<Rightarrow> nat list" where
  "hex4 n = replicate (4 - length (hex_digits n)) 48 @ hex_digits n"

definition visible_codepoint :: "unicode_tables \<Rightarrow> nat \<Rightarrow> nat list" where
  "visible_codepoint T c = [0x27E6, 85, 43] @ hex4 c @ [32] @ ut_name T c @ [0x27E7]"

record model_view =
  mv_text :: "nat list"
  mv_flags :: "string list"
  mv_sha :: string

definition flag_order :: "string list" where
  "flag_order = [''bidi_control'', ''zero_width'', ''default_ignorable'', ''mixed_script'']"

definition raised :: "unicode_tables \<Rightarrow> nat list \<Rightarrow> string \<Rightarrow> bool" where
  "raised T text flag \<longleftrightarrow>
     (if flag = ''bidi_control'' then list_ex bidi_control text
      else if flag = ''zero_width'' then list_ex zero_width text
      else if flag = ''default_ignorable'' then list_ex (default_ignorable T) text
      else list_ex (\<lambda>i. i \<in> mixed_script_positions T text) [0..<length text])"

definition model_view_text :: "unicode_tables \<Rightarrow> nat list \<Rightarrow> model_view" where
  "model_view_text T value =
     (let text = ut_nfc T value; mixed = mixed_script_positions T text in
      \<lparr>mv_text = concat (map (\<lambda>(i, c). if default_ignorable T c \<or> i \<in> mixed then visible_codepoint T c else [c])
         (enumerate 0 text)),
       mv_flags = filter (raised T text) flag_order,
       mv_sha = ut_sha T text\<rparr>)"

subsection \<open>Strings and values\<close>

text \<open>The alphabet of the development stands for these code points.\<close>

definition stand_ins :: "(nat \<times> nat) list" where
  "stand_ins = [(0x81, 0x2026), (0x82, 0x27E6), (0x83, 0x27E7), (0x84, 0x2192), (0x86, 0x2013), (0x87, 0x2014),
     (0x88, 0x0308), (0x89, 0x0304), (0x8A, 0x0301), (0x8B, 0x0327), (0x8C, 0x2044), (0x8D, 0x2060)]"

definition point :: "char \<Rightarrow> nat" where
  "point c = (case map_of stand_ins (ord c) of None \<Rightarrow> ord c | Some p \<Rightarrow> p)"

definition unpoint :: "nat \<Rightarrow> char" where
  "unpoint p = (case map_of (map prod.swap stand_ins) p of None \<Rightarrow> char_of p | Some c \<Rightarrow> char_of c)"

definition view_text :: "unicode_tables \<Rightarrow> string \<Rightarrow> string" where
  "view_text T s = map unpoint (mv_text (model_view_text T (map point s)))"

definition view_flags :: "unicode_tables \<Rightarrow> string \<Rightarrow> string list" where
  "view_flags T s = mv_flags (model_view_text T (map point s))"

definition view_sha :: "unicode_tables \<Rightarrow> string \<Rightarrow> string" where
  "view_sha T s = mv_sha (model_view_text T (map point s))"

fun view_value :: "unicode_tables \<Rightarrow> json \<Rightarrow> json" where
  "view_value T (JStr s) = JStr (view_text T s)"
| "view_value T (JArr xs) = JArr (map (view_value T) xs)"
| "view_value T (JObj kvs) = JObj (map (\<lambda>(k, v). (k, view_value T v)) kvs)"
| "view_value T v = v"

fun texts_of :: "json \<Rightarrow> string list" where
  "texts_of (JStr s) = [s]"
| "texts_of (JArr xs) = concat (map texts_of xs)"
| "texts_of (JObj kvs) = concat (map (\<lambda>(k, v). texts_of v) kvs)"
| "texts_of v = []"

definition model_view_value :: "unicode_tables \<Rightarrow> json \<Rightarrow> json \<times> string list" where
  "model_view_value T v = (view_value T v,
     filter (\<lambda>flag. list_ex (\<lambda>s. flag \<in> set (view_flags T s)) (texts_of v)) flag_order)"

subsection \<open>Properties\<close>

text \<open>The documented tables: the control characters of the source are of category Cf, the characters of a
  replacement are not.\<close>

definition tables_ok :: "unicode_tables \<Rightarrow> bool" where
  "tables_ok T \<longleftrightarrow> (\<forall>c. bidi_control c \<or> zero_width c \<longrightarrow> ut_format T c) \<and>
     (\<forall>c. list_all (\<lambda>x. \<not> default_ignorable T x) (visible_codepoint T c))"

definition shown :: "unicode_tables \<Rightarrow> nat list \<Rightarrow> nat \<times> nat \<Rightarrow> nat list" where
  "shown T text p = (if default_ignorable T (snd p) \<or> fst p \<in> mixed_script_positions T text
     then visible_codepoint T (snd p) else [snd p])"

lemma view_shown: "mv_text (model_view_text T v) = concat (map (shown T (ut_nfc T v)) (enumerate 0 (ut_nfc T v)))"
  by (auto simp: model_view_text_def Let_def shown_def case_prod_beta intro!: arg_cong [where f = concat])

lemma no_flags:
  "mv_flags (model_view_text T v) = [] \<longleftrightarrow> (\<forall>flag \<in> set flag_order. \<not> raised T (ut_nfc T v) flag)"
  by (simp add: model_view_text_def Let_def filter_empty_conv)

lemma concat_singles: "(\<And>p. p \<in> set xs \<Longrightarrow> f p = [snd p]) \<Longrightarrow> concat (map f xs) = map snd xs"
  by (induction xs) simp_all

text \<open>The view hides nothing and disguises nothing. No control of direction, no character of zero width
  and no other ignorable character is left in it; a position of a mixed script shows the name of its
  letter; every such character is flagged; and a text without flags is shown as it is, normalised.\<close>

theorem hidden_text_is_revealed:
  assumes "tables_ok T" "text = ut_nfc T v" "view = model_view_text T v"
  shows "list_all (\<lambda>c. \<not> default_ignorable T c \<and> \<not> bidi_control c \<and> \<not> zero_width c) (mv_text view) \<and>
    (mv_flags view = [] \<longrightarrow> mv_text view = text) \<and>
    (mv_flags view = [] \<longleftrightarrow> \<not> list_ex (default_ignorable T) text \<and>
      \<not> (\<exists>i < length text. i \<in> mixed_script_positions T text))"
proof -
  have cf: "bidi_control c \<or> zero_width c \<Longrightarrow> default_ignorable T c" for c
    using assms(1) by (auto simp: tables_ok_def default_ignorable_def)
  have vis: "\<not> default_ignorable T x" if "x \<in> set (visible_codepoint T c)" for c x
    using assms(1) that by (auto simp: tables_ok_def list_all_iff)
  have "list_all (\<lambda>c. \<not> default_ignorable T c) (mv_text view)"
    by (auto simp: assms(2,3) view_shown shown_def list_all_iff vis split: if_splits)
  then have clean: "list_all (\<lambda>c. \<not> default_ignorable T c \<and> \<not> bidi_control c \<and> \<not> zero_width c) (mv_text view)"
    using cf by (auto simp: list_all_iff)
  have flags: "mv_flags view = [] \<longleftrightarrow> \<not> list_ex (default_ignorable T) text \<and>
      \<not> (\<exists>i < length text. i \<in> mixed_script_positions T text)"
    using cf by (auto simp: assms(2,3) no_flags raised_def flag_order_def list_ex_iff)
  have "mv_text view = text" if "mv_flags view = []"
  proof -
    from that flags have "shown T text p = [snd p]" if "p \<in> set (enumerate 0 text)" for p
      using that by (cases p) (auto simp: shown_def list_ex_iff in_set_enumerate_eq)
    then show ?thesis using concat_singles [of "enumerate 0 text" "shown T text"] by (simp add: assms(2,3) view_shown)
  qed
  with clean flags show ?thesis by blast
qed

definition sample_tables :: unicode_tables where
  "sample_tables = \<lparr>ut_nfc = (\<lambda>s. s), ut_format = (\<lambda>c. bidi_control c \<or> zero_width c),
     ut_alpha = (\<lambda>c. 97 \<le> c \<and> c \<le> 122 \<or> 0x0430 \<le> c \<and> c \<le> 0x044F), ut_combining = (\<lambda>_. False),
     ut_name = (\<lambda>_. [78]), ut_sha = (\<lambda>_. replicate 64 (CHR ''0''))\<rparr>"

lemma hex_digits_ascii: "x \<in> set (hex_digits n) \<Longrightarrow> 48 \<le> x \<and> x \<le> 70"
proof (induction n rule: hex_digits.induct)
  case (1 n)
  have hex: "48 \<le> upper_hex m \<and> upper_hex m \<le> 70" if "m < 16" for m
  proof -
    have "m \<in> set [0..<16]" using that by simp
    then show ?thesis by (auto simp: upper_hex_def upt_rec)
  qed
  with 1 show ?case by (subst (asm) hex_digits.simps) (auto split: if_splits)
qed

lemma sample_tables_ok: "tables_ok sample_tables"
proof -
  have "\<not> default_ignorable sample_tables x" if "x \<in> set (visible_codepoint sample_tables c)" for c x
  proof -
    have "x \<in> {0x27E6, 85, 43, 32, 78, 0x27E7} \<or> x \<in> set (hex4 c)"
      using that by (auto simp: visible_codepoint_def sample_tables_def)
    then have "x \<in> {0x27E6, 0x27E7} \<or> x \<le> 85" using hex_digits_ascii by (fastforce simp: hex4_def)
    then show ?thesis
      by (auto simp: default_ignorable_def sample_tables_def bidi_control_def zero_width_def in_range_def)
  qed
  then show ?thesis by (auto simp: tables_ok_def list_all_iff sample_tables_def)
qed

text \<open>A Cyrillic letter in a Latin word is named.\<close>

theorem hidden_text_is_revealed_witness:
  "mv_flags (model_view_text sample_tables [112, 0x0430, 121]) = [''mixed_script''] \<and>
   list_all (\<lambda>c. \<not> default_ignorable sample_tables c) (mv_text (model_view_text sample_tables [112, 0x0430, 121]))"
proof -
  have "mv_flags (model_view_text sample_tables [112, 0x0430, 121]) = [''mixed_script'']"
    by (simp add: model_view_text_def Let_def flag_order_def raised_def mixed_script_positions_def flush_token_def suspicious_def
        scripts_in_def script_of_def script_ranges_def in_range_def List.map_filter_def sample_tables_def default_ignorable_def
        bidi_control_def zero_width_def upt_rec card_insert_if)
  moreover have "list_all (\<lambda>c. \<not> default_ignorable sample_tables c) (mv_text (model_view_text sample_tables [112, 0x0430, 121]))"
    using hidden_text_is_revealed [OF sample_tables_ok refl refl, of "[112, 0x0430, 121]"] by (auto simp: list_all_iff)
  ultimately show ?thesis by blast
qed

end
