(* ===== verification/Retrieval.thy ===== *)
theory Retrieval
  imports PyRe Versions UnicodeView "HOL-Library.AList"
begin

text \<open>
  \<open>app/retrieval.py\<close> and \<open>app/reranking.py\<close>: which movements of a process may be shown to a model and which
  of them are. Scores are rational numbers (the rounding of floats is not represented) and \<open>lg\<close>, the
  natural logarithm, is a parameter; so are the scores of the embedding search and of the reranker.
\<close>

subsection \<open>Steps\<close>

record step =
  st_id :: uuid
  st_number :: int
  st_text :: string
  st_title :: "string option"
  st_occurred :: "timestamp option"
  st_source :: "int option"

record ranked_step =
  rk_step :: step
  rk_bm25 :: rat
  rk_lexical :: rat
  rk_vector :: rat
  rk_score :: rat
  rk_forced :: bool

definition searchable_text :: "step \<Rightarrow> string" where
  "searchable_text s = strip ((case st_title s of None \<Rightarrow> [] | Some t \<Rightarrow> t) @ '' '' @ st_text s)"

definition short_process_all_steps_max :: nat where "short_process_all_steps_max = 40"
definition mandatory_recent_steps :: nat where "mandatory_recent_steps = 5"

definition token_re :: regex where
  "token_re = rplus (RChar (\<lambda>c. word_char c \<or> 192 \<le> ord c))"

definition i_acute :: char where "i_acute = CHR 0xED"
definition e_circumflex :: char where "e_circumflex = CHR 0xEA"
definition a_circumflex :: char where "a_circumflex = CHR 0xE2"
definition o_acute :: char where "o_acute = CHR 0xF3"

definition milestone_re :: regex where
  "milestone_re = rseqs [RBoundary, RGroup 1 (ralts
     [rseqs [rlit_ci ''senten'', rin_ci [CHR ''c'', c_cedilla], rlit_ci ''a''],
      rseqs [rlit_ci ''ac'', rin_ci [o_acute, CHR ''o''], rlit_ci ''rd'', rin_ci [a_tilde, CHR ''a''], rlit_ci ''o''],
      rlit_ci ''liminar'', rlit_ci ''tutela'',
      rseqs [rlit_ci ''cita'', rin_ci [CHR ''c'', c_cedilla], rin_ci [a_tilde, CHR ''a''], rlit_ci ''o''],
      rseqs [rlit_ci ''audi'', rin_ci [e_circumflex, CHR ''e''], rlit_ci ''ncia''],
      rseqs [rlit_ci ''tr'', rin_ci [a_circumflex, CHR ''a''], rlit_ci ''nsito'', rplus rspace, rlit_ci ''em'', rplus rspace,
        rlit_ci ''julgado''],
      rlit_ci ''arquivamento'',
      rseqs [rlit_ci ''extin'', rin_ci [CHR ''c'', c_cedilla], rin_ci [a_tilde, CHR ''a''], rlit_ci ''o''],
      rseqs [rlit_ci ''per'', rin_ci [i_acute, CHR ''i''], rlit_ci ''cia''],
      rlit_ci ''penhora'', rseqs [rlit_ci ''baixa'', rplus rspace, rlit_ci ''definitiva''],
      rlit_ci ''recurso'',
      rseqs [rlit_ci ''apela'', rin_ci [CHR ''c'', c_cedilla], rin_ci [a_tilde, CHR ''a''], rlit_ci ''o''],
      rlit_ci ''embargos'',
      rseqs [rlit_ci ''decis'', rin_ci [a_tilde, CHR ''a''], rlit_ci ''o'']]), RBoundary]"

definition milestone :: "step \<Rightarrow> bool" where
  "milestone s \<longleftrightarrow> re_search milestone_re (searchable_text s)"

subsection \<open>The lexical score\<close>

definition tokenize :: "string \<Rightarrow> string list" where
  "tokenize s = map casefold (re_matches token_re s)"

definition document_frequency :: "string list list \<Rightarrow> string \<Rightarrow> nat" where
  "document_frequency docs t = length (filter (\<lambda>doc. t \<in> set doc) docs)"

definition average_length :: "string list list \<Rightarrow> rat" where
  "average_length docs = (let a = of_nat (sum_list (map length docs)) / of_nat (length docs) in if a = 0 then 1 else a)"

definition term_score :: "(rat \<Rightarrow> rat) \<Rightarrow> rat \<Rightarrow> rat \<Rightarrow> string list list \<Rightarrow> string list \<Rightarrow> string \<Rightarrow> rat" where
  "term_score lg k1 b docs doc t =
     (let tf = of_nat (count_list doc t); df = of_nat (document_frequency docs t); n = of_nat (length docs) in
      if tf = 0 then 0
      else lg (1 + (n - df + 1/2) / (df + 1/2)) *
        ((tf * (k1 + 1)) / (tf + k1 * (1 - b + b * of_nat (length doc) / average_length docs))))"

type_synonym scores = "(uuid \<times> rat) list"

definition score_of :: "scores \<Rightarrow> uuid \<Rightarrow> rat" where
  "score_of m i = (case map_of m i of None \<Rightarrow> 0 | Some q \<Rightarrow> q)"

definition bm25_scores :: "(rat \<Rightarrow> rat) \<Rightarrow> string \<Rightarrow> step list \<Rightarrow> scores" where
  "bm25_scores lg asked ss =
     (let terms = tokenize asked; docs = map (\<lambda>s. tokenize (searchable_text s)) ss in
      fold (\<lambda>s. AList.update (st_id s)
        (sum_list (map (term_score lg (3/2) (3/4) docs (tokenize (searchable_text s))) terms))) ss [])"

definition normalize_scores :: "scores \<Rightarrow> scores" where
  "normalize_scores m = (if m = [] then []
     else let most = Max (set (map snd m)) in
       if most \<le> 0 then map (\<lambda>(i, q). (i, 0)) m else map (\<lambda>(i, q). (i, q / most)) m)"

subsection \<open>Choosing steps\<close>

text \<open>The first, the last, the most recent and the milestones, of steps in the order of their numbers.\<close>

definition mandatory_ids :: "step list \<Rightarrow> uuid list" where
  "mandatory_ids by_number = [st_id (hd by_number), st_id (last by_number)] @
     map st_id (drop (length by_number - mandatory_recent_steps) by_number) @ map st_id (filter milestone by_number)"

text \<open>The loop over the best candidates: stop at \<open>cap\<close> chosen, skip those already chosen.\<close>

fun fill_up :: "('a \<Rightarrow> uuid) \<Rightarrow> nat \<Rightarrow> 'a list \<Rightarrow> 'a list \<Rightarrow> 'a list" where
  "fill_up key cap chosen [] = chosen"
| "fill_up key cap chosen (x # xs) =
     (if cap \<le> length chosen then chosen
      else if key x \<in> key ` set chosen then fill_up key cap chosen xs
      else fill_up key cap (chosen @ [x]) xs)"

text \<open>A dictionary by id keeps the first place and the last value.\<close>

definition by_id :: "('a \<Rightarrow> uuid) \<Rightarrow> 'a list \<Rightarrow> 'a list" where
  "by_id key xs = map snd (fold (\<lambda>x. AList.update (key x) x) xs [])"

definition choose_steps ::
  "('a \<Rightarrow> uuid) \<Rightarrow> ('a \<Rightarrow> int) \<Rightarrow> uuid list \<Rightarrow> int \<Rightarrow> 'a list \<Rightarrow> 'a list \<Rightarrow> 'a list" where
  "choose_steps key number must limit xs best =
     sort_key number (fill_up key (max (nat limit) (card (set must)))
       (by_id key (filter (\<lambda>x. key x \<in> set must) xs)) best)"

definition rank_step :: "scores \<Rightarrow> scores \<Rightarrow> int \<Rightarrow> step \<Rightarrow> ranked_step" where
  "rank_step bm25 vector max_step s =
     \<lparr>rk_step = s, rk_bm25 = score_of bm25 (st_id s), rk_lexical = score_of bm25 (st_id s),
      rk_vector = score_of vector (st_id s),
      rk_score = (1/2 * score_of bm25 (st_id s) + 1/2 * score_of vector (st_id s)) *
        (1 + 3/10 * (of_int (st_number s) / of_int max_step)),
      rk_forced = milestone s\<rparr>"

definition max_step_number :: "step list \<Rightarrow> int" where
  "max_step_number ss = (let m = Max (set (map st_number ss)) in if m = 0 then 1 else m)"

definition rank_steps :: "(rat \<Rightarrow> rat) \<Rightarrow> string \<Rightarrow> step list \<Rightarrow> scores option \<Rightarrow> int \<Rightarrow> ranked_step list" where
  "rank_steps lg asked ss vector limit =
     (if length ss \<le> short_process_all_steps_max
      then map (\<lambda>s. \<lparr>rk_step = s, rk_bm25 = 0, rk_lexical = 0, rk_vector = 0, rk_score = 1, rk_forced = True\<rparr>)
             (sort_key st_number ss)
      else let bm25 = normalize_scores (bm25_scores lg asked ss);
               v = normalize_scores (case vector of None \<Rightarrow> [] | Some m \<Rightarrow> m);
               ranked = map (rank_step bm25 v (max_step_number ss)) ss;
               by_number = sort_key (\<lambda>r. st_number (rk_step r)) ranked
           in choose_steps (\<lambda>r. st_id (rk_step r)) (\<lambda>r. st_number (rk_step r)) (mandatory_ids (map rk_step by_number)) limit
                ranked (sort_key (\<lambda>r. - rk_score r) ranked))"

definition rerank_steps :: "step list \<Rightarrow> scores \<Rightarrow> int \<Rightarrow> step list res" where
  "rerank_steps ss m limit =
     (if limit \<le> 0 then Inl (ValueError ''reranker limit must be positive'')
      else if ss = [] then Inr []
      else let by_number = sort_key st_number ss in
        Inr (choose_steps st_id st_number (mandatory_ids by_number) limit by_number
               (sort_key (\<lambda>s. (- score_of m (st_id s), st_number s)) by_number)))"

subsection \<open>The context of a summary\<close>

definition rerank_candidate_limit :: int where "rerank_candidate_limit = 50"
definition rerank_output_limit :: int where "rerank_output_limit = 15"
definition legacy_output_limit :: int where "legacy_output_limit = 20"

text \<open>A reranker sees the asked and the steps as the model would; its answer may be an exception.\<close>

type_synonym scorer = "string \<Rightarrow> step list \<Rightarrow> scores res"

definition model_step :: "unicode_tables \<Rightarrow> step \<Rightarrow> step" where
  "model_step T s = s\<lparr>st_text := view_text T (st_text s), st_title := map_option (view_text T) (st_title s)\<rparr>"

definition select_context_steps ::
  "(rat \<Rightarrow> rat) \<Rightarrow> unicode_tables \<Rightarrow> string \<Rightarrow> step list \<Rightarrow> scores option \<Rightarrow> scorer option \<Rightarrow> ranked_step list res" where
  "select_context_steps lg T asked ss vector scorer =
     (let candidates = rank_steps lg asked ss vector (case scorer of None \<Rightarrow> legacy_output_limit | Some _ \<Rightarrow> rerank_candidate_limit);
          steps = map rk_step candidates
      in case scorer of
        None \<Rightarrow> Inr candidates
      | Some ask \<Rightarrow> (if length ss \<le> 40 then Inr candidates
          else res_bind (ask (view_text T asked) (map (model_step T) steps)) (\<lambda>m.
            res_bind (rerank_steps steps m rerank_output_limit) (\<lambda>chosen.
              Inr (map (\<lambda>s. the (map_of (rev (map (\<lambda>c. (st_id (rk_step c), c)) candidates)) (st_id s))) chosen)))))"

subsection \<open>Reading the steps\<close>

text \<open>A comparison with a NULL does not hold, and an integer beyond 32 bits is an error of the cast.\<close>

definition has_member :: "json \<Rightarrow> string \<Rightarrow> bool" where
  "has_member v name \<longleftrightarrow> name \<in> set (map fst (as_obj v))"

definition sql_digits :: "string \<Rightarrow> bool" where
  "sql_digits s \<longleftrightarrow> s \<noteq> [] \<and> list_all isdecimal_c s"

definition sql_integer :: "string \<Rightarrow> int res" where
  "sql_integer s = (if int (digits_value 0 s) \<le> 2147483647 then Inr (int (digits_value 0 s))
     else Inl (DatabaseError ''integer out of range''))"

definition same_cnj :: "codec \<Rightarrow> process_row \<Rightarrow> step_row \<Rightarrow> bool" where
  "same_cnj k p s \<longleftrightarrow> (case member_text k (s_metadata s) ''cnj'' of
     None \<Rightarrow> True | Some c \<Rightarrow> c = [] \<or> c = p_code p)"

definition same_instance :: "codec \<Rightarrow> process_row \<Rightarrow> step_row \<Rightarrow> bool" where
  "same_instance k p s \<longleftrightarrow> \<not> has_member (s_metadata s) ''instance'' \<or> \<not> has_member (p_header p) ''instance'' \<or>
     (member_text k (s_metadata s) ''instance'' \<noteq> None \<and>
      member_text k (s_metadata s) ''instance'' = member_text k (p_header p) ''instance'')"

definition step_private :: "codec \<Rightarrow> step_row \<Rightarrow> bool" where
  "step_private k s \<longleftrightarrow> (case member_text k (s_metadata s) ''private'' of
     None \<Rightarrow> False | Some t \<Rightarrow> lower t \<in> {''true'', ''1'', ''yes''})"

definition step_secrecy :: "codec \<Rightarrow> step_row \<Rightarrow> int res" where
  "step_secrecy k s = (case member_text k (s_metadata s) ''secrecy_level'' of
     None \<Rightarrow> Inr 0 | Some t \<Rightarrow> (if sql_digits t then sql_integer t else Inr 0))"

text \<open>The predicate, its conjuncts in the order they are written.\<close>

definition eligible_step :: "codec \<Rightarrow> process_row \<Rightarrow> step_row \<Rightarrow> bool res" where
  "eligible_step k p s =
     (if s_process s = p_id p \<and> same_cnj k p s \<and> same_instance k p s \<and> \<not> step_private k s \<and> p_secrecy p = 0
      then res_bind (step_secrecy k s) (\<lambda>n. Inr (n = 0)) else Inr False)"

definition source_number :: "codec \<Rightarrow> step_row \<Rightarrow> int option res" where
  "source_number k s = (case member_text k (s_metadata s) ''source_step_number'' of
     None \<Rightarrow> Inr None
   | Some t \<Rightarrow> (if sql_digits t then res_bind (sql_integer t) (\<lambda>n. Inr (Some n)) else Inr None))"

definition loaded_step :: "codec \<Rightarrow> step_row \<Rightarrow> step res" where
  "loaded_step k s = res_bind (source_number k s) (\<lambda>n.
     Inr \<lparr>st_id = s_id s, st_number = s_number s, st_text = s_text s,
       st_title = (case s_title s of JStr t \<Rightarrow> Some t | _ \<Rightarrow> None), st_occurred = s_occurred s, st_source = n\<rparr>)"

fun filter_res :: "('a \<Rightarrow> bool res) \<Rightarrow> 'a list \<Rightarrow> 'a list res" where
  "filter_res p [] = Inr []"
| "filter_res p (x # xs) = res_bind (p x) (\<lambda>b. res_bind (filter_res p xs) (\<lambda>ys. Inr (if b then x # ys else ys)))"

fun map_res :: "('a \<Rightarrow> 'b res) \<Rightarrow> 'a list \<Rightarrow> 'b list res" where
  "map_res f [] = Inr []"
| "map_res f (x # xs) = res_bind (f x) (\<lambda>y. res_bind (map_res f xs) (\<lambda>ys. Inr (y # ys)))"

text \<open>The steps of a version joined with the version and its process.\<close>

definition joined_steps :: "uuid \<Rightarrow> db \<Rightarrow> (step_row \<times> process_row) list" where
  "joined_steps vid d = concat (map (\<lambda>s. concat (map (\<lambda>v.
       map (Pair s) (filter (\<lambda>p. p_id p = v_process v) (processes d)))
     (filter (\<lambda>v. v_id v = s_version s) (versions d)))) (filter (\<lambda>s. s_version s = vid) (steps d)))"

definition load_steps :: "codec \<Rightarrow> uuid \<Rightarrow> db \<Rightarrow> step list res" where
  "load_steps k vid d = res_bind (filter_res (\<lambda>(s, p). eligible_step k p s) (joined_steps vid d)) (\<lambda>rows.
     map_res (loaded_step k) (sort_key s_number (map fst rows)))"

definition eligible_score_map :: "codec \<Rightarrow> uuid \<Rightarrow> scores \<Rightarrow> db \<Rightarrow> scores res" where
  "eligible_score_map k vid m d = (if m = [] then Inr []
     else res_bind (filter_res (\<lambda>(s, p). eligible_step k p s)
         (filter (\<lambda>(s, p). s_id s \<in> set (map fst m)) (joined_steps vid d))) (\<lambda>rows.
       Inr (filter (\<lambda>(i, q). i \<in> set (map (s_id \<circ> fst) rows)) m)))"

text \<open>The two searches of the database: the rank of a document and the distance of an embedding are
  parameters, None when the row does not match or has no embedding.\<close>

definition clip :: "rat \<Rightarrow> rat" where "clip q = max 0 q"

definition search_steps ::
  "codec \<Rightarrow> (step_row \<Rightarrow> rat option) \<Rightarrow> (step_row \<Rightarrow> int) \<Rightarrow> uuid \<Rightarrow> int \<Rightarrow> db \<Rightarrow> scores res" where
  "search_steps k score tie vid limit d =
     res_bind (filter_res (\<lambda>(s, p). eligible_step k p s) (joined_steps vid d)) (\<lambda>rows.
       Inr (map (\<lambda>s. (s_id s, clip (the (score s))))
         (take (nat limit) (sort_key (\<lambda>s. (- the (score s), tie s)) (filter (\<lambda>s. score s \<noteq> None) (map fst rows))))))"

definition lexical_search :: "codec \<Rightarrow> (string \<Rightarrow> step_row \<Rightarrow> rat option) \<Rightarrow> uuid \<Rightarrow> string \<Rightarrow> int \<Rightarrow> db \<Rightarrow> scores res" where
  "lexical_search k rank vid asked limit d = search_steps k (rank asked) (\<lambda>s. - s_number s) vid limit d"

definition vector_search ::
  "codec \<Rightarrow> (rat list \<Rightarrow> step_row \<Rightarrow> rat option) \<Rightarrow> (uuid \<Rightarrow> rat list \<Rightarrow> int \<Rightarrow> scores res) option \<Rightarrow>
     uuid \<Rightarrow> rat list \<Rightarrow> int \<Rightarrow> db \<Rightarrow> scores res" where
  "vector_search k similarity runtime vid embedding limit d = (case runtime of
     Some search \<Rightarrow> res_bind (search vid embedding limit) (\<lambda>m. eligible_score_map k vid m d)
   | None \<Rightarrow> search_steps k (similarity embedding) (\<lambda>_. 0) vid limit d)"

subsection \<open>Facts about the choice\<close>

lemma update_new: "k \<notin> set (map fst al) \<Longrightarrow> AList.update k v al = al @ [(k, v)]"
  by (induction al) auto

lemma fold_update_distinct:
  "distinct (map key xs) \<Longrightarrow> key ` set xs \<inter> set (map fst al) = {} \<Longrightarrow>
     fold (\<lambda>x. AList.update (key x) x) xs al = al @ map (\<lambda>x. (key x, x)) xs"
proof (induction xs arbitrary: al)
  case (Cons x xs)
  then have "fold (\<lambda>x. AList.update (key x) x) (x # xs) al = fold (\<lambda>x. AList.update (key x) x) xs (al @ [(key x, x)])"
    by (simp add: update_new)
  also have "\<dots> = (al @ [(key x, x)]) @ map (\<lambda>x. (key x, x)) xs"
    using Cons.prems by (intro Cons.IH) auto
  finally show ?case by simp
qed simp

lemma by_id_distinct: "distinct (map key xs) \<Longrightarrow> by_id key xs = xs"
  using fold_update_distinct [of key xs "[]"] by (simp add: by_id_def comp_def)

lemma fill_up_set: "set chosen \<subseteq> set (fill_up key cap chosen xs) \<and> set (fill_up key cap chosen xs) \<subseteq> set chosen \<union> set xs"
  by (induction key cap chosen xs rule: fill_up.induct) auto

lemma fill_up_distinct: "distinct (map key chosen) \<Longrightarrow> distinct (map key (fill_up key cap chosen xs))"
  by (induction key cap chosen xs rule: fill_up.induct) auto

lemma fill_up_length: "length (fill_up key cap chosen xs) \<le> max cap (length chosen)"
  by (induction key cap chosen xs rule: fill_up.induct) auto

lemma fill_up_complete:
  "length (fill_up key cap chosen xs) < cap \<Longrightarrow> key ` set xs \<subseteq> key ` set (fill_up key cap chosen xs)"
proof (induction key cap chosen xs rule: fill_up.induct)
  case (2 key cap chosen x xs)
  show ?case
  proof (cases "cap \<le> length chosen")
    case False
    show ?thesis
    proof (cases "key x \<in> key ` set chosen")
      case True
      with 2 False show ?thesis using fill_up_set [of chosen key cap xs] by (auto simp: image_iff)
    next
      case new: False
      with 2 False show ?thesis using fill_up_set [of "chosen @ [x]" key cap xs] by auto
    qed
  qed (use 2 in simp)
qed simp

text \<open>What is chosen beyond the mandatory part is no worse than what is left out.\<close>

lemma fill_up_best:
  assumes "sorted (map g xs)"
  shows "\<forall>y \<in> set (fill_up key cap chosen xs) - set chosen. \<forall>x \<in> set xs.
    key x \<notin> key ` set (fill_up key cap chosen xs) \<longrightarrow> g y \<le> g x"
  using assms
proof (induction key cap chosen xs rule: fill_up.induct)
  case (2 key cap chosen x xs)
  show ?case
  proof (cases "cap \<le> length chosen \<or> key x \<in> key ` set chosen")
    case True
    then show ?thesis
    proof (cases "cap \<le> length chosen")
      case False
      with True have seen: "key x \<in> key ` set chosen" by simp
      moreover have "key x \<in> key ` set (fill_up key cap chosen xs)" using seen fill_up_set [of chosen key cap xs] by blast
      ultimately show ?thesis using 2 False by auto
    qed simp
  next
    case False
    let ?r = "fill_up key cap (chosen @ [x]) xs"
    have x: "x \<in> set ?r" using fill_up_set [of "chosen @ [x]" key cap xs] by auto
    have IH: "\<forall>y \<in> set ?r - set (chosen @ [x]). \<forall>z \<in> set xs. key z \<notin> key ` set ?r \<longrightarrow> g y \<le> g z"
      using 2 False by simp
    have "\<forall>z \<in> set xs. g x \<le> g z" using "2.prems" by simp
    with IH x False show ?thesis by (auto simp: image_iff)
  qed
qed simp

lemma fill_up_size:
  assumes "distinct (map key chosen)" "set chosen \<subseteq> set xs" "inj_on key (set xs)" "distinct xs" "length chosen \<le> cap"
  shows "length (fill_up key cap chosen xs) = min cap (length xs)"
proof -
  let ?r = "fill_up key cap chosen xs"
  have sub: "set ?r \<subseteq> set xs" using fill_up_set [of chosen key cap xs] assms(2) by blast
  have dist: "distinct ?r" using fill_up_distinct [OF assms(1)] by (metis distinct_map)
  have le: "length ?r \<le> length xs" using sub dist assms(4) by (metis card_mono distinct_card finite_set)
  have cap: "length ?r \<le> cap" using fill_up_length [of key cap chosen xs] assms(5) by simp
  show ?thesis
  proof (cases "length ?r < cap")
    case True
    have "x \<in> set ?r" if x: "x \<in> set xs" for x
    proof -
      from fill_up_complete [OF True] x obtain y where y: "y \<in> set ?r" "key x = key y" by blast
      with sub assms(3) x have "x = y" by (auto simp: inj_on_def)
      with y show ?thesis by simp
    qed
    then have "set xs \<subseteq> set ?r" by blast
    then have "length xs \<le> length ?r" using assms(4) dist by (metis card_mono distinct_card finite_set)
    with le True show ?thesis by simp
  qed (use cap le in simp)
qed

subsection \<open>The mandatory steps survive\<close>

definition recent :: "'a list \<Rightarrow> 'a list" where
  "recent xs = drop (length xs - mandatory_recent_steps) xs"

lemma mandatory_set:
  "ss \<noteq> [] \<Longrightarrow> set (mandatory_ids ss) = st_id ` ({hd ss, last ss} \<union> set (recent ss) \<union> {s \<in> set ss. milestone s})"
  by (auto simp: mandatory_ids_def recent_def)

lemma mandatory_sub: "ss \<noteq> [] \<Longrightarrow> set (mandatory_ids ss) \<subseteq> st_id ` set ss"
  by (auto simp: mandatory_set recent_def dest: in_set_dropD)

lemma recent_filter:
  assumes "\<forall>x \<in> set (recent xs). P x"
  shows "recent (filter P xs) = recent xs"
proof -
  have xs: "xs = take (length xs - mandatory_recent_steps) xs @ recent xs" by (simp add: recent_def)
  have f: "filter P xs = filter P (take (length xs - mandatory_recent_steps) xs) @ recent xs"
    by (subst xs) (use assms in \<open>simp add: filter_True\<close>)
  have len: "length (recent xs) = min (length xs) mandatory_recent_steps" by (simp add: recent_def)
  show ?thesis
  proof (cases "mandatory_recent_steps \<le> length xs")
    case True
    with len have "length (recent xs) = mandatory_recent_steps" by simp
    then show ?thesis by (subst recent_def, subst f) (simp add: f)
  next
    case False
    then have "recent xs = xs" by (simp add: recent_def)
    with assms have "filter P xs = xs" by (simp add: filter_True)
    then show ?thesis by simp
  qed
qed

lemma choose_steps_facts:
  assumes "distinct (map key xs)" "set must \<subseteq> key ` set xs" "set best = set xs" "distinct best"
    and "r = choose_steps key number must limit xs best"
  shows "set r \<subseteq> set xs \<and> distinct (map key r) \<and> sorted (map number r) \<and> set must \<subseteq> key ` set r \<and>
    length r = min (max (nat limit) (card (set must))) (length xs)"
proof -
  let ?chosen = "filter (\<lambda>x. key x \<in> set must) xs"
  let ?cap = "max (nat limit) (card (set must))"
  let ?f = "fill_up key ?cap ?chosen best"
  have dist: "distinct (map key ?chosen)" using assms(1) by (simp add: distinct_map inj_on_def)
  have r: "r = sort_key number ?f" using assms(5) by (simp add: choose_steps_def by_id_distinct [OF dist])
  have best: "set best = set xs" "length best = length xs" "distinct best"
    using assms(1,3,4) by (simp, metis distinct_card distinct_map, simp)
  have chosen: "key ` set ?chosen = set must" using assms(2) by auto
  have "card (key ` set ?chosen) = length ?chosen"
    using dist by (metis distinct_card length_map set_map)
  with chosen have fits: "length ?chosen \<le> ?cap" by simp
  have inj: "inj_on key (set best)" using assms(1) best(1) by (simp add: distinct_map)
  have len: "length ?f = min ?cap (length best)"
    using fill_up_size [OF dist _ inj best(3) fits] best(1) by auto
  have sub: "set ?chosen \<subseteq> set ?f \<and> set ?f \<subseteq> set xs" using fill_up_set [of ?chosen key ?cap best] best(1) by auto
  then have "set must \<subseteq> key ` set ?f" using chosen by (metis image_mono)
  with r sub fill_up_distinct [OF dist, of ?cap best] len best show ?thesis
    by (simp add: distinct_map)
qed

lemma candidates_facts:
  assumes "distinct (map st_id ss)" "r = rank_steps lg asked ss vector limit"
  shows "set (map rk_step r) \<subseteq> set ss \<and> distinct (map (st_id \<circ> rk_step) r) \<and> sorted (map (st_number \<circ> rk_step) r) \<and>
    set (mandatory_ids (sort_key st_number ss)) \<subseteq> st_id ` set (map rk_step r) \<union> (if ss = [] then UNIV else {}) \<and>
    length r = (if length ss \<le> short_process_all_steps_max then length ss
      else min (max (nat limit) (card (set (mandatory_ids (sort_key st_number ss))))) (length ss))"
proof (cases "length ss \<le> short_process_all_steps_max")
  case True
  let ?mk = "\<lambda>s. \<lparr>rk_step = s, rk_bm25 = 0, rk_lexical = 0, rk_vector = 0, rk_score = 1, rk_forced = True\<rparr>"
  have r: "r = map ?mk (sort_key st_number ss)" using True assms(2) by (simp add: rank_steps_def)
  have "distinct (map st_id (sort_key st_number ss))"
    using assms(1) by (simp add: distinct_map)
  moreover have "set (mandatory_ids (sort_key st_number ss)) \<subseteq> st_id ` set ss" if "ss \<noteq> []"
    using mandatory_sub [of "sort_key st_number ss"] that by (metis set_empty set_sort)
  ultimately show ?thesis using True by (simp add: r comp_def image_image)
next
  case False
  define bm25 where "bm25 = normalize_scores (bm25_scores lg asked ss)"
  define v where "v = normalize_scores (case vector of None \<Rightarrow> [] | Some m \<Rightarrow> m)"
  let ?ranked = "map (rank_step bm25 v (max_step_number ss)) ss"
  have step: "rk_step (rank_step bm25 v n s) = s" for n s by (simp add: rank_step_def)
  have by_number: "map rk_step (sort_key (\<lambda>r. st_number (rk_step r)) ?ranked) = sort_key st_number ss"
    by (simp add: sort_key_map step comp_def)
  have r: "r = choose_steps (\<lambda>r. st_id (rk_step r)) (\<lambda>r. st_number (rk_step r))
      (mandatory_ids (sort_key st_number ss)) limit ?ranked (sort_key (\<lambda>r. - rk_score r) ?ranked)"
    using False assms(2) by (simp only: rank_steps_def Let_def bm25_def [symmetric] v_def [symmetric] by_number if_False)
  have ne: "sort_key st_number ss \<noteq> []" using False by (auto simp: short_process_all_steps_max_def dest!: arg_cong [where f = length])
  have "set (mandatory_ids (sort_key st_number ss)) \<subseteq> (\<lambda>r. st_id (rk_step r)) ` set ?ranked"
    using mandatory_sub [OF ne] by (simp add: image_comp comp_def step)
  moreover have "distinct (map (\<lambda>r. st_id (rk_step r)) ?ranked)" using assms(1) by (simp add: comp_def step)
  moreover from this have "distinct (sort_key (\<lambda>r. - rk_score r) ?ranked)"
    by (metis distinct_map distinct_sort)
  ultimately have "set r \<subseteq> set ?ranked \<and> distinct (map (\<lambda>r. st_id (rk_step r)) r) \<and>
      sorted (map (\<lambda>r. st_number (rk_step r)) r) \<and>
      set (mandatory_ids (sort_key st_number ss)) \<subseteq> (\<lambda>r. st_id (rk_step r)) ` set r \<and>
      length r = min (max (nat limit) (card (set (mandatory_ids (sort_key st_number ss))))) (length ?ranked)"
    by (intro choose_steps_facts [OF _ _ _ _ r]) simp_all
  with False show ?thesis by (auto simp: comp_def step)
qed

lemma rank_keeps_mandatory:
  assumes "distinct (map st_id ss)" "ss \<noteq> []"
  shows "set (mandatory_ids (sort_key st_number ss)) \<subseteq> st_id ` set (map rk_step (rank_steps lg asked ss vector limit))"
  using candidates_facts [OF assms(1) refl, of lg asked vector limit] assms(2) by simp

text \<open>A choice that keeps the mandatory steps has the same mandatory steps.\<close>

lemma sorted_restrict:
  assumes "distinct (map st_number ss)" "set cs \<subseteq> set ss" "sorted (map st_number cs)" "distinct cs"
  shows "cs = filter (\<lambda>s. s \<in> set cs) (sort_key st_number ss)"
proof -
  have inj: "inj_on st_number (set ss)" "distinct ss" using assms(1) by (simp_all add: distinct_map)
  let ?f = "filter (\<lambda>s. s \<in> set cs) (sort_key st_number ss)"
  have set: "set ?f = set cs" using assms(2) by auto
  have "map st_number cs = map st_number ?f"
  proof (rule sorted_distinct_set_unique)
    show "distinct (map st_number cs)" using assms(2,4) inj by (auto simp: distinct_map intro: inj_on_subset)
    show "sorted (map st_number ?f)" by (rule sorted_filter) simp
    have "inj_on st_number (set ?f)" using inj(1) by (auto intro: inj_on_subset)
    then show "distinct (map st_number ?f)" using inj(2) by (simp add: distinct_map)
    show "set (map st_number cs) = set (map st_number ?f)" unfolding set_map set ..
  qed (use assms(3) in simp)
  moreover have "inj_on st_number (set cs \<union> set ?f)" unfolding set using inj(1) assms(2) by (auto intro: inj_on_subset)
  ultimately show ?thesis by (rule map_inj_on)
qed

lemma same_mandatory:
  assumes "distinct (map st_id ss)" "distinct (map st_number ss)" "ss \<noteq> []"
    and "set cs \<subseteq> set ss" "sorted (map st_number cs)" "distinct cs"
    and "set (mandatory_ids (sort_key st_number ss)) \<subseteq> st_id ` set cs"
  shows "set (mandatory_ids cs) = set (mandatory_ids (sort_key st_number ss))"
proof -
  let ?s = "sort_key st_number ss"
  have ne: "?s \<noteq> []" using assms(3) by (metis set_empty set_sort)
  have keep: "s \<in> set cs" if "st_id s \<in> set (mandatory_ids ?s)" "s \<in> set ss" for s
  proof -
    from that(1) assms(7) obtain c where "c \<in> set cs" "st_id c = st_id s" by auto
    with assms(1,4) that(2) show ?thesis by (metis distinct_map inj_onD subsetD)
  qed
  have cs: "cs = filter (\<lambda>s. s \<in> set cs) ?s" by (rule sorted_restrict [OF assms(2,4-6)])
  have in_s: "hd ?s \<in> set ss" "last ?s \<in> set ss" "set (recent ?s) \<subseteq> set ss"
    using ne hd_in_set [of ?s] last_in_set [of ?s] by (auto simp: recent_def dest: in_set_dropD)
  have "hd ?s \<in> set cs" "last ?s \<in> set cs" "\<forall>s \<in> set (recent ?s). s \<in> set cs"
    using in_s keep mandatory_set [OF ne] by auto
  moreover have "hd cs = hd ?s"
    by (subst cs, cases ?s) (use calculation(1) ne in auto)
  moreover have "last cs = last ?s"
  proof -
    from ne obtain xs x where x: "?s = xs @ [x]" by (metis rev_exhaust)
    with calculation(2) have "x \<in> set cs" by simp
    then show ?thesis by (subst cs) (simp add: x)
  qed
  moreover have "recent cs = recent ?s" by (subst cs, rule recent_filter) (use calculation(3) in blast)
  moreover have "{s \<in> set cs. milestone s} = {s \<in> set ?s. milestone s}"
    using keep mandatory_set [OF ne] assms(4) by auto
  moreover have "cs \<noteq> []" using calculation(1) by auto
  ultimately show ?thesis using mandatory_set [OF ne] mandatory_set [of cs] by simp
qed

subsection \<open>Properties\<close>

lemma map_back:
  assumes "distinct (map (st_id \<circ> rk_step) cs)" "set chosen \<subseteq> set (map rk_step cs)"
  shows "map rk_step (map (\<lambda>s. the (map_of (rev (map (\<lambda>c. (st_id (rk_step c), c)) cs)) (st_id s))) chosen) = chosen"
proof -
  have "rk_step (the (map_of (rev (map (\<lambda>c. (st_id (rk_step c), c)) cs)) (st_id s))) = s" if s: "s \<in> set chosen" for s
  proof -
    from s assms(2) obtain c where c: "c \<in> set cs" "rk_step c = s" by auto
    have "distinct (map fst (rev (map (\<lambda>c. (st_id (rk_step c), c)) cs)))"
      using assms(1) by (simp add: rev_map [symmetric] comp_def)
    moreover have "(st_id s, c) \<in> set (rev (map (\<lambda>c. (st_id (rk_step c), c)) cs))" using c by auto
    ultimately have "map_of (rev (map (\<lambda>c. (st_id (rk_step c), c)) cs)) (st_id s) = Some c" by simp
    with c show ?thesis by simp
  qed
  then show ?thesis by (simp add: map_idI comp_def)
qed

text \<open>C26: The context keeps what matters and stays small. Whatever the scores of the searches and of the
  reranker, the steps selected for a summary are steps of the process, each once, in their order; among
  them are the first, the last, the five most recent and every milestone; a process of at most forty
  steps is selected whole; and of a longer one there are exactly as many as the limit (twenty, or fifteen
  with a reranker) or the mandatory steps demand.\<close>

theorem context_keeps_mandatory:
  assumes "select_context_steps lg T asked ss vector scorer = Inr r" "distinct (map st_id ss)" "distinct (map st_number ss)"
    and "ss \<noteq> []" "must = set (mandatory_ids (sort_key st_number ss))"
  shows "set (map rk_step r) \<subseteq> set ss \<and> sorted (map (st_number \<circ> rk_step) r) \<and> distinct (map (st_id \<circ> rk_step) r) \<and>
    must \<subseteq> st_id ` set (map rk_step r) \<and>
    length r = (if length ss \<le> 40 then length ss
      else min (length ss) (max (case scorer of None \<Rightarrow> 20 | Some _ \<Rightarrow> 15) (card must)))"
proof -
  define n where "n = (case scorer of None \<Rightarrow> legacy_output_limit | Some _ \<Rightarrow> rerank_candidate_limit)"
  define cs where "cs = rank_steps lg asked ss vector n"
  have cs: "set (map rk_step cs) \<subseteq> set ss" "distinct (map (st_id \<circ> rk_step) cs)" "sorted (map (st_number \<circ> rk_step) cs)"
      "must \<subseteq> st_id ` set (map rk_step cs)"
      "length cs = (if length ss \<le> 40 then length ss else min (max (nat n) (card must)) (length ss))"
    using candidates_facts [OF assms(2) cs_def] assms(4) by (simp_all add: assms(5) short_process_all_steps_max_def)
  show ?thesis
  proof (cases "scorer = None \<or> length ss \<le> 40")
    case True
    with assms(1) have r: "r = cs" by (auto simp: select_context_steps_def Let_def cs_def n_def split: option.splits)
    have "length ss \<le> 40 \<or> nat n = 20" using True by (auto simp: n_def legacy_output_limit_def)
    with cs True show ?thesis by (auto simp: r min.commute)
  next
    case False
    then obtain ask where ask: "scorer = Some ask" by auto
    let ?steps = "map rk_step cs"
    from assms(1) False ask obtain m chosen where chosen: "rerank_steps ?steps m rerank_output_limit = Inr chosen"
      and r: "r = map (\<lambda>s. the (map_of (rev (map (\<lambda>c. (st_id (rk_step c), c)) cs)) (st_id s))) chosen"
      by (auto simp: select_context_steps_def Let_def cs_def n_def)
    have ne: "?steps \<noteq> []" using cs(5) False assms(4) by (auto simp: n_def ask rerank_candidate_limit_def)
    have sorted: "sort_key st_number ?steps = ?steps" using cs(3) by (intro sort_key_id_if_sorted) (simp add: comp_def)
    have ids: "distinct (map st_id ?steps)" using cs(2) by (simp add: comp_def)
    then have steps: "distinct ?steps" unfolding distinct_map by blast
    have same: "set (mandatory_ids ?steps) = must"
      unfolding assms(5) by (rule same_mandatory) (use assms cs steps in \<open>simp_all add: comp_def\<close>)
    have "set chosen \<subseteq> set ?steps \<and> distinct (map st_id chosen) \<and> sorted (map st_number chosen) \<and>
        set (mandatory_ids ?steps) \<subseteq> st_id ` set chosen \<and>
        length chosen = min (max (nat rerank_output_limit) (card (set (mandatory_ids ?steps)))) (length ?steps)"
      by (rule choose_steps_facts [of st_id ?steps _ "sort_key (\<lambda>s. (- score_of m (st_id s), st_number s)) ?steps"])
        (use chosen ne ids steps mandatory_sub [OF ne] in
          \<open>auto simp: rerank_steps_def Let_def sorted split: if_splits\<close>)
    then have c: "set chosen \<subseteq> set ?steps" "distinct (map st_id chosen)" "sorted (map st_number chosen)"
        "must \<subseteq> st_id ` set chosen" "length chosen = min (max 15 (card must)) (length cs)"
      by (simp_all add: same rerank_output_limit_def)
    have again: "map rk_step r = chosen" unfolding r by (rule map_back [OF cs(2) c(1)])
    then have maps: "map (st_number \<circ> rk_step) r = map st_number chosen" "map (st_id \<circ> rk_step) r = map st_id chosen"
      by (metis map_map)+
    have "length r = min (length ss) (max 15 (card must))"
      using c(5) cs(5) False by (simp add: r n_def ask rerank_candidate_limit_def min_def max_def)
    with c cs(1) False show ?thesis by (simp add: maps again ask)
  qed
qed

definition sample_step :: "uuid \<Rightarrow> int \<Rightarrow> step" where
  "sample_step i n = \<lparr>st_id = i, st_number = n, st_text = ''t'', st_title = None, st_occurred = None, st_source = None\<rparr>"

theorem context_keeps_mandatory_witness:
  "\<exists>r. select_context_steps (\<lambda>_. 1) sample_tables ''q'' [sample_step 7 2, sample_step 8 1] None None = Inr r \<and>
     map (st_number \<circ> rk_step) r = [1, 2]"
proof -
  let ?ss = "[sample_step 7 2, sample_step 8 1]"
  obtain r where r: "select_context_steps (\<lambda>_. 1) sample_tables ''q'' ?ss None None = Inr r"
    by (simp add: select_context_steps_def Let_def)
  have "distinct (map st_id ?ss)" "distinct (map st_number ?ss)" by (simp_all add: sample_step_def)
  from context_keeps_mandatory [OF r this _ refl] have facts: "set (map rk_step r) \<subseteq> set ?ss"
    "sorted (map (st_number \<circ> rk_step) r)" "length r = 2" "distinct (map (st_id \<circ> rk_step) r)" by simp_all
  from facts(3) obtain a b where ab: "r = [a, b]" by (metis One_nat_def Suc_1 length_0_conv length_Suc_conv)
  from facts(1) have "rk_step a \<in> set ?ss" "rk_step b \<in> set ?ss" by (simp_all add: ab)
  with facts(2,4) have "map (st_number \<circ> rk_step) r = [1, 2]" by (auto simp: ab sample_step_def)
  with r show ?thesis by (intro exI [of _ r] conjI)
qed

text \<open>A step that may be shown: of the version, its process open to the public and not another case.\<close>

definition public_step :: "codec \<Rightarrow> uuid \<Rightarrow> db \<Rightarrow> step_row \<Rightarrow> bool" where
  "public_step k vid d s \<longleftrightarrow> s \<in> set (steps d) \<and> s_version s = vid \<and> \<not> step_private k s \<and> step_secrecy k s = Inr 0 \<and>
     (\<exists>v \<in> set (versions d). v_id v = vid \<and>
       (\<exists>p \<in> set (processes d). p_id p = v_process v \<and> s_process s = p_id p \<and> p_secrecy p = 0 \<and>
          same_cnj k p s \<and> same_instance k p s))"

lemma filter_res_sound: "filter_res p xs = Inr ys \<Longrightarrow> set ys \<subseteq> {x \<in> set xs. p x = Inr True}"
  by (induction xs arbitrary: ys) (auto split: if_splits)

lemma map_res_sound: "map_res f xs = Inr ys \<Longrightarrow> list_all2 (\<lambda>x y. f x = Inr y) xs ys"
  by (induction xs arbitrary: ys) auto

lemma eligible_public:
  assumes "(s, p) \<in> set (joined_steps vid d)" "eligible_step k p s = Inr True"
  shows "public_step k vid d s"
  using assms by (auto simp: public_step_def joined_steps_def eligible_step_def split: if_splits)

lemma filtered_public:
  assumes "filter_res (\<lambda>(s, p). eligible_step k p s) xs = Inr rows" "set xs \<subseteq> set (joined_steps vid d)" "x \<in> set rows"
  shows "public_step k vid d (fst x)"
  using filter_res_sound [OF assms(1)] assms(2,3) by (cases x) (fastforce intro: eligible_public)

lemma load_steps_public:
  assumes "load_steps k vid d = Inr ss"
  shows "sorted (map st_number ss)" "st_id ` set ss \<subseteq> {s_id s | s. public_step k vid d s}"
proof -
  from assms obtain rows where rows: "filter_res (\<lambda>(s, p). eligible_step k p s) (joined_steps vid d) = Inr rows"
      "map_res (loaded_step k) (sort_key s_number (map fst rows)) = Inr ss" by (auto simp: load_steps_def)
  have all: "list_all2 (\<lambda>r s. st_id s = s_id r \<and> st_number s = s_number r) (sort_key s_number (map fst rows)) ss"
    using map_res_sound [OF rows(2)] by (rule list_all2_mono) (auto simp: loaded_step_def)
  then have ids: "map st_id ss = map s_id (sort_key s_number (map fst rows))"
    "map st_number ss = map s_number (sort_key s_number (map fst rows))"
    by (induction rule: list_all2_induct) simp_all
  show "st_id ` set ss \<subseteq> {s_id s | s. public_step k vid d s}"
    using arg_cong [OF ids(1), of set] filtered_public [OF rows(1) subset_refl] by auto
  show "sorted (map st_number ss)" unfolding ids(2) by simp
qed

text \<open>C27: Only public movements of the version are read. Every step loaded for retrieval, and every step a
  search of the database or of an external index scores, is a row of the version whose process is not
  under secrecy, and is itself neither private nor under secrecy nor of another process number or
  instance; the steps are loaded in the order of their numbers.\<close>

theorem retrieval_reads_public_steps:
  assumes "load_steps k vid d = Inr ss" "vector_search k sim runtime vid embedding limit d = Inr m"
    and "lexical_search k rank vid asked limit' d = Inr m'"
  shows "sorted (map st_number ss) \<and>
    st_id ` set ss \<union> fst ` set m \<union> fst ` set m' \<subseteq> {s_id s | s. public_step k vid d s}"
proof -
  note public = filtered_public and steps = load_steps_public [OF assms(1)]
  have "st_id ` set ss \<subseteq> {s_id s | s. public_step k vid d s}" by (rule steps(2))
  moreover have "sorted (map st_number ss)" by (rule steps(1))
  moreover have searched: "fst ` set q \<subseteq> {s_id s | s. public_step k vid d s}" if "search_steps k score tie vid n d = Inr q" for score tie n q
    using that public [OF _ subset_refl] by (fastforce simp: search_steps_def dest: in_set_takeD)
  moreover have "fst ` set m \<subseteq> {s_id s | s. public_step k vid d s}"
  proof (cases runtime)
    case None
    with assms(2) searched show ?thesis by (simp add: vector_search_def)
  next
    case (Some search)
    with assms(2) obtain m0 where m0: "eligible_score_map k vid m0 d = Inr m" by (auto simp: vector_search_def)
    show ?thesis
    proof (cases "m0 = []")
      case False
      with m0 obtain found where found: "filter_res (\<lambda>(s, p). eligible_step k p s)
          (filter (\<lambda>(s, p). s_id s \<in> set (map fst m0)) (joined_steps vid d)) = Inr found"
        "m = filter (\<lambda>(i, q). i \<in> set (map (s_id \<circ> fst) found)) m0" by (auto simp: eligible_score_map_def)
      have "set (filter (\<lambda>(s, p). s_id s \<in> set (map fst m0)) (joined_steps vid d)) \<subseteq> set (joined_steps vid d)" by auto
      from public [OF found(1) this] found(2) show ?thesis by fastforce
    qed (use m0 in \<open>simp add: eligible_score_map_def\<close>)
  qed
  ultimately show ?thesis using assms(3) by (auto simp: lexical_search_def)
qed

definition step_row_sample :: step_row where
  "step_row_sample = \<lparr>s_id = 7, s_version = 2, s_process = 3, s_number = 1, s_occurred = None, s_title = JNull, s_text = ''t'',
     s_metadata = JObj []\<rparr>"

definition step_db :: db where
  "step_db = empty_db\<lparr>processes := [new_process 3 0 ''0000000-00.0000.0.00.0000''],
     versions := [(staged_version 2 10)\<lparr>v_process := 3\<rparr>], steps := [step_row_sample]\<rparr>"

theorem retrieval_reads_public_steps_witness:
  "\<exists>ss. load_steps sample_codec 2 step_db = Inr ss \<and> st_id ` set ss = {7} \<and> public_step sample_codec 2 step_db step_row_sample"
proof -
  let ?score = "\<lambda>(_ :: step_row). None :: rat option"
  have joined: "joined_steps 2 step_db = [(step_row_sample, new_process 3 0 ''0000000-00.0000.0.00.0000'')]"
    by (simp add: joined_steps_def step_db_def step_row_sample_def staged_version_def new_version_def new_process_def)
  have fine: "eligible_step sample_codec (new_process 3 0 ''0000000-00.0000.0.00.0000'') step_row_sample = Inr True"
    by (simp add: eligible_step_def step_row_sample_def new_process_def same_cnj_def same_instance_def step_private_def
        step_secrecy_def member_text_def has_member_def obj_get_def)
  have one: "loaded_step sample_codec step_row_sample = Inr \<lparr>st_id = 7, st_number = 1, st_text = ''t'', st_title = None,
      st_occurred = None, st_source = None\<rparr>"
    by (simp add: loaded_step_def source_number_def member_text_def obj_get_def step_row_sample_def)
  have rows: "filter_res (\<lambda>(s, p). eligible_step sample_codec p s) (joined_steps 2 step_db) =
      Inr [(step_row_sample, new_process 3 0 ''0000000-00.0000.0.00.0000'')]" by (simp add: joined fine)
  have load: "load_steps sample_codec 2 step_db = Inr [\<lparr>st_id = 7, st_number = 1, st_text = ''t'', st_title = None,
      st_occurred = None, st_source = None\<rparr>]"
    by (simp add: load_steps_def rows one)
  have none: "vector_search sample_codec (\<lambda>_. ?score) None 2 [] 1 step_db = Inr []"
    "lexical_search sample_codec (\<lambda>_. ?score) 2 [] 1 step_db = Inr []"
    by (simp_all add: vector_search_def lexical_search_def search_steps_def rows)
  from retrieval_reads_public_steps [OF load none] have "7 \<in> {s_id s | s. public_step sample_codec 2 step_db s}" by simp
  then have "public_step sample_codec 2 step_db step_row_sample" by (auto simp: public_step_def step_db_def)
  with load show ?thesis by simp
qed

end
