(* ===== verification/Provenance.thy ===== *)
theory Provenance
  imports Retrieval EvidenceStore
begin

text \<open>
  \<open>app/provenance.py\<close>: from what a summary was written. The movements, attachment chunks and glossary
  definitions that were sent to the model are recorded with the summary, without their texts, and read
  back in their order. A source is a record here where the code passes dictionaries.
\<close>

subsection \<open>Sources\<close>

record movement_used =
  mu_ref :: string
  mu_step :: uuid
  mu_number :: int
  mu_occurred :: "timestamp option"
  mu_order :: int
  mu_sha :: string
  mu_flags :: "string list"

record chunk_used =
  au_ref :: string
  au_attachment :: uuid
  au_chunk :: uuid
  au_source :: string
  au_page_start :: "int option"
  au_page_end :: "int option"
  au_char_start :: "int option"
  au_char_end :: "int option"
  au_sha :: string
  au_order :: int
  au_flags :: "string list"

record definition_used =
  du_kind :: string
  du_code :: string
  du_tpu_version :: string
  du_publisher :: string
  du_source :: string
  du_ref :: string
  du_sha :: string
  du_order :: int

definition title_text :: "step \<Rightarrow> string" where
  "title_text s = (case st_title s of None \<Rightarrow> [] | Some t \<Rightarrow> t)"

text \<open>\<open>list(dict.fromkeys(xs))\<close>.\<close>

definition first_seen :: "'a list \<Rightarrow> 'a list" where
  "first_seen xs = rev (remdups (rev xs))"

definition movement_used_of :: "unicode_tables \<Rightarrow> nat \<times> ranked_step \<Rightarrow> movement_used" where
  "movement_used_of T ir = (let s = rk_step (snd ir) in
     \<lparr>mu_ref = movement_evidence_ref (st_id s), mu_step = st_id s, mu_number = st_number s, mu_occurred = st_occurred s,
      mu_order = int (fst ir), mu_sha = view_sha T (st_text s),
      mu_flags = first_seen (view_flags T (st_text s) @ view_flags T (title_text s))\<rparr>)"

definition selected_movement_sources :: "unicode_tables \<Rightarrow> ranked_step list \<Rightarrow> movement_used list" where
  "selected_movement_sources T ranked = map (movement_used_of T) (enumerate 0 ranked)"

definition chunk_used_of :: "unicode_tables \<Rightarrow> nat \<times> attachment_row \<times> chunk_row \<Rightarrow> chunk_used" where
  "chunk_used_of T iac = (case iac of (i, a, c) \<Rightarrow>
     \<lparr>au_ref = attachment_evidence_ref (ch_id c), au_attachment = at_id a, au_chunk = ch_id c, au_source = at_source a,
      au_page_start = ch_page_start c, au_page_end = ch_page_end c, au_char_start = ch_char_start c,
      au_char_end = ch_char_end c, au_sha = ch_sha256 c, au_order = int i,
      au_flags = mv_flags (model_view_text T (ch_text c))\<rparr>)"

definition selected_attachment_sources :: "unicode_tables \<Rightarrow> (attachment_row \<times> chunk_row) list \<Rightarrow> chunk_used list" where
  "selected_attachment_sources T found = map (chunk_used_of T) (enumerate 0 found)"

subsection \<open>Storing\<close>

definition check_flags :: "string list \<Rightarrow> unit res" where
  "check_flags flags = (if list_all (\<lambda>f. f \<in> set flag_order) flags then Inr () else Inl (ValueError ''invalid unicode security flag''))"

definition summary_exists :: "uuid \<Rightarrow> uuid \<Rightarrow> uuid \<Rightarrow> db \<Rightarrow> bool" where
  "summary_exists sid pid vid d \<longleftrightarrow> sid \<in> sm_id ` set (summaries d) \<and> pid \<in> p_id ` set (processes d) \<and> vid \<in> v_id ` set (versions d)"

definition nullif_empty :: "string \<Rightarrow> string option" where
  "nullif_empty s = (if s = [] then None else Some s)"

definition used_step_row :: "uuid \<Rightarrow> uuid \<Rightarrow> uuid \<Rightarrow> movement_used \<Rightarrow> used_step res" where
  "used_step_row sid pid vid m = res_bind (check_flags (mu_flags m)) (\<lambda>_. Inr
     \<lparr>u_summary = sid, u_process = pid, u_version = vid, u_source = mu_step m, u_order = mu_order m, u_flags = mu_flags m,
      us_number = mu_number m, us_occurred = mu_occurred m, us_sha256 = nullif_empty (lower (strip (mu_sha m)))\<rparr>)"

text \<open>The constraints of \<open>sql/020\<close> and \<open>sql/029\<close>.\<close>

definition used_step_ok :: "used_step \<Rightarrow> db \<Rightarrow> bool" where
  "used_step_ok r d \<longleftrightarrow> summary_exists (u_summary r) (u_process r) (u_version r) d \<and> u_source r \<in> s_id ` set (steps d) \<and>
     0 < us_number r \<and> 0 \<le> u_order r \<and> (case us_sha256 r of None \<Rightarrow> True | Some h \<Rightarrow> sha256_ok h) \<and>
     list_all (\<lambda>x. u_summary x = u_summary r \<longrightarrow> u_source x \<noteq> u_source r \<and> u_order x \<noteq> u_order r) (used_steps d)"

definition insert_used_step :: "used_step \<Rightarrow> (db, unit) prog" where
  "insert_used_step r = bind (query (used_step_ok r)) (\<lambda>ok.
     if ok then modify (\<lambda>d. d\<lparr>used_steps := used_steps d @ [r]\<rparr>) else raise (DatabaseError ''process_summary_sources''))"

definition replace_summary_sources :: "uuid \<Rightarrow> uuid \<Rightarrow> uuid \<Rightarrow> movement_used list \<Rightarrow> (db, unit) prog" where
  "replace_summary_sources sid pid vid sources =
     then_do (modify (\<lambda>d. d\<lparr>used_steps := filter (\<lambda>r. u_summary r \<noteq> sid) (used_steps d)\<rparr>))
       (bind (lift_res (map_res (used_step_row sid pid vid) sources)) (for_each insert_used_step))"

definition used_chunk_row :: "uuid \<Rightarrow> uuid \<Rightarrow> uuid \<Rightarrow> chunk_used \<Rightarrow> used_chunk res" where
  "used_chunk_row sid pid vid a = (let source = strip (au_source a); digest = lower (strip (au_sha a)) in
     if source = [] then Inl (ValueError ''attachment provenance source_attachment_id is required'')
     else if \<not> sha256_ok digest then Inl (ValueError ''invalid attachment provenance content_sha256'')
     else res_bind (check_flags (au_flags a)) (\<lambda>_. Inr
       \<lparr>u_summary = sid, u_process = pid, u_version = vid, u_source = au_chunk a, u_order = au_order a, u_flags = au_flags a,
        uc_attachment = au_attachment a, uc_source = source, uc_page_start = au_page_start a, uc_page_end = au_page_end a,
        uc_char_start = au_char_start a, uc_char_end = au_char_end a, uc_sha256 = digest\<rparr>))"

definition bounds_ok :: "int \<Rightarrow> int option \<Rightarrow> int option \<Rightarrow> bool" where
  "bounds_ok least a b \<longleftrightarrow> (case (a, b) of (None, None) \<Rightarrow> True | (Some x, Some y) \<Rightarrow> least \<le> x \<and> x \<le> y | _ \<Rightarrow> False)"

text \<open>The constraints and the trigger of \<open>sql/026\<close>.\<close>

definition used_chunk_ok :: "used_chunk \<Rightarrow> db \<Rightarrow> bool" where
  "used_chunk_ok r d \<longleftrightarrow> 0 \<le> u_order r \<and> bounds_ok 1 (uc_page_start r) (uc_page_end r) \<and>
     bounds_ok 0 (uc_char_start r) (uc_char_end r) \<and>
     list_ex (\<lambda>s. sm_id s = u_summary r \<and> sm_process s = u_process r \<and> sm_version s = u_version r) (summaries d) \<and>
     list_ex (\<lambda>c. ch_id c = u_source r \<and> ch_process c = u_process r \<and> ch_version c = u_version r \<and>
       ch_attachment c = uc_attachment r) (chunks d) \<and>
     list_ex (\<lambda>a. at_id a = uc_attachment r \<and> at_source a = uc_source r) (attachments d) \<and>
     list_all (\<lambda>x. u_summary x = u_summary r \<longrightarrow> u_source x \<noteq> u_source r \<and> u_order x \<noteq> u_order r) (used_chunks d)"

definition insert_used_chunk :: "used_chunk \<Rightarrow> (db, unit) prog" where
  "insert_used_chunk r = bind (query (used_chunk_ok r)) (\<lambda>ok.
     if ok then modify (\<lambda>d. d\<lparr>used_chunks := used_chunks d @ [r]\<rparr>)
     else raise (DatabaseError ''process_summary_attachment_sources''))"

definition replace_summary_attachment_sources :: "uuid \<Rightarrow> uuid \<Rightarrow> uuid \<Rightarrow> chunk_used list \<Rightarrow> (db, unit) prog" where
  "replace_summary_attachment_sources sid pid vid sources =
     then_do (modify (\<lambda>d. d\<lparr>used_chunks := filter (\<lambda>r. u_summary r \<noteq> sid) (used_chunks d)\<rparr>))
       (bind (lift_res (map_res (used_chunk_row sid pid vid) sources)) (for_each insert_used_chunk))"

definition glossary_row_of :: "uuid \<Rightarrow> uuid \<Rightarrow> uuid \<Rightarrow> definition_used \<Rightarrow> glossary_row res" where
  "glossary_row_of sid pid vid g =
     (let kind = strip (du_kind g); code = strip (du_code g); tpu = strip (du_tpu_version g); pub = strip (du_publisher g);
          origin = strip (du_source g); ref = strip (du_ref g); digest = strip (du_sha g)
      in if kind \<noteq> ''class'' \<and> kind \<noteq> ''subject'' then Inl (ValueError ''invalid TPU glossary provenance kind'')
         else if [] \<in> set [code, tpu, pub, origin, ref] then Inl (ValueError ''TPU glossary provenance is missing required metadata'')
         else if \<not> sha256_ok digest then Inl (ValueError ''invalid TPU glossary definition_sha256'')
         else Inr \<lparr>gl_summary = sid, gl_process = pid, gl_version = vid, gl_kind = kind, gl_code = code, gl_tpu_version = tpu,
           gl_publisher = pub, gl_source = origin, gl_ref = ref, gl_sha256 = digest, gl_order = du_order g\<rparr>)"

text \<open>The constraints of \<open>sql/024\<close>.\<close>

definition glossary_ok :: "glossary_row \<Rightarrow> db \<Rightarrow> bool" where
  "glossary_ok r d \<longleftrightarrow> summary_exists (gl_summary r) (gl_process r) (gl_version r) d \<and> 0 \<le> gl_order r \<and>
     list_all (\<lambda>x. gl_summary x = gl_summary r \<longrightarrow> (gl_kind x, gl_code x) \<noteq> (gl_kind r, gl_code r) \<and> gl_order x \<noteq> gl_order r)
       (used_glossary d)"

definition insert_glossary :: "glossary_row \<Rightarrow> (db, unit) prog" where
  "insert_glossary r = bind (query (glossary_ok r)) (\<lambda>ok.
     if ok then modify (\<lambda>d. d\<lparr>used_glossary := used_glossary d @ [r]\<rparr>)
     else raise (DatabaseError ''process_summary_glossary_sources''))"

definition replace_summary_glossary_sources :: "uuid \<Rightarrow> uuid \<Rightarrow> uuid \<Rightarrow> definition_used list \<Rightarrow> (db, unit) prog" where
  "replace_summary_glossary_sources sid pid vid sources =
     then_do (modify (\<lambda>d. d\<lparr>used_glossary := filter (\<lambda>r. gl_summary r \<noteq> sid) (used_glossary d)\<rparr>))
       (bind (lift_res (map_res (glossary_row_of sid pid vid) sources)) (for_each insert_glossary))"

subsection \<open>Reading\<close>

datatype loaded_source =
    LoadedMovement used_step json "int option"
  | LoadedChunk used_chunk
  | LoadedDefinition glossary_row

text \<open>The cast of the number of a step at its source; a number that is no integer is an error.\<close>

definition step_source_number :: "step_row \<Rightarrow> int option res" where
  "step_source_number s = (case obj_get (as_obj (s_metadata s)) ''source_step_number'' of
     JInt i \<Rightarrow> Inr (Some i)
   | JFloat _ \<Rightarrow> Inl (DatabaseError ''invalid input syntax for type bigint'')
   | _ \<Rightarrow> Inr None)"

definition used_movements :: "uuid \<Rightarrow> db \<Rightarrow> (used_step \<times> step_row) list" where
  "used_movements sid d = concat (map (\<lambda>r. map (Pair r)
     (filter (\<lambda>s. s_id s = u_source r \<and> s_process s = u_process r \<and> s_version s = u_version r) (steps d)))
     (sort_key u_order (filter (\<lambda>r. u_summary r = sid) (used_steps d))))"

definition load_used_summary_sources :: "uuid \<Rightarrow> db \<Rightarrow> loaded_source list res" where
  "load_used_summary_sources sid d =
     res_bind (map_res (\<lambda>(r, s). res_bind (step_source_number s) (\<lambda>n. Inr (LoadedMovement r (s_title s) n))) (used_movements sid d))
       (\<lambda>moves. Inr (moves @
          map LoadedChunk (sort_key u_order (filter (\<lambda>r. u_summary r = sid) (used_chunks d))) @
          map LoadedDefinition (sort_key gl_order (filter (\<lambda>r. gl_summary r = sid) (used_glossary d)))))"

subsection \<open>Reading back\<close>

text \<open>The interface of a table whose rows are inserted one by one.\<close>

locale row_insertion =
  fixes insert_row :: "'r \<Rightarrow> (db, unit) prog"
    and add_rows :: "'r list \<Rightarrow> db \<Rightarrow> db"
  assumes inserts: "insert_row r d = (d', Inr ()) \<Longrightarrow> d' = add_rows [r] d"
    and add_none: "add_rows [] d = d"
    and add_more: "add_rows rs (add_rows [r] d) = add_rows (r # rs) d"
begin

lemma insert_all: "for_each insert_row rs d = (d', Inr ()) \<Longrightarrow> d' = add_rows rs d"
proof (induction rs arbitrary: d)
  case (Cons r rs)
  then obtain d0 where one: "insert_row r d = (d0, Inr ())" and rest: "for_each insert_row rs d0 = (d', Inr ())"
    by (auto simp: prog_simps split: prod.splits sum.splits)
  from Cons.IH [OF rest] inserts [OF one] show ?case by (simp add: add_more)
qed (simp add: add_none prog_simps)

end

interpretation step_rows: row_insertion insert_used_step "\<lambda>rs d. d\<lparr>used_steps := used_steps d @ rs\<rparr>"
  by unfold_locales (auto simp: insert_used_step_def prog_simps split: if_splits)

interpretation chunk_rows: row_insertion insert_used_chunk "\<lambda>rs d. d\<lparr>used_chunks := used_chunks d @ rs\<rparr>"
  by unfold_locales (auto simp: insert_used_chunk_def prog_simps split: if_splits)

interpretation glossary_rows: row_insertion insert_glossary "\<lambda>rs d. d\<lparr>used_glossary := used_glossary d @ rs\<rparr>"
  by unfold_locales (auto simp: insert_glossary_def prog_simps split: if_splits)

lemma bind_lift: "bind (lift_res r) f d = (d', Inr y) \<longleftrightarrow> (\<exists>x. r = Inr x \<and> f x d = (d', Inr y))"
  by (cases r) (auto simp: prog_simps)

lemma replaced_steps:
  assumes "replace_summary_sources sid pid vid ms d = (d', Inr ())"
  obtains rs where "map_res (used_step_row sid pid vid) ms = Inr rs"
    "d' = d\<lparr>used_steps := filter (\<lambda>r. u_summary r \<noteq> sid) (used_steps d) @ rs\<rparr>"
  using assms by (auto simp: replace_summary_sources_def run_simps bind_lift dest!: step_rows.insert_all)

lemma replaced_chunks:
  assumes "replace_summary_attachment_sources sid pid vid cs d = (d', Inr ())"
  obtains rs where "map_res (used_chunk_row sid pid vid) cs = Inr rs"
    "d' = d\<lparr>used_chunks := filter (\<lambda>r. u_summary r \<noteq> sid) (used_chunks d) @ rs\<rparr>"
  using assms by (auto simp: replace_summary_attachment_sources_def run_simps bind_lift dest!: chunk_rows.insert_all)

lemma replaced_definitions:
  assumes "replace_summary_glossary_sources sid pid vid gs d = (d', Inr ())"
  obtains rs where "map_res (glossary_row_of sid pid vid) gs = Inr rs"
    "d' = d\<lparr>used_glossary := filter (\<lambda>r. gl_summary r \<noteq> sid) (used_glossary d) @ rs\<rparr>"
  using assms by (auto simp: replace_summary_glossary_sources_def run_simps bind_lift dest!: glossary_rows.insert_all)

lemma map_res_field:
  assumes "map_res f xs = Inr ys" "\<And>x y. f x = Inr y \<Longrightarrow> g y = h x"
  shows "map g ys = map h xs"
  using map_res_sound [OF assms(1)] by (induction rule: list_all2_induct) (simp_all add: assms(2))

lemma own_rows:
  assumes "map key rs = map key' xs" "sorted (map key' xs)" "list_all (\<lambda>r. owner r = sid) rs"
  shows "sort_key key (filter (\<lambda>r. owner r = sid) (filter (\<lambda>r. owner r \<noteq> sid) old @ rs)) = rs"
proof -
  have "filter (\<lambda>r. owner r = sid) rs = rs" using assms(3) by (simp add: list_all_iff filter_True)
  moreover have "filter (\<lambda>r. owner r = sid) (filter (\<lambda>r. owner r \<noteq> sid) old) = []" by (simp add: filter_empty_conv)
  ultimately show ?thesis using assms(1,2) by (simp add: sort_key_id_if_sorted)
qed

lemma single_row: "distinct (map key t) \<Longrightarrow> s \<in> set t \<Longrightarrow> P s \<Longrightarrow> filter (\<lambda>x. key x = key s \<and> P x) t = [s]"
proof (induction t)
  case (Cons x t)
  show ?case
  proof (cases "x = s")
    case True
    with Cons.prems have "filter (\<lambda>x. key x = key s \<and> P x) t = []" by (auto simp: filter_empty_conv image_iff)
    with True Cons.prems show ?thesis by simp
  next
    case False
    with Cons have "key x \<noteq> key s" by (auto simp: image_iff)
    with False Cons show ?thesis by simp
  qed
qed simp

text \<open>What is stored for one source.\<close>

definition records_step :: "uuid \<Rightarrow> used_step \<times> step_row \<Rightarrow> movement_used \<Rightarrow> bool" where
  "records_step sid x m \<longleftrightarrow> u_summary (fst x) = sid \<and> u_source (fst x) = mu_step m \<and> s_id (snd x) = mu_step m \<and>
     us_number (fst x) = mu_number m \<and> us_occurred (fst x) = mu_occurred m \<and> u_order (fst x) = mu_order m \<and>
     us_sha256 (fst x) = nullif_empty (lower (strip (mu_sha m))) \<and> u_flags (fst x) = mu_flags m"

definition records_chunk :: "uuid \<Rightarrow> used_chunk \<Rightarrow> chunk_used \<Rightarrow> bool" where
  "records_chunk sid r a \<longleftrightarrow> u_summary r = sid \<and> u_source r = au_chunk a \<and> uc_attachment r = au_attachment a \<and>
     uc_source r = strip (au_source a) \<and> u_order r = au_order a \<and> uc_sha256 r = lower (strip (au_sha a)) \<and>
     uc_page_start r = au_page_start a \<and> uc_page_end r = au_page_end a \<and> uc_char_start r = au_char_start a \<and>
     uc_char_end r = au_char_end a \<and> u_flags r = au_flags a"

definition records_definition :: "uuid \<Rightarrow> glossary_row \<Rightarrow> definition_used \<Rightarrow> bool" where
  "records_definition sid r g \<longleftrightarrow> gl_summary r = sid \<and> gl_kind r = strip (du_kind g) \<and> gl_code r = strip (du_code g) \<and>
     gl_tpu_version r = strip (du_tpu_version g) \<and> gl_publisher r = strip (du_publisher g) \<and> gl_source r = strip (du_source g) \<and>
     gl_ref r = strip (du_ref g) \<and> gl_sha256 r = strip (du_sha g) \<and> gl_order r = du_order g"

lemma row_records:
  "used_chunk_row sid pid vid a = Inr c \<Longrightarrow> records_chunk sid c a"
  "glossary_row_of sid pid vid g = Inr r \<Longrightarrow> records_definition sid r g"
  by (auto simp: used_chunk_row_def glossary_row_of_def records_chunk_def records_definition_def Let_def split: if_splits)

definition step_fields :: "uuid \<Rightarrow> uuid \<Rightarrow> uuid \<Rightarrow> used_step \<Rightarrow> movement_used \<Rightarrow> bool" where
  "step_fields sid pid vid r m \<longleftrightarrow> u_summary r = sid \<and> u_process r = pid \<and> u_version r = vid \<and> u_source r = mu_step m \<and>
     us_number r = mu_number m \<and> us_occurred r = mu_occurred m \<and> u_order r = mu_order m \<and>
     us_sha256 r = nullif_empty (lower (strip (mu_sha m))) \<and> u_flags r = mu_flags m"

lemma stored_row_fields: "used_step_row sid pid vid m = Inr r \<Longrightarrow> step_fields sid pid vid r m"
  by (auto simp: used_step_row_def step_fields_def)

lemma list_all2_flip: "list_all2 P xs ys \<Longrightarrow> (\<And>x y. P x y \<Longrightarrow> Q y x) \<Longrightarrow> list_all2 Q ys xs"
  by (auto simp: list_all2_conv_all_nth)

text \<open>C40: The sources of a summary read back. When the movements, chunks and definitions of a summary are
  replaced, in the order they were sent, then reading its sources gives exactly these, one by one and in
  this order, whatever was stored for it before, and the sources of every other summary are as they were.\<close>

theorem used_sources_read_back:
  assumes "replace_summary_sources sid pid vid ms d = (d1, Inr ())"
    and "replace_summary_attachment_sources sid pid vid cs d1 = (d2, Inr ())"
    and "replace_summary_glossary_sources sid pid vid gs d2 = (d3, Inr ())"
    and "sorted (map mu_order ms)" "sorted (map au_order cs)" "sorted (map du_order gs)" "distinct (map s_id (steps d))"
    and "list_all (\<lambda>m. list_ex (\<lambda>s. s_id s = mu_step m \<and> s_process s = pid \<and> s_version s = vid) (steps d)) ms"
    and "load_used_summary_sources sid d3 = Inr ls"
  shows "\<exists>moves chunks defs. ls = map (\<lambda>(r, s, n). LoadedMovement r (s_title s) n) moves @ map LoadedChunk chunks @ map LoadedDefinition defs \<and>
      list_all2 (records_step sid) (map (\<lambda>(r, s, n). (r, s)) moves) ms \<and> list_all2 (records_chunk sid) chunks cs \<and>
      list_all2 (records_definition sid) defs gs \<and>
      filter (\<lambda>r. u_summary r \<noteq> sid) (used_steps d3) = filter (\<lambda>r. u_summary r \<noteq> sid) (used_steps d) \<and>
      filter (\<lambda>r. u_summary r \<noteq> sid) (used_chunks d3) = filter (\<lambda>r. u_summary r \<noteq> sid) (used_chunks d) \<and>
      filter (\<lambda>r. gl_summary r \<noteq> sid) (used_glossary d3) = filter (\<lambda>r. gl_summary r \<noteq> sid) (used_glossary d)"
proof -
  from replaced_steps [OF assms(1)] obtain rs where rs: "map_res (used_step_row sid pid vid) ms = Inr rs"
    and d1: "d1 = d\<lparr>used_steps := filter (\<lambda>r. u_summary r \<noteq> sid) (used_steps d) @ rs\<rparr>" by blast
  from replaced_chunks [OF assms(2)] obtain rc where rc: "map_res (used_chunk_row sid pid vid) cs = Inr rc"
    and d2: "d2 = d1\<lparr>used_chunks := filter (\<lambda>r. u_summary r \<noteq> sid) (used_chunks d1) @ rc\<rparr>" by blast
  from replaced_definitions [OF assms(3)] obtain rg where rg: "map_res (glossary_row_of sid pid vid) gs = Inr rg"
    and d3: "d3 = d2\<lparr>used_glossary := filter (\<lambda>r. gl_summary r \<noteq> sid) (used_glossary d2) @ rg\<rparr>" by blast
  have step: "list_all2 (step_fields sid pid vid) rs ms" by (rule list_all2_flip [OF map_res_sound [OF rs]], erule stored_row_fields)
  have chunk: "list_all2 (records_chunk sid) rc cs" and defs: "list_all2 (records_definition sid) rg gs"
    by (rule list_all2_flip [OF map_res_sound [OF rc]], erule row_records)
      (rule list_all2_flip [OF map_res_sound [OF rg]], erule row_records)
  have own: "list_all (\<lambda>r. u_summary r = sid) rs" "list_all (\<lambda>r. u_summary r = sid) rc" "list_all (\<lambda>r. gl_summary r = sid) rg"
    using step chunk defs
    by (auto simp: list_all2_conv_all_nth list_all_length step_fields_def records_chunk_def records_definition_def)
  have orders: "map u_order rs = map mu_order ms" "map u_order rc = map au_order cs" "map gl_order rg = map du_order gs"
    using step chunk defs
    by (auto simp: list_all2_conv_all_nth step_fields_def records_chunk_def records_definition_def intro!: nth_equalityI)
  have sorted_rows: "sort_key u_order (filter (\<lambda>r. u_summary r = sid) (used_steps d3)) = rs"
    "sort_key u_order (filter (\<lambda>r. u_summary r = sid) (used_chunks d3)) = rc"
    "sort_key gl_order (filter (\<lambda>r. gl_summary r = sid) (used_glossary d3)) = rg"
    using own_rows [OF orders(1) assms(4) own(1)] own_rows [OF orders(2) assms(5) own(2)] own_rows [OF orders(3) assms(6) own(3)]
    by (simp_all add: d3 d2 d1)
  define row where "row r = hd (filter (\<lambda>s. s_id s = u_source r \<and> s_process s = pid \<and> s_version s = vid) (steps d))" for r :: used_step
  have rows: "filter (\<lambda>s. s_id s = u_source r \<and> s_process s = u_process r \<and> s_version s = u_version r) (steps d) = [row r] \<and>
      s_id (row r) = u_source r" if r: "r \<in> set rs" for r
  proof -
    from r step obtain m where m: "m \<in> set ms" "step_fields sid pid vid r m"
      by (metis in_set_conv_nth list_all2_conv_all_nth)
    then have r_fields: "u_source r = mu_step m" "u_process r = pid" "u_version r = vid" by (simp_all add: step_fields_def)
    from m(1) assms(8) obtain s where s: "s \<in> set (steps d)" "s_id s = mu_step m" "s_process s = pid \<and> s_version s = vid"
      by (auto simp: list_all_iff list_ex_iff)
    have "filter (\<lambda>x. s_id x = s_id s \<and> s_process x = pid \<and> s_version x = vid) (steps d) = [s]"
      by (rule single_row [OF assms(7) s(1)]) (use s(3) in simp)
    with s r_fields show ?thesis by (simp add: row_def)
  qed
  have "used_movements sid d3 = map (\<lambda>r. (r, row r)) rs"
  proof -
    have "used_movements sid d3 = concat (map (\<lambda>r. map (Pair r)
        (filter (\<lambda>s. s_id s = u_source r \<and> s_process s = u_process r \<and> s_version s = u_version r) (steps d))) rs)"
      by (simp only: used_movements_def sorted_rows) (simp add: d3 d2 d1)
    also have "\<dots> = concat (map (\<lambda>r. [(r, row r)]) rs)" using rows by (intro arg_cong [where f = concat] map_cong) auto
    finally show ?thesis by (simp add: concat_map_singleton)
  qed
  with assms(9) obtain lm where lm: "map_res (\<lambda>(r, s). res_bind (step_source_number s) (\<lambda>n. Inr (LoadedMovement r (s_title s) n)))
      (map (\<lambda>r. (r, row r)) rs) = Inr lm" and ls: "ls = lm @ map LoadedChunk rc @ map LoadedDefinition rg"
    by (auto simp: load_used_summary_sources_def sorted_rows)
  let ?moves = "map (\<lambda>r. (r, row r, case step_source_number (row r) of Inr n \<Rightarrow> n | Inl _ \<Rightarrow> None)) rs"
  have "lm = map (\<lambda>(r, s, n). LoadedMovement r (s_title s) n) ?moves"
    using map_res_sound [OF lm] by (intro nth_equalityI) (auto simp: list_all2_conv_all_nth)
  moreover have "list_all2 (records_step sid) (map (\<lambda>(r, s, n). (r, s)) ?moves) ms"
    using step rows by (auto simp: list_all2_conv_all_nth records_step_def step_fields_def)
  moreover have "filter (\<lambda>r. u_summary r \<noteq> sid) (used_steps d3) = filter (\<lambda>r. u_summary r \<noteq> sid) (used_steps d)"
    "filter (\<lambda>r. u_summary r \<noteq> sid) (used_chunks d3) = filter (\<lambda>r. u_summary r \<noteq> sid) (used_chunks d)"
    "filter (\<lambda>r. gl_summary r \<noteq> sid) (used_glossary d3) = filter (\<lambda>r. gl_summary r \<noteq> sid) (used_glossary d)"
    using own by (auto simp: d3 d2 d1 list_all_iff filter_empty_conv)
  ultimately show ?thesis using chunk defs unfolding ls by blast
qed

definition provenance_db :: db where
  "provenance_db = step_db\<lparr>summaries := summaries store_db\<rparr>"

definition movement_sample :: movement_used where
  "movement_sample = \<lparr>mu_ref = movement_evidence_ref 7, mu_step = 7, mu_number = 1, mu_occurred = None, mu_order = 0, mu_sha = [],
     mu_flags = [''zero_width'']\<rparr>"

theorem used_sources_read_back_witness:
  "\<exists>d' r s n. replace_summary_sources 1 3 2 [movement_sample] provenance_db = (d', Inr ()) \<and>
     load_used_summary_sources 1 d' = Inr [LoadedMovement r (s_title s) n] \<and> records_step 1 (r, s) movement_sample"
proof -
  let ?row = "\<lparr>u_summary = 1, u_process = 3, u_version = 2, u_source = 7, u_order = 0, u_flags = [''zero_width''],
      us_number = 1, us_occurred = None, us_sha256 = None\<rparr>"
  let ?d = "provenance_db\<lparr>used_steps := [?row]\<rparr>"
  have made: "used_step_row 1 3 2 movement_sample = Inr ?row"
    by (simp add: used_step_row_def movement_sample_def check_flags_def flag_order_def nullif_empty_def lower_def strip_def
        rstrip_by_def lstrip_by_def)
  have db: "used_steps provenance_db = []" "used_chunks provenance_db = []" "used_glossary provenance_db = []"
    "steps provenance_db = [step_row_sample]" "map sm_id (summaries provenance_db) = [1]" "map p_id (processes provenance_db) = [3]"
    "map v_id (versions provenance_db) = [2]"
    by (simp_all add: provenance_db_def step_db_def store_db_def empty_db_def new_process_def staged_version_def new_version_def)
  have ok: "used_step_ok ?row (provenance_db\<lparr>used_steps := []\<rparr>)"
    using db by (auto simp: used_step_ok_def summary_exists_def step_row_sample_def)
  have 1: "replace_summary_sources 1 3 2 [movement_sample] provenance_db = (?d, Inr ())"
    using ok by (simp add: replace_summary_sources_def insert_used_step_def made db run_simps prog_simps del: One_nat_def)
  have 2: "replace_summary_attachment_sources 1 3 2 [] ?d = (?d, Inr ())" "replace_summary_glossary_sources 1 3 2 [] ?d = (?d, Inr ())"
    by (simp_all add: replace_summary_attachment_sources_def replace_summary_glossary_sources_def db run_simps prog_simps del: One_nat_def)
  obtain ls where ls: "load_used_summary_sources 1 ?d = Inr ls"
    by (simp add: load_used_summary_sources_def used_movements_def db step_row_sample_def step_source_number_def obj_get_def del: One_nat_def)
  have "list_all (\<lambda>m. list_ex (\<lambda>s. s_id s = mu_step m \<and> s_process s = 3 \<and> s_version s = 2) (steps provenance_db)) [movement_sample]"
    "distinct (map s_id (steps provenance_db))"
    by (simp_all add: db movement_sample_def step_row_sample_def)
  from used_sources_read_back [OF 1 2 _ _ _ this(2,1) ls] obtain moves where
    m: "ls = map (\<lambda>(r, s, n). LoadedMovement r (s_title s) n) moves"
    "list_all2 (records_step 1) (map (\<lambda>(r, s, n). (r, s)) moves) [movement_sample]" by auto
  then obtain r s n where "moves = [(r, s, n)]" by (auto simp: list_all2_Cons2)
  with m 1 ls show ?thesis by auto
qed

end
