(* ===== verification/Related.thy ===== *)
theory Related
  imports Provenance Judit
begin

text \<open>
  \<open>app/related_processes.py\<close>: the movements of related processes a request of a tenant may be
  answered with. The codes come from the caller; a process that the tenant has not registered, that
  is under secrecy or that has no current version is left out without an error, so that the answer
  does not tell which processes exist.
\<close>

definition max_related_process_codes :: nat where "max_related_process_codes = 20"

definition related_recent_movements :: int where "related_recent_movements = 5"

record related_context =
  rx_process :: uuid
  rx_version :: uuid
  rx_code :: string
  rx_court :: json
  rx_class :: json
  rx_instance :: "string option"
  rx_movements :: "step list"

definition normalize_related_codes :: "string list \<Rightarrow> string list res" where
  "normalize_related_codes codes =
     (if max_related_process_codes < length codes
      then Inl (ValueError ''related process lookup accepts at most 20 codes'')
      else res_bind (map_res normalize_cnj codes) (\<lambda>cs. Inr (first_seen cs)))"

text \<open>\<open>array_position\<close>, from 0 here: only the order matters.\<close>

definition array_position :: "string list \<Rightarrow> string \<Rightarrow> nat" where
  "array_position cs c = length (takeWhile (\<lambda>x. x \<noteq> c) cs)"

definition header_instance :: "codec \<Rightarrow> process_row \<Rightarrow> string option" where
  "header_instance k p = (case obj_get (as_obj (p_header p)) ''instance'' of
     JStr s \<Rightarrow> Some s | JInt _ \<Rightarrow> member_text k (p_header p) ''instance'' | JFloat _ \<Rightarrow> member_text k (p_header p) ''instance''
   | _ \<Rightarrow> None)"

definition related_rows :: "uuid \<Rightarrow> uuid \<Rightarrow> string list \<Rightarrow> db \<Rightarrow> process_row list" where
  "related_rows tenant origin codes d = sort_key (\<lambda>p. array_position codes (p_code p))
     (filter (\<lambda>p. (tenant, p_id p) \<in> set (tenant_processes d) \<and> p_code p \<in> set codes \<and> p_id p \<noteq> origin \<and>
        p_current p \<noteq> None \<and> p_secrecy p = 0) (processes d))"

text \<open>\<open>steps[-n:]\<close> of a positive \<open>n\<close>.\<close>

definition last_steps :: "int \<Rightarrow> step list \<Rightarrow> step list" where
  "last_steps n ss = drop (length ss - nat n) ss"

definition related_context_of :: "codec \<Rightarrow> int \<Rightarrow> db \<Rightarrow> process_row \<Rightarrow> related_context res" where
  "related_context_of k keep d p = (let vid = the (p_current p) in
     res_bind (load_steps k vid d) (\<lambda>ss.
       Inr \<lparr>rx_process = p_id p, rx_version = vid, rx_code = p_code p, rx_court = p_court p, rx_class = p_class p,
         rx_instance = header_instance k p, rx_movements = last_steps keep ss\<rparr>))"

definition load_related_process_context ::
  "codec \<Rightarrow> uuid \<Rightarrow> uuid \<Rightarrow> string list \<Rightarrow> int \<Rightarrow> db \<Rightarrow> related_context list res" where
  "load_related_process_context k tenant origin codes keep d =
     (if keep \<le> 0 then Inl (ValueError ''recent_movements must be positive'')
      else res_bind (normalize_related_codes codes) (\<lambda>cs.
        if cs = [] then Inr []
        else if (tenant, origin) \<notin> set (tenant_processes d) then Inr []
        else map_res (related_context_of k keep d) (related_rows tenant origin cs d)))"

text \<open>What is recorded of them: no text of a movement.\<close>

record related_source =
  rl_kind :: string
  rl_code :: string
  rl_step :: "uuid option"
  rl_number :: "int option"
  rl_occurred :: "timestamp option"
  rl_order :: nat

definition context_sources :: "related_context \<Rightarrow> (string \<times> step option) list" where
  "context_sources c = (if rx_movements c = [] then [(rx_code c, None)]
     else map (\<lambda>s. (rx_code c, Some s)) (rx_movements c))"

definition related_source_of :: "nat \<times> string \<times> step option \<Rightarrow> related_source" where
  "related_source_of it = (case it of (i, code, s) \<Rightarrow> (case s of
     None \<Rightarrow> \<lparr>rl_kind = ''related_process'', rl_code = code, rl_step = None, rl_number = None, rl_occurred = None, rl_order = i\<rparr>
   | Some m \<Rightarrow> \<lparr>rl_kind = ''related_process_movement'', rl_code = code, rl_step = Some (st_id m),
       rl_number = Some (st_number m), rl_occurred = st_occurred m, rl_order = i\<rparr>))"

definition safe_related_provenance :: "related_context list \<Rightarrow> related_source list" where
  "safe_related_provenance cs = map related_source_of (enumerate 0 (concat (map context_sources cs)))"

subsection \<open>Facts\<close>

lemma list_all2_partner:
  assumes "list_all2 P xs ys" "y \<in> set ys"
  obtains x where "x \<in> set xs" "P x y"
  using assms by (metis in_set_conv_nth list_all2_conv_all_nth)

lemma related_row_facts:
  assumes "p \<in> set (related_rows tenant origin cs d)"
  shows "p \<in> set (processes d)" "(tenant, p_id p) \<in> set (tenant_processes d)" "p_code p \<in> set cs" "p_id p \<noteq> origin"
    "p_secrecy p = 0" "p_current p = Some (the (p_current p))"
  using assms by (auto simp: related_rows_def)

lemma related_context_facts:
  assumes "related_context_of k keep d p = Inr c"
  shows "rx_process c = p_id p" "rx_version c = the (p_current p)" "rx_code c = p_code p"
    "length (rx_movements c) \<le> nat keep" "sorted (map st_number (rx_movements c))"
    "st_id ` set (rx_movements c) \<subseteq> {s_id s | s. public_step k (rx_version c) d s}"
proof -
  from assms obtain ss where ss: "load_steps k (the (p_current p)) d = Inr ss"
    and c: "c = \<lparr>rx_process = p_id p, rx_version = the (p_current p), rx_code = p_code p, rx_court = p_court p,
      rx_class = p_class p, rx_instance = header_instance k p, rx_movements = last_steps keep ss\<rparr>"
    by (auto simp: related_context_of_def Let_def)
  from c show "rx_process c = p_id p" "rx_version c = the (p_current p)" "rx_code c = p_code p"
    "length (rx_movements c) \<le> nat keep" by (simp_all add: last_steps_def)
  from load_steps_public [OF ss] c show "sorted (map st_number (rx_movements c))"
    "st_id ` set (rx_movements c) \<subseteq> {s_id s | s. public_step k (rx_version c) d s}"
    by (auto simp: last_steps_def drop_map [symmetric] intro: sorted_wrt_drop dest!: in_set_dropD)
qed

lemma first_seen_set [simp]: "set (first_seen xs) = set xs"
  by (simp add: first_seen_def)

lemma normalized_codes:
  assumes "normalize_related_codes codes = Inr cs" "c \<in> set cs"
  shows "\<exists>code \<in> set codes. normalize_cnj code = Inr c"
proof -
  from assms obtain ds where ds: "map_res normalize_cnj codes = Inr ds" "c \<in> set ds"
    by (auto simp: normalize_related_codes_def split: if_splits)
  from map_res_sound [OF ds(1)] ds(2) show ?thesis by (induction rule: list_all2_induct) auto
qed

lemma map_filter_append: "List.map_filter f (xs @ ys) = List.map_filter f xs @ List.map_filter f ys"
  by (simp add: List.map_filter_def)

lemma related_source_simps [simp]:
  "rl_step (related_source_of (i, x)) = map_option st_id (snd x)" "rl_order (related_source_of (i, x)) = i"
  by (simp_all add: related_source_of_def split: prod.split option.split)

lemma numbered_sources: "List.map_filter rl_step (map related_source_of (enumerate n xs)) = List.map_filter (\<lambda>x. map_option st_id (snd x)) xs"
  by (induction xs arbitrary: n) (simp_all add: map_filter_simps split: option.split)

lemma context_steps: "List.map_filter (\<lambda>x. map_option st_id (snd x)) (context_sources c) = map st_id (rx_movements c)"
proof -
  have "List.map_filter (\<lambda>x. map_option st_id (snd x)) (map (\<lambda>s. (rx_code c, Some s)) ss) = map st_id ss" for ss
    by (induction ss) (simp_all add: map_filter_simps)
  from this [of "rx_movements c"] show ?thesis by (simp add: context_sources_def map_filter_simps)
qed

lemma recorded_steps: "List.map_filter rl_step (safe_related_provenance cs) = concat (map (map st_id \<circ> rx_movements) cs)"
  unfolding safe_related_provenance_def numbered_sources
  by (induction cs) (simp_all add: map_filter_append context_steps map_filter_simps)

lemma related_orders: "map rl_order (safe_related_provenance cs) = [0..<length (safe_related_provenance cs)]"
  by (rule nth_equalityI) (simp_all add: safe_related_provenance_def nth_enumerate_eq)

subsection \<open>Property\<close>

text \<open>C39: Related movements stay within the portfolio of the tenant. Whatever codes the caller names, every
  process in the answer is one of them, registered for the tenant like the process the request starts
  from, another process than that one and not under secrecy; its movements are public rows of its current
  version, in the order of their numbers and no more than asked for; and the recorded provenance names
  exactly the movements that were given, numbered in order.\<close>

theorem related_context_confined:
  assumes "load_related_process_context k tenant origin codes keep d = Inr cs"
  shows "(\<forall>c \<in> set cs. (tenant, origin) \<in> set (tenant_processes d) \<and> (tenant, rx_process c) \<in> set (tenant_processes d) \<and>
      rx_process c \<noteq> origin \<and> (\<exists>code \<in> set codes. normalize_cnj code = Inr (rx_code c)) \<and>
      (\<exists>p \<in> set (processes d). p_id p = rx_process c \<and> p_code p = rx_code c \<and> p_current p = Some (rx_version c) \<and> p_secrecy p = 0) \<and>
      int (length (rx_movements c)) \<le> keep \<and> sorted (map st_number (rx_movements c)) \<and>
      st_id ` set (rx_movements c) \<subseteq> {s_id s | s. public_step k (rx_version c) d s}) \<and>
    map rl_order (safe_related_provenance cs) = [0..<length (safe_related_provenance cs)] \<and>
    List.map_filter rl_step (safe_related_provenance cs) = concat (map (map st_id \<circ> rx_movements) cs)"
proof (intro conjI ballI)
  show "List.map_filter rl_step (safe_related_provenance cs) = concat (map (map st_id \<circ> rx_movements) cs)"
    by (rule recorded_steps)
  show "map rl_order (safe_related_provenance cs) = [0..<length (safe_related_provenance cs)]"
    by (rule related_orders)
next
  fix c assume c: "c \<in> set cs"
  with assms obtain ns where pos: "0 < keep" and ns: "normalize_related_codes codes = Inr ns"
    and origin: "(tenant, origin) \<in> set (tenant_processes d)"
    and found: "map_res (related_context_of k keep d) (related_rows tenant origin ns d) = Inr cs"
    by (auto simp: load_related_process_context_def split: if_splits)
  from map_res_sound [OF found] c obtain p where p: "p \<in> set (related_rows tenant origin ns d)" "related_context_of k keep d p = Inr c"
    by (rule list_all2_partner)
  note row = related_row_facts [OF p(1)] and facts = related_context_facts [OF p(2)]
  show "(tenant, origin) \<in> set (tenant_processes d)" by (rule origin)
  show "(tenant, rx_process c) \<in> set (tenant_processes d)" "rx_process c \<noteq> origin" using row facts(1) by simp_all
  show "\<exists>code \<in> set codes. normalize_cnj code = Inr (rx_code c)" using normalized_codes [OF ns] row(3) facts(3) by simp
  show "\<exists>p \<in> set (processes d). p_id p = rx_process c \<and> p_code p = rx_code c \<and> p_current p = Some (rx_version c) \<and> p_secrecy p = 0"
    using row facts by (intro bexI [of _ p]) simp_all
  show "int (length (rx_movements c)) \<le> keep" using facts(4) pos by linarith
  show "sorted (map st_number (rx_movements c))" "st_id ` set (rx_movements c) \<subseteq> {s_id s | s. public_step k (rx_version c) d s}"
    by (rule facts)+
qed

definition related_process :: process_row where
  "related_process = (new_process 3 0 ''0000000-00.0000.0.00.0000'')\<lparr>p_current := Some 2\<rparr>"

definition related_db :: db where
  "related_db = step_db\<lparr>processes := [related_process], tenant_processes := [(5, 9), (5, 3)]\<rparr>"

definition related_answer :: related_context where
  "related_answer = \<lparr>rx_process = 3, rx_version = 2, rx_code = ''0000000-00.0000.0.00.0000'', rx_court = p_court related_process,
     rx_class = p_class related_process, rx_instance = header_instance sample_codec related_process,
     rx_movements = [\<lparr>st_id = 7, st_number = 1, st_text = ''t'', st_title = None, st_occurred = None, st_source = None\<rparr>]\<rparr>"

lemma related_steps: "load_steps sample_codec 2 related_db = Inr (rx_movements related_answer)"
proof -
  have joined: "joined_steps 2 related_db = [(step_row_sample, related_process)]"
    by (simp add: joined_steps_def related_db_def step_db_def step_row_sample_def staged_version_def new_version_def new_process_def
        related_process_def)
  have "eligible_step sample_codec related_process step_row_sample = Inr True"
    by (simp add: eligible_step_def step_row_sample_def related_process_def new_process_def same_cnj_def same_instance_def
        step_private_def step_secrecy_def member_text_def has_member_def obj_get_def)
  then show ?thesis
    by (simp add: load_steps_def joined loaded_step_def source_number_def member_text_def obj_get_def step_row_sample_def
        related_answer_def)
qed

theorem related_context_confined_witness:
  "load_related_process_context sample_codec 5 9 [''00000000000000000000''] 5 related_db = Inr [related_answer] \<and>
   map rl_step (safe_related_provenance [related_answer]) = [Some 7] \<and> (5, rx_process related_answer) \<in> set (tenant_processes related_db)"
proof -
  have code: "normalize_cnj ''00000000000000000000'' = Inr ''0000000-00.0000.0.00.0000''" by code_simp
  have rows: "related_rows 5 9 [''0000000-00.0000.0.00.0000''] related_db = [related_process]"
    by (simp add: related_rows_def related_db_def related_process_def new_process_def)
  have "related_context_of sample_codec 5 related_db related_process = Inr related_answer"
    using related_steps
    by (simp add: related_context_of_def related_process_def new_process_def Let_def related_answer_def last_steps_def)
  then have load: "load_related_process_context sample_codec 5 9 [''00000000000000000000''] 5 related_db = Inr [related_answer]"
    by (simp add: load_related_process_context_def normalize_related_codes_def max_related_process_codes_def code first_seen_def rows)
      (simp add: related_db_def)
  from related_context_confined [OF this] have "(5, rx_process related_answer) \<in> set (tenant_processes related_db)" by simp
  with load show ?thesis
    by (simp add: safe_related_provenance_def context_sources_def related_answer_def related_source_of_def)
qed

end
