(* ===== verification/LegalText.thy ===== *)
theory LegalText
  imports PyRe SummaryOutput "HOL-Library.List_Lexorder"
begin

text \<open>
  The facts the service reads in Portuguese legal text, shared by \<open>app/claim_verification.py\<close> and
  \<open>app/validation.py\<close>: process numbers, dates, amounts of money (\<open>app/legal_facts.py\<close>), and the JSON text
  of a value. The rendering of a float is the parameter \<open>rp\<close>; the day in Sao Paulo of a time with an
  offset, which needs the time zone database, is the parameter \<open>day\<close>, None for the \<open>ValueError\<close>.
\<close>

subsection \<open>json.dumps\<close>

definition json_hex :: "nat \<Rightarrow> char" where
  "json_hex n = ''0123456789abcdef'' ! n"

definition json_char :: "char \<Rightarrow> string" where
  "json_char c = (if c = CHR 0x22 then [CHR 0x5C, CHR 0x22] else if c = CHR 0x5C then [CHR 0x5C, CHR 0x5C]
     else if ord c = 10 then [CHR 0x5C, CHR ''n''] else if ord c = 13 then [CHR 0x5C, CHR ''r'']
     else if ord c = 9 then [CHR 0x5C, CHR ''t''] else if ord c = 12 then [CHR 0x5C, CHR ''f'']
     else if ord c = 8 then [CHR 0x5C, CHR ''b'']
     else if ord c < 32 then CHR 0x5C # ''u00'' @ [json_hex (ord c div 16), json_hex (ord c mod 16)]
     else [c])"

definition json_string :: "string \<Rightarrow> string" where
  "json_string s = CHR 0x22 # concat (map json_char s) @ [CHR 0x22]"

fun json_number :: "(json \<Rightarrow> string) \<Rightarrow> pyfloat \<Rightarrow> string" where
  "json_number rp (Finite q) = rp (JFloat (Finite q))"
| "json_number rp PosInf = ''Infinity''"
| "json_number rp NegInf = ''-Infinity''"
| "json_number rp NaN = ''NaN''"

text \<open>With \<open>ensure_ascii=False\<close> and the default separators.\<close>

fun json_dumps :: "(json \<Rightarrow> string) \<Rightarrow> json \<Rightarrow> string" where
  "json_dumps rp JNull = ''null''"
| "json_dumps rp (JBool b) = (if b then ''true'' else ''false'')"
| "json_dumps rp (JInt i) = show_int i"
| "json_dumps rp (JFloat f) = json_number rp f"
| "json_dumps rp (JStr s) = json_string s"
| "json_dumps rp (JArr xs) = ''['' @ join '', '' (map (json_dumps rp) xs) @ '']''"
| "json_dumps rp (JObj kvs) =
     ''{'' @ join '', '' (map (\<lambda>(k, v). json_string k @ '': '' @ json_dumps rp v) kvs) @ ''}''"

text \<open>The order of \<open>sort_keys=True\<close>, at every level.\<close>

fun sorted_keys :: "json \<Rightarrow> json" where
  "sorted_keys (JArr xs) = JArr (map sorted_keys xs)"
| "sorted_keys (JObj kvs) = JObj (sort_key (\<lambda>kv. map ord (fst kv)) (map (\<lambda>(k, v). (k, sorted_keys v)) kvs))"
| "sorted_keys v = v"

subsection \<open>Amounts of money\<close>

text \<open>\<open>Decimal\<close> of a text of digits with an optional sign and point.\<close>

definition unsigned_decimal :: "string \<Rightarrow> rat" where
  "unsigned_decimal s = (case partition_char (CHR ''.'') s of (whole, _, part) \<Rightarrow>
     of_nat (digits_value 0 (whole @ part)) / 10 ^ length part)"

definition signed_decimal :: "string \<Rightarrow> rat" where
  "signed_decimal s = (case s of c # cs \<Rightarrow> (if c = CHR ''-'' then - unsigned_decimal cs else unsigned_decimal s) | [] \<Rightarrow> 0)"

text \<open>\<open>Decimal(str(f))\<close> of a float: its shortest decimal rendering, with an exponent at times.\<close>

definition float_decimal :: "(json \<Rightarrow> string) \<Rightarrow> pyfloat \<Rightarrow> pyfloat" where
  "float_decimal rp f = (case f of
     Finite _ \<Rightarrow> (case partition_char (CHR ''e'') (rp (JFloat f)) of (m, _, x) \<Rightarrow>
       (case py_int x of
          None \<Rightarrow> Finite (signed_decimal m)
        | Some e \<Rightarrow> Finite (if 0 \<le> e then signed_decimal m * 10 ^ nat e else signed_decimal m / 10 ^ nat (- e))))
   | _ \<Rightarrow> f)"

definition currency_re :: regex where
  "currency_re = RAlt (rlit_ci ''R$'') (rlit_ci ''BRL'')"

definition sign_re :: regex where
  "sign_re = ropt (rlit ''-'')"

definition grouped_amount_re :: regex where
  "grouped_amount_re = rseqs [sign_re, rrange 1 2 digit_re, rplus (RSeq (rlit ''.'') (rdigits 3)),
     ropt (RSeq (rlit '','') (rplus digit_re))]"

definition comma_amount_re :: regex where
  "comma_amount_re = rseqs [sign_re, rplus digit_re, rlit '','', rplus digit_re]"

definition plain_amount_re :: regex where
  "plain_amount_re = rseqs [sign_re, rplus digit_re, ropt (RSeq (rlit ''.'') (rplus digit_re))]"

definition without_currency :: "string \<Rightarrow> string" where
  "without_currency s = (case re_run (RSeq currency_re (RStar rspace)) ([], s, []) of
     [] \<Rightarrow> s | (_, rest, _) # _ \<Rightarrow> rest)"

definition point_for_comma :: "string \<Rightarrow> string" where
  "point_for_comma s = map (\<lambda>c. if c = CHR '','' then CHR ''.'' else c) s"

definition amount_text :: "string \<Rightarrow> rat option" where
  "amount_text s =
     (let t0 = map (\<lambda>c. if ord c = 160 then CHR '' '' else c) (strip s);
          t = filter (\<lambda>c. \<not> isspace_c c) (without_currency t0)
      in if t = [] then None
         else if re_fullmatch grouped_amount_re t then Some (signed_decimal (point_for_comma (filter (\<lambda>c. c \<noteq> CHR ''.'') t)))
         else if re_fullmatch comma_amount_re t then Some (signed_decimal (point_for_comma t))
         else if re_fullmatch plain_amount_re t then Some (signed_decimal t)
         else None)"

definition decimal_amount :: "(json \<Rightarrow> string) \<Rightarrow> json \<Rightarrow> pyfloat option" where
  "decimal_amount rp v = (case v of
     JNull \<Rightarrow> None
   | JBool _ \<Rightarrow> None
   | JInt i \<Rightarrow> Some (Finite (of_int i))
   | JFloat f \<Rightarrow> Some (float_decimal rp f)
   | _ \<Rightarrow> map_option Finite (amount_text (py_str rp v)))"

subsection \<open>Process numbers and dates\<close>

definition cnj_re :: regex where
  "cnj_re = rseqs [RBoundary, rdigits 7, ropt (rlit ''-''), rdigits 2, ropt (rlit ''.''), rdigits 4, ropt (rlit ''.''),
     digit_re, ropt (rlit ''.''), rdigits 2, ropt (rlit ''.''), rdigits 4, RBoundary]"

definition only_digits :: "string \<Rightarrow> string" where
  "only_digits s = filter isdigit_c s"

definition iso_month_re :: regex where
  "iso_month_re = RAlt (RSeq (rlit ''0'') (rin ''123456789'')) (RSeq (rlit ''1'') (rin ''012''))"

definition iso_day_re :: regex where
  "iso_day_re = ralts [RSeq (rlit ''0'') (rin ''123456789''), RSeq (rin ''12'') digit_re, RSeq (rlit ''3'') (rin ''01'')]"

definition local_day_re :: regex where
  "local_day_re = ralts [RSeq (ropt (rlit ''0'')) (rin ''123456789''), RSeq (rin ''12'') digit_re, RSeq (rlit ''3'') (rin ''01'')]"

definition local_month_re :: regex where
  "local_month_re = RAlt (RSeq (ropt (rlit ''0'')) (rin ''123456789'')) (RSeq (rlit ''1'') (rin ''012''))"

text \<open>The two sources differ in what may not follow a date.\<close>

definition date_re :: "(char \<Rightarrow> bool) \<Rightarrow> regex" where
  "date_re stop = rseqs [rnot_before isdecimal_c,
     RAlt (rseqs [rdigits 4, rlit ''-'', iso_month_re, rlit ''-'', iso_day_re])
          (rseqs [local_day_re, rlit ''/'', local_month_re, rlit ''/'', rdigits 4]),
     rnot_after stop]"

definition iso_datetime_re :: regex where
  "iso_datetime_re = rseqs [rnot_before isdecimal_c, rdigits 4, rlit ''-'', rdigits 2, rlit ''-'', rdigits 2, rlit ''T'',
     rdigits 2, rlit '':'', rdigits 2, rlit '':'', rdigits 2, ropt (RSeq (rlit ''.'') (rplus digit_re)),
     RAlt (rlit ''Z'') (rseqs [rin ''+-'', rdigits 2, rlit '':'', rdigits 2]), rnot_after isdecimal_c]"

definition leap_year :: "nat \<Rightarrow> bool" where
  "leap_year y \<longleftrightarrow> 4 dvd y \<and> (\<not> 100 dvd y \<or> 400 dvd y)"

definition days_in_month :: "nat \<Rightarrow> nat \<Rightarrow> nat" where
  "days_in_month y m = (if m = 2 then (if leap_year y then 29 else 28) else if m \<in> {4, 6, 9, 11} then 30 else 31)"

definition two_digits :: "nat \<Rightarrow> string" where
  "two_digits n = (if n < 10 then CHR ''0'' # show_nat n else show_nat n)"

definition four_digits :: "nat \<Rightarrow> string" where
  "four_digits n = replicate (4 - length (show_nat n)) (CHR ''0'') @ show_nat n"

definition calendar_day :: "string \<Rightarrow> string \<Rightarrow> string \<Rightarrow> string option" where
  "calendar_day y m d =
     (let yy = digits_value 0 y; mm = digits_value 0 m; dd = digits_value 0 d in
      if 1 \<le> yy \<and> 1 \<le> mm \<and> mm \<le> 12 \<and> 1 \<le> dd \<and> dd \<le> days_in_month yy mm
      then Some (four_digits yy @ ''-'' @ two_digits mm @ ''-'' @ two_digits dd) else None)"

text \<open>\<open>strptime\<close> with the two formats, on texts the date pattern matches.\<close>

definition canonical_date :: "string \<Rightarrow> string option" where
  "canonical_date s = (case split_char (CHR ''-'') s of
     [y, m, d] \<Rightarrow> calendar_day y m d
   | _ \<Rightarrow> (case split_char (CHR ''/'') s of [d, m, y] \<Rightarrow> calendar_day y m d | _ \<Rightarrow> None))"

definition with_offset :: "string \<Rightarrow> string" where
  "with_offset s = concat (map (\<lambda>c. if c = CHR ''Z'' then ''+00:00'' else [c]) s)"

definition literal_dates :: "(char \<Rightarrow> bool) \<Rightarrow> string \<Rightarrow> string set" where
  "literal_dates stop s = set (List.map_filter canonical_date (re_matches (date_re stop) s))"

definition zoned_dates :: "(string \<Rightarrow> string option) \<Rightarrow> string \<Rightarrow> string set" where
  "zoned_dates day s = set (List.map_filter (\<lambda>m. day (with_offset m)) (re_matches iso_datetime_re s))"

end
