(* ===== verification/Verification.thy ===== *)
theory Verification
  imports LegalText EvidenceStore "HOL-Library.AList"
begin

text \<open>
  \<open>app/claim_verification.py\<close>: every material claim of a summary is checked against the evidence it
  cites by the facts both contain (process numbers, dates, amounts, parties, movement counts) or by its
  exact text; what contradicts or misses its evidence is an error of the summary.
\<close>

subsection \<open>Parameters\<close>

text \<open>The rendering of floats and containers, the day in Sao Paulo of a time, and SHA-256 of a text.\<close>

record reader =
  rd_repr :: "json \<Rightarrow> string"
  rd_day :: "string \<Rightarrow> string option"
  rd_sha :: "string \<Rightarrow> string"

record verification_evidence =
  ve_ref :: string
  ve_kind :: source_kind
  ve_text :: string
  ve_cnjs :: "string set"
  ve_dates :: "string set"
  ve_amounts :: "pyfloat set"
  ve_parties :: "string set"
  ve_counts :: "int set"
  ve_exact :: "string set"
  ve_page_start :: "int option"
  ve_page_end :: "int option"
  ve_char_start :: "int option"
  ve_char_end :: "int option"

record claim_facts =
  cf_text :: string
  cf_cnjs :: "string set"
  cf_dates :: "string set"
  cf_amounts :: "pyfloat set"
  cf_labeled :: "pyfloat set"
  cf_parties :: "string set"
  cf_counts :: "int set"

definition fact_count :: "claim_facts \<Rightarrow> nat" where
  "fact_count f = card (cf_cnjs f) + card (cf_dates f) + card (cf_amounts f) + card (cf_parties f) + card (cf_counts f)"

subsection \<open>Normal forms of text\<close>

definition normalized_text :: "(json \<Rightarrow> string) \<Rightarrow> json \<Rightarrow> string" where
  "normalized_text rp v = strip (collapse_ws False (casefold (nfkc (text_or_empty rp v))))"

definition normalized_exact_text :: "(json \<Rightarrow> string) \<Rightarrow> json \<Rightarrow> string" where
  "normalized_exact_text rp v = rstrip_by (\<lambda>c. c \<in> set '' .;:!?'') (normalized_text rp v)"

definition sentence_split_re :: regex where
  "sentence_split_re = RAlt (RSeq (RLook (\<lambda>b _. b \<noteq> [] \<and> hd b \<in> set ''.!?;'')) (rplus rspace)) (rplus (rlit [newline]))"

definition exact_text_segments :: "(json \<Rightarrow> string) \<Rightarrow> json \<Rightarrow> string set" where
  "exact_text_segments rp v = (let t = strip (text_or_empty rp v) in
     if t = [] then {}
     else set (filter (\<lambda>s. s \<noteq> []) (map (\<lambda>part. normalized_exact_text rp (JStr part)) (re_split sentence_split_re [] [] t))))"

fun scalar_text_values :: "(json \<Rightarrow> string) \<Rightarrow> json \<Rightarrow> string list" where
  "scalar_text_values rp (JObj kvs) = concat (map (\<lambda>(k, v). scalar_text_values rp v) kvs)"
| "scalar_text_values rp (JArr xs) = concat (map (scalar_text_values rp) xs)"
| "scalar_text_values rp JNull = []"
| "scalar_text_values rp (JBool b) = []"
| "scalar_text_values rp v = [py_str rp v]"

subsection \<open>The facts of a text\<close>

definition cnjs_in :: "string \<Rightarrow> string set" where
  "cnjs_in s = set (map only_digits (re_matches cnj_re s))"

definition dates_in :: "(string \<Rightarrow> string option) \<Rightarrow> string \<Rightarrow> string set" where
  "dates_in day s = literal_dates (\<lambda>c. c = CHR ''T'' \<or> isdecimal_c c) s \<union> zoned_dates day s"

definition amount_re :: regex where
  "amount_re = rseqs [rnot_before word_char, currency_re, RStar rspace, sign_re, digit_re,
     ropt (RSeq (RStar (ralts [digit_re, rlit ''.'', rspace])) digit_re), ropt (RSeq (rlit '','') (rplus digit_re)),
     rnot_after word_char]"

definition e_acute :: char where "e_acute = CHR 0xE9"

definition labeled_amount_re :: regex where
  "labeled_amount_re = rseqs [RBoundary, rlit_ci ''valor'',
     ropt (rseqs [rplus rspace, rlit_ci ''da'', rplus rspace, rlit_ci ''causa'']), RStar rspace,
     ropt (ralts [rlit '':'', RSeq (rlit_ci [e_acute]) (ropt (RSeq (rplus rspace) (rlit_ci ''de''))), rlit_ci ''de'']), RStar rspace,
     ropt (RSeq currency_re (RStar rspace)),
     RGroup 1 (RAlt
       (rseqs [sign_re, rrange 1 2 digit_re, RStar (RSeq (rlit ''.'') (rdigits 3)), ropt (RSeq (rlit '','') (rplus digit_re))])
       (rseqs [sign_re, rplus digit_re, ropt (RSeq (rin ''.,'') (rplus digit_re))]))]"

definition amounts_of :: "string list \<Rightarrow> pyfloat set" where
  "amounts_of ts = Finite ` set (List.map_filter amount_text ts)"

definition labeled_amounts_in :: "string \<Rightarrow> pyfloat set" where
  "labeled_amounts_in s = amounts_of (re_groups labeled_amount_re 1 s)"

definition amounts_in :: "string \<Rightarrow> pyfloat set" where
  "amounts_in s = amounts_of (re_matches amount_re s @ re_groups labeled_amount_re 1 s)"

definition step_count_re :: regex where
  "step_count_re = rseqs [RBoundary,
     ralts [rseqs [rlit_ci ''o'', rplus rspace, rlit_ci ''processo'', rplus rspace, rlit_ci ''possui''],
            rlit_ci [CHR ''h'', a_acute], RSeq (rlit_ci ''total'') (ropt (rlit_ci ''iza''))],
     rplus rspace, RGroup 1 (rplus digit_re), rplus rspace, rlit_ci ''movimentos'', RBoundary]"

definition step_counts_in :: "string \<Rightarrow> int set" where
  "step_counts_in s = set (map (\<lambda>t. int (digits_value 0 t)) (re_groups step_count_re 1 s))"

definition known_party_names :: "(json \<Rightarrow> string) \<Rightarrow> (string \<times> json) list \<Rightarrow> string list" where
  "known_party_names rp ctx = filter (\<lambda>n. n \<noteq> []) (map (\<lambda>p. normalized_text rp (obj_get (as_obj p) ''name''))
     (filter is_obj (as_arr (obj_get ctx ''parties''))))"

definition party_name_re :: "string \<Rightarrow> regex" where
  "party_name_re name = rseqs [rnot_before word_char, rlit name, rnot_after word_char]"

definition party_names_in :: "(json \<Rightarrow> string) \<Rightarrow> string list \<Rightarrow> string \<Rightarrow> string set" where
  "party_names_in rp known s = (let t = normalized_text rp (JStr s) in
     if t = [] then {} else set (filter (\<lambda>name. re_search (party_name_re name) t) known))"

definition claim_facts_of :: "reader \<Rightarrow> string list \<Rightarrow> string \<Rightarrow> claim_facts" where
  "claim_facts_of k known t = \<lparr>cf_text = normalized_exact_text (rd_repr k) (JStr t), cf_cnjs = cnjs_in t,
     cf_dates = dates_in (rd_day k) t, cf_amounts = amounts_in t, cf_labeled = labeled_amounts_in t,
     cf_parties = party_names_in (rd_repr k) known t, cf_counts = step_counts_in t\<rparr>"

subsection \<open>The evidence\<close>

fun optional_int :: "json \<Rightarrow> int option" where
  "optional_int (JInt i) = Some i"
| "optional_int (JBool b) = Some (if b then 1 else 0)"
| "optional_int (JStr s) = py_int s"
| "optional_int (JFloat (Finite q)) = Some (if 0 \<le> q then \<lfloor>q\<rfloor> else \<lceil>q\<rceil>)"
| "optional_int _ = None"

definition evidence_of ::
  "reader \<Rightarrow> string list \<Rightarrow> string \<Rightarrow> source_kind \<Rightarrow> string \<Rightarrow> pyfloat set \<Rightarrow> int set \<Rightarrow> json list \<Rightarrow> verification_evidence" where
  "evidence_of k known ref kind t amounts counts exact =
     \<lparr>ve_ref = ref, ve_kind = kind, ve_text = t, ve_cnjs = cnjs_in t, ve_dates = dates_in (rd_day k) t,
      ve_amounts = amounts, ve_parties = party_names_in (rd_repr k) known t, ve_counts = counts,
      ve_exact = (\<Union>v \<in> set exact. exact_text_segments (rd_repr k) v),
      ve_page_start = None, ve_page_end = None, ve_char_start = None, ve_char_end = None\<rparr>"

definition canonical_json :: "(json \<Rightarrow> string) \<Rightarrow> (string \<times> json) list \<Rightarrow> string" where
  "canonical_json rp kvs = json_dumps rp (sorted_keys (JObj kvs))"

definition list_or_empty :: "json \<Rightarrow> json" where
  "list_or_empty v = JArr (as_arr v)"

definition process_payload :: "(string \<times> json) list \<Rightarrow> (string \<times> json) list" where
  "process_payload ctx =
     [(''code'', obj_get ctx ''code''), (''court'', obj_get ctx ''court''), (''class_name'', obj_get ctx ''class_name''),
      (''subjects'', list_or_empty (obj_get ctx ''subjects'')), (''parties'', list_or_empty (obj_get ctx ''parties'')),
      (''representatives'', list_or_empty (obj_get ctx ''representatives'')),
      (''secrecy_level'', obj_get ctx ''secrecy_level''), (''header'', JObj (as_obj (obj_get ctx ''header''))),
      (''step_count'', obj_get ctx ''step_count''), (''source_warnings'', list_or_empty (obj_get ctx ''source_warnings''))]"

definition stated_step_count :: "json \<Rightarrow> int set" where
  "stated_step_count v = (case v of JInt i \<Rightarrow> (if 0 \<le> i then {i} else {}) | _ \<Rightarrow> {})"

definition process_evidence :: "reader \<Rightarrow> string list \<Rightarrow> (string \<times> json) list \<Rightarrow> string \<Rightarrow> verification_evidence" where
  "process_evidence k known ctx ref = (let payload = process_payload ctx in
     evidence_of k known ref ProcessSource (canonical_json (rd_repr k) payload)
       (set_option (decimal_amount (rd_repr k) (obj_get (as_obj (obj_get payload ''header'')) ''amount'')))
       (stated_step_count (obj_get ctx ''step_count''))
       (map JStr (scalar_text_values (rd_repr k) (JObj payload))))"

definition movement_evidence :: "reader \<Rightarrow> string list \<Rightarrow> (string \<times> json) list \<Rightarrow> string \<Rightarrow> verification_evidence" where
  "movement_evidence k known step ref =
     (let t = canonical_json (rd_repr k) (map (\<lambda>key. (key, obj_get step key)) [''step_number'', ''occurred_at'', ''title'', ''text''])
      in evidence_of k known ref MovementSource t (amounts_in t) (step_counts_in t)
           [obj_get step ''title'', obj_get step ''text''])"

definition attachment_evidence :: "reader \<Rightarrow> string list \<Rightarrow> (string \<times> json) list \<Rightarrow> string \<Rightarrow> verification_evidence" where
  "attachment_evidence k known chunk ref =
     (let t = text_or_empty (rd_repr k) (obj_get chunk ''text'') in
      (evidence_of k known ref AttachmentSource t (amounts_in t) (step_counts_in t) [obj_get chunk ''text''])
        \<lparr>ve_page_start := optional_int (obj_get chunk ''page_start''), ve_page_end := optional_int (obj_get chunk ''page_end''),
         ve_char_start := optional_int (obj_get chunk ''char_start''), ve_char_end := optional_int (obj_get chunk ''char_end'')\<rparr>)"

definition add_evidence ::
  "reader \<Rightarrow> ((string \<times> json) list \<Rightarrow> string \<Rightarrow> verification_evidence) \<Rightarrow> json \<Rightarrow>
     (string \<times> verification_evidence) list \<Rightarrow> (string \<times> verification_evidence) list" where
  "add_evidence k mk v catalog = (let ref = text_or_empty (rd_repr k) (obj_get (as_obj v) ''evidence_ref'') in
     if is_obj v \<and> evidence_ref_ok ref then AList.update ref (mk (as_obj v) ref) catalog else catalog)"

definition verification_evidence_catalog ::
  "reader \<Rightarrow> (string \<times> json) list \<Rightarrow> (string \<times> verification_evidence) list" where
  "verification_evidence_catalog k ctx =
     (let known = known_party_names (rd_repr k) ctx;
          process_ref = text_or_empty (rd_repr k) (obj_get ctx ''_process_evidence_ref'');
          c0 = (if evidence_ref_ok process_ref then [(process_ref, process_evidence k known ctx process_ref)] else [])
      in fold (add_evidence k (attachment_evidence k known)) (as_arr (obj_get ctx ''attachments''))
           (fold (add_evidence k (movement_evidence k known)) (as_arr (obj_get ctx ''steps'')) c0))"

subsection \<open>One claim against one source\<close>

definition supported :: string where "supported = ''supported''"
definition contradicted :: string where "contradicted = ''contradicted''"
definition insufficient :: string where "insufficient = ''insufficient''"
definition not_evaluated :: string where "not_evaluated = ''not_evaluated''"

definition relation_status :: "claim_facts \<Rightarrow> verification_evidence \<Rightarrow> string \<times> string" where
  "relation_status f e =
     (if cf_text f \<noteq> [] \<and> cf_text f \<in> ve_exact e then (supported, ''exact_text_present'')
      else if fact_count f = 0 then (not_evaluated, ''no_deterministic_fact_anchor'')
      else if \<not> cf_cnjs f \<subseteq> ve_cnjs e then (insufficient, ''cited_source_missing_cnj'')
      else if \<not> cf_amounts f \<subseteq> ve_amounts e then
        (if ve_kind e = ProcessSource \<and> ve_amounts e \<noteq> {} \<and> cf_labeled f \<noteq> {} \<and> \<not> cf_labeled f \<subseteq> ve_amounts e
         then (contradicted, ''process_amount_mismatch'') else (insufficient, ''cited_source_missing_amount''))
      else if \<not> cf_dates f \<subseteq> ve_dates e then (insufficient, ''cited_source_missing_date'')
      else if \<not> cf_parties f \<subseteq> ve_parties e then (insufficient, ''cited_source_missing_party'')
      else if \<not> cf_counts f \<subseteq> ve_counts e then
        (if ve_kind e = ProcessSource \<and> ve_counts e \<noteq> {} then (contradicted, ''process_step_count_mismatch'')
         else (insufficient, ''cited_source_missing_step_count''))
      else (supported, ''deterministic_facts_present''))"

definition max_excerpt_chars :: nat where "max_excerpt_chars = 4000"

definition excerpt :: "reader \<Rightarrow> string \<Rightarrow> string option \<times> string option" where
  "excerpt k t = (if t = [] then (None, None)
     else (Some (take max_excerpt_chars t), Some (rd_sha k (take max_excerpt_chars t))))"

definition verify_relation ::
  "reader \<Rightarrow> (string \<times> verification_evidence) list \<Rightarrow> claim_facts \<Rightarrow> string \<Rightarrow> relation_verification" where
  "verify_relation k catalog f ref = (case map_of catalog ref of
     None \<Rightarrow> \<lparr>rv_ref = ref, rv_status = insufficient, rv_reason = ''verification_source_unavailable'', rv_excerpt = None,
        rv_sha256 = None, rv_page_start = None, rv_page_end = None, rv_char_start = None, rv_char_end = None\<rparr>
   | Some e \<Rightarrow> \<lparr>rv_ref = ref, rv_status = fst (relation_status f e), rv_reason = snd (relation_status f e),
        rv_excerpt = fst (excerpt k (ve_text e)), rv_sha256 = snd (excerpt k (ve_text e)), rv_page_start = ve_page_start e,
        rv_page_end = ve_page_end e, rv_char_start = ve_char_start e, rv_char_end = ve_char_end e\<rparr>)"

subsection \<open>One claim against all it cites\<close>

definition cited_evidence :: "(string \<times> verification_evidence) list \<Rightarrow> string list \<Rightarrow> verification_evidence list" where
  "cited_evidence catalog refs = List.map_filter (map_of catalog) refs"

definition combined :: "(verification_evidence \<Rightarrow> 'a set) \<Rightarrow> verification_evidence list \<Rightarrow> 'a set" where
  "combined g es = (\<Union>e \<in> set es. g e)"

definition facts_covered :: "claim_facts \<Rightarrow> verification_evidence list \<Rightarrow> bool" where
  "facts_covered f es \<longleftrightarrow> cf_cnjs f \<subseteq> combined ve_cnjs es \<and> cf_dates f \<subseteq> combined ve_dates es \<and>
     cf_amounts f \<subseteq> combined ve_amounts es \<and> cf_parties f \<subseteq> combined ve_parties es \<and>
     cf_counts f \<subseteq> combined ve_counts es"

definition exact_support :: "claim_facts \<Rightarrow> verification_evidence list \<Rightarrow> bool" where
  "exact_support f es \<longleftrightarrow> list_ex (\<lambda>e. cf_text f \<noteq> [] \<and> cf_text f \<in> ve_exact e) es"

definition claim_status :: "claim_facts \<Rightarrow> verification_evidence list \<Rightarrow> string list \<Rightarrow> string \<times> string" where
  "claim_status f es statuses =
     (let process = filter (\<lambda>e. ve_kind e = ProcessSource) es in
      if contradicted \<in> set statuses then (contradicted, ''at_least_one_cited_source_contradicts_deterministic_fact'')
      else if exact_support f es then (supported, ''exact_text_present_in_cited_source'')
      else if fact_count f = 0 then (not_evaluated, ''no_deterministic_fact_anchor'')
      else if cf_labeled f \<noteq> {} \<and> \<not> cf_labeled f \<subseteq> combined ve_amounts es \<and> combined ve_amounts process \<noteq> {}
      then (contradicted, ''process_amount_mismatch'')
      else if cf_counts f \<noteq> {} \<and> \<not> cf_counts f \<subseteq> combined ve_counts es \<and> combined ve_counts process \<noteq> {}
      then (contradicted, ''process_step_count_mismatch'')
      else if facts_covered f es then (supported, ''deterministic_facts_present_across_cited_sources'')
      else (insufficient, ''cited_sources_do_not_support_all_deterministic_facts''))"

definition verify_claim ::
  "reader \<Rightarrow> (string \<times> verification_evidence) list \<Rightarrow> string list \<Rightarrow> material_claim \<Rightarrow> claim_verification" where
  "verify_claim k catalog known c =
     (let f = claim_facts_of k known (mc_text c);
          relations = map (verify_relation k catalog f) (mc_refs c);
          verdict = claim_status f (cited_evidence catalog (mc_refs c)) (map rv_status relations)
      in \<lparr>cv_id = mc_id c, cv_class = mc_class c, cv_status = fst verdict, cv_reason = snd verdict,
          cv_fact_count = fact_count f, cv_relations = relations\<rparr>)"

definition verify_material_claims ::
  "reader \<Rightarrow> material_claim list \<Rightarrow> (string \<times> json) list \<Rightarrow> (string \<times> claim_verification) list" where
  "verify_material_claims k claims ctx =
     (let catalog = verification_evidence_catalog k ctx; known = known_party_names (rd_repr k) ctx in
      fold (\<lambda>c. AList.update (mc_id c) (verify_claim k catalog known c)) claims [])"

definition intrinsically_material :: "string list" where
  "intrinsically_material = [''procedural_event'', ''decision'', ''deadline'', ''related_process'', ''attachment'']"

definition verification_error :: "string \<times> claim_verification \<Rightarrow> string list" where
  "verification_error r = (case r of (cid, v) \<Rightarrow>
     if cv_status v = contradicted then [''claim contradicted by cited evidence: '' @ cid]
     else if cv_status v = insufficient \<and> 0 < cv_fact_count v then [''claim has insufficient cited evidence: '' @ cid]
     else if cv_status v = not_evaluated \<and> cv_class v \<in> set intrinsically_material
     then [''material claim was not evaluated: '' @ cid] else [])"

definition verification_errors :: "(string \<times> claim_verification) list \<Rightarrow> string list" where
  "verification_errors results = concat (map verification_error results)"

subsection \<open>Facts about the verification\<close>

lemma finite_claim_facts:
  "finite (cf_cnjs (claim_facts_of k known t))" "finite (cf_dates (claim_facts_of k known t))"
  "finite (cf_amounts (claim_facts_of k known t))" "finite (cf_parties (claim_facts_of k known t))"
  "finite (cf_counts (claim_facts_of k known t))"
  by (simp_all add: claim_facts_of_def cnjs_in_def dates_in_def literal_dates_def zoned_dates_def amounts_in_def
      amounts_of_def party_names_in_def step_counts_in_def Let_def)

lemma no_facts_covered: "fact_count (claim_facts_of k known t) = 0 \<Longrightarrow> facts_covered (claim_facts_of k known t) es"
  by (simp add: fact_count_def facts_covered_def finite_claim_facts)

lemma fold_update_other:
  "x \<notin> key ` set cs \<Longrightarrow> map_of (fold (\<lambda>c. AList.update (key c) (g c)) cs al) x = map_of al x"
  by (induction cs arbitrary: al) (auto simp: update_conv)

lemma fold_update_own:
  "distinct (map key cs) \<Longrightarrow> c \<in> set cs \<Longrightarrow>
     map_of (fold (\<lambda>c. AList.update (key c) (g c)) cs al) (key c) = Some (g c)"
  by (induction cs arbitrary: al) (auto simp: fold_update_other update_conv)

lemma verified_claim:
  assumes "distinct (map mc_id claims)" "c \<in> set claims"
  shows "map_of (verify_material_claims k claims ctx) (mc_id c) =
    Some (verify_claim k (verification_evidence_catalog k ctx) (known_party_names (rd_repr k) ctx) c)"
  using fold_update_own [OF assms] by (simp add: verify_material_claims_def Let_def)

lemmas status_defs = supported_def contradicted_def insufficient_def not_evaluated_def

lemma claim_status_cases:
  assumes "claim_status f es statuses = (st, why)" "st \<noteq> contradicted"
  shows "contradicted \<notin> set statuses \<and>
    (st = supported \<and> (exact_support f es \<or> facts_covered f es) \<or>
     st = not_evaluated \<and> fact_count f = 0 \<or>
     st = insufficient \<and> 0 < fact_count f)"
  using assms by (auto simp: claim_status_def Let_def status_defs split: if_splits)

lemma no_error_for:
  assumes "verification_errors (verify_material_claims k claims ctx) = []" "distinct (map mc_id claims)" "c \<in> set claims"
  shows "verification_error (mc_id c,
    verify_claim k (verification_evidence_catalog k ctx) (known_party_names (rd_repr k) ctx) c) = []"
  using map_of_SomeD [OF verified_claim [OF assms(2,3), of k ctx]] assms(1) by (auto simp: verification_errors_def)

text \<open>The statuses that pass.\<close>

definition status_passes :: "claim_verification \<Rightarrow> bool" where
  "status_passes v \<longleftrightarrow> (cv_status v = supported \<or> cv_status v = not_evaluated) \<and>
     list_all (\<lambda>r. rv_status r \<noteq> contradicted) (cv_relations v)"

lemma verified_status:
  assumes "verification_error (mc_id c, verify_claim k catalog known c) = []"
  shows "status_passes (verify_claim k catalog known c)"
proof -
  let ?f = "claim_facts_of k known (mc_text c)"
  let ?rs = "map (verify_relation k catalog ?f) (mc_refs c)"
  obtain st why where st: "claim_status ?f (cited_evidence catalog (mc_refs c)) (map rv_status ?rs) = (st, why)"
    by fastforce
  with assms have "st \<noteq> contradicted" "st = insufficient \<longrightarrow> fact_count ?f = 0"
    by (auto simp: verification_error_def verify_claim_def Let_def status_defs split: if_splits)
  with claim_status_cases [OF st] st show ?thesis
    by (force simp: status_passes_def verify_claim_def Let_def list_all_iff)
qed

subsection \<open>Properties\<close>

definition grounded :: "claim_facts \<Rightarrow> verification_evidence list \<Rightarrow> bool" where
  "grounded f es \<longleftrightarrow> exact_support f es \<or> facts_covered f es"

text \<open>C25: Verified claims are grounded in what they cite. When the verification of the claims of a summary
  reports no error, then for every claim either its exact text is a sentence of a source it cites, or
  every process number, date, amount, party and movement count it states is stated by the sources it
  cites; no source it cites contradicts it; and a claim that states none of these facts is of a class
  that need not be evaluated, unless its exact text is cited.\<close>

theorem verified_claims_are_grounded:
  assumes "verification_errors (verify_material_claims k claims ctx) = []" "distinct (map mc_id claims)" "c \<in> set claims"
    and "f = claim_facts_of k (known_party_names (rd_repr k) ctx) (mc_text c)"
    and "es = cited_evidence (verification_evidence_catalog k ctx) (mc_refs c)"
  shows "grounded f es \<and> list_all (\<lambda>e. fst (relation_status f e) \<noteq> contradicted) es \<and>
    (fact_count f = 0 \<longrightarrow> exact_support f es \<or> mc_class c \<notin> set intrinsically_material)"
proof -
  let ?catalog = "verification_evidence_catalog k ctx"
  let ?v = "verify_claim k ?catalog (known_party_names (rd_repr k) ctx) c"
  have err: "verification_error (mc_id c, ?v) = []" by (rule no_error_for [OF assms(1-3)])
  obtain st why where st: "claim_status f es (map rv_status (cv_relations ?v)) = (st, why)" by fastforce
  have v: "cv_status ?v = st" "cv_class ?v = mc_class c" using st assms(4,5) by (simp_all add: verify_claim_def Let_def)
  have pass: "st = supported \<or> st = not_evaluated" "list_all (\<lambda>r. rv_status r \<noteq> contradicted) (cv_relations ?v)"
    using verified_status [OF err] v by (simp_all add: status_passes_def)
  then have no: "st \<noteq> contradicted" by (auto simp: status_defs)
  have "grounded f es"
    using claim_status_cases [OF st no] pass(1) no_facts_covered [of k "known_party_names (rd_repr k) ctx" "mc_text c" es] assms(4)
    by (auto simp: grounded_def status_defs)
  moreover have "list_all (\<lambda>e. fst (relation_status f e) \<noteq> contradicted) es"
    using pass(2) assms(4,5)
    by (fastforce simp: list_all_iff verify_claim_def verify_relation_def Let_def cited_evidence_def List.map_filter_def
        split: option.splits)
  moreover have "exact_support f es \<or> mc_class c \<notin> set intrinsically_material" if "fact_count f = 0"
  proof (cases "exact_support f es")
    case False
    with that st no have "st = not_evaluated" by (auto simp: claim_status_def Let_def status_defs split: if_splits)
    with err v show ?thesis by (auto simp: verification_error_def status_defs split: if_splits)
  qed simp
  ultimately show ?thesis by blast
qed

text \<open>A claim that repeats the text of an attachment.\<close>

definition sample_reader :: reader where
  "sample_reader = \<lparr>rd_repr = no_repr, rd_day = (\<lambda>_. None), rd_sha = (\<lambda>_. replicate 64 (CHR ''0''))\<rparr>"

definition verified_claim_sample :: material_claim where
  "verified_claim_sample = \<lparr>mc_id = ''attachments:0'', mc_class = ''attachment'', mc_text = ''a.'', mc_refs = [attachment_evidence_ref 7]\<rparr>"

definition verified_context_sample :: "(string \<times> json) list" where
  "verified_context_sample = [(''attachments'',
     JArr [JObj [(''evidence_ref'', JStr (attachment_evidence_ref 7)), (''text'', JStr ''A'')]])]"

lemma evidence_ref_empty: "\<not> evidence_ref_ok []"
  by (simp add: evidence_ref_ok_def)

lemma sample_catalog:
  "\<exists>e. verification_evidence_catalog sample_reader verified_context_sample = [(attachment_evidence_ref 7, e)] \<and> ''a'' \<in> ve_exact e"
proof -
  have ref: "evidence_ref_ok (attachment_evidence_ref 7)" by code_simp
  have ne: "attachment_evidence_ref 7 \<noteq> []" by (simp add: attachment_evidence_ref_def)
  have "exact_text_segments no_repr (JStr ''A'') = {''a''}" by code_simp
  then show ?thesis
    by (simp add: verification_evidence_catalog_def verified_context_sample_def obj_get_def add_evidence_def Let_def
        text_or_empty_def py_or_def ref ne attachment_evidence_def evidence_of_def sample_reader_def evidence_ref_empty)
qed

theorem verified_claims_are_grounded_witness:
  "grounded (claim_facts_of sample_reader [] ''a.'')
     (cited_evidence (verification_evidence_catalog sample_reader verified_context_sample) [attachment_evidence_ref 7])"
proof -
  obtain e where e: "verification_evidence_catalog sample_reader verified_context_sample = [(attachment_evidence_ref 7, e)]"
    "''a'' \<in> ve_exact e" using sample_catalog by blast
  have known: "known_party_names (rd_repr sample_reader) verified_context_sample = []"
    by (simp add: known_party_names_def verified_context_sample_def obj_get_def)
  have "normalized_exact_text no_repr (JStr ''a.'') = ''a''" by code_simp
  then have "cf_text (claim_facts_of sample_reader [] ''a.'') = ''a''" by (simp add: claim_facts_of_def sample_reader_def)
  then have "verification_errors (verify_material_claims sample_reader [verified_claim_sample] verified_context_sample) = []"
    using e(2)
    by (simp add: verify_material_claims_def known e(1) Let_def verification_errors_def verification_error_def verify_claim_def
        verified_claim_sample_def verify_relation_def relation_status_def claim_status_def cited_evidence_def
        List.map_filter_def exact_support_def status_defs)
  from verified_claims_are_grounded [OF this, of verified_claim_sample] show ?thesis
    by (simp add: verified_claim_sample_def known)
qed

end
