(* ===== verification/AttachmentContext.thy ===== *)
theory AttachmentContext
  imports Verification Provenance Attachments
begin

text \<open>
  \<open>app/attachment_context.py\<close> and \<open>app/attachment_signals.py\<close>: which text of the attachments a summary
  may be written from. The chunks that answer a query made of the process are read under the access of
  the tenant, cut so that together they keep to a limit, and given with references to their sources;
  attachments that are pending or unreadable become warnings. \<open>env\<close> is the environment.
\<close>

subsection \<open>Limits\<close>

definition positive_env_int :: "(string \<Rightarrow> string option) \<Rightarrow> string \<Rightarrow> int \<Rightarrow> int res" where
  "positive_env_int env name least = (case env name of
     None \<Rightarrow> Inr least
   | Some raw \<Rightarrow> (case py_int raw of
       None \<Rightarrow> Inl (RuntimeError (name @ '' must be an integer''))
     | Some n \<Rightarrow> (if n \<le> 0 then Inl (RuntimeError (name @ '' must be greater than zero'')) else Inr n)))"

definition attachment_context_limits :: "(string \<Rightarrow> string option) \<Rightarrow> (int \<times> int) res" where
  "attachment_context_limits env =
     res_bind (positive_env_int env ''ATTACHMENT_RETRIEVAL_LIMIT'' 12) (\<lambda>n.
     res_bind (positive_env_int env ''PROVIDER_ATTACHMENT_TEXT_MAX_CHARS'' 20000) (\<lambda>m. Inr (n, m)))"

subsection \<open>The query\<close>

definition field_text :: "(json \<Rightarrow> string) \<Rightarrow> (string \<times> json) list \<Rightarrow> string \<Rightarrow> string" where
  "field_text rp kvs name = strip (text_or_empty rp (obj_get kvs name))"

definition query_values :: "(json \<Rightarrow> string) \<Rightarrow> (string \<times> json) list \<Rightarrow> string \<Rightarrow> string list" where
  "query_values rp ctx base = base # filter (\<lambda>s. s \<noteq> [])
     (field_text rp ctx ''class_name'' #
      concat (map (\<lambda>s. [field_text rp (as_obj s) ''name'', field_text rp (as_obj s) ''code''])
        (filter is_obj (as_arr (obj_get ctx ''subjects'')))))"

fun new_terms :: "string list \<Rightarrow> string list \<Rightarrow> string list" where
  "new_terms seen [] = []"
| "new_terms seen (t # ts) = (if casefold t \<in> set seen then new_terms seen ts
     else t # new_terms (casefold t # seen) ts)"

definition attachment_retrieval_query :: "(json \<Rightarrow> string) \<Rightarrow> (string \<times> json) list \<Rightarrow> string \<Rightarrow> string" where
  "attachment_retrieval_query rp ctx base =
     join '' OR '' (new_terms [] (concat (map (re_matches (rplus (RChar word_char))) (query_values rp ctx base))))"

subsection \<open>Cutting texts\<close>

definition truncation_marker :: string where
  "truncation_marker = CHR 0x81 # '' [truncated]''"

definition truncate_text :: "string \<Rightarrow> nat \<Rightarrow> string" where
  "truncate_text t limit =
     (if length t \<le> limit then t
      else if limit \<le> length truncation_marker then take limit t
      else take (limit - length truncation_marker) t @ truncation_marker)"

text \<open>Each text in turn gets an equal share of what the earlier ones left.\<close>

fun share_limit :: "nat \<Rightarrow> string list \<Rightarrow> string list" where
  "share_limit remaining [] = []"
| "share_limit remaining (t # ts) =
     (let b = truncate_text t (remaining div length (t # ts)) in b # share_limit (remaining - length b) ts)"

text \<open>The text of a chunk as the model sees it; a character beyond the alphabet is not told apart.\<close>

definition chunk_view :: "unicode_tables \<Rightarrow> chunk_row \<Rightarrow> string" where
  "chunk_view T c = map unpoint (mv_text (model_view_text T (ch_text c)))"

definition chunk_context :: "attachment_row \<times> chunk_row \<Rightarrow> string \<Rightarrow> json" where
  "chunk_context ac t = (case ac of (a, c) \<Rightarrow>
     JObj [(''evidence_ref'', JStr (attachment_evidence_ref (ch_id c))), (''source_attachment_id'', JStr (at_source a)),
       (''page_start'', opt_json JInt (ch_page_start c)), (''page_end'', opt_json JInt (ch_page_end c)),
       (''char_start'', opt_json JInt (ch_char_start c)), (''char_end'', opt_json JInt (ch_char_end c)), (''text'', JStr t)])"

definition serialize_attachment_chunks :: "unicode_tables \<Rightarrow> (attachment_row \<times> chunk_row) list \<Rightarrow> int \<Rightarrow> json list res" where
  "serialize_attachment_chunks T found limit =
     (if limit \<le> 0 then Inl (ValueError ''total_text_limit must be greater than zero'')
      else Inr (map2 chunk_context found (share_limit (nat limit) (map (chunk_view T \<circ> snd) found))))"

subsection \<open>Reading\<close>

text \<open>The tenant a generation runs for: the one whose acquisition it serves, if it has the process.\<close>

definition resolve_generation_tenant :: "string option \<Rightarrow> uuid \<Rightarrow> db \<Rightarrow> uuid option" where
  "resolve_generation_tenant request pid d = (case request of
     None \<Rightarrow> None
   | Some r \<Rightarrow> (if r = [] then None
       else map_option a_tenant (find (\<lambda>a. a_request a = Some r \<and> (a_tenant a, pid) \<in> set (tenant_processes d)) (acquisitions d))))"

fun attachment_status_name :: "attachment_status \<Rightarrow> string" where
  "attachment_status_name APending = ''pending''"
| "attachment_status_name AReady = ''ready''"
| "attachment_status_name AUnavailable = ''unavailable''"
| "attachment_status_name ACorrupt = ''corrupt''"
| "attachment_status_name AUnreadable = ''unreadable''"

definition readable_statuses :: "uuid \<Rightarrow> uuid \<Rightarrow> uuid \<Rightarrow> db \<Rightarrow> (string \<times> json) list" where
  "readable_statuses tenant pid vid d =
     (if readable_process tenant pid vid d
      then map (\<lambda>(st, n). (attachment_status_name st, JInt (int n))) (attachment_status_counts pid vid d) else [])"

text \<open>The sources of the text search are the parameters of the search itself.\<close>

definition load_attachment_context ::
  "(json \<Rightarrow> string) \<Rightarrow> unicode_tables \<Rightarrow> (string \<Rightarrow> rat) \<Rightarrow> (string \<Rightarrow> nat list \<Rightarrow> rat option) \<Rightarrow> (string \<Rightarrow> string option) \<Rightarrow>
     uuid \<Rightarrow> uuid \<Rightarrow> uuid \<Rightarrow> (string \<times> json) list \<Rightarrow> string \<Rightarrow> db \<Rightarrow> (json list \<times> chunk_used list \<times> (string \<times> json) list) res" where
  "load_attachment_context rp T collate match env tenant pid vid ctx base d =
     res_bind (attachment_context_limits env) (\<lambda>(n, m).
     res_bind (search_authorized_attachment_chunks collate match tenant pid vid (attachment_retrieval_query rp ctx base) n d)
       (\<lambda>found. res_bind (serialize_attachment_chunks T found m) (\<lambda>texts.
          Inr (texts, selected_attachment_sources T found, readable_statuses tenant pid vid d))))"

subsection \<open>Signals\<close>

definition attachment_status_keys :: "string list" where
  "attachment_status_keys = [''pending'', ''ready'', ''unavailable'', ''corrupt'', ''unreadable'']"

text \<open>A count is an integer of the database or of a stored object, never an infinite float.\<close>

definition normalized_count :: "(string \<times> json) list \<Rightarrow> string \<Rightarrow> int" where
  "normalized_count counts key = (case optional_int (py_or (obj_get counts key) (JInt 0)) of None \<Rightarrow> 0 | Some n \<Rightarrow> max 0 n)"

definition normalize_attachment_status_counts :: "(string \<times> json) list \<Rightarrow> (string \<times> int) list" where
  "normalize_attachment_status_counts counts = map (\<lambda>key. (key, normalized_count counts key)) attachment_status_keys"

definition attachment_status_flags :: "(string \<times> json) list \<Rightarrow> (string \<times> json) list" where
  "attachment_status_flags counts =
     (let normalized = normalize_attachment_status_counts counts;
          total = sum_list (map snd normalized);
          failed = sum_list (map (normalized_count counts) [''unavailable'', ''corrupt'', ''unreadable''])
      in if total = 0 then []
         else [(''attachments'', JObj [(''total'', JInt total), (''status_counts'', JObj (map (\<lambda>(k, n). (k, JInt n)) normalized)),
           (''processing_complete'', JBool (normalized_count counts ''pending'' = 0)), (''degraded'', JBool (0 < failed))])])"

definition status_templates :: "(string \<times> string) list" where
  "status_templates =
     [(''pending'', CHR ''H'' # a_acute # '' anexos pendentes de processamento: ''),
      (''unavailable'', CHR ''H'' # a_acute # '' anexos indispon'' @ i_acute # ''veis na fonte: ''),
      (''corrupt'', CHR ''H'' # a_acute # '' anexos corrompidos: ''),
      (''unreadable'', CHR ''H'' # a_acute # '' anexos sem texto leg'' @ i_acute # ''vel: '')]"

definition attachment_status_warnings :: "(string \<times> json) list \<Rightarrow> string list" where
  "attachment_status_warnings counts =
     map (\<lambda>(key, t). t @ show_int (normalized_count counts key) @ ''.'')
       (filter (\<lambda>(key, t). normalized_count counts key \<noteq> 0) status_templates)"

subsection \<open>Facts about the limits\<close>

lemma length_truncate: "length (truncate_text t limit) = min (length t) limit"
  by (auto simp: truncate_text_def)

lemma share_limit_total: "sum_list (map length (share_limit n ts)) \<le> n"
proof (induction ts arbitrary: n)
  case (Cons t ts)
  let ?b = "truncate_text t (n div length (t # ts))"
  have "length ?b \<le> n div length (t # ts)" by (simp add: length_truncate)
  also have "\<dots> \<le> n" by (rule div_le_dividend)
  finally have "length ?b \<le> n" .
  with Cons.IH [of "n - length ?b"] show ?case by (simp add: Let_def)
qed simp

lemma length_share_limit [simp]: "length (share_limit n ts) = length ts"
  by (induction ts arbitrary: n) (simp_all add: Let_def)

text \<open>No text is left with less than the share it would have in an equal division.\<close>

lemma share_grows: "length b \<le> n div Suc m \<Longrightarrow> 0 < m \<Longrightarrow> n div Suc m \<le> (n - length b) div m"
proof -
  assume b: "length b \<le> n div Suc m" and m: "0 < m"
  have "Suc m * (n div Suc m) \<le> n" by (rule times_div_less_eq_dividend)
  with b have "m * (n div Suc m) \<le> n - length b" by simp
  with m show ?thesis by (simp add: less_eq_div_iff_mult_less_eq mult.commute)
qed

lemma share_limit_fair:
  "i < length ts \<Longrightarrow> min (length (ts ! i)) (n div length ts) \<le> length (share_limit n ts ! i)"
proof (induction ts arbitrary: n i)
  case (Cons t ts)
  let ?b = "truncate_text t (n div length (t # ts))"
  show ?case
  proof (cases i)
    case 0
    then show ?thesis by (simp add: Let_def length_truncate)
  next
    case (Suc j)
    with Cons.prems have j: "j < length ts" by simp
    then have "n div Suc (length ts) \<le> (n - length ?b) div length ts"
      by (intro share_grows) (auto simp: length_truncate)
    with Cons.IH [OF j, of "n - length ?b"] Suc show ?thesis by (simp add: Let_def)
  qed
qed simp

text \<open>Each share is a truncation of the text at its place.\<close>

lemma share_limit_cut: "i < length ts \<Longrightarrow> \<exists>m. share_limit n ts ! i = truncate_text (ts ! i) m"
proof (induction ts arbitrary: n i)
  case (Cons t ts)
  then show ?case by (cases i) (auto simp: Let_def)
qed simp

definition text_length :: "json \<Rightarrow> nat" where
  "text_length v = (case obj_get (as_obj v) ''text'' of JStr t \<Rightarrow> length t | _ \<Rightarrow> 0)"

lemma context_fields:
  "text_length (chunk_context ac t) = length t"
  "obj_get (as_obj (chunk_context ac t)) ''evidence_ref'' = JStr (attachment_evidence_ref (ch_id (snd ac)))"
  by (simp_all add: text_length_def chunk_context_def obj_get_def split: prod.split)

lemma map2_lengths: "length xs = length ts \<Longrightarrow> map text_length (map2 chunk_context xs ts) = map length ts"
  by (induction xs ts rule: list_induct2) (simp_all add: context_fields)

lemma found_readable:
  assumes "search_authorized_attachment_chunks collate match tenant pid vid asked limit d = Inr found" "(a, c) \<in> set found"
  shows "readable_process tenant pid vid d \<and> a \<in> set (attachments d) \<and> c \<in> set (chunks d) \<and> at_status a = AReady \<and>
    at_process a = pid \<and> at_version a = vid \<and> ch_attachment c = at_id a \<and> ch_process c = pid \<and> ch_version c = vid"
proof -
  from assms have "(a, c) \<in> set (authorized_rows tenant pid vid d)"
    by (auto simp: search_authorized_attachment_chunks_def Let_def dest!: in_set_takeD split: if_splits)
  then show ?thesis by (cases "readable_process tenant pid vid d") (auto simp: authorized_rows_def)
qed

lemma map2_refs: "length xs = length ts \<Longrightarrow>
  map (\<lambda>v. obj_get (as_obj v) ''evidence_ref'') (map2 chunk_context xs ts) =
    map (\<lambda>ac. JStr (attachment_evidence_ref (ch_id (snd ac)))) xs"
  by (induction xs ts rule: list_induct2) (simp_all add: context_fields)

lemma source_refs: "map au_ref (selected_attachment_sources T found) = map (\<lambda>ac. attachment_evidence_ref (ch_id (snd ac))) found"
  by (rule nth_equalityI) (auto simp: selected_attachment_sources_def chunk_used_of_def nth_enumerate_eq split: prod.split)

subsection \<open>Properties\<close>

text \<open>C34: The attachments of a context are bounded, accounted for and authorised. The texts given to the
  model are at most as many as the retrieval limit, together no longer than the text limit, and no text
  is cut below an equal share of that limit. The text at each place is the truncated text of the chunk
  found at that place, under its own reference, and the recorded source at that place has the same
  reference; and every chunk found belongs to a ready attachment of the current version of a public process
  that the tenant has.\<close>

theorem attachment_context_bounded:
  assumes "load_attachment_context rp T collate match env tenant pid vid ctx base d = Inr (texts, sources, statuses)"
  shows "\<exists>n m found. attachment_context_limits env = Inr (n, m) \<and>
    int (length texts) \<le> n \<and> int (sum_list (map text_length texts)) \<le> m \<and>
    length texts = length found \<and> length sources = length found \<and>
    (\<forall>i < length found. (\<exists>cut. texts ! i = chunk_context (found ! i) (truncate_text (chunk_view T (snd (found ! i))) cut)) \<and>
       au_ref (sources ! i) = attachment_evidence_ref (ch_id (snd (found ! i)))) \<and>
    (\<forall>i < length found. min (length (chunk_view T (snd (found ! i)))) (nat m div length found) \<le> text_length (texts ! i)) \<and>
    map (\<lambda>v. obj_get (as_obj v) ''evidence_ref'') texts = map (\<lambda>s. JStr (au_ref s)) sources \<and>
    (\<forall>(a, c) \<in> set found. readable_process tenant pid vid d \<and> a \<in> set (attachments d) \<and> c \<in> set (chunks d) \<and>
       at_status a = AReady \<and> at_process a = pid \<and> at_version a = vid \<and> ch_attachment c = at_id a)"
proof -
  from assms obtain n m found where limits: "attachment_context_limits env = Inr (n, m)"
    and found: "search_authorized_attachment_chunks collate match tenant pid vid (attachment_retrieval_query rp ctx base) n d = Inr found"
    and texts: "serialize_attachment_chunks T found m = Inr texts" and sources: "sources = selected_attachment_sources T found"
    by (auto simp: load_attachment_context_def)
  let ?shares = "share_limit (nat m) (map (chunk_view T \<circ> snd) found)"
  from texts have m: "0 < m" and texts: "texts = map2 chunk_context found ?shares"
    by (simp_all add: serialize_attachment_chunks_def split: if_splits)
  have len: "length found = length ?shares" by simp
  have lens: "map text_length texts = map length ?shares" unfolding texts by (rule map2_lengths [OF len])
  have size: "length texts = length found" unfolding texts using len by simp
  have "int (length texts) \<le> n"
    using found unfolding size by (auto simp: search_authorized_attachment_chunks_def Let_def split: if_splits)
  moreover have "int (sum_list (map text_length texts)) \<le> m"
    unfolding lens using share_limit_total [of "nat m" "map (chunk_view T \<circ> snd) found"] m by linarith
  moreover have "min (length (chunk_view T (snd (found ! i)))) (nat m div length found) \<le> text_length (texts ! i)" if "i < length found" for i
  proof -
    have "text_length (texts ! i) = length (?shares ! i)"
      using that size len by (metis lens nth_map)
    with share_limit_fair [of i "map (chunk_view T \<circ> snd) found" "nat m"] that show ?thesis by simp
  qed
  moreover have "map (\<lambda>v. obj_get (as_obj v) ''evidence_ref'') texts = map (\<lambda>s. JStr (au_ref s)) sources"
    unfolding texts map2_refs [OF len] using arg_cong [OF source_refs [of T found], of "map JStr"]
    by (simp add: sources comp_def)
  moreover have "\<forall>(a, c) \<in> set found. readable_process tenant pid vid d \<and> a \<in> set (attachments d) \<and> c \<in> set (chunks d) \<and>
       at_status a = AReady \<and> at_process a = pid \<and> at_version a = vid \<and> ch_attachment c = at_id a"
    using found_readable [OF found] by blast
  moreover have src: "length sources = length found" unfolding sources by (simp add: selected_attachment_sources_def)
  moreover have "(\<exists>cut. texts ! i = chunk_context (found ! i) (truncate_text (chunk_view T (snd (found ! i))) cut)) \<and>
       au_ref (sources ! i) = attachment_evidence_ref (ch_id (snd (found ! i)))" if i: "i < length found" for i
  proof
    from share_limit_cut [of i "map (chunk_view T \<circ> snd) found" "nat m"] i
    obtain cut where "?shares ! i = truncate_text (chunk_view T (snd (found ! i))) cut" by auto
    moreover have "texts ! i = chunk_context (found ! i) (?shares ! i)" unfolding texts using i by (simp del: share_limit.simps)
    ultimately show "\<exists>cut. texts ! i = chunk_context (found ! i) (truncate_text (chunk_view T (snd (found ! i))) cut)"
      by (intro exI [of _ cut]) (simp only:)
    have "au_ref (sources ! i) = map au_ref sources ! i" using i src by simp
    also have "\<dots> = attachment_evidence_ref (ch_id (snd (found ! i)))" unfolding sources source_refs using i by simp
    finally show "au_ref (sources ! i) = attachment_evidence_ref (ch_id (snd (found ! i)))" .
  qed
  ultimately show ?thesis using limits size by blast
qed

definition ready_attachment :: attachment_row where
  "ready_attachment = (new_attachment 7 0 3 2 ''doc'')\<lparr>at_status := AReady\<rparr>"

definition ready_chunk :: chunk_row where
  "ready_chunk = new_chunk (\<lambda>_. ''sha'') (\<lambda>i. i) 7 3 2 (0, hd sample_chunks)"

definition ready_db :: db where
  "ready_db = attached_db\<lparr>attachments := [ready_attachment], chunks := [ready_chunk]\<rparr>"

theorem attachment_context_bounded_witness:
  "\<exists>t s. load_attachment_context no_repr sample_tables (\<lambda>_. 0) (\<lambda>_ _. Some 1) (\<lambda>_. None) 5 3 2 [] ''a'' ready_db =
      Inr ([t], [s], [(''ready'', JInt 1)]) \<and> obj_get (as_obj t) ''evidence_ref'' = JStr (au_ref s)"
proof -
  let ?found = "[(ready_attachment, ready_chunk)]"
  have query: "attachment_retrieval_query no_repr [] ''a'' = ''a''" by code_simp
  have limits: "attachment_context_limits (\<lambda>_. None) = Inr (12, 20000)"
    by (simp add: attachment_context_limits_def positive_env_int_def)
  have read: "readable_process 5 3 2 ready_db"
    by (simp add: readable_process_def ready_db_def attached_db_def open_process_def)
  have found: "search_authorized_attachment_chunks (\<lambda>_. 0) (\<lambda>_ _. Some 1) 5 3 2 ''a'' 12 ready_db = Inr ?found"
    using read
    by (simp add: search_authorized_attachment_chunks_def authorized_rows_def ready_db_def ready_attachment_def ready_chunk_def
        new_attachment_def new_chunk_def strip_def rstrip_by_def lstrip_by_def isspace_c_def)
  have statuses: "readable_statuses 5 3 2 ready_db = [(''ready'', JInt 1)]"
    using read
    by (simp add: readable_statuses_def attachment_status_counts_def ready_db_def ready_attachment_def new_attachment_def)
  obtain t s where run: "load_attachment_context no_repr sample_tables (\<lambda>_. 0) (\<lambda>_ _. Some 1) (\<lambda>_. None) 5 3 2 [] ''a'' ready_db =
      Inr ([t], [s], [(''ready'', JInt 1)])"
    by (simp add: load_attachment_context_def query limits found statuses serialize_attachment_chunks_def selected_attachment_sources_def Let_def)
  from attachment_context_bounded [OF this] run show ?thesis by auto
qed

end
