(* ===== verification/Validation.thy ===== *)
theory Validation
  imports LegalText "HOL-Library.AList"
begin

text \<open>
  \<open>app/validation.py\<close>: the checks every summary passes before it may be published, whatever wrote it.
  Personal identifiers, foreign process numbers, unknown parties, forecasts, dates, amounts and fields
  that the source does not contain, markup, and the order of the sections are read off the text by
  regular expressions. \<open>rp\<close> renders floats and containers, \<open>day\<close> knows the time zone, and \<open>parse\<close> is
  the syntax analysis of \<open>json.loads\<close>.
\<close>

subsection \<open>More of the pattern language\<close>

definition rstart :: regex where "rstart = RLook (\<lambda>b _. b = [])"

text \<open>\<open>$\<close> without \<open>MULTILINE\<close> also holds before a last line break.\<close>

definition rend :: regex where "rend = RLook (\<lambda>_ s. s = [] \<or> s = [newline])"

definition rdot :: regex where "rdot = RChar (\<lambda>c. c \<noteq> newline)"

text \<open>The lazy star, of at most \<open>n\<close> rounds; the length of the text is always enough.\<close>

fun rlazy :: "nat \<Rightarrow> regex \<Rightarrow> regex" where
  "rlazy 0 r = REmpty"
| "rlazy (Suc n) r = RAlt REmpty (RSeq r (rlazy n r))"

definition rword :: regex where "rword = RChar word_char"

text \<open>A repetition of at least \<open>n\<close> rounds.\<close>

definition rmin :: "nat \<Rightarrow> regex \<Rightarrow> regex" where "rmin n r = RSeq (rpow n r) (RStar r)"

subsection \<open>Patterns\<close>

definition cpf_cnpj_re :: regex where
  "cpf_cnpj_re = rseqs [rnot_before isdecimal_c,
     RAlt (rseqs [rdigits 3, ropt (rlit ''.''), rdigits 3, ropt (rlit ''.''), rdigits 3, ropt (rlit ''-''), rdigits 2])
       (rseqs [rdigits 2, ropt (rlit ''.''), rdigits 3, ropt (rlit ''.''), rdigits 3, ropt (rlit ''/''), rdigits 4,
          ropt (rlit ''-''), rdigits 2]),
     rnot_after isdecimal_c]"

definition long_digits_re :: regex where
  "long_digits_re = rseqs [rnot_before isdecimal_c, rmin 11 digit_re, rnot_after isdecimal_c]"

definition personal_id_key_re :: regex where
  "personal_id_key_re = rseqs [RAlt rstart (rlit ''_''),
     ralts (map rlit_ci [''cpf'', ''cnpj'', ''document'', ''document_number'', ''tax_id'', ''person_id'', ''national_id'',
       ''identifier'', ''id'']),
     RAlt rend (rlit ''_'')]"

definition identifier_token_re :: regex where
  "identifier_token_re = rseqs [rnot_before isdecimal_c,
     rmin 7 (RSeq digit_re (ropt (RChar (\<lambda>c. isspace_c c \<or> c \<in> set ''./-'')))), digit_re, rnot_after isdecimal_c]"

definition class_re :: regex where
  "class_re = rseqs [RBoundary, rlit_ci ''class'', RStar rspace, rlit ''='']"

definition forecast_re :: regex where
  "forecast_re = ralts
     [rseqs [rlit_ci ''provavelmente'', rplus rspace, rlit_ci ''ser'', rin_ci [a_acute, CHR ''a''], rplus rspace, rlit_ci ''condenad''],
      rseqs [rlit_ci ''chance'', ropt (rlit_ci ''s''), rplus rspace, rlit_ci ''de''],
      rseqs [rlit_ci ''tende'', rplus rspace, rlit_ci ''a'', rplus rspace, rlit_ci ''ganhar''],
      rseqs [rlit_ci ''recomendo'', rplus rspace, rlit_ci ''que'']]"

definition quotes :: string where "quotes = [CHR 0x22, CHR 0x27]"

definition party_tag_re :: regex where
  "party_tag_re = rseqs [rlit_ci ''<Party'', rplus rspace, rlit_ci ''name='', rin quotes,
     RGroup 1 (rplus (RChar (\<lambda>c. c \<notin> set quotes))), rin quotes, RStar (RChar (\<lambda>c. c \<noteq> CHR ''>'')), ropt (rlit ''/''), rlit ''>'']"

definition role_re :: regex where
  "role_re = ralts
     [RSeq (rlit_ci ''autor'') (ropt (rlit_ci ''a'')),
      rseqs [rlit_ci ''r'', rin_ci [CHR 0xE9, CHR ''e''], rlit_ci ''u''],
      rlit_ci ''requerente'', RSeq (rlit_ci ''requerid'') (rin_ci ''oa''), rlit_ci ''exequente'',
      RSeq (rlit_ci ''executad'') (rin_ci ''oa'')]"

text \<open>The accented capitals of the source, and the same in lower case.\<close>

definition capitals :: string where
  "capitals = [CHR 0xC1, CHR 0xC0, CHR 0xC2, CHR 0xC3, CHR 0xC9, CHR 0xCA, CHR 0xCD, CHR 0xD3, CHR 0xD4, CHR 0xD5, CHR 0xDA, CHR 0xC7]"

definition ascii_capital :: "char \<Rightarrow> bool" where
  "ascii_capital c \<longleftrightarrow> 65 \<le> ord c \<and> ord c \<le> 90"

definition capitalized_token_re :: regex where
  "capitalized_token_re = RSeq (RChar (\<lambda>c. ascii_capital c \<or> c \<in> set capitals))
     (RStar (RChar (\<lambda>c. alnum_ascii c \<or> c \<in> set capitals \<or> c \<in> set (map lower_c capitals) \<or> c \<in> set ''&./-'' \<or> c = CHR 0x27)))"

definition connector_re :: regex where
  "connector_re = ralts (map rlit [''da'', ''de'', ''do'', ''das'', ''dos'', ''e''])"

definition proper_name_re :: regex where
  "proper_name_re = RSeq capitalized_token_re
     (rrange 1 6 (rseqs [rplus rspace, ropt (RSeq connector_re (rplus rspace)), capitalized_token_re]))"

definition dashes :: string where "dashes = [CHR ''-'', CHR 0x86, CHR 0x87]"

definition role_name_re :: regex where
  "role_name_re = rseqs [RBoundary, ropt (RSeq (rin_ci ''oa'') (rplus rspace)), role_re, RStar rspace,
     ropt (RAlt (RSeq (RAlt (rlit '':'') (rin dashes)) (RStar rspace))
       (RSeq (ralts [rlit_ci [CHR 0xE9], rlit_ci ''foi'', rlit_ci ''seria'', RSeq (rlit_ci ''denominad'') (rin_ci ''oa''),
          rseqs [rlit_ci ''identificad'', rin_ci ''oa'', rplus rspace, rlit_ci ''como'']]) (rplus rspace))),
     RGroup 1 proper_name_re]"

definition name_role_re :: regex where
  "name_role_re = rseqs [RBoundary, RGroup 1 proper_name_re, RStar rspace, rlit '','', RStar rspace,
     ropt (RSeq (RAlt (rseqs [rlit_ci ''na'', rplus rspace, rlit_ci ''qualidade'', rplus rspace, rlit_ci ''de'']) (rlit_ci ''como''))
       (rplus rspace)),
     role_re, RBoundary]"

text \<open>The patterns with a lazy part take the length of the text.\<close>

definition jsx_tag_re :: "nat \<Rightarrow> regex" where
  "jsx_tag_re n = rseqs [rlit ''<'', RGroup 1 (ropt (rlit ''/'')), RGroup 2 (RSeq (RChar ascii_capital) (RStar (RChar alnum_ascii))),
     ropt (RSeq rspace (rlazy n (RChar (\<lambda>c. c \<notin> set ''<>'')))), RGroup 3 (ropt (rlit ''/'')), rlit ''>'']"

definition movement_count_re :: regex where
  "movement_count_re = rseqs [RBoundary, RGroup 1 (rplus digit_re), rplus rspace,
     RAlt (RSeq (rlit_ci ''movimento'') (ropt (rlit_ci ''s'')))
       (rseqs [rlit_ci ''movimenta'', RAlt (rlit_ci [c_cedilla]) (rlit_ci ''c''),
          ralts [rlit_ci [a_tilde, CHR ''o''], rlit_ci ''oes'', rlit_ci [o_tilde, CHR ''e'', CHR ''s'']]]),
     RBoundary]"

definition hashes_re :: regex where
  "hashes_re = rseqs [rline_start, rrange 1 5 (rlit ''#''), rplus rspace]"

definition attention_heading_re :: regex where
  "attention_heading_re = rseqs [hashes_re, rlit_ci ''Pontos'', rplus rspace, rlit_ci ''de'', rplus rspace, rlit_ci ''aten'',
     RAlt (rlit_ci [c_cedilla]) (rlit_ci ''c''), RAlt (rlit_ci [a_tilde, CHR ''o'']) (rlit_ci ''ao''), RStar rspace, rline_end]"

definition next_heading_re :: regex where
  "next_heading_re = RSeq hashes_re (RChar (\<lambda>c. \<not> isspace_c c))"

definition lazy_value :: "nat \<Rightarrow> nat \<Rightarrow> regex" where
  "lazy_value k n = RGroup k (RSeq rdot (rlazy n rdot))"

definition heading_re :: "nat \<Rightarrow> regex" where
  "heading_re n = rseqs [hashes_re, lazy_value 1 n, RStar rspace, rline_end]"

definition bullet_re :: regex where
  "bullet_re = ropt (RSeq (rin ''-*'') (RStar rspace))"

definition labelled_re :: "regex \<Rightarrow> nat \<Rightarrow> regex" where
  "labelled_re label n = rseqs [rline_start, bullet_re, RGroup 1 label, RStar rspace, rlit '':'', RStar rspace, lazy_value 2 n,
     RStar rspace, rline_end]"

definition source_backed_claim_re :: "nat \<Rightarrow> regex" where
  "source_backed_claim_re = labelled_re (ralts
     [rlit_ci (CHR 0xC1 # ''rea''), RSeq (rlit_ci ''Assunto'') (ropt (rlit_ci ''s'')), RSeq (rlit_ci ''Tag'') (ropt (rlit_ci ''s'')),
      rlit_ci ''Comarca'', rlit_ci (CHR 0xD3 # ''rg'' @ CHR 0xE3 # ''o julgador''), rlit_ci ''Classe'', rlit_ci ''Fase''])"

definition amount_claim_re :: "nat \<Rightarrow> regex" where
  "amount_claim_re = labelled_re (RSeq (rlit_ci ''Valor'') (ropt (rlit_ci '' da causa'')))"

definition url_re :: regex where
  "url_re = rseqs [rlit_ci ''http'', ropt (rlit_ci ''s''), rlit ''://'', rplus (RChar (\<lambda>c. \<not> isspace_c c \<and> c \<notin> set '')>]''))]"

definition meta_output_markers :: "string list" where
  "meta_output_markers =
     [''system prompt'', ''prompt do sistema'', ''mensagem de sistema'', ''developer message'', ''mensagem de desenvolvedor'',
      ''instru'' @ [c_cedilla, o_tilde] @ ''es internas'', ''instrucoes internas'',
      ''ignore as instru'' @ [c_cedilla, o_tilde] @ ''es anteriores'', ''ignore as instrucoes anteriores'',
      ''as a language model'', ''como modelo de linguagem'']"

subsection \<open>Names\<close>

text \<open>NFKD without the combining marks.\<close>

definition base_letter :: "char \<Rightarrow> char" where
  "base_letter c =
     (let n = ord c in
      if n \<in> {192, 193, 194, 195, 196, 197} then CHR ''A'' else if n = 199 then CHR ''C''
      else if n \<in> {200, 201, 202, 203} then CHR ''E'' else if n \<in> {204, 205, 206, 207} then CHR ''I''
      else if n = 209 then CHR ''N'' else if n \<in> {210, 211, 212, 213, 214} then CHR ''O''
      else if n \<in> {217, 218, 219, 220} then CHR ''U'' else if n = 221 then CHR ''Y''
      else if n \<in> {224, 225, 226, 227, 228, 229} then CHR ''a'' else if n = 231 then CHR ''c''
      else if n \<in> {232, 233, 234, 235} then CHR ''e'' else if n \<in> {236, 237, 238, 239} then CHR ''i''
      else if n = 241 then CHR ''n'' else if n \<in> {242, 243, 244, 245, 246} then CHR ''o''
      else if n \<in> {249, 250, 251, 252} then CHR ''u'' else if n = 253 \<or> n = 255 then CHR ''y'' else c)"

definition combining_mark :: "char \<Rightarrow> bool" where
  "combining_mark c \<longleftrightarrow> ord c \<in> {0x88, 0x89, 0x8A, 0x8B}"

definition without_marks :: "string \<Rightarrow> string" where
  "without_marks s = map base_letter (filter (\<lambda>c. \<not> combining_mark c) (nfkc s))"

definition name_words :: "string \<Rightarrow> string list" where
  "name_words s = re_matches (rplus rword) (casefold (without_marks s))"

definition normalize_party_name :: "string \<Rightarrow> string" where
  "normalize_party_name s = join '' '' (name_words s)"

text \<open>\<open>f" {needle} " in f" {text} "\<close>.\<close>

definition spaced_in :: "string \<Rightarrow> string \<Rightarrow> bool" where
  "spaced_in needle t \<longleftrightarrow> sublist ('' '' @ needle @ '' '') ('' '' @ t @ '' '')"

definition party_name_of :: "(json \<Rightarrow> string) \<Rightarrow> json \<Rightarrow> string" where
  "party_name_of rp p = (let name = py_or (obj_get (as_obj p) ''name'') (obj_get (as_obj p) ''nome'') in
     if truthy name then normalize_party_name (py_str rp name) else [])"

definition party_names :: "(json \<Rightarrow> string) \<Rightarrow> json list \<Rightarrow> string list" where
  "party_names rp parties = filter (\<lambda>n. n \<noteq> []) (map (party_name_of rp) parties)"

definition mentioned_party_names :: "string \<Rightarrow> string list" where
  "mentioned_party_names t = filter (\<lambda>n. n \<noteq> []) (map normalize_party_name
     (re_groups party_tag_re 1 t @ re_groups role_name_re 1 t @ re_groups name_role_re 1 t))"

definition party_names_present_verbatim :: "(json \<Rightarrow> string) \<Rightarrow> string \<Rightarrow> json list \<Rightarrow> string list" where
  "party_names_present_verbatim rp t parties = filter (\<lambda>n. spaced_in n (normalize_party_name t)) (party_names rp parties)"

text \<open>\<open>sorted(set(xs))\<close>.\<close>

definition sorted_texts :: "string list \<Rightarrow> string list" where
  "sorted_texts xs = sort_key (map ord) (remdups xs)"

subsection \<open>Identifiers\<close>

fun personal_identifiers :: "(json \<Rightarrow> string) \<Rightarrow> string \<Rightarrow> json \<Rightarrow> string list" where
  "personal_identifiers rp key (JObj kvs) = concat (map (\<lambda>(k, v). personal_identifiers rp k v) kvs)"
| "personal_identifiers rp key (JArr xs) = concat (map (personal_identifiers rp key) xs)"
| "personal_identifiers rp key v =
     (let digits = only_digits (py_str rp v) in
      if re_search personal_id_key_re key \<and> 8 \<le> length digits then [digits] else [])"

definition party_identifiers :: "(json \<Rightarrow> string) \<Rightarrow> json list \<Rightarrow> string list" where
  "party_identifiers rp parties = concat (map (personal_identifiers rp []) parties)"

definition rendered_identifiers :: "string \<Rightarrow> string list" where
  "rendered_identifiers t = filter (\<lambda>d. 8 \<le> length d) (map only_digits (re_matches identifier_token_re t))"

subsection \<open>Markup\<close>

text \<open>A tag with its kind: \<open></T>\<close>, \<open><T/>\<close> or \<open><T>\<close>; a closing mark is only looked at when the tag does not
  close itself.\<close>

datatype jsx_tag = SelfTag string | CloseTag string | OpenTag string

fun tag_name :: "jsx_tag \<Rightarrow> string" where
  "tag_name (SelfTag t) = t"
| "tag_name (CloseTag t) = t"
| "tag_name (OpenTag t) = t"

definition tag_of :: "(nat \<times> string) list \<Rightarrow> jsx_tag" where
  "tag_of g = (if group_of g 3 \<noteq> [] then SelfTag (group_of g 2)
     else if group_of g 1 \<noteq> [] then CloseTag (group_of g 2) else OpenTag (group_of g 2))"

definition jsx_tags :: "string \<Rightarrow> jsx_tag list" where
  "jsx_tags t = map (tag_of \<circ> snd) (re_finditer (jsx_tag_re (length t)) [] t)"

text \<open>The loop over the tags: the errors, and the stack that is left, its top last.\<close>

fun balance :: "string list \<Rightarrow> jsx_tag list \<Rightarrow> string list \<times> string list" where
  "balance stack [] = ([], stack)"
| "balance stack (SelfTag t # ts) = balance stack ts"
| "balance stack (OpenTag t # ts) = balance (stack @ [t]) ts"
| "balance stack (CloseTag t # ts) =
     (if stack = [] \<or> last stack \<noteq> t
      then case balance stack ts of (errs, left) \<Rightarrow> ((''unbalanced JSX tag: '' @ t) # errs, left)
      else balance (butlast stack) ts)"

definition allowed_jsx_components :: "string list" where
  "allowed_jsx_components = [''Party'', ''ProcessHeader'']"

definition jsx_errors :: "string \<Rightarrow> string list" where
  "jsx_errors t =
     (let tags = jsx_tags t; (errs, left) = balance [] tags in
      (if re_search class_re t then [''JSX must use className= instead of class=''] else []) @ errs @
      (if left \<noteq> [] then [''unclosed JSX tags: '' @ join '', '' left] else []) @
      map (\<lambda>tag. ''JSX component is not allowed: '' @ tag)
        (sorted_texts (filter (\<lambda>tag. tag \<notin> set allowed_jsx_components) (map tag_name tags))))"

subsection \<open>Sections\<close>

definition line_break :: "char \<Rightarrow> bool" where
  "line_break c \<longleftrightarrow> (10 \<le> ord c \<and> ord c \<le> 13) \<or> (28 \<le> ord c \<and> ord c \<le> 30) \<or> ord c = 133"

text \<open>The stripped, non-empty lines of \<open>splitlines()\<close>; the pair of line breaks adds an empty one only.\<close>

definition text_lines :: "string \<Rightarrow> string list" where
  "text_lines t = filter (\<lambda>l. l \<noteq> []) (map strip (split_char newline (map (\<lambda>c. if line_break c then newline else c) t)))"

definition document_title :: string where "document_title = ''Resumo do processo''"

text \<open>\<open>re.match\<close> of a heading on one line.\<close>

definition line_title :: "string \<Rightarrow> string option" where
  "line_title l = (case re_run (rseqs [rstart, rrange 1 5 (rlit ''#''), rplus rspace, lazy_value 1 (length l), RStar rspace, rend])
      ([], l, []) of [] \<Rightarrow> None | (_, _, g) # _ \<Rightarrow> Some (group_of g 1))"

definition document_title_errors :: "string \<Rightarrow> string list" where
  "document_title_errors t =
     (let ls = text_lines t; canonical = ''# '' @ document_title;
          titles = filter (\<lambda>l. case line_title l of None \<Rightarrow> False
            | Some h \<Rightarrow> normalize_party_name h = normalize_party_name document_title) ls
      in (if ls = [] \<or> hd ls \<noteq> canonical then [''summary must start with exact document title: '' @ canonical] else []) @
         (if 1 < length titles then [''duplicate document title: Resumo do processo''] else []))"

definition heading_titles :: "string \<Rightarrow> string list" where
  "heading_titles t = map strip (re_groups (heading_re (length t)) 1 t)"

definition core_section_order :: "string list" where
  "core_section_order = [''Partes'', ''Classe'', ''Assuntos'', movements_title, attention_title]"

definition conditional_section_order :: "string list" where
  "conditional_section_order = [''Decis'' @ o_tilde # ''es'', ''Prazos em curso'', ''Processos relacionados'', ''Anexos'']"

text \<open>The position of a title among the titles of an order, by its normal form.\<close>

fun title_index :: "nat \<Rightarrow> string list \<Rightarrow> string \<Rightarrow> nat option" where
  "title_index i [] n = None"
| "title_index i (t # ts) n = (if normalize_party_name t = n then Some i else title_index (Suc i) ts n)"

text \<open>The first loop over the headings: the error it returns with, or the places of the core sections.\<close>

fun core_places :: "string list \<Rightarrow> string list \<Rightarrow> string list + nat list" where
  "core_places seen [] = Inr []"
| "core_places seen (title # ts) =
     (let n = normalize_party_name title in
      case title_index 0 core_section_order n of
        None \<Rightarrow> core_places seen ts
      | Some i \<Rightarrow>
          (if title \<noteq> core_section_order ! i
           then Inl [''core section title must be exactly: '' @ core_section_order ! i @ ''; got: '' @ title]
           else if n \<in> set seen then Inl [''duplicate core section: '' @ core_section_order ! i]
           else case core_places (n # seen) ts of Inl e \<Rightarrow> Inl e | Inr is \<Rightarrow> Inr (i # is)))"

fun first_descent :: "nat list \<Rightarrow> nat option" where
  "first_descent (i # j # is) = (if j < i then Some j else first_descent (j # is))"
| "first_descent _ = None"

definition order_text :: "string list \<Rightarrow> string" where
  "order_text titles = join ('' '' @ CHR 0x84 # '' '') titles"

definition core_section_order_errors :: "string \<Rightarrow> string list" where
  "core_section_order_errors t = (case core_places [] (heading_titles t) of
     Inl e \<Rightarrow> e
   | Inr places \<Rightarrow> (case first_descent places of None \<Rightarrow> []
       | Some i \<Rightarrow> [''core sections must follow order: '' @ order_text core_section_order @ ''; out-of-order section: '' @
           core_section_order ! i]))"

text \<open>The places and titles of the conditional sections; the title as written is reported.\<close>

definition conditional_places :: "string list \<Rightarrow> (nat \<times> string) list" where
  "conditional_places titles = List.map_filter
     (\<lambda>t. map_option (\<lambda>i. (i, t)) (title_index 0 conditional_section_order (normalize_party_name t))) titles"

fun first_descent_at :: "(nat \<times> string) list \<Rightarrow> string option" where
  "first_descent_at ((i, s) # (j, t) # ps) = (if j < i then Some t else first_descent_at ((j, t) # ps))"
| "first_descent_at _ = None"

definition conditional_section_order_errors :: "string \<Rightarrow> string list" where
  "conditional_section_order_errors t = (case first_descent_at (conditional_places (heading_titles t)) of
     None \<Rightarrow> []
   | Some title \<Rightarrow> [''conditional sections must follow order: '' @ order_text conditional_section_order @
       ''; out-of-order section: '' @ title])"

definition unexpected_heading_errors :: "string \<Rightarrow> string list \<Rightarrow> string list" where
  "unexpected_heading_errors t allowed =
     map (\<lambda>title. ''summary heading is not allowed: '' @ title)
       (filter (\<lambda>title. normalize_party_name title \<notin> set (map normalize_party_name allowed)) (heading_titles t))"

subsection \<open>Claims and their source\<close>

text \<open>A parsed object keeps the first place and the last value of a repeated key.\<close>

definition dict_items :: "(string \<times> json) list \<Rightarrow> (string \<times> json) list" where
  "dict_items kvs = fold (\<lambda>(k, v). AList.update k v) kvs []"

fun amounts_below :: "(json \<Rightarrow> string) \<Rightarrow> json \<Rightarrow> pyfloat list" where
  "amounts_below rp (JObj kvs) = concat (map (\<lambda>(k, v). (if casefold k = ''amount''
       then (case decimal_amount rp v of None \<Rightarrow> [] | Some a \<Rightarrow> [a]) else []) @ amounts_below rp v) kvs)"
| "amounts_below rp (JArr xs) = concat (map (amounts_below rp) xs)"
| "amounts_below rp v = []"

fun last_values :: "json \<Rightarrow> json" where
  "last_values (JObj kvs) = JObj (dict_items (map (\<lambda>(k, v). (k, last_values v)) kvs))"
| "last_values (JArr xs) = JArr (map last_values xs)"
| "last_values v = v"

definition source_amounts :: "(json \<Rightarrow> string) \<Rightarrow> (string \<Rightarrow> json option) \<Rightarrow> string \<Rightarrow> pyfloat list" where
  "source_amounts rp parse s = (case parse s of None \<Rightarrow> [] | Some v \<Rightarrow> amounts_below rp (last_values v))"

text \<open>The labels and values a pattern finds.\<close>

definition labelled :: "regex \<Rightarrow> string \<Rightarrow> (string \<times> string) list" where
  "labelled r t = map (\<lambda>m. (strip (group_of (snd m) 1), strip (group_of (snd m) 2))) (re_finditer r [] t)"

definition amount_claim_errors :: "(json \<Rightarrow> string) \<Rightarrow> (string \<Rightarrow> json option) \<Rightarrow> string \<Rightarrow> string \<Rightarrow> string list" where
  "amount_claim_errors rp parse t source =
     map (\<lambda>(label, raw). ''source-backed amount mismatch: '' @ label @ ''='' @ raw)
       (filter (\<lambda>(label, raw). case amount_text raw of None \<Rightarrow> True
          | Some a \<Rightarrow> Finite a \<notin> set (source_amounts rp parse source)) (labelled (amount_claim_re (length t)) t))"

definition claimed_values :: "string \<times> string \<Rightarrow> (string \<times> string) list" where
  "claimed_values lv = (case lv of (label, raw) \<Rightarrow>
     if normalize_party_name label \<in> {''assunto'', ''assuntos'', ''tag'', ''tags''}
     then map (Pair label) (filter (\<lambda>p. p \<noteq> []) (map strip (re_split (rin '',;'') [] [] raw))) else [(label, raw)])"

definition source_backed_claim_errors :: "string \<Rightarrow> string \<Rightarrow> string list" where
  "source_backed_claim_errors t source =
     map (\<lambda>(label, v). ''source-backed field mismatch: '' @ label @ ''='' @ v)
       (filter (\<lambda>(label, v). let n = normalize_party_name v in n \<noteq> [] \<and> \<not> spaced_in n (normalize_party_name source))
         (concat (map claimed_values (labelled (source_backed_claim_re (length t)) t))))"

definition untrusted_output_errors :: "string \<Rightarrow> string \<Rightarrow> string list" where
  "untrusted_output_errors t source =
     map (\<lambda>m. ''meta-output marker not present in source context: '' @ m)
       (filter (\<lambda>m. sublist (normalize_party_name m) (normalize_party_name t) \<and>
          \<not> sublist (normalize_party_name m) (normalize_party_name source)) meta_output_markers) @
     map (\<lambda>u. ''URL not present in source context: '' @ u)
       (sorted_texts (filter (\<lambda>u. u \<notin> set (re_matches url_re source)) (re_matches url_re t)))"

definition text_dates :: "string \<Rightarrow> string list" where
  "text_dates s = List.map_filter canonical_date (re_matches (date_re isdecimal_c) s)"

definition source_dates :: "(string \<Rightarrow> string option) \<Rightarrow> string \<Rightarrow> string set" where
  "source_dates day s = literal_dates isdecimal_c s \<union> zoned_dates day s"

text \<open>The text between the heading of the attention section and the next heading.\<close>

definition attention_body :: "string \<Rightarrow> string option" where
  "attention_body t = (case re_find attention_heading_re [] t of
     None \<Rightarrow> None
   | Some (b, m, rest, _) \<Rightarrow> (let b1 = rev m @ b in
       Some (strip (case re_find next_heading_re b1 rest of
         None \<Rightarrow> rest | Some (b2, _, _, _) \<Rightarrow> take (length b2 - length b1) rest))))"

subsection \<open>The validation\<close>

record validation_request =
  va_code :: string
  va_parties :: "json list"
  va_steps :: "nat option"
  va_expected :: "int option"
  va_source :: "string option"
  va_attention :: bool
  va_phrases :: "string list"
  va_forbid :: bool
  va_title :: bool
  va_headings :: "string list option"

definition plain_request :: "string \<Rightarrow> json list \<Rightarrow> validation_request" where
  "plain_request code parties = \<lparr>va_code = code, va_parties = parties, va_steps = None, va_expected = None, va_source = None,
     va_attention = False, va_phrases = [], va_forbid = False, va_title = False, va_headings = None\<rparr>"

definition cnj_errors :: "string \<Rightarrow> string \<Rightarrow> string list" where
  "cnj_errors t code = map (\<lambda>f. ''CNJ mismatch: '' @ f)
     (filter (\<lambda>f. only_digits f \<noteq> only_digits code) (re_matches cnj_re t @ re_matches long_digits_re t))"

definition party_errors :: "(json \<Rightarrow> string) \<Rightarrow> string \<Rightarrow> validation_request \<Rightarrow> string list" where
  "party_errors rp t v =
     (if va_forbid v
      then (if party_names_present_verbatim rp t (va_parties v) \<noteq> []
            then [''party names are prohibited for secret summary''] else [])
      else let unknown = sorted_texts (filter (\<lambda>n. n \<notin> set (party_names rp (va_parties v))) (mentioned_party_names t)) in
        if unknown \<noteq> [] then [''hallucinated parties: '' @ join '', '' unknown] else [])"

definition count_errors :: "string \<Rightarrow> validation_request \<Rightarrow> string list" where
  "count_errors t v = (case (case va_expected v of None \<Rightarrow> map_option int (va_steps v) | Some n \<Rightarrow> Some n) of
     None \<Rightarrow> []
   | Some n \<Rightarrow> map (\<lambda>m. ''movement count mismatch: stated '' @ show_int m @ '', expected '' @ show_int n)
       (filter (\<lambda>m. m \<noteq> n) (map (\<lambda>d. int (digits_value 0 d)) (re_groups movement_count_re 1 t))))"

definition source_errors ::
  "(json \<Rightarrow> string) \<Rightarrow> (string \<Rightarrow> string option) \<Rightarrow> (string \<Rightarrow> json option) \<Rightarrow> string \<Rightarrow> validation_request \<Rightarrow> string list" where
  "source_errors rp day parse t v = (case va_source v of
     None \<Rightarrow> []
   | Some source \<Rightarrow>
       map (\<lambda>d. ''date not present in source context: '' @ d)
         (sorted_texts (filter (\<lambda>d. d \<notin> source_dates day source) (text_dates t))) @
       source_backed_claim_errors t source @ amount_claim_errors rp parse t source @ untrusted_output_errors t source)"

definition attention_required :: string where
  "attention_required = attention_title @ '' section is required''"

definition attention_errors :: "string \<Rightarrow> validation_request \<Rightarrow> string list" where
  "attention_errors t v =
     (let body = attention_body t;
          section = (if \<not> va_attention v then []
            else case body of None \<Rightarrow> [attention_required]
              | Some b \<Rightarrow> (if b = [] then [attention_title @ '' section must not be empty''] else []))
      in section @ (if va_phrases v = [] then []
         else case body of
           None \<Rightarrow> (if attention_required \<in> set section then [] else [attention_required])
         | Some b \<Rightarrow> map (\<lambda>p. ''required attention fact missing: '' @ p)
             (filter (\<lambda>p. let n = normalize_party_name p in n \<noteq> [] \<and> \<not> sublist n (normalize_party_name b)) (va_phrases v))))"

definition validation_errors ::
  "(json \<Rightarrow> string) \<Rightarrow> (string \<Rightarrow> string option) \<Rightarrow> (string \<Rightarrow> json option) \<Rightarrow> string \<Rightarrow> validation_request \<Rightarrow> string list" where
  "validation_errors rp day parse t v =
     (if va_title v then document_title_errors t else []) @
     (if re_search cpf_cnpj_re t then [''possible unmasked CPF/CNPJ''] else []) @
     (if set (party_identifiers rp (va_parties v)) \<inter> set (rendered_identifiers t) \<noteq> {}
      then [''personal identifier from party data is prohibited''] else []) @
     cnj_errors t (va_code v) @ party_errors rp t v @
     (if re_search forecast_re t then [''prognostic language is prohibited''] else []) @
     count_errors t v @ source_errors rp day parse t v @ attention_errors t v @
     jsx_errors t @ core_section_order_errors t @ conditional_section_order_errors t @
     (case va_headings v of None \<Rightarrow> [] | Some allowed \<Rightarrow> unexpected_heading_errors t allowed)"

definition validar ::
  "(json \<Rightarrow> string) \<Rightarrow> (string \<Rightarrow> string option) \<Rightarrow> (string \<Rightarrow> json option) \<Rightarrow> string \<Rightarrow> validation_request \<Rightarrow> bool \<times> string list" where
  "validar rp day parse t v = (let errors = validation_errors rp day parse t v in (errors = [], errors))"

subsection \<open>Long numbers\<close>

text \<open>What the greedy star of digits can leave: every shorter run, the longest first.\<close>

abbreviation digit_run :: "string \<Rightarrow> nat" where
  "digit_run s \<equiv> length (takeWhile isdecimal_c s)"

definition after_digits :: "mstate \<Rightarrow> nat \<Rightarrow> mstate" where
  "after_digits st n = (case st of (b, s, g) \<Rightarrow> (rev (take n s) @ b, drop n s, g))"

lemma run_star_digits:
  "digit_run s \<le> n \<Longrightarrow> star_run (re_run digit_re) n (b, s, g) = map (after_digits (b, s, g)) (rev [0..<Suc (digit_run s)])"
proof (induction n arbitrary: b s)
  case 0
  then show ?case by (simp add: after_digits_def)
next
  case (Suc n)
  show ?case
  proof (cases s)
    case Nil
    then show ?thesis by (simp add: digit_re_def after_digits_def)
  next
    case (Cons c cs)
    show ?thesis
    proof (cases "isdecimal_c c")
      case True
      with Suc.prems Cons have "digit_run cs \<le> n" by simp
      from Suc.IH [OF this, of "c # b"] True Cons show ?thesis
        by (simp add: digit_re_def after_digits_def upt_conv_Cons rev_map map_Suc_upt [symmetric] comp_def del: upt_Suc)
    qed (use Cons in \<open>simp add: digit_re_def after_digits_def\<close>)
  qed
qed

lemma run_fixed_digits:
  "re_run (rpow n digit_re) (b, s, g) = (if n \<le> digit_run s then [after_digits (b, s, g) n] else [])"
proof (induction n arbitrary: b s)
  case (Suc n)
  show ?case by (cases s) (auto simp: digit_re_def after_digits_def Suc [unfolded digit_re_def after_digits_def])
qed (simp add: after_digits_def)

definition ends_at :: "(char \<Rightarrow> bool) \<Rightarrow> string \<Rightarrow> bool" where
  "ends_at p s \<longleftrightarrow> s = [] \<or> \<not> p (hd s)"

lemma run_end: "k \<le> digit_run s \<Longrightarrow> ends_at isdecimal_c (drop k s) \<longleftrightarrow> k = digit_run s"
proof (induction s arbitrary: k)
  case (Cons c s)
  then show ?case by (cases k) (auto simp: ends_at_def split: if_splits)
qed (simp add: ends_at_def)

lemma run_looks:
  "re_run (rnot_before p) (b, s, g) = (if ends_at p b then [(b, s, g)] else [])"
  "re_run (rnot_after p) (b, s, g) = (if ends_at p s then [(b, s, g)] else [])"
  by (auto simp: rnot_before_def rnot_after_def ends_at_def split: list.splits)

lemma digit_run_drop: "n \<le> digit_run s \<Longrightarrow> digit_run (drop n s) = digit_run s - n"
proof (induction s arbitrary: n)
  case (Cons c s)
  then show ?case by (cases n) (auto split: if_splits)
qed simp

lemma after_digits_twice:
  "m \<le> digit_run s \<Longrightarrow> after_digits (after_digits (b, s, g) m) k = after_digits (b, s, g) (m + k)"
  by (simp add: after_digits_def take_add add.commute [of k m])

lemma run_long_digits:
  "re_run long_digits_re (b, s, g) =
     (if ends_at isdecimal_c b \<and> 11 \<le> digit_run s then [after_digits (b, s, g) (digit_run s)] else [])"
proof (cases "11 \<le> digit_run s")
  case False
  then show ?thesis
    by (simp add: long_digits_re_def rmin_def run_looks run_fixed_digits)
next
  case True
  let ?st = "after_digits (b, s, g) 11" and ?r = "digit_run s - 11"
  have st: "?st = (rev (take 11 s) @ b, drop 11 s, g)" by (simp add: after_digits_def)
  have run: "digit_run (drop 11 s) = ?r" using True by (rule digit_run_drop)
  then have "?r \<le> length (drop 11 s)" by (metis length_takeWhile_le)
  then have star: "re_run (RStar digit_re) ?st = map (after_digits ?st) (rev [0..<Suc ?r])"
    using run_star_digits [of "drop 11 s" "length (drop 11 s)"] run by (simp add: st del: upt_Suc)
  have last: "re_run (rnot_after isdecimal_c) (after_digits ?st k) = (if k = ?r then [after_digits ?st k] else [])" if "k \<le> ?r" for k
    using run_end [of k "drop 11 s"] that run by (simp add: st after_digits_def run_looks)
  have "concat (map (re_run (rnot_after isdecimal_c)) (re_run (RStar digit_re) ?st)) = [after_digits ?st ?r]"
  proof -
    have "concat (map (\<lambda>k. re_run (rnot_after isdecimal_c) (after_digits ?st k)) (rev [0..<?r])) = []"
      using last by (auto simp: concat_eq_Nil_conv)
    with star last [of ?r] show ?thesis by (simp add: comp_def)
  qed
  moreover have "after_digits ?st ?r = after_digits (b, s, g) (digit_run s)"
    using True by (simp add: after_digits_twice)
  ultimately show ?thesis
    using True by (simp add: long_digits_re_def rmin_def run_looks run_fixed_digits del: re_run.simps(5))
qed

text \<open>Where a maximal run of digits ends.\<close>

lemma digit_run_maximal: "list_all isdecimal_c w \<Longrightarrow> ends_at isdecimal_c d \<Longrightarrow> takeWhile isdecimal_c (w @ d) = w"
  by (induction w) (auto simp: ends_at_def takeWhile_eq_Nil_iff)

definition starts_at :: "string \<Rightarrow> string \<Rightarrow> bool" where
  "starts_at b a \<longleftrightarrow> (if a = [] then ends_at isdecimal_c b else \<not> isdecimal_c (last a))"

lemma run_inside: "a \<noteq> [] \<Longrightarrow> \<not> isdecimal_c (last a) \<Longrightarrow> takeWhile isdecimal_c (a @ t) = takeWhile isdecimal_c a \<and> digit_run a < length a"
proof (induction a)
  case (Cons c a)
  then show ?case by (cases "a = []") auto
qed simp

lemma long_number_found:
  assumes "list_all isdecimal_c w" "11 \<le> length w" "ends_at isdecimal_c d" "starts_at b a"
  shows "w \<in> set (map fst (re_finditer long_digits_re b (a @ w @ d)))"
  using assms(4)
proof (induction "length a" arbitrary: a b rule: less_induct)
  case less
  show ?case
  proof (cases a)
    case Nil
    obtain c cs where w: "w = c # cs" using assms(2) by (cases w) auto
    have "digit_run (w @ d) = length w" using digit_run_maximal [OF assms(1,3)] by simp
    with less.prems assms(2) Nil w show ?thesis
      by (simp add: run_long_digits starts_at_def after_digits_def)
  next
    case (Cons c a')
    obtain n where n: "n = digit_run a" by blast
    have inside: "digit_run (a @ w @ d) = n" "n < length a"
      unfolding n using run_inside [of a "w @ d"] less.prems Cons by (auto simp: starts_at_def)
    show ?thesis
    proof (cases "ends_at isdecimal_c b \<and> 11 \<le> n")
      case True
      let ?a = "drop n a" and ?b = "rev (take n (a @ w @ d)) @ b"
      have smaller: "length ?a < length a" using True Cons by simp
      have "starts_at ?b ?a" using less.prems inside(2) Cons by (simp add: starts_at_def)
      from less.hyps [OF smaller this] have "w \<in> set (map fst (re_finditer long_digits_re ?b (?a @ w @ d)))" .
      moreover have "drop n (a @ w @ d) = ?a @ w @ d" using inside(2) by simp
      moreover have "n \<noteq> 0" using True by linarith
      then have "length (?a @ w @ d) \<le> length (a' @ w @ d)" using Cons by simp
      moreover have "re_run long_digits_re (b, c # (a' @ w @ d), []) = [(?b, ?a @ w @ d, [])]"
        using True inside Cons \<open>drop n (a @ w @ d) = ?a @ w @ d\<close>
        by (simp add: run_long_digits after_digits_def del: takeWhile.simps)
      ultimately show ?thesis
        using Cons by simp
    next
      case False
      have "starts_at (c # b) a'" using less.prems Cons by (auto simp: starts_at_def ends_at_def split: if_splits)
      with less.hyps [of a' "c # b"] Cons have "w \<in> set (map fst (re_finditer long_digits_re (c # b) (a' @ w @ d)))" by simp
      moreover have "re_run long_digits_re (b, c # (a' @ w @ d), []) = []"
        using False inside(1) Cons by (simp add: run_long_digits del: takeWhile.simps)
      ultimately show ?thesis using Cons by simp
    qed
  qed
qed

subsection \<open>Names\<close>

lemma join_append: "xs \<noteq> [] \<Longrightarrow> ys \<noteq> [] \<Longrightarrow> join sep (xs @ ys) = join sep xs @ sep @ join sep ys"
proof (induction xs)
  case (Cons x xs)
  then show ?case by (cases xs) (auto simp: neq_Nil_conv)
qed simp

lemma words_in_sequence:
  assumes "sublist ns ts" "ns \<noteq> []"
  shows "spaced_in (join '' '' ns) (join '' '' ts)"
proof -
  from assms(1) obtain ps ss where ts: "ts = ps @ ns @ ss" by (auto simp: sublist_def)
  have after: "\<exists>v. join '' '' (ns @ ss) @ '' '' = join '' '' ns @ '' '' @ v"
    using assms(2) join_append [of ns ss "'' ''"] by (cases "ss = []") auto
  have "\<exists>u. '' '' @ join '' '' (ps @ ns @ ss) = u @ '' '' @ join '' '' (ns @ ss)"
    using assms(2) join_append [of ps "ns @ ss" "'' ''"] by (cases "ps = []") auto
  with after ts obtain u v where "'' '' @ join '' '' ts @ '' '' = u @ ('' '' @ join '' '' ns @ '' '') @ v"
    by (metis append_assoc)
  then show ?thesis unfolding spaced_in_def sublist_def by blast
qed

subsection \<open>Nesting of the markup\<close>

inductive well_nested :: "jsx_tag list \<Rightarrow> bool" where
  nested_none: "well_nested []"
| nested_self: "well_nested ts \<Longrightarrow> well_nested (SelfTag t # ts)"
| nested_pair: "well_nested xs \<Longrightarrow> well_nested ys \<Longrightarrow> well_nested (OpenTag t # xs @ CloseTag t # ys)"

lemma nested_append: "well_nested xs \<Longrightarrow> well_nested ys \<Longrightarrow> well_nested (xs @ ys)"
  by (induction rule: well_nested.induct) (auto intro: well_nested.intros)

lemma balance_nested: "well_nested xs \<Longrightarrow> balance stack (xs @ ys) = balance stack ys"
  by (induction arbitrary: stack ys rule: well_nested.induct) simp_all

text \<open>What closes a stack, its top first.\<close>

inductive closes :: "string list \<Rightarrow> jsx_tag list \<Rightarrow> bool" where
  closes_none: "well_nested ts \<Longrightarrow> closes [] ts"
| closes_top: "well_nested xs \<Longrightarrow> closes stack ys \<Longrightarrow> closes (stack @ [t]) (xs @ CloseTag t # ys)"

inductive_cases closes_noneE: "closes [] ts"

lemma closes_append: "closes stack ys \<Longrightarrow> well_nested xs \<Longrightarrow> closes stack (xs @ ys)"
proof (induction rule: closes.induct)
  case (closes_top zs stack ys t)
  from closes.closes_top [OF nested_append [OF closes_top.prems closes_top.hyps(1)] closes_top.hyps(2)]
  show ?case by simp
qed (simp add: closes.closes_none nested_append)

lemma closes_snocE:
  assumes "closes (stack @ [t]) ts"
  obtains xs ys where "ts = xs @ CloseTag t # ys" "well_nested xs" "closes stack ys"
  using assms by (cases rule: closes.cases) auto

lemma balance_closes: "balance stack ts = ([], []) \<Longrightarrow> closes stack ts"
proof (induction stack ts rule: balance.induct)
  case (1 stack)
  then show ?case by (simp add: closes_none nested_none)
next
  case (2 stack t ts)
  then have "closes stack ([SelfTag t] @ ts)" by (intro closes_append) (auto intro: well_nested.intros)
  then show ?case by simp
next
  case (3 stack t ts)
  then have "closes (stack @ [t]) ts" by simp
  then obtain xs ys where ts: "ts = xs @ CloseTag t # ys" "well_nested xs" "closes stack ys" by (rule closes_snocE)
  have "well_nested (OpenTag t # xs @ CloseTag t # [])" using ts(2) by (intro nested_pair nested_none)
  from closes_append [OF ts(3) this] ts(1) show ?case by simp
next
  case (4 stack t ts)
  show ?case
  proof (cases "stack = [] \<or> last stack \<noteq> t")
    case True
    with 4 show ?thesis by (auto split: prod.splits)
  next
    case False
    with 4 have "closes (butlast stack) ts" by simp
    from closes_top [OF nested_none this, of t] False show ?thesis
      by (metis append_Nil append_butlast_last_id)
  qed
qed

lemma balance_iff_nested: "balance [] ts = ([], []) \<longleftrightarrow> well_nested ts"
  using balance_nested [of ts "[]" "[]"] balance_closes [of "[]" ts] by (auto elim: closes_noneE)

subsection \<open>Order of the sections\<close>

lemma subseq_indices:
  "subseq xs ys \<Longrightarrow> \<exists>js. sorted_wrt (<) js \<and> (\<forall>j \<in> set js. j < length ys) \<and> xs = map ((!) ys) js"
proof (induction rule: list_emb.induct)
  case (list_emb_Nil ys)
  show ?case by (rule exI [of _ "[]"]) simp
next
  case (list_emb_Cons xs ys y)
  then obtain js where "sorted_wrt (<) js" "\<forall>j \<in> set js. j < length ys" "xs = map ((!) ys) js" by blast
  then show ?case by (intro exI [of _ "map Suc js"]) (auto simp: sorted_wrt_map)
next
  case (list_emb_Cons2 x y xs ys)
  then obtain js where "sorted_wrt (<) js" "\<forall>j \<in> set js. j < length ys" "xs = map ((!) ys) js" by blast
  with list_emb_Cons2 show ?case by (intro exI [of _ "0 # map Suc js"]) (auto simp: sorted_wrt_map)
qed

lemma indices_subseq:
  "sorted_wrt (<) js \<Longrightarrow> \<forall>j \<in> set js. j < length ys \<Longrightarrow> subseq (map ((!) ys) js) ys"
proof (induction ys arbitrary: js)
  case Nil
  then have "js = []" by (cases js) auto
  then show ?case by simp
next
  case (Cons y ys)
  have shift: "subseq (map ((!) (y # ys)) ks) ys" if "sorted_wrt (<) ks" "\<forall>k \<in> set ks. 0 < k \<and> k < Suc (length ys)" for ks
  proof -
    have eq: "map ((!) (y # ys)) ks = map ((!) ys) (map (\<lambda>k. k - 1) ks)" using that(2) by auto
    have 1: "sorted_wrt (<) (map (\<lambda>k. k - 1) ks)"
      using that by (auto simp: sorted_wrt_map intro!: sorted_wrt_mono_rel [OF _ that(1)])
    have 2: "\<forall>j \<in> set (map (\<lambda>k. k - 1) ks). j < length ys" using that(2) by auto
    show ?thesis unfolding eq using Cons.IH [OF 1 2] .
  qed
  show ?case
  proof (cases "0 \<in> set js")
    case True
    with Cons.prems(1) obtain ks where "js = 0 # ks" by (cases js) auto
    with shift [of ks] Cons.prems show ?thesis by auto
  next
    case False
    with shift [of js] Cons.prems show ?thesis by (metis One_nat_def bot_nat_0.not_eq_extremum length_Cons list_emb_Cons)
  qed
qed

lemma first_descent_None: "first_descent js = None \<longleftrightarrow> sorted js"
  by (induction js rule: first_descent.induct) auto

lemma title_index_Some:
  "title_index i ts n = Some j \<Longrightarrow> i \<le> j \<and> j < i + length ts \<and> normalize_party_name (ts ! (j - i)) = n"
proof (induction ts arbitrary: i)
  case (Cons t ts)
  show ?case
  proof (cases "normalize_party_name t = n")
    case False
    with Cons.prems Cons.IH [of "Suc i"] have "i < j" "j < Suc i + length ts" "normalize_party_name (ts ! (j - Suc i)) = n"
      by simp_all
    then show ?thesis by (simp add: nth_Cons')
  qed (use Cons.prems in auto)
qed simp

lemma title_index_None: "title_index i ts n = None \<longleftrightarrow> n \<notin> normalize_party_name ` set ts"
  by (induction ts arbitrary: i) auto

lemma normal_parties: "normalize_party_name ''Partes'' = ''partes''" by code_simp
lemma normal_class: "normalize_party_name ''Classe'' = ''classe''" by code_simp
lemma normal_subjects: "normalize_party_name ''Assuntos'' = ''assuntos''" by code_simp
lemma normal_movements: "normalize_party_name movements_title = ''movimentacoes''" by code_simp
lemma normal_attention: "normalize_party_name attention_title = ''pontos de atencao''" by code_simp

lemma core_titles_apart: "distinct (map normalize_party_name core_section_order)"
  by (simp add: core_section_order_def normal_parties normal_class normal_subjects normal_movements normal_attention)

definition core_title :: "string \<Rightarrow> bool" where
  "core_title t \<longleftrightarrow> normalize_party_name t \<in> normalize_party_name ` set core_section_order"

lemma core_index:
  "title_index 0 core_section_order (normalize_party_name t) = Some i \<longleftrightarrow>
     i < length core_section_order \<and> normalize_party_name (core_section_order ! i) = normalize_party_name t" (is "?l \<longleftrightarrow> ?r")
proof
  assume ?l
  from title_index_Some [OF this] show ?r by simp
next
  assume r: ?r
  then have "core_title t" unfolding core_title_def by (metis image_eqI nth_mem)
  then obtain j where j: "title_index 0 core_section_order (normalize_party_name t) = Some j"
    unfolding core_title_def using title_index_None [of 0 core_section_order] by fastforce
  from title_index_Some [OF this] r have "j = i"
    using core_titles_apart by (simp add: distinct_conv_nth) metis
  with j show ?l by simp
qed

lemma core_places_Inr:
  "core_places seen ts = Inr js \<longleftrightarrow>
     filter core_title ts = map ((!) core_section_order) js \<and> distinct js \<and>
     (\<forall>j \<in> set js. j < length core_section_order \<and> normalize_party_name (core_section_order ! j) \<notin> set seen)"
proof (induction ts arbitrary: seen js)
  case Nil
  show ?case by auto
next
  case (Cons t ts)
  let ?n = "normalize_party_name t"
  show ?case
  proof (cases "title_index 0 core_section_order ?n")
    case None
    then have "\<not> core_title t" by (simp add: core_title_def title_index_None)
    with None Cons.IH show ?thesis by simp
  next
    case (Some i)
    then have i: "i < length core_section_order" "normalize_party_name (core_section_order ! i) = ?n" and core: "core_title t"
      using core_title_def by (simp_all add: core_index) (metis imageI nth_mem)
    have other: "k = i" if "k < length core_section_order" "normalize_party_name (core_section_order ! k) = ?n" for k
      using core_index [of t k] that Some by simp
    show ?thesis
    proof (cases js)
      case Nil
      with Some core show ?thesis by (auto simp: Let_def split: sum.splits)
    next
      case (Cons j ks)
      have "core_places seen (t # ts) = Inr js \<longleftrightarrow>
        t = core_section_order ! i \<and> ?n \<notin> set seen \<and> j = i \<and> core_places (?n # seen) ts = Inr ks"
        using Some Cons by (auto simp: Let_def split: sum.splits)
      also have "\<dots> \<longleftrightarrow> filter core_title (t # ts) = map ((!) core_section_order) js \<and> distinct js \<and>
        (\<forall>j \<in> set js. j < length core_section_order \<and> normalize_party_name (core_section_order ! j) \<notin> set seen)" (is "?l \<longleftrightarrow> ?r")
      proof
        assume ?l
        with Cons core i show ?r unfolding Cons.IH by auto
      next
        assume r: ?r
        then have t: "t = core_section_order ! j" "filter core_title ts = map ((!) core_section_order) ks" "distinct ks" "j \<notin> set ks"
          using Cons core by simp_all
        from r Cons have "j < length core_section_order" by simp
        with t(1) other have "j = i" by simp
        moreover have "normalize_party_name (core_section_order ! k) \<noteq> ?n" if "k \<in> set ks" for k
          using other [of k] that r Cons t(4) \<open>j = i\<close> by auto
        ultimately show ?l using t r Cons unfolding Cons.IH by simp
      qed
      finally show ?thesis .
    qed
  qed
qed

lemma core_places_Inl: "core_places seen ts = Inl e \<Longrightarrow> e \<noteq> []"
  by (induction ts arbitrary: seen) (auto simp: Let_def split: option.splits if_splits sum.splits)

subsection \<open>Properties\<close>

lemma long_number_reported:
  assumes "cnj_errors t code = []" "t = a @ w @ d" "list_all isdecimal_c w" "11 \<le> length w"
    and "a = [] \<or> \<not> isdecimal_c (last a)" "d = [] \<or> \<not> isdecimal_c (hd d)"
  shows "w = only_digits code"
proof -
  have "starts_at [] a" "ends_at isdecimal_c d" using assms(5,6) by (auto simp: starts_at_def ends_at_def)
  with long_number_found [OF assms(3,4)] assms(2) have "w \<in> set (re_matches long_digits_re t)"
    by (simp add: re_matches_def)
  with assms(1) have "only_digits w = only_digits code" by (auto simp: cnj_errors_def filter_empty_conv)
  moreover have "only_digits w = w"
    using assms(3) by (auto simp: only_digits_def list_all_iff intro!: filter_True dest: isdecimal_imp_isdigit)
  ultimately show ?thesis by simp
qed

definition party_words :: "(json \<Rightarrow> string) \<Rightarrow> json \<Rightarrow> string list" where
  "party_words rp p = (let name = py_or (obj_get (as_obj p) ''name'') (obj_get (as_obj p) ''nome'') in
     if truthy name then name_words (py_str rp name) else [])"

lemma join_Nil: "join sep xs = [] \<Longrightarrow> list_all (\<lambda>x. x \<noteq> []) xs \<Longrightarrow> xs = []"
  by (induction sep xs rule: join.induct) auto

lemma matches_nonempty: "list_all (\<lambda>w. w \<noteq> []) (map fst (re_finditer r b s))"
  by (induction r b s rule: re_finditer.induct) (auto split: list.splits prod.splits)

lemma name_kept:
  assumes "p \<in> set parties" "party_words rp p \<noteq> []"
  shows "join '' '' (party_words rp p) \<in> set (party_names rp parties)"
proof -
  let ?name = "py_or (obj_get (as_obj p) ''name'') (obj_get (as_obj p) ''nome'')"
  from assms(2) have name: "truthy ?name" "party_words rp p = name_words (py_str rp ?name)"
    by (simp_all add: party_words_def Let_def split: if_splits)
  then have eq: "party_name_of rp p = join '' '' (party_words rp p)"
    by (simp add: party_name_of_def normalize_party_name_def Let_def)
  have "list_all (\<lambda>w. w \<noteq> []) (party_words rp p)"
    using matches_nonempty by (simp add: name(2) name_words_def re_matches_def)
  with assms(2) have "party_name_of rp p \<noteq> []" unfolding eq using join_Nil by blast
  with assms(1) eq show ?thesis by (auto simp: party_names_def intro!: image_eqI [of _ _ p])
qed

lemma sorted_texts_Nil: "sorted_texts xs = [] \<longleftrightarrow> xs = []"
  using set_sort [of "map ord" "remdups xs"] by (auto simp: sorted_texts_def simp del: set_sort)

lemma no_jsx_errors:
  assumes "jsx_errors t = []"
  shows "well_nested (jsx_tags t) \<and> set (map tag_name (jsx_tags t)) \<subseteq> set allowed_jsx_components"
proof -
  obtain errs left where b: "balance [] (jsx_tags t) = (errs, left)" by fastforce
  with assms have parts: "errs = []" "left = []"
    "sorted_texts (filter (\<lambda>tag. tag \<notin> set allowed_jsx_components) (map tag_name (jsx_tags t))) = []"
    by (simp_all add: jsx_errors_def split: if_splits)
  from parts(1,2) b have "well_nested (jsx_tags t)" by (simp add: balance_iff_nested)
  moreover from parts(3) have "set (map tag_name (jsx_tags t)) \<subseteq> set allowed_jsx_components"
    unfolding sorted_texts_Nil filter_empty_conv by blast
  ultimately show ?thesis by blast
qed

text \<open>C28: What a validated text cannot contain. When the validation of a text reports no error, every maximal
  run of at least eleven digits in it is the number of its own process; when party names are prohibited
  (a process under secrecy), the words of no party's name follow each other in it, however they are
  written in case, accents and punctuation; and its component tags are properly nested and only those
  that are allowed.\<close>

theorem validated_text_is_safe:
  assumes "fst (validar rp day parse t v)"
  shows "(\<forall>a w d. t = a @ w @ d \<and> list_all isdecimal_c w \<and> 11 \<le> length w \<and> (a = [] \<or> \<not> isdecimal_c (last a)) \<and>
      (d = [] \<or> \<not> isdecimal_c (hd d)) \<longrightarrow> w = only_digits (va_code v)) \<and>
    (\<forall>p \<in> set (va_parties v). va_forbid v \<and> party_words rp p \<noteq> [] \<longrightarrow> \<not> sublist (party_words rp p) (name_words t)) \<and>
    well_nested (jsx_tags t) \<and> set (map tag_name (jsx_tags t)) \<subseteq> set allowed_jsx_components"
proof -
  from assms have none: "cnj_errors t (va_code v) = []" "party_errors rp t v = []" "jsx_errors t = []"
    by (auto simp: validar_def validation_errors_def Let_def)
  have "\<not> sublist (party_words rp p) (name_words t)" if "p \<in> set (va_parties v)" "va_forbid v" "party_words rp p \<noteq> []" for p
  proof
    assume "sublist (party_words rp p) (name_words t)"
    from words_in_sequence [OF this that(3)] have "spaced_in (join '' '' (party_words rp p)) (normalize_party_name t)"
      by (simp add: normalize_party_name_def)
    with name_kept [OF that(1,3)] none(2) that(2) show False
      by (auto simp: party_errors_def party_names_present_verbatim_def filter_empty_conv split: if_splits)
  qed
  moreover have "well_nested (jsx_tags t) \<and> set (map tag_name (jsx_tags t)) \<subseteq> set allowed_jsx_components"
    using none(3) by (rule no_jsx_errors)
  moreover have "w = only_digits (va_code v)"
    if "t = a @ w @ d \<and> list_all isdecimal_c w \<and> 11 \<le> length w \<and> (a = [] \<or> \<not> isdecimal_c (last a)) \<and>
      (d = [] \<or> \<not> isdecimal_c (hd d))" for a w d
    using long_number_reported [OF none(1)] that by blast
  ultimately show ?thesis by blast
qed

definition safe_sample :: string where
  "safe_sample = ''a''"

definition secret_sample :: validation_request where
  "secret_sample = (plain_request ''1'' [JObj [(''name'', JStr ''B'')]])\<lparr>va_forbid := True\<rparr>"

theorem validated_text_is_safe_witness:
  "fst (validar (\<lambda>_. []) (\<lambda>_. None) (\<lambda>_. None) safe_sample secret_sample) \<and>
    \<not> sublist [''b''] (name_words safe_sample) \<and> well_nested (jsx_tags safe_sample)"
proof -
  have ok: "fst (validar (\<lambda>_. []) (\<lambda>_. None) (\<lambda>_. None) safe_sample secret_sample)"
    by code_simp
  have "party_words (\<lambda>_. []) (JObj [(''name'', JStr ''B'')]) = [''b'']" by code_simp
  with validated_text_is_safe [OF ok] ok show ?thesis by (auto simp: secret_sample_def plain_request_def)
qed

text \<open>C35: The sections come in their order. The check of the core sections accepts a text exactly when those
  of its headings that name a core section, in any spelling, are a selection of the titles of the core
  sections, spelled exactly, each at most once and in their order.\<close>

theorem core_sections_in_order:
  "core_section_order_errors t = [] \<longleftrightarrow> subseq (filter core_title (heading_titles t)) core_section_order"
proof
  assume "core_section_order_errors t = []"
  then obtain js where places: "core_places [] (heading_titles t) = Inr js" and "first_descent js = None"
    using core_places_Inl by (auto simp: core_section_order_errors_def split: sum.splits option.splits)
  then have "sorted js" by (simp add: first_descent_None)
  from places have js: "filter core_title (heading_titles t) = map ((!) core_section_order) js" "distinct js"
      "\<forall>j \<in> set js. j < length core_section_order"
    unfolding core_places_Inr by simp_all
  from \<open>sorted js\<close> js(2) have "sorted_wrt (<) js" by (simp add: strict_sorted_iff)
  with js show "subseq (filter core_title (heading_titles t)) core_section_order" by (simp add: indices_subseq)
next
  assume "subseq (filter core_title (heading_titles t)) core_section_order"
  from subseq_indices [OF this] obtain js where js: "sorted_wrt (<) js" "\<forall>j \<in> set js. j < length core_section_order"
      "filter core_title (heading_titles t) = map ((!) core_section_order) js" by blast
  then have "distinct js" "sorted js" by (simp_all add: strict_sorted_iff)
  with js have "core_places [] (heading_titles t) = Inr js" unfolding core_places_Inr by simp
  with \<open>sorted js\<close> show "core_section_order_errors t = []"
    by (simp add: core_section_order_errors_def first_descent_None [symmetric])
qed

end
