(* ===== verification/Glossary.thy ===== *)
theory Glossary
  imports AttachmentContext Validation
begin

text \<open>
  \<open>app/tpu_glossary.py\<close>: the official glossary of classes and subjects, a snapshot read from a file.
  A process is given the definitions of its class and of its subjects by their exact codes, each at
  most once. The files and SHA-256 are parameters; \<open>runtime\<close> and \<open>packaged\<close> are the two places of the
  snapshot, and a path is the text that names it.
\<close>

subsection \<open>The catalog\<close>

record tpu_definition =
  tp_kind :: string
  tp_code :: string
  tp_name :: string
  tp_definition :: string
  tp_version :: string
  tp_publisher :: string
  tp_source :: string
  tp_ref :: string

record tpu_catalog =
  tc_version :: string
  tc_publisher :: string
  tc_source :: string
  tc_label :: string
  tc_entries :: "((string \<times> string) \<times> tpu_definition) list"

definition as_context :: "(string \<Rightarrow> string) \<Rightarrow> tpu_definition \<Rightarrow> json" where
  "as_context sha t = JObj [(''kind'', JStr (tp_kind t)), (''code'', JStr (tp_code t)), (''name'', JStr (tp_name t)),
     (''definition'', JStr (tp_definition t)), (''tpu_version'', JStr (tp_version t)), (''publisher'', JStr (tp_publisher t)),
     (''source'', JStr (tp_source t)), (''source_ref'', JStr (tp_ref t)), (''definition_sha256'', JStr (sha (tp_definition t)))]"

definition as_provenance :: "(string \<Rightarrow> string) \<Rightarrow> nat \<times> tpu_definition \<Rightarrow> definition_used" where
  "as_provenance sha it = (case it of (i, t) \<Rightarrow>
     \<lparr>du_kind = tp_kind t, du_code = tp_code t, du_tpu_version = tp_version t, du_publisher = tp_publisher t,
      du_source = tp_source t, du_ref = tp_ref t, du_sha = sha (tp_definition t), du_order = int i\<rparr>)"

definition resolve_code :: "(json \<Rightarrow> string) \<Rightarrow> tpu_catalog \<Rightarrow> string \<Rightarrow> json \<Rightarrow> tpu_definition option" where
  "resolve_code rp c kind code =
     (if code = JNull then None
      else let n = strip (py_str rp code) in if n = [] then None else map_of (tc_entries c) (kind, n))"

subsection \<open>Loading\<close>

type_synonym files = "string \<Rightarrow> string option"

definition default_catalog_path :: "files \<Rightarrow> string \<Rightarrow> string \<Rightarrow> string" where
  "default_catalog_path read runtime packaged =
     (if read runtime \<noteq> None then runtime else if read packaged \<noteq> None then packaged else runtime)"

definition catalog_path :: "files \<Rightarrow> (string \<Rightarrow> string option) \<Rightarrow> string \<Rightarrow> string \<Rightarrow> string" where
  "catalog_path read env runtime packaged =
     (let configured = strip (case env ''TPU_GLOSSARY_PATH'' of None \<Rightarrow> [] | Some s \<Rightarrow> s) in
      if configured \<noteq> [] then configured else default_catalog_path read runtime packaged)"

fun load_entries ::
  "(json \<Rightarrow> string) \<Rightarrow> string \<Rightarrow> string \<Rightarrow> string \<Rightarrow> ((string \<times> string) \<times> tpu_definition) list \<Rightarrow> json list \<Rightarrow>
     ((string \<times> string) \<times> tpu_definition) list res" where
  "load_entries rp v pub src entries [] = Inr entries"
| "load_entries rp v pub src entries (e # es) =
     (let kind = field_text rp (as_obj e) ''kind''; code = field_text rp (as_obj e) ''code''; name = field_text rp (as_obj e) ''name'';
          text = field_text rp (as_obj e) ''definition''; ref = field_text rp (as_obj e) ''source_ref''
      in if \<not> is_obj e then Inl (RuntimeError ''TPU glossary entry must be a JSON object'')
         else if kind \<noteq> ''class'' \<and> kind \<noteq> ''subject'' then Inl (RuntimeError (''invalid TPU glossary kind: '' @ rp (JStr kind)))
         else if [] \<in> set [code, name, text, ref] then Inl (RuntimeError ''TPU glossary entry is missing required fields'')
         else if map_of entries (kind, code) \<noteq> None
         then Inl (RuntimeError (''duplicate TPU glossary entry: '' @ kind @ '':'' @ code))
         else load_entries rp v pub src (entries @ [((kind, code), \<lparr>tp_kind = kind, tp_code = code, tp_name = name,
           tp_definition = text, tp_version = v, tp_publisher = pub, tp_source = src, tp_ref = ref\<rparr>)]) es)"

definition load_tpu_catalog :: "(json \<Rightarrow> string) \<Rightarrow> (string \<Rightarrow> json option) \<Rightarrow> files \<Rightarrow> string \<Rightarrow> tpu_catalog res" where
  "load_tpu_catalog rp parse read path = (case read path of
     None \<Rightarrow> Inl (RuntimeError (''TPU glossary snapshot not found: '' @ path))
   | Some t \<Rightarrow> (case parse t of
       None \<Rightarrow> Inl (RuntimeError (''invalid TPU glossary JSON: '' @ path))
     | Some doc \<Rightarrow> (let raw = last_values doc; kvs = as_obj raw; v = field_text rp kvs ''tpu_version'';
           pub = field_text rp kvs ''publisher''; src = field_text rp kvs ''source''; label = field_text rp kvs ''source_version_label''
         in if \<not> is_obj raw then Inl (RuntimeError ''TPU glossary root must be a JSON object'')
            else if \<not> py_eq (obj_get kvs ''schema_version'') (JInt 1)
            then Inl (RuntimeError (''unsupported TPU glossary schema_version: '' @ rp (obj_get kvs ''schema_version'')))
            else if [] \<in> set [v, pub, src, label]
            then Inl (RuntimeError ''TPU glossary snapshot is missing source/version metadata'')
            else if \<not> is_arr (obj_get kvs ''entries'') then Inl (RuntimeError ''TPU glossary entries must be a JSON array'')
            else res_bind (load_entries rp v pub src [] (as_arr (obj_get kvs ''entries''))) (\<lambda>entries.
              Inr \<lparr>tc_version = v, tc_publisher = pub, tc_source = src, tc_label = label, tc_entries = entries\<rparr>))))"

text \<open>The cache by path returns what the first loading returned.\<close>

definition get_tpu_catalog ::
  "(json \<Rightarrow> string) \<Rightarrow> (string \<Rightarrow> json option) \<Rightarrow> files \<Rightarrow> (string \<Rightarrow> string option) \<Rightarrow> string \<Rightarrow> string \<Rightarrow> tpu_catalog res" where
  "get_tpu_catalog rp parse read env runtime packaged = load_tpu_catalog rp parse read (catalog_path read env runtime packaged)"

subsection \<open>The definitions of a process\<close>

definition subject_code :: "(json \<Rightarrow> string) \<Rightarrow> json \<Rightarrow> string option" where
  "subject_code rp s = (let v = obj_get (as_obj s) ''code'' in
     if \<not> is_obj s \<or> v = JNull then None else nullif_empty (strip (py_str rp v)))"

definition resolve_process_tpu_definitions :: "(json \<Rightarrow> string) \<Rightarrow> tpu_catalog \<Rightarrow> json \<Rightarrow> json list \<Rightarrow> tpu_definition list" where
  "resolve_process_tpu_definitions rp c class_code subjects =
     (case resolve_code rp c ''class'' class_code of None \<Rightarrow> [] | Some t \<Rightarrow> [t]) @
     List.map_filter (\<lambda>code. resolve_code rp c ''subject'' (JStr code)) (first_seen (List.map_filter (subject_code rp) subjects))"

definition resolve_process_tpu_context ::
  "(json \<Rightarrow> string) \<Rightarrow> (string \<Rightarrow> string) \<Rightarrow> tpu_catalog \<Rightarrow> json \<Rightarrow> json list \<Rightarrow> json list" where
  "resolve_process_tpu_context rp sha c class_code subjects =
     map (as_context sha) (resolve_process_tpu_definitions rp c class_code subjects)"

subsection \<open>What a loaded catalog holds\<close>

definition entry_ok :: "(string \<times> string) \<times> tpu_definition \<Rightarrow> bool" where
  "entry_ok e \<longleftrightarrow> (case e of ((kind, code), t) \<Rightarrow> tp_kind t = kind \<and> tp_code t = code \<and> (kind = ''class'' \<or> kind = ''subject'') \<and>
     list_all (\<lambda>s. s \<noteq> [] \<and> strip s = s) [code, tp_version t, tp_publisher t, tp_source t, tp_ref t])"

lemma field_text_stripped [simp]: "strip (field_text rp kvs name) = field_text rp kvs name"
  by (simp add: field_text_def)

lemma load_entries_ok:
  "load_entries rp v pub src entries es = Inr r \<Longrightarrow> list_all entry_ok entries \<Longrightarrow>
     list_all (\<lambda>s. s \<noteq> [] \<and> strip s = s) [v, pub, src] \<Longrightarrow> list_all entry_ok r"
proof (induction es arbitrary: entries)
  case (Cons e es)
  then show ?case
    by (simp add: Let_def split: if_splits) (rule Cons.IH, assumption, auto simp: entry_ok_def)
qed simp

lemma loaded_entries_ok: "load_tpu_catalog rp parse read path = Inr c \<Longrightarrow> list_all entry_ok (tc_entries c)"
  by (auto simp: load_tpu_catalog_def Let_def split: option.splits if_splits dest!: load_entries_ok)

lemma resolved_entry:
  assumes "list_all entry_ok (tc_entries c)" "resolve_code rp c kind code = Some t"
  shows "entry_ok ((kind, strip (py_str rp code)), t)"
  using assms by (auto simp: resolve_code_def Let_def list_all_iff split: if_splits dest!: map_of_SomeD)

lemma resolved_codes:
  assumes "list_all entry_ok (tc_entries c)" "distinct codes" "list_all (\<lambda>s. strip s = s) codes"
  shows "distinct (map tp_code (List.map_filter (\<lambda>code. resolve_code rp c ''subject'' (JStr code)) codes)) \<and>
    set (map tp_code (List.map_filter (\<lambda>code. resolve_code rp c ''subject'' (JStr code)) codes)) \<subseteq> set codes \<and>
    list_all (\<lambda>t. tp_kind t = ''subject'') (List.map_filter (\<lambda>code. resolve_code rp c ''subject'' (JStr code)) codes)"
  using assms(2,3)
proof (induction codes)
  case (Cons s codes)
  show ?case
  proof (cases "resolve_code rp c ''subject'' (JStr s)")
    case None
    with Cons show ?thesis by (auto simp: List.map_filter_simps)
  next
    case (Some t)
    from resolved_entry [OF assms(1) Some] Cons.prems have "tp_code t = s" "tp_kind t = ''subject''" by (simp_all add: entry_ok_def)
    with Some Cons show ?thesis by (auto simp: List.map_filter_simps)
  qed
qed (simp add: List.map_filter_simps)

lemma first_seen_facts [simp]: "distinct (first_seen xs)" "set (first_seen xs) = set xs"
  by (simp_all add: first_seen_def)

definition glossary_key :: "tpu_definition \<Rightarrow> string \<times> string" where
  "glossary_key t = (tp_kind t, tp_code t)"

lemma resolved_definitions:
  assumes "list_all entry_ok (tc_entries c)"
  shows "distinct (map glossary_key (resolve_process_tpu_definitions rp c k subjects)) \<and>
    list_all (\<lambda>t. \<exists>key. entry_ok (key, t)) (resolve_process_tpu_definitions rp c k subjects)"
proof -
  let ?codes = "first_seen (List.map_filter (subject_code rp) subjects)"
  let ?subjects = "List.map_filter (\<lambda>code. resolve_code rp c ''subject'' (JStr code)) ?codes"
  have stripped: "list_all (\<lambda>s. strip s = s) ?codes"
    by (auto simp: list_all_iff List.map_filter_def subject_code_def nullif_empty_def Let_def split: if_splits)
  note codes = resolved_codes [OF assms first_seen_facts(1) stripped, of rp]
  then have "inj_on glossary_key (set ?subjects)" and kinds: "\<And>t. t \<in> set ?subjects \<Longrightarrow> tp_kind t = ''subject''"
    by (auto simp: glossary_key_def list_all_iff distinct_map inj_on_def)
  with codes have apart: "distinct (map glossary_key ?subjects)" by (simp add: distinct_map)
  have ok: "list_all (\<lambda>t. \<exists>key. entry_ok (key, t)) ?subjects"
    using resolved_entry [OF assms] by (fastforce simp: list_all_iff List.map_filter_def)
  show ?thesis
  proof (cases "resolve_code rp c ''class'' k")
    case None
    with apart ok show ?thesis by (simp add: resolve_process_tpu_definitions_def)
  next
    case (Some t)
    from resolved_entry [OF assms Some] have "entry_ok ((''class'', strip (py_str rp k)), t)" .
    moreover from this have "glossary_key t \<notin> glossary_key ` set ?subjects"
      using kinds by (auto simp: entry_ok_def glossary_key_def)
    ultimately show ?thesis using Some apart ok by (auto simp: resolve_process_tpu_definitions_def)
  qed
qed

subsection \<open>Storing what was resolved\<close>

definition row_key :: "glossary_row \<Rightarrow> string \<times> string" where
  "row_key r = (gl_kind r, gl_code r)"

lemma insert_apart:
  assumes "list_all (\<lambda>r. gl_summary r = sid \<and> 0 \<le> gl_order r \<and> summary_exists sid (gl_process r) (gl_version r) d) rows"
    and "distinct (map row_key rows)" "distinct (map gl_order rows)"
    and "list_all (\<lambda>x. gl_summary x = sid \<longrightarrow> row_key x \<notin> row_key ` set rows \<and> gl_order x \<notin> gl_order ` set rows) (used_glossary d)"
  shows "for_each insert_glossary rows d = (d\<lparr>used_glossary := used_glossary d @ rows\<rparr>, Inr ())"
  using assms
proof (induction rows arbitrary: d)
  case (Cons r rows)
  let ?d = "d\<lparr>used_glossary := used_glossary d @ [r]\<rparr>"
  have "glossary_ok r d"
    using Cons.prems by (auto simp: glossary_ok_def list_all_iff row_key_def)
  then have "insert_glossary r d = (?d, Inr ())" by (simp add: insert_glossary_def prog_simps)
  moreover have "for_each insert_glossary rows ?d = (?d\<lparr>used_glossary := used_glossary ?d @ rows\<rparr>, Inr ())"
    using Cons.prems by (intro Cons.IH) (auto simp: list_all_iff summary_exists_def)
  ultimately show ?case by (simp add: prog_simps)
qed (simp add: prog_simps)

definition row_of_definition :: "(string \<Rightarrow> string) \<Rightarrow> uuid \<Rightarrow> uuid \<Rightarrow> uuid \<Rightarrow> nat \<times> tpu_definition \<Rightarrow> glossary_row" where
  "row_of_definition sha sid pid vid it = (case it of (i, t) \<Rightarrow>
     \<lparr>gl_summary = sid, gl_process = pid, gl_version = vid, gl_kind = tp_kind t, gl_code = tp_code t, gl_tpu_version = tp_version t,
      gl_publisher = tp_publisher t, gl_source = tp_source t, gl_ref = tp_ref t, gl_sha256 = sha (tp_definition t), gl_order = int i\<rparr>)"

lemma accepted_definition:
  assumes "entry_ok (key, t)" "sha256_ok (sha (tp_definition t))" "strip (sha (tp_definition t)) = sha (tp_definition t)"
  shows "glossary_row_of sid pid vid (as_provenance sha (i, t)) = Inr (row_of_definition sha sid pid vid (i, t))"
proof -
  have "strip ''class'' = ''class''" "strip ''subject'' = ''subject''" by code_simp+
  with assms show ?thesis
    by (auto simp: glossary_row_of_def as_provenance_def row_of_definition_def entry_ok_def Let_def split: prod.splits)
qed

lemma map_res_map: "map_res f (map g xs) = map_res (\<lambda>x. f (g x)) xs"
  by (induction xs) simp_all

lemma map_res_all: "(\<And>x. x \<in> set xs \<Longrightarrow> f x = Inr (g x)) \<Longrightarrow> map_res f xs = Inr (map g xs)"
  by (induction xs) auto

lemma enumerate_rows:
  "map row_key (map (row_of_definition sha sid pid vid) (enumerate n ts)) = map glossary_key ts"
  "map gl_order (map (row_of_definition sha sid pid vid) (enumerate n ts)) = map int [n..<n + length ts]"
  by (induction ts arbitrary: n)
     (simp_all add: row_of_definition_def row_key_def glossary_key_def upt_conv_Cons del: upt_Suc)

text \<open>The glossary of a process can always be recorded. Whatever the snapshot holds, the definitions that
  are resolved from it for a process carry a kind, a code and all the metadata the record of a summary
  demands, no code twice; so storing them with an existing summary never fails, and replaces exactly
  what was recorded for it before.\<close>

theorem glossary_provenance_storable:
  assumes "load_tpu_catalog rp parse read path = Inr c"
    and "ts = resolve_process_tpu_definitions rp c class_code subjects"
    and "\<And>s. sha256_ok (sha s) \<and> strip (sha s) = sha s"
    and "summary_exists sid pid vid d"
  shows "replace_summary_glossary_sources sid pid vid (map (as_provenance sha) (enumerate 0 ts)) d =
    (d\<lparr>used_glossary := filter (\<lambda>r. gl_summary r \<noteq> sid) (used_glossary d) @ map (row_of_definition sha sid pid vid) (enumerate 0 ts)\<rparr>, Inr ())"
proof -
  let ?rows = "map (row_of_definition sha sid pid vid) (enumerate 0 ts)"
  let ?d = "d\<lparr>used_glossary := filter (\<lambda>r. gl_summary r \<noteq> sid) (used_glossary d)\<rparr>"
  have apart: "distinct (map glossary_key ts)" and ok: "list_all (\<lambda>t. \<exists>key. entry_ok (key, t)) ts"
    using resolved_definitions [OF loaded_entries_ok [OF assms(1)]] assms(2) by blast+
  have row: "glossary_row_of sid pid vid (as_provenance sha it) = Inr (row_of_definition sha sid pid vid it)" if "it \<in> set (enumerate 0 ts)" for it
  proof -
    from that have "snd it \<in> set ts" by (metis in_set_zip enumerate_eq_zip nth_mem)
    with ok obtain key where "entry_ok (key, snd it)" by (auto simp: list_all_iff)
    from accepted_definition [OF this, of sha sid pid vid "fst it"] assms(3) show ?thesis by simp
  qed
  have rows: "map_res (glossary_row_of sid pid vid) (map (as_provenance sha) (enumerate 0 ts)) = Inr ?rows"
    unfolding map_res_map using row by (rule map_res_all)
  have "distinct (map row_key ?rows)" "distinct (map gl_order ?rows)"
    using apart unfolding enumerate_rows by (simp_all add: distinct_map)
  moreover have "list_all (\<lambda>r. gl_summary r = sid \<and> 0 \<le> gl_order r \<and> summary_exists sid (gl_process r) (gl_version r) ?d) ?rows"
    using assms(4) by (auto simp: list_all_iff row_of_definition_def summary_exists_def)
  ultimately have "for_each insert_glossary ?rows ?d = (?d\<lparr>used_glossary := used_glossary ?d @ ?rows\<rparr>, Inr ())"
    by (intro insert_apart) (auto simp: list_all_iff)
  with rows show ?thesis
    by (simp add: replace_summary_glossary_sources_def run_simps)
qed

definition glossary_document :: json where
  "glossary_document = JObj [(''schema_version'', JInt 1), (''tpu_version'', JStr ''v''), (''publisher'', JStr ''CNJ''),
     (''source'', JStr ''SGT''), (''source_version_label'', JStr ''l''),
     (''entries'', JArr [JObj [(''kind'', JStr ''class''), (''code'', JInt 7), (''name'', JStr ''n''), (''definition'', JStr ''d''),
        (''source_ref'', JStr ''r'')]])]"

theorem glossary_provenance_storable_witness:
  "\<exists>c t d'. load_tpu_catalog no_repr (\<lambda>_. Some glossary_document) Some [] = Inr c \<and>
     resolve_process_tpu_definitions no_repr c (JStr ''7'') [] = [t] \<and>
     replace_summary_glossary_sources 1 3 2 [as_provenance (\<lambda>_. replicate 64 (CHR ''0'')) (0, t)] provenance_db = (d', Inr ()) \<and>
     length (used_glossary d') = 1"
proof -
  obtain c where c: "load_tpu_catalog no_repr (\<lambda>_. Some glossary_document) Some [] = Inr c"
    and one: "length (resolve_process_tpu_definitions no_repr c (JStr ''7'') []) = 1"
  proof -
    have "case load_tpu_catalog no_repr (\<lambda>_. Some glossary_document) Some [] of Inl _ \<Rightarrow> False
      | Inr c \<Rightarrow> length (resolve_process_tpu_definitions no_repr c (JStr ''7'') []) = 1" by code_simp
    with that show thesis by (auto split: sum.splits)
  qed
  then obtain t where t: "resolve_process_tpu_definitions no_repr c (JStr ''7'') [] = [t]"
    by (auto simp: length_Suc_conv)
  let ?sha = "\<lambda>_ :: string. replicate 64 (CHR ''0'')"
  have sha: "sha256_ok (?sha s) \<and> strip (?sha s) = ?sha s" for s
    by (auto simp: sha256_ok_def hexdigit_def list_all_iff isspace_c_def intro!: strip_id)
  have "summary_exists 1 3 2 provenance_db"
    by (simp add: summary_exists_def provenance_db_def step_db_def store_db_def empty_db_def new_process_def staged_version_def
        new_version_def)
  from glossary_provenance_storable [OF c t [symmetric] sha this] c t show ?thesis
    by (auto simp: provenance_db_def step_db_def store_db_def empty_db_def)
qed

end
