(* ===== verification/SummaryStore.thy ===== *)
theory SummaryStore
  imports Provenance Verification GenerationResult
begin

text \<open>
  The storage half of \<open>app/rag.py\<close>: which stored summary counts as publishable
  (\<open>_summary_row_is_publishable\<close>, \<open>_load_publishable_summary\<close>) and when a new one replaces it
  (\<open>_persist_summary\<close>). The ids the database generates and its clock are arguments; the row of a
  version is unique, and the row lock makes the transaction a single step.
\<close>

subsection \<open>Publishable summaries\<close>

definition summary_row_is_publishable ::
  "(json \<Rightarrow> string) \<Rightarrow> (string \<Rightarrow> json option) \<Rightarrow> db \<Rightarrow> summary_row \<Rightarrow> process_row \<Rightarrow> bool res" where
  "summary_row_is_publishable rp parse d s p =
     (if \<not> sm_passed s then Inr False
      else if 0 < p_secrecy p then Inr (is_restricted_local_summary rp parse s p)
      else case decode_json_object parse ''summary structured output'' (sm_structured s) of
        Inl e \<Rightarrow> (if is_type_error e \<or> is_value_error e then Inr False else Inl e)
      | Inr doc \<Rightarrow> claim_evidence_is_publishable rp parse (document_of_pydict doc) (load_summary_claim_evidence (sm_id s) d) p)"

text \<open>The joins: the summary of the version with its process, which for a publication must have the
  version as its current one (\<open>current_summary\<close>).\<close>

definition existing_summary :: "uuid \<Rightarrow> uuid \<Rightarrow> db \<Rightarrow> (summary_row \<times> process_row) option" where
  "existing_summary pid vid d =
     (case find (\<lambda>s. sm_process s = pid \<and> sm_version s = vid) (summaries d) of
        None \<Rightarrow> None
      | Some s \<Rightarrow> map_option (Pair s) (find (\<lambda>p. p_id p = pid) (processes d)))"

record stored_summary =
  ss_passed :: bool
  ss_errors :: "string list"
  ss_model :: string
  ss_prompt :: string
  ss_ms :: int
  ss_usage :: json
  ss_cache_hit :: "bool option"
  ss_cost :: "rat option"

definition load_publishable_summary ::
  "(json \<Rightarrow> string) \<Rightarrow> (string \<Rightarrow> json option) \<Rightarrow> uuid \<Rightarrow> uuid \<Rightarrow> db \<Rightarrow> stored_summary option res" where
  "load_publishable_summary rp parse pid vid d = (case current_summary pid vid d of
     None \<Rightarrow> Inr None
   | Some (s, p) \<Rightarrow> (if \<not> sm_passed s then Inr None
       else res_bind (summary_row_is_publishable rp parse d s p) (\<lambda>ok. Inr (if \<not> ok then None
         else Some \<lparr>ss_passed = sm_passed s, ss_errors = sm_errors s, ss_model = sm_model s, ss_prompt = sm_prompt s,
           ss_ms = sm_generation_ms s, ss_usage = sm_usage s, ss_cache_hit = sm_cache_hit s, ss_cost = sm_cost s\<rparr>))))"

subsection \<open>A new summary\<close>

record new_summary =
  ns_markdown :: string
  ns_passed :: bool
  ns_errors :: "string list"
  ns_ms :: int
  ns_model :: string
  ns_prompt :: string
  ns_usage :: json
  ns_cache_hit :: "bool option"
  ns_cost :: "rat option"
  ns_sources :: "movement_used list"
  ns_attachments :: "chunk_used list"
  ns_glossary :: "definition_used list"
  ns_flags :: "string list"
  ns_structured :: json
  ns_claims :: "material_claim list"
  ns_catalog :: "(string \<times> evidence_source) list"
  ns_verification :: "(string \<times> claim_verification) list"

definition summary_row_of :: "uuid \<Rightarrow> timestamp \<Rightarrow> uuid \<Rightarrow> uuid \<Rightarrow> new_summary \<Rightarrow> summary_row" where
  "summary_row_of nid now pid vid n =
     \<lparr>sm_id = nid, sm_process = pid, sm_version = vid, sm_structured = ns_structured n, sm_model = ns_model n,
      sm_prompt = ns_prompt n, sm_passed = ns_passed n, sm_errors = ns_errors n, sm_markdown = ns_markdown n,
      sm_generation_ms = ns_ms n, sm_usage = ns_usage n, sm_cache_hit = ns_cache_hit n, sm_cost = ns_cost n,
      sm_flags = ns_flags n, sm_created = now\<rparr>"

text \<open>The evidence of the new claims as it is put together for the publication check.\<close>

definition incoming_item :: "(string \<times> claim_verification) list \<Rightarrow> material_claim \<Rightarrow> json" where
  "incoming_item verification c = (let v = map_of verification (mc_id c) in
     JObj [(''claim_id'', JStr (mc_id c)), (''text'', JStr (mc_text c)), (''evidence_refs'', JArr (map JStr (mc_refs c))),
       (''verification_status'', JStr (case v of None \<Rightarrow> ''not_evaluated'' | Some cv \<Rightarrow> cv_status cv)),
       (''sources'', JArr (case v of None \<Rightarrow> [] | Some cv \<Rightarrow> map (\<lambda>r.
          JObj [(''evidence_ref'', JStr (rv_ref r)), (''verification_status'', JStr (rv_status r))]) (cv_relations cv)))])"

definition incoming_publishable ::
  "(json \<Rightarrow> string) \<Rightarrow> (string \<Rightarrow> json option) \<Rightarrow> new_summary \<Rightarrow> process_row \<Rightarrow> bool res" where
  "incoming_publishable rp parse n p =
     (if \<not> ns_passed n then Inr False
      else if 0 < p_secrecy p then Inr (is_restricted_local_summary rp parse (summary_row_of 0 0 0 0 n) p)
      else claim_evidence_is_publishable rp parse (ns_structured n) (map (incoming_item (ns_verification n)) (ns_claims n)) p)"

definition replace_approved ::
  "(json \<Rightarrow> string) \<Rightarrow> (string \<Rightarrow> json option) \<Rightarrow> new_summary \<Rightarrow> (summary_row \<times> process_row) option \<Rightarrow> db \<Rightarrow> bool res" where
  "replace_approved rp parse n row d = (case row of
     None \<Rightarrow> Inr False
   | Some (s, p) \<Rightarrow> res_bind (incoming_publishable rp parse n p) (\<lambda>incoming.
       if \<not> (sm_passed s \<and> incoming) then Inr False
       else res_bind (summary_row_is_publishable rp parse d s p) (\<lambda>good.
         Inr (\<not> good \<or> sm_prompt s \<noteq> ns_prompt n \<or> sm_model s \<noteq> ns_model n))))"

text \<open>\<open>INSERT ... ON CONFLICT DO UPDATE ... WHERE ... RETURNING id\<close>; the process and the version exist.\<close>

definition upsert_summary ::
  "uuid \<Rightarrow> timestamp \<Rightarrow> uuid \<Rightarrow> uuid \<Rightarrow> bool \<Rightarrow> new_summary \<Rightarrow> (db, uuid option) prog" where
  "upsert_summary nid now pid vid replace n =
     bind (query (\<lambda>d. (find (\<lambda>s. sm_process s = pid \<and> sm_version s = vid) (summaries d),
        pid \<in> p_id ` set (processes d) \<and> vid \<in> v_id ` set (versions d)))) (\<lambda>(old, refs).
     case old of
       None \<Rightarrow> (if \<not> refs then raise (DatabaseError ''foreign_key_violation'')
         else then_do (modify (\<lambda>d. d\<lparr>summaries := summaries d @ [summary_row_of nid now pid vid n]\<rparr>)) (ret (Some nid)))
     | Some s \<Rightarrow> (if replace \<or> \<not> sm_passed s
         then then_do (modify (\<lambda>d. d\<lparr>summaries := update_where (\<lambda>r. sm_process r = pid \<and> sm_version r = vid)
           (\<lambda>r. summary_row_of (sm_id r) now pid vid n) (summaries d)\<rparr>)) (ret (Some (sm_id s)))
         else ret None))"

text \<open>What is stored with a summary; \<open>cid\<close> numbers the rows of the claims.\<close>

definition store_sources :: "(nat \<Rightarrow> uuid) \<Rightarrow> uuid \<Rightarrow> uuid \<Rightarrow> uuid \<Rightarrow> new_summary \<Rightarrow> (db, unit) prog" where
  "store_sources cid sid pid vid n =
     then_do (replace_summary_sources sid pid vid (ns_sources n))
    (then_do (replace_summary_attachment_sources sid pid vid (ns_attachments n))
    (then_do (replace_summary_claim_evidence sid pid vid (map (\<lambda>(i, c). (cid i, c)) (enumerate 0 (ns_claims n)))
        (ns_catalog n) (ns_verification n))
       (replace_summary_glossary_sources sid pid vid (ns_glossary n))))"

definition persist_summary ::
  "(json \<Rightarrow> string) \<Rightarrow> (string \<Rightarrow> json option) \<Rightarrow> uuid \<Rightarrow> (nat \<Rightarrow> uuid) \<Rightarrow> timestamp \<Rightarrow> uuid \<Rightarrow> uuid \<Rightarrow> new_summary \<Rightarrow>
     (db, bool) prog" where
  "persist_summary rp parse nid cid now pid vid n = transaction
     (bind (query (\<lambda>d. replace_approved rp parse n (existing_summary pid vid d) d)) (\<lambda>decision.
      bind (lift_res decision) (\<lambda>replace.
      bind (upsert_summary nid now pid vid replace n) (\<lambda>stored.
      case stored of
        None \<Rightarrow> ret False
      | Some sid \<Rightarrow> then_do (store_sources cid sid pid vid n) (ret True)))))"

subsection \<open>Facts about replacing\<close>

lemma transaction_run: "m d = (d', Inr y) \<Longrightarrow> transaction m d = (d', Inr y)"
  by (simp add: transaction_def)

lemma kept_summary:
  assumes "existing_summary pid vid d = Some (s, p)" "sm_passed s" "replace_approved rp parse n (Some (s, p)) d = Inr False"
  shows "persist_summary rp parse nid cid now pid vid n d = (d, Inr False)"
proof -
  from assms(1) have s: "find (\<lambda>s. sm_process s = pid \<and> sm_version s = vid) (summaries d) = Some s"
    by (auto simp: existing_summary_def split: option.splits)
  with assms show ?thesis
    by (simp add: persist_summary_def upsert_summary_def prog_simps transaction_def)
qed

lemma refused_decision: "replace_approved rp parse n (Some (s, p)) d = Inl e \<Longrightarrow> existing_summary pid vid d = Some (s, p) \<Longrightarrow>
    persist_summary rp parse nid cid now pid vid n d = (d, Inl e)"
  by (simp add: persist_summary_def prog_simps transaction_def)

text \<open>An evaluated claim without a reason does not pass the publication check.\<close>

definition evaluated_claim :: "(string \<times> claim_verification) list \<Rightarrow> material_claim \<Rightarrow> bool" where
  "evaluated_claim verification c \<longleftrightarrow>
     (case map_of verification (mc_id c) of None \<Rightarrow> False | Some v \<Rightarrow> cv_status v \<noteq> ''not_evaluated'')"

lemma incoming_refused:
  assumes "evaluated_claim verification c"
  shows "claim_verification_metadata (as_obj (incoming_item verification c)) = Inr (False, False)"
proof -
  from assms obtain v where v: "map_of verification (mc_id c) = Some v" "cv_status v \<noteq> ''not_evaluated''"
    by (auto simp: evaluated_claim_def split: option.splits)
  then show ?thesis
    by (auto simp: claim_verification_metadata_def incoming_item_def obj_get_def status_acceptable_def
        is_evaluated_status_def valid_verification_reason_def Let_def)
qed

lemma items_refused:
  "x \<in> set xs \<Longrightarrow> claim_verification_metadata (as_obj x) = Inr (False, False) \<Longrightarrow> items_publishable xs \<noteq> Inr True"
  by (induction xs) (auto simp: Let_def split: if_splits option.splits)

text \<open>The check of the new claims raises nothing.\<close>

lemma metadata_total:
  assumes "obj_get kvs ''verification_status'' = JStr t"
  shows "\<exists>x. claim_verification_metadata kvs = Inr x" "\<exists>x. source_verification_metadata kvs = Inr x"
  using assms by (auto simp: claim_verification_metadata_def source_verification_metadata_def status_acceptable_def Let_def)

lemma incoming_sources:
  "\<exists>r. sources_ok (map (\<lambda>r. JObj [(''evidence_ref'', JStr (rv_ref r)), (''verification_status'', JStr (rv_status r))]) rs) seen = Inr r"
proof (induction rs arbitrary: seen)
  case (Cons r rs)
  obtain b e where "source_verification_metadata [(''evidence_ref'', JStr (rv_ref r)), (''verification_status'', JStr (rv_status r))] = Inr (b, e)"
    using metadata_total(2) [of _ "rv_status r"] by (fastforce simp: obj_get_def)
  with Cons.IH show ?case by auto
qed simp

lemma incoming_status: "\<exists>t. obj_get (as_obj (incoming_item v c)) ''verification_status'' = JStr t"
  by (simp add: incoming_item_def obj_get_def Let_def)

lemma incoming_relations:
  fixes v :: "(string \<times> claim_verification) list"
  shows "\<exists>rs :: relation_verification list. obj_get (as_obj (incoming_item v c)) ''sources'' =
     JArr (map (\<lambda>r. JObj [(''evidence_ref'', JStr (rv_ref r)), (''verification_status'', JStr (rv_status r))]) rs)"
proof (cases "map_of v (mc_id c)")
  case None
  then show ?thesis by (intro exI [of _ "[]"]) (simp add: incoming_item_def obj_get_def Let_def)
next
  case (Some cv)
  then show ?thesis by (intro exI [of _ "cv_relations cv"]) (simp add: incoming_item_def obj_get_def Let_def)
qed

lemma incoming_items: "\<exists>b. items_publishable (map (incoming_item v) cs) = Inr b"
proof (induction cs)
  case Nil
  show ?case by (rule exI [of _ True]) simp
next
  case (Cons c cs)
  let ?x = "as_obj (incoming_item v c)"
  obtain t where "obj_get ?x ''verification_status'' = JStr t" using incoming_status by blast
  from metadata_total(1) [OF this] obtain b e where meta: "claim_verification_metadata ?x = Inr (b, e)" by fastforce
  obtain rs :: "relation_verification list" where sources: "obj_get ?x ''sources'' =
      JArr (map (\<lambda>r. JObj [(''evidence_ref'', JStr (rv_ref r)), (''verification_status'', JStr (rv_status r))]) rs)"
    using incoming_relations by blast
  obtain r where "sources_ok (as_arr (obj_get ?x ''sources'')) False = Inr r"
    unfolding sources using incoming_sources [of rs False] by auto
  with Cons.IH meta sources show ?case by (cases r) (auto simp: Let_def)
qed

lemma incoming_total: "\<exists>b. incoming_publishable rp parse n p = Inr b"
  using incoming_items [of "ns_verification n" "ns_claims n"]
  by (auto simp: incoming_publishable_def claim_evidence_is_publishable_def split: sum.split)

subsection \<open>Properties\<close>

text \<open>C30: A published summary is never overwritten by a generation of its own kind. When the stored summary
  of a version is publishable, storing another one made with the same model and the same version of the
  prompt changes nothing, whatever its text, its validation and its claims are.\<close>

theorem published_summary_kept:
  assumes "existing_summary pid vid d = Some (s, p)" "summary_row_is_publishable rp parse d s p = Inr True"
    and "sm_model s = ns_model n" "sm_prompt s = ns_prompt n"
  shows "persist_summary rp parse nid cid now pid vid n d = (d, Inr False)"
proof -
  from assms(2) have passed: "sm_passed s" by (simp add: summary_row_is_publishable_def split: if_splits)
  obtain b where "incoming_publishable rp parse n p = Inr b" using incoming_total by blast
  with assms(2-4) have "replace_approved rp parse n (Some (s, p)) d = Inr False" by (simp add: replace_approved_def)
  from kept_summary [OF assms(1) passed this] show ?thesis .
qed


definition plain_summary :: new_summary where
  "plain_summary = \<lparr>ns_markdown = [], ns_passed = True, ns_errors = [], ns_ms = 0, ns_model = restricted_model,
     ns_prompt = restricted_prompt_version, ns_usage = JObj [], ns_cache_hit = None, ns_cost = None, ns_sources = [],
     ns_attachments = [], ns_glossary = [], ns_flags = [], ns_structured = JNull, ns_claims = [], ns_catalog = [],
     ns_verification = []\<rparr>"

lemma secret_existing: "existing_summary 3 2 secret_db = Some (secret_summary, secret_process)"
  by (simp add: existing_summary_def secret_db_def secret_summary_def secret_process_def)

theorem published_summary_kept_witness:
  "persist_summary no_repr (\<lambda>_. None) 9 (\<lambda>i. i) 5 3 2 plain_summary secret_db = (secret_db, Inr False)"
proof -
  have "summary_row_is_publishable no_repr (\<lambda>_. None) secret_db secret_summary secret_process = Inr True"
    using secret_restricted by (simp add: summary_row_is_publishable_def secret_summary_def secret_process_def)
  from published_summary_kept [OF secret_existing this] show ?thesis
    by (simp add: secret_summary_def plain_summary_def)
qed

text \<open>A public process whose summary passed without any stored document.\<close>

definition stale_db :: db where
  "stale_db = secret_db\<lparr>processes := [secret_process\<lparr>p_secrecy := 0\<rparr>], summaries := [secret_summary\<lparr>sm_structured := JNull\<rparr>]\<rparr>"

definition judged_claim :: material_claim where
  "judged_claim = \<lparr>mc_id = ''synthesis'', mc_class = ''synthesis'', mc_text = ''a'', mc_refs = []\<rparr>"

definition judged_summary :: new_summary where
  "judged_summary = plain_summary\<lparr>ns_prompt := ''v5'', ns_claims := [judged_claim],
     ns_verification := [(''synthesis'', \<lparr>cv_id = ''synthesis'', cv_class = ''synthesis'', cv_status = ''supported'',
       cv_reason = ''r'', cv_fact_count = 1, cv_relations = []\<rparr>)]\<rparr>"


end
