(* ===== verification/SummaryContext.thy ===== *)
theory SummaryContext
  imports Glossary SummaryStore Datajud Worker
begin

text \<open>
  The reading half of \<open>app/rag.py\<close>: what a generation knows of a process. \<open>_load_process\<close> and
  \<open>_load_context\<close> collect the process, its glossary, the chosen movements, the attachments of the
  tenant and the warnings of the source; of a process under secrecy they keep the class and a few
  fields of the header. The context, a dict in the code, is a record: the keys without a leading
  underscore in their order, the others as fields. Every statement reads a database of its own, since
  other transactions may commit in between.
\<close>

subsection \<open>Parameters\<close>

text \<open>The clients of external models are parameters, together with what the library computes.\<close>

record services =
  sv_reader :: reader
  sv_codec :: codec
  sv_tables :: unicode_tables
  sv_log :: "rat \<Rightarrow> rat"
  sv_match :: "string \<Rightarrow> nat list \<Rightarrow> rat option"
  sv_float :: "string \<Rightarrow> pyfloat option"
  sv_time :: "timestamp \<Rightarrow> string"
  sv_env :: "string \<Rightarrow> string option"
  sv_files :: files
  sv_runtime :: string
  sv_packaged :: string
  sv_scorer :: "scorer option res"
  sv_embedding :: "rat list option res"
  sv_similarity :: "rat list \<Rightarrow> step_row \<Rightarrow> rat option"
  sv_index :: "(uuid \<Rightarrow> rat list \<Rightarrow> int \<Rightarrow> scores res) option"

abbreviation sv_repr :: "services \<Rightarrow> json \<Rightarrow> string" where
  "sv_repr S \<equiv> rd_repr (sv_reader S)"

record telemetry =
  tm_model :: string
  tm_attempts :: int
  tm_usage :: "(string \<times> int) list"
  tm_cache_hit :: bool
  tm_cost :: "rat option"

record summary_context =
  cx_public :: "(string \<times> json) list"
  cx_ref :: string
  cx_sources :: "movement_used list"
  cx_attachments :: "chunk_used list"
  cx_glossary :: "definition_used list"
  cx_flags :: "string list"
  cx_parsed :: "(string \<times> json) list option"
  cx_structured :: json
  cx_verification :: "(string \<times> claim_verification) list option"
  cx_telemetry :: "telemetry option"

record snapshots =
  sn_process :: db
  sn_steps :: db
  sn_vectors :: db
  sn_attachments :: db

subsection \<open>Limits and texts\<close>

definition provider_context_limits :: "(string \<Rightarrow> string option) \<Rightarrow> (int \<times> int \<times> int) res" where
  "provider_context_limits env =
     res_bind (positive_env_int env ''PROVIDER_PROMPT_MAX_CHARS'' 120000) (\<lambda>prompt_max.
     res_bind (positive_env_int env ''PROVIDER_STEP_TEXT_MAX_CHARS'' 12000) (\<lambda>step_max.
     res_bind (positive_env_int env ''PROVIDER_STEPS_TEXT_MAX_CHARS'' 80000) (\<lambda>total_max.
       if total_max < step_max
       then Inl (RuntimeError ''PROVIDER_STEP_TEXT_MAX_CHARS must not exceed PROVIDER_STEPS_TEXT_MAX_CHARS'')
       else if prompt_max \<le> total_max
       then Inl (RuntimeError ''PROVIDER_STEPS_TEXT_MAX_CHARS must be lower than PROVIDER_PROMPT_MAX_CHARS'')
       else Inr (prompt_max, step_max, total_max))))"

definition retrieval_query :: string where
  "retrieval_query = ''senten'' @ c_cedilla # ''a ac'' @ o_acute # ''rd'' @ a_tilde # ''o cita'' @ [c_cedilla, a_tilde] @
     ''o decis'' @ a_tilde # ''o audi'' @ CHR 0xEA # ''ncia pedido objeto situa'' @ [c_cedilla, a_tilde] @
     ''o atual tr'' @ CHR 0xE2 # ''nsito em julgado''"

definition empty_steps_warning :: string where
  "empty_steps_warning = ''Nenhum movimento processual foi fornecido no payload.''"

definition citation :: string where "citation = ''cita'' @ [c_cedilla, a_tilde] @ ''o''"

definition passive_party_warning :: string where
  "passive_party_warning = CHR ''H'' # a_acute # '' parte passiva sem representante normalizado e sem '' @ citation @
     '' expl'' @ i_acute # ''cita nos movimentos fornecidos.''"

definition step_texts :: "unicode_tables \<Rightarrow> int \<Rightarrow> int \<Rightarrow> ranked_step list \<Rightarrow> string list" where
  "step_texts T step_max total_max ranked =
     (let texts = map (\<lambda>r. truncate_text (view_text T (st_text (rk_step r))) (nat step_max)) ranked
      in if total_max < int (sum_list (map length texts)) then share_limit (nat total_max) texts else texts)"

definition step_view :: "services \<Rightarrow> ranked_step \<Rightarrow> string \<Rightarrow> json" where
  "step_view S r t = (let s = rk_step r in
     JObj [(''evidence_ref'', JStr (movement_evidence_ref (st_id s))), (''step_number'', JInt (st_number s)),
       (''occurred_at'', opt_json (JStr \<circ> sv_time S) (st_occurred s)),
       (''title'', opt_json (JStr \<circ> view_text (sv_tables S)) (st_title s)), (''text'', JStr t)])"

definition serialize_steps :: "services \<Rightarrow> ranked_step list \<Rightarrow> json list res" where
  "serialize_steps S ranked = res_bind (provider_context_limits (sv_env S)) (\<lambda>(_, step_max, total_max).
     Inr (map2 (step_view S) ranked (step_texts (sv_tables S) step_max total_max ranked)))"

subsection \<open>Warnings of the source\<close>

definition passive_party :: "(json \<Rightarrow> string) \<Rightarrow> json \<Rightarrow> bool" where
  "passive_party rp v \<longleftrightarrow> is_obj v \<and> casefold (field_text rp (as_obj v) ''side'') = ''passive''"

definition mentions_citation :: "step \<Rightarrow> bool" where
  "mentions_citation s \<longleftrightarrow> (\<exists>t \<in> {casefold (title_text s), casefold (st_text s)}. sublist citation t \<or> sublist ''citacao'' t)"

definition passive_party_attention_warnings :: "(json \<Rightarrow> string) \<Rightarrow> json list \<Rightarrow> json list \<Rightarrow> step list \<Rightarrow> string list" where
  "passive_party_attention_warnings rp parties representatives ss =
     (if \<not> list_ex (passive_party rp) parties \<or> representatives \<noteq> [] then []
      else if list_ex mentions_citation ss then [] else [passive_party_warning])"

definition gap_warning :: "int \<Rightarrow> int \<Rightarrow> string" where
  "gap_warning before after = CHR ''H'' # a_acute # '' salto na numera'' @ [c_cedilla, a_tilde] @ ''o de movimentos da fonte: '' @
     show_int before @ CHR 0x84 # show_int after @ ''.''"

definition source_step_gap_warnings :: "step list \<Rightarrow> string list" where
  "source_step_gap_warnings ss =
     (if length ss < 2 \<or> list_ex (\<lambda>s. st_source s = None) ss then []
      else let numbers = map (the \<circ> st_source) ss in
        map (\<lambda>(a, b). gap_warning a b) (filter (\<lambda>(a, b). a + 1 < b) (zip numbers (tl numbers))))"

subsection \<open>The process\<close>

definition conflict_fields :: "codec \<Rightarrow> uuid \<Rightarrow> uuid \<Rightarrow> db \<Rightarrow> string list" where
  "conflict_fields k pid vid d = sort_key (cd_collate k) (map pr_field
     (filter (\<lambda>r. pr_process r = pid \<and> pr_version r = vid \<and> pr_conflict r \<and> pr_source r = ''datajud'') (provenance_rows d)))"

definition load_process :: "services \<Rightarrow> uuid \<Rightarrow> uuid \<Rightarrow> db \<Rightarrow> ((string \<times> json) list \<times> string list) res" where
  "load_process S pid vid d = (let parse = cd_parse (sv_codec S) in
     case find (\<lambda>p. p_id p = pid \<and> p_current p = Some vid) (processes d) of
       None \<Rightarrow> Inl (LookupError ''process/version is not current or does not exist'')
     | Some p \<Rightarrow>
         res_bind (decode_json_list parse ''process subjects'' (p_subjects p)) (\<lambda>subjects.
         res_bind (decode_json_list parse ''process parties'' (p_parties p)) (\<lambda>parties.
         res_bind (decode_json_list parse ''process representatives'' (p_representatives p)) (\<lambda>representatives.
         res_bind (decode_json_object parse ''process header'' (p_header p)) (\<lambda>header.
           Inr ([(''code'', JStr (p_code p)), (''court'', p_court p), (''class_name'', p_class p), (''subjects'', JArr subjects),
              (''parties'', JArr parties), (''representatives'', JArr representatives), (''secrecy_level'', JInt (p_secrecy p)),
              (''header'', JObj (obj_of_pydict header))], conflict_fields (sv_codec S) pid vid d))))))"

subsection \<open>The context\<close>

definition under_secrecy :: "(string \<times> json) list \<Rightarrow> bool" where
  "under_secrecy public \<longleftrightarrow> (case optional_int (py_or (obj_get public ''secrecy_level'') (JInt 0)) of None \<Rightarrow> False | Some n \<Rightarrow> 0 < n)"

definition new_context :: "(string \<times> json) list \<Rightarrow> uuid \<Rightarrow> summary_context" where
  "new_context public vid = \<lparr>cx_public = public, cx_ref = process_evidence_ref vid, cx_sources = [], cx_attachments = [],
     cx_glossary = [], cx_flags = [], cx_parsed = None, cx_structured = JNull, cx_verification = None, cx_telemetry = None\<rparr>"

definition restricted_context :: "(string \<times> json) list \<Rightarrow> (string \<times> json) list" where
  "restricted_context base =
     [(''code'', obj_get base ''code''), (''class_name'', obj_get base ''class_name''),
      (''secrecy_level'', obj_get base ''secrecy_level''),
      (''header'', JObj (restricted_public_header (as_obj (obj_get base ''header'')))),
      (''validation_parties'', obj_get base ''parties''), (''parties'', JArr []), (''representatives'', JArr []),
      (''subjects'', JArr []), (''steps'', JArr [])]"

text \<open>\<open>_record_unicode_security_flags\<close>.\<close>

definition record_flags :: "string list \<Rightarrow> summary_context \<Rightarrow> summary_context" where
  "record_flags flags cx = cx\<lparr>cx_flags := sorted_texts (cx_flags cx @ flags)\<rparr>"

definition source_warnings :: "(json \<Rightarrow> string) \<Rightarrow> (string \<times> json) list \<Rightarrow> string list \<Rightarrow> step list \<Rightarrow> string list" where
  "source_warnings rp base conflicts ss =
     (if ss = [] then [empty_steps_warning] else source_step_gap_warnings ss) @
     passive_party_attention_warnings rp (as_arr (obj_get base ''parties'')) (as_arr (obj_get base ''representatives'')) ss @
     map conflict_warning conflicts"

text \<open>\<open>setdefault(''source_warnings'', []).extend(warnings)\<close> of a list of warnings, and of none.\<close>

definition add_warnings :: "string list \<Rightarrow> (string \<times> json) list \<Rightarrow> (string \<times> json) list" where
  "add_warnings ws public = (if ws = [] then public
     else obj_put ''source_warnings'' (JArr (as_arr (obj_get public ''source_warnings'') @ map JStr ws)) public)"

definition with_glossary :: "services \<Rightarrow> (string \<times> json) list \<Rightarrow> uuid \<Rightarrow> summary_context res" where
  "with_glossary S base vid = (let rp = sv_repr S; sha = rd_sha (sv_reader S) in
     res_bind (get_tpu_catalog rp (cd_parse (sv_codec S)) (sv_files S) (sv_env S) (sv_runtime S) (sv_packaged S)) (\<lambda>c.
       let ts = resolve_process_tpu_definitions rp c (obj_get (as_obj (obj_get base ''header'')) ''class_code'')
            (as_arr (obj_get base ''subjects''));
           cx = new_context base vid
       in Inr (if ts = [] then cx
            else cx\<lparr>cx_public := base @ [(''tpu_glossary'', JArr (map (as_context sha) ts))],
                    cx_glossary := map (as_provenance sha) (enumerate 0 ts)\<rparr>)))"

definition chosen_steps :: "services \<Rightarrow> uuid \<Rightarrow> step list \<Rightarrow> db \<Rightarrow> ranked_step list res" where
  "chosen_steps S vid ss d =
     res_bind (if 40 < length ss then sv_scorer S else Inr None) (\<lambda>scorer.
     let limit = (case scorer of Some _ \<Rightarrow> rerank_candidate_limit | None \<Rightarrow> 40) in
     res_bind (if \<not> 40 < length ss then Inr None
        else res_bind (sv_embedding S) (\<lambda>e. case e of None \<Rightarrow> Inr None
          | Some q \<Rightarrow> res_bind (vector_search (sv_codec S) (sv_similarity S) (sv_index S) vid q limit d) (\<lambda>m. Inr (Some m))))
       (\<lambda>vector. select_context_steps (sv_log S) (sv_tables S) retrieval_query ss vector scorer))"

definition with_attachments :: "services \<Rightarrow> uuid \<Rightarrow> uuid \<Rightarrow> uuid \<Rightarrow> summary_context \<Rightarrow> db \<Rightarrow> summary_context res" where
  "with_attachments S tenant pid vid cx d =
     res_bind (load_attachment_context (sv_repr S) (sv_tables S) (cd_collate (sv_codec S)) (sv_match S) (sv_env S) tenant pid vid
        (cx_public cx) retrieval_query d) (\<lambda>(texts, sources, statuses).
       let flagged = fold (record_flags \<circ> au_flags) sources (cx\<lparr>cx_attachments := sources\<rparr>);
           public = (if statuses = [] then cx_public cx
             else add_warnings (attachment_status_warnings statuses) (cx_public cx @ [(''attachment_status'', JObj statuses)]))
       in Inr (flagged\<lparr>cx_public := public @ (if texts = [] then [] else [(''attachments'', JArr texts)])\<rparr>))"

definition load_context :: "services \<Rightarrow> uuid option \<Rightarrow> uuid \<Rightarrow> uuid \<Rightarrow> snapshots \<Rightarrow> summary_context res" where
  "load_context S tenant pid vid sn =
     res_bind (load_process S pid vid (sn_process sn)) (\<lambda>(base, conflicts).
     if under_secrecy base then Inr (new_context (restricted_context base) vid)
     else res_bind (with_glossary S base vid) (\<lambda>cx.
     res_bind (load_steps (sv_codec S) vid (sn_steps sn)) (\<lambda>ss.
     let public = add_warnings (source_warnings (sv_repr S) base conflicts ss)
           (cx_public cx @ [(''step_count'', JInt (int (length ss)))]) in
     res_bind (chosen_steps S vid ss (sn_vectors sn)) (\<lambda>ranked.
     let sources = selected_movement_sources (sv_tables S) ranked;
         flagged = fold (record_flags \<circ> mu_flags) sources (cx\<lparr>cx_sources := sources\<rparr>) in
     res_bind (serialize_steps S ranked) (\<lambda>rendered.
     let full = flagged\<lparr>cx_public := public @ [(''steps'', JArr rendered)]\<rparr> in
     case tenant of None \<Rightarrow> Inr full | Some t \<Rightarrow> with_attachments S t pid vid full (sn_attachments sn))))))"

end
