(* ===== verification/SummaryApi.thy ===== *)
theory SummaryApi
  imports Auth AttachmentContext SummaryStore Acquisition Datajud
begin

text \<open>
  \<open>app/api_v1.py\<close>: the public API of summaries. A request for a summary is created once per key and
  registered for acquisition; its state, the latest summary of a process and the sources of it are read
  by the tenant. What a summary shows is decided here once more, against the process as it is now.
  The answers are records with the fields of the JSON objects; a date stays a time, and the poll URL of a
  job, made of its id, is left out.
\<close>

subsection \<open>Parts of an answer\<close>

text \<open>\<open>_json_object\<close>; a key that is no text is no key of these documents.\<close>

definition api_object :: "(string \<Rightarrow> json option) \<Rightarrow> json \<Rightarrow> (string \<times> json) list res" where
  "api_object parse v = (if v = JNull then Inr []
     else res_bind (decode_json_object parse ''public API JSON object'' v) (\<lambda>kvs. Inr (obj_of_pydict kvs)))"

definition bad_request :: "string \<Rightarrow> pyexc" where
  "bad_request detail = HTTPException 400 detail []"

definition summary_format :: "(json \<Rightarrow> string) \<Rightarrow> json \<Rightarrow> string res" where
  "summary_format rp v = (let rendered = lower (strip (py_str rp (py_or v (JStr ''jsx'')))) in
     if rendered \<in> {''jsx'', ''json''} then Inr rendered
     else Inl (bad_request (''format must be '' @ [CHR 0x27] @ ''jsx'' @ [CHR 0x27] @ '' or '' @ [CHR 0x27] @ ''json'' @ [CHR 0x27])))"

definition evidence_by_claim :: "(json \<Rightarrow> string) \<Rightarrow> json list \<Rightarrow> (string \<times> json) list" where
  "evidence_by_claim rp evidence = rev (map (\<lambda>v. (py_str rp (obj_get (as_obj v) ''claim_id''), v))
     (filter (\<lambda>v. is_obj v \<and> obj_get (as_obj v) ''claim_id'' \<noteq> JNull) evidence))"

definition public_claim :: "(json \<Rightarrow> string) \<Rightarrow> json list \<Rightarrow> json \<Rightarrow> json" where
  "public_claim rp evidence raw = (if \<not> is_obj raw then raw else
     case map_of (evidence_by_claim rp evidence) (py_str rp (obj_get (as_obj raw) ''claim_id'')) of
       None \<Rightarrow> raw
     | Some e \<Rightarrow> JObj (obj_put ''verification'' (JObj
         [(''status'', obj_get (as_obj e) ''verification_status''), (''reason'', obj_get (as_obj e) ''verification_reason''),
          (''sources'', if ''sources'' \<in> set (map fst (as_obj e)) then obj_get (as_obj e) ''sources'' else JArr [])]) (as_obj raw)))"

text \<open>The claims of a stored document are a list.\<close>

definition summary_representation ::
  "(json \<Rightarrow> string) \<Rightarrow> (string \<Rightarrow> json option) \<Rightarrow> string option \<Rightarrow> json \<Rightarrow> string \<Rightarrow> bool \<Rightarrow> json list \<Rightarrow> json res" where
  "summary_representation rp parse markdown structured fmt hide evidence =
     (if fmt = ''jsx'' then Inr (opt_json JStr markdown)
      else if structured = JNull then Inr JNull
      else res_bind (api_object parse structured) (\<lambda>rendered.
        let summary = obj_get rendered ''summary''; fields = as_obj summary in
        if \<not> is_obj summary \<or> ''claims'' \<notin> set (map fst fields) then Inr (JObj rendered)
        else if hide then Inr (JObj (obj_put ''summary'' (JObj (filter (\<lambda>kv. fst kv \<noteq> ''claims'') fields)) rendered))
        else Inr (JObj (obj_put ''summary'' (JObj (obj_put ''claims''
          (JArr (map (public_claim rp evidence) (as_arr (obj_get fields ''claims'')))) fields)) rendered))))"

definition public_source :: "json \<Rightarrow> json" where
  "public_source v = JObj (filter (\<lambda>kv. fst kv \<noteq> ''evidence_excerpt'') (as_obj v))"

definition public_evidence :: "json \<Rightarrow> json" where
  "public_evidence v = JObj (obj_put ''sources''
     (JArr (map public_source (filter is_obj (as_arr (obj_get (as_obj v) ''sources''))))) (as_obj v))"

definition public_claim_evidence :: "json list \<Rightarrow> json list" where
  "public_claim_evidence evidence = map public_evidence (filter is_obj evidence)"

definition put_all :: "(string \<times> json) list \<Rightarrow> (string \<times> json) list \<Rightarrow> (string \<times> json) list" where
  "put_all new kvs = fold (\<lambda>(k, v). obj_put k v) new kvs"

definition summary_usage :: "(string \<Rightarrow> json option) \<Rightarrow> summary_row option \<Rightarrow> (string \<times> json) list option res" where
  "summary_usage parse row = (case row of None \<Rightarrow> Inr None
   | Some s \<Rightarrow> res_bind (api_object parse (sm_usage s)) (\<lambda>usage.
       Inr (Some (put_all ((case sm_cache_hit s of None \<Rightarrow> [] | Some b \<Rightarrow> [(''cache_hit'', JBool b)]) @
           (case sm_cost s of None \<Rightarrow> [] | Some q \<Rightarrow> [(''cost_usd'', JFloat (Finite q))]))
         (put_all usage [(''model'', JStr (sm_model s)), (''prompt_version'', JStr (sm_prompt s)),
            (''generation_ms'', JInt (sm_generation_ms s))])))))"

text \<open>The view has a row for a version with attachments; without one there are no flags either way.\<close>

definition load_attachment_flags :: "uuid option \<Rightarrow> uuid option \<Rightarrow> db \<Rightarrow> (string \<times> json) list" where
  "load_attachment_flags pid vid d = (case (pid, vid) of
     (Some p, Some v) \<Rightarrow> attachment_status_flags
       (map (\<lambda>(st, n). (attachment_status_name st, JInt (int n))) (attachment_status_counts p v d))
   | _ \<Rightarrow> [])"

subsection \<open>Sources\<close>

datatype shown_source =
    RootSource uuid bool "timestamp option" bool
  | UsedSource loaded_source
  | PlainMovement uuid int "int option" "timestamp option" json

definition plain_movement :: "step_row \<Rightarrow> shown_source res" where
  "plain_movement s = res_bind (step_source_number s) (\<lambda>n.
     Inr (PlainMovement (s_id s) (s_number s) n (s_occurred s) (s_title s)))"

definition finalized_version :: "uuid \<Rightarrow> uuid \<Rightarrow> db \<Rightarrow> (version_row \<times> process_row) option" where
  "finalized_version pid vid d =
     (case find (\<lambda>v. v_id v = vid \<and> v_process v = pid \<and> v_finalized v) (versions d) of
        None \<Rightarrow> None
      | Some v \<Rightarrow> map_option (Pair v) (find (\<lambda>p. p_id p = pid) (processes d)))"

definition load_sources :: "uuid option \<Rightarrow> uuid option \<Rightarrow> uuid option \<Rightarrow> db \<Rightarrow> shown_source list res" where
  "load_sources pid vid sid d = (case (pid, vid) of
     (Some p, Some v) \<Rightarrow> (case finalized_version p v d of
         None \<Rightarrow> Inr []
       | Some (ver, proc) \<Rightarrow>
           let root = RootSource (v_id ver) (v_cached ver) (v_finalized_at ver) (sid \<noteq> None) in
           if 0 < p_secrecy proc then Inr [root]
           else res_bind (case sid of None \<Rightarrow> Inr [] | Some i \<Rightarrow> load_used_summary_sources i d) (\<lambda>used.
             if used \<noteq> [] then Inr (root # map UsedSource used)
             else res_bind (map_res plain_movement (steps_of p v d)) (\<lambda>moves. Inr (root # moves))))
   | _ \<Rightarrow> Inr [])"

subsection \<open>The answers\<close>

record summary_payload =
  sp_cnj :: string
  sp_updated :: "timestamp option"
  sp_sources :: "shown_source list"
  sp_usage :: "(string \<times> json) list option"
  sp_flags :: "(string \<times> json) list"
  sp_validation :: "(bool \<times> string list) option"
  sp_evidence :: "json list"
  sp_format :: string
  sp_summary :: json

record job_payload = summary_payload +
  jp_job :: uuid
  jp_status :: string
  jp_error :: "string option"

text \<open>The columns of a LEFT JOIN without a process.\<close>

definition no_process :: process_row where
  "no_process = \<lparr>p_id = 0, p_code = [], p_current = None, p_court = JNull, p_class = JNull, p_subjects = JNull,
     p_parties = JNull, p_representatives = JNull, p_secrecy = 0, p_header = JNull, p_updated = 0\<rparr>"

definition joined_summary :: "summary_request \<Rightarrow> db \<Rightarrow> summary_row option" where
  "joined_summary r d = (case r_summary r of None \<Rightarrow> None | Some i \<Rightarrow> find (\<lambda>s. sm_id s = i) (summaries d))"

definition joined_process :: "summary_request \<Rightarrow> db \<Rightarrow> process_row" where
  "joined_process r d = (case r_process r of None \<Rightarrow> no_process
     | Some i \<Rightarrow> (case find (\<lambda>p. p_id p = i) (processes d) of None \<Rightarrow> no_process | Some p \<Rightarrow> p))"

definition structured_document :: "(string \<Rightarrow> json option) \<Rightarrow> json \<Rightarrow> json res" where
  "structured_document parse v = (if v = JNull then Inr JNull
     else res_bind (decode_json_object parse ''public API JSON object'' v) (\<lambda>kvs. Inr (document_of_pydict kvs)))"

definition shown_summary ::
  "(json \<Rightarrow> string) \<Rightarrow> (string \<Rightarrow> json option) \<Rightarrow> json \<Rightarrow> json list \<Rightarrow> summary_row \<Rightarrow> process_row \<Rightarrow> bool res" where
  "shown_summary rp parse structured evidence s p =
     (if 0 < p_secrecy p then Inr (is_restricted_local_summary rp parse s p)
      else claim_evidence_is_publishable rp parse structured evidence p)"

definition job_publishable ::
  "(json \<Rightarrow> string) \<Rightarrow> (string \<Rightarrow> json option) \<Rightarrow> json \<Rightarrow> json list \<Rightarrow> summary_row option \<Rightarrow> process_row \<Rightarrow> bool res" where
  "job_publishable rp parse structured evidence row p = (case row of None \<Rightarrow> Inr False
     | Some s \<Rightarrow> (if \<not> sm_passed s then Inr False else shown_summary rp parse structured evidence s p))"

definition job_payload_of ::
  "(json \<Rightarrow> string) \<Rightarrow> (string \<Rightarrow> json option) \<Rightarrow> uuid \<Rightarrow> uuid \<Rightarrow> db \<Rightarrow> (summary_request \<times> job_payload) option res" where
  "job_payload_of rp parse tenant job d =
     (case find (\<lambda>r. r_id r = job \<and> r_tenant r = tenant) (requests d) of None \<Rightarrow> Inr None
      | Some r \<Rightarrow>
          let row = joined_summary r d; p = joined_process r d; secret = 0 < p_secrecy p;
              evidence = (case r_summary r of None \<Rightarrow> [] | Some i \<Rightarrow> load_summary_claim_evidence i d);
              flags = put_all (load_attachment_flags (r_process r) (r_version r) d) (r_flags r) in
          res_bind (structured_document parse (case row of None \<Rightarrow> JNull | Some s \<Rightarrow> sm_structured s)) (\<lambda>structured.
          res_bind (job_publishable rp parse structured evidence row p) (\<lambda>publishable.
          res_bind (load_sources (r_process r) (r_version r) (if publishable then r_summary r else None) d) (\<lambda>sources.
          let shown = (if publishable \<and> \<not> secret then public_claim_evidence evidence else []) in
          res_bind (summary_usage parse row) (\<lambda>usage.
          res_bind (if publishable
             then summary_representation rp parse (map_option sm_markdown row) (case row of None \<Rightarrow> JNull | Some s \<Rightarrow> sm_structured s)
               (r_format r) secret shown
             else Inr JNull) (\<lambda>summary.
          Inr (Some (r, \<lparr>sp_cnj = r_code r, sp_updated = r_source_updated r, sp_sources = sources, sp_usage = usage,
            sp_flags = flags, sp_validation = map_option (\<lambda>s. (sm_passed s, sm_errors s)) row, sp_evidence = shown,
            sp_format = r_format r, sp_summary = summary, jp_job = r_id r, jp_status = status_name (r_status r),
            jp_error = r_error r\<rparr>))))))))"

definition passed_summary :: "uuid \<Rightarrow> uuid \<Rightarrow> db \<Rightarrow> summary_row option" where
  "passed_summary pid vid d = find (\<lambda>s. sm_process s = pid \<and> sm_version s = vid \<and> sm_passed s) (summaries d)"

definition latest_summary_payload ::
  "(json \<Rightarrow> string) \<Rightarrow> (string \<Rightarrow> json option) \<Rightarrow> uuid \<Rightarrow> string \<Rightarrow> string \<Rightarrow> db \<Rightarrow> summary_payload option res" where
  "latest_summary_payload rp parse tenant code fmt d =
     (case get_authorized_process tenant code d of None \<Rightarrow> Inr None
      | Some p \<Rightarrow> (case p_current p of None \<Rightarrow> Inr None
      | Some vid \<Rightarrow> (case passed_summary (p_id p) vid d of None \<Rightarrow> Inr None
      | Some s \<Rightarrow>
          let evidence = load_summary_claim_evidence (sm_id s) d; secret = 0 < p_secrecy p in
          res_bind (structured_document parse (sm_structured s)) (\<lambda>structured.
          res_bind (shown_summary rp parse structured evidence s p) (\<lambda>good.
          if \<not> good then Inr None
          else res_bind (load_sources (Some (p_id p)) (Some vid) (Some (sm_id s)) d) (\<lambda>sources.
          res_bind (summary_usage parse (Some s)) (\<lambda>usage.
          res_bind (summary_representation rp parse (Some (sm_markdown s)) (sm_structured s) fmt secret
              (public_claim_evidence evidence)) (\<lambda>summary.
          Inr (Some \<lparr>sp_cnj = code, sp_updated = Some (p_updated p), sp_sources = sources, sp_usage = usage,
            sp_flags = put_all (load_attachment_flags (Some (p_id p)) (Some vid) d) [(''secrecy'', JBool secret)],
            sp_validation = Some (sm_passed s, sm_errors s), sp_evidence = (if secret then [] else public_claim_evidence evidence),
            sp_format = fmt, sp_summary = summary\<rparr>)))))))))"

subsection \<open>The routes\<close>

text \<open>What the application keeps and the environment it runs in; \<open>ap_digest\<close> is the SHA-256 of the canonical
  rendering of a document, \<open>ap_clock\<close> the clock of the process.\<close>

record application =
  ap_repr :: "json \<Rightarrow> string"
  ap_parse :: "string \<Rightarrow> json option"
  ap_env :: "string \<Rightarrow> string option"
  ap_tokens :: "(string \<times> uuid) list option"
  ap_sha :: "string \<Rightarrow> string"
  ap_digest :: "json \<Rightarrow> string"
  ap_clock :: timestamp

definition idempotency_key :: "(string \<times> string) list \<Rightarrow> string res" where
  "idempotency_key headers = (case filter (\<lambda>h. fst h = ''idempotency-key'') headers of
     [] \<Rightarrow> Inl (bad_request ''Idempotency-Key is required'')
   | [(_, v)] \<Rightarrow> (let key = strip v in
       if key = [] then Inl (bad_request ''Idempotency-Key is required'')
       else if CHR '','' \<in> set key then Inl (bad_request ''Idempotency-Key must appear exactly once'')
       else if 255 < length key then Inl (bad_request ''Idempotency-Key is too long'') else Inr key)
   | _ \<Rightarrow> Inl (bad_request ''Idempotency-Key must appear exactly once''))"

definition request_body :: "(string \<Rightarrow> json option) \<Rightarrow> string \<Rightarrow> (string \<times> json) list res" where
  "request_body parse body = (case parse body of None \<Rightarrow> Inl (bad_request ''invalid JSON payload'')
   | Some _ \<Rightarrow> (case loads_strict_json parse body of
       Inl _ \<Rightarrow> Inl (bad_request ''request body must contain strict JSON'')
     | Inr (JObj kvs) \<Rightarrow> Inr kvs
     | Inr _ \<Rightarrow> Inl (bad_request ''request body must be an object'')))"

definition requested_code :: "string \<Rightarrow> string res" where
  "requested_code code = (case normalize_cnj code of Inl _ \<Rightarrow> Inl (bad_request ''invalid process code'') | Inr c \<Rightarrow> Inr c)"

definition body_code :: "(string \<times> json) list \<Rightarrow> string res" where
  "body_code body = (case obj_get body ''cnj'' of JStr c \<Rightarrow> requested_code c | _ \<Rightarrow> Inl (bad_request ''cnj is required''))"

definition read_creation :: "application \<Rightarrow> request \<Rightarrow> string \<Rightarrow> (string \<times> (string \<times> json) list \<times> string \<times> string) res" where
  "read_creation A rq text =
     res_bind (idempotency_key (rq_headers rq)) (\<lambda>key. res_bind (request_body (ap_parse A) text) (\<lambda>body.
     res_bind (body_code body) (\<lambda>code. res_bind (summary_format (ap_repr A) (obj_get body ''format'')) (\<lambda>fmt.
       Inr (key, put_all [(''cnj'', JStr code), (''format'', JStr fmt)] body, code, fmt)))))"

fun is_conflict :: "pyexc \<Rightarrow> bool" where
  "is_conflict (IdempotencyConflictError _) = True"
| "is_conflict _ = False"

definition conflict :: pyexc where
  "conflict = HTTPException 409 ''Idempotency-Key was already used with a different request'' []"

definition job_missing :: pyexc where
  "job_missing = HTTPException 404 ''summary job not found'' []"

type_synonym 'a answer = "int \<times> (string \<times> string) list \<times> 'a"

text \<open>The ids the database generates: of the request, of an acquisition and of its job.\<close>

definition create_summary_job ::
  "application \<Rightarrow> uuid \<Rightarrow> uuid \<Rightarrow> uuid \<Rightarrow> timestamp \<Rightarrow> request \<Rightarrow> string \<Rightarrow> (db, job_payload answer) prog" where
  "create_summary_job A nid aid jid now rq text =
     bind (lift_res (read_creation A rq text)) (\<lambda>(key, body, code, fmt).
     bind (principal_from_request (ap_sha A) (ap_parse A) (ap_env A) (ap_tokens A) now (ap_clock A) rq code) (\<lambda>p.
     bind (try_except (create_or_get_summary_request nid now (pr_tenant p) code key (ap_digest A (JObj body)) fmt)
        is_conflict (\<lambda>_. raise conflict)) (\<lambda>(r, created).
     then_do (if created \<or> r_tjr r = None
       then then_do (request_process aid jid now (pr_tenant p) code (Some (r_id r))) (ret ()) else ret ())
     (bind (query (job_payload_of (ap_repr A) (ap_parse A) (pr_tenant p) (r_id r))) (\<lambda>loaded.
      bind (lift_res loaded) (\<lambda>found. case found of
        None \<Rightarrow> raise (RuntimeError ''public summary request disappeared after creation'')
      | Some (_, payload) \<Rightarrow>
          then_do (log_principal_access p (r_process r) code ''v1_create_summary'' (Some [(''created'', JBool created)]))
            (ret (202, apply_rate_limit_headers [] p, payload))))))))"

definition get_summary_job :: "application \<Rightarrow> timestamp \<Rightarrow> string \<Rightarrow> request \<Rightarrow> (db, job_payload answer) prog" where
  "get_summary_job A now job rq = (case parse_uuid job of None \<Rightarrow> raise job_missing
   | Some i \<Rightarrow>
     bind (principal_from_request_unscoped (ap_sha A) (ap_parse A) (ap_env A) (ap_tokens A) now (ap_clock A) rq) (\<lambda>p.
     bind (query (job_payload_of (ap_repr A) (ap_parse A) (pr_tenant p) i)) (\<lambda>loaded.
     bind (lift_res loaded) (\<lambda>found. case found of
       None \<Rightarrow> raise job_missing
     | Some (r, payload) \<Rightarrow>
         bind (authorize_api_key_process p (r_code r)) (\<lambda>q.
         then_do (log_principal_access q (r_process r) (r_code r) ''v1_read_summary_job'' None)
           (ret (200, apply_rate_limit_headers [] q, payload)))))))"

definition log_legacy :: "request \<Rightarrow> uuid \<Rightarrow> uuid option \<Rightarrow> string \<Rightarrow> string \<Rightarrow> (db, unit) prog" where
  "log_legacy rq tenant pid code action = (if rq_principal rq = None then log_access tenant pid code action None else ret ())"

definition get_latest_summary :: "application \<Rightarrow> string \<Rightarrow> string option \<Rightarrow> request \<Rightarrow> (db, summary_payload) prog" where
  "get_latest_summary A code fmt rq =
     bind (lift_res (res_bind (requested_code code) (\<lambda>c. res_bind (summary_format (ap_repr A) (opt_json JStr fmt)) (\<lambda>f.
       res_bind (tenant_from_request (ap_parse A) (ap_env A) (ap_tokens A) rq) (\<lambda>t. Inr (c, f, t)))))) (\<lambda>(c, f, tenant).
     bind (query (latest_summary_payload (ap_repr A) (ap_parse A) tenant c f)) (\<lambda>loaded.
     bind (lift_res loaded) (\<lambda>found. case found of
       None \<Rightarrow> raise (HTTPException 404 ''summary not found'' [])
     | Some payload \<Rightarrow> then_do (log_legacy rq tenant None c ''v1_read_summary'') (ret payload))))"

record sources_payload =
  so_cnj :: string
  so_updated :: timestamp
  so_sources :: "shown_source list"
  so_evidence :: "json list"
  so_flags :: "(string \<times> json) list"

text \<open>The summary whose sources are shown, with its document.\<close>

definition sourced_summary ::
  "(json \<Rightarrow> string) \<Rightarrow> (string \<Rightarrow> json option) \<Rightarrow> process_row \<Rightarrow> db \<Rightarrow> (uuid \<times> json) option res" where
  "sourced_summary rp parse p d = (case p_current p of None \<Rightarrow> Inr None
   | Some vid \<Rightarrow> (case passed_summary (p_id p) vid d of None \<Rightarrow> Inr None
     | Some s \<Rightarrow> (if p_secrecy p \<le> 0 \<or> is_restricted_local_summary rp parse s p
         then res_bind (structured_document parse (sm_structured s)) (\<lambda>doc. Inr (Some (sm_id s, doc))) else Inr None)))"

definition sources_payload_of ::
  "(json \<Rightarrow> string) \<Rightarrow> (string \<Rightarrow> json option) \<Rightarrow> process_row \<Rightarrow> (uuid \<times> json) option \<Rightarrow> string \<Rightarrow> db \<Rightarrow> sources_payload res" where
  "sources_payload_of rp parse p found code d =
     (let evidence = (case found of None \<Rightarrow> [] | Some (i, _) \<Rightarrow> load_summary_claim_evidence i d); secret = 0 < p_secrecy p in
      res_bind (if secret then Inr (map_option fst found, [])
        else res_bind (claim_evidence_is_publishable rp parse (case found of None \<Rightarrow> JNull | Some (_, doc) \<Rightarrow> doc) evidence p)
          (\<lambda>good. Inr (if good then (map_option fst found, evidence) else (None, [])))) (\<lambda>(sid, shown).
      res_bind (load_sources (Some (p_id p)) (p_current p) sid d) (\<lambda>sources.
      Inr \<lparr>so_cnj = code, so_updated = p_updated p, so_sources = sources, so_evidence = shown,
        so_flags = put_all (load_attachment_flags (Some (p_id p)) (p_current p) d) [(''secrecy'', JBool secret)]\<rparr>)))"

definition get_summary_sources :: "application \<Rightarrow> string \<Rightarrow> request \<Rightarrow> (db, sources_payload) prog" where
  "get_summary_sources A code rq =
     bind (lift_res (res_bind (requested_code code) (\<lambda>c.
       res_bind (tenant_from_request (ap_parse A) (ap_env A) (ap_tokens A) rq) (\<lambda>t. Inr (c, t))))) (\<lambda>(c, tenant).
     bind (query (get_authorized_process tenant c)) (\<lambda>row. case row of
       None \<Rightarrow> raise (HTTPException 404 ''process not found'' [])
     | Some p \<Rightarrow>
         bind (query (sourced_summary (ap_repr A) (ap_parse A) p)) (\<lambda>loaded.
         bind (lift_res loaded) (\<lambda>found.
         then_do (log_legacy rq tenant (Some (p_id p)) c ''v1_read_sources'')
         (bind (query (sources_payload_of (ap_repr A) (ap_parse A) p found c)) (\<lambda>answer. lift_res answer))))))"

subsection \<open>Facts\<close>


fun is_root :: "shown_source \<Rightarrow> bool" where
  "is_root (RootSource _ _ _ _) = True"
| "is_root _ = False"

lemma sources_under_secrecy:
  assumes "load_sources (Some i) vid sid d = Inr xs" "find (\<lambda>p. p_id p = i) (processes d) = Some p" "0 < p_secrecy p"
  shows "list_all is_root xs \<and> length xs \<le> 1"
  using assms by (auto simp: load_sources_def finalized_version_def Let_def split: option.splits)

lemma hidden_claims:
  assumes "summary_representation rp parse markdown structured fmt True evidence = Inr (JObj kvs)"
  shows "''claims'' \<notin> set (map fst (as_obj (obj_get kvs ''summary'')))"
proof (cases "fmt = ''jsx'' \<or> structured = JNull")
  case True
  with assms show ?thesis by (auto simp: summary_representation_def opt_json_def split: if_splits option.splits)
next
  case False
  with assms obtain rendered where rendered: "api_object parse structured = Inr rendered"
    by (auto simp: summary_representation_def)
  define summary where "summary = obj_get rendered ''summary''"
  show ?thesis
  proof (cases "is_obj summary \<and> ''claims'' \<in> set (map fst (as_obj summary))")
    case True
    with assms False rendered have "kvs = obj_put ''summary'' (JObj (filter (\<lambda>kv. fst kv \<noteq> ''claims'') (as_obj summary))) rendered"
      by (auto simp: summary_representation_def summary_def Let_def)
    then show ?thesis by (auto simp: obj_put_get)
  next
    case plain: False
    with assms False rendered have "kvs = rendered"
      by (auto simp: summary_representation_def summary_def Let_def split: if_splits)
    with plain show ?thesis by (cases summary) (auto simp: summary_def)
  qed
qed

lemma found_holds: "find q xs = Some x \<Longrightarrow> x \<in> set xs \<and> q x"
  by (auto simp: find_Some_iff)

lemma joined_found: "0 < p_secrecy (joined_process r d) \<Longrightarrow>
    \<exists>i. r_process r = Some i \<and> find (\<lambda>p. p_id p = i) (processes d) = Some (joined_process r d)"
  by (auto simp: joined_process_def no_process_def split: option.splits)

lemma no_summary_sources:
  assumes "load_sources pid vid None d = Inr xs"
  shows "UsedSource u \<notin> set xs"
proof -
  have "UsedSource u \<notin> set ys" if "map_res plain_movement ss = Inr ys" for ss ys
    using that by (induction ss arbitrary: ys) (auto simp: plain_movement_def)
  with assms show ?thesis by (auto simp: load_sources_def Let_def split: option.splits if_splits)
qed

lemma plain_movements:
  "map_res plain_movement ss = Inr moves \<Longrightarrow> \<exists>ns. length ns = length ss \<and>
     moves = map2 (\<lambda>s n. PlainMovement (s_id s) (s_number s) n (s_occurred s) (s_title s)) ss ns"
proof (induction ss arbitrary: moves)
  case (Cons s ss)
  then obtain n ns where "moves = PlainMovement (s_id s) (s_number s) n (s_occurred s) (s_title s) #
      map2 (\<lambda>s n. PlainMovement (s_id s) (s_number s) n (s_occurred s) (s_title s)) ss ns" "length ns = length ss"
    by (auto simp: plain_movement_def)
  then show ?case by (intro exI [of _ "n # ns"]) simp
qed simp

lemma shown_summary_publishable:
  assumes "shown_summary rp parse structured evidence s p = Inr True"
  shows "if 0 < p_secrecy p then is_restricted_local_summary rp parse s p
    else claim_evidence_is_publishable rp parse structured evidence p = Inr True"
  using assms by (simp add: shown_summary_def split: if_splits)

text \<open>The parts of the payload of a job.\<close>

lemma job_parts:
  assumes "job_payload_of rp parse tenant job d = Inr (Some (r, a))"
  obtains structured publishable where
    "find (\<lambda>r. r_id r = job \<and> r_tenant r = tenant) (requests d) = Some r"
    "structured_document parse (case joined_summary r d of None \<Rightarrow> JNull | Some s \<Rightarrow> sm_structured s) = Inr structured"
    "job_publishable rp parse structured (case r_summary r of None \<Rightarrow> [] | Some i \<Rightarrow> load_summary_claim_evidence i d)
       (joined_summary r d) (joined_process r d) = Inr publishable"
    "load_sources (r_process r) (r_version r) (if publishable then r_summary r else None) d = Inr (sp_sources a)"
    "sp_evidence a = (if publishable \<and> \<not> 0 < p_secrecy (joined_process r d)
       then public_claim_evidence (case r_summary r of None \<Rightarrow> [] | Some i \<Rightarrow> load_summary_claim_evidence i d) else [])"
    "(if publishable
       then summary_representation rp parse (map_option sm_markdown (joined_summary r d))
         (case joined_summary r d of None \<Rightarrow> JNull | Some s \<Rightarrow> sm_structured s) (r_format r)
         (0 < p_secrecy (joined_process r d)) (sp_evidence a)
       else Inr JNull) = Inr (sp_summary a)"
proof (cases "find (\<lambda>r. r_id r = job \<and> r_tenant r = tenant) (requests d)")
  case None
  with assms show ?thesis by (simp add: job_payload_of_def)
next
  case (Some q)
  show ?thesis
    using assms Some by (simp add: job_payload_of_def Let_def) (elim exE conjE, rule that, auto)
qed

subsection \<open>The gate of the storage\<close>

text \<open>The rows of a version and of a process are unique.\<close>

definition unique_rows :: "db \<Rightarrow> bool" where
  "unique_rows d \<longleftrightarrow> distinct (map p_id (processes d)) \<and>
     distinct (map (\<lambda>s. (sm_process s, sm_version s)) (summaries d))"

lemma find_restricted:
  assumes "\<And>x y. x \<in> set xs \<Longrightarrow> y \<in> set xs \<Longrightarrow> P x \<Longrightarrow> P y \<Longrightarrow> x = y"
  shows "find (\<lambda>x. P x \<and> Q x) xs = (case find P xs of None \<Rightarrow> None | Some x \<Rightarrow> if Q x then Some x else None)"
proof (cases "find P xs")
  case None
  then have "find (\<lambda>x. P x \<and> Q x) xs = None" by (auto simp: find_None_iff)
  with None show ?thesis by simp
next
  case (Some x)
  then have x: "x \<in> set xs" "P x" by (auto dest: found_holds)
  show ?thesis
  proof (cases "Q x")
    case True
    have "find (\<lambda>x. P x \<and> Q x) xs = Some x" by (rule find_unique) (use x True assms in auto)
    with Some True show ?thesis by simp
  next
    case False
    have "find (\<lambda>x. P x \<and> Q x) xs = None" unfolding find_None_iff using False assms x by blast
    with Some False show ?thesis by simp
  qed
qed

lemma unique_summary:
  assumes "unique_rows d"
  shows "passed_summary pid vid d = (case find (\<lambda>s. sm_process s = pid \<and> sm_version s = vid) (summaries d) of
     None \<Rightarrow> None | Some s \<Rightarrow> if sm_passed s then Some s else None)"
proof -
  from assms have one: "inj_on (\<lambda>s. (sm_process s, sm_version s)) (set (summaries d))"
    by (simp add: unique_rows_def distinct_map)
  have "x = y" if "x \<in> set (summaries d)" "y \<in> set (summaries d)" "sm_process x = pid \<and> sm_version x = vid"
      "sm_process y = pid \<and> sm_version y = vid" for x y
    by (rule inj_onD [OF one _ that(1,2)]) (simp add: that(3,4))
  from find_restricted [of "summaries d" "\<lambda>s. sm_process s = pid \<and> sm_version s = vid" sm_passed, OF this]
  show ?thesis unfolding passed_summary_def conj_assoc by assumption
qed

lemma authorized_current:
  assumes "unique_rows d" "get_authorized_process tenant code d = Some p" "p_current p = Some vid"
  shows "find (\<lambda>q. p_id q = p_id p \<and> p_current q = Some vid) (processes d) = Some p"
proof (rule find_unique)
  show "p \<in> set (processes d)" using assms(2) by (auto simp: get_authorized_process_def dest: found_holds)
  then show "q = p" if "q \<in> set (processes d)" "p_id q = p_id p \<and> p_current q = Some vid" for q
    using assms(1) that by (auto simp: unique_rows_def distinct_map dest: inj_onD)
qed (simp add: assms(3))

lemma not_canonical:
  assumes "\<not> structured_summary_document_is_canonical rp v"
  shows "claim_evidence_is_publishable rp parse v e p = Inr False"
  using assms by (cases "publication_context parse p") (simp_all add: claim_evidence_is_publishable_def claim_evidence_is_complete_def)

lemma empty_documents: "\<not> structured_summary_document_is_canonical rp JNull"
    "\<not> structured_summary_document_is_canonical rp (JObj [])"
  by (simp_all add: structured_summary_document_is_canonical_def document_keys_def)

lemma same_verdict:
  assumes "structured_document parse v = Inr doc"
    and "shown_summary rp parse doc (load_summary_claim_evidence (sm_id s) d) s p = Inr good"
    and "summary_row_is_publishable rp parse d s p = Inr ok" "sm_passed s" "sm_structured s = v"
  shows "good = ok"
proof (cases "v = JNull \<or> 0 < p_secrecy p")
  case True
  with assms empty_documents show ?thesis
    by (auto simp: structured_document_def shown_summary_def summary_row_is_publishable_def not_canonical
        decode_json_object_def document_of_pydict_def obj_of_pydict_def split: if_splits)
next
  case False
  with assms(1) obtain kvs where "decode_json_object parse ''public API JSON object'' v = Inr kvs" "doc = document_of_pydict kvs"
    by (auto simp: structured_document_def)
  moreover from this(1) have "decode_json_object parse l v = Inr kvs" for l
    by (auto simp: decode_json_object_def split: if_splits option.splits)
  ultimately show ?thesis
    using assms False by (simp add: shown_summary_def summary_row_is_publishable_def)
qed

subsection \<open>Properties\<close>

text \<open>C29: what a job shows. The payload of a job is the one of a request of the tenant. A summary, its evidence
  or its sources are in it only when the summary linked to the request passed its validation and is publishable for
  the process as it is now: as the restricted local summary when the process is under secrecy, otherwise with complete
  claim evidence for its own stored document. Under secrecy no claim evidence is shown, at most the root source, and the JSON of the
  summary has no claims.\<close>

theorem job_shows_publishable:
  assumes "job_payload_of rp parse tenant job d = Inr (Some (r, a))"
  shows "r \<in> set (requests d) \<and> r_id r = job \<and> r_tenant r = tenant \<and>
    (sp_summary a \<noteq> JNull \<or> sp_evidence a \<noteq> [] \<or> (\<exists>u. UsedSource u \<in> set (sp_sources a)) \<longrightarrow>
       (\<exists>s. joined_summary r d = Some s \<and> r_summary r = Some (sm_id s) \<and> sm_passed s \<and>
          (if 0 < p_secrecy (joined_process r d) then is_restricted_local_summary rp parse s (joined_process r d)
           else \<exists>doc. structured_document parse (sm_structured s) = Inr doc \<and>
             claim_evidence_is_publishable rp parse doc (load_summary_claim_evidence (sm_id s) d)
               (joined_process r d) = Inr True))) \<and>
    (0 < p_secrecy (joined_process r d) \<longrightarrow> sp_evidence a = [] \<and> list_all is_root (sp_sources a) \<and>
       length (sp_sources a) \<le> 1 \<and>
       (\<forall>kvs. sp_summary a = JObj kvs \<longrightarrow> ''claims'' \<notin> set (map fst (as_obj (obj_get kvs ''summary'')))))"
proof -
  from assms obtain structured publishable where found:
    "find (\<lambda>r. r_id r = job \<and> r_tenant r = tenant) (requests d) = Some r"
    and doc: "structured_document parse (case joined_summary r d of None \<Rightarrow> JNull | Some s \<Rightarrow> sm_structured s) = Inr structured"
    and parts:
    "job_publishable rp parse structured (case r_summary r of None \<Rightarrow> [] | Some i \<Rightarrow> load_summary_claim_evidence i d)
       (joined_summary r d) (joined_process r d) = Inr publishable"
    "load_sources (r_process r) (r_version r) (if publishable then r_summary r else None) d = Inr (sp_sources a)"
    "sp_evidence a = (if publishable \<and> \<not> 0 < p_secrecy (joined_process r d)
       then public_claim_evidence (case r_summary r of None \<Rightarrow> [] | Some i \<Rightarrow> load_summary_claim_evidence i d) else [])"
    "(if publishable
       then summary_representation rp parse (map_option sm_markdown (joined_summary r d))
         (case joined_summary r d of None \<Rightarrow> JNull | Some s \<Rightarrow> sm_structured s) (r_format r)
         (0 < p_secrecy (joined_process r d)) (sp_evidence a)
       else Inr JNull) = Inr (sp_summary a)" by (rule job_parts)
  have owner: "r \<in> set (requests d) \<and> r_id r = job \<and> r_tenant r = tenant" using found_holds [OF found] by blast
  have good: "\<exists>s. joined_summary r d = Some s \<and> r_summary r = Some (sm_id s) \<and> sm_passed s \<and>
      (if 0 < p_secrecy (joined_process r d) then is_restricted_local_summary rp parse s (joined_process r d)
       else \<exists>doc. structured_document parse (sm_structured s) = Inr doc \<and>
         claim_evidence_is_publishable rp parse doc (load_summary_claim_evidence (sm_id s) d)
           (joined_process r d) = Inr True)" if publishable
  proof -
    from parts(1) that obtain s where s: "joined_summary r d = Some s" "sm_passed s"
        "shown_summary rp parse structured (case r_summary r of None \<Rightarrow> [] | Some i \<Rightarrow> load_summary_claim_evidence i d)
           s (joined_process r d) = Inr True"
      by (auto simp: job_publishable_def split: option.splits if_splits)
    from s(1) have "r_summary r = Some (sm_id s)"
      by (auto simp: joined_summary_def dest: found_holds split: option.splits)
    with s doc shown_summary_publishable [OF s(3)] show ?thesis by auto
  qed
  have shown: "sp_summary a \<noteq> JNull \<or> sp_evidence a \<noteq> [] \<or> (\<exists>u. UsedSource u \<in> set (sp_sources a)) \<Longrightarrow> publishable"
    using parts(2-4) no_summary_sources by (auto split: if_splits)
  have secret: "sp_evidence a = [] \<and> list_all is_root (sp_sources a) \<and> length (sp_sources a) \<le> 1 \<and>
      (\<forall>kvs. sp_summary a = JObj kvs \<longrightarrow> ''claims'' \<notin> set (map fst (as_obj (obj_get kvs ''summary''))))"
    if "0 < p_secrecy (joined_process r d)"
  proof -
    from joined_found [OF that] obtain i where "r_process r = Some i"
      "find (\<lambda>p. p_id p = i) (processes d) = Some (joined_process r d)" by blast
    with parts(2) that have "list_all is_root (sp_sources a) \<and> length (sp_sources a) \<le> 1"
      by (auto dest: sources_under_secrecy)
    moreover have "''claims'' \<notin> set (map fst (as_obj (obj_get kvs ''summary'')))" if "sp_summary a = JObj kvs" for kvs
    proof (rule hidden_claims)
      show "summary_representation rp parse (map_option sm_markdown (joined_summary r d))
          (case joined_summary r d of None \<Rightarrow> JNull | Some s \<Rightarrow> sm_structured s) (r_format r) True (sp_evidence a) = Inr (JObj kvs)"
        using parts(4) \<open>0 < p_secrecy (joined_process r d)\<close> that by (simp split: if_splits)
    qed
    ultimately show ?thesis using parts(3) that by simp
  qed
  from owner good shown secret show ?thesis by blast
qed

lemma structured_document_obj: "\<exists>doc. structured_document parse (JObj kvs) = Inr doc"
  by (simp add: structured_document_def decode_obj)

text \<open>The request of a process under secrecy, whose restricted summary is complete.\<close>

definition job_request :: summary_request where
  "job_request = secret_req\<lparr>r_process := Some 3, r_summary := Some 1\<rparr>"

definition job_db :: db where
  "job_db = secret_db\<lparr>requests := [job_request]\<rparr>"

lemma secret_document: "\<exists>doc. structured_document (\<lambda>_. None) (sm_structured secret_summary) = Inr doc"
  using structured_document_obj by (simp add: secret_summary_def structured_summary_document_def)

lemma secret_fields: "sm_passed secret_summary" "sm_markdown secret_summary = []" "sm_usage secret_summary = JObj []"
    "sm_errors secret_summary = []" "sm_id secret_summary = 1" "0 < p_secrecy secret_process" "p_id secret_process = 3"
    "p_current secret_process = Some 2" "p_code secret_process = ''1''"
  by (simp_all add: secret_summary_def secret_process_def)

lemma secret_usage: "\<exists>usage. summary_usage (\<lambda>_. None) (Some secret_summary) = Inr usage"
  by (simp add: summary_usage_def api_object_def secret_fields decode_obj)

lemma no_version_sources: "versions d = [] \<Longrightarrow> load_sources pid vid sid d = Inr []"
  by (auto simp: load_sources_def finalized_version_def split: option.splits)

lemma shown_markdown: "summary_representation rp parse m v ''jsx'' hide e = Inr (opt_json JStr m)"
  by (simp add: summary_representation_def)

theorem job_shows_publishable_witness:
  "\<exists>a. job_payload_of no_repr (\<lambda>_. None) 5 1 job_db = Inr (Some (job_request, a)) \<and>
    sp_summary a \<noteq> JNull \<and> sm_passed secret_summary \<and> sp_evidence a = [] \<and> list_all is_root (sp_sources a)"
proof -
  have joined: "joined_summary job_request job_db = Some secret_summary" "joined_process job_request job_db = secret_process"
    by (simp_all add: joined_summary_def joined_process_def job_request_def job_db_def secret_db_def secret_summary_def
        secret_process_def)
  have open_job: "find (\<lambda>r. r_id r = 1 \<and> r_tenant r = 5) (requests job_db) = Some job_request"
    by (simp add: job_db_def job_request_def secret_req_def new_request_def)
  have job: "r_process job_request = Some 3" "r_version job_request = Some 2" "r_summary job_request = Some 1"
      "r_format job_request = ''jsx''" "versions job_db = []"
    by (simp_all add: job_db_def secret_db_def empty_db_def job_request_def secret_req_def new_request_def)
  obtain doc usage where doc: "structured_document (\<lambda>_. None) (sm_structured secret_summary) = Inr doc"
      and usage: "summary_usage (\<lambda>_. None) (Some secret_summary) = Inr usage" using secret_document secret_usage by blast
  have publishable: "job_publishable no_repr (\<lambda>_. None) doc e (Some secret_summary) secret_process = Inr True" for e
    by (simp add: job_publishable_def secret_fields shown_summary_def secret_restricted)
  obtain a where payload: "job_payload_of no_repr (\<lambda>_. None) 5 1 job_db = Inr (Some (job_request, a))"
      and text_shown: "sp_summary a = JStr []"
    unfolding job_payload_of_def open_job by (simp add: joined job secret_fields doc usage publishable no_version_sources shown_markdown opt_json_def Let_def)
  from job_shows_publishable [OF payload] text_shown payload show ?thesis by (simp add: joined secret_fields)
qed

text \<open>C31: equivalence. When both answer, the latest summary of a process is shown exactly when the storage counts
  the summary of its current version as published, and the validation shown is the stored one: the gate of the route,
  written a second time, agrees with the one that decides about reuse and replacement.\<close>

theorem latest_summary_is_the_published:
  assumes "unique_rows d" "get_authorized_process tenant code d = Some p" "p_current p = Some vid"
    and "latest_summary_payload rp parse tenant code fmt d = Inr answer"
    and "load_publishable_summary rp parse (p_id p) vid d = Inr stored"
  shows "map_option sp_validation answer = map_option (\<lambda>s. Some (ss_passed s, ss_errors s)) stored"
proof (cases "find (\<lambda>s. sm_process s = p_id p \<and> sm_version s = vid) (summaries d)")
  case None
  with assms show ?thesis
    by (simp add: latest_summary_payload_def unique_summary load_publishable_summary_def current_summary_def)
next
  case (Some s)
  note found = this authorized_current [OF assms(1-3)] unique_summary [OF assms(1)]
  show ?thesis
  proof (cases "sm_passed s")
    case False
    with assms found show ?thesis
      by (simp add: latest_summary_payload_def load_publishable_summary_def current_summary_def)
  next
    case True
    from assms(2-4) found True obtain doc good where api: "structured_document parse (sm_structured s) = Inr doc"
        "shown_summary rp parse doc (load_summary_claim_evidence (sm_id s) d) s p = Inr good"
        "if good then \<exists>a. answer = Some a \<and> sp_validation a = Some (True, sm_errors s) else answer = None"
      by (auto simp: latest_summary_payload_def Let_def split: if_splits)
    from assms(5) found True obtain ok where row: "summary_row_is_publishable rp parse d s p = Inr ok"
        "if ok then \<exists>t. stored = Some t \<and> ss_passed t \<and> ss_errors t = sm_errors s else stored = None"
      by (auto simp: load_publishable_summary_def current_summary_def split: if_splits)
    from same_verdict [OF api(1,2) row(1) True refl] api(3) row(2) show ?thesis by (auto split: if_splits)
  qed
qed

text \<open>C33: the fallback of the sources. Of a public process without a passed summary the route lists, after the root,
  exactly the movements of the current version in the order of their numbers, each with its title: the private ones
  too, although none of them is ever loaded by retrieval.\<close>

theorem fallback_lists_private_movements:
  assumes "sources_payload_of rp parse p None code d = Inr a" "p_secrecy p \<le> 0" "p_current p = Some vid"
    and "finalized_version (p_id p) vid d = Some (v, p)" "distinct (map s_id (steps d))" "load_steps k vid d = Inr ss"
  shows "(\<exists>ns. length ns = length (steps_of (p_id p) vid d) \<and>
      so_sources a = RootSource (v_id v) (v_cached v) (v_finalized_at v) False #
        map2 (\<lambda>s n. PlainMovement (s_id s) (s_number s) n (s_occurred s) (s_title s)) (steps_of (p_id p) vid d) ns) \<and>
    s_id ` {s \<in> set (steps_of (p_id p) vid d). step_private k s} \<inter> st_id ` set ss = {}"
proof
  from assms(1-3) have "load_sources (Some (p_id p)) (Some vid) None d = Inr (so_sources a)"
    by (auto simp: sources_payload_of_def Let_def split: if_splits)
  with assms(2,4) have "res_bind (map_res plain_movement (steps_of (p_id p) vid d))
      (\<lambda>moves. Inr (RootSource (v_id v) (v_cached v) (v_finalized_at v) False # moves)) = Inr (so_sources a)"
    by (simp add: load_sources_def)
  then obtain moves where moves: "map_res plain_movement (steps_of (p_id p) vid d) = Inr moves"
      "so_sources a = RootSource (v_id v) (v_cached v) (v_finalized_at v) False # moves"
    by (cases "map_res plain_movement (steps_of (p_id p) vid d)") simp_all
  with plain_movements [OF moves(1)] show "\<exists>ns. length ns = length (steps_of (p_id p) vid d) \<and>
      so_sources a = RootSource (v_id v) (v_cached v) (v_finalized_at v) False #
        map2 (\<lambda>s n. PlainMovement (s_id s) (s_number s) n (s_occurred s) (s_title s)) (steps_of (p_id p) vid d) ns"
    by auto
  show "s_id ` {s \<in> set (steps_of (p_id p) vid d). step_private k s} \<inter> st_id ` set ss = {}"
  proof (rule equals0I)
    fix i assume "i \<in> s_id ` {s \<in> set (steps_of (p_id p) vid d). step_private k s} \<inter> st_id ` set ss"
    then obtain s where s: "s \<in> set (steps_of (p_id p) vid d)" "step_private k s" "s_id s \<in> st_id ` set ss" by blast
    with load_steps_public(2) [OF assms(6)] obtain t where "s_id t = s_id s" "public_step k vid d t" by auto
    moreover from this have "t = s"
      using assms(5) s(1) by (auto simp: public_step_def steps_of_def distinct_map dest: inj_onD)
    ultimately show False using s(2) by (simp add: public_step_def)
  qed
qed

definition private_step :: step_row where
  "private_step = step_row_sample\<lparr>s_metadata := JObj [(''private'', JStr ''true'')]\<rparr>"

definition listed_process :: process_row where
  "listed_process = (new_process 3 0 ''0000000-00.0000.0.00.0000'')\<lparr>p_current := Some 2\<rparr>"

text \<open>A movement anybody may read and a private one.\<close>

definition open_step :: step_row where
  "open_step = step_row_sample\<lparr>s_id := 6, s_number := 2, s_metadata := JObj []\<rparr>"

definition private_db :: db where
  "private_db = empty_db\<lparr>processes := [listed_process],
     versions := [(staged_version 2 10)\<lparr>v_process := 3, v_finalized := True\<rparr>], steps := [open_step, private_step]\<rparr>"

lemma private_db_answers:
  "case sources_payload_of no_repr (\<lambda>_. None) listed_process None ''1'' private_db of Inr a \<Rightarrow> True | Inl _ \<Rightarrow> False"
  "case load_steps sample_codec 2 private_db of Inr ss \<Rightarrow> map st_id ss = [6] | Inl _ \<Rightarrow> False"
  "step_private sample_codec private_step" "\<not> step_private sample_codec open_step"
  "steps_of 3 2 private_db = [private_step, open_step]"
  by code_simp+

theorem fallback_lists_private_movements_witness:
  "\<exists>a ss n m root. sources_payload_of no_repr (\<lambda>_. None) listed_process None ''1'' private_db = Inr a \<and>
    load_steps sample_codec 2 private_db = Inr ss \<and> step_private sample_codec private_step \<and>
    so_sources a = [root, PlainMovement 7 1 n None JNull, PlainMovement 6 2 m None JNull] \<and> 7 \<notin> st_id ` set ss"
proof -
  have process: "p_secrecy listed_process \<le> 0" "p_current listed_process = Some 2" "p_id listed_process = 3"
    by (simp_all add: listed_process_def new_process_def)
  have step: "s_id private_step = 7" "s_number private_step = 1" "s_occurred private_step = None" "s_title private_step = JNull"
      "s_id open_step = 6" "s_number open_step = 2" "s_occurred open_step = None" "s_title open_step = JNull"
    by (simp_all add: private_step_def open_step_def step_row_sample_def)
  let ?v = "(staged_version 2 10)\<lparr>v_process := 3, v_finalized := True\<rparr>"
  have final: "finalized_version (p_id listed_process) 2 private_db = Some (?v, listed_process)"
    by (simp add: finalized_version_def private_db_def staged_version_def new_version_def process)
  have ids: "distinct (map s_id (steps private_db))" by (simp add: private_db_def step)
  obtain a ss where run: "sources_payload_of no_repr (\<lambda>_. None) listed_process None ''1'' private_db = Inr a"
      "load_steps sample_codec 2 private_db = Inr ss"
    using private_db_answers(1,2) by (auto split: sum.splits)
  note shown = fallback_lists_private_movements [OF run(1) process(1,2) final ids run(2), unfolded process(3) private_db_answers(5)]
  from shown obtain ns root where listed: "length ns = 2"
      "so_sources a = root # map2 (\<lambda>s n. PlainMovement (s_id s) (s_number s) n (s_occurred s) (s_title s)) [private_step, open_step] ns"
    by (metis (no_types, lifting) length_Cons list.size(3) numeral_2_eq_2)
  have "7 \<in> s_id ` {s \<in> set [private_step, open_step]. step_private sample_codec s}"
    using private_db_answers(3) step(1) by force
  with shown have hidden: "7 \<notin> st_id ` set ss" by blast
  from listed(1) obtain n m where "ns = [n, m]" by (metis length_0_conv length_Suc_conv numeral_2_eq_2)
  with listed(2) hidden run private_db_answers(3) show ?thesis by (auto simp: step)
qed

definition read_db :: db where
  "read_db = secret_db\<lparr>tenant_processes := [(5, 3)]\<rparr>"

theorem latest_summary_is_the_published_witness:
  "\<exists>a t. latest_summary_payload no_repr (\<lambda>_. None) 5 ''1'' ''jsx'' read_db = Inr (Some a) \<and>
    load_publishable_summary no_repr (\<lambda>_. None) 3 2 read_db = Inr (Some t) \<and> sp_validation a = Some (ss_passed t, ss_errors t)"
proof -
  have rows: "summaries read_db = [secret_summary]" "processes read_db = [secret_process]" "tenant_processes read_db = [(5, 3)]"
      "versions read_db = []" by (simp_all add: read_db_def secret_db_def empty_db_def)
  have owned: "sm_process secret_summary = 3" "sm_version secret_summary = 2" by (simp_all add: secret_summary_def)
  have unique: "unique_rows read_db" by (simp add: unique_rows_def rows)
  have authorized: "get_authorized_process 5 ''1'' read_db = Some secret_process"
    by (simp add: get_authorized_process_def rows secret_fields)
  obtain doc usage where doc: "structured_document (\<lambda>_. None) (sm_structured secret_summary) = Inr doc"
      and usage: "summary_usage (\<lambda>_. None) (Some secret_summary) = Inr usage" using secret_document secret_usage by blast
  have good: "shown_summary no_repr (\<lambda>_. None) doc e secret_summary secret_process = Inr True" for e
    by (simp add: shown_summary_def secret_fields secret_restricted)
  have passed: "passed_summary 3 2 read_db = Some secret_summary" by (simp add: passed_summary_def rows owned secret_fields)
  obtain a where latest: "latest_summary_payload no_repr (\<lambda>_. None) 5 ''1'' ''jsx'' read_db = Inr (Some a)"
    by (simp add: latest_summary_payload_def authorized secret_fields passed doc good usage no_version_sources rows
        shown_markdown Let_def)
  have "current_summary 3 2 read_db = Some (secret_summary, secret_process)"
    by (simp add: current_summary_def rows owned secret_fields)
  then obtain t where stored: "load_publishable_summary no_repr (\<lambda>_. None) (p_id secret_process) 2 read_db = Inr (Some t)"
    by (simp add: load_publishable_summary_def secret_fields summary_row_is_publishable_def secret_restricted)
  from latest_summary_is_the_published [OF unique authorized secret_fields(8) latest stored] latest stored show ?thesis
    by (simp add: secret_fields)
qed

end
