(* ===== verification/Spec2Isabelle.thy ===== *)
theory Spec2Isabelle
  imports Worker Auth Judit Datajud JuditTasks Webhook Related Generation SummaryApi
begin

text \<open>
  A verification development for the core of the service under \<open>app/\<close>: a tenant asks for the
  summary of a court process; the request is acquired from a provider, indexed, summarised by a
  model, checked, and published only when every material claim of the summary has cleared
  evidence. All work runs as jobs of a durable queue in PostgreSQL.

  \<^bold>\<open>Parts and how they interact.\<close>
  An HTTP request creates a row of \<open>public_summary_requests\<close> (\<open>public_lifecycle.py\<close>, theory
  Lifecycle) and registers an acquisition (\<open>process_requests.py\<close>, Acquisition), which enqueues a
  job (\<open>queue.py\<close>, Queue). Workers (\<open>worker.py\<close>, Worker) claim jobs, run their tasks and complete
  or fail them; a reclaimer takes back the jobs of lost workers and the scheduler purges old ones
  (\<open>scheduler.py\<close>, QueueMachine). A tenant may also have a process tracked (\<open>judit_tracking.py\<close>,
  \<open>tracking_scheduler.py\<close>, Tracking). The attachments of a version of a process and the text
  extracted from them are kept by \<open>attachments.py\<close> (Attachments). The webhook events of the provider
  are read and the fields kept of a process are extracted by \<open>judit.py\<close> (Judit); the webhook of
  \<open>api.py\<close> (Webhook) accepts each delivery once and schedules the finalization when the response and
  the completion of a request have both arrived. Responses are staged and finalized as versions of a
  process (\<open>processes.py\<close>, \<open>process_semantics.py\<close>, Versions) by the task of \<open>judit_tasks.py\<close>
  (JuditTasks), which looks up official metadata in a second source and merges it (\<open>datajud_client.py\<close>,
  \<open>datajud_enrichment.py\<close>, \<open>datajud_provenance.py\<close>, Datajud).
  A caller is authenticated by an API key or a legacy token (\<open>auth.py\<close>, \<open>api_key_auth.py\<close>, Auth).
  The summary of a version is generated by \<open>rag.py\<close>. SummaryContext loads what a generation knows of
  the process: its glossary (\<open>tpu_glossary.py\<close>, Glossary), the movements that retrieval chooses
  (\<open>retrieval.py\<close>, \<open>reranking.py\<close>, Retrieval), the texts of the attachments of the tenant
  (\<open>attachment_context.py\<close>, \<open>attachment_signals.py\<close>, AttachmentContext) and the warnings of the source,
  every text in the view of \<open>unicode_security.py\<close> (UnicodeView). Generation sends the prompt, with the
  retries of \<open>providers.py\<close>, validates the answer and asks for one correction. The answer is
  parsed into a structured summary (\<open>summary_output.py\<close>, SummaryOutput); its text is validated
  (\<open>validation.py\<close>, Validation), its claims are built and validated (\<open>claim_evidence.py\<close>,
  ClaimEvidence) and verified against the cited sources (\<open>claim_verification.py\<close>, \<open>legal_facts.py\<close>,
  LegalText and Verification). SummaryStore keeps the summary with its evidence (EvidenceStore) and the
  sources it was made of (\<open>provenance.py\<close>, Provenance), and the outcome of
  a generation job moves the public requests (\<open>public_lifecycle_worker.py\<close>, GenerationResult).
  Related reads the movements of related processes (\<open>related_processes.py\<close>) for a tenant, and the
  routes of \<open>api_v1.py\<close> (SummaryApi) create a request and show its state, the latest summary and the
  sources of a process.
  Every error text passes \<open>log_safety.py\<close> (LogSafety) before it is stored.

  \<^bold>\<open>How the code is represented.\<close>
  Prelude: a Python exception is a value of \<open>pyexc\<close>, a fallible function returns \<open>pyexc + 'a\<close>,
  and database code is a program \<open>'s \<Rightarrow> 's \<times> 'a res\<close> composed with \<open>bind\<close>, \<open>try_except\<close>
  and \<open>transaction\<close>, which restores the state when its body raises. PyStr, Json, PyRe and Uuid model
  the part of the standard library the sources use: \<open>str\<close> and \<open>int\<close> on Latin-1 text, dynamic JSON
  values and the strict decoding of \<open>json_utils.py\<close>, the backtracking matcher of \<open>re\<close>, and the text
  form of a UUID. Schema holds one record per table row and one list per table. Generated ids and
  the clocks are arguments of the operations. An \<open>ORDER BY\<close> is a stable sort of the list, so a
  statement about every list covers every way to break ties. \<open>SELECT ... FOR UPDATE SKIP LOCKED\<close>
  takes the set of rows other transactions hold as an argument; concurrency is the interleaving of
  statements (Queue, QueueMachine) or of transactions.

  \<^bold>\<open>What the lemmas show.\<close>
  Queue and QueueMachine: the invariant of the job table under any interleaving of workers,
  reclaimers and the purge; the refinement of the life of a job; at most one owner per job; the
  fence that a reclaimed worker's writes do nothing; bounds on attempts and backoff.
  Lifecycle: creation is idempotent, transitions follow the rank of the statuses, a terminal status
  never changes, and \<open>step_order\<close>, \<open>transition_order\<close>, \<open>worker_order\<close> and \<open>acquisition_order\<close>
  (locales, each interpreted on the model's relations) lift a law of one statement to the programs
  built of them. GenerationResult and Worker: a request is completed only by a passing, published
  and current summary; a job that dies, in its worker or at the reclaimer, settles the requests
  that wait for it; whatever the tasks, a run keeps the invariants.
  SummaryOutput, ClaimEvidence, EvidenceStore: parsing yields canonical documents, built claims
  validate, validation and publication imply complete and cleared evidence, and stored evidence
  loads back. LegalText, Verification: a claim that is verified without a contradiction is grounded in
  what it cites. UnicodeView: hidden characters are revealed, plain text stays. Retrieval: the mandatory
  movements are kept within the bounds, and only public movements are read. Provenance: the used sources
  read back. AttachmentContext: the texts are bounded, fairly shared and authorized. Glossary: what is
  resolved can be recorded. Validation: what a validated text cannot contain, and the order of its
  sections exactly. SummaryStore: a published summary is not overwritten by its own kind, and one
  deadlock of the replacement. SummaryContext and Generation: a draft is what was checked, the exchange
  is bounded and its prompts cannot be closed from within (\<open>sends\<close>, a graded form of \<open>obeys\<close>), and a
  process under secrecy shows a few fields only; \<open>keeps_source\<close> interprets \<open>step_order\<close> once more for
  what a generation leaves alone. Related: the answer stays within the portfolio. SummaryApi: what a job
  shows is publishable now, the gate of the latest summary agrees with the one of the storage, and one
  list of sources that is not filtered. LogSafety: no configured secret survives the redaction. Acquisition and Tracking: the
  exact effect of a registration, one job per attempt, one open refresh per tracking, bounds and
  fairness of a reconciliation round, and two theorems on races of the code. Attachments: replaced
  chunks are read back exactly by the tenants who may, and the manifest keeps the processing state.
  Versions: the exact outcome of a finalization, final versions never change and the current one
  never goes back in time, unchanged content is recognised, and the one order of attachments in
  which it is not. Judit: accepted events are complete and canonical, extraction hides personal
  identifiers and everything under secrecy, and what it returns has the shape Versions relies on. Datajud: the merge is official and accounted for, its
  provenance reads back, and a lookup leaves the service only when it may. JuditTasks: a finalization
  moves every waiting request on, completes it only with published work, and one race in which an
  outdated payload is promoted. Webhook: a delivery counts once, the last of the two events schedules
  the finalization, and nothing happens without the token. Auth: a principal is entitled, and the rate
  limit is exact in every minute.

  \<^bold>\<open>Bounds and fuel.\<close>
  All functions are total; the loop of \<open>reject_non_finite_numbers\<close> ends because the total size of the
  pending values decreases. The matcher of PyRe recurses on the pattern and on the length of the text.
  There is no fuel: loops over rows are folds and recursion on lists, and \<open>call_with_retries\<close> recurses on
  the number of attempts left, at most three by the validated settings. Floating-point scores are
  rationals; the logarithm, the text search, the distance of embeddings, digests, the time zone
  database and the tables of Unicode properties are parameters.

  \<^bold>\<open>Not modelled.\<close>
  The providers (models, court data, embeddings) and the syntax analysis of \<open>json.loads\<close> are
  parameters. The encoding of answers as HTTP, middleware and sockets, the routes of tracking and of the front end, document parsers (PDF, DOCX, OCR) and their
  sandbox, the clients of the embedding and reranking models, the text of the system prompt, tracing,
  metrics, migrations and the deployment scripts are left out: they are input and output, constant
  text, or rest on libraries outside the repository. Characters beyond the alphabet of PyStr are not
  represented in strings; UnicodeView works on code points and maps the ones the sources name.
\<close>

end
